(* ===== verification/NanvilPrelude.thy ===== *)
theory NanvilPrelude
  imports Main "HOL-Library.Word"
begin

unbundle bit_operations_syntax

text \<open>
  Shared vocabulary of the development: the machine types of the Go sources, the rewrite
  collections the component proofs draw on, little-endian byte strings, and generic facts on
  lists, options and words that more than one component uses.
\<close>

section \<open>Types and rewrite collections\<close>

type_synonym byte = "8 word"
type_synonym u16 = "16 word"
type_synonym u32 = "32 word"
type_synonym u64 = "64 word"
type_synonym bytes = "byte list"

named_theorems codec_simps \<open>unfolding rules of the binary readers and writers\<close>
named_theorems store_simps \<open>lookup rules of the key-value stores\<close>
named_theorems trie_simps \<open>lookup rules of the Merkle-Patricia trie\<close>

section \<open>Little-endian byte strings\<close>

text \<open>\<open>le_nat\<close> is the value of a little-endian byte string; \<open>nat_le k v\<close> are the \<open>k\<close> low
  bytes of \<open>v\<close>, which is what \<open>binary.LittleEndian.PutUint\<close> stores.\<close>

primrec le_nat :: "bytes \<Rightarrow> nat" where
  "le_nat [] = 0"
| "le_nat (b # bs) = unat b + 256 * le_nat bs"

primrec nat_le :: "nat \<Rightarrow> nat \<Rightarrow> bytes" where
  "nat_le 0 v = []"
| "nat_le (Suc k) v = of_nat v # nat_le k (v div 256)"

lemma unat_byte_less [simp]: "unat (b :: byte) < 256"
  by (rule order_less_le_trans [OF unsigned_less]) simp

lemma length_nat_le [simp]: "length (nat_le k v) = k"
  by (induction k arbitrary: v) auto

lemma le_nat_append: "le_nat (xs @ ys) = le_nat xs + 256 ^ length xs * le_nat ys"
  by (induction xs) (auto simp: algebra_simps)

lemma le_nat_bound: "le_nat bs < 256 ^ length bs"
proof (induction bs)
  case (Cons b bs)
  have "unat b + 256 * le_nat bs < 256 + 256 * le_nat bs"
    by simp
  also have "\<dots> = 256 * Suc (le_nat bs)" by simp
  also have "\<dots> \<le> 256 * 256 ^ length bs"
    using Cons by (intro mult_le_mono2) simp
  finally show ?case by simp
qed simp

lemma le_nat_nat_le: "le_nat (nat_le k v) = v mod 256 ^ k"
  by (induction k arbitrary: v) (auto simp: unat_of_nat mod_mult2_eq)

lemma le_nat_nat_le_id: "v < 256 ^ k \<Longrightarrow> le_nat (nat_le k v) = v"
  by (simp add: le_nat_nat_le)

lemma nat_le_le_nat [simp]: "nat_le (length bs) (le_nat bs) = bs"
proof (induction bs)
  case (Cons b bs)
  have "(of_nat (unat b + 256 * le_nat bs) :: byte) = b"
    by (simp add: word_unat_eq_iff unat_of_nat del: of_nat_add of_nat_mult)
  moreover have "(unat b + 256 * le_nat bs) div 256 = le_nat bs"
    by (simp add: div_mult_self2)
  ultimately show ?case
    using Cons by simp
qed simp

lemma le_nat_inj: "length xs = length ys \<Longrightarrow> le_nat xs = le_nat ys \<Longrightarrow> xs = ys"
  by (metis nat_le_le_nat)

lemma nat_le_mod: "nat_le k (v mod 256 ^ k) = nat_le k v"
  by (metis le_nat_nat_le length_nat_le nat_le_le_nat)

section \<open>Words\<close>

lemma unat_lt_u64 [simp]: "unat (w :: u64) < 18446744073709551616"
  by (rule order_less_le_trans [OF unsigned_less]) simp

lemma unat_lt_u32 [simp]: "unat (w :: u32) < 4294967296"
  by (rule order_less_le_trans [OF unsigned_less]) simp

lemma unat_lt_u16 [simp]: "unat (w :: u16) < 65536"
  by (rule order_less_le_trans [OF unsigned_less]) simp

lemma unat_NOT_word: "unat (NOT w) = 2 ^ LENGTH('a) - 1 - unat (w :: 'a::len word)"
proof -
  have "NOT w = - 1 - w"
    by (simp add: not_eq_complement)
  also have "unat (- 1 - w) = unat (- 1 :: 'a word) - unat w"
    by (rule unat_sub) simp
  finally show ?thesis
    by (simp add: unsigned_minus_1_eq_mask mask_eq_exp_minus_1)
qed

lemma unat_and_mask: "unat (w AND mask k) = unat (w :: 'a::len word) mod 2 ^ k"
  by (metis take_bit_eq_mask take_bit_eq_mod unsigned_take_bit_eq)

section \<open>Lists\<close>

lemma take_Suc_snoc: "i < length xs \<Longrightarrow> take (Suc i) xs = take i xs @ [xs ! i]"
  by (rule take_Suc_conv_app_nth)

lemma last_take_nth: "0 < n \<Longrightarrow> n \<le> length xs \<Longrightarrow> last (take n xs) = xs ! (n - 1)"
  by (cases n) (simp_all add: take_Suc_conv_app_nth)

lemma append_eq_shortE:
  assumes "p @ q = xs @ ys" and "length p < length xs"
  obtains s where "xs = p @ s" and "s \<noteq> []"
proof
  have "take (length p) xs = p"
    using arg_cong [OF assms(1), of "take (length p)"] assms(2) by simp
  then show "xs = p @ drop (length p) xs" by (metis append_take_drop_id)
  show "drop (length p) xs \<noteq> []" using assms(2) by simp
qed

lemma append_eq_longE:
  assumes "p @ q = xs @ ys" and "\<not> length p < length xs"
  obtains s where "p = xs @ s" and "ys = s @ q"
proof
  let ?s = "drop (length xs) p"
  have "take (length xs) p = xs"
    using arg_cong [OF assms(1), of "take (length xs)"] assms(2) by simp
  then show p: "p = xs @ ?s" by (metis append_take_drop_id)
  from assms(1) have "xs @ ?s @ q = xs @ ys" using p by (metis append_assoc)
  then show "ys = ?s @ q" by simp
qed

end
