(* ===== verification/BigIntCodec.thy ===== *)
theory BigIntCodec
  imports NanvilPrelude
begin

text \<open>
  Model of \<open>pkg/encoding/bigint/bigint.go\<close>: the conversion between integers of the virtual
  machine and their little-endian two's complement byte strings. Both directions of the code
  work on the 64-bit limbs of \<open>math/big\<close>; the model keeps the limbs (\<open>64 word\<close>) and the
  in-place updates. \<open>twos_val\<close> is the reference meaning of a byte string.
\<close>

section \<open>The limbs of math/big\<close>

text \<open>A non-negative \<open>big.Int\<close> is its limbs, least significant first; \<open>SetBits\<close> reads them.\<close>

primrec limbs_nat :: "u64 list \<Rightarrow> nat" where
  "limbs_nat [] = 0"
| "limbs_nat (w # ws) = unat w + 2 ^ 64 * limbs_nat ws"

text \<open>\<open>nat_limbs v\<close> are the limbs \<open>Bits()\<close> returns: normalised, no leading zero limb.\<close>

fun nat_limbs :: "nat \<Rightarrow> u64 list" where
  "nat_limbs v = (if v = 0 then [] else of_nat v # nat_limbs (v div 2 ^ 64))"

declare nat_limbs.simps [simp del]

text \<open>\<open>bits.Len\<close> of one limb and \<open>BitLen\<close> of a limb vector (which reads the top limb only).\<close>

fun bits_len :: "nat \<Rightarrow> nat" where
  "bits_len v = (if v = 0 then 0 else Suc (bits_len (v div 2)))"

declare bits_len.simps [simp del]

definition bit_len :: "u64 list \<Rightarrow> nat" where
  "bit_len ws = (if ws = [] then 0 else (length ws - 1) * 64 + bits_len (unat (last ws)))"

section \<open>Decoding\<close>

text \<open>\<open>getEffectiveSize\<close>: the loop over \<open>size\<close>, from the length down.\<close>

fun effective_size_loop :: "bytes \<Rightarrow> byte \<Rightarrow> nat \<Rightarrow> nat" where
  "effective_size_loop buf b 0 = 0"
| "effective_size_loop buf b (Suc n) =
     (if buf ! n \<noteq> b then Suc n else effective_size_loop buf b n)"

definition getEffectiveSize :: "bytes \<Rightarrow> bool \<Rightarrow> nat" where
  "getEffectiveSize buf isNeg =
     effective_size_loop buf (if isNeg then 0xFF else 0) (length buf)"

text \<open>The inner loops of \<open>FromBytes\<close>: shift a byte into a limb, most significant byte first.\<close>

definition shift_in :: "u64 \<Rightarrow> byte \<Rightarrow> u64" where
  "shift_in w b = push_bit 8 w XOR ucast b"

definition load_limb :: "bytes \<Rightarrow> u64" where
  "load_limb bs = foldl shift_in 0 (rev bs)"

definition load_limbs :: "bytes \<Rightarrow> nat \<Rightarrow> u64 list" where
  "load_limbs data sz =
     (let lw = sz div 8
      in map (\<lambda>i. load_limb (take 8 (drop (i * 8) data))) [0..<lw]
         @ [load_limb (drop (lw * 8) (take sz data))])"

text \<open>The complement of the limbs of a negative number; the top one keeps its used bytes only.\<close>

definition complement_limbs :: "u64 list \<Rightarrow> nat \<Rightarrow> u64 list" where
  "complement_limbs ws sz =
     (let shift = (8 - sz mod 8) * 8; ws' = map (\<lambda>w. NOT w) ws; lw = sz div 8
      in ws'[lw := ws' ! lw AND drop_bit shift (NOT 0)])"

datatype bigint_panic = NilSlice

definition FromBytes :: "bytes option \<Rightarrow> bigint_panic + int" where
  "FromBytes input = (case input of
     None \<Rightarrow> Inl NilSlice
   | Some data \<Rightarrow>
      (if length data = 0 then Inr 0
       else let isNeg = data ! (length data - 1) AND 0x80 \<noteq> 0;
                sz = getEffectiveSize data isNeg
            in if sz = 0 then Inr (if isNeg then - 1 else 0)
               else let ws = load_limbs data sz
                    in if isNeg
                       then Inr (- int (limbs_nat (complement_limbs ws sz)) - 1)
                       else Inr (int (limbs_nat ws))))"

section \<open>Encoding\<close>

text \<open>The borrow loop over \<open>n.Bits()\<close>: returns the decremented limbs and \<open>nonZero\<close>.\<close>

fun dec_limbs :: "u64 list \<Rightarrow> bool \<Rightarrow> bool \<Rightarrow> u64 list \<times> bool" where
  "dec_limbs [] carry nonZero = ([], nonZero)"
| "dec_limbs (w # ws) carry nonZero =
     (let w' = (if carry then w - 1 else w);
          carry' = (if carry then w' = - 1 else carry);
          (ws', nz) = dec_limbs ws carry' (nonZero \<or> w' \<noteq> 0)
      in (w' # ws', nz))"

text \<open>The deferred loop that undoes it.\<close>

fun inc_limbs :: "u64 list \<Rightarrow> u64 list" where
  "inc_limbs [] = []"
| "inc_limbs (w # ws) = (if w + 1 = 0 then 0 # inc_limbs ws else (w + 1) # ws)"

definition fill_bytes :: "u64 list \<Rightarrow> nat \<Rightarrow> bytes" where
  "fill_bytes ws lb = rev (nat_le lb (limbs_nat ws))"

text \<open>\<open>ToPreallocatedBytes\<close>: the result, and the limbs of \<open>n\<close> after the deferred loop ran.\<close>

definition ToPreallocatedBytes :: "int \<Rightarrow> bytes \<times> u64 list" where
  "ToPreallocatedBytes n =
     (let bits = nat_limbs (nat \<bar>n\<bar>)
      in if n = 0 then ([], bits)
         else if n < 0 then
           (let (bits', nonZero) = dec_limbs bits True False
            in if \<not> nonZero then ([0xFF], inc_limbs bits')
               else let lb = bit_len bits' div 8 + 1;
                        data = rev (fill_bytes bits' lb)
                    in (map (\<lambda>b. NOT b) data, inc_limbs bits'))
         else (let lb = bit_len bits div 8 + 1 in (rev (fill_bytes bits lb), bits)))"

definition ToBytes :: "int \<Rightarrow> bytes" where
  "ToBytes n = fst (ToPreallocatedBytes n)"

section \<open>The reference: two's complement\<close>

definition twos_val :: "bytes \<Rightarrow> int" where
  "twos_val bs =
     (if bs \<noteq> [] \<and> 128 \<le> unat (last bs) then int (le_nat bs) - 256 ^ length bs
      else int (le_nat bs))"

section \<open>Decoding is two's complement\<close>

lemma unat_ucast_u64 [simp]: "unat (ucast b :: u64) = unat (b :: byte)"
  by (simp add: unsigned_ucast_eq take_bit_nat_eq_self order_less_le_trans [OF unat_byte_less])

lemma unat_shift_in:
  assumes "unat w < 2 ^ 56"
  shows "unat (shift_in w b) = 256 * unat w + unat b"
proof -
  have disj: "push_bit 8 w AND (ucast b :: u64) = 0"
    by (rule bit_word_eqI) (auto simp: bit_simps dest: bit_imp_le_length)
  have "push_bit 8 w XOR (ucast b :: u64) = push_bit 8 w + ucast b"
    using disj by (simp add: disjunctive_add_eq_xor)
  moreover have push: "unat (push_bit 8 w) = 256 * unat w"
    using assms by (simp add: push_bit_eq_mult unat_word_ariths)
  moreover have "256 * unat w + unat b < 2 ^ 64"
  proof -
    have "256 * unat w + unat b < 256 * Suc (unat w)" by simp
    also have "\<dots> \<le> 256 * 2 ^ 56" using assms by (intro mult_le_mono2) simp
    finally show ?thesis by simp
  qed
  ultimately show ?thesis
    by (simp add: shift_in_def unat_word_ariths)
qed

lemma unat_load_limb: "length bs \<le> 8 \<Longrightarrow> unat (load_limb bs) = le_nat bs"
proof (induction bs)
  case (Cons b bs)
  have "le_nat bs < 256 ^ length bs" by (rule le_nat_bound)
  also have "\<dots> \<le> (256 :: nat) ^ 7"
    using Cons.prems by (intro power_increasing) auto
  finally have "le_nat bs < 2 ^ 56" by simp
  with Cons show ?case
    by (simp add: load_limb_def unat_shift_in)
qed (simp add: load_limb_def)

lemma limbs_nat_append:
  "limbs_nat (xs @ ys) = limbs_nat xs + 2 ^ (64 * length xs) * limbs_nat ys"
  by (induction xs) (auto simp: algebra_simps power_add)

lemma limbs_nat_bound: "limbs_nat ws < 2 ^ (64 * length ws)"
proof (induction ws)
  case (Cons w ws)
  have "unat w + 2 ^ 64 * limbs_nat ws < 2 ^ 64 * Suc (limbs_nat ws)"
    by simp
  also have "\<dots> \<le> 2 ^ 64 * 2 ^ (64 * length ws)"
    using Cons by (intro mult_le_mono2) simp
  finally show ?case by (simp add: power_add)
qed simp

text \<open>The whole limbs hold the first \<open>8 * k\<close> bytes.\<close>

lemma limbs_nat_whole:
  "8 * k \<le> length bs \<Longrightarrow>
   limbs_nat (map (\<lambda>i. load_limb (take 8 (drop (i * 8) bs))) [0..<k]) = le_nat (take (8 * k) bs)"
proof (induction k)
  case (Suc k)
  have split: "take (8 * Suc k) bs = take (8 * k) bs @ take 8 (drop (8 * k) bs)"
    by (metis add.commute mult_Suc_right take_add)
  have len: "length (take (8 * k) bs) = 8 * k" using Suc.prems by simp
  have pow: "(256 :: nat) ^ (8 * k) = 2 ^ (64 * k)"
    by (simp add: power_mult)
  have "le_nat (take (8 * Suc k) bs)
      = le_nat (take (8 * k) bs) + 2 ^ (64 * k) * le_nat (take 8 (drop (8 * k) bs))"
    by (simp only: split le_nat_append len pow)
  with Suc show ?case
    by (simp add: limbs_nat_append unat_load_limb mult.commute)
qed simp

lemma limbs_nat_load_limbs:
  assumes "sz \<le> length data"
  shows "limbs_nat (load_limbs data sz) = le_nat (take sz data)"
proof -
  let ?lw = "sz div 8"
  have le: "8 * ?lw \<le> sz" by simp
  have split: "take sz data = take (8 * ?lw) data @ drop (?lw * 8) (take sz data)"
    by (metis append_take_drop_id le min.absorb1 mult.commute take_take)
  have len: "length (drop (?lw * 8) (take sz data)) \<le> 8"
    using assms by (simp add: minus_div_mult_eq_mod)
  have pow: "(256 :: nat) ^ (8 * ?lw) = 2 ^ (64 * ?lw)"
    by (simp add: power_mult)
  have "le_nat (take sz data)
      = le_nat (take (8 * ?lw) data) + 2 ^ (64 * ?lw) * le_nat (drop (?lw * 8) (take sz data))"
    using assms le by (subst split) (simp add: le_nat_append pow del: append_take_drop_id)
  then show ?thesis
    using assms le
    by (simp add: load_limbs_def Let_def limbs_nat_append limbs_nat_whole unat_load_limb len)
qed

text \<open>Complementing every limb, the top one within its used bytes, complements the value.\<close>

lemma limbs_nat_map_NOT:
  "Suc (limbs_nat (map (\<lambda>w. NOT w) ws) + limbs_nat ws) = 2 ^ (64 * length ws)"
proof (induction ws)
  case (Cons w ws)
  let ?a = "limbs_nat (map (\<lambda>w. NOT w) ws)" and ?b = "limbs_nat ws"
  have "Suc (unat (NOT w) + unat w) = 2 ^ 64"
    using unat_lt_u64 [of w] by (simp add: unat_NOT_word del: unat_lt_u64)
  then have "Suc (unat (NOT w) + 2 ^ 64 * ?a + (unat w + 2 ^ 64 * ?b)) = 2 ^ 64 * Suc (?a + ?b)"
    by (simp add: algebra_simps)
  also have "\<dots> = 2 ^ 64 * 2 ^ (64 * length ws)"
    by (simp only: Cons)
  finally show ?case
    by (simp add: power_add)
qed simp

lemma length_load_limbs [simp]: "length (load_limbs data sz) = Suc (sz div 8)"
  by (simp add: load_limbs_def Let_def)

lemma top_mask: "drop_bit ((8 - m) * 8) (NOT 0 :: u64) = mask (8 * m)" if "m < 8"
  using that by (intro bit_word_eqI) (auto simp: bit_simps)

lemma complement_join:
  assumes "l < p" and "(r :: nat) < q"
  shows "p - Suc l + p * (q - Suc r) = p * q - Suc (l + p * r)"
proof -
  obtain x where x: "p = Suc (l + x)" using assms(1) less_imp_Suc_add by blast
  obtain y where y: "q = Suc (r + y)" using assms(2) less_imp_Suc_add by blast
  show ?thesis unfolding x y by (simp add: algebra_simps)
qed

lemma complement_mod:
  assumes "r < 2 ^ k" and "k \<le> n"
  shows "(2 ^ n - Suc r) mod 2 ^ k = 2 ^ k - Suc r"
proof -
  have "(2 :: nat) ^ n = 2 ^ k * 2 ^ (n - k)"
    using assms(2) by (simp flip: power_add)
  moreover have "2 ^ k - Suc r + 2 ^ k * (2 ^ (n - k) - Suc 0) = 2 ^ k * 2 ^ (n - k) - Suc (r + 2 ^ k * 0)"
    using assms(1) by (intro complement_join) auto
  ultimately have "2 ^ n - Suc r = 2 ^ k - Suc r + 2 ^ k * (2 ^ (n - k) - Suc 0)"
    by simp
  then show ?thesis by simp
qed

lemma limbs_nat_complement:
  assumes "sz \<le> length data"
  shows "limbs_nat (complement_limbs (load_limbs data sz) sz)
       = 256 ^ sz - 1 - le_nat (take sz data)"
proof -
  let ?lw = "sz div 8" and ?m = "sz mod 8"
  define low where "low = map (\<lambda>i. load_limb (take 8 (drop (i * 8) data))) [0..<?lw]"
  define rest where "rest = drop (?lw * 8) (take sz data)"
  have ws: "load_limbs data sz = low @ [load_limb rest]"
    by (simp add: load_limbs_def Let_def low_def rest_def)
  have len: "length low = ?lw" "length rest = ?m"
    using assms by (simp_all add: low_def rest_def minus_div_mult_eq_mod)
  have rest_lt: "le_nat rest < 2 ^ (8 * ?m)"
    using le_nat_bound [of rest] len by (simp add: power_mult)
  have "complement_limbs (load_limbs data sz) sz
      = map (\<lambda>w. NOT w) low @ [NOT (load_limb rest) AND mask (8 * ?m)]"
    using top_mask [of ?m] len
    by (simp add: complement_limbs_def Let_def ws nth_append list_update_append)
  moreover have "unat (NOT (load_limb rest) AND mask (8 * ?m)) = 2 ^ (8 * ?m) - 1 - le_nat rest"
  proof -
    have m: "8 * ?m \<le> 64" "length rest \<le> 8" using len mod_less_divisor [of 8 sz] by linarith+
    from complement_mod [OF rest_lt m(1)]
    show ?thesis using m by (simp add: unat_and_mask unat_NOT_word unat_load_limb)
  qed
  moreover have "le_nat (take sz data) = limbs_nat low + 2 ^ (64 * ?lw) * le_nat rest"
    using limbs_nat_load_limbs [OF assms] len mod_less_divisor [of 8 sz]
    by (simp add: ws limbs_nat_append unat_load_limb)
  moreover have "(256 :: nat) ^ sz = 2 ^ (64 * ?lw) * 2 ^ (8 * ?m)"
  proof -
    have "(256 :: nat) ^ sz = 2 ^ (8 * sz)" by (simp add: power_mult)
    also have "8 * sz = 64 * ?lw + 8 * ?m" by presburger
    finally show ?thesis by (simp add: power_add)
  qed
  moreover have "limbs_nat low < 2 ^ (64 * ?lw)"
    using limbs_nat_bound [of low] len by simp
  moreover have "limbs_nat (map (\<lambda>w. NOT w) low) = 2 ^ (64 * ?lw) - 1 - limbs_nat low"
    using limbs_nat_map_NOT [of low] len by simp
  ultimately show ?thesis
    using complement_join [of "limbs_nat low" "2 ^ (64 * ?lw)" "le_nat rest" "2 ^ (8 * ?m)"]
      rest_lt len by (simp add: limbs_nat_append)
qed

lemma effective_size_loop_spec:
  assumes "n \<le> length buf" and "effective_size_loop buf b n = m"
  shows "m \<le> n \<and> take n buf = take m buf @ replicate (n - m) b \<and> (0 < m \<longrightarrow> buf ! (m - 1) \<noteq> b)"
  using assms
proof (induction n)
  case (Suc n)
  then show ?case
    by (cases "buf ! n = b")
      (auto simp: take_Suc_conv_app_nth Suc_diff_le replicate_append_same)
qed simp

lemma getEffectiveSize_spec:
  assumes "getEffectiveSize buf isNeg = m"
  shows "m \<le> length buf"
    and "buf = take m buf @ replicate (length buf - m) (if isNeg then 0xFF else 0)"
    and "0 < m \<Longrightarrow> buf ! (m - 1) \<noteq> (if isNeg then 0xFF else 0)"
  using effective_size_loop_spec [OF le_refl assms [unfolded getEffectiveSize_def]] by auto

lemma le_nat_replicate_0 [simp]: "le_nat (replicate k 0) = 0"
  by (induction k) auto

lemma le_nat_replicate_FF: "Suc (le_nat (replicate k 0xFF)) = 256 ^ k"
proof (induction k)
  case (Suc k)
  have "Suc (le_nat (replicate (Suc k) 0xFF)) = 256 * Suc (le_nat (replicate k 0xFF))" by simp
  with Suc show ?case by simp
qed simp

lemma sign_bit: "(b :: byte) AND 0x80 \<noteq> 0 \<longleftrightarrow> 128 \<le> unat b"
proof -
  have "(b AND 2 ^ 7 = 0) = (\<not> bit b 7)"
    by (rule and_exp_eq_0_iff_not_bit)
  moreover have "bit b 7 \<longleftrightarrow> odd (unat b div 128)"
  proof -
    have "bit (unat b) 7 \<longleftrightarrow> odd (unat b div 128)" by (simp add: bit_iff_odd)
    then show ?thesis by (simp add: bit_unsigned_iff)
  qed
  moreover have "odd (unat b div 128) \<longleftrightarrow> 128 \<le> unat b"
  proof (cases "128 \<le> unat b")
    case True
    then have "unat b div 128 = 1"
      by (intro div_nat_eqI) simp_all
    with True show ?thesis by simp
  qed simp
  ultimately show ?thesis by simp
qed

lemma neg_trim:
  assumes "m \<le> length bs" and "bs = take m bs @ replicate (length bs - m) 0xFF"
  shows "int (le_nat bs) - 256 ^ length bs = int (le_nat (take m bs)) - 256 ^ m"
proof -
  let ?k = "length bs - m"
  have "le_nat bs = le_nat (take m bs) + 256 ^ m * le_nat (replicate ?k 0xFF)"
    by (subst assms(2)) (simp add: le_nat_append assms(1) del: append_take_drop_id)
  then have "int (le_nat bs) = int (le_nat (take m bs)) + 256 ^ m * int (le_nat (replicate ?k 0xFF))"
    by simp
  also have "int (le_nat (replicate ?k 0xFF)) = 256 ^ ?k - 1"
    using arg_cong [OF le_nat_replicate_FF [of ?k], of int] by simp
  also have "(256 :: int) ^ m * (256 ^ ?k - 1) = 256 ^ length bs - 256 ^ m"
    using assms(1) by (simp add: right_diff_distrib flip: power_add)
  finally show ?thesis by simp
qed

lemma FromBytes_twos_val: "FromBytes (Some bs) = Inr (twos_val bs)"
proof (cases "bs = []")
  case True
  then show ?thesis by (simp add: FromBytes_def twos_val_def)
next
  case False
  define isNeg where "isNeg \<longleftrightarrow> bs ! (length bs - 1) AND 0x80 \<noteq> 0"
  define sz where "sz = getEffectiveSize bs isNeg"
  note sz = getEffectiveSize_spec [OF sz_def [symmetric]]
  have last: "isNeg \<longleftrightarrow> 128 \<le> unat (last bs)"
    using False by (simp add: isNeg_def sign_bit last_conv_nth)
  have code: "FromBytes (Some bs) =
      (if sz = 0 then Inr (if isNeg then - 1 else 0)
       else if isNeg then Inr (- int (limbs_nat (complement_limbs (load_limbs bs sz) sz)) - 1)
       else Inr (int (limbs_nat (load_limbs bs sz))))"
    using False by (simp add: FromBytes_def Let_def isNeg_def sz_def)
  show ?thesis
  proof (cases isNeg)
    case True
    have lt: "le_nat (take sz bs) < 256 ^ sz"
      using le_nat_bound [of "take sz bs"] sz(1) by simp
    have "int (limbs_nat (complement_limbs (load_limbs bs sz) sz))
        = 256 ^ sz - 1 - int (le_nat (take sz bs))"
      using lt by (simp add: limbs_nat_complement [OF sz(1)] of_nat_diff)
    moreover have "twos_val bs = int (le_nat (take sz bs)) - 256 ^ sz"
      using True last False sz neg_trim [OF sz(1)] by (simp add: twos_val_def)
    ultimately show ?thesis using True code by simp
  next
    case False': False
    have "le_nat bs = le_nat (take sz bs @ replicate (length bs - sz) 0)"
      using sz(2) False' by simp
    then have "le_nat bs = le_nat (take sz bs)" by (simp add: le_nat_append)
    then show ?thesis
      using False' last code by (simp add: twos_val_def limbs_nat_load_limbs [OF sz(1)])
  qed
qed

section \<open>Encoding is the shortest two's complement\<close>

lemma bits_len_le_iff: "bits_len v \<le> k \<longleftrightarrow> v < 2 ^ k"
proof (induction v arbitrary: k rule: bits_len.induct)
  case (1 v)
  show ?case
  proof (cases "v = 0")
    case False
    show ?thesis
    proof (cases k)
      case (Suc j)
      with 1 [OF False, of j] False show ?thesis
        by (simp add: bits_len.simps [of v]) linarith
    qed (use False in \<open>simp add: bits_len.simps [of v]\<close>)
  qed (simp add: bits_len.simps)
qed

lemma bit_len_top:
  assumes "ws \<noteq> []" and "last ws \<noteq> 0"
  shows "bit_len ws = bits_len (limbs_nat ws)"
proof (rule antisym)
  obtain us w where ws: "ws = us @ [w]" using assms(1) by (metis append_butlast_last_id)
  have w: "w \<noteq> 0" "unat w \<noteq> 0" using assms(2) by (auto simp: ws unat_eq_zero)
  have val: "limbs_nat ws = limbs_nat us + 2 ^ (64 * length us) * unat w"
    by (simp add: ws limbs_nat_append)
  have top: "bit_len ws = 64 * length us + bits_len (unat w)"
    by (simp add: bit_len_def ws)
  have us: "limbs_nat us < 2 ^ (64 * length us)" by (rule limbs_nat_bound)
  have "unat w < 2 ^ bits_len (unat w)" using bits_len_le_iff by blast
  then have "2 ^ (64 * length us) * Suc (unat w) \<le> 2 ^ (64 * length us) * 2 ^ bits_len (unat w)"
    by (intro mult_le_mono2) simp
  with us show "bits_len (limbs_nat ws) \<le> bit_len ws"
    by (simp add: bits_len_le_iff top val power_add)
  have pos: "0 < bits_len (unat w)" using w by (subst bits_len.simps) simp
  have "\<not> bits_len (unat w) \<le> bits_len (unat w) - 1" using pos by simp
  then have "2 ^ (bits_len (unat w) - 1) \<le> unat w"
    by (simp add: bits_len_le_iff not_less)
  then have "2 ^ (64 * length us) * 2 ^ (bits_len (unat w) - 1) \<le> limbs_nat ws"
    unfolding val by (intro trans_le_add2 mult_le_mono2)
  then have "\<not> bits_len (limbs_nat ws) \<le> 64 * length us + (bits_len (unat w) - 1)"
    by (simp add: bits_len_le_iff power_add)
  with pos show "bit_len ws \<le> bits_len (limbs_nat ws)" by (simp add: top)
qed

lemma limbs_nat_nat_limbs [simp]: "limbs_nat (nat_limbs v) = v"
proof (induction v rule: nat_limbs.induct)
  case (1 v)
  then show ?case
    by (cases "v = 0") (simp_all add: nat_limbs.simps [of v] nat_limbs.simps [of 0] unat_of_nat)
qed

lemma nat_limbs_Nil [simp]: "nat_limbs v = [] \<longleftrightarrow> v = 0"
  by (simp add: nat_limbs.simps [of v])

lemma last_nat_limbs: "v \<noteq> 0 \<Longrightarrow> last (nat_limbs v) \<noteq> 0"
proof (induction v rule: nat_limbs.induct)
  case (1 v)
  show ?case
  proof (cases "v div 2 ^ 64 = 0")
    case True
    then have "v < 2 ^ 64" by (simp add: div_eq_0_iff)
    with True 1 show ?thesis
      by (simp add: nat_limbs.simps [of v] word_of_nat_eq_0_iff dvd_eq_mod_eq_0)
  next
    case False
    with 1 show ?thesis
      by (subst nat_limbs.simps) simp
  qed
qed

lemma limbs_nat_eq_0: "limbs_nat ws = 0 \<longleftrightarrow> set ws \<subseteq> {0}"
  by (induction ws) (auto simp: unat_eq_zero)

lemma dec_limbs_no_carry: "dec_limbs ws False nz = (ws, nz \<or> limbs_nat ws \<noteq> 0)"
  by (induction ws arbitrary: nz) (auto simp: Let_def unat_eq_zero)

text \<open>The borrow loop subtracts one, reports whether anything is left, and the deferred loop
  restores the limbs it changed.\<close>

lemma dec_limbs_spec:
  assumes "ws \<noteq> []" and "last ws \<noteq> 0" and "dec_limbs ws True nz = (ws', nz')"
  shows "Suc (limbs_nat ws') = limbs_nat ws \<and> length ws' = length ws
       \<and> (last ws' \<noteq> 0 \<or> ws' = replicate (length ws - 1) (- 1) @ [0])
       \<and> nz' = (nz \<or> limbs_nat ws' \<noteq> 0) \<and> inc_limbs ws' = ws"
  using assms
proof (induction ws arbitrary: nz ws' nz')
  case (Cons w ws)
  show ?case
  proof (cases "w = 0")
    case True
    with Cons.prems(2) have ne: "ws \<noteq> []" "last ws \<noteq> 0" by (auto split: if_splits)
    obtain us uz where us: "dec_limbs ws True True = (us, uz)" by fastforce
    note IH = Cons.IH [OF ne us]
    from IH have "limbs_nat ws = Suc (limbs_nat us)" by simp
    moreover have "ws' = - 1 # us" "nz' = uz"
      using True Cons.prems(3) us by (auto simp: Let_def)
    moreover have "unat (- 1 :: u64) = 2 ^ 64 - 1"
      by (simp add: unsigned_minus_1_eq_mask mask_eq_exp_minus_1)
    ultimately show ?thesis
      using True ne IH by (cases ws) auto
  next
    case False
    then have ne: "w - 1 \<noteq> - 1" by simp
    then have ws': "ws' = (w - 1) # ws" "nz' = (nz \<or> w - 1 \<noteq> 0 \<or> limbs_nat ws \<noteq> 0)"
      using Cons.prems(3) by (auto simp: Let_def dec_limbs_no_carry)
    have un: "Suc (unat (w - 1)) = unat w"
      using False by (simp add: unat_minus_one unat_gt_0 Suc_pred)
    have z: "w - 1 \<noteq> 0 \<longleftrightarrow> unat (w - 1) \<noteq> 0" by (simp add: unat_eq_zero)
    show ?thesis
      using False Cons.prems(2) un z by (cases "ws = []") (auto simp: ws' simp flip: un)
  qed
qed simp

lemma limbs_nat_ones: "Suc (limbs_nat (replicate k (- 1) @ [0])) = 2 ^ (64 * k)"
  using limbs_nat_map_NOT [of "replicate k 0"]
  by (simp add: limbs_nat_append limbs_nat_eq_0 [THEN iffD2, of "replicate k 0"] set_replicate_conv_if)

lemma bit_len_dec:
  assumes "v \<noteq> 0" and "dec_limbs (nat_limbs v) True False = (ws', nz)"
  shows "bit_len ws' = bits_len (v - 1)" and "limbs_nat ws' = v - 1"
    and "nz \<longleftrightarrow> v \<noteq> 1" and "inc_limbs ws' = nat_limbs v"
proof -
  have ne: "nat_limbs v \<noteq> []" using assms(1) by simp
  note spec = dec_limbs_spec [OF ne last_nat_limbs [OF assms(1)] assms(2)]
  then show val: "limbs_nat ws' = v - 1" and "inc_limbs ws' = nat_limbs v" by auto
  show "nz \<longleftrightarrow> v \<noteq> 1" using spec assms(1) by auto
  show "bit_len ws' = bits_len (v - 1)"
  proof (cases "last ws' = 0")
    case False
    with spec ne have "ws' \<noteq> []" by auto
    from bit_len_top [OF this False] show ?thesis by (simp add: val)
  next
    case True
    define k where "k = length (nat_limbs v) - 1"
    from True spec have ws': "ws' = replicate k (- 1) @ [0]" by (simp add: k_def)
    have v: "Suc (v - 1) = 2 ^ (64 * k)" using limbs_nat_ones [of k] val by (simp add: ws')
    have "bits_len (v - 1) = 64 * k"
    proof (rule antisym)
      show "bits_len (v - 1) \<le> 64 * k" using v by (simp add: bits_len_le_iff)
      show "64 * k \<le> bits_len (v - 1)"
      proof (rule ccontr)
        assume "\<not> 64 * k \<le> bits_len (v - 1)"
        then have "bits_len (v - 1) \<le> 64 * k - 1" "0 < 64 * k" by auto
        then have "Suc (v - 1) \<le> 2 ^ (64 * k - 1)" by (simp add: bits_len_le_iff Suc_le_eq)
        moreover have "(2 :: nat) ^ (64 * k - 1) < 2 ^ (64 * k)"
          using \<open>0 < 64 * k\<close> by (intro power_strict_increasing) auto
        ultimately show False using v by simp
      qed
    qed
    then show ?thesis by (simp add: bit_len_def ws' bits_len.simps [of 0])
  qed
qed

section \<open>The encoder against the reference\<close>

lemma le_nat_map_NOT: "Suc (le_nat (map (\<lambda>b. NOT b) bs) + le_nat bs) = 256 ^ length bs"
proof (induction bs)
  case (Cons b bs)
  have "Suc (unat (NOT b) + unat b) = 256"
    using unat_byte_less [of b] by (simp add: unat_NOT_word del: unat_byte_less)
  then have "Suc (unat (NOT b) + 256 * le_nat (map (\<lambda>b. NOT b) bs) + (unat b + 256 * le_nat bs))
      = 256 * Suc (le_nat (map (\<lambda>b. NOT b) bs) + le_nat bs)"
    by (simp add: algebra_simps)
  also have "\<dots> = 256 * 256 ^ length bs" by (simp only: Cons)
  finally show ?case by simp
qed simp

text \<open>\<open>magnitude n\<close> is what the encoder measures: \<open>n\<close>, or \<open>\<bar>n\<bar> - 1\<close> for a negative number.\<close>

definition magnitude :: "int \<Rightarrow> nat" where
  "magnitude n = (if n < 0 then nat (- n) - 1 else nat n)"

lemma ToPreallocatedBytes_eq:
  "ToPreallocatedBytes n =
    ((if n = 0 then [] else if n = - 1 then [0xFF]
      else let data = nat_le (bits_len (magnitude n) div 8 + 1) (magnitude n)
           in if n < 0 then map (\<lambda>b. NOT b) data else data),
     nat_limbs (nat \<bar>n\<bar>))"
proof (cases "n < 0")
  case True
  define v where "v = nat \<bar>n\<bar>"
  obtain ws nz where dec: "dec_limbs (nat_limbs v) True False = (ws, nz)" by fastforce
  have "v \<noteq> 0" using True by (simp add: v_def)
  note d = bit_len_dec [OF this dec]
  have v: "v \<noteq> 1 \<longleftrightarrow> n \<noteq> - 1" "magnitude n = v - 1"
    using True by (auto simp: v_def magnitude_def)
  show ?thesis
    unfolding ToPreallocatedBytes_def v_def [symmetric] Let_def dec
    using True d v by (simp add: fill_bytes_def del: nat_le.simps)
next
  case False
  then show ?thesis
    by (cases "n = 0")
      (simp_all add: ToPreallocatedBytes_def magnitude_def fill_bytes_def Let_def
        bit_len_top last_nat_limbs)
qed

lemma ToBytes_eq:
  "ToBytes n = (if n = 0 then [] else if n = - 1 then [0xFF]
      else let data = nat_le (bits_len (magnitude n) div 8 + 1) (magnitude n)
           in if n < 0 then map (\<lambda>b. NOT b) data else data)"
  by (simp add: ToBytes_def ToPreallocatedBytes_eq)

lemma length_ToBytes: "length (ToBytes n) = (if n = 0 then 0 else bits_len (magnitude n) div 8 + 1)"
  by (simp add: ToBytes_eq Let_def magnitude_def bits_len.simps [of 0])

lemma length_ToBytes_le_iff:
  assumes "0 < k"
  shows "length (ToBytes n) \<le> k \<longleftrightarrow> - (2 ^ (8 * k - 1)) \<le> n \<and> n < 2 ^ (8 * k - 1)"
proof -
  have "bits_len (magnitude n) div 8 + 1 \<le> k \<longleftrightarrow> bits_len (magnitude n) \<le> 8 * k - 1"
    using assms by (simp add: less_eq_Suc_le [symmetric] div_less_iff_less_mult) linarith
  also have "\<dots> \<longleftrightarrow> magnitude n < 2 ^ (8 * k - 1)" by (rule bits_len_le_iff)
  also have "\<dots> \<longleftrightarrow> int (magnitude n) < 2 ^ (8 * k - 1)"
    by (metis of_nat_less_iff of_nat_numeral of_nat_power)
  also have "\<dots> \<longleftrightarrow> - (2 ^ (8 * k - 1)) \<le> n \<and> n < 2 ^ (8 * k - 1)"
  proof -
    define h :: int where "h = 2 ^ (8 * k - 1)"
    have "int (magnitude n) = (if n < 0 then - n - 1 else n)" by (auto simp: magnitude_def)
    moreover have "0 < h" by (simp add: h_def)
    ultimately show ?thesis unfolding h_def [symmetric] by auto
  qed
  finally show ?thesis
    using assms by (auto simp: length_ToBytes)
qed

lemma le_nat_high:
  assumes "bs \<noteq> []"
  shows "128 \<le> unat (last bs) \<longleftrightarrow> 2 ^ (8 * length bs - 1) \<le> le_nat bs"
proof -
  obtain us b where bs: "bs = us @ [b]" using assms by (metis append_butlast_last_id)
  have pow: "(2 :: nat) ^ (8 * length bs - 1) = 128 * 256 ^ length us"
    by (simp add: bs power_mult power_add)
  have val: "le_nat bs = le_nat us + 256 ^ length us * unat b" by (simp add: bs le_nat_append)
  have lt: "le_nat us < 256 ^ length us" by (rule le_nat_bound)
  show ?thesis
  proof (cases "128 \<le> unat b")
    case True
    then have "256 ^ length us * 128 \<le> 256 ^ length us * unat b" by (intro mult_le_mono2)
    then have "2 ^ (8 * length bs - 1) \<le> le_nat bs" unfolding pow val by linarith
    with True show ?thesis by (simp add: bs)
  next
    case False
    then have "256 ^ length us * Suc (unat b) \<le> 256 ^ length us * 128" by (intro mult_le_mono2) simp
    then have "256 ^ length us + 256 ^ length us * unat b \<le> 128 * 256 ^ length us"
      by (simp only: mult_Suc_right mult.commute [of 128])
    with lt have "le_nat bs < 2 ^ (8 * length bs - 1)" unfolding pow val by linarith
    with False show ?thesis by (simp add: bs)
  qed
qed

lemma twos_val_range:
  assumes "bs \<noteq> []"
  shows "- (2 ^ (8 * length bs - 1)) \<le> twos_val bs \<and> twos_val bs < 2 ^ (8 * length bs - 1)"
proof -
  define h :: nat where "h = 2 ^ (8 * length bs - 1)"
  have "(256 :: nat) ^ length bs = 2 ^ (8 * length bs)" by (simp add: power_mult)
  also have "8 * length bs = Suc (8 * length bs - 1)" using assms by simp
  finally have p: "(256 :: nat) ^ length bs = 2 * h" unfolding h_def by (metis power_Suc)
  have lt: "le_nat bs < 2 * h" using le_nat_bound [of bs] p by simp
  have "int (256 ^ length bs) = int (2 * h)" by (simp only: p)
  then have pi: "(256 :: int) ^ length bs = 2 * int h" by simp
  have hi: "(2 :: int) ^ (8 * length bs - 1) = int h" by (simp add: h_def)
  show ?thesis
    using lt le_nat_high [OF assms] assms
    unfolding twos_val_def hi pi h_def [symmetric] by auto
qed

lemma twos_val_ToBytes: "twos_val (ToBytes n) = n"
proof (cases "n = 0 \<or> n = - 1")
  case True
  then show ?thesis by (auto simp: ToBytes_eq twos_val_def)
next
  case False
  define lb where "lb = bits_len (magnitude n) div 8 + 1"
  define data where "data = nat_le lb (magnitude n)"
  have len: "length data = lb" "data \<noteq> []" by (auto simp: data_def lb_def simp flip: length_greater_0_conv)
  have "bits_len (magnitude n) < lb * 8"
    by (simp add: lb_def flip: div_less_iff_less_mult)
  then have "bits_len (magnitude n) \<le> 8 * lb - 1" by simp
  then have small: "magnitude n < 2 ^ (8 * lb - 1)" by (simp add: bits_len_le_iff)
  also have "\<dots> \<le> (2 :: nat) ^ (8 * lb)" by (intro power_increasing) auto
  finally have val: "le_nat data = magnitude n"
    by (simp add: data_def le_nat_nat_le_id power_mult)
  with small len have low: "unat (last data) < 128"
    using le_nat_high [of data] by simp
  show ?thesis
  proof (cases "n < 0")
    case True
    have "unat (last (map (\<lambda>b. NOT b) data)) = 255 - unat (last data)"
      using len by (simp add: last_map unat_NOT_word)
    with low have high: "128 \<le> unat (last (map (\<lambda>b. NOT b) data))" by simp
    have "int (le_nat (map (\<lambda>b. NOT b) data)) = 256 ^ length data - 1 - int (le_nat data)"
      using arg_cong [OF le_nat_map_NOT [of data], of int] by simp
    moreover have "ToBytes n = map (\<lambda>b. NOT b) data"
      using False True by (simp add: ToBytes_eq data_def lb_def Let_def)
    ultimately show ?thesis
      using high len True by (simp add: twos_val_def val magnitude_def)
  next
    case False': False
    then have "ToBytes n = data"
      using False by (simp add: ToBytes_eq data_def lb_def Let_def)
    with low val False' show ?thesis by (simp add: twos_val_def magnitude_def)
  qed
qed

lemma twos_val_inj: "length xs = length ys \<Longrightarrow> twos_val xs = twos_val ys \<Longrightarrow> xs = ys"
proof (rule le_nat_inj)
  assume len: "length xs = length ys" and eq: "twos_val xs = twos_val ys"
  have "int (le_nat bs) = twos_val bs mod 256 ^ length bs" for bs
  proof -
    have "int (le_nat bs) < 256 ^ length bs"
      using le_nat_bound [of bs] by (metis of_nat_less_iff of_nat_numeral of_nat_power)
    then show ?thesis by (simp add: twos_val_def)
  qed
  from this [of xs] this [of ys] show "le_nat xs = le_nat ys" using len eq by simp
qed

section \<open>Correctness of the codec\<close>

text \<open>C1. Decoding what was encoded returns the integer: for every \<open>n\<close>, \<open>FromBytes(ToBytes(n))\<close>
  does not panic and yields \<open>n\<close>.\<close>

theorem FromBytes_ToBytes: "FromBytes (Some (ToBytes n)) = Inr n"
  by (simp add: FromBytes_twos_val twos_val_ToBytes)

text \<open>C2. The limb-wise decoder computes the two's complement value of its input, whatever its
  length and however much sign padding it carries, and panics exactly on a nil slice.\<close>

theorem FromBytes_is_twos_complement:
  "FromBytes input = (case input of None \<Rightarrow> Inl NilSlice | Some bs \<Rightarrow> Inr (twos_val bs))"
  by (cases input) (simp_all add: FromBytes_twos_val, simp add: FromBytes_def)

text \<open>The encoding is the shortest one, and a string of that length with the same value is the
  encoding itself: \<open>ToBytes\<close> is canonical.\<close>

theorem ToBytes_shortest:
  assumes "FromBytes (Some bs) = Inr n"
  shows "length (ToBytes n) \<le> length bs \<and> (length bs = length (ToBytes n) \<longrightarrow> bs = ToBytes n)"
proof -
  have n: "twos_val bs = n" using assms by (simp add: FromBytes_twos_val)
  have "length (ToBytes n) \<le> length bs"
  proof (cases "bs = []")
    case True
    with n show ?thesis by (simp add: twos_val_def ToBytes_eq)
  next
    case False
    then show ?thesis using twos_val_range [OF False] n length_ToBytes_le_iff [of "length bs" n] by simp
  qed
  moreover have "bs = ToBytes n" if "length bs = length (ToBytes n)"
    using that n by (intro twos_val_inj) (simp_all add: twos_val_ToBytes)
  ultimately show ?thesis by blast
qed

theorem ToBytes_shortest_witness:
  "length (ToBytes (- 2)) \<le> length [0xFE, 0xFF :: byte]"
proof -
  have "FromBytes (Some [0xFE, 0xFF]) = Inr (- 2)"
    by (simp add: FromBytes_twos_val twos_val_def)
  from ToBytes_shortest [OF this] show ?thesis by blast
qed

text \<open>C3. The encoder decrements the limbs of a negative argument in place and restores them
  before it returns, on every path: the caller's integer is unchanged.\<close>

theorem ToPreallocatedBytes_restores:
  "snd (ToPreallocatedBytes n) = nat_limbs (nat \<bar>n\<bar>)"
  by (simp add: ToPreallocatedBytes_eq)

text \<open>C4. An integer fits the 32 bytes of a VM integer exactly when it is a signed 256-bit one.\<close>

theorem ToBytes_fits_vm: "length (ToBytes n) \<le> 32 \<longleftrightarrow> - (2 ^ 255) \<le> n \<and> n < 2 ^ 255"
  using length_ToBytes_le_iff [of 32 n] by simp

end
