(* ===== verification/BinIO.thy ===== *)
theory BinIO
  imports NanvilPrelude
begin

text \<open>
  Model of \<open>pkg/io\<close>: \<open>BinReader\<close> over a byte buffer (\<open>binaryReader.go\<close>), \<open>BinWriter\<close> over a
  byte buffer (\<open>binaryWriter.go\<close>, \<open>binaryBufWriter.go\<close>) and the size estimates of \<open>size.go\<close>.
  Both wrappers carry a sticky error: once it is set every operation is a no-op that returns a
  zero value. The reader's buffer is the unread portion of its \<open>bytes.Reader\<close>; the writer's is
  the content of its \<open>bytes.Buffer\<close>, whose \<open>Write\<close> never fails. The locale \<open>wire_codec\<close> is the
  contract of a pair \<open>EncodeBinary\<close>/\<open>DecodeBinary\<close>, from which the array codec is derived.
\<close>

section \<open>Readers and writers\<close>

datatype io_err = EOF | ErrUnexpectedEOF | ArrayTooBig nat | SliceTooBig nat | ErrDrained
  | BadValue string

record bin_reader =
  r_buf :: bytes
  r_err :: "io_err option"

record bin_writer =
  w_buf :: bytes
  w_err :: "io_err option"

definition NewBinReaderFromBuf :: "bytes \<Rightarrow> bin_reader" where
  "NewBinReaderFromBuf b = \<lparr>r_buf = b, r_err = None\<rparr>"

definition NewBufBinWriter :: bin_writer where
  "NewBufBinWriter = \<lparr>w_buf = [], w_err = None\<rparr>"

definition MaxArraySize :: nat where
  "MaxArraySize = 0x1000000"

text \<open>\<open>reader_len\<close> is \<open>BinReader.Len\<close>.\<close>

definition reader_len :: "bin_reader \<Rightarrow> nat" where
  "reader_len r = length (r_buf r)"

subsection \<open>Reading\<close>

text \<open>\<open>io.ReadFull\<close> fills \<open>buf\<close>: it needs no byte for an empty buffer, reports \<open>EOF\<close> when nothing
  was read and \<open>ErrUnexpectedEOF\<close> when the data stopped short; what was read stays read.\<close>

definition read_full :: "bytes \<Rightarrow> bytes \<Rightarrow> bytes \<times> bytes \<times> io_err option" where
  "read_full src buf =
     (let n = length buf
      in if n \<le> length src then (take n src, drop n src, None)
         else (src @ drop (length src) buf, [],
               Some (if src = [] then EOF else ErrUnexpectedEOF)))"

definition ReadBytes :: "bytes \<Rightarrow> bin_reader \<Rightarrow> bytes \<times> bin_reader" where
  "ReadBytes buf r =
     (if r_err r \<noteq> None then (buf, r)
      else let (buf', rest, e) = read_full (r_buf r) buf
           in (buf', r\<lparr>r_buf := rest, r_err := e\<rparr>))"

definition ReadU64LE :: "bin_reader \<Rightarrow> u64 \<times> bin_reader" where
  "ReadU64LE r = (let (uv, r') = ReadBytes (replicate 8 0) r
     in if r_err r' \<noteq> None then (0, r') else (of_nat (le_nat uv), r'))"

definition ReadU32LE :: "bin_reader \<Rightarrow> u32 \<times> bin_reader" where
  "ReadU32LE r = (let (uv, r') = ReadBytes (replicate 4 0) r
     in if r_err r' \<noteq> None then (0, r') else (of_nat (le_nat uv), r'))"

definition ReadU16LE :: "bin_reader \<Rightarrow> u16 \<times> bin_reader" where
  "ReadU16LE r = (let (uv, r') = ReadBytes (replicate 2 0) r
     in if r_err r' \<noteq> None then (0, r') else (of_nat (le_nat uv), r'))"

definition ReadU16BE :: "bin_reader \<Rightarrow> u16 \<times> bin_reader" where
  "ReadU16BE r = (let (uv, r') = ReadBytes (replicate 2 0) r
     in if r_err r' \<noteq> None then (0, r') else (of_nat (le_nat (rev uv)), r'))"

definition ReadB :: "bin_reader \<Rightarrow> byte \<times> bin_reader" where
  "ReadB r = (let (uv, r') = ReadBytes (replicate 1 0) r
     in if r_err r' \<noteq> None then (0, r') else (uv ! 0, r'))"

definition ReadBool :: "bin_reader \<Rightarrow> bool \<times> bin_reader" where
  "ReadBool r = (let (b, r') = ReadB r in (b \<noteq> 0, r'))"

definition ReadVarUint :: "bin_reader \<Rightarrow> u64 \<times> bin_reader" where
  "ReadVarUint r =
     (if r_err r \<noteq> None then (0, r)
      else let (b, r1) = ReadB r
           in if b = 0xfd then (let (v, r2) = ReadU16LE r1 in (ucast v, r2))
              else if b = 0xfe then (let (v, r2) = ReadU32LE r1 in (ucast v, r2))
              else if b = 0xff then ReadU64LE r1
              else (ucast b, r1))"

text \<open>The optional \<open>maxSize\<close> argument of the readers; nil is the value \<open>None\<close>.\<close>

definition max_size :: "nat option \<Rightarrow> nat" where
  "max_size ms = (case ms of None \<Rightarrow> MaxArraySize | Some m \<Rightarrow> m)"

definition ReadVarBytes :: "nat option \<Rightarrow> bin_reader \<Rightarrow> bytes option \<times> bin_reader" where
  "ReadVarBytes ms r =
     (let (n, r1) = ReadVarUint r
      in if max_size ms < unat n then (None, r1\<lparr>r_err := Some (SliceTooBig (unat n))\<rparr>)
         else let (b, r2) = ReadBytes (replicate (unat n) 0) r1 in (Some b, r2))"

definition ReadString :: "nat option \<Rightarrow> bin_reader \<Rightarrow> bytes \<times> bin_reader" where
  "ReadString ms r = (let (b, r') = ReadVarBytes ms r in (case b of None \<Rightarrow> [] | Some s \<Rightarrow> s, r'))"

text \<open>The element loop of \<open>ReadArray\<close> decodes all \<open>l\<close> elements, also after an error.\<close>

primrec decode_elems :: "(bin_reader \<Rightarrow> 'a \<times> bin_reader) \<Rightarrow> nat \<Rightarrow> bin_reader \<Rightarrow> 'a list \<times> bin_reader" where
  "decode_elems dec 0 r = ([], r)"
| "decode_elems dec (Suc l) r =
     (let (x, r1) = dec r; (xs, r2) = decode_elems dec l r1 in (x # xs, r2))"

text \<open>\<open>None\<close>: the target slice is left as it was.\<close>

definition ReadArray ::
  "(bin_reader \<Rightarrow> 'a \<times> bin_reader) \<Rightarrow> nat option \<Rightarrow> bin_reader \<Rightarrow> 'a list option \<times> bin_reader" where
  "ReadArray dec ms r =
     (if r_err r \<noteq> None then (None, r)
      else let (lu, r1) = ReadVarUint r
           in if max_size ms < unat lu then (None, r1\<lparr>r_err := Some (ArrayTooBig (unat lu))\<rparr>)
              else let (xs, r2) = decode_elems dec (unat lu) r1 in (Some xs, r2))"

subsection \<open>Writing\<close>

definition WriteBytes :: "bytes \<Rightarrow> bin_writer \<Rightarrow> bin_writer" where
  "WriteBytes b w = (if w_err w \<noteq> None then w else w\<lparr>w_buf := w_buf w @ b\<rparr>)"

definition WriteU64LE :: "u64 \<Rightarrow> bin_writer \<Rightarrow> bin_writer" where
  "WriteU64LE v = WriteBytes (nat_le 8 (unat v))"

definition WriteU32LE :: "u32 \<Rightarrow> bin_writer \<Rightarrow> bin_writer" where
  "WriteU32LE v = WriteBytes (nat_le 4 (unat v))"

definition WriteU16LE :: "u16 \<Rightarrow> bin_writer \<Rightarrow> bin_writer" where
  "WriteU16LE v = WriteBytes (nat_le 2 (unat v))"

definition WriteU16BE :: "u16 \<Rightarrow> bin_writer \<Rightarrow> bin_writer" where
  "WriteU16BE v = WriteBytes (rev (nat_le 2 (unat v)))"

definition WriteB :: "byte \<Rightarrow> bin_writer \<Rightarrow> bin_writer" where
  "WriteB b = WriteBytes [b]"

definition WriteBool :: "bool \<Rightarrow> bin_writer \<Rightarrow> bin_writer" where
  "WriteBool b = WriteB (if b then 1 else 0)"

text \<open>\<open>PutVarUint\<close>: the prefix of the 9-byte scratch buffer that it fills.\<close>

definition PutVarUint :: "u64 \<Rightarrow> bytes" where
  "PutVarUint val =
     (if val < 0xfd then [ucast val]
      else if val < 0xFFFF then 0xfd # nat_le 2 (unat (ucast val :: u16))
      else if val < 0xFFFFFFFF then 0xfe # nat_le 4 (unat (ucast val :: u32))
      else 0xff # nat_le 8 (unat val))"

definition WriteVarUint :: "u64 \<Rightarrow> bin_writer \<Rightarrow> bin_writer" where
  "WriteVarUint val w = (if w_err w \<noteq> None then w else WriteBytes (PutVarUint val) w)"

definition WriteVarBytes :: "bytes \<Rightarrow> bin_writer \<Rightarrow> bin_writer" where
  "WriteVarBytes b w = WriteBytes b (WriteVarUint (of_nat (length b)) w)"

definition WriteString :: "bytes \<Rightarrow> bin_writer \<Rightarrow> bin_writer" where
  "WriteString s w =
     (let w1 = WriteVarUint (of_nat (length s)) w
      in if w_err w1 \<noteq> None then w1 else w1\<lparr>w_buf := w_buf w1 @ s\<rparr>)"

definition WriteArray :: "('a \<Rightarrow> bin_writer \<Rightarrow> bin_writer) \<Rightarrow> 'a list \<Rightarrow> bin_writer \<Rightarrow> bin_writer" where
  "WriteArray enc arr w =
     (if w_err w \<noteq> None then w
      else fold enc arr (WriteVarUint (of_nat (length arr)) w))"

text \<open>\<open>BufBinWriter.Bytes\<close> hands the buffer out once; \<open>Reset\<close> makes the writer usable again.\<close>

definition writer_Bytes :: "bin_writer \<Rightarrow> bytes option \<times> bin_writer" where
  "writer_Bytes w =
     (if w_err w \<noteq> None then (None, w) else (Some (w_buf w), w\<lparr>w_err := Some ErrDrained\<rparr>))"

definition writer_Reset :: "bin_writer \<Rightarrow> bin_writer" where
  "writer_Reset w = w\<lparr>w_err := None, w_buf := []\<rparr>"

subsection \<open>Size estimates\<close>

definition getVarIntSize :: "int \<Rightarrow> nat" where
  "getVarIntSize v = (if v < 0xFD then 1 else if v \<le> 0xFFFF then 3 else 5)"

text \<open>The kinds of values \<open>GetVarSize\<close> distinguishes by reflection. A serializable value is its
  encoder; a slice of machine integers is its element width in bytes and its length.\<close>

datatype sizable =
    SString bytes
  | SInt int
  | SUint u64
  | SSer "bin_writer \<Rightarrow> bin_writer"
  | SSerSlice "(bin_writer \<Rightarrow> bin_writer) list"
  | SIntSlice nat nat

text \<open>\<open>counterWriter\<close> counts what its encoder writes.\<close>

definition counted :: "(bin_writer \<Rightarrow> bin_writer) \<Rightarrow> nat" where
  "counted enc = length (w_buf (enc NewBufBinWriter))"

fun GetVarSize :: "sizable \<Rightarrow> nat" where
  "GetVarSize (SString s) = getVarIntSize (int (length s)) + length s"
| "GetVarSize (SInt i) = getVarIntSize i"
| "GetVarSize (SUint u) = getVarIntSize (sint u)"
| "GetVarSize (SSer enc) = counted enc"
| "GetVarSize (SSerSlice encs) = getVarIntSize (int (length encs)) + (\<Sum>enc\<leftarrow>encs. counted enc)"
| "GetVarSize (SIntSlice width n) = getVarIntSize (int n) + n * width"

section \<open>Reading back what was written\<close>

lemma ReadBytes_append:
  "length buf = length bs \<Longrightarrow>
   ReadBytes buf \<lparr>r_buf = bs @ rest, r_err = None\<rparr> = (bs, \<lparr>r_buf = rest, r_err = None\<rparr>)"
  by (simp add: ReadBytes_def read_full_def)

lemma ReadBytes_err [simp]: "r_err r \<noteq> None \<Longrightarrow> ReadBytes buf r = (buf, r)"
  by (simp add: ReadBytes_def)

lemma WriteBytes_ok [codec_simps]:
  "w_err w = None \<Longrightarrow> WriteBytes b w = w\<lparr>w_buf := w_buf w @ b\<rparr>"
  by (simp add: WriteBytes_def)

lemma WriteBytes_err [codec_simps]: "w_err w \<noteq> None \<Longrightarrow> WriteBytes b w = w"
  by (simp add: WriteBytes_def)

lemma ReadB_Cons [codec_simps]:
  "ReadB \<lparr>r_buf = b # rest, r_err = None\<rparr> = (b, \<lparr>r_buf = rest, r_err = None\<rparr>)"
  using ReadBytes_append [of "[0]" "[b]" rest] by (simp add: ReadB_def)

lemma ReadU16LE_append [codec_simps]:
  "ReadU16LE \<lparr>r_buf = nat_le 2 (unat v) @ rest, r_err = None\<rparr> = (v, \<lparr>r_buf = rest, r_err = None\<rparr>)"
  by (simp add: ReadU16LE_def ReadBytes_append le_nat_nat_le_id del: nat_le.simps)

lemma ReadU32LE_append [codec_simps]:
  "ReadU32LE \<lparr>r_buf = nat_le 4 (unat v) @ rest, r_err = None\<rparr> = (v, \<lparr>r_buf = rest, r_err = None\<rparr>)"
  by (simp add: ReadU32LE_def ReadBytes_append le_nat_nat_le_id del: nat_le.simps)

lemma ReadU64LE_append [codec_simps]:
  "ReadU64LE \<lparr>r_buf = nat_le 8 (unat v) @ rest, r_err = None\<rparr> = (v, \<lparr>r_buf = rest, r_err = None\<rparr>)"
  by (simp add: ReadU64LE_def ReadBytes_append le_nat_nat_le_id del: nat_le.simps)

lemma ucast_down_up:
  fixes v :: u64
  assumes "unat v < 2 ^ LENGTH('a::len)"
  shows "ucast (ucast v :: 'a word) = v"
  using assms by (simp add: word_unat_eq_iff unsigned_ucast_eq unsigned_take_bit_eq take_bit_nat_eq_self)

lemma ReadVarUint_append [codec_simps]:
  "ReadVarUint \<lparr>r_buf = PutVarUint v @ rest, r_err = None\<rparr> = (v, \<lparr>r_buf = rest, r_err = None\<rparr>)"
proof -
  consider (b) "v < 0xfd" | (w) "\<not> v < 0xfd" "v < 0xFFFF"
    | (d) "\<not> v < 0xfd" "\<not> v < 0xFFFF" "v < 0xFFFFFFFF"
    | (q) "\<not> v < 0xfd" "\<not> v < 0xFFFF" "\<not> v < 0xFFFFFFFF"
    by blast
  then show ?thesis
  proof cases
    case b
    then have lt: "unat v < 253" by (simp add: word_less_nat_alt)
    then have "unat (ucast v :: byte) = unat v"
      by (simp add: unsigned_ucast_eq take_bit_nat_eq_self)
    with lt have "(ucast v :: byte) \<noteq> 0xfd" "(ucast v :: byte) \<noteq> 0xfe" "(ucast v :: byte) \<noteq> 0xff"
      by auto
    with b lt show ?thesis
      by (simp add: PutVarUint_def ReadVarUint_def codec_simps ucast_down_up)
  next
    case w
    then have "unat v < 2 ^ LENGTH(16)" by (simp add: word_less_nat_alt)
    with w show ?thesis
      by (simp add: PutVarUint_def ReadVarUint_def codec_simps ucast_down_up del: nat_le.simps)
  next
    case d
    then have "unat v < 2 ^ LENGTH(32)" by (simp add: word_less_nat_alt)
    with d show ?thesis
      by (simp add: PutVarUint_def ReadVarUint_def codec_simps ucast_down_up del: nat_le.simps)
  next
    case q
    then show ?thesis
      by (simp add: PutVarUint_def ReadVarUint_def codec_simps del: nat_le.simps)
  qed
qed

lemma WriteVarUint_ok [codec_simps]:
  "w_err w = None \<Longrightarrow> WriteVarUint v w = w\<lparr>w_buf := w_buf w @ PutVarUint v\<rparr>"
  by (simp add: WriteVarUint_def codec_simps)

lemma WriteVarUint_err [codec_simps]: "w_err w \<noteq> None \<Longrightarrow> WriteVarUint v w = w"
  by (simp add: WriteVarUint_def)

lemma WriteArray_err [codec_simps]: "w_err w \<noteq> None \<Longrightarrow> WriteArray enc xs w = w"
  by (simp add: WriteArray_def)

section \<open>The contract of a wire codec\<close>

text \<open>
  \<open>enc\<close> is an \<open>EncodeBinary\<close> method and \<open>dec\<close> the matching \<open>DecodeBinary\<close>; \<open>wire x\<close> is what the
  encoder appends for \<open>x\<close> and \<open>valid\<close> the values the decoder accepts back. An encoder leaves a
  writer in error alone.
\<close>

locale wire_codec =
  fixes enc :: "'a \<Rightarrow> bin_writer \<Rightarrow> bin_writer"
    and dec :: "bin_reader \<Rightarrow> 'a \<times> bin_reader"
    and wire :: "'a \<Rightarrow> bytes"
    and valid :: "'a \<Rightarrow> bool"
  assumes enc_ok: "valid x \<Longrightarrow> w_err w = None \<Longrightarrow> enc x w = w\<lparr>w_buf := w_buf w @ wire x\<rparr>"
    and enc_err: "w_err w \<noteq> None \<Longrightarrow> enc x w = w"
    and dec_ok: "valid x \<Longrightarrow>
      dec \<lparr>r_buf = wire x @ rest, r_err = None\<rparr> = (x, \<lparr>r_buf = rest, r_err = None\<rparr>)"
begin

lemma round_trip:
  assumes "valid x"
  shows "dec (NewBinReaderFromBuf (w_buf (enc x NewBufBinWriter))) = (x, NewBinReaderFromBuf [])"
  using assms dec_ok [of x "[]"]
  by (simp add: enc_ok NewBufBinWriter_def NewBinReaderFromBuf_def)

lemma wire_prefix_free:
  assumes "valid x" and "valid y" and "wire x @ r = wire y @ s"
  shows "x = y \<and> r = s"
proof -
  have "(x, \<lparr>r_buf = r, r_err = None\<rparr>) = dec \<lparr>r_buf = wire y @ s, r_err = None\<rparr>"
    by (simp only: dec_ok [OF assms(1), symmetric] assms(3))
  also have "\<dots> = (y, \<lparr>r_buf = s, r_err = None\<rparr>)"
    by (rule dec_ok [OF assms(2)])
  finally show ?thesis by simp
qed

lemma counted_wire: "valid x \<Longrightarrow> counted (enc x) = length (wire x)"
  by (simp add: counted_def enc_ok NewBufBinWriter_def)

lemma fold_enc:
  "\<forall>x \<in> set xs. valid x \<Longrightarrow> w_err w = None \<Longrightarrow>
   fold enc xs w = w\<lparr>w_buf := w_buf w @ concat (map wire xs)\<rparr>"
  by (induction xs arbitrary: w) (auto simp: enc_ok)

lemma decode_elems_ok:
  "\<forall>x \<in> set xs. valid x \<Longrightarrow>
   decode_elems dec (length xs) \<lparr>r_buf = concat (map wire xs) @ rest, r_err = None\<rparr>
     = (xs, \<lparr>r_buf = rest, r_err = None\<rparr>)"
  by (induction xs) (auto simp: dec_ok)

lemma array_enc_ok:
  assumes "\<forall>x \<in> set xs. valid x" and "w_err w = None"
  shows "WriteArray enc xs w
    = w\<lparr>w_buf := w_buf w @ PutVarUint (of_nat (length xs)) @ concat (map wire xs)\<rparr>"
  using assms by (simp add: WriteArray_def codec_simps fold_enc)

lemma array_dec_ok:
  assumes "\<forall>x \<in> set xs. valid x" and "length xs \<le> max_size ms" and "length xs < 2 ^ 64"
  shows "ReadArray dec ms
      \<lparr>r_buf = (PutVarUint (of_nat (length xs)) @ concat (map wire xs)) @ rest, r_err = None\<rparr>
    = (Some xs, \<lparr>r_buf = rest, r_err = None\<rparr>)"
proof -
  have "unat (of_nat (length xs) :: u64) = length xs"
    using assms(3) by (simp add: unat_of_nat)
  then show ?thesis
    using assms(1,2) by (simp add: ReadArray_def codec_simps decode_elems_ok)
qed

end

section \<open>The codecs of the package\<close>

interpretation uint64: wire_codec WriteU64LE ReadU64LE "\<lambda>v. nat_le 8 (unat v)" "\<lambda>_. True"
  by unfold_locales (simp_all add: WriteU64LE_def codec_simps del: nat_le.simps)

interpretation uint32: wire_codec WriteU32LE ReadU32LE "\<lambda>v. nat_le 4 (unat v)" "\<lambda>_. True"
  by unfold_locales (simp_all add: WriteU32LE_def codec_simps del: nat_le.simps)

interpretation uint16: wire_codec WriteU16LE ReadU16LE "\<lambda>v. nat_le 2 (unat v)" "\<lambda>_. True"
  by unfold_locales (simp_all add: WriteU16LE_def codec_simps del: nat_le.simps)

interpretation uint16be: wire_codec WriteU16BE ReadU16BE "\<lambda>v. rev (nat_le 2 (unat v))" "\<lambda>_. True"
  by unfold_locales (simp_all add: WriteU16BE_def ReadU16BE_def ReadBytes_append le_nat_nat_le_id
      codec_simps del: nat_le.simps)

interpretation bool: wire_codec WriteBool ReadBool "\<lambda>b. [if b then 1 else 0]" "\<lambda>_. True"
  by unfold_locales (simp_all add: WriteBool_def WriteB_def ReadBool_def codec_simps)

interpretation varuint: wire_codec WriteVarUint ReadVarUint PutVarUint "\<lambda>_. True"
  by unfold_locales (simp_all add: codec_simps)

interpretation varbytes: wire_codec
  "\<lambda>b. WriteVarBytes b" "\<lambda>r. map_prod the id (ReadVarBytes None r)"
  "\<lambda>b. PutVarUint (of_nat (length b)) @ b" "\<lambda>b. length b \<le> MaxArraySize"
proof
  fix x :: bytes and w :: bin_writer and rest :: bytes
  assume v: "length x \<le> MaxArraySize"
  then have "unat (of_nat (length x) :: u64) = length x"
    by (simp add: MaxArraySize_def unat_of_nat)
  then show "map_prod the id (ReadVarBytes None
        \<lparr>r_buf = (PutVarUint (of_nat (length x)) @ x) @ rest, r_err = None\<rparr>)
      = (x, \<lparr>r_buf = rest, r_err = None\<rparr>)"
    using v by (simp add: ReadVarBytes_def codec_simps max_size_def ReadBytes_append)
qed (simp_all add: WriteVarBytes_def codec_simps)

interpretation uint64_array: wire_codec "WriteArray WriteU64LE"
  "\<lambda>r. map_prod the id (ReadArray ReadU64LE None r)"
  "\<lambda>xs. PutVarUint (of_nat (length xs)) @ concat (map (\<lambda>v. nat_le 8 (unat v)) xs)"
  "\<lambda>xs. length xs \<le> MaxArraySize"
proof
  fix xs :: "u64 list" and rest :: bytes
  assume "length xs \<le> MaxArraySize"
  then have "length xs \<le> max_size None" "length xs < 2 ^ 64"
    by (simp_all add: max_size_def MaxArraySize_def)
  then show "map_prod the id (ReadArray ReadU64LE None
        \<lparr>r_buf = (PutVarUint (of_nat (length xs)) @ concat (map (\<lambda>v. nat_le 8 (unat v)) xs)) @ rest,
         r_err = None\<rparr>)
      = (xs, \<lparr>r_buf = rest, r_err = None\<rparr>)"
    using uint64.array_dec_ok [of xs None rest] by simp
qed (simp_all add: uint64.array_enc_ok codec_simps)

section \<open>Errors and sizes\<close>

lemma length_PutVarUint:
  "length (PutVarUint v)
     = (if v < 0xfd then 1 else if v < 0xFFFF then 3 else if v < 0xFFFFFFFF then 5 else 9)"
  by (simp add: PutVarUint_def del: nat_le.simps)

text \<open>A reader in error returns zero values and keeps its buffer and its first error.\<close>

lemma read_err [simp]:
  assumes "r_err r \<noteq> None"
  shows "ReadB r = (0, r)" and "ReadU16LE r = (0, r)" and "ReadU32LE r = (0, r)"
    and "ReadU64LE r = (0, r)" and "ReadU16BE r = (0, r)" and "ReadVarUint r = (0, r)"
    and "ReadBool r = (False, r)" and "ReadVarBytes ms r = (Some [], r)"
    and "ReadArray dec ms r = (None, r)"
  using assms
  by (simp_all add: ReadB_def ReadU16LE_def ReadU32LE_def ReadU64LE_def ReadU16BE_def
      ReadVarUint_def ReadBool_def ReadVarBytes_def ReadArray_def del: replicate.simps)

lemma ReadBytes_short:
  assumes "length (r_buf r) < length buf"
  shows "r_err (snd (ReadBytes buf r)) \<noteq> None"
  using assms by (simp add: ReadBytes_def read_full_def Let_def)

lemma ReadUint_short:
  shows "length (r_buf r) < 2 \<Longrightarrow> r_err (snd (ReadU16LE r)) \<noteq> None"
    and "length (r_buf r) < 4 \<Longrightarrow> r_err (snd (ReadU32LE r)) \<noteq> None"
    and "length (r_buf r) < 8 \<Longrightarrow> r_err (snd (ReadU64LE r)) \<noteq> None"
  using ReadBytes_short [of r "replicate 2 0"] ReadBytes_short [of r "replicate 4 0"]
    ReadBytes_short [of r "replicate 8 0"]
  by (simp_all add: ReadU16LE_def ReadU32LE_def ReadU64LE_def split_beta Let_def
      del: replicate.simps)

lemma ReadVarUint_short:
  assumes "PutVarUint v = p @ q" and "q \<noteq> []"
  shows "r_err (snd (ReadVarUint \<lparr>r_buf = p, r_err = None\<rparr>)) \<noteq> None"
proof (cases p)
  case Nil
  then show ?thesis
    by (simp add: ReadVarUint_def ReadB_def ReadBytes_def read_full_def)
next
  case (Cons b p')
  have len: "length p' < length (PutVarUint v) - 1"
    using assms Cons by (cases q) auto
  have b: "b = hd (PutVarUint v)" using assms Cons by simp
  show ?thesis
    using len b ReadUint_short [of "\<lparr>r_buf = p', r_err = None\<rparr>"]
    by (auto simp: Cons PutVarUint_def ReadVarUint_def codec_simps split_beta
        split: if_splits simp del: nat_le.simps)
qed

text \<open>Variable-length integers are read back exactly, whatever follows them in the stream.\<close>

theorem ReadVarUint_WriteVarUint:
  "ReadVarUint (NewBinReaderFromBuf (w_buf (WriteVarUint v NewBufBinWriter) @ rest))
     = (v, NewBinReaderFromBuf rest)"
  by (simp add: NewBinReaderFromBuf_def NewBufBinWriter_def codec_simps)

text \<open>C5. Byte strings up to the limit are read back exactly, and a stream cut anywhere inside the
  encoding leaves the reader in error: no proper prefix decodes.\<close>

theorem ReadVarBytes_complete_and_safe:
  assumes "length b \<le> max_size ms" and "length b < 2 ^ 64"
    and "p @ q = w_buf (WriteVarBytes b NewBufBinWriter)"
  shows "(q = [] \<longrightarrow> ReadVarBytes ms (NewBinReaderFromBuf (p @ rest)) = (Some b, NewBinReaderFromBuf rest))
    \<and> (q \<noteq> [] \<longrightarrow> r_err (snd (ReadVarBytes ms (NewBinReaderFromBuf p))) \<noteq> None)"
proof -
  let ?n = "of_nat (length b) :: u64"
  have n: "unat ?n = length b" using assms(2) by (simp add: unat_of_nat)
  have pq: "p @ q = PutVarUint ?n @ b"
    using assms(3) by (simp add: WriteVarBytes_def codec_simps NewBufBinWriter_def)
  have "ReadVarBytes ms (NewBinReaderFromBuf (p @ rest)) = (Some b, NewBinReaderFromBuf rest)"
    if "q = []"
    using pq that n assms(1)
    by (simp add: ReadVarBytes_def NewBinReaderFromBuf_def codec_simps ReadBytes_append)
  moreover have "r_err (snd (ReadVarBytes ms (NewBinReaderFromBuf p))) \<noteq> None" if q: "q \<noteq> []"
  proof (cases "length p < length (PutVarUint ?n)")
    case True
    with pq obtain s where s: "PutVarUint ?n = p @ s" "s \<noteq> []"
      by (rule append_eq_shortE)
    have "r_err (snd (ReadVarUint \<lparr>r_buf = p, r_err = None\<rparr>)) \<noteq> None"
      by (rule ReadVarUint_short [OF s])
    then show ?thesis
      by (auto simp: ReadVarBytes_def NewBinReaderFromBuf_def split_beta Let_def)
  next
    case False
    with pq obtain s where s: "p = PutVarUint ?n @ s" "b = s @ q"
      by (rule append_eq_longE)
    have "length s < length b" using s(2) q by simp
    with ReadBytes_short [of "\<lparr>r_buf = s, r_err = None\<rparr>" "replicate (length b) 0"] show ?thesis
      using n assms(1)
      by (simp add: s(1) ReadVarBytes_def NewBinReaderFromBuf_def codec_simps split_beta)
  qed
  ultimately show ?thesis by blast
qed

theorem ReadVarBytes_complete_and_safe_witness:
  "r_err (snd (ReadVarBytes None (NewBinReaderFromBuf [2, 7]))) \<noteq> None"
proof -
  have "([2, 7] :: bytes) @ [9] = w_buf (WriteVarBytes [7, 9] NewBufBinWriter)"
    by (simp add: WriteVarBytes_def codec_simps NewBufBinWriter_def PutVarUint_def)
  from ReadVarBytes_complete_and_safe [OF _ _ this, of None "[]"] show ?thesis
    by (simp add: max_size_def MaxArraySize_def)
qed

text \<open>Arrays: for any element codec that honours the wire contract (stated here for
  little-endian 64-bit words) \<open>ReadArray\<close> returns the elements \<open>WriteArray\<close> was given.\<close>

theorem ReadArray_WriteArray:
  assumes "length xs \<le> max_size ms" and "length xs < 2 ^ 64"
  shows "ReadArray ReadU64LE ms
      (NewBinReaderFromBuf (w_buf (WriteArray WriteU64LE xs NewBufBinWriter) @ rest))
    = (Some xs, NewBinReaderFromBuf rest)"
  using uint64.array_dec_ok [OF _ assms, of rest]
  by (simp add: NewBinReaderFromBuf_def NewBufBinWriter_def uint64.array_enc_ok)

theorem ReadArray_WriteArray_witness:
  "ReadArray ReadU64LE (Some 5)
      (NewBinReaderFromBuf (w_buf (WriteArray WriteU64LE [1, 2] NewBufBinWriter) @ [3]))
    = (Some [1, 2], NewBinReaderFromBuf [3])"
  by (rule ReadArray_WriteArray) (simp_all add: max_size_def)

text \<open>The estimate of \<open>getVarIntSize\<close> is the number of bytes \<open>WriteVarUint\<close> emits, except at
  \<open>0xFFFF\<close>, which is estimated at 3 bytes and written with 5, and from \<open>0xFFFFFFFF\<close> on, which is
  written with 9 bytes.\<close>

theorem getVarIntSize_exact_iff:
  "getVarIntSize (int (unat v)) = length (w_buf (WriteVarUint v NewBufBinWriter))
     \<longleftrightarrow> v \<noteq> 0xFFFF \<and> v < 0xFFFFFFFF"
proof -
  have "(int (unat v) < 0xFD \<longleftrightarrow> v < 0xfd) \<and> (int (unat v) \<le> 0xFFFF \<longleftrightarrow> v < 0xFFFF \<or> v = 0xFFFF)"
    unfolding word_less_nat_alt word_unat_eq_iff by (auto simp del: of_nat_unat)
  moreover have "v < 0xfd \<Longrightarrow> v < 0xFFFFFFFF" "v < 0xFFFF \<Longrightarrow> v < 0xFFFFFFFF"
    by (simp_all add: word_less_nat_alt)
  ultimately show ?thesis
    by (auto simp: getVarIntSize_def codec_simps NewBufBinWriter_def length_PutVarUint)
qed

end
