(* ===== verification/KVStore.thy ===== *)
theory KVStore
  imports NanvilPrelude "HOL-Library.AList" "HOL-Library.List_Lexorder"
begin

text \<open>
  Model of \<open>pkg/core/storage\<close>: \<open>MemoryStore\<close> (\<open>memory_store.go\<close>) and \<open>MemCachedStore\<close>
  (\<open>memcached_store.go\<close>). A Go map is an association list in its (unspecified) iteration order;
  a value is \<open>None\<close> for a nil slice, the tombstone of a deleted key, and \<open>Some\<close> otherwise. The
  \<open>Store\<close> interface is the record \<open>store_ops\<close> of its methods over a state type, so that a cached
  store can sit on any lower store; the locale \<open>kv_store\<close> states what an implementation promises,
  and the cached layer is proved to keep the promise over every lower store that makes it.
\<close>

section \<open>Data\<close>

type_synonym gomap = "(bytes \<times> bytes option) list"

datatype store_err = ErrKeyNotFound | IndexPanic | BackendErr

record mem_store =
  mem :: gomap
  stor :: gomap

record seek_range =
  Prefix :: bytes
  Start :: bytes
  Backwards :: bool
  SearchDepth :: int

definition STStorage :: byte where "STStorage = 0x70"
definition STTempStorage :: byte where "STTempStorage = 0x71"

text \<open>The methods of the \<open>Store\<close> interface over a state \<open>'s\<close>. \<open>op_seek\<close> lists the pairs \<open>Seek\<close>
  passes to its callback, in order, as long as the callback asks for more.\<close>

record 's store_ops =
  op_get :: "'s \<Rightarrow> bytes \<Rightarrow> store_err + bytes"
  op_change :: "'s \<Rightarrow> gomap \<Rightarrow> gomap \<Rightarrow> store_err option \<times> 's"
  op_seek :: "'s \<Rightarrow> seek_range \<Rightarrow> store_err + (bytes \<times> bytes) list"

section \<open>MemoryStore\<close>

definition NewMemoryStore :: mem_store where
  "NewMemoryStore = \<lparr>mem = [], stor = []\<rparr>"

text \<open>\<open>chooseMap\<close> reads \<open>key[0]\<close>: an empty key is an index panic.\<close>

definition chooseMap :: "mem_store \<Rightarrow> bytes \<Rightarrow> gomap option" where
  "chooseMap s key = (case key of [] \<Rightarrow> None
     | b # _ \<Rightarrow> Some (if b = STStorage \<or> b = STTempStorage then stor s else mem s))"

definition mem_Get :: "mem_store \<Rightarrow> bytes \<Rightarrow> store_err + bytes" where
  "mem_Get s key = (case chooseMap s key of None \<Rightarrow> Inl IndexPanic
     | Some m \<Rightarrow> (case map_of m key of Some (Some val) \<Rightarrow> Inr val | _ \<Rightarrow> Inl ErrKeyNotFound))"

text \<open>\<open>maps.Copy(dst, src)\<close>.\<close>

definition maps_copy :: "gomap \<Rightarrow> gomap \<Rightarrow> gomap" where
  "maps_copy dst src = fold (\<lambda>(k, v) m. AList.update k v m) src dst"

definition putChangeSet :: "mem_store \<Rightarrow> gomap \<Rightarrow> gomap \<Rightarrow> mem_store" where
  "putChangeSet s puts stores =
     s\<lparr>mem := maps_copy (mem s) puts, stor := maps_copy (stor s) stores\<rparr>"

definition mem_PutChangeSet :: "mem_store \<Rightarrow> gomap \<Rightarrow> gomap \<Rightarrow> store_err option \<times> mem_store" where
  "mem_PutChangeSet s puts stores = (None, putChangeSet s puts stores)"

text \<open>\<open>append([]byte(nil), v...)\<close>, the copy \<open>Export\<close> and \<open>Import\<close> make: nothing appended to a nil
  slice is a nil slice.\<close>

definition append_nil :: "bytes option \<Rightarrow> bytes option" where
  "append_nil v = (case v of Some (b # bs) \<Rightarrow> Some (b # bs) | _ \<Rightarrow> None)"

definition copy_map :: "gomap \<Rightarrow> gomap" where
  "copy_map m = map (\<lambda>(k, v). (k, append_nil v)) m"

definition mem_Export :: "mem_store \<Rightarrow> gomap \<times> gomap" where
  "mem_Export s = (copy_map (mem s), copy_map (stor s))"

definition mem_Import :: "mem_store \<Rightarrow> gomap \<Rightarrow> gomap \<Rightarrow> mem_store" where
  "mem_Import s m st = s\<lparr>mem := copy_map m, stor := copy_map st\<rparr>"

definition mem_Len :: "mem_store \<Rightarrow> nat" where
  "mem_Len s = length (mem s) + length (stor s)"

text \<open>The key test of the seeks: the prefix matches, and the rest is on the right side of
  \<open>Start\<close>.\<close>

definition HasPrefix :: "bytes \<Rightarrow> bytes \<Rightarrow> bool" where
  "HasPrefix key p \<longleftrightarrow> take (length p) key = p"

definition isKeyOK :: "seek_range \<Rightarrow> bytes \<Rightarrow> bool" where
  "isKeyOK rng key \<longleftrightarrow> HasPrefix key (Prefix rng) \<and>
     (length (Start rng) = 0 \<or>
      (if Backwards rng then drop (length (Prefix rng)) key \<le> Start rng
       else Start rng \<le> drop (length (Prefix rng)) key))"

text \<open>\<open>getCmpFunc\<close> and the sort by key it is used for.\<close>

definition cmp_less :: "bool \<Rightarrow> bytes \<Rightarrow> bytes \<Rightarrow> bool" where
  "cmp_less backwards a b = (if backwards then b < a else a < b)"

definition sort_kv :: "bool \<Rightarrow> (bytes \<times> 'v) list \<Rightarrow> (bytes \<times> 'v) list" where
  "sort_kv backwards xs = (if backwards then rev (sort_key fst xs) else sort_key fst xs)"

fun live_items :: "gomap \<Rightarrow> (bytes \<times> bytes) list" where
  "live_items [] = []"
| "live_items ((k, None) # m) = live_items m"
| "live_items ((k, Some v) # m) = (k, v) # live_items m"

definition mem_Seek :: "mem_store \<Rightarrow> seek_range \<Rightarrow> store_err + (bytes \<times> bytes) list" where
  "mem_Seek s rng = (case chooseMap s (Prefix rng) of None \<Rightarrow> Inl IndexPanic
     | Some m \<Rightarrow> Inr (sort_kv (Backwards rng) (filter (\<lambda>(k, v). isKeyOK rng k) (live_items m))))"

text \<open>How a seek drives its callback: \<open>f\<close> gets the pairs in turn and returns whether to go on,
  with its own state \<open>'st\<close>; the first result is whether it ran to the end.\<close>

fun iterate :: "('st \<Rightarrow> bytes \<Rightarrow> bytes \<Rightarrow> bool \<times> 'st) \<Rightarrow> 'st \<Rightarrow> (bytes \<times> bytes) list \<Rightarrow> bool \<times> 'st" where
  "iterate f st [] = (True, st)"
| "iterate f st ((k, v) # xs) = (let (cont, st') = f st k v in if cont then iterate f st' xs else (False, st'))"

text \<open>\<open>SeekGC\<close>: the items are listed first; those the callback does not keep are deleted.\<close>

definition mem_delete :: "mem_store \<Rightarrow> bytes \<Rightarrow> mem_store" where
  "mem_delete s key = (case key of [] \<Rightarrow> s
     | b # _ \<Rightarrow> if b = STStorage \<or> b = STTempStorage
                then s\<lparr>stor := AList.delete key (stor s)\<rparr>
                else s\<lparr>mem := AList.delete key (mem s)\<rparr>)"

definition mem_SeekGC ::
  "mem_store \<Rightarrow> seek_range \<Rightarrow> ('st \<Rightarrow> bytes \<Rightarrow> bytes \<Rightarrow> (bool \<times> bool) \<times> 'st) \<Rightarrow> 'st
     \<Rightarrow> store_err + mem_store \<times> 'st" where
  "mem_SeekGC s rng keepCont st = (case mem_Seek s rng of Inl e \<Rightarrow> Inl e
     | Inr xs \<Rightarrow> Inr (snd (iterate (\<lambda>(s, st) k v. let ((keep, cont), st') = keepCont st k v
                                   in (cont, (if keep then s else mem_delete s k, st'))) (s, st) xs)))"

definition mem_ops :: "mem_store store_ops" where
  "mem_ops = \<lparr>op_get = mem_Get, op_change = mem_PutChangeSet, op_seek = mem_Seek\<rparr>"

section \<open>MemCachedStore\<close>

text \<open>While a flush is running the lower store is the \<open>tempstore\<close> of \<open>persist\<close>: the maps being
  flushed, over the real lower store.\<close>

datatype 's lower = Base 's | Temp mem_store 's

record 's mem_cached =
  mc_mem :: mem_store
  mc_private :: bool
  mc_ps :: "'s lower"

definition NewMemCachedStore :: "'s \<Rightarrow> 's mem_cached" where
  "NewMemCachedStore ps = \<lparr>mc_mem = NewMemoryStore, mc_private = False, mc_ps = Base ps\<rparr>"

definition NewPrivateMemCachedStore :: "'s \<Rightarrow> 's mem_cached" where
  "NewPrivateMemCachedStore ps = \<lparr>mc_mem = NewMemoryStore, mc_private = True, mc_ps = Base ps\<rparr>"

definition layer_Get :: "mem_store \<Rightarrow> (bytes \<Rightarrow> store_err + bytes) \<Rightarrow> bytes \<Rightarrow> store_err + bytes" where
  "layer_Get m ps_get key = (case chooseMap m key of None \<Rightarrow> Inl IndexPanic
     | Some mp \<Rightarrow> (case map_of mp key of
          Some None \<Rightarrow> Inl ErrKeyNotFound
        | Some (Some val) \<Rightarrow> Inr val
        | None \<Rightarrow> ps_get key))"

primrec lower_get :: "'s store_ops \<Rightarrow> 's lower \<Rightarrow> bytes \<Rightarrow> store_err + bytes" where
  "lower_get ops (Base s) = op_get ops s"
| "lower_get ops (Temp m s) = layer_Get m (op_get ops s)"

definition mc_Get :: "'s store_ops \<Rightarrow> 's mem_cached \<Rightarrow> bytes \<Rightarrow> store_err + bytes" where
  "mc_Get ops c key = layer_Get (mc_mem c) (lower_get ops (mc_ps c)) key"

text \<open>\<open>put\<close> into the map \<open>chooseMap\<close> selects.\<close>

definition mem_put :: "mem_store \<Rightarrow> bytes \<Rightarrow> bytes option \<Rightarrow> store_err + mem_store" where
  "mem_put s key v = (case key of [] \<Rightarrow> Inl IndexPanic
     | b # _ \<Rightarrow> Inr (if b = STStorage \<or> b = STTempStorage
                     then s\<lparr>stor := AList.update key v (stor s)\<rparr>
                     else s\<lparr>mem := AList.update key v (mem s)\<rparr>))"

text \<open>\<open>bytes.Clone\<close> keeps a nil slice nil and an empty one empty, so \<open>Put\<close> takes a value that may
  be nil.\<close>

definition mc_Put :: "'s mem_cached \<Rightarrow> bytes \<Rightarrow> bytes option \<Rightarrow> store_err + 's mem_cached" where
  "mc_Put c key v = (case mem_put (mc_mem c) key v of Inl e \<Rightarrow> Inl e | Inr m \<Rightarrow> Inr (c\<lparr>mc_mem := m\<rparr>))"

definition mc_Delete :: "'s mem_cached \<Rightarrow> bytes \<Rightarrow> store_err + 's mem_cached" where
  "mc_Delete c key =
     (case mem_put (mc_mem c) key None of Inl e \<Rightarrow> Inl e | Inr m \<Rightarrow> Inr (c\<lparr>mc_mem := m\<rparr>))"

definition mc_PutChangeSet :: "'s mem_cached \<Rightarrow> gomap \<Rightarrow> gomap \<Rightarrow> store_err option \<times> 's mem_cached" where
  "mc_PutChangeSet c puts stores = (None, c\<lparr>mc_mem := putChangeSet (mc_mem c) puts stores\<rparr>)"

text \<open>\<open>GetBatch\<close>: the accumulated changes, each with whether the lower store has the key.\<close>

record mem_batch =
  b_Put :: "(bytes \<times> bytes \<times> bool) list"
  b_Deleted :: "(bytes \<times> bool) list"

fun batch_items :: "(bytes \<Rightarrow> bool) \<Rightarrow> gomap \<Rightarrow> mem_batch \<Rightarrow> mem_batch" where
  "batch_items ex [] b = b"
| "batch_items ex ((k, None) # m) b = batch_items ex m (b\<lparr>b_Deleted := b_Deleted b @ [(k, ex k)]\<rparr>)"
| "batch_items ex ((k, Some v) # m) b = batch_items ex m (b\<lparr>b_Put := b_Put b @ [(k, v, ex k)]\<rparr>)"

definition GetBatch :: "'s store_ops \<Rightarrow> 's mem_cached \<Rightarrow> mem_batch" where
  "GetBatch ops c =
     (let ex = (\<lambda>k. case lower_get ops (mc_ps c) k of Inr _ \<Rightarrow> True | Inl _ \<Rightarrow> False)
      in batch_items ex (stor (mc_mem c)) (batch_items ex (mem (mc_mem c)) \<lparr>b_Put = [], b_Deleted = []\<rparr>))"

subsection \<open>Seek\<close>

text \<open>A cached item of a seek: key, value, and whether it exists (is not a tombstone).\<close>

type_synonym kvx = "bytes \<times> bytes option \<times> bool"

definition prepareSeekMemSnapshot :: "mem_store \<Rightarrow> seek_range \<Rightarrow> store_err + kvx list" where
  "prepareSeekMemSnapshot m rng = (case chooseMap m (Prefix rng) of None \<Rightarrow> Inl IndexPanic
     | Some mp \<Rightarrow> Inr (map (\<lambda>(k, v). (k, v, v \<noteq> None)) (filter (\<lambda>(k, v). isKeyOK rng k) mp)))"

text \<open>The variables of \<open>performSeek\<close>: the callback's state, \<open>done\<close>, \<open>kvMem\<close>, \<open>haveMem\<close> and the
  items from \<open>iMem\<close> on.\<close>

record 'st merge_state =
  ms_st :: 'st
  ms_done :: bool
  ms_kvMem :: kvx
  ms_haveMem :: bool
  ms_rest :: "kvx list"

definition cut_key :: "bool \<Rightarrow> seek_range \<Rightarrow> bytes \<Rightarrow> bytes" where
  "cut_key cutPrefix rng k = (if cutPrefix then drop (length (Prefix rng)) k else k)"

text \<open>\<open>mergeFunc\<close> for one pair of the lower store: the cached items before it are emitted, then
  the pair itself unless the current cached item has its key.\<close>

function mergeFunc ::
  "bool \<Rightarrow> seek_range \<Rightarrow> ('st \<Rightarrow> bytes \<Rightarrow> bytes \<Rightarrow> bool \<times> 'st) \<Rightarrow> bytes \<times> bytes \<Rightarrow> 'st merge_state
     \<Rightarrow> bool \<times> 'st merge_state" where
  "mergeFunc cutPrefix rng cont (kPs, vPs) ms =
    (if ms_done ms then (False, ms)
     else let (kMem, vMem, exists) = ms_kvMem ms
     in if ms_haveMem ms \<and> cmp_less (Backwards rng) kMem kPs then
       (let kMem' = (if exists then cut_key cutPrefix rng kMem else kMem);
            (go, st') = (if exists then cont (ms_st ms) kMem' (the vMem) else (True, ms_st ms))
        in if \<not> go then (False, ms\<lparr>ms_st := st', ms_done := True, ms_kvMem := (kMem', vMem, exists)\<rparr>)
           else case ms_rest ms of
             kv # rest \<Rightarrow> mergeFunc cutPrefix rng cont (kPs, vPs)
                           (ms\<lparr>ms_st := st', ms_kvMem := kv, ms_haveMem := True, ms_rest := rest\<rparr>)
           | [] \<Rightarrow> mergeFunc cutPrefix rng cont (kPs, vPs)
                     (ms\<lparr>ms_st := st', ms_kvMem := (kMem', vMem, exists), ms_haveMem := False\<rparr>))
     else if kMem \<noteq> kPs then
       (let (go, st') = cont (ms_st ms) (cut_key cutPrefix rng kPs) vPs
        in if \<not> go then (False, ms\<lparr>ms_st := st', ms_done := True\<rparr>)
           else (True, ms\<lparr>ms_st := st'\<rparr>))
     else (True, ms))"
  by pat_completeness auto
termination
  by (relation "measure (\<lambda>(_, _, _, _, ms). length (ms_rest ms) + (if ms_haveMem ms then 1 else 0))")
    (auto split: if_splits)

declare mergeFunc.simps [simp del]

text \<open>The lower store's \<open>Seek\<close> driving \<open>mergeFunc\<close>.\<close>

primrec merge_run ::
  "bool \<Rightarrow> seek_range \<Rightarrow> ('st \<Rightarrow> bytes \<Rightarrow> bytes \<Rightarrow> bool \<times> 'st) \<Rightarrow> (bytes \<times> bytes) list \<Rightarrow> 'st merge_state
     \<Rightarrow> 'st merge_state" where
  "merge_run cutPrefix rng cont [] ms = ms"
| "merge_run cutPrefix rng cont (kv # kvs) ms =
     (let (go, ms') = mergeFunc cutPrefix rng cont kv ms
      in if go then merge_run cutPrefix rng cont kvs ms' else ms')"

text \<open>The last loop: the cached items that are left.\<close>

fun mem_tail ::
  "bool \<Rightarrow> seek_range \<Rightarrow> ('st \<Rightarrow> bytes \<Rightarrow> bytes \<Rightarrow> bool \<times> 'st) \<Rightarrow> kvx list \<Rightarrow> 'st \<Rightarrow> 'st" where
  "mem_tail cutPrefix rng cont [] st = st"
| "mem_tail cutPrefix rng cont ((k, v, exists) # rest) st =
     (if exists
      then let (go, st') = cont st (cut_key cutPrefix rng k) (the v)
           in if go then mem_tail cutPrefix rng cont rest st' else st'
      else mem_tail cutPrefix rng cont rest st)"

text \<open>\<open>performSeek\<close> over the list \<open>ps_items\<close> of the lower store's \<open>Seek\<close> (of the given range).\<close>

definition performSeek ::
  "(seek_range \<Rightarrow> store_err + (bytes \<times> bytes) list) \<Rightarrow> kvx list \<Rightarrow> seek_range \<Rightarrow> bool
     \<Rightarrow> ('st \<Rightarrow> bytes \<Rightarrow> bytes \<Rightarrow> bool \<times> 'st) \<Rightarrow> 'st \<Rightarrow> store_err + 'st" where
  "performSeek ps_seek memRes rng cutPrefix cont st =
    (let sorted = sort_kv (Backwards rng) memRes;
         ms0 = (case sorted of
             [] \<Rightarrow> \<lparr>ms_st = st, ms_done = False, ms_kvMem = ([], None, False), ms_haveMem = False, ms_rest = []\<rparr>
           | kv # rest \<Rightarrow> \<lparr>ms_st = st, ms_done = False, ms_kvMem = kv, ms_haveMem = True, ms_rest = rest\<rparr>);
         lower = (if SearchDepth rng = 0 \<or> 1 < SearchDepth rng
                  then ps_seek (if 1 < SearchDepth rng then rng\<lparr>SearchDepth := SearchDepth rng - 1\<rparr> else rng)
                  else Inr [])
     in case lower of Inl e \<Rightarrow> Inl e
      | Inr items \<Rightarrow>
        (let ms = merge_run cutPrefix rng cont items ms0
         in Inr (if \<not> ms_done ms \<and> ms_haveMem ms
                 then mem_tail cutPrefix rng cont (ms_kvMem ms # ms_rest ms) (ms_st ms)
                 else ms_st ms)))"

text \<open>\<open>Seek\<close> and \<open>SeekAsync\<close> of one layer: the sequence of pairs handed to a callback that
  always continues.\<close>

definition collect :: "(bytes \<times> bytes) list \<Rightarrow> bytes \<Rightarrow> bytes \<Rightarrow> bool \<times> (bytes \<times> bytes) list" where
  "collect acc k v = (True, acc @ [(k, v)])"

definition layer_Seek ::
  "mem_store \<Rightarrow> (seek_range \<Rightarrow> store_err + (bytes \<times> bytes) list) \<Rightarrow> bool \<Rightarrow> seek_range
     \<Rightarrow> store_err + (bytes \<times> bytes) list" where
  "layer_Seek m ps_seek cutPrefix rng = (case prepareSeekMemSnapshot m rng of Inl e \<Rightarrow> Inl e
     | Inr memRes \<Rightarrow> performSeek ps_seek memRes rng cutPrefix collect [])"

primrec lower_seek :: "'s store_ops \<Rightarrow> 's lower \<Rightarrow> seek_range \<Rightarrow> store_err + (bytes \<times> bytes) list" where
  "lower_seek ops (Base s) = op_seek ops s"
| "lower_seek ops (Temp m s) = layer_Seek m (op_seek ops s) False"

definition mc_Seek :: "'s store_ops \<Rightarrow> 's mem_cached \<Rightarrow> seek_range \<Rightarrow> store_err + (bytes \<times> bytes) list" where
  "mc_Seek ops c rng = layer_Seek (mc_mem c) (lower_seek ops (mc_ps c)) False rng"

definition mc_SeekAsync ::
  "'s store_ops \<Rightarrow> 's mem_cached \<Rightarrow> seek_range \<Rightarrow> bool \<Rightarrow> store_err + (bytes \<times> bytes) list" where
  "mc_SeekAsync ops c rng cutPrefix = layer_Seek (mc_mem c) (lower_seek ops (mc_ps c)) cutPrefix rng"

subsection \<open>Persist\<close>

text \<open>\<open>persist\<close> of a shared store has three parts: the swap under the lock, the flush (unlocked when
  not synchronous, so writes may come in between) and the end under the lock again.\<close>

definition persist_keys :: "'s mem_cached \<Rightarrow> nat" where
  "persist_keys c = length (mem (mc_mem c)) + length (stor (mc_mem c))"

definition persist_swap :: "'s mem_cached \<Rightarrow> 's mem_cached" where
  "persist_swap c = (case mc_ps c of
     Base s \<Rightarrow> c\<lparr>mc_ps := Temp (mc_mem c) s, mc_mem := NewMemoryStore\<rparr>
   | Temp m s \<Rightarrow> c)"

text \<open>The flush runs \<open>PutChangeSet\<close> of the lower store and yields its error and new state.\<close>

definition persist_flush :: "'s store_ops \<Rightarrow> 's mem_cached \<Rightarrow> store_err option \<times> 's mem_cached" where
  "persist_flush ops c = (case mc_ps c of
     Base s \<Rightarrow> (None, c)
   | Temp m s \<Rightarrow> (let (e, s') = op_change ops s (mem m) (stor m) in (e, c\<lparr>mc_ps := Temp m s'\<rparr>)))"

definition persist_finish :: "store_err option \<Rightarrow> 's mem_cached \<Rightarrow> 's mem_cached" where
  "persist_finish e c = (case mc_ps c of
     Base s \<Rightarrow> c
   | Temp m s \<Rightarrow> (if e = None then c\<lparr>mc_ps := Base s\<rparr>
                  else c\<lparr>mc_ps := Base s, mc_mem := putChangeSet m (mem (mc_mem c)) (stor (mc_mem c))\<rparr>))"

definition persist :: "'s store_ops \<Rightarrow> 's mem_cached \<Rightarrow> (nat \<times> store_err option) \<times> 's mem_cached" where
  "persist ops c =
     (let keys = persist_keys c
      in if keys = 0 then ((0, None), c)
         else if mc_private c then
           (case mc_ps c of
              Base s \<Rightarrow> (let (e, s') = op_change ops s (mem (mc_mem c)) (stor (mc_mem c))
                        in if e \<noteq> None then ((0, e), c\<lparr>mc_ps := Base s'\<rparr>)
                           else ((keys, None), c\<lparr>mc_ps := Base s', mc_mem := NewMemoryStore\<rparr>))
            | Temp m s \<Rightarrow> ((0, None), c))
         else (let (e, c') = persist_flush ops (persist_swap c) in ((keys, e), persist_finish e c')))"

text \<open>\<open>PersistPrivate\<close>: the changes of private wrappers around \<open>c\<close>, in order.\<close>

definition PersistPrivate :: "'s mem_cached \<Rightarrow> mem_store list \<Rightarrow> nat \<times> 's mem_cached" where
  "PersistPrivate c privates =
     (let keys = (\<Sum>p\<leftarrow>privates. length (mem p) + length (stor p))
      in if keys = 0 then (0, c)
         else (keys, fold (\<lambda>p c. c\<lparr>mc_mem := putChangeSet (mc_mem c) (mem p) (stor p)\<rparr>) privates c))"

definition cached_ops :: "'s store_ops \<Rightarrow> 's mem_cached store_ops" where
  "cached_ops ops = \<lparr>op_get = mc_Get ops, op_change = mc_PutChangeSet, op_seek = mc_Seek ops\<rparr>"

section \<open>The contract of a store\<close>

text \<open>Contract storage keys start with one of two prefixes and live in a map of their own; a well-formed
  change set has every key in its map and no key twice.\<close>

definition is_stor :: "bytes \<Rightarrow> bool" where
  "is_stor k \<longleftrightarrow> (case k of [] \<Rightarrow> False | b # _ \<Rightarrow> b = STStorage \<or> b = STTempStorage)"

definition wf_maps :: "gomap \<Rightarrow> gomap \<Rightarrow> bool" where
  "wf_maps m st \<longleftrightarrow> distinct (map fst m) \<and> distinct (map fst st)
     \<and> fst ` set m \<subseteq> {k. k \<noteq> [] \<and> \<not> is_stor k} \<and> fst ` set st \<subseteq> {k. is_stor k}"

definition wf_mem :: "mem_store \<Rightarrow> bool" where
  "wf_mem s \<longleftrightarrow> wf_maps (mem s) (stor s)"

text \<open>What two maps say about a key: nothing, deleted, or a value.\<close>

definition maps_view :: "gomap \<Rightarrow> gomap \<Rightarrow> bytes \<Rightarrow> bytes option option" where
  "maps_view m st k = (if is_stor k then map_of st k else map_of m k)"

abbreviation mem_view :: "mem_store \<Rightarrow> bytes \<Rightarrow> bytes option option" where
  "mem_view s \<equiv> maps_view (mem s) (stor s)"

definition over :: "(bytes \<Rightarrow> bytes option option) \<Rightarrow> (bytes \<Rightarrow> bytes option) \<Rightarrow> bytes \<Rightarrow> bytes option" where
  "over m V k = (case m k of Some v \<Rightarrow> v | None \<Rightarrow> V k)"

text \<open>The result of a seek over a view: the live keys of the range, strictly in order.\<close>

definition seek_result :: "(bytes \<Rightarrow> bytes option) \<Rightarrow> seek_range \<Rightarrow> (bytes \<times> bytes) list \<Rightarrow> bool" where
  "seek_result V rng xs \<longleftrightarrow> sorted_wrt (cmp_less (Backwards rng)) (map fst xs)
     \<and> set xs = {(k, v). V k = Some v \<and> isKeyOK rng k}"

definition get_result :: "bytes option \<Rightarrow> store_err + bytes" where
  "get_result v = (case v of Some val \<Rightarrow> Inr val | None \<Rightarrow> Inl ErrKeyNotFound)"

locale kv_store =
  fixes ops :: "'s store_ops"
    and inv :: "'s \<Rightarrow> bool"
    and view :: "'s \<Rightarrow> bytes \<Rightarrow> bytes option"
  assumes get_view: "inv s \<Longrightarrow> k \<noteq> [] \<Longrightarrow> op_get ops s k = get_result (view s k)"
    and change_ok: "inv s \<Longrightarrow> wf_maps p st \<Longrightarrow> op_change ops s p st = (None, s') \<Longrightarrow>
      inv s' \<and> (\<forall>k. k \<noteq> [] \<longrightarrow> view s' k = over (maps_view p st) (view s) k)"
    and change_err: "inv s \<Longrightarrow> wf_maps p st \<Longrightarrow> op_change ops s p st = (Some e, s') \<Longrightarrow>
      inv s' \<and> (\<forall>k. k \<noteq> [] \<longrightarrow> view s' k = view s k)"
    and seek_view: "inv s \<Longrightarrow> Prefix rng \<noteq> [] \<Longrightarrow> SearchDepth rng = 0 \<Longrightarrow>
      \<exists>xs. op_seek ops s rng = Inr xs \<and> seek_result (view s) rng xs"
begin

text \<open>A key is listed by a seek exactly when it is in range and \<open>Get\<close> finds it.\<close>

lemma seek_lists_gets:
  assumes "inv s" and "Prefix rng \<noteq> []" and "SearchDepth rng = 0" and "op_seek ops s rng = Inr xs"
    and "k \<noteq> []"
  shows "(k, v) \<in> set xs \<longleftrightarrow> isKeyOK rng k \<and> op_get ops s k = Inr v"
  using seek_view [OF assms(1-3)] assms(4,5) get_view [OF assms(1,5)]
  by (auto simp: seek_result_def get_result_def split: option.splits)

end

section \<open>Facts about the maps\<close>

lemma chooseMap_eq: "k \<noteq> [] \<Longrightarrow> chooseMap s k = Some (if is_stor k then stor s else mem s)"
  by (cases k) (auto simp: chooseMap_def is_stor_def)

lemma map_of_update: "map_of (AList.update k v m) = (map_of m)(k \<mapsto> v)"
  by (rule update_conv')

lemma map_of_maps_copy: "distinct (map fst src) \<Longrightarrow> map_of (maps_copy dst src) = map_of dst ++ map_of src"
proof (induction src arbitrary: dst)
  case (Cons kv src)
  obtain k v where kv: "kv = (k, v)" by fastforce
  have "map_of (maps_copy dst (kv # src)) = (map_of dst)(k \<mapsto> v) ++ map_of src"
    using Cons by (simp add: kv maps_copy_def map_of_update)
  also have "\<dots> = map_of dst ++ map_of (kv # src)"
    using Cons.prems by (simp add: kv map_add_upd_left dom_map_of_conv_image_fst)
  finally show ?case .
qed (simp add: maps_copy_def)

lemma keys_update: "fst ` set (AList.update k v m) = insert k (fst ` set m)"
  by (metis dom_map_of_conv_image_fst dom_fun_upd map_of_update option.distinct(1))

lemma keys_maps_copy: "fst ` set (maps_copy dst src) = fst ` set dst \<union> fst ` set src"
proof (induction src arbitrary: dst)
  case (Cons kv src)
  from Cons [of "AList.update (fst kv) (snd kv) dst"] show ?case
    by (cases kv) (simp add: maps_copy_def keys_update)
qed (simp add: maps_copy_def)

lemma distinct_maps_copy: "distinct (map fst dst) \<Longrightarrow> distinct (map fst (maps_copy dst src))"
  by (induction src arbitrary: dst) (auto simp: maps_copy_def distinct_update split: prod.splits)

lemma wf_putChangeSet:
  "wf_mem s \<Longrightarrow> wf_maps p st \<Longrightarrow> wf_mem (putChangeSet s p st)"
  by (auto simp: wf_mem_def wf_maps_def putChangeSet_def distinct_maps_copy keys_maps_copy)

lemma mem_view_putChangeSet:
  "wf_maps p st \<Longrightarrow> mem_view (putChangeSet s p st) k
     = (case maps_view p st k of Some v \<Rightarrow> Some v | None \<Rightarrow> mem_view s k)"
  by (auto simp: maps_view_def putChangeSet_def wf_maps_def map_of_maps_copy map_add_def
      split: option.splits)

lemma over_putChangeSet:
  "wf_maps p st \<Longrightarrow> over (mem_view (putChangeSet s p st)) V k
     = over (maps_view p st) (over (mem_view s) V) k"
  by (simp add: over_def mem_view_putChangeSet split: option.splits)

lemma mem_put_ok:
  assumes "k \<noteq> []"
  obtains m where "mem_put s k v = Inr m" and "wf_mem s \<Longrightarrow> wf_mem m"
    and "mem_view m = (mem_view s)(k \<mapsto> v)"
proof
  let ?m = "if is_stor k then s\<lparr>stor := AList.update k v (stor s)\<rparr> else s\<lparr>mem := AList.update k v (mem s)\<rparr>"
  show "mem_put s k v = Inr ?m"
    using assms by (cases k) (auto simp: mem_put_def is_stor_def)
  show "mem_view ?m = (mem_view s)(k \<mapsto> v)"
    by (auto simp: maps_view_def fun_eq_iff map_of_update)
  show "wf_mem s \<Longrightarrow> wf_mem ?m"
    using assms by (simp add: wf_mem_def wf_maps_def distinct_update keys_update)
qed

lemma wf_NewMemoryStore [simp]: "wf_mem NewMemoryStore"
  by (simp add: wf_mem_def wf_maps_def NewMemoryStore_def)

lemma over_NewMemoryStore [simp]: "over (mem_view NewMemoryStore) V = V"
  by (simp add: fun_eq_iff over_def maps_view_def NewMemoryStore_def)

section \<open>Seeking a layer\<close>

lemma cmp_less_trans: "cmp_less b x y \<Longrightarrow> cmp_less b y z \<Longrightarrow> cmp_less b x z"
  by (auto simp: cmp_less_def split: if_splits)

lemma cmp_less_irrefl [simp]: "\<not> cmp_less b x x"
  by (simp add: cmp_less_def)

lemma cmp_less_total: "\<not> cmp_less b x y \<Longrightarrow> x \<noteq> y \<Longrightarrow> cmp_less b y x"
  by (auto simp: cmp_less_def split: if_splits)

lemma cmp_less_asym: "cmp_less b x y \<Longrightarrow> \<not> cmp_less b y x"
  by (auto simp: cmp_less_def split: if_splits)

lemma sorted_sort_kv:
  assumes "distinct (map fst xs)"
  shows "sorted_wrt (cmp_less b) (map fst (sort_kv b xs))"
proof -
  have "distinct (map fst (sort_key fst xs))"
    using assms by (simp add: distinct_map)
  then have "sorted_wrt (<) (map fst (sort_key fst xs))"
    by (simp add: strict_sorted_iff)
  then show ?thesis
    by (cases b) (simp_all add: sort_kv_def cmp_less_def [abs_def] sorted_wrt_rev flip: rev_map)
qed

lemma set_sort_kv [simp]: "set (sort_kv b xs) = set xs"
  by (simp add: sort_kv_def)

text \<open>The reference: the cached items and the lower store's pairs merged in order, a cached item
  hiding the pair with its key.\<close>

fun live :: "kvx list \<Rightarrow> (bytes \<times> bytes) list" where
  "live [] = []"
| "live ((k, v, exists) # L) = (if exists then (k, the v) # live L else live L)"

fun emit :: "bool \<Rightarrow> kvx list \<Rightarrow> bytes \<times> bytes \<Rightarrow> (bytes \<times> bytes) list \<times> kvx list" where
  "emit b [] kv = ([kv], [])"
| "emit b ((k, v, exists) # L) kv =
     (if cmp_less b k (fst kv)
      then let (out, L') = emit b L kv in ((if exists then (k, the v) # out else out), L')
      else if k = fst kv then ([], (k, v, exists) # L)
      else ([kv], (k, v, exists) # L))"

primrec merge_ref :: "bool \<Rightarrow> kvx list \<Rightarrow> (bytes \<times> bytes) list \<Rightarrow> (bytes \<times> bytes) list" where
  "merge_ref b L [] = live L"
| "merge_ref b L (kv # kvs) = (let (out, L') = emit b L kv in out @ merge_ref b L' kvs)"

abbreviation mem_list :: "'st merge_state \<Rightarrow> kvx list" where
  "mem_list ms \<equiv> if ms_haveMem ms then ms_kvMem ms # ms_rest ms else []"

lemma iterate_append:
  "iterate f st (xs @ ys) = (let (go, st') = iterate f st xs in if go then iterate f st' ys else (go, st'))"
  by (induction xs arbitrary: st) (auto simp: Let_def split_beta)

text \<open>A callback behind the optional prefix cut.\<close>

abbreviation cut_cb ::
  "bool \<Rightarrow> seek_range \<Rightarrow> ('st \<Rightarrow> bytes \<Rightarrow> bytes \<Rightarrow> bool \<times> 'st) \<Rightarrow> 'st \<Rightarrow> bytes \<Rightarrow> bytes \<Rightarrow> bool \<times> 'st" where
  "cut_cb cp rng f \<equiv> (\<lambda>st k v. f st (cut_key cp rng k) v)"

lemma mem_tail_iterate: "mem_tail cp rng f L st = snd (iterate (cut_cb cp rng f) st (live L))"
  by (induction L arbitrary: st) (auto simp: Let_def split_beta)

text \<open>One call of \<open>mergeFunc\<close> emits what \<open>emit\<close> says, stopping where the callback stops. Once the
  cached items are used up, \<open>kvMem\<close> keeps the last one with its key cut; the next pair of the lower
  store is compared with that key, so the cut keys must not be keys of the lower store.\<close>

definition merge_inv :: "'st merge_state \<Rightarrow> bytes \<Rightarrow> bool" where
  "merge_inv ms kPs \<longleftrightarrow> (\<not> ms_haveMem ms \<longrightarrow> ms_rest ms = [] \<and> fst (ms_kvMem ms) \<noteq> kPs)"

definition advance :: "bool \<Rightarrow> seek_range \<Rightarrow> kvx \<Rightarrow> kvx" where
  "advance cp rng x = (case x of (k, v, e) \<Rightarrow> (if e then cut_key cp rng k else k, v, e))"

lemma mergeFunc_advance:
  assumes "\<not> ms_done ms" and "ms_haveMem ms" and "ms_kvMem ms = (k, v, e)"
    and "cmp_less (Backwards rng) k kPs"
    and "(if e then cut_cb cp rng f (ms_st ms) k (the v) else (True, ms_st ms)) = (go, st')"
  shows "mergeFunc cp rng f (kPs, vPs) ms =
    (if \<not> go then (False, ms\<lparr>ms_st := st', ms_done := True, ms_kvMem := advance cp rng (k, v, e)\<rparr>)
     else mergeFunc cp rng f (kPs, vPs)
       (case ms_rest ms of
          kv # rest \<Rightarrow> ms\<lparr>ms_st := st', ms_kvMem := kv, ms_haveMem := True, ms_rest := rest\<rparr>
        | [] \<Rightarrow> ms\<lparr>ms_st := st', ms_kvMem := advance cp rng (k, v, e), ms_haveMem := False\<rparr>))"
  using assms
  by (subst mergeFunc.simps) (auto simp: advance_def Let_def split_beta split: list.splits)

lemma mergeFunc_emit:
  assumes "\<not> ms_done ms" and "merge_inv ms (fst kv)"
    and "\<forall>x \<in> set (mem_list ms). cmp_less (Backwards rng) (fst x) (fst kv) \<longrightarrow> fst (advance cp rng x) \<noteq> fst kv"
    and "emit (Backwards rng) (mem_list ms) kv = (out, L')"
    and "mergeFunc cp rng f kv ms = (go, ms')"
  shows "iterate (cut_cb cp rng f) (ms_st ms) out = (go, ms_st ms') \<and> ms_done ms' = (\<not> go)
    \<and> (go \<longrightarrow> mem_list ms' = L' \<and> (\<not> ms_haveMem ms' \<longrightarrow> ms_rest ms' = []
        \<and> (ms_kvMem ms' = ms_kvMem ms \<and> \<not> ms_haveMem ms \<or> ms_kvMem ms' \<in> advance cp rng ` set (mem_list ms))))"
  using assms
proof (induction "mem_list ms" arbitrary: ms out)
  case Nil
  then have no: "\<not> ms_haveMem ms" by (auto split: if_splits)
  with Nil.prems(4) have out: "out = [kv]" "L' = []" by auto
  with Nil.prems no show ?case
    by (cases kv; cases "ms_kvMem ms")
      (auto simp: mergeFunc.simps merge_inv_def Let_def split_beta split: if_splits)
next
  case (Cons x L)
  obtain k v e where x: "x = (k, v, e)" by (metis prod_cases3)
  have hv: "ms_haveMem ms" "ms_kvMem ms = (k, v, e)" "ms_rest ms = L"
    using Cons.hyps(2) by (auto simp: x split: if_splits)
  obtain kPs vPs where kv: "kv = (kPs, vPs)" by fastforce
  show ?case
  proof (cases "cmp_less (Backwards rng) k kPs")
    case False
    with Cons.prems hv show ?thesis
      by (auto simp: kv mergeFunc.simps [of cp rng f kPs vPs ms] Let_def split_beta split: if_splits)
  next
    case True
    obtain g st1 where g: "(if e then cut_cb cp rng f (ms_st ms) k (the v) else (True, ms_st ms)) = (g, st1)"
      by fastforce
    obtain out1 L1 where em: "emit (Backwards rng) L kv = (out1, L1)" by fastforce
    with Cons.prems(4) hv True have out: "out = (if e then (k, the v) # out1 else out1)" "L' = L1"
      by (auto simp: kv)
    note adv = mergeFunc_advance [where f = f, OF Cons.prems(1) hv(1,2) True g, of vPs]
    show ?thesis
    proof (cases g)
      case False
      with adv Cons.prems(5) have "go = False" "ms' = ms\<lparr>ms_st := st1, ms_done := True, ms_kvMem := advance cp rng x\<rparr>"
        by (auto simp: kv x)
      with False g out show ?thesis by (auto split: if_splits)
    next
      case g': True
      define ms1 where "ms1 = (case L of
          kv # rest \<Rightarrow> ms\<lparr>ms_st := st1, ms_kvMem := kv, ms_haveMem := True, ms_rest := rest\<rparr>
        | [] \<Rightarrow> ms\<lparr>ms_st := st1, ms_kvMem := advance cp rng x, ms_haveMem := False\<rparr>)"
      have "fst (advance cp rng x) \<noteq> fst kv"
        using Cons.prems(3) hv True by (simp add: x kv)
      then have ms1: "L = mem_list ms1" "\<not> ms_done ms1" "merge_inv ms1 (fst kv)" "ms_st ms1 = st1"
        "\<not> ms_haveMem ms1 \<Longrightarrow> ms_kvMem ms1 = advance cp rng x"
        using Cons.prems(1) hv by (auto simp: ms1_def merge_inv_def split: list.splits)
      have less: "\<forall>x \<in> set (mem_list ms1). cmp_less (Backwards rng) (fst x) (fst kv) \<longrightarrow> fst (advance cp rng x) \<noteq> fst kv"
        using Cons.prems(3) hv by (simp add: ms1(1) [symmetric])
      have run: "mergeFunc cp rng f kv ms1 = (go, ms')"
        using adv g' Cons.prems(5) hv unfolding ms1_def kv x by simp
      have em1: "emit (Backwards rng) (mem_list ms1) kv = (out1, L')"
        using em out ms1(1) by simp
      from Cons.hyps(1) [OF ms1(1-3) less em1 run] show ?thesis
        using g g' out ms1(4,5) hv unfolding ms1(1) [symmetric] by (auto simp: x split: if_splits)
    qed
  qed
qed

text \<open>No cut key of a cached item is the key of a later pair.\<close>

definition cut_free :: "bool \<Rightarrow> seek_range \<Rightarrow> kvx list \<Rightarrow> bytes set \<Rightarrow> bool" where
  "cut_free cp rng L K \<longleftrightarrow> (\<forall>x \<in> set L. \<forall>k \<in> K. cmp_less (Backwards rng) (fst x) k \<longrightarrow> fst (advance cp rng x) \<noteq> k)"

lemma cut_free_mono: "set L' \<subseteq> set L \<Longrightarrow> K' \<subseteq> K \<Longrightarrow> cut_free cp rng L K \<Longrightarrow> cut_free cp rng L' K'"
  unfolding cut_free_def by blast

lemma emit_suffix: "emit b L kv = (out, L') \<Longrightarrow> set L' \<subseteq> set L"
  by (induction b L kv arbitrary: out rule: emit.induct) (auto split: if_splits prod.splits)

lemma emit_done: "emit b L kv = (out, []) \<Longrightarrow> x \<in> set L \<Longrightarrow> cmp_less b (fst x) (fst kv)"
  by (induction b L kv arbitrary: out rule: emit.induct) (auto split: if_splits prod.splits)

lemma merge_run_iterate:
  assumes "\<not> ms_done ms" and "sorted_wrt (cmp_less (Backwards rng)) (map fst xs)"
    and "\<forall>kv \<in> set xs. merge_inv ms (fst kv)" and "cut_free cp rng (mem_list ms) (fst ` set xs)"
    and "merge_run cp rng f xs ms = ms'"
  shows "(if \<not> ms_done ms' \<and> ms_haveMem ms' then mem_tail cp rng f (ms_kvMem ms' # ms_rest ms') (ms_st ms')
          else ms_st ms')
    = snd (iterate (cut_cb cp rng f) (ms_st ms) (merge_ref (Backwards rng) (mem_list ms) xs))"
  using assms
proof (induction xs arbitrary: ms)
  case Nil
  then show ?case by (cases "ms_haveMem ms") (auto simp: mem_tail_iterate)
next
  case (Cons kv xs)
  obtain out L1 where em: "emit (Backwards rng) (mem_list ms) kv = (out, L1)" by fastforce
  obtain go ms1 where run: "mergeFunc cp rng f kv ms = (go, ms1)" by fastforce
  have inv: "merge_inv ms (fst kv)" using Cons.prems(3) by simp
  have free: "\<forall>x \<in> set (mem_list ms). cmp_less (Backwards rng) (fst x) (fst kv) \<longrightarrow> fst (advance cp rng x) \<noteq> fst kv"
    using Cons.prems(4) by (simp add: cut_free_def)
  note step = mergeFunc_emit [OF Cons.prems(1) inv free em run]
  show ?case
  proof (cases go)
    case False
    with step run Cons.prems(5) em show ?thesis
      by (auto simp: iterate_append split_beta Let_def)
  next
    case True
    have L1: "mem_list ms1 = L1" using step True by blast
    have "merge_inv ms1 (fst kv')" if kv': "kv' \<in> set xs" for kv'
      unfolding merge_inv_def
    proof
      assume no: "\<not> ms_haveMem ms1"
      with L1 em have em0: "emit (Backwards rng) (mem_list ms) kv = (out, [])" by simp
      have lt: "cmp_less (Backwards rng) (fst kv) (fst kv')" using Cons.prems(2) kv' by simp
      consider "ms_kvMem ms1 = ms_kvMem ms" "\<not> ms_haveMem ms"
        | x where "x \<in> set (mem_list ms)" "ms_kvMem ms1 = advance cp rng x"
        using step True no by blast
      then have "fst (ms_kvMem ms1) \<noteq> fst kv'"
      proof cases
        case 1
        then show ?thesis using Cons.prems(3) kv' by (simp add: merge_inv_def)
      next
        case 2
        then have "cmp_less (Backwards rng) (fst x) (fst kv')"
          using emit_done [OF em0] lt cmp_less_trans by blast
        then show ?thesis using 2 Cons.prems(4) kv' by (auto simp: cut_free_def)
      qed
      then show "ms_rest ms1 = [] \<and> fst (ms_kvMem ms1) \<noteq> fst kv'" using step True no by blast
    qed
    moreover have "cut_free cp rng (mem_list ms1) (fst ` set xs)"
      unfolding L1 by (rule cut_free_mono [OF emit_suffix [OF em] _ Cons.prems(4)]) auto
    moreover have "merge_run cp rng f xs ms1 = ms'" using Cons.prems(5) run True by simp
    moreover have "\<not> ms_done ms1" using step True by simp
    ultimately have "(if \<not> ms_done ms' \<and> ms_haveMem ms' then mem_tail cp rng f (ms_kvMem ms' # ms_rest ms') (ms_st ms')
          else ms_st ms')
        = snd (iterate (cut_cb cp rng f) (ms_st ms1) (merge_ref (Backwards rng) (mem_list ms1) xs))"
      using Cons.IH [of ms1] Cons.prems(2) by simp
    moreover have "merge_ref (Backwards rng) (mem_list ms) (kv # xs) = out @ merge_ref (Backwards rng) (mem_list ms1) xs"
      using em L1 by simp
    ultimately show ?thesis
      using step True by (simp add: iterate_append)
  qed
qed

text \<open>\<open>performSeek\<close> drives its callback through the merged list, keys cut.\<close>

lemma performSeek_iterate:
  assumes "SearchDepth rng = 0" and "ps_seek rng = Inr items"
    and "sorted_wrt (cmp_less (Backwards rng)) (map fst items)" and "\<forall>kv \<in> set items. fst kv \<noteq> []"
    and "cut_free cp rng memRes (fst ` set items)"
  shows "performSeek ps_seek memRes rng cp f st
    = Inr (snd (iterate (cut_cb cp rng f) st (merge_ref (Backwards rng) (sort_kv (Backwards rng) memRes) items)))"
proof -
  let ?L = "sort_kv (Backwards rng) memRes"
  define ms0 where "ms0 = (case ?L of
      [] \<Rightarrow> \<lparr>ms_st = st, ms_done = False, ms_kvMem = ([], None, False), ms_haveMem = False, ms_rest = []\<rparr>
    | kv # rest \<Rightarrow> \<lparr>ms_st = st, ms_done = False, ms_kvMem = kv, ms_haveMem = True, ms_rest = rest\<rparr>)"
  have ms0: "\<not> ms_done ms0" "mem_list ms0 = ?L" "ms_st ms0 = st" "\<forall>kv \<in> set items. merge_inv ms0 (fst kv)"
    using assms(4) by (auto simp: ms0_def merge_inv_def split: list.splits)
  have free: "cut_free cp rng (mem_list ms0) (fst ` set items)"
    using assms(5) by (simp add: ms0(2) cut_free_def)
  show ?thesis
    using merge_run_iterate [OF ms0(1) assms(3) ms0(4) free refl, of f] assms(1,2) ms0(2,3)
    unfolding performSeek_def ms0_def [symmetric] Let_def by simp
qed

lemma cut_free_uncut: "cut_free False rng L K"
  by (auto simp: cut_free_def advance_def cut_key_def split: prod.splits)

lemma cut_key_False [simp]: "cut_key False rng k = k"
  by (simp add: cut_key_def)

lemma emit_closed:
  assumes "emit b L kv = (out, L')"
  shows "L' = dropWhile (\<lambda>x. cmp_less b (fst x) (fst kv)) L
    \<and> out = live (takeWhile (\<lambda>x. cmp_less b (fst x) (fst kv)) L)
        @ (if L' \<noteq> [] \<and> fst (hd L') = fst kv then [] else [kv])"
  using assms
  by (induction b L kv arbitrary: out rule: emit.induct)
    (auto simp: dropWhile_eq_Nil_conv eq_commute [of "[]"] split: if_splits prod.splits)

lemma live_append: "live (xs @ ys) = live xs @ live ys"
  by (induction xs) auto

lemma set_live: "set (live L) = {(k, the v) |k v. (k, v, True) \<in> set L}"
  by (induction L rule: live.induct) auto

lemma live_keyE:
  assumes "kv \<in> set (live L)"
  obtains x where "x \<in> set L" and "fst x = fst kv"
  using assms by (force simp: set_live)

lemma sorted_live: "sorted_wrt R (map fst L) \<Longrightarrow> sorted_wrt R (map fst (live L))"
proof (induction L)
  case (Cons x L)
  then have "R (fst x) (fst kv)" if "kv \<in> set (live L)" for kv
    using that by (metis (no_types) image_eqI list.set_map list.simps(9) live_keyE sorted_wrt.simps(2))
  with Cons show ?case by (cases x) auto
qed simp

text \<open>What \<open>emit\<close> splits off: the items before the key, and the rest at or after it.\<close>

lemma emit_split:
  assumes "emit b L kv = (out, L')" and "sorted_wrt (cmp_less b) (map fst L)"
  obtains A where "L = A @ L'" and "\<forall>x \<in> set A. cmp_less b (fst x) (fst kv)"
    and "\<forall>x \<in> set L'. \<not> cmp_less b (fst x) (fst kv)"
    and "out = live A @ (if \<exists>x \<in> set L'. fst x = fst kv then [] else [kv])"
    and "sorted_wrt (cmp_less b) (map fst L')"
proof
  let ?p = "\<lambda>x. cmp_less b (fst x) (fst kv)"
  let ?A = "takeWhile ?p L"
  note cl = emit_closed [OF assms(1)]
  then show L: "L = ?A @ L'" by simp
  show "\<forall>x \<in> set ?A. ?p x" by (auto dest: set_takeWhileD)
  have sA: "sorted_wrt (cmp_less b) (map fst (?A @ L'))"
    using assms(2) L by simp
  then show sL': "sorted_wrt (cmp_less b) (map fst L')" by (simp add: sorted_wrt_append)
  show ge: "\<forall>x \<in> set L'. \<not> ?p x"
  proof (cases L')
    case (Cons y ys)
    then have y: "\<not> ?p y" using cl by (metis hd_dropWhile list.distinct(1) list.sel(1))
    have "\<not> ?p z" if "z \<in> set ys" for z
      using that y sL' cmp_less_trans [of b "fst y" "fst z" "fst kv"] by (auto simp: Cons)
    with y show ?thesis by (auto simp: Cons)
  qed simp
  have "(L' \<noteq> [] \<and> fst (hd L') = fst kv) = (\<exists>x \<in> set L'. fst x = fst kv)"
  proof (cases L')
    case (Cons y ys)
    have "fst y = fst kv" if "z \<in> set ys" "fst z = fst kv" for z
      using that sL' ge by (auto simp: Cons)
    then show ?thesis by (auto simp: Cons)
  qed simp
  with cl show "out = live ?A @ (if \<exists>x \<in> set L'. fst x = fst kv then [] else [kv])" by simp
qed

lemma merge_ref_spec:
  assumes "sorted_wrt (cmp_less b) (map fst L)" and "sorted_wrt (cmp_less b) (map fst ps)"
  shows "sorted_wrt (cmp_less b) (map fst (merge_ref b L ps))
    \<and> set (merge_ref b L ps) = set (live L) \<union> {kv \<in> set ps. fst kv \<notin> fst ` set L}"
  using assms
proof (induction ps arbitrary: L)
  case Nil
  then show ?case by (simp add: sorted_live)
next
  case (Cons kv ps)
  obtain out L' where em: "emit b L kv = (out, L')" by fastforce
  obtain A where A: "L = A @ L'" "\<forall>x \<in> set A. cmp_less b (fst x) (fst kv)"
    "\<forall>x \<in> set L'. \<not> cmp_less b (fst x) (fst kv)"
    "out = live A @ (if \<exists>x \<in> set L'. fst x = fst kv then [] else [kv])"
    "sorted_wrt (cmp_less b) (map fst L')"
    using emit_split [OF em Cons.prems(1)] by blast
  have ps: "sorted_wrt (cmp_less b) (map fst ps)" "\<forall>kv' \<in> set ps. cmp_less b (fst kv) (fst kv')"
    using Cons.prems(2) by auto
  note IH = Cons.IH [OF A(5) ps(1)]
  have keysA: "cmp_less b (fst x) (fst kv)" if "x \<in> set (live A)" for x
    using that A(2) by (metis live_keyE)
  have R: "(\<exists>y \<in> set L'. fst y = fst x) \<or> cmp_less b (fst kv) (fst x)"
    if "x \<in> set (merge_ref b L' ps)" for x
    using that IH ps(2) by (blast elim: live_keyE)
  have keysR: "\<not> cmp_less b (fst x) (fst kv)" if "x \<in> set (merge_ref b L' ps)" for x
    using R [OF that] A(3) cmp_less_asym by metis
  have keysR': "cmp_less b (fst kv) (fst x)"
    if "x \<in> set (merge_ref b L' ps)" and "\<not> (\<exists>x \<in> set L'. fst x = fst kv)" for x
    using R [OF that(1)] that(2) keysR [OF that(1)] cmp_less_total by metis
  have lt: "cmp_less b (fst x) (fst y)" if "x \<in> set (live A)" "y \<in> set (merge_ref b L' ps)" for x y
    using keysA [OF that(1)] keysR [OF that(2)] by (metis cmp_less_total cmp_less_trans)
  have sA: "sorted_wrt (cmp_less b) (map fst (live A))"
    using Cons.prems(1) by (simp add: A(1) sorted_wrt_append sorted_live)
  have "sorted_wrt (cmp_less b) (map fst (out @ merge_ref b L' ps))"
    using sA IH lt keysA keysR' by (auto simp: A(4) sorted_wrt_append)
  moreover have "set (out @ merge_ref b L' ps) = set (live L) \<union> {kv' \<in> set (kv # ps). fst kv' \<notin> fst ` set L}"
  proof -
    have notA: "fst kv' \<notin> fst ` set A" if "kv' \<in> set (kv # ps)" for kv'
    proof
      assume "fst kv' \<in> fst ` set A"
      then obtain x where x: "x \<in> set A" "fst x = fst kv'" by force
      have "cmp_less b (fst kv') (fst kv)" using A(2) x by metis
      moreover have "kv' = kv \<or> cmp_less b (fst kv) (fst kv')" using that ps(2) by auto
      ultimately show False using cmp_less_asym cmp_less_irrefl by metis
    qed
    have "(\<exists>x \<in> set L'. fst x = fst kv) \<longleftrightarrow> fst kv \<in> fst ` set L'" by force
    then show ?thesis using notA IH by (auto simp: A(1) A(4) live_append image_Un)
  qed
  ultimately show ?case by (simp add: em)
qed

lemma iterate_collect [simp]: "snd (iterate collect acc xs) = acc @ xs"
  by (induction xs arbitrary: acc) (auto simp: collect_def)

lemma isKeyOK_region:
  assumes "Prefix rng \<noteq> []" and "isKeyOK rng k"
  shows "k \<noteq> []" and "is_stor k = is_stor (Prefix rng)"
  using assms by (auto simp: isKeyOK_def HasPrefix_def is_stor_def split: list.splits)

lemma region_entries:
  assumes "wf_mem s" and "Prefix rng \<noteq> []" and "isKeyOK rng k"
  shows "(k, v) \<in> set (if is_stor (Prefix rng) then stor s else mem s) \<longleftrightarrow> mem_view s k = Some v"
  using assms isKeyOK_region [OF assms(2,3)]
  by (auto simp: maps_view_def wf_mem_def wf_maps_def)

lemma set_live_items: "set (live_items m) = {(k, v). (k, Some v) \<in> set m}"
  by (induction m rule: live_items.induct) auto

lemma distinct_live_items: "distinct (map fst m) \<Longrightarrow> distinct (map fst (live_items m))"
  by (induction m rule: live_items.induct) (force simp: set_live_items)+

lemma distinct_filter_keys: "distinct (map fst m) \<Longrightarrow> distinct (map fst (filter P m))"
  by (simp add: distinct_map inj_on_def)

lemma mem_Seek_result:
  assumes "wf_mem s" and "Prefix rng \<noteq> []"
  obtains xs where "mem_Seek s rng = Inr xs" and "seek_result (over (mem_view s) (\<lambda>_. None)) rng xs"
proof
  let ?m = "if is_stor (Prefix rng) then stor s else mem s"
  let ?f = "filter (\<lambda>(k, v). isKeyOK rng k) (live_items ?m)"
  show "mem_Seek s rng = Inr (sort_kv (Backwards rng) ?f)"
    using assms(2) by (simp add: mem_Seek_def chooseMap_eq)
  have "distinct (map fst ?m)" using assms(1) by (simp add: wf_mem_def wf_maps_def)
  then have "distinct (map fst ?f)" by (intro distinct_filter_keys distinct_live_items)
  then have "sorted_wrt (cmp_less (Backwards rng)) (map fst (sort_kv (Backwards rng) ?f))"
    by (rule sorted_sort_kv)
  moreover have "set ?f = {(k, v). mem_view s k = Some (Some v) \<and> isKeyOK rng k}"
    using region_entries [OF assms] by (auto simp: set_live_items)
  moreover have "{(k, v). mem_view s k = Some (Some v) \<and> isKeyOK rng k}
      = {(k, v). over (mem_view s) (\<lambda>_. None) k = Some v \<and> isKeyOK rng k}"
    by (auto simp: over_def split: option.splits)
  ultimately show "seek_result (over (mem_view s) (\<lambda>_. None)) rng (sort_kv (Backwards rng) ?f)"
    by (simp add: seek_result_def)
qed

text \<open>A cached layer over a lower seek: every callback sees the merged, hidden and sorted items.\<close>

lemma layer_seek_result:
  assumes "wf_mem m" and "Prefix rng \<noteq> []" and "SearchDepth rng = 0"
    and "ps_seek rng = Inr items" and "seek_result V rng items"
  shows "\<exists>xs. layer_Seek m ps_seek False rng = Inr xs \<and> seek_result (over (mem_view m) V) rng xs"
proof -
  let ?b = "Backwards rng"
  let ?mp = "if is_stor (Prefix rng) then stor m else mem m"
  define memRes where "memRes = map (\<lambda>(k, v). (k, v, v \<noteq> None)) (filter (\<lambda>(k, v). isKeyOK rng k) ?mp)"
  let ?xs = "merge_ref ?b (sort_kv ?b memRes) items"
  have snap: "prepareSeekMemSnapshot m rng = Inr memRes"
    using assms(2) by (simp add: prepareSeekMemSnapshot_def chooseMap_eq memRes_def)
  have items: "sorted_wrt (cmp_less ?b) (map fst items)"
    "set items = {(k, v). V k = Some v \<and> isKeyOK rng k}"
    using assms(5) by (simp_all add: seek_result_def)
  have nonempty: "\<forall>kv \<in> set items. fst kv \<noteq> []"
    using items(2) isKeyOK_region(1) [OF assms(2)] by auto
  have run: "layer_Seek m ps_seek False rng = Inr ?xs"
    by (simp add: layer_Seek_def snap
        performSeek_iterate [where ps_seek = ps_seek, OF assms(3,4) items(1) nonempty cut_free_uncut])
  have keys: "map fst memRes = map fst (filter (\<lambda>(k, v). isKeyOK rng k) ?mp)"
    by (auto simp: memRes_def)
  have "distinct (map fst ?mp)" using assms(1) by (simp add: wf_mem_def wf_maps_def)
  then have "distinct (map fst memRes)" by (simp only: keys distinct_filter_keys)
  then have "sorted_wrt (cmp_less ?b) (map fst (sort_kv ?b memRes))" by (rule sorted_sort_kv)
  note spec = merge_ref_spec [OF this items(1)]
  have mem: "(k, v, e) \<in> set memRes \<longleftrightarrow> mem_view m k = Some v \<and> isKeyOK rng k \<and> e = (v \<noteq> None)" for k v e
    using region_entries [OF assms(1,2)] by (auto simp: memRes_def)
  have live: "set (live (sort_kv ?b memRes)) = {(k, v). mem_view m k = Some (Some v) \<and> isKeyOK rng k}"
    by (auto simp: set_live mem)
  have hidden: "fst ` set memRes = {k. mem_view m k \<noteq> None \<and> isKeyOK rng k}"
  proof (rule set_eqI)
    fix k
    have "k \<in> fst ` set memRes \<longleftrightarrow> (\<exists>v e. (k, v, e) \<in> set memRes)" by force
    then show "k \<in> fst ` set memRes \<longleftrightarrow> k \<in> {k. mem_view m k \<noteq> None \<and> isKeyOK rng k}"
      by (simp add: mem)
  qed
  have "set ?xs = {(k, v). over (mem_view m) V k = Some v \<and> isKeyOK rng k}"
    using spec live hidden items(2) by (auto simp: over_def split: option.splits)
  with spec run show ?thesis
    by (simp add: seek_result_def)
qed

text \<open>A callback that may stop early sees the items of \<open>Seek\<close> up to where it stops.\<close>

lemma performSeek_callback:
  assumes "Prefix rng \<noteq> []" and "SearchDepth rng = 0"
    and "ps_seek rng = Inr items" and "seek_result V rng items"
    and "prepareSeekMemSnapshot m rng = Inr memRes" and "layer_Seek m ps_seek False rng = Inr xs"
  shows "performSeek ps_seek memRes rng False f st = Inr (snd (iterate f st xs))"
proof -
  have items: "sorted_wrt (cmp_less (Backwards rng)) (map fst items)" "\<forall>kv \<in> set items. fst kv \<noteq> []"
    using assms(4) isKeyOK_region(1) [OF assms(1)] by (auto simp: seek_result_def)
  note run = performSeek_iterate [where ps_seek = ps_seek, OF assms(2,3) items cut_free_uncut]
  have "xs = merge_ref (Backwards rng) (sort_kv (Backwards rng) memRes) items"
    using assms(5,6) by (simp add: layer_Seek_def run)
  then show ?thesis by (simp add: run)
qed

section \<open>The stores keep the contract\<close>

lemma mem_Get_view: "k \<noteq> [] \<Longrightarrow> mem_Get s k = get_result (over (mem_view s) (\<lambda>_. None) k)"
  by (auto simp: mem_Get_def chooseMap_eq get_result_def over_def maps_view_def split: option.splits)

interpretation memory: kv_store mem_ops wf_mem "\<lambda>s. over (mem_view s) (\<lambda>_. None)"
proof
  fix s and rng :: seek_range
  assume "wf_mem s" and "Prefix rng \<noteq> []"
  then obtain xs where "mem_Seek s rng = Inr xs" "seek_result (over (mem_view s) (\<lambda>_. None)) rng xs"
    by (rule mem_Seek_result)
  then show "\<exists>xs. op_seek mem_ops s rng = Inr xs \<and> seek_result (over (mem_view s) (\<lambda>_. None)) rng xs"
    by (simp add: mem_ops_def)
qed (auto simp: mem_ops_def mem_Get_view mem_PutChangeSet_def wf_putChangeSet over_putChangeSet)

primrec lower_view :: "('s \<Rightarrow> bytes \<Rightarrow> bytes option) \<Rightarrow> 's lower \<Rightarrow> bytes \<Rightarrow> bytes option" where
  "lower_view view (Base s) = view s"
| "lower_view view (Temp m s) = over (mem_view m) (view s)"

primrec lower_inv :: "('s \<Rightarrow> bool) \<Rightarrow> 's lower \<Rightarrow> bool" where
  "lower_inv J (Base s) = J s"
| "lower_inv J (Temp m s) = (wf_mem m \<and> J s)"

definition cached_view :: "('s \<Rightarrow> bytes \<Rightarrow> bytes option) \<Rightarrow> 's mem_cached \<Rightarrow> bytes \<Rightarrow> bytes option" where
  "cached_view view c = over (mem_view (mc_mem c)) (lower_view view (mc_ps c))"

definition cached_inv :: "('s \<Rightarrow> bool) \<Rightarrow> 's mem_cached \<Rightarrow> bool" where
  "cached_inv J c \<longleftrightarrow> wf_mem (mc_mem c) \<and> lower_inv J (mc_ps c)"

lemma layer_Get_view:
  assumes "k \<noteq> []" and "ps_get k = get_result (V k)"
  shows "layer_Get m ps_get k = get_result (over (mem_view m) V k)"
  using assms
  by (auto simp: layer_Get_def chooseMap_eq get_result_def over_def maps_view_def split: option.splits)

text \<open>A cached store over any lower store that keeps the contract.\<close>

locale cached_layer = lower: kv_store ops inv view
  for ops :: "'s store_ops" and inv :: "'s \<Rightarrow> bool" and view :: "'s \<Rightarrow> bytes \<Rightarrow> bytes option"
begin

lemma lower_get_view: "lower_inv inv l \<Longrightarrow> k \<noteq> [] \<Longrightarrow> lower_get ops l k = get_result (lower_view view l k)"
  by (cases l) (simp_all add: lower.get_view layer_Get_view)

lemma lower_seek_result:
  assumes "lower_inv inv l" and "Prefix rng \<noteq> []" and "SearchDepth rng = 0"
  shows "\<exists>xs. lower_seek ops l rng = Inr xs \<and> seek_result (lower_view view l) rng xs"
proof (cases l)
  case (Base s)
  with assms lower.seek_view [of s rng] show ?thesis by auto
next
  case (Temp m s)
  with assms lower.seek_view [of s rng] obtain ys
    where "op_seek ops s rng = Inr ys" "seek_result (view s) rng ys" by auto
  with assms Temp show ?thesis by (simp add: layer_seek_result)
qed

lemma cached_seek_result:
  assumes "cached_inv inv c" and "Prefix rng \<noteq> []" and "SearchDepth rng = 0"
  shows "\<exists>xs. mc_Seek ops c rng = Inr xs \<and> seek_result (cached_view view c) rng xs"
proof -
  have c: "lower_inv inv (mc_ps c)" "wf_mem (mc_mem c)" using assms(1) by (simp_all add: cached_inv_def)
  from lower_seek_result [OF c(1) assms(2,3)] obtain ys
    where "lower_seek ops (mc_ps c) rng = Inr ys" "seek_result (lower_view view (mc_ps c)) rng ys"
    by blast
  from layer_seek_result [where ps_seek = "lower_seek ops (mc_ps c)", OF c(2) assms(2,3) this] show ?thesis
    by (simp add: mc_Seek_def cached_view_def)
qed

end

sublocale cached_layer \<subseteq> cached: kv_store "cached_ops ops" "cached_inv inv" "cached_view view"
proof
  fix c and rng :: seek_range
  assume "cached_inv inv c" "Prefix rng \<noteq> []" "SearchDepth rng = 0"
  then show "\<exists>xs. op_seek (cached_ops ops) c rng = Inr xs \<and> seek_result (cached_view view c) rng xs"
    using cached_seek_result by (simp add: cached_ops_def)
qed (auto simp: cached_ops_def cached_inv_def cached_view_def mc_Get_def mc_PutChangeSet_def
    layer_Get_view lower_get_view wf_putChangeSet over_putChangeSet)

interpretation memcached: cached_layer mem_ops wf_mem "\<lambda>s. over (mem_view s) (\<lambda>_. None)"
  by unfold_locales

interpretation memcached2: cached_layer "cached_ops mem_ops" "cached_inv wf_mem"
  "cached_view (\<lambda>s. over (mem_view s) (\<lambda>_. None))"
  by unfold_locales

end
