(* ===== verification/CacheFlush.thy ===== *)
theory CacheFlush
  imports KVStore
begin

text \<open>
  The life of a shared \<open>MemCachedStore\<close>: writers change it while \<open>persist\<close> flushes it, in three
  critical sections with the lock released in between. The steps are those sections; next to the
  store runs the map of everything written so far, and the two always agree. The rest of the theory
  holds the store properties that need no steps: what \<open>Get\<close> and \<open>Seek\<close> return, what \<open>SeekAsync\<close>
  loses, and what \<open>Export\<close> and \<open>Import\<close> keep.
\<close>

section \<open>Steps\<close>

text \<open>Where \<open>persist\<close> is: not running, flushing, or back from the lower store with its result.\<close>

datatype phase = Idle | Flushing | Flushed "store_err option"

record 's shared =
  sh_cache :: "'s mem_cached"
  sh_phase :: phase
  sh_written :: "bytes \<Rightarrow> bytes option"

inductive cache_step :: "'s store_ops \<Rightarrow> 's shared \<Rightarrow> 's shared \<Rightarrow> bool" for ops where
  put: "mc_Put (sh_cache x) k v = Inr c \<Longrightarrow>
    cache_step ops x (x\<lparr>sh_cache := c, sh_written := (sh_written x)(k := v)\<rparr>)"
| delete: "mc_Delete (sh_cache x) k = Inr c \<Longrightarrow>
    cache_step ops x (x\<lparr>sh_cache := c, sh_written := (sh_written x)(k := None)\<rparr>)"
| change: "wf_maps p st \<Longrightarrow> mc_PutChangeSet (sh_cache x) p st = (e, c) \<Longrightarrow>
    cache_step ops x (x\<lparr>sh_cache := c, sh_written := over (maps_view p st) (sh_written x)\<rparr>)"
| swap: "sh_phase x = Idle \<Longrightarrow> persist_keys (sh_cache x) \<noteq> 0 \<Longrightarrow>
    cache_step ops x (x\<lparr>sh_cache := persist_swap (sh_cache x), sh_phase := Flushing\<rparr>)"
| flush: "sh_phase x = Flushing \<Longrightarrow> persist_flush ops (sh_cache x) = (e, c) \<Longrightarrow>
    cache_step ops x (x\<lparr>sh_cache := c, sh_phase := Flushed e\<rparr>)"
| finish: "sh_phase x = Flushed e \<Longrightarrow>
    cache_step ops x (x\<lparr>sh_cache := persist_finish e (sh_cache x), sh_phase := Idle\<rparr>)"

inductive cache_reach :: "'s store_ops \<Rightarrow> 's shared \<Rightarrow> 's shared \<Rightarrow> bool" for ops x where
  start: "cache_reach ops x x"
| step: "cache_reach ops x y \<Longrightarrow> cache_step ops y z \<Longrightarrow> cache_reach ops x z"

definition shared_start :: "('s \<Rightarrow> bytes \<Rightarrow> bytes option) \<Rightarrow> 's \<Rightarrow> 's shared" where
  "shared_start view s = \<lparr>sh_cache = NewMemCachedStore s, sh_phase = Idle, sh_written = view s\<rparr>"

section \<open>The invariant\<close>

text \<open>The lower store is the flushed layer exactly while a flush runs; after a successful flush the
  layer adds nothing to the store below it.\<close>

definition phase_ok :: "('s \<Rightarrow> bytes \<Rightarrow> bytes option) \<Rightarrow> phase \<Rightarrow> 's lower \<Rightarrow> bool" where
  "phase_ok view ph l = (case (ph, l) of
     (Idle, Base s) \<Rightarrow> True
   | (Flushing, Temp m s) \<Rightarrow> True
   | (Flushed (Some e), Temp m s) \<Rightarrow> True
   | (Flushed None, Temp m s) \<Rightarrow> (\<forall>k. k \<noteq> [] \<longrightarrow> over (mem_view m) (view s) k = view s k)
   | _ \<Rightarrow> False)"

definition shared_inv :: "('s \<Rightarrow> bool) \<Rightarrow> ('s \<Rightarrow> bytes \<Rightarrow> bytes option) \<Rightarrow> 's shared \<Rightarrow> bool" where
  "shared_inv J view x \<longleftrightarrow> cached_inv J (sh_cache x) \<and> phase_ok view (sh_phase x) (mc_ps (sh_cache x))
     \<and> (\<forall>k. k \<noteq> [] \<longrightarrow> cached_view view (sh_cache x) k = sh_written x k)"

lemma over_upd: "over (m(k \<mapsto> v)) V = (over m V)(k := v)"
  by (auto simp: over_def fun_eq_iff)

lemma over_cong: "V k = W k \<Longrightarrow> over m V k = over m W k"
  by (simp add: over_def split: option.split)

lemma mc_write:
  assumes "mc_Put c k v = Inr c'" and "cached_inv J c"
  shows "cached_inv J c'" and "mc_ps c' = mc_ps c" and "cached_view view c' = (cached_view view c)(k := v)"
proof -
  have ne: "k \<noteq> []" using assms(1) by (auto simp: mc_Put_def mem_put_def)
  obtain m where m: "mem_put (mc_mem c) k v = Inr m" "wf_mem (mc_mem c) \<Longrightarrow> wf_mem m"
    "mem_view m = (mem_view (mc_mem c))(k \<mapsto> v)"
    using mem_put_ok [OF ne, of "mc_mem c" v] by blast
  have c': "c' = c\<lparr>mc_mem := m\<rparr>" using assms(1) m(1) by (simp add: mc_Put_def)
  show "cached_inv J c'" "mc_ps c' = mc_ps c" using assms(2) m(2) by (auto simp: c' cached_inv_def)
  show "cached_view view c' = (cached_view view c)(k := v)"
    by (simp add: c' cached_view_def m(3) over_upd)
qed

context cached_layer
begin

lemma shared_inv_start: "inv s \<Longrightarrow> shared_inv inv view (shared_start view s)"
  by (simp add: shared_inv_def shared_start_def NewMemCachedStore_def cached_inv_def cached_view_def
      phase_ok_def)

lemma swap_inv:
  assumes "shared_inv inv view x" and "sh_phase x = Idle"
  shows "shared_inv inv view (x\<lparr>sh_cache := persist_swap (sh_cache x), sh_phase := Flushing\<rparr>)"
  using assms
  by (auto simp: shared_inv_def phase_ok_def persist_swap_def cached_inv_def cached_view_def
      split: lower.splits)

lemma flush_inv:
  assumes "shared_inv inv view x" and "sh_phase x = Flushing" and "persist_flush ops (sh_cache x) = (e, c)"
  shows "shared_inv inv view (x\<lparr>sh_cache := c, sh_phase := Flushed e\<rparr>)"
proof -
  obtain m s where ps: "mc_ps (sh_cache x) = Temp m s"
    using assms(1,2) by (auto simp: shared_inv_def phase_ok_def split: lower.splits)
  obtain s' where ch: "op_change ops s (mem m) (stor m) = (e, s')" and
    c: "c = (sh_cache x)\<lparr>mc_ps := Temp m s'\<rparr>"
    using assms(3) by (auto simp: persist_flush_def ps split: prod.splits)
  have wf: "wf_maps (mem m) (stor m)" "inv s" "wf_mem (mc_mem (sh_cache x))"
    using assms(1) by (auto simp: shared_inv_def cached_inv_def ps wf_mem_def)
  have s': "inv s'" "k \<noteq> [] \<Longrightarrow> over (mem_view m) (view s') k = over (mem_view m) (view s) k"
    "e = None \<Longrightarrow> k \<noteq> [] \<Longrightarrow> over (mem_view m) (view s') k = view s' k" for k
    using lower.change_ok [OF wf(2,1), of s'] lower.change_err [OF wf(2,1), of _ s'] ch
    by (cases e; auto simp: over_def split: option.splits)+
  have "cached_view view c k = cached_view view (sh_cache x) k" if "k \<noteq> []" for k
    using s'(2) [OF that] by (auto simp: cached_view_def c ps over_def split: option.splits)
  then show ?thesis
    using assms(1) wf s' by (auto simp: shared_inv_def cached_inv_def phase_ok_def c wf_mem_def split: option.splits)
qed

lemma finish_inv:
  assumes "shared_inv inv view x" and "sh_phase x = Flushed e"
  shows "shared_inv inv view (x\<lparr>sh_cache := persist_finish e (sh_cache x), sh_phase := Idle\<rparr>)"
proof -
  obtain m s where ps: "mc_ps (sh_cache x) = Temp m s"
    and ok: "e = None \<Longrightarrow> \<forall>k. k \<noteq> [] \<longrightarrow> over (mem_view m) (view s) k = view s k"
    using assms by (auto simp: shared_inv_def phase_ok_def split: lower.splits option.splits)
  let ?c = "sh_cache x"
  have wf: "wf_mem m" "inv s" "wf_mem (mc_mem ?c)" "wf_maps (mem (mc_mem ?c)) (stor (mc_mem ?c))"
    using assms(1) by (auto simp: shared_inv_def cached_inv_def ps wf_mem_def)
  have "cached_view view (persist_finish e ?c) k = cached_view view ?c k" if "k \<noteq> []" for k
  proof (cases e)
    case None
    then show ?thesis
      using ok that by (auto simp: persist_finish_def ps cached_view_def over_def split: option.splits)
  next
    case (Some err)
    then show ?thesis
      by (simp add: persist_finish_def ps cached_view_def over_putChangeSet [OF wf(4)])
  qed
  moreover have "cached_inv inv (persist_finish e ?c)"
    using wf wf_putChangeSet [OF wf(1,4)] by (auto simp: persist_finish_def ps cached_inv_def)
  moreover have "phase_ok view Idle (mc_ps (persist_finish e ?c))"
    by (auto simp: persist_finish_def ps phase_ok_def)
  ultimately show ?thesis using assms(1) by (simp add: shared_inv_def)
qed

lemma step_inv: "cache_step ops x y \<Longrightarrow> shared_inv inv view x \<Longrightarrow> shared_inv inv view y"
proof (induction rule: cache_step.induct)
  case (put x k v c)
  then show ?case using mc_write [OF put.hyps] by (auto simp: shared_inv_def)
next
  case (delete x k c)
  then have "mc_Put (sh_cache x) k None = Inr c" by (simp add: mc_Delete_def mc_Put_def)
  then show ?case using delete.prems mc_write by (fastforce simp: shared_inv_def)
next
  case (change p st x e c)
  then have c: "c = (sh_cache x)\<lparr>mc_mem := putChangeSet (mc_mem (sh_cache x)) p st\<rparr>"
    by (simp add: mc_PutChangeSet_def)
  have "cached_view view c k = over (maps_view p st) (cached_view view (sh_cache x)) k" for k
    using change.hyps(1) by (simp add: c cached_view_def over_putChangeSet)
  with change show ?case
    by (auto simp: shared_inv_def cached_inv_def c wf_putChangeSet intro: over_cong)
qed (auto intro: swap_inv flush_inv finish_inv)

lemma reach_inv: "cache_reach ops x y \<Longrightarrow> shared_inv inv view x \<Longrightarrow> shared_inv inv view y"
  by (induction rule: cache_reach.induct) (auto intro: step_inv)

lemma reach_get:
  assumes "cache_reach ops (shared_start view s) y" and "inv s" and "k \<noteq> []"
  shows "mc_Get ops (sh_cache y) k = get_result (sh_written y k)"
proof -
  have "shared_inv inv view y" by (rule reach_inv [OF assms(1) shared_inv_start [OF assms(2)]])
  then show ?thesis
    using cached.get_view [of "sh_cache y" k] assms(3) by (simp add: shared_inv_def cached_ops_def)
qed

lemma cached_seek_lists:
  assumes "cached_inv inv c" and "Prefix rng \<noteq> []" and "SearchDepth rng = 0"
  shows "\<exists>xs. mc_Seek ops c rng = Inr xs \<and> sorted_wrt (cmp_less (Backwards rng)) (map fst xs)
    \<and> (\<forall>k v. (k, v) \<in> set xs \<longleftrightarrow> isKeyOK rng k \<and> mc_Get ops c k = Inr v)"
proof -
  from cached_seek_result [OF assms] obtain xs
    where xs: "mc_Seek ops c rng = Inr xs" "seek_result (cached_view view c) rng xs" by blast
  have "op_seek (cached_ops ops) c rng = Inr xs" using xs(1) by (simp add: cached_ops_def)
  from cached.seek_lists_gets [OF assms this]
  have "(k, v) \<in> set xs \<longleftrightarrow> isKeyOK rng k \<and> mc_Get ops c k = Inr v" if "k \<noteq> []" for k v
    using that by (simp add: cached_ops_def)
  moreover have "(k, v) \<in> set xs \<longleftrightarrow> isKeyOK rng k \<and> mc_Get ops c k = Inr v" if "k = []" for k v
    using that xs(2) isKeyOK_region(1) [OF assms(2)] by (auto simp: seek_result_def)
  ultimately have "(k, v) \<in> set xs \<longleftrightarrow> isKeyOK rng k \<and> mc_Get ops c k = Inr v" for k v
    by blast
  then show ?thesis using xs by (auto simp: seek_result_def)
qed

end

section \<open>Seeking with the prefix cut\<close>

lemma iterate_cut_collect:
  "snd (iterate (cut_cb cp rng collect) acc xs) = acc @ map (\<lambda>(k, v). (cut_key cp rng k, v)) xs"
  by (induction xs arbitrary: acc) (auto simp: collect_def)

text \<open>No cached key of the range continues, after the prefix, with the prefix again.\<close>

definition no_nested_prefix :: "mem_store \<Rightarrow> seek_range \<Rightarrow> bool" where
  "no_nested_prefix m rng \<longleftrightarrow>
     (\<forall>kv \<in> set (mem m) \<union> set (stor m). isKeyOK rng (fst kv) \<longrightarrow>
        \<not> HasPrefix (drop (length (Prefix rng)) (fst kv)) (Prefix rng))"

lemma layer_SeekAsync_cut:
  assumes "Prefix rng \<noteq> []" and "SearchDepth rng = 0" and "ps_seek rng = Inr items"
    and "seek_result V rng items" and "no_nested_prefix m rng"
  shows "layer_Seek m ps_seek True rng
    = map_sum id (map (\<lambda>(k, v). (drop (length (Prefix rng)) k, v))) (layer_Seek m ps_seek False rng)"
proof -
  let ?mp = "if is_stor (Prefix rng) then stor m else mem m"
  define memRes where "memRes = map (\<lambda>(k, v). (k, v, v \<noteq> None)) (filter (\<lambda>(k, v). isKeyOK rng k) ?mp)"
  have snap: "prepareSeekMemSnapshot m rng = Inr memRes"
    using assms(1) by (simp add: prepareSeekMemSnapshot_def chooseMap_eq memRes_def)
  have items: "sorted_wrt (cmp_less (Backwards rng)) (map fst items)" "\<forall>kv \<in> set items. fst kv \<noteq> []"
    "\<And>k. k \<in> fst ` set items \<Longrightarrow> HasPrefix k (Prefix rng)"
    using assms(4) isKeyOK_region(1) [OF assms(1)] by (auto simp: seek_result_def isKeyOK_def)
  have "cut_free True rng memRes (fst ` set items)"
    unfolding cut_free_def
  proof (intro ballI impI)
    fix x k
    assume x: "x \<in> set memRes" and k: "k \<in> fst ` set items" and lt: "cmp_less (Backwards rng) (fst x) k"
    obtain kx v e where xx: "x = (kx, v, e)" by (metis prod_cases3)
    have "(kx, v) \<in> set (mem m) \<union> set (stor m)" "isKeyOK rng kx"
      using x by (auto simp: memRes_def xx split: if_splits)
    with assms(5) have "\<not> HasPrefix (drop (length (Prefix rng)) kx) (Prefix rng)"
      by (force simp: no_nested_prefix_def)
    then show "fst (advance True rng x) \<noteq> k"
      using items(3) [OF k] lt by (auto simp: advance_def xx cut_key_def)
  qed
  note cut = performSeek_iterate [where ps_seek = ps_seek, OF assms(2,3) items(1,2) this]
  note uncut = performSeek_iterate [where ps_seek = ps_seek, OF assms(2,3) items(1,2) cut_free_uncut]
  show ?thesis
    by (simp add: layer_Seek_def snap cut uncut iterate_cut_collect) (simp add: cut_key_def)
qed

section \<open>Properties of the stores\<close>

text \<open>C6. Writers and a flush may interleave in any order, the lower store may refuse the flush, and
  still every reachable state of a shared cached store answers \<open>Get\<close> with the last value written:
  no write is lost or resurrected by \<open>persist\<close>. The lower store is any one that keeps the contract.\<close>

theorem persist_keeps_writes:
  assumes "kv_store ops J view" and "J s" and "cache_reach ops (shared_start view s) y" and "k \<noteq> []"
  shows "mc_Get ops (sh_cache y) k = get_result (sh_written y k)"
proof -
  have "cached_layer ops J view" by (rule cached_layer.intro [OF assms(1)])
  from cached_layer.reach_get [OF this assms(3,2,4)] show ?thesis .
qed

theorem persist_keeps_writes_witness:
  "mc_Get mem_ops (sh_cache
     (let x0 = shared_start (\<lambda>s. over (mem_view s) (\<lambda>_. None)) NewMemoryStore;
          x1 = x0\<lparr>sh_cache := (sh_cache x0)\<lparr>mc_mem := \<lparr>mem = [], stor = [([0x70], Some [1])]\<rparr>\<rparr>,
                  sh_written := (sh_written x0)([0x70] := Some [1])\<rparr>
      in x1\<lparr>sh_cache := persist_swap (sh_cache x1), sh_phase := Flushing\<rparr>)) [0x70] = Inr [1]"
proof -
  define x0 where "x0 = shared_start (\<lambda>s. over (mem_view s) (\<lambda>_. None)) NewMemoryStore"
  define x1 where "x1 = x0\<lparr>sh_cache := (sh_cache x0)\<lparr>mc_mem := \<lparr>mem = [], stor = [([0x70], Some [1])]\<rparr>\<rparr>,
                  sh_written := (sh_written x0)([0x70] := Some [1])\<rparr>"
  define x2 where "x2 = x1\<lparr>sh_cache := persist_swap (sh_cache x1), sh_phase := Flushing\<rparr>"
  have "mc_Put (sh_cache x0) [0x70] (Some [1]) = Inr (sh_cache x1)"
    by (simp add: x0_def x1_def shared_start_def NewMemCachedStore_def NewMemoryStore_def mc_Put_def
        mem_put_def STStorage_def)
  then have s1: "cache_step mem_ops x0 x1"
    using cache_step.put [of x0 "[0x70]" "Some [1]" "sh_cache x1" mem_ops] by (simp add: x1_def)
  have "sh_phase x1 = Idle" "persist_keys (sh_cache x1) \<noteq> 0"
    by (simp_all add: x0_def x1_def shared_start_def NewMemCachedStore_def persist_keys_def)
  then have s2: "cache_step mem_ops x1 x2" unfolding x2_def by (rule cache_step.swap)
  have r: "cache_reach mem_ops x0 x2"
    using cache_reach.step [OF cache_reach.step [OF cache_reach.start s1] s2] .
  have "mc_Get mem_ops (sh_cache x2) [0x70] = get_result (sh_written x2 [0x70])"
    using persist_keeps_writes [OF memory.kv_store_axioms _ r [unfolded x0_def]] by simp
  then show ?thesis by (simp add: x2_def x1_def x0_def get_result_def Let_def)
qed

text \<open>C7. \<open>Seek\<close> of a cached store over any lower store that keeps the contract: the pairs come in
  strict key order (reversed for a backwards seek), and a key of the range is listed, with its
  value, exactly when \<open>Get\<close> finds it; tombstones hide the lower store's pairs.\<close>

theorem Seek_lists_live_keys:
  assumes "kv_store ops J view" and "cached_inv J c" and "Prefix rng \<noteq> []" and "SearchDepth rng = 0"
  shows "\<exists>xs. mc_Seek ops c rng = Inr xs \<and> sorted_wrt (cmp_less (Backwards rng)) (map fst xs)
    \<and> (\<forall>k v. (k, v) \<in> set xs \<longleftrightarrow> isKeyOK rng k \<and> mc_Get ops c k = Inr v)"
proof -
  have "cached_layer ops J view" by (rule cached_layer.intro [OF assms(1)])
  from cached_layer.cached_seek_lists [OF this assms(2-4)] show ?thesis .
qed

theorem Seek_lists_live_keys_witness:
  "\<exists>xs. mc_Seek mem_ops (NewMemCachedStore NewMemoryStore)
      \<lparr>Prefix = [0x70], Start = [], Backwards = True, SearchDepth = 0\<rparr> = Inr xs
    \<and> sorted_wrt (cmp_less True) (map fst xs)"
proof -
  have "cached_inv wf_mem (NewMemCachedStore NewMemoryStore)"
    by (simp add: cached_inv_def NewMemCachedStore_def)
  from Seek_lists_live_keys [OF memory.kv_store_axioms this,
      of "\<lparr>Prefix = [0x70], Start = [], Backwards = True, SearchDepth = 0\<rparr>"]
  show ?thesis by auto
qed

text \<open>\<open>SeekAsync\<close> with the prefix cut lists exactly the pairs of \<open>Seek\<close>, with the prefix removed
  from the keys, as long as no cached key of the range repeats the prefix after the prefix.\<close>

theorem SeekAsync_cuts_Seek:
  assumes "kv_store ops J view" and "cached_inv J c" and "Prefix rng \<noteq> []" and "SearchDepth rng = 0"
    and "no_nested_prefix (mc_mem c) rng"
  shows "mc_SeekAsync ops c rng True
    = map_sum id (map (\<lambda>(k, v). (drop (length (Prefix rng)) k, v))) (mc_Seek ops c rng)"
proof -
  have L: "cached_layer ops J view" by (rule cached_layer.intro [OF assms(1)])
  have "lower_inv J (mc_ps c)" using assms(2) by (simp add: cached_inv_def)
  from cached_layer.lower_seek_result [OF L this assms(3,4)] obtain items
    where "lower_seek ops (mc_ps c) rng = Inr items" "seek_result (lower_view view (mc_ps c)) rng items"
    by blast
  from layer_SeekAsync_cut [where ps_seek = "lower_seek ops (mc_ps c)", OF assms(3,4) this assms(5)]
  show ?thesis by (simp add: mc_SeekAsync_def mc_Seek_def)
qed

theorem SeekAsync_cuts_Seek_witness:
  "mc_SeekAsync mem_ops (NewMemCachedStore NewMemoryStore)
      \<lparr>Prefix = [0x70], Start = [], Backwards = False, SearchDepth = 0\<rparr> True
   = map_sum id (map (\<lambda>(k, v). (drop 1 k, v))) (mc_Seek mem_ops (NewMemCachedStore NewMemoryStore)
      \<lparr>Prefix = [0x70], Start = [], Backwards = False, SearchDepth = 0\<rparr>)"
proof -
  have "cached_inv wf_mem (NewMemCachedStore NewMemoryStore)"
    by (simp add: cached_inv_def NewMemCachedStore_def)
  from SeekAsync_cuts_Seek [OF memory.kv_store_axioms this,
      of "\<lparr>Prefix = [0x70], Start = [], Backwards = False, SearchDepth = 0\<rparr>"]
  show ?thesis by (simp add: no_nested_prefix_def NewMemCachedStore_def NewMemoryStore_def)
qed

text \<open>Without that proviso a pair is lost: with one persisted item under contract 1 and a newer
  cached item whose key repeats the storage prefix, \<open>Seek\<close> lists both and \<open>SeekAsync\<close> with the cut
  lists one, because \<open>mergeFunc\<close> compares the lower store's key with the already cut key of the last
  cached item.\<close>

theorem SeekAsync_loses_key:
  "let p = [0x70, 1, 0, 0, 0] :: bytes;
       c = \<lparr>mc_mem = \<lparr>mem = [], stor = [(p @ p @ [0x71], Some [2])]\<rparr>, mc_private = False,
            mc_ps = Base \<lparr>mem = [], stor = [(p @ [0x71], Some [1])]\<rparr>\<rparr>;
       rng = \<lparr>Prefix = p, Start = [], Backwards = False, SearchDepth = 0\<rparr>
   in mc_Seek mem_ops c rng = Inr [(p @ p @ [0x71], [2]), (p @ [0x71], [1])]
    \<and> mc_SeekAsync mem_ops c rng True = Inr [(p @ [0x71], [2])]"
  by (simp add: Let_def mc_Seek_def mc_SeekAsync_def layer_Seek_def prepareSeekMemSnapshot_def
      chooseMap_def STStorage_def STTempStorage_def isKeyOK_def HasPrefix_def performSeek_def sort_kv_def
      mem_ops_def mem_Seek_def mergeFunc.simps cmp_less_def cut_key_def collect_def)

text \<open>\<open>Export\<close> followed by \<open>Import\<close> keeps every item except those with an empty value, which are
  gone afterwards: the copies are made by appending to a nil slice.\<close>

theorem Export_Import_drops_empty_values:
  assumes "k \<noteq> []"
  shows "mem_Get (case mem_Export s of (m, st) \<Rightarrow> mem_Import s' m st) k
    = (if mem_Get s k = Inr [] then Inl ErrKeyNotFound else mem_Get s k)"
proof -
  have "map_of (copy_map m) = map_option append_nil \<circ> map_of m" for m
    by (induction m) (auto simp: copy_map_def fun_eq_iff)
  moreover have "append_nil (append_nil v) = append_nil v" for v
    by (auto simp: append_nil_def split: option.splits list.splits)
  ultimately show ?thesis
    using assms
    by (auto simp: mem_Get_def mem_Export_def mem_Import_def chooseMap_eq append_nil_def
        split: option.splits list.splits)
qed

theorem Export_Import_drops_empty_values_witness:
  "mem_Get (case mem_Export \<lparr>mem = [([1], Some [])], stor = []\<rparr> of (m, st) \<Rightarrow> mem_Import NewMemoryStore m st) [1]
     = Inl ErrKeyNotFound"
  using Export_Import_drops_empty_values [of "[1]" NewMemoryStore "\<lparr>mem = [([1], Some [])], stor = []\<rparr>"]
  by (simp add: mem_Get_def chooseMap_def STStorage_def STTempStorage_def)

end
