(* ===== verification/ForkStore.thy ===== *)
theory ForkStore
  imports KVStore
begin

text \<open>
  Model of \<open>pkg/nanvil/fork\<close>: the storage of a forked chain. \<open>TrackingOverlay\<close>
  (\<open>tracking_store.go\<close>) holds the local writes, \<open>RemoteStateStore\<close> (\<open>remote_store.go\<close>) fetches
  contract storage lazily from a remote node and caches it, and \<open>Store\<close> (\<open>overlay_store.go\<close>) reads
  overlay, then remote, then the base store. The remote node is the record \<open>net\<close>: the answers of its
  RPC calls \<open>getproof\<close> and \<open>findstates\<close>, and the proof check of \<open>pkg/core/mpt\<close>.
\<close>

section \<open>The overlay\<close>

record overlay =
  ov_writes :: gomap
  ov_deletes :: "bytes list"

definition NewTrackingOverlay :: overlay where
  "NewTrackingOverlay = \<lparr>ov_writes = [], ov_deletes = []\<rparr>"

definition ov_Put :: "overlay \<Rightarrow> bytes \<Rightarrow> bytes option \<Rightarrow> overlay" where
  "ov_Put ov key v =
     ov\<lparr>ov_deletes := removeAll key (ov_deletes ov), ov_writes := AList.update key (append_nil v) (ov_writes ov)\<rparr>"

definition ov_Delete :: "overlay \<Rightarrow> bytes \<Rightarrow> overlay" where
  "ov_Delete ov key =
     ov\<lparr>ov_writes := AList.delete key (ov_writes ov), ov_deletes := List.insert key (ov_deletes ov)\<rparr>"

text \<open>The value, nil for a deleted or missing key, and whether the overlay knows the key.\<close>

definition ov_Get :: "overlay \<Rightarrow> bytes \<Rightarrow> bytes option \<times> bool" where
  "ov_Get ov key =
     (if key \<in> set (ov_deletes ov) then (None, True)
      else case map_of (ov_writes ov) key of None \<Rightarrow> (None, False) | Some v \<Rightarrow> (append_nil v, True))"

definition ov_Reset :: "overlay \<Rightarrow> overlay" where
  "ov_Reset ov = ov\<lparr>ov_writes := [], ov_deletes := []\<rparr>"

definition ov_Export :: "overlay \<Rightarrow> gomap \<times> bytes list" where
  "ov_Export ov = (copy_map (ov_writes ov), ov_deletes ov)"

definition ov_Import :: "overlay \<Rightarrow> gomap \<Rightarrow> bytes list \<Rightarrow> overlay" where
  "ov_Import ov w d = ov\<lparr>ov_writes := copy_map w, ov_deletes := remdups d\<rparr>"

definition ov_Len :: "overlay \<Rightarrow> nat" where
  "ov_Len ov = length (ov_writes ov) + length (ov_deletes ov)"

section \<open>The remote reader\<close>

type_synonym hash160 = bytes

text \<open>The remote node: \<open>getproof\<close> (root, contract, key), \<open>findstates\<close> (root, contract, prefix, from;
  a page and whether it was truncated), \<open>None\<close> for an error; and \<open>mpt.VerifyProof\<close>.\<close>

record net =
  n_GetProof :: "bytes \<Rightarrow> hash160 \<Rightarrow> bytes \<Rightarrow> (bytes \<times> bytes list) option"
  n_FindStates :: "bytes \<Rightarrow> hash160 \<Rightarrow> bytes \<Rightarrow> bytes \<Rightarrow> ((bytes \<times> bytes) list \<times> bool) option"
  n_VerifyProof :: "bytes \<Rightarrow> bytes \<Rightarrow> bytes list \<Rightarrow> bytes option"

text \<open>The string cache keys encode contract and item key injectively; they are the pair. The disk
  cache is absent when there is none or when it is switched off.\<close>

record remote_store =
  rs_RootHash :: bytes
  rs_mem :: "((hash160 \<times> bytes) \<times> bytes) list"
  rs_cache :: "((hash160 \<times> bytes) \<times> bytes) list option"
  rs_contractByID :: "(u32 \<times> hash160) list"

definition ContractHash :: "remote_store \<Rightarrow> u32 \<Rightarrow> hash160 option" where
  "ContractHash r i = map_of (rs_contractByID r) i"

definition cache_put :: "remote_store \<Rightarrow> hash160 \<times> bytes \<Rightarrow> bytes \<Rightarrow> remote_store" where
  "cache_put r ck v = r\<lparr>rs_mem := AList.update ck v (rs_mem r),
     rs_cache := map_option (AList.update ck v) (rs_cache r)\<rparr>"

definition rs_GetProof :: "net \<Rightarrow> remote_store \<Rightarrow> hash160 \<Rightarrow> bytes \<Rightarrow> bytes option \<times> remote_store" where
  "rs_GetProof n r contract key =
    (case map_of (rs_mem r) (contract, key) of
       Some v \<Rightarrow> (Some v, r)
     | None \<Rightarrow>
       (case Option.bind (rs_cache r) (\<lambda>c. map_of c (contract, key)) of
          Some raw \<Rightarrow> (Some raw, r\<lparr>rs_mem := AList.update (contract, key) raw (rs_mem r)\<rparr>)
        | None \<Rightarrow>
          (case n_GetProof n (rs_RootHash r) contract key of
             None \<Rightarrow> (None, r)
           | Some (pkey, proof) \<Rightarrow>
             (case n_VerifyProof n (rs_RootHash r) pkey proof of
                None \<Rightarrow> (None, r)
              | Some val \<Rightarrow> (Some val, cache_put r (contract, key) val)))))"

text \<open>One page of \<open>IterateContractStorage\<close>: the result says whether the callback stopped.\<close>

fun iterate_page ::
  "hash160 \<Rightarrow> bytes \<Rightarrow> bytes \<Rightarrow> ('st \<Rightarrow> bytes \<Rightarrow> bytes \<Rightarrow> bool \<times> 'st) \<Rightarrow> (bytes \<times> bytes) list
     \<Rightarrow> remote_store \<times> 'st \<Rightarrow> bool \<times> remote_store \<times> 'st" where
  "iterate_page c p start cont [] (r, st) = (True, r, st)"
| "iterate_page c p start cont ((k, v) # kvs) (r, st) =
    (if length p > 0 \<and> \<not> HasPrefix k p then iterate_page c p start cont kvs (r, st)
     else if length start > 0 \<and> k < start then iterate_page c p start cont kvs (r, st)
     else let r' = cache_put r (c, k) v; (go, st') = cont st k v
          in if go then iterate_page c p start cont kvs (r', st') else (False, r', st'))"

text \<open>The page loop; fuel counts pages, \<open>None\<close> when it runs out. An error of the node ends it, and
  what was seen stays seen.\<close>

fun iterate_pages ::
  "nat \<Rightarrow> net \<Rightarrow> hash160 \<Rightarrow> bytes \<Rightarrow> bytes \<Rightarrow> bytes \<Rightarrow> ('st \<Rightarrow> bytes \<Rightarrow> bytes \<Rightarrow> bool \<times> 'st)
     \<Rightarrow> remote_store \<times> 'st \<Rightarrow> (remote_store \<times> 'st) option" where
  "iterate_pages 0 n c p start from cont rst = None"
| "iterate_pages (Suc fuel) n c p start from cont (r, st) =
    (case n_FindStates n (rs_RootHash r) c (p @ start) from of
       None \<Rightarrow> Some (r, st)
     | Some (res, truncated) \<Rightarrow>
       (case iterate_page c p start cont res (r, st) of (go, rst) \<Rightarrow>
          if \<not> go then Some rst
          else if \<not> truncated \<or> res = [] then Some rst
          else iterate_pages fuel n c p start (fst (last res)) cont rst))"

definition IterateContractStorage ::
  "nat \<Rightarrow> net \<Rightarrow> remote_store \<Rightarrow> hash160 \<Rightarrow> bytes \<Rightarrow> bytes \<Rightarrow> ('st \<Rightarrow> bytes \<Rightarrow> bytes \<Rightarrow> bool \<times> 'st) \<Rightarrow> 'st
     \<Rightarrow> (remote_store \<times> 'st) option" where
  "IterateContractStorage fuel n r c p start cont st = iterate_pages fuel n c p start [] cont (r, st)"

text \<open>\<open>PrefetchContract\<close> stores every page; \<open>None\<close> in the result is out of fuel, and the flag whether
  the node answered without an error.\<close>

fun PrefetchContract ::
  "nat \<Rightarrow> net \<Rightarrow> remote_store \<Rightarrow> hash160 \<Rightarrow> bytes \<Rightarrow> (bool \<times> remote_store) option" where
  "PrefetchContract 0 n r c from = None"
| "PrefetchContract (Suc fuel) n r c from =
    (case n_FindStates n (rs_RootHash r) c [] from of
       None \<Rightarrow> Some (False, r)
     | Some (res, truncated) \<Rightarrow>
       (let r' = fold (\<lambda>(k, v) r. cache_put r (c, k) v) res r
        in if \<not> truncated \<or> res = [] then Some (True, r')
           else PrefetchContract fuel n r' c (fst (last res))))"

section \<open>Contract storage keys\<close>

definition isContractStorageKey :: "bytes \<Rightarrow> bool" where
  "isContractStorageKey key =
     (if length key < 1 then False else key ! 0 = STStorage \<or> key ! 0 = STTempStorage)"

definition parseContractStorageKey :: "bytes \<Rightarrow> (u32 \<times> bytes) option" where
  "parseContractStorageKey key =
     (if length key < 5 \<or> \<not> isContractStorageKey key then None
      else Some (of_nat (le_nat (take 4 (drop 1 key))), drop 5 key))"

definition contractIDFromPrefix :: "bytes \<Rightarrow> (u32 \<times> bytes) option" where
  "contractIDFromPrefix p =
     (if length p < 5 \<or> \<not> isContractStorageKey p then None
      else Some (of_nat (le_nat (take 4 (drop 1 p))), drop 5 p))"

definition makeContractStorageKey :: "u32 \<Rightarrow> bytes \<Rightarrow> bytes" where
  "makeContractStorageKey i itemKey = STStorage # nat_le 4 (unat i) @ itemKey"

definition keyInSeekRange :: "bytes \<Rightarrow> seek_range \<Rightarrow> bool" where
  "keyInSeekRange key rng =
     (if \<not> HasPrefix key (Prefix rng) then False
      else if length (Start rng) = 0 then True
      else Start rng \<le> drop (length (Prefix rng)) key)"

section \<open>The store\<close>

record 's fork_store =
  fs_base :: 's
  fs_remote :: "remote_store option"
  fs_overlay :: overlay

definition NewStore :: "'s \<Rightarrow> overlay \<Rightarrow> 's fork_store" where
  "NewStore base ov = \<lparr>fs_base = base, fs_remote = None, fs_overlay = ov\<rparr>"

definition SetRemote :: "'s fork_store \<Rightarrow> remote_store option \<Rightarrow> 's fork_store" where
  "SetRemote s r = s\<lparr>fs_remote := r\<rparr>"

definition getRemote :: "net \<Rightarrow> 's fork_store \<Rightarrow> bytes \<Rightarrow> bytes option \<times> 's fork_store" where
  "getRemote n s key =
    (case fs_remote s of None \<Rightarrow> (None, s)
     | Some r \<Rightarrow>
       (case parseContractStorageKey key of None \<Rightarrow> (None, s)
        | Some (i, itemKey) \<Rightarrow>
          (case ContractHash r i of None \<Rightarrow> (None, s)
           | Some h \<Rightarrow> (let (v, r') = rs_GetProof n r h itemKey in (v, s\<lparr>fs_remote := Some r'\<rparr>)))))"

definition fs_Get :: "'s store_ops \<Rightarrow> net \<Rightarrow> 's fork_store \<Rightarrow> bytes \<Rightarrow> (store_err + bytes) \<times> 's fork_store" where
  "fs_Get ops n s key =
    (if \<not> isContractStorageKey key then (op_get ops (fs_base s) key, s)
     else let (v, ok) = ov_Get (fs_overlay s) key
          in if ok then ((case v of None \<Rightarrow> Inl ErrKeyNotFound | Some val \<Rightarrow> Inr val), s)
             else (case getRemote n s key of
                     (Some val, s') \<Rightarrow> (Inr val, s')
                   | (None, s') \<Rightarrow> (op_get ops (fs_base s') key, s')))"

definition overlay_change :: "overlay \<Rightarrow> bytes \<times> bytes option \<Rightarrow> overlay" where
  "overlay_change ov kv = (case kv of (k, v) \<Rightarrow>
     if \<not> isContractStorageKey k then ov
     else if v = None then ov_Delete ov k else ov_Put ov k v)"

definition fs_PutChangeSet ::
  "'s store_ops \<Rightarrow> 's fork_store \<Rightarrow> gomap \<Rightarrow> gomap \<Rightarrow> store_err option \<times> 's fork_store" where
  "fs_PutChangeSet ops s puts stores =
    (let ov = foldl overlay_change (fs_overlay s) stores;
         (e, b) = op_change ops (fs_base s) puts stores
     in (e, s\<lparr>fs_overlay := ov, fs_base := b\<rparr>))"

text \<open>The callback of \<open>collectSeek\<close> over the remote items adds them to the merged map.\<close>

definition add_remote :: "u32 \<Rightarrow> gomap \<Rightarrow> bytes \<Rightarrow> bytes \<Rightarrow> bool \<times> gomap" where
  "add_remote i merged k v = (True, AList.update (makeContractStorageKey i k) (Some v) merged)"

definition collect_remote :: "nat \<Rightarrow> net \<Rightarrow> 's fork_store \<Rightarrow> seek_range \<Rightarrow> gomap \<Rightarrow> (gomap \<times> 's fork_store) option" where
  "collect_remote fuel n s rng merged =
    (case fs_remote s of None \<Rightarrow> Some (merged, s)
     | Some r \<Rightarrow>
       (case contractIDFromPrefix (Prefix rng) of None \<Rightarrow> Some (merged, s)
        | Some (i, subPrefix) \<Rightarrow>
          (case ContractHash r i of None \<Rightarrow> Some (merged, s)
           | Some h \<Rightarrow>
             (case IterateContractStorage fuel n r h subPrefix (Start rng) (add_remote i) merged of
                None \<Rightarrow> None
              | Some (r', merged') \<Rightarrow> Some (merged', s\<lparr>fs_remote := Some r'\<rparr>)))))"

text \<open>The overlay's writes and deletes in the range, applied to the merged map.\<close>

definition apply_overlay :: "overlay \<Rightarrow> seek_range \<Rightarrow> gomap \<Rightarrow> gomap" where
  "apply_overlay ov rng merged =
    fold (\<lambda>k m. if keyInSeekRange k rng then AList.delete k m else m) (ov_deletes ov)
      (fold (\<lambda>(k, v) m. if keyInSeekRange k rng then AList.update k v m else m) (ov_writes ov) merged)"

definition collectSeek ::
  "nat \<Rightarrow> 's store_ops \<Rightarrow> net \<Rightarrow> 's fork_store \<Rightarrow> seek_range
     \<Rightarrow> (store_err + (bytes \<times> bytes option) list \<times> 's fork_store) option" where
  "collectSeek fuel ops n s rng =
    (case op_seek ops (fs_base s) rng of Inl e \<Rightarrow> Some (Inl e)
     | Inr items \<Rightarrow>
       (let merged0 = fold (\<lambda>(k, v) m. AList.update k (Some v) m) items []
        in case collect_remote fuel n s rng merged0 of None \<Rightarrow> None
           | Some (merged, s') \<Rightarrow>
               Some (Inr (sort_key fst (apply_overlay (fs_overlay s') rng merged), s'))))"

definition nil_empty :: "bytes option \<Rightarrow> bytes" where
  "nil_empty v = (case v of None \<Rightarrow> [] | Some b \<Rightarrow> b)"

definition fs_Seek ::
  "nat \<Rightarrow> 's store_ops \<Rightarrow> net \<Rightarrow> 's fork_store \<Rightarrow> seek_range
     \<Rightarrow> (store_err + (bytes \<times> bytes) list \<times> 's fork_store) option" where
  "fs_Seek fuel ops n s rng =
    (if length (Prefix rng) = 0 \<or> \<not> isContractStorageKey (Prefix rng)
     then Some (case op_seek ops (fs_base s) rng of Inl e \<Rightarrow> Inl e | Inr xs \<Rightarrow> Inr (xs, s))
     else map_option (map_sum id (\<lambda>(xs, s'). (map (\<lambda>(k, v). (k, nil_empty v)) xs, s')))
            (collectSeek fuel ops n s rng))"

text \<open>The callback loop of \<open>SeekGC\<close>: the keys not kept, in order, and the overlay without them.\<close>

fun gc_loop ::
  "('st \<Rightarrow> bytes \<Rightarrow> bytes \<Rightarrow> (bool \<times> bool) \<times> 'st) \<Rightarrow> 'st \<Rightarrow> (bytes \<times> bytes option) list \<Rightarrow> overlay
     \<Rightarrow> bytes list \<times> overlay \<times> 'st" where
  "gc_loop keepCont st [] ov = ([], ov, st)"
| "gc_loop keepCont st ((k, v) # kvs) ov =
    (let ((keep, cont), st') = keepCont st k (nil_empty v);
         ov' = (if keep then ov else ov_Delete ov k);
         (ks, ov'', st'') = (if cont then gc_loop keepCont st' kvs ov' else ([], ov', st'))
     in (if keep then ks else k # ks, ov'', st''))"

text \<open>For a contract storage prefix; other prefixes are the base store's \<open>SeekGC\<close>.\<close>

definition fs_SeekGC ::
  "nat \<Rightarrow> 's store_ops \<Rightarrow> net \<Rightarrow> 's fork_store \<Rightarrow> seek_range
     \<Rightarrow> ('st \<Rightarrow> bytes \<Rightarrow> bytes \<Rightarrow> (bool \<times> bool) \<times> 'st) \<Rightarrow> 'st \<Rightarrow> (store_err + 's fork_store \<times> 'st) option" where
  "fs_SeekGC fuel ops n s rng keepCont st =
    (case collectSeek fuel ops n s rng of None \<Rightarrow> None
     | Some (Inl e) \<Rightarrow> Some (Inl e)
     | Some (Inr (kvs, s1)) \<Rightarrow>
       (let (toDelete, ov, st') = gc_loop keepCont st kvs (fs_overlay s1);
            s2 = s1\<lparr>fs_overlay := ov\<rparr>
        in Some (Inr (if length toDelete > 0
              then s2\<lparr>fs_base := snd (op_change ops (fs_base s2) [] (map (\<lambda>k. (k, None)) (remdups toDelete)))\<rparr>
              else s2, st'))))"

section \<open>Bootstrap writes\<close>

definition PutStorageOverlay :: "overlay \<Rightarrow> u32 \<Rightarrow> bytes \<Rightarrow> bytes option \<Rightarrow> overlay" where
  "PutStorageOverlay ov i key v = ov_Put ov (makeContractStorageKey i key) v"

text \<open>\<open>encode\<close> stands for \<open>state.NEP17Balance.Bytes\<close>; the account is its 20 big-endian bytes.\<close>

definition PutGasBalanceOverlay :: "(int \<Rightarrow> bytes) \<Rightarrow> overlay \<Rightarrow> hash160 \<Rightarrow> int \<Rightarrow> string + overlay" where
  "PutGasBalanceOverlay encode ov account amount =
    (if amount < 0 then Inl ''negative GAS balance''
     else Inr (PutStorageOverlay ov (of_int (- 6)) (20 # account) (Some (encode amount))))"

fun fund_accounts :: "(int \<Rightarrow> bytes) \<Rightarrow> int \<Rightarrow> hash160 list \<Rightarrow> overlay \<Rightarrow> string + overlay" where
  "fund_accounts encode balance [] ov = Inr ov"
| "fund_accounts encode balance (a # accs) ov =
    (case PutGasBalanceOverlay encode ov a balance of Inl e \<Rightarrow> Inl e
     | Inr ov' \<Rightarrow> fund_accounts encode balance accs ov')"

text \<open>\<open>balance*int64(len+1)\<close> is 64-bit arithmetic.\<close>

definition fundForkAccounts :: "(int \<Rightarrow> bytes) \<Rightarrow> overlay \<Rightarrow> hash160 \<Rightarrow> hash160 list \<Rightarrow> 64 word \<Rightarrow> string + overlay" where
  "fundForkAccounts encode ov validator accs balance =
    (case PutGasBalanceOverlay encode ov validator (sint (balance * of_nat (length accs + 1))) of
       Inl e \<Rightarrow> Inl e
     | Inr ov' \<Rightarrow> fund_accounts encode (sint balance) accs ov')"

section \<open>Reading the overlay\<close>

lemma append_nil_idem [simp]: "append_nil (append_nil v) = append_nil v"
  by (auto simp: append_nil_def split: option.splits list.splits)

lemma ov_Get_Put [store_simps]:
  "ov_Get (ov_Put ov k v) k' = (if k' = k then (append_nil v, True) else ov_Get ov k')"
  by (auto simp: ov_Get_def ov_Put_def map_of_update split: option.splits)

lemma ov_Get_Delete [store_simps]:
  "ov_Get (ov_Delete ov k) k' = (if k' = k then (None, True) else ov_Get ov k')"
  by (auto simp: ov_Get_def ov_Delete_def delete_conv split: option.splits)

lemma ov_Get_change [store_simps]:
  "ov_Get (overlay_change ov (k, v)) k'
     = (if k' = k \<and> isContractStorageKey k then (append_nil v, True) else ov_Get ov k')"
  by (auto simp: overlay_change_def store_simps append_nil_def)

lemma ov_Get_changes:
  "distinct (map fst stores) \<Longrightarrow> ov_Get (foldl overlay_change ov stores) k
     = (case map_of stores k of
          Some v \<Rightarrow> if isContractStorageKey k then (append_nil v, True) else ov_Get ov k
        | None \<Rightarrow> ov_Get ov k)"
proof (induction stores arbitrary: ov)
  case (Cons kv stores)
  obtain k0 v0 where kv: "kv = (k0, v0)" by fastforce
  have "k = k0 \<Longrightarrow> map_of stores k = None" using Cons.prems by (simp add: kv map_of_eq_None_iff)
  with Cons show ?case by (auto simp: kv store_simps split: option.splits)
qed simp

section \<open>The merged map\<close>

lemma map_of_fold_update:
  "map_of (fold (\<lambda>(k, v) m. AList.update k (f v) m) items m0) k
     = (case map_of (rev items) k of Some v \<Rightarrow> Some (f v) | None \<Rightarrow> map_of m0 k)"
  by (induction items arbitrary: m0) (auto simp: map_of_update map_add_def split: option.splits)

lemma map_of_rev_distinct: "distinct (map fst xs) \<Longrightarrow> map_of (rev xs) = map_of xs"
  by (induction xs) (auto simp: map_add_def fun_eq_iff split: option.splits dest: map_of_SomeD intro: rev_image_eqI)

lemma distinct_fold_update:
  "distinct (map fst m0) \<Longrightarrow> distinct (map fst (fold (\<lambda>(k, v) m. AList.update k (f v) m) items m0))"
  by (induction items arbitrary: m0) (auto simp: distinct_update)

lemma map_of_apply_writes:
  "distinct (map fst w) \<Longrightarrow>
   map_of (fold (\<lambda>(k, v) m. if P k then AList.update k v m else m) w m0) k
     = (if P k then (case map_of w k of Some v \<Rightarrow> Some v | None \<Rightarrow> map_of m0 k) else map_of m0 k)"
proof (induction w arbitrary: m0)
  case (Cons kv w)
  obtain k0 v0 where kv: "kv = (k0, v0)" by fastforce
  have "k = k0 \<Longrightarrow> map_of w k = None" using Cons.prems by (simp add: kv map_of_eq_None_iff)
  with Cons show ?case by (auto simp: kv map_of_update split: option.splits)
qed simp

lemma map_of_apply_deletes:
  "map_of (fold (\<lambda>k m. if P k then AList.delete k m else m) d m0) k
     = (if P k \<and> k \<in> set d then None else map_of m0 k)"
  by (induction d arbitrary: m0) (auto simp: delete_conv)

lemma distinct_apply:
  "distinct (map fst m0) \<Longrightarrow> distinct (map fst (apply_overlay ov rng m0))"
proof -
  have w: "distinct (map fst m0) \<Longrightarrow>
      distinct (map fst (fold (\<lambda>(k, v) m. if P k then AList.update k v m else m) w m0))"
    for P :: "bytes \<Rightarrow> bool" and w and m0 :: gomap
    by (induction w arbitrary: m0) (auto simp: distinct_update)
  have d: "distinct (map fst m0) \<Longrightarrow>
      distinct (map fst (fold (\<lambda>k m. if P k then AList.delete k m else m) d m0))"
    for P :: "bytes \<Rightarrow> bool" and d and m0 :: gomap
    by (induction d arbitrary: m0) (auto simp: distinct_delete)
  assume "distinct (map fst m0)"
  then show ?thesis unfolding apply_overlay_def by (intro w d)
qed

lemma strict_sort_key: "distinct (map fst xs) \<Longrightarrow> sorted_wrt (<) (map fst (sort_key fst xs))"
  by (simp add: strict_sorted_iff distinct_map)

text \<open>An overlay as its operations leave it: no key twice, no key both written and deleted.\<close>

definition ov_wf :: "overlay \<Rightarrow> bool" where
  "ov_wf ov \<longleftrightarrow> distinct (map fst (ov_writes ov)) \<and> distinct (ov_deletes ov)
     \<and> fst ` set (ov_writes ov) \<inter> set (ov_deletes ov) = {}"

lemma ov_wf_Put: "ov_wf ov \<Longrightarrow> ov_wf (ov_Put ov k v)"
  by (auto simp: ov_wf_def ov_Put_def distinct_update keys_update distinct_removeAll)

lemma keys_delete: "fst ` set (AList.delete k m) = fst ` set m - {k}"
proof -
  have "map_of (AList.delete k m) = (map_of m)(k := None)"
    by (simp add: fun_eq_iff delete_conv)
  then have "dom (map_of (AList.delete k m)) = dom (map_of m) - {k}" by simp
  then show ?thesis by (simp add: dom_map_of_conv_image_fst)
qed

lemma ov_wf_Delete: "ov_wf ov \<Longrightarrow> ov_wf (ov_Delete ov k)"
  unfolding ov_wf_def ov_Delete_def by (simp add: distinct_delete keys_delete) blast

lemma ov_wf_changes: "ov_wf ov \<Longrightarrow> ov_wf (foldl overlay_change ov stores)"
  by (induction stores arbitrary: ov) (auto simp: overlay_change_def ov_wf_Put ov_wf_Delete split: prod.splits)

section \<open>Properties of the fork store\<close>


definition no_net :: net where
  "no_net = \<lparr>n_GetProof = \<lambda>_ _ _. None, n_FindStates = \<lambda>_ _ _ _. None, n_VerifyProof = \<lambda>_ _ _. None\<rparr>"


text \<open>Storage keys of the fork are built and taken apart consistently: contract id and item key
  survive the round trip, and the key is one the store routes to the overlay.\<close>

theorem storage_key_round_trip:
  "parseContractStorageKey (makeContractStorageKey i key) = Some (i, key)
   \<and> isContractStorageKey (makeContractStorageKey i key)"
  by (simp add: parseContractStorageKey_def makeContractStorageKey_def isContractStorageKey_def
      le_nat_nat_le_id del: nat_le.simps)

text \<open>The proved value of an item of the branch state, and a cache that holds only such values.\<close>

definition proved_value :: "net \<Rightarrow> bytes \<Rightarrow> hash160 \<Rightarrow> bytes \<Rightarrow> bytes option" where
  "proved_value n root c k =
     Option.bind (n_GetProof n root c k) (\<lambda>(pkey, proof). n_VerifyProof n root pkey proof)"

definition cache_proved :: "net \<Rightarrow> remote_store \<Rightarrow> bool" where
  "cache_proved n r \<longleftrightarrow> (\<forall>c k v. (map_of (rs_mem r) (c, k) = Some v
      \<or> Option.bind (rs_cache r) (\<lambda>d. map_of d (c, k)) = Some v) \<longrightarrow>
     proved_value n (rs_RootHash r) c k = Some v)"

text \<open>The lazy reader is transparent: as long as its caches hold proved values only, \<open>GetProof\<close>
  returns exactly the value proved against the branch's state root, and it adds proved values only.\<close>

theorem GetProof_transparent:
  assumes "cache_proved n r" and "rs_GetProof n r c k = (v, r')"
  shows "v = proved_value n (rs_RootHash r) c k \<and> cache_proved n r' \<and> rs_RootHash r' = rs_RootHash r"
proof (cases "map_of (rs_mem r) (c, k)")
  case (Some w)
  then have "proved_value n (rs_RootHash r) c k = Some w"
    using assms(1) by (auto simp: cache_proved_def)
  with Some assms show ?thesis by (simp add: rs_GetProof_def)
next
  case None
  show ?thesis
  proof (cases "Option.bind (rs_cache r) (\<lambda>d. map_of d (c, k))")
    case (Some w)
    with assms None have "v = Some w" "r' = r\<lparr>rs_mem := AList.update (c, k) w (rs_mem r)\<rparr>"
      by (auto simp: rs_GetProof_def)
    moreover have "proved_value n (rs_RootHash r) c k = Some w"
      using assms(1) Some by (auto simp: cache_proved_def)
    ultimately show ?thesis
      using assms(1) by (auto simp: cache_proved_def map_of_update)
  next
    case none: None
    show ?thesis
    proof (cases "proved_value n (rs_RootHash r) c k")
      case None': None
      with assms None none show ?thesis
        by (auto simp: rs_GetProof_def proved_value_def bind_eq_None_conv split: option.splits prod.splits)
    next
      case (Some w)
      then have "v = Some w" "r' = cache_put r (c, k) w"
        using assms None none
        by (auto simp: rs_GetProof_def proved_value_def bind_eq_Some_conv split: option.splits prod.splits)
      with Some assms(1) show ?thesis
        by (auto simp: cache_proved_def cache_put_def map_of_update bind_eq_Some_conv)
    qed
  qed
qed

theorem GetProof_transparent_witness:
  "fst (rs_GetProof \<lparr>n_GetProof = \<lambda>_ _ k. Some (k, []), n_FindStates = \<lambda>_ _ _ _. None,
      n_VerifyProof = \<lambda>_ k _. Some k\<rparr>
     \<lparr>rs_RootHash = [], rs_mem = [], rs_cache = Some [], rs_contractByID = []\<rparr> [1] [2]) = Some [2]"
  (is "fst (rs_GetProof ?n ?r _ _) = _")
proof -
  have "cache_proved ?n ?r" by (simp add: cache_proved_def)
  from GetProof_transparent [OF this prod.collapse [symmetric], of "[1]" "[2]"] show ?thesis
    by (simp add: proved_value_def)
qed

text \<open>Prefetched pages bypass the proof check: after \<open>PrefetchContract\<close> has stored a page of
  \<open>findstates\<close>, \<open>GetProof\<close> hands the page's value out although the node can prove nothing at all.\<close>

theorem Prefetch_is_not_verified:
  assumes "n_FindStates n (rs_RootHash r) c [] [] = Some ([(k, v)], False)"
  shows "\<exists>r'. PrefetchContract 1 n r c [] = Some (True, r')
    \<and> fst (rs_GetProof (n\<lparr>n_VerifyProof := \<lambda>_ _ _. None\<rparr>) r' c k) = Some v"
  using assms by (auto simp: rs_GetProof_def cache_put_def map_of_update)

theorem Prefetch_is_not_verified_witness:
  "\<exists>r'. PrefetchContract 1 \<lparr>n_GetProof = \<lambda>_ _ _. None, n_FindStates = \<lambda>_ _ _ _. Some ([([1], [2])], False),
      n_VerifyProof = \<lambda>_ _ _. None\<rparr>
      \<lparr>rs_RootHash = [], rs_mem = [], rs_cache = None, rs_contractByID = []\<rparr> [9] [] = Some (True, r')"
  (is "\<exists>r'. PrefetchContract 1 ?n ?r _ _ = _")
  using Prefetch_is_not_verified [of ?n ?r "[9]" "[1]" "[2]"] by auto

section \<open>Seeking a fork\<close>

lemma isContractStorageKey_is_stor: "isContractStorageKey k = is_stor k"
  by (cases k) (auto simp: isContractStorageKey_def is_stor_def)

lemma keyInSeekRange_forward: "\<not> Backwards rng \<Longrightarrow> keyInSeekRange k rng = isKeyOK rng k"
  by (auto simp: keyInSeekRange_def isKeyOK_def)

lemma map_of_apply_overlay:
  "ov_wf ov \<Longrightarrow> map_of (apply_overlay ov rng m0) k =
    (if keyInSeekRange k rng
     then (if k \<in> set (ov_deletes ov) then None
           else case map_of (ov_writes ov) k of Some v \<Rightarrow> Some v | None \<Rightarrow> map_of m0 k)
     else map_of m0 k)"
  by (auto simp: apply_overlay_def map_of_apply_deletes map_of_apply_writes ov_wf_def)

lemma collectSeek_local:
  assumes "op_seek ops (fs_base s) rng = Inr items" and "fs_remote s = None"
  shows "collectSeek fuel ops n s rng = Some (Inr (sort_key fst (apply_overlay (fs_overlay s) rng
    (fold (\<lambda>(k, v) m. AList.update k (Some v) m) items [])), s))"
  using assms by (simp add: collectSeek_def collect_remote_def)



text \<open>The direction of a seek is ignored: over the same two items a backwards seek of the base
  store lists them in descending order, and the fork store over it in ascending order.\<close>

theorem fork_Seek_ignores_Backwards:
  "let base = \<lparr>mem = [], stor = [([0x70, 1], Some [7]), ([0x70, 2], Some [8])]\<rparr>;
       rng = \<lparr>Prefix = [0x70], Start = [], Backwards = True, SearchDepth = 0\<rparr>;
       s = NewStore base NewTrackingOverlay
   in mem_Seek base rng = Inr [([0x70, 2], [8]), ([0x70, 1], [7])]
    \<and> fs_Seek 0 mem_ops no_net s rng = Some (Inr ([([0x70, 1], [7]), ([0x70, 2], [8])], s))"
  by code_simp

text \<open>A node that serves a fixed state in one page: the items of a contract under a prefix.\<close>

definition honest_net :: "(bytes \<times> bytes) list \<Rightarrow> net" where
  "honest_net items = \<lparr>n_GetProof = \<lambda>_ _ _. None,
     n_FindStates = \<lambda>_ _ p _. Some (filter (\<lambda>(k, v). HasPrefix k p) items, False),
     n_VerifyProof = \<lambda>_ _ _. None\<rparr>"

text \<open>A seek with a start key misses remote items: the contract has the items 1.3 and 1.5 and the
  seek asks for those under prefix 1 from 2 on; the node is asked for prefix 1.2 and nothing is
  listed, although the start key precedes both.\<close>

theorem fork_Seek_start_misses_remote:
  "let r = \<lparr>rs_RootHash = [], rs_mem = [], rs_cache = None, rs_contractByID = [(1, [9])]\<rparr>;
       s = SetRemote (NewStore NewMemoryStore NewTrackingOverlay) (Some r);
       rng = \<lparr>Prefix = makeContractStorageKey 1 [1], Start = [2], Backwards = False, SearchDepth = 0\<rparr>
   in isKeyOK rng (makeContractStorageKey 1 [1, 3]) \<and> isKeyOK rng (makeContractStorageKey 1 [1, 5])
    \<and> map_option (map_sum id fst) (fs_Seek 1 mem_ops (honest_net [([1, 3], [7]), ([1, 5], [8])]) s rng)
      = Some (Inr [])"
  by code_simp

end
