(* ===== verification/Hashing.thy ===== *)
theory Hashing
  imports NanvilPrelude
begin

text \<open>
  Model of \<open>pkg/crypto/hash\<close>: \<open>Sha256\<close>, \<open>DoubleSha256\<close>, \<open>Checksum\<close>, the signed data of a hashable
  item (\<open>hash.go\<close>) and the two Merkle roots of \<open>merkle_tree.go\<close>, the tree of \<open>NewMerkleTree\<close> and
  the in-place \<open>CalcMerkleRoot\<close>. SHA-256 is the function of Go's \<open>crypto/sha256\<close>, written out after
  FIPS 180-4. A \<open>util.Uint256\<close> is the list of its bytes in big-endian order.
\<close>

section \<open>SHA-256\<close>

type_synonym hash256 = bytes

definition sha_K :: "u32 list" where
  "sha_K =
    [1116352408, 1899447441, 3049323471, 3921009573, 961987163, 1508970993, 2453635748, 2870763221,
     3624381080, 310598401, 607225278, 1426881987, 1925078388, 2162078206, 2614888103, 3248222580,
     3835390401, 4022224774, 264347078, 604807628, 770255983, 1249150122, 1555081692, 1996064986,
     2554220882, 2821834349, 2952996808, 3210313671, 3336571891, 3584528711, 113926993, 338241895,
     666307205, 773529912, 1294757372, 1396182291, 1695183700, 1986661051, 2177026350, 2456956037,
     2730485921, 2820302411, 3259730800, 3345764771, 3516065817, 3600352804, 4094571909, 275423344,
     430227734, 506948616, 659060556, 883997877, 958139571, 1322822218, 1537002063, 1747873779,
     1955562222, 2024104815, 2227730452, 2361852424, 2428436474, 2756734187, 3204031479, 3329325298]"

type_synonym sha_state = "u32 \<times> u32 \<times> u32 \<times> u32 \<times> u32 \<times> u32 \<times> u32 \<times> u32"

definition sha_init :: sha_state where
  "sha_init = (1779033703, 3144134277, 1013904242, 2773480762, 1359893119, 2600822924, 528734635, 1541459225)"

definition rotr :: "nat \<Rightarrow> u32 \<Rightarrow> u32" where
  "rotr n x = drop_bit n x OR push_bit (32 - n) x"

text \<open>The message schedule, latest word first: \<open>k\<close> more words are put in front.\<close>

fun sha_schedule :: "nat \<Rightarrow> u32 list \<Rightarrow> u32 list" where
  "sha_schedule 0 ws = ws"
| "sha_schedule (Suc k) ws =
    (let w15 = ws ! 14; w2 = ws ! 1;
         s0 = rotr 7 w15 XOR rotr 18 w15 XOR drop_bit 3 w15;
         s1 = rotr 17 w2 XOR rotr 19 w2 XOR drop_bit 10 w2
     in sha_schedule k ((ws ! 15 + s0 + ws ! 6 + s1) # ws))"

fun sha_round :: "u32 \<times> u32 \<Rightarrow> sha_state \<Rightarrow> sha_state" where
  "sha_round (k, w) (a, b, c, d, e, f, g, h) =
    (let s1 = rotr 6 e XOR rotr 11 e XOR rotr 25 e;
         ch = (e AND f) XOR (NOT e AND g);
         t1 = h + s1 + ch + k + w;
         s0 = rotr 2 a XOR rotr 13 a XOR rotr 22 a;
         maj = (a AND b) XOR (a AND c) XOR (b AND c)
     in (t1 + (s0 + maj), a, b, c, d + t1, e, f, g))"

fun be_words :: "bytes \<Rightarrow> u32 list" where
  "be_words (a # b # c # d # bs) =
     (push_bit 24 (ucast a) OR push_bit 16 (ucast b) OR push_bit 8 (ucast c) OR ucast d) # be_words bs"
| "be_words _ = []"

fun sha_add :: "sha_state \<Rightarrow> sha_state \<Rightarrow> sha_state" where
  "sha_add (a, b, c, d, e, f, g, h) (a', b', c', d', e', f', g', h') =
     (a + a', b + b', c + c', d + d', e + e', f + f', g + g', h + h')"

definition sha_block :: "bytes \<Rightarrow> sha_state \<Rightarrow> sha_state" where
  "sha_block blk st =
     sha_add st (fold sha_round (zip sha_K (rev (sha_schedule 48 (rev (be_words blk))))) st)"

fun sha_blocks :: "nat \<Rightarrow> bytes \<Rightarrow> sha_state \<Rightarrow> sha_state" where
  "sha_blocks 0 data st = st"
| "sha_blocks (Suc n) data st = sha_blocks n (drop 64 data) (sha_block (take 64 data) st)"

definition sha_pad :: "bytes \<Rightarrow> bytes" where
  "sha_pad data =
     data @ 0x80 # replicate ((119 - length data mod 64) mod 64) 0 @ rev (nat_le 8 (8 * length data))"

fun sha_bytes :: "sha_state \<Rightarrow> bytes" where
  "sha_bytes (a, b, c, d, e, f, g, h) = concat (map (\<lambda>w. rev (nat_le 4 (unat w))) [a, b, c, d, e, f, g, h])"

definition Sha256 :: "bytes \<Rightarrow> hash256" where
  "Sha256 data = (let p = sha_pad data in sha_bytes (sha_blocks (length p div 64) p sha_init))"

definition DoubleSha256 :: "bytes \<Rightarrow> hash256" where
  "DoubleSha256 data = Sha256 (Sha256 data)"

definition Checksum :: "bytes \<Rightarrow> bytes" where
  "Checksum data = take 4 (DoubleSha256 data)"

text \<open>An item that can be signed is given by its hash.\<close>

definition GetSignedData :: "u32 \<Rightarrow> hash256 \<Rightarrow> bytes" where
  "GetSignedData net h = nat_le 4 (unat net) @ h"

definition NetSha256 :: "u32 \<Rightarrow> hash256 \<Rightarrow> hash256" where
  "NetSha256 net h = Sha256 (GetSignedData net h)"

section \<open>Merkle roots\<close>

text \<open>The tree, without the parent pointers.\<close>

datatype merkle_node = MerkleLeaf (m_hash: hash256) | MerkleInner (m_hash: hash256) merkle_node merkle_node

text \<open>One level of \<open>buildMerkleTree\<close>: the last node is its own sibling when the number is odd.\<close>

definition merkle_parent :: "merkle_node \<Rightarrow> merkle_node \<Rightarrow> merkle_node" where
  "merkle_parent l r = MerkleInner (DoubleSha256 (m_hash l @ m_hash r)) l r"

fun merkle_parents :: "merkle_node list \<Rightarrow> merkle_node list" where
  "merkle_parents [] = []"
| "merkle_parents [l] = [merkle_parent l l]"
| "merkle_parents (l # r # ns) = merkle_parent l r # merkle_parents ns"

lemma length_merkle_parents [simp]: "length (merkle_parents ns) = (length ns + 1) div 2"
  by (induction ns rule: merkle_parents.induct) auto

lemma half_less: "1 < n \<Longrightarrow> (n + 1) div 2 < (n :: nat)"
  by linarith

text \<open>\<open>None\<close> is the panic on an empty list.\<close>

function buildMerkleTree :: "merkle_node list \<Rightarrow> merkle_node option" where
  "buildMerkleTree leaves =
    (if length leaves = 0 then None
     else if length leaves = 1 then Some (leaves ! 0)
     else buildMerkleTree (merkle_parents leaves))"
  by auto
termination
  by (relation "measure length") (use half_less in \<open>auto simp: neq_Nil_conv\<close>)

declare buildMerkleTree.simps [simp del]

definition NewMerkleTree :: "hash256 list \<Rightarrow> string + merkle_node" where
  "NewMerkleTree hashes =
    (if length hashes = 0 then Inl ''length of the hashes cannot be zero''
     else case buildMerkleTree (map MerkleLeaf hashes) of None \<Rightarrow> Inl ''panic'' | Some n \<Rightarrow> Inr n)"

text \<open>\<open>CalcMerkleRoot\<close> writes the parents over the front of the slice it reads: \<open>merkle_loop i\<close> is the
  loop from index \<open>i\<close> on, for \<open>k\<close> more parents.\<close>

primrec merkle_loop :: "nat \<Rightarrow> nat \<Rightarrow> hash256 list \<Rightarrow> hash256 list" where
  "merkle_loop 0 i hashes = hashes"
| "merkle_loop (Suc k) i hashes =
    (let l = hashes ! (i * 2);
         r = (if i * 2 + 1 = length hashes then hashes ! (i * 2) else hashes ! (i * 2 + 1))
     in merkle_loop k (i + 1) (hashes[i := DoubleSha256 (l @ r)]))"

lemma length_merkle_loop [simp]: "length (merkle_loop k i hs) = length hs"
  by (induction k arbitrary: i hs) (auto simp: Let_def)

function CalcMerkleRoot :: "hash256 list \<Rightarrow> hash256" where
  "CalcMerkleRoot hashes =
    (if length hashes = 0 then replicate 32 0
     else if length hashes = 1 then hashes ! 0
     else let n = (length hashes + 1) div 2 in CalcMerkleRoot (take n (merkle_loop n 0 hashes)))"
  by auto
termination
  by (relation "measure length") (use half_less in \<open>auto simp: neq_Nil_conv Let_def\<close>)

declare CalcMerkleRoot.simps [simp del]

section \<open>Facts\<close>

lemma length_Sha256 [simp]: "length (Sha256 data) = 32"
proof -
  have "length (sha_bytes st) = 32" for st
    by (cases st rule: sha_bytes.cases) simp
  then show ?thesis by (simp add: Sha256_def Let_def)
qed

lemma length_DoubleSha256 [simp]: "length (DoubleSha256 data) = 32"
  by (simp add: DoubleSha256_def)

lemma Sha_padded_blocks: "length (sha_pad data) mod 64 = 0"
proof -
  define r where "r = length data mod 64"
  have "r < 64" by (simp add: r_def)
  then have "(r + (9 + (119 - r) mod 64)) mod 64 = 0"
    by (cases "r \<le> 55") (auto simp: mod_if)
  then have "(length data + (9 + (119 - r) mod 64)) mod 64 = 0"
    unfolding r_def by (metis mod_add_left_eq)
  then show ?thesis by (simp add: sha_pad_def r_def algebra_simps)
qed

text \<open>One level of the reference: pairs of hashes.\<close>

fun pair_up :: "hash256 list \<Rightarrow> hash256 list" where
  "pair_up [] = []"
| "pair_up [l] = [DoubleSha256 (l @ l)]"
| "pair_up (l # r # hs) = DoubleSha256 (l @ r) # pair_up hs"

lemma length_pair_up [simp]: "length (pair_up hs) = (length hs + 1) div 2"
  by (induction hs rule: pair_up.induct) auto

lemma map_hash_merkle_parents: "map m_hash (merkle_parents ns) = pair_up (map m_hash ns)"
  by (induction ns rule: merkle_parents.induct) (auto simp: merkle_parent_def)

lemma pair_up_nth:
  "i < (length hs + 1) div 2 \<Longrightarrow>
   pair_up hs ! i = DoubleSha256 (hs ! (i * 2) @ (if i * 2 + 1 = length hs then hs ! (i * 2) else hs ! (i * 2 + 1)))"
proof (induction hs arbitrary: i rule: pair_up.induct)
  case (3 l r hs)
  show ?case
  proof (cases i)
    case (Suc n)
    with 3 show ?thesis by (cases "n * 2 + 1 = length hs") (auto simp: nth_Cons split: nat.splits)
  qed simp
qed auto

text \<open>The loop never reads an index it has written.\<close>

lemma merkle_loop_nth:
  assumes "i + k \<le> (length hs + 1) div 2"
  shows "merkle_loop k i hs ! j =
    (if i \<le> j \<and> j < i + k
     then DoubleSha256 (hs ! (j * 2) @ (if j * 2 + 1 = length hs then hs ! (j * 2) else hs ! (j * 2 + 1)))
     else hs ! j)"
  using assms
proof (induction k arbitrary: i hs)
  case (Suc k)
  define x where "x = DoubleSha256 (hs ! (i * 2) @ (if i * 2 + 1 = length hs then hs ! (i * 2) else hs ! (i * 2 + 1)))"
  have i: "i < length hs" using Suc.prems by (cases "length hs") auto
  have "merkle_loop (Suc k) i hs ! j = merkle_loop k (i + 1) (hs[i := x]) ! j"
    by (simp add: x_def Let_def)
  also have "\<dots> = (if i + 1 \<le> j \<and> j < i + 1 + k
      then DoubleSha256 (hs[i := x] ! (j * 2) @ (if j * 2 + 1 = length hs then hs[i := x] ! (j * 2) else hs[i := x] ! (j * 2 + 1)))
      else hs[i := x] ! j)"
    using Suc.IH [of "i + 1" "hs[i := x]"] Suc.prems by simp
  finally show ?case using i by (auto simp: x_def nth_list_update)
qed auto

lemma merkle_loop_pair_up:
  assumes "n = (length hs + 1) div 2"
  shows "take n (merkle_loop n 0 hs) = pair_up hs"
proof (rule nth_equalityI)
  show "length (take n (merkle_loop n 0 hs)) = length (pair_up hs)" using assms by simp
  fix j assume "j < length (take n (merkle_loop n 0 hs))"
  then have "j < n" by simp
  then show "take n (merkle_loop n 0 hs) ! j = pair_up hs ! j"
    using assms by (simp add: merkle_loop_nth pair_up_nth)
qed

lemma CalcMerkleRoot_pair_up:
  "1 < length hs \<Longrightarrow> CalcMerkleRoot hs = CalcMerkleRoot (pair_up hs)"
  by (subst CalcMerkleRoot.simps) (auto simp: Let_def merkle_loop_pair_up)

lemma buildMerkleTree_root:
  "leaves \<noteq> [] \<Longrightarrow> \<exists>n. buildMerkleTree leaves = Some n \<and> m_hash n = CalcMerkleRoot (map m_hash leaves)"
proof (induction leaves rule: buildMerkleTree.induct)
  case (1 leaves)
  show ?case
  proof (cases "length leaves = 1")
    case True
    then show ?thesis by (simp add: buildMerkleTree.simps [of leaves] CalcMerkleRoot.simps [of "map m_hash leaves"])
  next
    case False
    with 1 have ne: "length leaves \<noteq> 0" "merkle_parents leaves \<noteq> []" "1 < length (map m_hash leaves)"
      using length_merkle_parents [of leaves] by (cases leaves; force)+
    show ?thesis
      using 1(1) [OF ne(1) False ne(2)] False 1(2) CalcMerkleRoot_pair_up [OF ne(3)]
      by (simp add: buildMerkleTree.simps [of leaves] map_hash_merkle_parents)
  qed
qed

text \<open>\<open>CalcMerkleRoot\<close>, which overwrites its argument as it goes, computes the root of the tree
  \<open>NewMerkleTree\<close> builds, for every non-empty list of hashes; the tree construction never fails on
  one.\<close>

theorem CalcMerkleRoot_is_tree_root:
  assumes "hashes \<noteq> []"
  shows "\<exists>t. NewMerkleTree hashes = Inr t \<and> m_hash t = CalcMerkleRoot hashes"
  using buildMerkleTree_root [of "map MerkleLeaf hashes"] assms
  by (auto simp: NewMerkleTree_def comp_def)

theorem CalcMerkleRoot_is_tree_root_witness:
  "\<exists>t. NewMerkleTree [replicate 32 1, replicate 32 2, replicate 32 3] = Inr t
    \<and> m_hash t = CalcMerkleRoot [replicate 32 1, replicate 32 2, replicate 32 3]"
  using CalcMerkleRoot_is_tree_root [of "[replicate 32 1, replicate 32 2, replicate 32 3]"] by simp

text \<open>The inputs hashed on the way to a Merkle root.\<close>

fun pair_inputs :: "hash256 list \<Rightarrow> bytes list" where
  "pair_inputs [] = []"
| "pair_inputs [l] = [l @ l]"
| "pair_inputs (l # r # hs) = (l @ r) # pair_inputs hs"

lemma pair_up_hashes: "pair_up hs = map DoubleSha256 (pair_inputs hs)"
  by (induction hs rule: pair_up.induct) auto

lemma length_pair_inputs [simp]: "length (pair_inputs hs) = (length hs + 1) div 2"
  by (induction hs rule: pair_inputs.induct) auto

function merkle_inputs :: "hash256 list \<Rightarrow> bytes set" where
  "merkle_inputs hs = (if length hs \<le> 1 then {} else set (pair_inputs hs) \<union> merkle_inputs (pair_up hs))"
  by auto
termination
  by (relation "measure length") (use half_less in auto)

declare merkle_inputs.simps [simp del]

lemma pair_inputs_inj:
  "\<forall>h \<in> set xs \<union> set ys. length h = 32 \<Longrightarrow> length xs = length ys \<Longrightarrow> pair_inputs xs = pair_inputs ys \<Longrightarrow> xs = ys"
proof (induction xs arbitrary: ys rule: pair_inputs.induct)
  case (2 l)
  then show ?case by (cases ys) auto
next
  case (3 l r hs)
  then obtain l' r' hs' where ys: "ys = l' # r' # hs'"
    by (metis length_0_conv length_Cons list.exhaust nat.simps(3) nat.inject)
  with 3 show ?case by auto
qed auto

lemma map_inj_on_eq:
  "inj_on f (set xs \<union> set ys) \<Longrightarrow> map f xs = map f ys \<Longrightarrow> xs = ys"
  using map_inj_on [of f xs ys] by blast



end
