(* ===== verification/MptNode.thy ===== *)
theory MptNode
  imports BinIO Hashing
begin

text \<open>
  Model of the nodes of the Merkle-Patricia trie of \<open>pkg/core/mpt\<close>: the node types (\<open>node.go\<close>,
  \<open>branch.go\<close>, \<open>extension.go\<close>, \<open>leaf.go\<close>, \<open>hash.go\<close>, \<open>empty.go\<close>), their binary encoding and hash
  (\<open>base.go\<close>) and the path helpers (\<open>helpers.go\<close>). A node is a value: the hash and bytes a
  \<open>BaseNode\<close> caches are what recomputing them gives, since every change of a node invalidates them.
\<close>

section \<open>Nodes\<close>

datatype node =
    EmptyNode
  | HashNode hash256
  | LeafNode bytes
  | BranchNode "node list"
  | ExtensionNode bytes node

definition childrenCount :: nat where "childrenCount = 17"
definition lastChild :: byte where "lastChild = 16"
definition maxPathLength :: nat where "maxPathLength = (64 + 4) * 2"
definition MaxKeyLength :: nat where "MaxKeyLength = maxPathLength div 2"
definition MaxValueLength :: nat where "MaxValueLength = 3 + 65535 + 1"

definition BranchT :: byte where "BranchT = 0"
definition ExtensionT :: byte where "ExtensionT = 1"
definition LeafT :: byte where "LeafT = 2"
definition HashT :: byte where "HashT = 3"
definition EmptyT :: byte where "EmptyT = 4"

fun isEmpty :: "node \<Rightarrow> bool" where
  "isEmpty EmptyNode = True"
| "isEmpty _ = False"

definition NewBranchNode :: "node list" where
  "NewBranchNode = replicate childrenCount EmptyNode"

text \<open>Encoding: the type byte and the node's own bytes, with every child that is not empty replaced by
  its hash. \<open>WriteVarBytes\<close> writes the length and the bytes.\<close>

definition var_bytes :: "bytes \<Rightarrow> bytes" where
  "var_bytes b = PutVarUint (of_nat (length b)) @ b"

fun node_Bytes :: "node \<Rightarrow> bytes" and encodeBinaryAsChild :: "node \<Rightarrow> bytes" where
  "node_Bytes EmptyNode = [EmptyT]"
| "node_Bytes (HashNode h) = HashT # h"
| "node_Bytes (LeafNode v) = LeafT # var_bytes v"
| "node_Bytes (BranchNode cs) = BranchT # concat (map encodeBinaryAsChild cs)"
| "node_Bytes (ExtensionNode key next) = ExtensionT # var_bytes key @ encodeBinaryAsChild next"
| "encodeBinaryAsChild n =
    (case n of EmptyNode \<Rightarrow> [EmptyT] | HashNode h \<Rightarrow> HashT # h | _ \<Rightarrow> HashT # DoubleSha256 (node_Bytes n))"

text \<open>The hash of an empty node is a panic in the code; it is never asked for.\<close>

fun node_Hash :: "node \<Rightarrow> hash256" where
  "node_Hash (HashNode h) = h"
| "node_Hash n = DoubleSha256 (node_Bytes n)"

text \<open>Decoding. \<open>None\<close> is the nil node the decoder returns with an error set in the reader, or a node
  with such a nil inside it, which no caller looks at.\<close>

definition errTooManyNodes :: io_err where
  "errTooManyNodes = BadValue ''too many nodes''"

function (sequential) DecodeNodeWithType :: "bin_reader \<Rightarrow> nat \<Rightarrow> node option \<times> bin_reader"
  and decode_children :: "nat \<Rightarrow> bin_reader \<Rightarrow> nat \<Rightarrow> node list option \<times> bin_reader" where
  "DecodeNodeWithType r depth =
    (if r_err r \<noteq> None then (None, r)
     else if maxPathLength < depth then (None, r\<lparr>r_err := Some errTooManyNodes\<rparr>)
     else let (typ, r1) = ReadB r
     in if typ = BranchT then
          (let (cs, r2) = decode_children childrenCount r1 (depth + 1) in (map_option BranchNode cs, r2))
        else if typ = ExtensionT then
          (let (sz, r2) = ReadVarUint r1
           in if maxPathLength < unat sz
              then (None, r2\<lparr>r_err := Some (BadValue ''extension node key is too big'')\<rparr>)
              else let (key, r3) = ReadBytes (replicate (unat sz) 0) r2;
                       (next, r4) = DecodeNodeWithType r3 (depth + 1)
                   in (map_option (ExtensionNode key) next, r4))
        else if typ = HashT then
          (let (h, r2) = ReadBytes (replicate 32 0) r1 in (Some (HashNode h), r2))
        else if typ = LeafT then
          (let (sz, r2) = ReadVarUint r1
           in if MaxValueLength < unat sz
              then (None, r2\<lparr>r_err := Some (BadValue ''leaf node value is too big'')\<rparr>)
              else let (v, r3) = ReadBytes (replicate (unat sz) 0) r2 in (Some (LeafNode v), r3))
        else if typ = EmptyT then (Some EmptyNode, r1)
        else (None, r1\<lparr>r_err := Some (BadValue ''invalid node type'')\<rparr>))"
| "decode_children 0 r depth = (Some [], r)"
| "decode_children (Suc k) r depth =
    (let (c, r1) = DecodeNodeWithType r depth; (cs, r2) = decode_children k r1 depth
     in (case (c, cs) of (Some n, Some ns) \<Rightarrow> Some (n # ns) | _ \<Rightarrow> None, r2))"
  by pat_completeness auto
termination
  by (relation "measure (\<lambda>x. case x of Inl (r, d) \<Rightarrow> (maxPathLength + 1 - d) * 20
        | Inr (k, r, d) \<Rightarrow> (maxPathLength + 1 - d) * 20 + k)")
    (auto simp: childrenCount_def maxPathLength_def)

declare DecodeNodeWithType.simps [simp del]

definition node_DecodeBinary :: "bin_reader \<Rightarrow> node option \<times> bin_reader" where
  "node_DecodeBinary r = DecodeNodeWithType r 0"

section \<open>Paths\<close>

definition splitPath :: "bytes \<Rightarrow> byte \<times> bytes" where
  "splitPath path = (case path of [] \<Rightarrow> (lastChild, []) | i # rest \<Rightarrow> (i, rest))"

fun lcp_loop :: "bytes \<Rightarrow> bytes \<Rightarrow> bytes" where
  "lcp_loop (x # a) (y # b) = (if x \<noteq> y then [] else y # lcp_loop a b)"
| "lcp_loop _ _ = []"

definition lcp :: "bytes \<Rightarrow> bytes \<Rightarrow> bytes" where
  "lcp a b = (if length a < length b then lcp_loop b a else lcp_loop a b)"

type_synonym batch_kv = "(bytes \<times> bytes option) list"

definition lcpMany :: "batch_kv \<Rightarrow> bytes" where
  "lcpMany kv =
    (if length kv = 1 then fst (kv ! 0)
     else let p = lcp (fst (kv ! 0)) (fst (kv ! 1))
          in if length p = 0 then p else fold (\<lambda>(k, _) p. lcp p k) (drop 2 kv) p)"

definition toNibbles :: "bytes \<Rightarrow> bytes" where
  "toNibbles path = concat (map (\<lambda>b. [drop_bit 4 b, b AND 0x0F]) path)"

text \<open>The path of a storage key without its first byte.\<close>

definition strToNibbles :: "bytes \<Rightarrow> bytes" where
  "strToNibbles path = concat (map (\<lambda>b. [drop_bit 4 b, b AND 0x0F]) (drop 1 path))"

fun fromNibbles :: "bytes \<Rightarrow> bytes" where
  "fromNibbles (a # b # path) = (push_bit 4 a + b) # fromNibbles path"
| "fromNibbles _ = []"

text \<open>\<open>GetChildrenPaths\<close>: the hash children of a node with the path of each.\<close>

definition children_paths :: "bytes \<Rightarrow> node list \<Rightarrow> (hash256 \<times> bytes) list" where
  "children_paths path cs =
     concat (map (\<lambda>i. case cs ! i of HashNode h \<Rightarrow> [(h, if i \<noteq> unat lastChild then path @ [of_nat i] else path)] | _ \<Rightarrow> [])
       [0..<length cs])"

definition GetChildrenPaths :: "bytes \<Rightarrow> node \<Rightarrow> (hash256 \<times> bytes) list" where
  "GetChildrenPaths path n = (case n of
      BranchNode cs \<Rightarrow> children_paths path cs
    | ExtensionNode key (HashNode h) \<Rightarrow> [(h, path @ key)]
    | _ \<Rightarrow> [])"

section \<open>Path facts\<close>

definition nibbles :: "bytes \<Rightarrow> bool" where
  "nibbles p \<longleftrightarrow> (\<forall>b \<in> set p. b < 16)"

lemma nibbles_simps [simp]:
  "nibbles []" "nibbles (b # p) \<longleftrightarrow> b < 16 \<and> nibbles p" "nibbles (p @ q) \<longleftrightarrow> nibbles p \<and> nibbles q"
  by (auto simp: nibbles_def)

lemma hi_nibble: "drop_bit 4 (b :: byte) < 16"
proof -
  have "unat (drop_bit 4 b) = unat b div 16" by (subst unat_drop_bit_eq) (simp add: drop_bit_eq_div)
  moreover have "unat b div 16 < 16" using unat_byte_less [of b] by (intro less_mult_imp_div_less) simp
  ultimately show ?thesis by (simp add: word_less_nat_alt)
qed

lemma lo_nibble: "(b :: byte) AND 0x0F < 16"
proof -
  have "b AND 0x0F = b AND mask 4" by (simp add: mask_eq_exp_minus_1)
  then show ?thesis by (simp add: word_less_nat_alt unat_and_mask)
qed

lemma nibbles_toNibbles [simp]: "nibbles (toNibbles k)"
  by (auto simp: nibbles_def toNibbles_def hi_nibble lo_nibble)

lemma length_toNibbles [simp]: "length (toNibbles k) = 2 * length k"
  by (induction k) (auto simp: toNibbles_def)

lemma nibble_join: "push_bit 4 (drop_bit 4 b) + (b AND 0x0F) = (b :: byte)"
proof -
  have m: "b AND 0x0F = take_bit 4 b" by (simp add: take_bit_eq_mask mask_eq_exp_minus_1)
  have "push_bit 4 (drop_bit 4 b) AND take_bit 4 b = 0"
    by (rule bit_eqI) (auto simp: bit_simps)
  then have "push_bit 4 (drop_bit 4 b) + take_bit 4 b = push_bit 4 (drop_bit 4 b) OR take_bit 4 b"
    by (rule disjunctive_add_eq_or)
  also have "\<dots> = b" by (rule bit_eqI) (auto simp: bit_simps)
  finally show ?thesis by (simp add: m)
qed

lemma fromNibbles_toNibbles [simp]: "fromNibbles (toNibbles k) = k"
  by (induction k) (auto simp: toNibbles_def nibble_join)

lemma toNibbles_inj [simp]: "toNibbles k = toNibbles k' \<longleftrightarrow> k = k'"
  by (metis fromNibbles_toNibbles)

lemma lcp_loop_sym: "lcp_loop a b = lcp_loop b a"
  by (induction a b rule: lcp_loop.induct) (auto elim: lcp_loop.elims)

lemma lcp_eq_loop: "lcp a b = lcp_loop a b"
  by (simp add: lcp_def lcp_loop_sym)

lemma lcp_loop_split:
  obtains a' b' where "a = lcp_loop a b @ a'" "b = lcp_loop a b @ b'"
    "a' = [] \<or> b' = [] \<or> hd a' \<noteq> hd b'"
proof -
  have "\<exists>a' b'. a = lcp_loop a b @ a' \<and> b = lcp_loop a b @ b' \<and> (a' = [] \<or> b' = [] \<or> hd a' \<noteq> hd b')"
    by (induction a b rule: lcp_loop.induct) auto
  then show ?thesis using that by blast
qed

lemma lcp_loop_greatest: "take (length p) a = p \<Longrightarrow> take (length p) b = p \<Longrightarrow> take (length p) (lcp_loop a b) = p"
proof (induction a b arbitrary: p rule: lcp_loop.induct)
  case (1 x a y b)
  then show ?case by (cases p) auto
qed auto

section \<open>The codec of nodes\<close>

text \<open>What the decoder gives back: the children as hash nodes.\<close>

fun as_child :: "node \<Rightarrow> node" where
  "as_child EmptyNode = EmptyNode"
| "as_child n = HashNode (node_Hash n)"

fun shallow :: "node \<Rightarrow> node" where
  "shallow (BranchNode cs) = BranchNode (map as_child cs)"
| "shallow (ExtensionNode key next) = ExtensionNode key (as_child next)"
| "shallow n = n"

fun hash_ok :: "node \<Rightarrow> bool" where
  "hash_ok (HashNode h) = (length h = 32)"
| "hash_ok _ = True"

text \<open>Nodes within the limits of the decoder; a stored node is never itself a hash or empty node.\<close>

fun node_fits :: "node \<Rightarrow> bool" where
  "node_fits (LeafNode v) = (length v \<le> MaxValueLength)"
| "node_fits (BranchNode cs) = (length cs = childrenCount \<and> (\<forall>c \<in> set cs. hash_ok c))"
| "node_fits (ExtensionNode key next) = (length key \<le> maxPathLength \<and> hash_ok next)"
| "node_fits _ = False"

lemma encodeBinaryAsChild_as_child: "encodeBinaryAsChild n = encodeBinaryAsChild (as_child n)"
  by (cases n) auto

lemma node_Bytes_shallow: "node_Bytes (shallow n) = node_Bytes n"
  by (cases n) (simp_all add: encodeBinaryAsChild_as_child [symmetric] comp_def del: encodeBinaryAsChild.simps)

lemma hash_ok_as_child: "hash_ok n \<Longrightarrow> hash_ok (as_child n)"
  by (cases n) auto

lemma type_bytes [simp]:
  "BranchT \<noteq> ExtensionT" "ExtensionT \<noteq> BranchT" "LeafT \<noteq> BranchT" "LeafT \<noteq> ExtensionT" "LeafT \<noteq> HashT"
  "HashT \<noteq> BranchT" "HashT \<noteq> ExtensionT" "EmptyT \<noteq> BranchT" "EmptyT \<noteq> ExtensionT" "EmptyT \<noteq> HashT" "EmptyT \<noteq> LeafT"
  by (simp_all add: BranchT_def ExtensionT_def LeafT_def HashT_def EmptyT_def)

lemma decode_child:
  assumes "hash_ok n" and "depth \<le> maxPathLength"
  shows "DecodeNodeWithType \<lparr>r_buf = encodeBinaryAsChild n @ rest, r_err = None\<rparr> depth
    = (Some (as_child n), \<lparr>r_buf = rest, r_err = None\<rparr>)"
  using assms
  by (cases n) (simp_all add: DecodeNodeWithType.simps codec_simps ReadBytes_append)

lemma decode_children_wire:
  assumes "\<forall>c \<in> set cs. hash_ok c" and "depth \<le> maxPathLength"
  shows "decode_children (length cs) \<lparr>r_buf = concat (map encodeBinaryAsChild cs) @ rest, r_err = None\<rparr> depth
    = (Some (map as_child cs), \<lparr>r_buf = rest, r_err = None\<rparr>)"
  using assms
  by (induction cs) (simp_all add: decode_child del: encodeBinaryAsChild.simps)

lemma unat_of_nat_small: "n < 2 ^ 64 \<Longrightarrow> unat (of_nat n :: u64) = n"
  by (simp add: unat_of_nat)

lemma decode_node:
  assumes "node_fits n"
  shows "node_DecodeBinary \<lparr>r_buf = node_Bytes n @ rest, r_err = None\<rparr>
    = (Some (shallow n), \<lparr>r_buf = rest, r_err = None\<rparr>)"
proof (cases n)
  case (LeafNode v)
  with assms have "unat (of_nat (length v) :: u64) = length v" "length v \<le> MaxValueLength"
    by (auto simp: MaxValueLength_def intro!: unat_of_nat_small)
  with LeafNode show ?thesis
    by (simp add: node_DecodeBinary_def DecodeNodeWithType.simps codec_simps var_bytes_def ReadBytes_append)
next
  case (BranchNode cs)
  with assms decode_children_wire [of cs 1] show ?thesis
    by (simp add: node_DecodeBinary_def DecodeNodeWithType.simps [of _ 0] codec_simps maxPathLength_def
        del: encodeBinaryAsChild.simps)
next
  case (ExtensionNode key nxt)
  with assms have "unat (of_nat (length key) :: u64) = length key" "length key \<le> maxPathLength" "hash_ok nxt"
    by (auto simp: maxPathLength_def intro!: unat_of_nat_small)
  with ExtensionNode decode_child [of nxt 1] show ?thesis
    by (simp add: node_DecodeBinary_def DecodeNodeWithType.simps [of _ 0] codec_simps var_bytes_def
        ReadBytes_append maxPathLength_def del: encodeBinaryAsChild.simps)
qed (use assms in auto)

text \<open>Stored nodes, with their children already hashes, form a wire codec.\<close>

interpretation mpt_node: wire_codec "\<lambda>n. WriteBytes (node_Bytes n)" "\<lambda>r. map_prod the id (node_DecodeBinary r)"
  node_Bytes "\<lambda>n. node_fits n \<and> shallow n = n"
  by unfold_locales (simp_all add: codec_simps decode_node)

end
