(* ===== verification/MptTree.thy ===== *)
theory MptTree
  imports MptNode
begin

text \<open>
  The reference for the trie operations: tries without hash nodes as finite maps from nibble paths to
  values. \<open>plook\<close>, \<open>pput\<close> and \<open>pdel\<close> are lookup, insertion and deletion without reference counts and
  store accesses; \<open>canon\<close> is the shape every trie of the code keeps. The facts here are what the
  refinement of \<open>trie.go\<close>, \<open>batch.go\<close> and \<open>proof.go\<close> rests on; in particular a canonical trie is
  determined by its content, so its root hash is.
\<close>

section \<open>Reference operations\<close>

lemma size_nth_less [termination_simp]: "i < length cs \<Longrightarrow> size (cs ! i) < Suc (size_list size cs)"
  using size_list_estimation' [of "cs ! i" cs "size (cs ! i)" size] by (auto intro: less_le_trans)

fun plook :: "node \<Rightarrow> bytes \<Rightarrow> bytes option" where
  "plook EmptyNode p = None"
| "plook (HashNode h) p = None"
| "plook (LeafNode v) p = (if p = [] then Some v else None)"
| "plook (BranchNode cs) p =
    (case splitPath p of (i, q) \<Rightarrow> if unat i < length cs then plook (cs ! unat i) q else None)"
| "plook (ExtensionNode key n) p =
    (if take (length key) p = key then plook n (drop (length key) p) else None)"

definition psub :: "bytes \<Rightarrow> node \<Rightarrow> node" where
  "psub path n = (if path = [] then n else ExtensionNode path n)"

text \<open>The branch, below the common prefix, that separates the rest \<open>kt\<close> of an extension key from the
  rest \<open>pt\<close> of a path.\<close>

definition pfork :: "bytes \<Rightarrow> node \<Rightarrow> bytes \<Rightarrow> bytes \<Rightarrow> node" where
  "pfork kt n pt v = (case splitPath pt of (i, q) \<Rightarrow>
     BranchNode (NewBranchNode[unat (hd kt) := psub (tl kt) n, unat i := psub q (LeafNode v)]))"

fun pput :: "node \<Rightarrow> bytes \<Rightarrow> bytes \<Rightarrow> node" where
  "pput EmptyNode p v = psub p (LeafNode v)"
| "pput (HashNode h) p v = HashNode h"
| "pput (LeafNode w) p v =
    (if p = [] then LeafNode v
     else BranchNode (NewBranchNode[unat (hd p) := psub (tl p) (LeafNode v), unat lastChild := LeafNode w]))"
| "pput (BranchNode cs) p v =
    (case splitPath p of (i, q) \<Rightarrow>
       if unat i < length cs then BranchNode (cs[unat i := pput (cs ! unat i) q v]) else BranchNode cs)"
| "pput (ExtensionNode key n) p v =
    (if take (length key) p = key then ExtensionNode key (pput n (drop (length key) p) v)
     else psub (lcp key p) (pfork (drop (length (lcp key p)) key) n (drop (length (lcp key p)) p) v))"

definition nonempty_idx :: "node list \<Rightarrow> nat list" where
  "nonempty_idx cs = filter (\<lambda>i. \<not> isEmpty (cs ! i)) [0..<length cs]"

text \<open>\<open>pext key n\<close>: \<open>n\<close> below a path that is not empty, as one node.\<close>

fun pext :: "bytes \<Rightarrow> node \<Rightarrow> node" where
  "pext key (ExtensionNode k n) = ExtensionNode (key @ k) n"
| "pext key EmptyNode = EmptyNode"
| "pext key n = ExtensionNode key n"

text \<open>A branch that may have lost a child.\<close>

definition pstrip :: "node list \<Rightarrow> node" where
  "pstrip cs =
    (case nonempty_idx cs of
       [] \<Rightarrow> EmptyNode
     | [i] \<Rightarrow> if i = unat lastChild then cs ! i else pext [of_nat i] (cs ! i)
     | _ \<Rightarrow> BranchNode cs)"

fun pdel :: "node \<Rightarrow> bytes \<Rightarrow> node" where
  "pdel EmptyNode p = EmptyNode"
| "pdel (HashNode h) p = HashNode h"
| "pdel (LeafNode v) p = (if p = [] then EmptyNode else LeafNode v)"
| "pdel (BranchNode cs) p =
    (case splitPath p of (i, q) \<Rightarrow>
       if unat i < length cs then pstrip (cs[unat i := pdel (cs ! unat i) q]) else BranchNode cs)"
| "pdel (ExtensionNode key n) p =
    (if take (length key) p = key then pext key (pdel n (drop (length key) p)) else ExtensionNode key n)"

lemma take_append_iff:
  "take (length a + length b) p = a @ b \<longleftrightarrow> take (length a) p = a \<and> take (length b) (drop (length a) p) = b"
proof (cases "length a \<le> length p")
  case False
  then have "take (length a + length b) p \<noteq> a @ b" by (auto dest: arg_cong [of _ _ length])
  with False show ?thesis by (auto dest: arg_cong [of _ _ length])
qed (simp add: take_add)

section \<open>Canonical tries\<close>

fun is_leaf_or_empty :: "node \<Rightarrow> bool" where
  "is_leaf_or_empty (LeafNode v) = True"
| "is_leaf_or_empty EmptyNode = True"
| "is_leaf_or_empty _ = False"

fun is_leaf_or_branch :: "node \<Rightarrow> bool" where
  "is_leaf_or_branch (LeafNode v) = True"
| "is_leaf_or_branch (BranchNode cs) = True"
| "is_leaf_or_branch _ = False"

fun canon :: "node \<Rightarrow> bool" where
  "canon EmptyNode = True"
| "canon (HashNode h) = False"
| "canon (LeafNode v) = True"
| "canon (BranchNode cs) \<longleftrightarrow> length cs = childrenCount \<and> 2 \<le> length (nonempty_idx cs)
     \<and> is_leaf_or_empty (cs ! unat lastChild) \<and> (\<forall>c \<in> set cs. canon c)"
| "canon (ExtensionNode key n) \<longleftrightarrow> key \<noteq> [] \<and> nibbles key \<and> is_leaf_or_branch n \<and> canon n"

text \<open>The children of a branch are canonical even while it is being changed.\<close>

definition kids_ok :: "node list \<Rightarrow> bool" where
  "kids_ok cs \<longleftrightarrow> length cs = childrenCount \<and> is_leaf_or_empty (cs ! unat lastChild) \<and> (\<forall>c \<in> set cs. canon c)"

lemma canon_Branch: "canon (BranchNode cs) \<longleftrightarrow> kids_ok cs \<and> 2 \<le> length (nonempty_idx cs)"
  by (auto simp: kids_ok_def)

declare canon.simps(4) [simp del]

lemma unat_lastChild [simp]: "unat lastChild = 16"
  by (simp add: lastChild_def)

lemma nibble_idx: "b < 16 \<Longrightarrow> unat (b :: byte) < 16"
  by (simp add: word_less_nat_alt)

lemma nibble_idx_simps [simp]:
  "b < 16 \<Longrightarrow> unat (b :: byte) < 17" "b < 16 \<Longrightarrow> unat b \<noteq> 16" "b < 16 \<Longrightarrow> 16 \<noteq> unat b"
  using nibble_idx by fastforce+

lemma unat_eq_byte [simp]: "unat a = unat b \<longleftrightarrow> a = (b :: byte)"
  by (simp add: word_unat_eq_iff)

lemma splitPath_simps [simp]: "splitPath [] = (lastChild, [])" "splitPath (b # q) = (b, q)"
  by (simp_all add: splitPath_def)

lemma length_NewBranchNode [simp]: "length NewBranchNode = 17"
  by (simp add: NewBranchNode_def childrenCount_def)

lemma nth_NewBranchNode [simp]: "i < 17 \<Longrightarrow> NewBranchNode ! i = EmptyNode"
  by (simp add: NewBranchNode_def childrenCount_def)

lemma set_NewBranchNode [simp]: "set NewBranchNode = {EmptyNode}"
  by (simp add: NewBranchNode_def childrenCount_def)

lemma plook_Branch [simp]:
  assumes "length cs = 17" "nibbles p"
  shows "plook (BranchNode cs) p = (case p of [] \<Rightarrow> plook (cs ! 16) [] | b # q \<Rightarrow> plook (cs ! unat b) q)"
proof (cases p)
  case (Cons b q)
  then have "unat b < 17" using assms(2) nibble_idx [of b] by simp
  then show ?thesis using Cons assms(1) by simp
qed (use assms in simp)

declare plook.simps(4) [simp del]

lemma plook_psub [simp]:
  "plook (psub key n) p = (if take (length key) p = key then plook n (drop (length key) p) else None)"
  by (auto simp: psub_def)

lemma plook_pext [simp]:
  "plook (pext key n) p = (if take (length key) p = key then plook n (drop (length key) p) else None)"
  by (cases n) (auto simp: take_append_iff, simp_all add: add.commute)

lemma kids_ok_update:
  "kids_ok cs \<Longrightarrow> canon c \<Longrightarrow> i < 17 \<Longrightarrow> (i = 16 \<longrightarrow> is_leaf_or_empty c) \<Longrightarrow> kids_ok (cs[i := c])"
  by (auto simp: kids_ok_def nth_list_update childrenCount_def dest: set_update_subset_insert [THEN subsetD])

lemma kids_ok_New [simp]: "kids_ok NewBranchNode"
  by (simp add: kids_ok_def childrenCount_def)

lemma kids_ok_nth [simp]: "kids_ok cs \<Longrightarrow> i < 17 \<Longrightarrow> canon (cs ! i)"
  by (auto simp: kids_ok_def childrenCount_def)

lemma kids_ok_length [simp]: "kids_ok cs \<Longrightarrow> length cs = 17"
  by (simp add: kids_ok_def childrenCount_def)

lemma kids_ok_last: "kids_ok cs \<Longrightarrow> is_leaf_or_empty (cs ! 16)"
  by (simp add: kids_ok_def)

lemma set_nonempty_idx: "set (nonempty_idx cs) = {i. i < length cs \<and> cs ! i \<noteq> EmptyNode}"
  by (auto simp: nonempty_idx_def elim: isEmpty.elims)

lemma distinct_nonempty_idx: "distinct (nonempty_idx cs)"
  by (simp add: nonempty_idx_def)

lemma length_nonempty_idx: "length (nonempty_idx cs) = card {i. i < length cs \<and> cs ! i \<noteq> EmptyNode}"
  by (metis distinct_nonempty_idx set_nonempty_idx distinct_card)

lemma two_nonempty:
  "2 \<le> length (nonempty_idx cs) \<longleftrightarrow>
   (\<exists>i j. i < length cs \<and> j < length cs \<and> i \<noteq> j \<and> cs ! i \<noteq> EmptyNode \<and> cs ! j \<noteq> EmptyNode)"
proof -
  have "2 \<le> card A \<longleftrightarrow> (\<exists>x y. x \<in> A \<and> y \<in> A \<and> x \<noteq> y)" if "finite A" for A :: "nat set"
    using card_le_Suc0_iff_eq [OF that] by (auto simp: not_less_eq_eq [symmetric] numeral_2_eq_2)
  from this [of "{i. i < length cs \<and> cs ! i \<noteq> EmptyNode}"] show ?thesis
    by (auto simp: length_nonempty_idx)
qed

lemma canon_psub: "canon n \<Longrightarrow> nibbles key \<Longrightarrow> is_leaf_or_branch n \<Longrightarrow> canon (psub key n)"
  by (auto simp: psub_def)

lemma canon_pext: "canon n \<Longrightarrow> nibbles key \<Longrightarrow> key \<noteq> [] \<Longrightarrow> canon (pext key n)"
  by (cases n) auto

lemma pext_not_empty: "pext key n = EmptyNode \<longleftrightarrow> n = EmptyNode"
  by (cases n) auto


section \<open>Lookup after insertion\<close>

lemma plook_fork:
  assumes "kt \<noteq> []" "nibbles kt" "nibbles pt" "pt = [] \<or> hd kt \<noteq> hd pt" "nibbles p"
  shows "plook (pfork kt n pt v) p
    = (if p = pt then Some v else if take (length kt) p = kt then plook n (drop (length kt) p) else None)"
proof -
  obtain x kt' where kt: "kt = x # kt'" "unat x < 16" using assms(1,2) by (cases kt) (auto dest: nibble_idx)
  show ?thesis
  proof (cases pt)
    case Nil
    then show ?thesis using kt assms(5)
      by (cases p) (auto simp: pfork_def nth_list_update dest: nibble_idx)
  next
    case (Cons y pt')
    then have "unat y < 16" "x \<noteq> y" using assms(3,4) kt by (auto dest: nibble_idx)
    then show ?thesis using Cons kt assms(5)
      by (cases p) (auto simp: pfork_def nth_list_update dest: nibble_idx)
  qed
qed

lemma extension_split:
  assumes "take (length key) p \<noteq> key"
  obtains pref kt pt where "key = pref @ kt" "p = pref @ pt" "lcp key p = pref" "kt \<noteq> []" "pt = [] \<or> hd kt \<noteq> hd pt"
proof -
  obtain kt pt where "key = lcp key p @ kt" "p = lcp key p @ pt" "kt = [] \<or> pt = [] \<or> hd kt \<noteq> hd pt"
    unfolding lcp_eq_loop by (rule lcp_loop_split [of key p])
  moreover from this have "kt \<noteq> []" using assms by (metis append_Nil2 append_eq_conv_conj)
  ultimately show ?thesis using that by blast
qed

lemma plook_pput:
  "canon t \<Longrightarrow> nibbles p0 \<Longrightarrow> nibbles p \<Longrightarrow> plook (pput t p0 v) p = (if p = p0 then Some v else plook t p)"
proof (induction t p0 v arbitrary: p rule: pput.induct)
  case (3 w p0 v)
  show ?case
  proof (cases p0)
    case (Cons x q)
    then show ?thesis using 3
      by (cases p) (auto simp: nth_list_update split: if_splits dest: nibble_idx)
  qed simp
next
  case (4 cs p0 v)
  have cs: "length cs = 17" "kids_ok cs" using 4(2) by (auto simp: canon_Branch)
  show ?case
  proof (cases p0)
    case Nil
    with 4(1) [of lastChild "[]"] 4(4) cs show ?thesis
      by (cases p) (auto simp: nth_list_update split: if_splits dest: nibble_idx)
  next
    case (Cons x q)
    then have x: "unat x < 16" using 4(3) by (auto dest: nibble_idx)
    with Cons 4(1) [of x q] 4(3,4) cs show ?thesis
      by (cases p) (auto simp: nth_list_update split: if_splits dest: nibble_idx)
  qed
next
  case (5 key n p0 v)
  show ?case
  proof (cases "take (length key) p0 = key")
    case True
    then obtain q0 where p0: "p0 = key @ q0" by (metis append_take_drop_id)
    show ?thesis
    proof (cases "take (length key) p = key")
      case True
      then obtain q where "p = key @ q" by (metis append_take_drop_id)
      then show ?thesis using p0 5 by simp
    qed (use p0 in auto)
  next
    case False
    then obtain pref kt pt where e: "key = pref @ kt" "p0 = pref @ pt" "lcp key p0 = pref" "kt \<noteq> []" "pt = [] \<or> hd kt \<noteq> hd pt"
      by (rule extension_split)
    have l: "lcp (pref @ kt) (pref @ pt) = pref" using e(1-3) by simp
    have nib: "nibbles kt" "nibbles pt" using 5(2,3) e(1,2) by auto
    have nk: "take (length (pref @ kt)) (pref @ pt) \<noteq> pref @ kt" using False e by simp
    show ?thesis
    proof (cases "take (length pref) p = pref")
      case True
      then obtain q where p: "p = pref @ q" by (metis append_take_drop_id)
      then have "nibbles q" using 5(4) by simp
      with p nk show ?thesis by (simp add: e(1,2) l plook_fork [OF e(4) nib e(5)])
    next
      case ne: False
      have "p \<noteq> pref @ pt" using ne by auto
      with ne nk show ?thesis by (auto simp: e(1,2) l take_append_iff)
    qed
  qed
qed auto

lemma canon_fork:
  assumes "kt \<noteq> []" "nibbles kt" "nibbles pt" "pt = [] \<or> hd kt \<noteq> hd pt" "canon n" "is_leaf_or_branch n"
  shows "canon (pfork kt n pt v)"
proof -
  obtain x kt' where kt: "kt = x # kt'" "unat x < 16" "nibbles kt'"
    using assms(1,2) by (cases kt) (auto dest: nibble_idx)
  have c1: "canon (psub kt' n)" "psub kt' n \<noteq> EmptyNode"
    using assms kt by (auto simp: canon_psub psub_def)
  obtain i q where i: "splitPath pt = (i, q)" "unat i < 17" "unat i = 16 \<longrightarrow> q = []" "nibbles q" "i \<noteq> x"
  proof (cases pt)
    case Nil
    moreover have "lastChild \<noteq> x" using kt(2) by (auto simp: lastChild_def)
    ultimately show ?thesis using that [of lastChild "[]"] by auto
  next
    case (Cons y q)
    then have "unat y < 16" using assms(3) nibble_idx by auto
    then show ?thesis using that [of y q] Cons assms(3,4) kt by auto
  qed
  have c2: "canon (psub q (LeafNode v))" "psub q (LeafNode v) \<noteq> EmptyNode"
    using i by (auto simp: canon_psub psub_def)
  have "kids_ok (NewBranchNode[unat x := psub kt' n, unat i := psub q (LeafNode v)])"
    using c1 c2 i kt by (intro kids_ok_update) (auto simp: psub_def)
  moreover have "\<exists>j k. j < 17 \<and> k < 17 \<and> j \<noteq> k
      \<and> NewBranchNode[unat x := psub kt' n, unat i := psub q (LeafNode v)] ! j \<noteq> EmptyNode
      \<and> NewBranchNode[unat x := psub kt' n, unat i := psub q (LeafNode v)] ! k \<noteq> EmptyNode"
    by (rule exI [of _ "unat x"], rule exI [of _ "unat i"]) (use c1 c2 i kt in \<open>auto simp: nth_list_update\<close>)
  ultimately show ?thesis using i kt by (simp add: pfork_def canon_Branch two_nonempty)
qed

lemma pput_not_empty: "canon t \<Longrightarrow> pput t p v \<noteq> EmptyNode"
  by (cases t) (auto simp: psub_def pfork_def split: prod.split)

lemma pput_shape:
  "canon t \<Longrightarrow> is_leaf_or_branch t \<Longrightarrow> is_leaf_or_branch (pput t p v)"
  "is_leaf_or_empty t \<Longrightarrow> is_leaf_or_empty (pput t [] v)"
  by (cases t; auto split: prod.split; simp add: psub_def)+

lemma canon_pput: "canon t \<Longrightarrow> nibbles p \<Longrightarrow> canon (pput t p v)"
proof (induction t p v rule: pput.induct)
  case (1 p v)
  then show ?case by (simp add: canon_psub)
next
  case (3 w p v)
  show ?case
  proof (cases p)
    case (Cons x q)
    then have "canon (pfork p (LeafNode v) [] w)" using 3 by (intro canon_fork) auto
    then show ?thesis using Cons by (simp add: pfork_def psub_def)
  qed simp
next
  case (4 cs p v)
  then have cs: "kids_ok cs" "2 \<le> length (nonempty_idx cs)" by (auto simp: canon_Branch)
  obtain i q where i: "splitPath p = (i, q)" "unat i < 17" "unat i = 16 \<longrightarrow> q = []" "nibbles q"
    using 4(3) by (cases p) (auto dest: nibble_idx)
  have c: "canon (pput (cs ! unat i) q v)" "pput (cs ! unat i) q v \<noteq> EmptyNode"
    using 4(1) [OF i(1) [symmetric]] i cs by (auto simp: pput_not_empty)
  have "kids_ok (cs[unat i := pput (cs ! unat i) q v])"
    using cs c i kids_ok_last [of cs] pput_shape(2) by (intro kids_ok_update) auto
  moreover have "2 \<le> length (nonempty_idx (cs[unat i := pput (cs ! unat i) q v]))"
    using cs c unfolding two_nonempty length_list_update by (metis nth_list_update_eq nth_list_update_neq)
  ultimately show ?case using i cs by (simp add: canon_Branch)
next
  case (5 key n p v)
  show ?case
  proof (cases "take (length key) p = key")
    case True
    then obtain q where "p = key @ q" by (metis append_take_drop_id)
    with 5 show ?thesis by (simp add: pput_shape)
  next
    case False
    then obtain pref kt pt where e: "key = pref @ kt" "p = pref @ pt" "lcp key p = pref" "kt \<noteq> []" "pt = [] \<or> hd kt \<noteq> hd pt"
      by (rule extension_split)
    have l: "lcp (pref @ kt) (pref @ pt) = pref" using e(1-3) by simp
    have "canon (pfork kt n pt v)" "is_leaf_or_branch (pfork kt n pt v)"
      using 5(2,3) e(1,2) canon_fork [OF e(4) _ _ e(5)] by (auto simp: pfork_def split: prod.splits)
    then show ?thesis using False 5(2) by (simp add: e(1,2) l canon_psub)
  qed
qed auto

section \<open>Lookup after deletion\<close>

lemma nonempty_idx_Nil: "nonempty_idx cs = [] \<Longrightarrow> i < length cs \<Longrightarrow> cs ! i = EmptyNode"
  using set_nonempty_idx [of cs] by auto

lemma nonempty_idx_one:
  assumes "nonempty_idx cs = [i]"
  shows "i < length cs" "cs ! i \<noteq> EmptyNode" "j < length cs \<Longrightarrow> j \<noteq> i \<Longrightarrow> cs ! j = EmptyNode"
  using set_nonempty_idx [of cs] assms by auto

lemma plook_pstrip:
  assumes "kids_ok cs" "nibbles p"
  shows "plook (pstrip cs) p = plook (BranchNode cs) p"
proof -
  consider "nonempty_idx cs = []" | i where "nonempty_idx cs = [i]" | i j ks where "nonempty_idx cs = i # j # ks"
    by (metis list.exhaust)
  then show ?thesis
  proof cases
    case 1
    then show ?thesis using assms nonempty_idx_Nil [OF 1]
      by (cases p) (auto simp: pstrip_def)
  next
    case (2 i)
    note one = nonempty_idx_one [OF 2]
    show ?thesis
    proof (cases "i = 16")
      case True
      then have "is_leaf_or_empty (cs ! 16)" "cs ! 16 \<noteq> EmptyNode" using assms(1) one by (auto simp: kids_ok_last)
      then obtain v where "cs ! 16 = LeafNode v" by (auto elim: is_leaf_or_empty.elims)
      then show ?thesis using 2 True assms one(3) by (cases p) (auto simp: pstrip_def)
    next
      case False
      have i: "i < 16" using one(1) False assms(1) by simp
      have "b = of_nat i \<longleftrightarrow> unat b = i" for b :: byte
        using i by (auto simp: unat_of_nat)
      then show ?thesis using 2 False assms one(1,3) by (cases p) (auto simp: pstrip_def)
    qed
  qed (simp add: pstrip_def)
qed

lemma canon_pstrip: "kids_ok cs \<Longrightarrow> canon (pstrip cs)"
  by (auto simp: pstrip_def canon_Branch word_less_nat_alt unat_of_nat dest: nonempty_idx_one(1)
      intro!: canon_pext split: list.splits)

lemma splitPath_nibbles:
  assumes "nibbles p"
  obtains i q where "splitPath p = (i, q)" "unat i < 17" "unat i = 16 \<longrightarrow> q = []" "nibbles q"
  using assms that [of "fst (splitPath p)" "snd (splitPath p)"] by (cases p) auto

lemma pdel_shape: "is_leaf_or_empty t \<Longrightarrow> is_leaf_or_empty (pdel t [])"
  by (cases t) auto

lemma kids_ok_pdel:
  assumes "kids_ok cs" "canon (pdel (cs ! unat i) q)" "unat i < 17" "unat i = 16 \<longrightarrow> q = []"
  shows "kids_ok (cs[unat i := pdel (cs ! unat i) q])"
  using assms kids_ok_last [of cs] by (intro kids_ok_update) (auto simp: pdel_shape)

lemma canon_pdel: "canon t \<Longrightarrow> nibbles p \<Longrightarrow> canon (pdel t p)"
proof (induction t p rule: pdel.induct)
  case (4 cs p)
  then have cs: "kids_ok cs" by (simp add: canon_Branch)
  obtain i q where i: "splitPath p = (i, q)" "unat i < 17" "unat i = 16 \<longrightarrow> q = []" "nibbles q"
    using splitPath_nibbles [OF 4(3)] .
  have "canon (pdel (cs ! unat i) q)" using 4(1) [OF i(1) [symmetric]] i cs by simp
  then show ?case using i cs by (simp add: canon_pstrip kids_ok_pdel)
next
  case (5 key n p)
  show ?case
  proof (cases "take (length key) p = key")
    case True
    then obtain q where "p = key @ q" by (metis append_take_drop_id)
    with 5 show ?thesis by (auto intro!: canon_pext)
  qed (use 5 in simp)
qed auto

lemma plook_pdel:
  "canon t \<Longrightarrow> nibbles p0 \<Longrightarrow> nibbles p \<Longrightarrow> plook (pdel t p0) p = (if p = p0 then None else plook t p)"
proof (induction t p0 arbitrary: p rule: pdel.induct)
  case (4 cs p0)
  then have cs: "kids_ok cs" by (simp add: canon_Branch)
  obtain i q where i: "splitPath p0 = (i, q)" "unat i < 17" "unat i = 16 \<longrightarrow> q = []" "nibbles q"
    using splitPath_nibbles [OF 4(3)] .
  have kids: "kids_ok (cs[unat i := pdel (cs ! unat i) q])"
    using i cs by (intro kids_ok_pdel) (simp_all add: canon_pdel)
  have IH: "plook (pdel (cs ! unat i) q) r = (if r = q then None else plook (cs ! unat i) r)" if "nibbles r" for r
    using 4(1) [OF i(1) [symmetric]] i cs that by simp
  have "plook (pdel (BranchNode cs) p0) p = plook (BranchNode (cs[unat i := pdel (cs ! unat i) q])) p"
    using i cs plook_pstrip [OF kids 4(4)] by simp
  also have "\<dots> = (if p = p0 then None else plook (BranchNode cs) p)"
  proof (cases p0)
    case Nil
    then show ?thesis using i(1) cs 4(4) IH by (cases p) (auto simp: nth_list_update)
  next
    case (Cons x q0)
    then show ?thesis using i(1) cs 4(3,4) IH by (cases p) (auto simp: nth_list_update)
  qed
  finally show ?case .
next
  case (5 key n p0)
  show ?case
  proof (cases "take (length key) p0 = key")
    case True
    then obtain q0 where p0: "p0 = key @ q0" by (metis append_take_drop_id)
    show ?thesis
    proof (cases "take (length key) p = key")
      case True
      then obtain q where "p = key @ q" by (metis append_take_drop_id)
      then show ?thesis using p0 5 by simp
    qed (use p0 in auto)
  qed auto
qed auto

section \<open>The content determines the trie\<close>

lemma canon_nonempty: "canon t \<Longrightarrow> t \<noteq> EmptyNode \<Longrightarrow> \<exists>p. nibbles p \<and> plook t p \<noteq> None"
proof (induction t)
  case (BranchNode cs)
  then obtain i where i: "i < 17" "cs ! i \<noteq> EmptyNode"
    by (auto simp: canon_Branch two_nonempty)
  have c: "kids_ok cs" "cs ! i \<in> set cs" "canon (cs ! i)" using BranchNode i by (auto simp: canon_Branch)
  obtain p where p: "nibbles p" "plook (cs ! i) p \<noteq> None"
    using BranchNode.IH [OF c(2) c(3) i(2)] by blast
  show ?case
  proof (cases "i = 16")
    case True
    then have "p = []" using p(2) kids_ok_last [OF c(1)] by (cases "cs ! 16") (auto split: if_splits)
    then show ?thesis using p True c(1) by (intro exI [of _ "[]"]) auto
  next
    case False
    then have "unat (of_nat i :: byte) = i" using i(1) by (simp add: unat_of_nat)
    then show ?thesis using p False c(1) i(1)
      by (intro exI [of _ "of_nat i # p"]) (auto simp: word_less_nat_alt)
  qed
next
  case (ExtensionNode key n)
  then have "n \<noteq> EmptyNode" by auto
  with ExtensionNode obtain p where "nibbles p" "plook n p \<noteq> None" by auto
  then show ?case using ExtensionNode.prems by (intro exI [of _ "key @ p"]) auto
qed auto

lemma child_key:
  assumes "kids_ok cs" "i < 17" "cs ! i \<noteq> EmptyNode"
  shows "\<exists>p. nibbles p \<and> plook (BranchNode cs) p \<noteq> None \<and> (if i = 16 then p = [] else \<exists>q. p = of_nat i # q)"
proof -
  obtain p where p: "nibbles p" "plook (cs ! i) p \<noteq> None"
    using canon_nonempty [of "cs ! i"] assms by auto
  show ?thesis
  proof (cases "i = 16")
    case True
    then have "p = []" using p(2) kids_ok_last [OF assms(1)] by (cases "cs ! 16") (auto split: if_splits)
    then show ?thesis using p True assms(1) by (intro exI [of _ "[]"]) auto
  next
    case False
    then have "unat (of_nat i :: byte) = i" using assms(2) by (simp add: unat_of_nat)
    then show ?thesis using p False assms
      by (intro exI [of _ "of_nat i # p"]) (auto simp: word_less_nat_alt)
  qed
qed

text \<open>Only below an extension all paths start with the same nibble.\<close>

lemma no_common_head:
  assumes "canon n" "is_leaf_or_branch n"
  shows "\<exists>p. nibbles p \<and> plook n p \<noteq> None \<and> (p = [] \<or> hd p \<noteq> x)"
proof (cases n)
  case (BranchNode cs)
  with assms obtain i j where ij: "i < 17" "j < 17" "i \<noteq> j" "cs ! i \<noteq> EmptyNode" "cs ! j \<noteq> EmptyNode" "kids_ok cs"
    by (auto simp: canon_Branch two_nonempty)
  then obtain k where k: "k < 17" "cs ! k \<noteq> EmptyNode" "k \<noteq> unat x" by metis
  have "of_nat k \<noteq> x" using k by (auto simp: unat_of_nat)
  with child_key [OF ij(6) k(1,2)] BranchNode show ?thesis by (auto split: if_splits)
qed (use assms in \<open>auto intro!: exI [of _ "[]"]\<close>)

lemma branch_has_path:
  assumes "canon (BranchNode cs)"
  shows "\<exists>p. nibbles p \<and> plook (BranchNode cs) p \<noteq> None \<and> p \<noteq> []"
proof -
  obtain i where "i < 17" "i \<noteq> 16" "cs ! i \<noteq> EmptyNode" "kids_ok cs"
    using assms by (auto simp: canon_Branch two_nonempty) metis
  with child_key show ?thesis by fastforce
qed

definition same_content :: "node \<Rightarrow> node \<Rightarrow> bool" where
  "same_content t t' \<longleftrightarrow> (\<forall>p. nibbles p \<longrightarrow> plook t p = plook t' p)"

lemma same_content_sym: "same_content t t' \<Longrightarrow> same_content t' t"
  by (simp add: same_content_def)

lemma ext_not_same:
  assumes "canon n" "is_leaf_or_branch n" "key \<noteq> []" "same_content n (ExtensionNode key m)"
  shows False
proof -
  obtain p where "nibbles p" "plook n p \<noteq> None" "p = [] \<or> hd p \<noteq> hd key"
    using no_common_head [OF assms(1,2)] by blast
  with assms(3,4) have "take (length key) p = key"
    by (auto simp: same_content_def split: if_splits)
  with \<open>p = [] \<or> hd p \<noteq> hd key\<close> assms(3) show False by (cases p; cases key) auto
qed

lemma leaf_branch_not_same: "canon (BranchNode cs) \<Longrightarrow> same_content (LeafNode v) (BranchNode cs) \<Longrightarrow> False"
  using branch_has_path [of cs] by (fastforce simp: same_content_def)

lemma empty_not_same: "canon t \<Longrightarrow> same_content EmptyNode t \<Longrightarrow> t = EmptyNode"
  using canon_nonempty [of t] by (fastforce simp: same_content_def)

lemma ext_keys_equal:
  assumes "canon (ExtensionNode key n)" "canon (ExtensionNode key' n')"
    and "same_content (ExtensionNode key n) (ExtensionNode key' n')"
  shows "key = key'"
proof -
  have shorter: "b = []" if "same_content (ExtensionNode a m) (ExtensionNode (a @ b) m')"
    "canon (ExtensionNode a m)" for a b m m'
  proof (rule ccontr)
    assume "b \<noteq> []"
    moreover have "same_content m (ExtensionNode b m')"
      unfolding same_content_def
    proof (intro allI impI)
      fix p assume "nibbles p"
      then have "plook (ExtensionNode a m) (a @ p) = plook (ExtensionNode (a @ b) m') (a @ p)"
        using that by (auto simp: same_content_def simp del: plook.simps)
      then show "plook m p = plook (ExtensionNode b m') p" by simp
    qed
    ultimately show False using that(2) ext_not_same by auto
  qed
  obtain a b where ab: "key = lcp_loop key key' @ a" "key' = lcp_loop key key' @ b"
      "a = [] \<or> b = [] \<or> hd a \<noteq> hd b"
    by (rule lcp_loop_split [of key key'])
  define pref where "pref = lcp_loop key key'"
  have k: "key = pref @ a" "key' = pref @ b" using ab unfolding pref_def by auto
  obtain p where p: "nibbles p" "plook n p \<noteq> None"
    using assms(1) canon_nonempty [of n] by (cases "n = EmptyNode") auto
  have "plook (ExtensionNode key n) (key @ p) = plook (ExtensionNode key' n') (key @ p)"
    using assms(1,3) p(1) by (auto simp: same_content_def simp del: plook.simps)
  with p(2) have "plook (ExtensionNode key' n') (key @ p) \<noteq> None" by (simp del: not_None_eq)
  then have "take (length b) (a @ p) = b" by (auto simp: k split: if_splits)
  then have "a = [] \<or> b = []" using ab(3) by (cases a; cases b) auto
  then show ?thesis
    using shorter [of key n b n'] shorter [of key' n' a n] assms(1,2) assms(3) same_content_sym [OF assms(3)] k
    by auto
qed

theorem canon_unique: "canon t \<Longrightarrow> canon t' \<Longrightarrow> same_content t t' \<Longrightarrow> t = t'"
proof (induction t arbitrary: t')
  case EmptyNode
  then show ?case using empty_not_same by blast
next
  case (LeafNode v)
  then show ?case
  proof (cases t')
    case (ExtensionNode key n)
    then show ?thesis using LeafNode ext_not_same [of "LeafNode v" key n] by simp
  qed (use LeafNode leaf_branch_not_same same_content_sym in \<open>auto simp: same_content_def dest: spec [of _ "[]"]\<close>)
next
  case (ExtensionNode key n)
  show ?case
  proof (cases t')
    case EmptyNode
    then show ?thesis using ExtensionNode.prems empty_not_same same_content_sym by blast
  next
    case (ExtensionNode key' n')
    note t' = this
    have "key = key'" using ExtensionNode.prems unfolding t' by (rule ext_keys_equal)
    moreover have "same_content n n'"
      unfolding same_content_def
    proof (intro allI impI)
      fix p assume "nibbles p"
      then have "plook (ExtensionNode key n) (key @ p) = plook t' (key @ p)"
        using ExtensionNode.prems by (auto simp: same_content_def simp del: plook.simps)
      then show "plook n p = plook n' p" by (simp add: t' \<open>key = key'\<close>)
    qed
    ultimately show ?thesis using ExtensionNode.IH [of n'] ExtensionNode.prems t' by auto
  next
    case (HashNode h)
    then show ?thesis using ExtensionNode.prems by simp
  next
    case (LeafNode v)
    then show ?thesis
      using ExtensionNode.prems ext_not_same [of "LeafNode v" key n] same_content_sym by auto
  next
    case (BranchNode cs)
    then show ?thesis
      using ExtensionNode.prems ext_not_same [of "BranchNode cs" key n] same_content_sym by auto
  qed
next
  case (BranchNode cs)
  show ?case
  proof (cases t')
    case EmptyNode
    then show ?thesis using BranchNode.prems empty_not_same same_content_sym by blast
  next
    case (LeafNode v)
    then show ?thesis using BranchNode.prems leaf_branch_not_same same_content_sym by blast
  next
    case (ExtensionNode key n)
    then show ?thesis using BranchNode.prems ext_not_same [of "BranchNode cs" key n] by auto
  next
    case t': (BranchNode cs')
    have kids: "kids_ok cs" "kids_ok cs'" using BranchNode.prems t' by (auto simp: canon_Branch)
    have look: "plook (BranchNode cs) p = plook (BranchNode cs') p" if "nibbles p" for p
      using BranchNode.prems(3) t' that by (simp add: same_content_def)
    have "cs ! i = cs' ! i" if i: "i < 17" for i
    proof (cases "i = 16")
      case True
      then show ?thesis using look [of "[]"] kids_ok_last [OF kids(1)] kids_ok_last [OF kids(2)] kids
        by (cases "cs ! 16"; cases "cs' ! 16") auto
    next
      case False
      then have u: "unat (of_nat i :: byte) = i" "(of_nat i :: byte) < 16"
        using i by (simp_all add: unat_of_nat word_less_nat_alt)
      have "same_content (cs ! i) (cs' ! i)"
        unfolding same_content_def
      proof (intro allI impI)
        fix p assume "nibbles p"
        then show "plook (cs ! i) p = plook (cs' ! i) p"
          using look [of "of_nat i # p"] u kids by simp
      qed
      then show ?thesis using BranchNode.IH [of "cs ! i" "cs' ! i"] i kids by simp
    qed
    then show ?thesis using kids t' by (auto intro: nth_equalityI)
  qed (use BranchNode.prems in simp)
qed simp

end
