(* ===== verification/MptTrie.thy ===== *)
theory MptTrie
  imports MptTree KVStore
begin

text \<open>
  Model of \<open>Trie\<close> (\<open>pkg/core/mpt/trie.go\<close>): lookup, insertion and deletion through nodes that may
  still be in the store, the reference counts, \<open>Flush\<close> and \<open>Collapse\<close>. The state \<open>'s trie\<close> has the
  \<open>MemCachedStore\<close> under the trie, its root, mode and reference count cache. Every operation returns
  an error or a result together with the state. Resolving a hash node costs one unit of fuel; a node
  that resolves at depth \<open>d\<close> needs more than \<open>d\<close> units, and the theorems say that this is enough.
\<close>

section \<open>State\<close>

datatype trie_err = ErrNotFound | StoreErr store_err | IoErr io_err | BadArg string | MptPanic string | NoFuel

record cachedNode =
  cn_bytes :: "bytes option"
  cn_initial :: u32
  cn_refcount :: u32

record 's trie =
  t_Store :: "'s mem_cached"
  t_root :: node
  t_mode :: byte
  t_refcount :: "(hash256 \<times> cachedNode) list"

definition ModeAll :: byte where "ModeAll = 0"
definition ModeLatest :: byte where "ModeLatest = 1"
definition ModeGCFlag :: byte where "ModeGCFlag = 2"
definition ModeGC :: byte where "ModeGC = 3"

definition RC :: "byte \<Rightarrow> bool" where "RC m \<longleftrightarrow> m AND ModeLatest \<noteq> 0"
definition GC :: "byte \<Rightarrow> bool" where "GC m \<longleftrightarrow> m AND ModeGCFlag \<noteq> 0"

definition NewTrie :: "node option \<Rightarrow> byte \<Rightarrow> 's mem_cached \<Rightarrow> 's trie" where
  "NewTrie root mode store =
     \<lparr>t_Store = store, t_root = (case root of None \<Rightarrow> EmptyNode | Some n \<Rightarrow> n), t_mode = mode, t_refcount = []\<rparr>"

definition makeStorageKey :: "hash256 \<Rightarrow> bytes" where
  "makeStorageKey mptKey = 0x03 # mptKey"

definition IsActiveValue :: "bytes \<Rightarrow> bool" where
  "IsActiveValue v \<longleftrightarrow> 4 < length v \<and> v ! (length v - 5) = 1"

definition getFromStore :: "'s store_ops \<Rightarrow> bytes \<Rightarrow> byte \<Rightarrow> 's mem_cached \<Rightarrow> store_err + bytes" where
  "getFromStore ops key mode store = (case mc_Get ops store key of Inl e \<Rightarrow> Inl e
     | Inr data \<Rightarrow> if GC mode \<and> \<not> IsActiveValue data then Inl ErrKeyNotFound else Inr data)"

text \<open>The part of \<open>Trie.getFromStore\<close> after the read: the node, its bytes without the reference
  count, and the count. A stored empty node has no cache to set, which is a panic.\<close>

definition decode_stored :: "byte \<Rightarrow> bytes \<Rightarrow> trie_err + node \<times> bytes \<times> u32" where
  "decode_stored mode data =
    (case node_DecodeBinary (NewBinReaderFromBuf data) of (n, r) \<Rightarrow>
      (case r_err r of Some e \<Rightarrow> Inl (IoErr e)
       | None \<Rightarrow>
         (if RC mode \<and> length data < 5 then Inl (MptPanic ''slice bounds out of range'')
          else case n of None \<Rightarrow> Inl (MptPanic ''nil node'')
            | Some EmptyNode \<Rightarrow> Inl (MptPanic ''interface conversion'')
            | Some nd \<Rightarrow>
                if RC mode then Inr (nd, take (length data - 5) data, fst (ReadU32LE (snd (ReadB r))))
                else Inr (nd, data, 0))))"

definition t_getFromStore :: "'s store_ops \<Rightarrow> 's trie \<Rightarrow> hash256 \<Rightarrow> (trie_err + node) \<times> 's trie" where
  "t_getFromStore ops t h =
    (case getFromStore ops (makeStorageKey h) (t_mode t) (t_Store t) of Inl e \<Rightarrow> (Inl (StoreErr e), t)
     | Inr data \<Rightarrow>
       (case decode_stored (t_mode t) data of Inl e \<Rightarrow> (Inl e, t)
        | Inr (n, bs, ini) \<Rightarrow>
          (Inr n,
           if RC (t_mode t)
           then case map_of (t_refcount t) h of None \<Rightarrow> t
             | Some cn \<Rightarrow> t\<lparr>t_refcount := AList.update h (cn\<lparr>cn_bytes := Some bs, cn_initial := ini\<rparr>) (t_refcount t)\<rparr>
           else t)))"

definition change_ref :: "u32 \<Rightarrow> 's trie \<Rightarrow> hash256 \<Rightarrow> bytes \<Rightarrow> 's trie" where
  "change_ref by t h bs = t\<lparr>t_refcount := AList.update h
     (case map_of (t_refcount t) h of
        None \<Rightarrow> \<lparr>cn_bytes = Some bs, cn_initial = 0, cn_refcount = by\<rparr>
      | Some cn \<Rightarrow> cn\<lparr>cn_refcount := cn_refcount cn + by,
                     cn_bytes := (case cn_bytes cn of None \<Rightarrow> Some bs | Some b \<Rightarrow> Some b)\<rparr>) (t_refcount t)\<rparr>"

definition addRef :: "'s trie \<Rightarrow> node \<Rightarrow> 's trie" where
  "addRef t n = change_ref 1 t (node_Hash n) (node_Bytes n)"

definition removeRef :: "'s trie \<Rightarrow> node \<Rightarrow> 's trie" where
  "removeRef t n = change_ref (- 1) t (node_Hash n) (node_Bytes n)"

section \<open>Lookup\<close>

text \<open>\<open>getWithPath\<close>: the node with the hash nodes on the path resolved, the node found, and its
  path.\<close>

function getWithPath ::
  "'s store_ops \<Rightarrow> nat \<Rightarrow> 's trie \<Rightarrow> node \<Rightarrow> bytes \<Rightarrow> bool \<Rightarrow> (trie_err + node \<times> node \<times> bytes) \<times> 's trie" where
  "getWithPath ops fuel t (LeafNode v) path strict =
    (if length path = 0 then (Inr (LeafNode v, LeafNode v, []), t) else (Inl ErrNotFound, t))"
| "getWithPath ops fuel t (BranchNode cs) path strict =
    (case splitPath path of (i, path') \<Rightarrow>
      if i = lastChild \<and> \<not> strict then (Inr (BranchNode cs, BranchNode cs, []), t)
      else if unat i < length cs then
        (case getWithPath ops fuel t (cs ! unat i) path' strict of
           (Inl e, t') \<Rightarrow> (Inl e, t')
         | (Inr (r, res, p), t') \<Rightarrow> (Inr (BranchNode (cs[unat i := r]), res, i # p), t'))
      else (Inl (MptPanic ''index out of range''), t))"
| "getWithPath ops fuel t EmptyNode path strict = (Inl ErrNotFound, t)"
| "getWithPath ops fuel t (HashNode h) path strict =
    (case fuel of 0 \<Rightarrow> (Inl NoFuel, t)
     | Suc f \<Rightarrow>
       (case t_getFromStore ops t h of
          (Inr r, t') \<Rightarrow> getWithPath ops f t' r path strict
        | (Inl e, t') \<Rightarrow>
            (case e of MptPanic s \<Rightarrow> (Inl e, t')
             | IoErr ie \<Rightarrow> (Inl (if ie = errTooManyNodes then e else ErrNotFound), t')
             | _ \<Rightarrow> (Inl ErrNotFound, t'))))"
| "getWithPath ops fuel t (ExtensionNode key nxt) path strict =
    (if length path = 0 \<and> \<not> strict then (Inr (ExtensionNode key nxt, nxt, key), t)
     else if HasPrefix path key then
       (case getWithPath ops fuel t nxt (drop (length key) path) strict of
          (Inl e, t') \<Rightarrow> (Inl e, t')
        | (Inr (r, res, p), t') \<Rightarrow> (Inr (ExtensionNode key r, res, key @ p), t'))
     else if \<not> strict \<and> HasPrefix key path then (Inr (ExtensionNode key nxt, nxt, key), t)
     else (Inl ErrNotFound, t))"
  by pat_completeness auto
termination
  by (relation "measures [\<lambda>(ops, fuel, t, n, path, strict). fuel, \<lambda>(ops, fuel, t, n, path, strict). size n]")
    (auto simp: size_nth_less)

definition trie_Get :: "'s store_ops \<Rightarrow> nat \<Rightarrow> 's trie \<Rightarrow> bytes \<Rightarrow> (trie_err + bytes) \<times> 's trie" where
  "trie_Get ops fuel t key =
    (if MaxKeyLength < length key then (Inl (BadArg ''key is too big''), t)
     else case getWithPath ops fuel t (t_root t) (toNibbles key) True of
       (Inl e, t') \<Rightarrow> (Inl e, t')
     | (Inr (r, leaf, _), t') \<Rightarrow>
         (case leaf of LeafNode v \<Rightarrow> Inr v | _ \<Rightarrow> Inl (MptPanic ''interface conversion''), t'\<lparr>t_root := r\<rparr>))"

section \<open>Insertion\<close>

definition newSubTrie :: "'s trie \<Rightarrow> bytes \<Rightarrow> node \<Rightarrow> bool \<Rightarrow> node \<times> 's trie" where
  "newSubTrie t path val newVal =
    (let t1 = (if newVal then addRef t val else t)
     in if length path = 0 then (val, t1)
        else let e = ExtensionNode path val in (e, addRef t1 e))"

definition putIntoLeaf :: "'s trie \<Rightarrow> bytes \<Rightarrow> bytes \<Rightarrow> bytes \<Rightarrow> (trie_err + node) \<times> 's trie" where
  "putIntoLeaf t w path v =
    (if length path = 0 then (Inr (LeafNode v), addRef (removeRef t (LeafNode w)) (LeafNode v))
     else let (s, t1) = newSubTrie t (tl path) (LeafNode v) True;
              b = BranchNode (NewBranchNode[unat (hd path) := s, unat lastChild := LeafNode w])
          in (Inr b, addRef t1 b))"

text \<open>The second half of \<open>putIntoExtension\<close>, for a path that leaves the extension's key.\<close>

definition splitExtension :: "'s trie \<Rightarrow> bytes \<Rightarrow> node \<Rightarrow> bytes \<Rightarrow> bytes \<Rightarrow> (trie_err + node) \<times> 's trie" where
  "splitExtension t key nxt path v =
    (let pref = lcp key path; lp = length pref; keyTail = drop lp key; pathTail = drop lp path
     in if childrenCount \<le> unat (hd keyTail) then (Inl (MptPanic ''index out of range''), t)
        else let (s1, t1) = newSubTrie t (tl keyTail) nxt False;
                 (i, pathTail') = splitPath pathTail;
                 (s2, t2) = newSubTrie t1 pathTail' (LeafNode v) True;
                 b = BranchNode (NewBranchNode[unat (hd keyTail) := s1, unat i := s2]);
                 t3 = addRef t2 b
             in if 0 < lp then let e = ExtensionNode pref b in (Inr e, addRef t3 e) else (Inr b, t3))"

function putIntoNode ::
  "'s store_ops \<Rightarrow> nat \<Rightarrow> 's trie \<Rightarrow> node \<Rightarrow> bytes \<Rightarrow> bytes \<Rightarrow> (trie_err + node) \<times> 's trie" where
  "putIntoNode ops fuel t (LeafNode w) path v = putIntoLeaf t w path v"
| "putIntoNode ops fuel t (BranchNode cs) path v =
    (case splitPath path of (i, path') \<Rightarrow>
      let t1 = removeRef t (BranchNode cs)
      in if unat i < length cs then
           (case putIntoNode ops fuel t1 (cs ! unat i) path' v of
              (Inl e, t2) \<Rightarrow> (Inl e, t2)
            | (Inr r, t2) \<Rightarrow> let b = BranchNode (cs[unat i := r]) in (Inr b, addRef t2 b))
         else (Inl (MptPanic ''index out of range''), t1))"
| "putIntoNode ops fuel t (ExtensionNode key nxt) path v =
    (let t1 = removeRef t (ExtensionNode key nxt)
     in if HasPrefix path key then
          (case putIntoNode ops fuel t1 nxt (drop (length key) path) v of
             (Inl e, t2) \<Rightarrow> (Inl e, t2)
           | (Inr r, t2) \<Rightarrow> let e = ExtensionNode key r in (Inr e, addRef t2 e))
        else splitExtension t1 key nxt path v)"
| "putIntoNode ops fuel t (HashNode h) path v =
    (case fuel of 0 \<Rightarrow> (Inl NoFuel, t)
     | Suc f \<Rightarrow>
       (case t_getFromStore ops t h of
          (Inl e, t') \<Rightarrow> (Inl e, t')
        | (Inr n, t') \<Rightarrow> putIntoNode ops f t' n path v))"
| "putIntoNode ops fuel t EmptyNode path v =
    (case newSubTrie t path (LeafNode v) True of (n, t') \<Rightarrow> (Inr n, t'))"
  by pat_completeness auto
termination
  by (relation "measures [\<lambda>(ops, fuel, t, n, path, v). fuel, \<lambda>(ops, fuel, t, n, path, v). size n]")
    (auto simp: size_nth_less)

text \<open>\<open>None\<close> as a value is a nil slice.\<close>

definition trie_Put :: "'s store_ops \<Rightarrow> nat \<Rightarrow> 's trie \<Rightarrow> bytes \<Rightarrow> bytes option \<Rightarrow> trie_err option \<times> 's trie" where
  "trie_Put ops fuel t key value =
    (if length key = 0 then (Some (BadArg ''key is empty''), t)
     else if MaxKeyLength < length key then (Some (BadArg ''key is too big''), t)
     else case value of
       None \<Rightarrow> (Some (BadArg ''value is nil''), t)
     | Some v \<Rightarrow>
       if MaxValueLength < length v then (Some (BadArg ''value is too big''), t)
       else (case putIntoNode ops fuel t (t_root t) (toNibbles key) v of
               (Inl e, t') \<Rightarrow> (Some e, t')
             | (Inr r, t') \<Rightarrow> (None, t'\<lparr>t_root := r\<rparr>)))"

section \<open>Deletion\<close>

text \<open>The end of \<open>deleteFromBranch\<close>: the children after the deletion, \<open>b\<close> the branch that holds them.
  An error leaves that branch behind in the trie.\<close>

definition loadChild :: "'s store_ops \<Rightarrow> 's trie \<Rightarrow> node \<Rightarrow> (trie_err + node) \<times> 's trie" where
  "loadChild ops t c = (case c of HashNode h \<Rightarrow> t_getFromStore ops t h | _ \<Rightarrow> (Inr c, t))"

definition shrinkBranch :: "'s store_ops \<Rightarrow> 's trie \<Rightarrow> node list \<Rightarrow> (trie_err option \<times> node) \<times> 's trie" where
  "shrinkBranch ops t cs =
    (let idx = nonempty_idx cs; index = (if idx = [] then 0 else last idx); b = BranchNode cs
     in if 1 < length idx then ((None, b), addRef t b)
        else let c = cs ! index
        in if index = unat lastChild then ((None, c), t)
           else case loadChild ops t c of
             (Inl e, t1) \<Rightarrow> ((Some e, b), t1)
           | (Inr c', t1) \<Rightarrow>
             (case c' of
                ExtensionNode key nxt \<Rightarrow>
                  (let e = ExtensionNode (of_nat index # key) nxt in ((None, e), addRef (removeRef t1 c') e))
              | _ \<Rightarrow> (let e = ExtensionNode [of_nat index] c' in ((None, e), addRef t1 e))))"

text \<open>With an error the node is what the changed node in memory is then.\<close>

function deleteFromNode ::
  "'s store_ops \<Rightarrow> nat \<Rightarrow> 's trie \<Rightarrow> node \<Rightarrow> bytes \<Rightarrow> (trie_err option \<times> node) \<times> 's trie" where
  "deleteFromNode ops fuel t (LeafNode v) path =
    (if length path = 0 then ((None, EmptyNode), removeRef t (LeafNode v)) else ((None, LeafNode v), t))"
| "deleteFromNode ops fuel t (BranchNode cs) path =
    (case splitPath path of (i, path') \<Rightarrow>
      if unat i < length cs then
        (case deleteFromNode ops fuel t (cs ! unat i) path' of
           ((Some e, c), t1) \<Rightarrow> ((Some e, BranchNode (cs[unat i := c])), t1)
         | ((None, r), t1) \<Rightarrow> shrinkBranch ops (removeRef t1 (BranchNode cs)) (cs[unat i := r]))
      else ((Some (MptPanic ''index out of range''), BranchNode cs), t))"
| "deleteFromNode ops fuel t (ExtensionNode key nxt) path =
    (if \<not> HasPrefix path key then ((None, ExtensionNode key nxt), t)
     else case deleteFromNode ops fuel t nxt (drop (length key) path) of
       ((Some e, c), t1) \<Rightarrow> ((Some e, ExtensionNode key c), t1)
     | ((None, r), t1) \<Rightarrow>
       (let t2 = removeRef t1 (ExtensionNode key nxt)
        in case r of
             ExtensionNode k' n' \<Rightarrow>
               (let e = ExtensionNode (key @ k') n' in ((None, e), addRef (removeRef t2 r) e))
           | EmptyNode \<Rightarrow> ((None, EmptyNode), t2)
           | _ \<Rightarrow> (let e = ExtensionNode key r in ((None, e), addRef t2 e))))"
| "deleteFromNode ops fuel t EmptyNode path = ((None, EmptyNode), t)"
| "deleteFromNode ops fuel t (HashNode h) path =
    (case fuel of 0 \<Rightarrow> ((Some NoFuel, HashNode h), t)
     | Suc f \<Rightarrow>
       (case t_getFromStore ops t h of
          (Inl e, t') \<Rightarrow> ((Some e, HashNode h), t')
        | (Inr n, t') \<Rightarrow>
          (case deleteFromNode ops f t' n path of
             ((Some e, _), t2) \<Rightarrow> ((Some e, HashNode h), t2)
           | ((None, r), t2) \<Rightarrow> ((None, r), t2))))"
  by pat_completeness auto
termination
  by (relation "measures [\<lambda>(ops, fuel, t, n, path). fuel, \<lambda>(ops, fuel, t, n, path). size n]")
    (auto simp: size_nth_less)

definition trie_Delete :: "'s store_ops \<Rightarrow> nat \<Rightarrow> 's trie \<Rightarrow> bytes \<Rightarrow> trie_err option \<times> 's trie" where
  "trie_Delete ops fuel t key =
    (if MaxKeyLength < length key then (Some (BadArg ''key is too big''), t)
     else case deleteFromNode ops fuel t (t_root t) (toNibbles key) of
       ((e, r), t') \<Rightarrow> (e, t'\<lparr>t_root := r\<rparr>))"

definition StateRoot :: "'s trie \<Rightarrow> hash256" where
  "StateRoot t = (if isEmpty (t_root t) then replicate 32 0 else node_Hash (t_root t))"

section \<open>Flushing\<close>

text \<open>\<open>updateRefCount\<close>: the new count, or \<open>None\<close> for the panics on a negative count and on stored data
  shorter than its count.\<close>

definition store_put :: "'s trie \<Rightarrow> bytes \<Rightarrow> bytes option \<Rightarrow> 's trie" where
  "store_put t key v = (case mc_Put (t_Store t) key v of Inl _ \<Rightarrow> t | Inr c \<Rightarrow> t\<lparr>t_Store := c\<rparr>)"

definition updateRefCount :: "'s store_ops \<Rightarrow> 's trie \<Rightarrow> cachedNode \<Rightarrow> bytes \<Rightarrow> u32 \<Rightarrow> (u32 \<times> 's trie) option" where
  "updateRefCount ops t cn key index =
    (let stored = (if cn_initial cn = 0
                   then (case getFromStore ops key (t_mode t) (t_Store t) of Inl _ \<Rightarrow> None | Inr d \<Rightarrow> Some d)
                   else None)
     in if (case stored of Some d \<Rightarrow> length d < 4 | None \<Rightarrow> False) then None
        else let cnt0 = (case stored of
                     Some d \<Rightarrow> of_nat (le_nat (drop (length d - 4) d))
                   | None \<Rightarrow> cn_initial cn);
                 data = (case stored of
                     Some d \<Rightarrow> d
                   | None \<Rightarrow> (case cn_bytes cn of None \<Rightarrow> [] | Some b \<Rightarrow> b) @ [1, 0, 0, 0, 0]);
                 cnt = cnt0 + cn_refcount cn;
                 l = length data
             in if sint cnt < 0 then None
                else if cnt = 0 then
                  (if \<not> GC (t_mode t) then Some (0, store_put t key None)
                   else Some (0, store_put t key (Some (take (l - 5) data @ 0 # nat_le 4 (unat index)))))
                else Some (cnt, store_put t key (Some (take (l - 4) data @ nat_le 4 (unat cnt)))))"

text \<open>One round of the loop of \<open>Flush\<close> over the reference count cache; \<open>None\<close> is a panic.\<close>

definition flush_node :: "'s store_ops \<Rightarrow> u32 \<Rightarrow> hash256 \<times> cachedNode \<Rightarrow> 's trie \<Rightarrow> 's trie option" where
  "flush_node ops index hn t = (case hn of (h, cn) \<Rightarrow>
    if cn_refcount cn \<noteq> 0 then
      (case cn_bytes cn of None \<Rightarrow> None
       | Some bs \<Rightarrow>
         if RC (t_mode t) then
           (case updateRefCount ops t cn (makeStorageKey h) index of None \<Rightarrow> None
            | Some (ini, t') \<Rightarrow>
              Some (t'\<lparr>t_refcount := (if ini = 0 then AList.delete h (t_refcount t')
                 else AList.update h (cn\<lparr>cn_initial := ini, cn_refcount := 0\<rparr>) (t_refcount t'))\<rparr>))
         else
           (let t' = (if 0 < sint (cn_refcount cn) then store_put t (makeStorageKey h) (Some bs) else t)
            in Some (t'\<lparr>t_refcount := AList.update h (cn\<lparr>cn_refcount := 0\<rparr>) (t_refcount t')\<rparr>)))
    else Some (t\<lparr>t_refcount := AList.delete h (t_refcount t)\<rparr>))"

fun flush_loop :: "'s store_ops \<Rightarrow> u32 \<Rightarrow> (hash256 \<times> cachedNode) list \<Rightarrow> 's trie \<Rightarrow> 's trie option" where
  "flush_loop ops index [] t = Some t"
| "flush_loop ops index (hn # hns) t =
    (case flush_node ops index hn t of None \<Rightarrow> None | Some t' \<Rightarrow> flush_loop ops index hns t')"

definition trie_Flush :: "'s store_ops \<Rightarrow> u32 \<Rightarrow> 's trie \<Rightarrow> 's trie option" where
  "trie_Flush ops index t = flush_loop ops index (t_refcount t) t"

section \<open>Collapsing\<close>

fun collapse :: "nat \<Rightarrow> node \<Rightarrow> node" where
  "collapse depth EmptyNode = EmptyNode"
| "collapse depth (HashNode h) = HashNode h"
| "collapse 0 n = HashNode (node_Hash n)"
| "collapse (Suc depth) (BranchNode cs) = BranchNode (map (collapse depth) cs)"
| "collapse (Suc depth) (ExtensionNode key nxt) = ExtensionNode key (collapse depth nxt)"
| "collapse (Suc depth) (LeafNode v) = LeafNode v"

text \<open>\<open>None\<close> is the panic on a negative depth.\<close>

definition trie_Collapse :: "int \<Rightarrow> 's trie \<Rightarrow> 's trie option" where
  "trie_Collapse depth t =
     (if depth < 0 then None else Some (t\<lparr>t_root := collapse (nat depth) (t_root t), t_refcount := []\<rparr>))"

end
