(* ===== verification/MptRefine.thy ===== *)
theory MptRefine
  imports MptTrie
begin

text \<open>
  The trie of \<open>MptTrie\<close> refines a finite map from keys to values. \<open>resolves\<close> relates a node, some of
  whose parts are hashes of stored nodes, to the hash-free trie it stands for; every operation
  preserves it, and computes on the hash-free trie what the reference operations of \<open>MptTree\<close> do.
\<close>

section \<open>Resolving hash nodes\<close>

definition loader :: "'s store_ops \<Rightarrow> byte \<Rightarrow> 's mem_cached \<Rightarrow> hash256 \<Rightarrow> node option" where
  "loader ops mode store h =
    (case getFromStore ops (makeStorageKey h) mode store of Inl _ \<Rightarrow> None
     | Inr data \<Rightarrow> (case decode_stored mode data of Inl _ \<Rightarrow> None | Inr (n, _, _) \<Rightarrow> Some n))"

abbreviation t_loader :: "'s store_ops \<Rightarrow> 's trie \<Rightarrow> hash256 \<Rightarrow> node option" where
  "t_loader ops t \<equiv> loader ops (t_mode t) (t_Store t)"

definition same_base :: "'s trie \<Rightarrow> 's trie \<Rightarrow> bool" where
  "same_base t t' \<longleftrightarrow> t_Store t' = t_Store t \<and> t_mode t' = t_mode t \<and> t_root t' = t_root t"

lemma same_base_refl [simp]: "same_base t t"
  by (simp add: same_base_def)

lemma same_base_trans: "same_base t t' \<Longrightarrow> same_base t' t'' \<Longrightarrow> same_base t t''"
  by (simp add: same_base_def)

lemma same_base_refs [simp]:
  "same_base t (addRef t' n) \<longleftrightarrow> same_base t t'" "same_base t (removeRef t' n) \<longleftrightarrow> same_base t t'"
  "same_base (addRef t n) t' \<longleftrightarrow> same_base t t'" "same_base (removeRef t n) t' \<longleftrightarrow> same_base t t'"
  by (simp_all add: same_base_def addRef_def removeRef_def change_ref_def)

lemma t_loader_refs [simp]:
  "t_loader ops (addRef t n) = t_loader ops t" "t_loader ops (removeRef t n) = t_loader ops t"
  by (simp_all add: addRef_def removeRef_def change_ref_def)

lemma t_loader_same_base: "same_base t t' \<Longrightarrow> t_loader ops t' = t_loader ops t"
  by (simp add: same_base_def)

lemma same_base_newSubTrie [simp]:
  "same_base t (snd (newSubTrie t' path n new)) \<longleftrightarrow> same_base t t'"
  by (simp add: newSubTrie_def Let_def)

lemma fst_newSubTrie [simp]: "fst (newSubTrie t path n new) = psub path n"
  by (simp add: newSubTrie_def Let_def psub_def)

lemma t_getFromStore_loader:
  assumes "t_loader ops t h = Some n"
  obtains t' where "t_getFromStore ops t h = (Inr n, t')" "same_base t t'"
  using assms
  by (auto simp: loader_def t_getFromStore_def same_base_def split: sum.splits option.splits)

fun proper :: "node \<Rightarrow> bool" where
  "proper EmptyNode = False"
| "proper (HashNode h) = False"
| "proper _ = True"

inductive resolves :: "(hash256 \<Rightarrow> node option) \<Rightarrow> nat \<Rightarrow> node \<Rightarrow> node \<Rightarrow> bool" for L where
  res_Empty: "resolves L d EmptyNode EmptyNode"
| res_Leaf: "resolves L d (LeafNode v) (LeafNode v)"
| res_Branch: "list_all2 (resolves L d) cs Ts \<Longrightarrow> resolves L d (BranchNode cs) (BranchNode Ts)"
| res_Ext: "resolves L d n T \<Longrightarrow> resolves L d (ExtensionNode key n) (ExtensionNode key T)"
| res_Hash: "L h = Some n \<Longrightarrow> proper n \<Longrightarrow> h = node_Hash T \<Longrightarrow> resolves L d n T \<Longrightarrow> resolves L (Suc d) (HashNode h) T"

inductive_cases res_EmptyE [elim!]: "resolves L d EmptyNode T"
inductive_cases res_LeafE [elim!]: "resolves L d (LeafNode v) T"
inductive_cases res_BranchE [elim!]: "resolves L d (BranchNode cs) T"
inductive_cases res_ExtE [elim!]: "resolves L d (ExtensionNode key n) T"
inductive_cases res_HashE: "resolves L d (HashNode h) T"

lemmas res_intros [intro!] = res_Empty res_Leaf res_Branch res_Ext

lemma resolves_mono: "resolves L d n T \<Longrightarrow> d \<le> d' \<Longrightarrow> resolves L d' n T"
proof (induction arbitrary: d' rule: resolves.induct)
  case (res_Branch d cs Ts)
  then show ?case by (auto elim!: list_all2_mono intro!: resolves.res_Branch)
next
  case (res_Hash h n T d)
  then show ?case by (cases d') (auto intro: resolves.res_Hash)
qed (auto intro: resolves.intros)

lemma resolves_proper: "resolves L d n T \<Longrightarrow> proper n \<Longrightarrow> proper T"
  by (cases n) (auto)

lemma resolves_empty: "resolves L d n T \<Longrightarrow> n = EmptyNode \<longleftrightarrow> T = EmptyNode"
  by (cases n) (auto elim!: res_HashE dest: resolves_proper)

lemma resolves_isEmpty: "resolves L d n T \<Longrightarrow> isEmpty n \<longleftrightarrow> isEmpty T"
  using resolves_empty [of L d n T] by (cases n; cases T) auto

text \<open>A node and what it resolves to have the same bytes, hence the same hash.\<close>

lemma child_bytes_node_Hash: "n \<noteq> EmptyNode \<Longrightarrow> encodeBinaryAsChild n = HashT # node_Hash n"
  by (cases n) auto

lemma resolves_hash:
  "resolves L d n T \<Longrightarrow> (n \<noteq> EmptyNode \<longrightarrow> node_Hash n = node_Hash T) \<and> (proper n \<longrightarrow> node_Bytes n = node_Bytes T)"
proof (induction rule: resolves.induct)
  case (res_Branch d cs Ts)
  have "encodeBinaryAsChild c = encodeBinaryAsChild T"
    if "resolves L d c T" "c \<noteq> EmptyNode \<longrightarrow> node_Hash c = node_Hash T" for c T
    using that resolves_empty [OF that(1)] child_bytes_node_Hash by (cases "c = EmptyNode") auto
  then have "map encodeBinaryAsChild cs = map encodeBinaryAsChild Ts"
    using res_Branch by (auto simp: list_all2_conv_all_nth intro!: nth_equalityI simp del: encodeBinaryAsChild.simps)
  then show ?case by (simp del: encodeBinaryAsChild.simps)
next
  case (res_Ext d n T key)
  have "encodeBinaryAsChild n = encodeBinaryAsChild T"
    using res_Ext resolves_empty [of L d n T] child_bytes_node_Hash by (cases "n = EmptyNode") auto
  then show ?case by (simp del: encodeBinaryAsChild.simps)
qed auto

lemma resolves_nth: "list_all2 (resolves L d) cs Ts \<Longrightarrow> i < length cs \<Longrightarrow> resolves L d (cs ! i) (Ts ! i)"
  by (simp add: list_all2_conv_all_nth)

lemma resolves_update:
  "list_all2 (resolves L d) cs Ts \<Longrightarrow> resolves L d c T \<Longrightarrow> list_all2 (resolves L d) (cs[i := c]) (Ts[i := T])"
  by (rule list_all2_update_cong)

lemma resolves_self: "canon T \<Longrightarrow> resolves L d T T"
proof (induction T)
  case (BranchNode cs)
  then show ?case by (auto simp: list_all2_conv_all_nth canon_Branch kids_ok_def intro!: resolves.res_Branch)
qed (auto intro: resolves.intros)

lemma resolves_psub: "resolves L d n T \<Longrightarrow> resolves L d (psub key n) (psub key T)"
  by (auto simp: psub_def)

lemma resolves_New: "list_all2 (resolves L d) NewBranchNode NewBranchNode"
  by (auto simp: NewBranchNode_def list_all2_conv_all_nth)

section \<open>Reference counts\<close>

text \<open>The pending change of the reference count of a hash, and the number of nodes of a hash-free trie
  that have the hash. Reference counting is exact when the first changes as the second does.\<close>

definition ref :: "'s trie \<Rightarrow> hash256 \<Rightarrow> u32" where
  "ref t h = (case map_of (t_refcount t) h of None \<Rightarrow> 0 | Some cn \<Rightarrow> cn_refcount cn)"

definition self_occ :: "node \<Rightarrow> hash256 \<Rightarrow> nat" where
  "self_occ n h = (if node_Hash n = h then 1 else 0)"

fun occ :: "node \<Rightarrow> hash256 \<Rightarrow> nat" where
  "occ EmptyNode h = 0"
| "occ (HashNode h') h = 0"
| "occ (LeafNode v) h = self_occ (LeafNode v) h"
| "occ (BranchNode cs) h = self_occ (BranchNode cs) h + (\<Sum>c \<leftarrow> cs. occ c h)"
| "occ (ExtensionNode key n) h = self_occ (ExtensionNode key n) h + occ n h"

definition kids_occ :: "node list \<Rightarrow> hash256 \<Rightarrow> nat" where
  "kids_occ cs h = (\<Sum>c \<leftarrow> cs. occ c h)"

definition tracks :: "'s trie \<Rightarrow> 's trie \<Rightarrow> (hash256 \<Rightarrow> nat) \<Rightarrow> (hash256 \<Rightarrow> nat) \<Rightarrow> bool" where
  "tracks t t' f g \<longleftrightarrow> same_base t t' \<and> (\<forall>h. ref t' h + of_nat (f h) = ref t h + of_nat (g h))"

lemma ref_addRef [simp]: "ref (addRef t n) h = ref t h + of_nat (self_occ n h)"
  by (auto simp: ref_def addRef_def change_ref_def self_occ_def map_of_update split: option.splits)

lemma ref_removeRef [simp]: "ref (removeRef t n) h = ref t h - of_nat (self_occ n h)"
  by (auto simp: ref_def removeRef_def change_ref_def self_occ_def map_of_update split: option.splits)

lemma ref_root [simp]: "ref (t\<lparr>t_root := r\<rparr>) = ref t"
  by (simp add: ref_def fun_eq_iff)

lemma ref_getFromStore: "t_getFromStore ops t h = (x, t') \<Longrightarrow> ref t' = ref t"
  by (auto simp: t_getFromStore_def ref_def fun_eq_iff map_of_update split: sum.splits option.splits if_splits)

lemma self_occ_resolves: "resolves L d n T \<Longrightarrow> n \<noteq> EmptyNode \<Longrightarrow> self_occ n = self_occ T"
  using resolves_hash [of L d n T] by (auto simp: self_occ_def fun_eq_iff)

lemma kids_occ_update:
  "i < length cs \<Longrightarrow> kids_occ (cs[i := c]) h + occ (cs ! i) h = kids_occ cs h + occ c h"
  by (induction cs arbitrary: i) (auto simp: kids_occ_def nth_Cons split: nat.splits)

lemma kids_occ_New [simp]: "kids_occ NewBranchNode h = 0"
  by (simp add: kids_occ_def NewBranchNode_def sum_list_replicate)

lemma kids_occ_one:
  assumes "i < length cs" "\<And>j. j < length cs \<Longrightarrow> j \<noteq> i \<Longrightarrow> cs ! j = EmptyNode"
  shows "kids_occ cs h = occ (cs ! i) h"
proof -
  have "cs[i := EmptyNode] = replicate (length cs) EmptyNode"
    using assms by (auto intro!: nth_equalityI simp: nth_list_update)
  then have "kids_occ (cs[i := EmptyNode]) h = 0" by (simp add: kids_occ_def sum_list_replicate)
  then show ?thesis using kids_occ_update [OF assms(1), of EmptyNode h] by simp
qed

lemma occ_Branch: "occ (BranchNode cs) h = self_occ (BranchNode cs) h + kids_occ cs h"
  by (simp add: kids_occ_def)

declare occ.simps(4) [simp del]

lemma occ_psub: "occ (psub key n) h = (if key = [] then 0 else self_occ (ExtensionNode key n) h) + occ n h"
  by (simp add: psub_def)

lemma ref_newSubTrie:
  assumes "newSubTrie t path n new = (s, t')"
  shows "ref t' h = ref t h + of_nat (if new then self_occ n h else 0)
    + of_nat (if path = [] then 0 else self_occ (ExtensionNode path n) h)"
  using assms by (auto simp: newSubTrie_def Let_def split: if_splits)

lemma balance:
  fixes r r' :: "'a :: ab_group_add"
  assumes "k' + old = k + new" "r' + old = r - s + new"
  shows "r' + s' + (s + k) = r + (s' + k')"
proof -
  have k': "k' = k + new - old" and r': "r' = r - s + new - old" using assms by (simp_all add: eq_diff_eq)
  show ?thesis unfolding k' r' by (simp add: algebra_simps)
qed

lemma balance2:
  fixes r r' :: "'a :: ab_group_add"
  assumes "k' + old = k + new" "r1 + old = r + new" "r' + k' = r1 - s + res"
  shows "r' + (s + k) = r + res"
proof -
  have k': "k' = k + new - old" and r1: "r1 = r + new - old" using assms(1,2) by (simp_all add: eq_diff_eq)
  have "r' = r1 - s + res - k'" using assms(3) by (simp add: eq_diff_eq)
  then show ?thesis unfolding k' r1 by (simp add: algebra_simps)
qed

lemma tracks_base: "tracks t t' f g \<Longrightarrow> same_base t t'"
  by (simp add: tracks_def)

lemma tracks_loaded: "tracks t1 t' f g \<Longrightarrow> same_base t t1 \<Longrightarrow> ref t1 = ref t \<Longrightarrow> tracks t t' f g"
  by (auto simp: tracks_def intro: same_base_trans)

lemma tracks_refl [simp]: "tracks t t f f"
  by (simp add: tracks_def)

section \<open>Lookup refines lookup\<close>

lemma HasPrefix_take: "HasPrefix p key \<longleftrightarrow> take (length key) p = key"
  by (simp add: HasPrefix_def)

lemma getWithPath_refines:
  assumes "resolves L d n T" "d < fuel" "L = t_loader ops t" "canon T" "nibbles p"
  shows "(case plook T p of
       Some v \<Rightarrow> \<exists>n' q t'. getWithPath ops fuel t n p True = (Inr (n', LeafNode v, q), t')
                  \<and> same_base t t' \<and> resolves L d n' T
     | None \<Rightarrow> \<exists>t'. getWithPath ops fuel t n p True = (Inl ErrNotFound, t') \<and> same_base t t')"
  using assms
proof (induction arbitrary: fuel t p rule: resolves.induct)
  case (res_Branch d cs Ts)
  have len: "length cs = 17" "length Ts = 17" "kids_ok Ts"
    using res_Branch by (auto simp: canon_Branch list_all2_lengthD dest: list_all2_lengthD)
  obtain i q where i: "splitPath p = (i, q)" "unat i < 17" "unat i = 16 \<longrightarrow> q = []" "nibbles q"
    using splitPath_nibbles [OF res_Branch.prems(4)] .
  have look: "plook (BranchNode Ts) p = plook (Ts ! unat i) q"
    using i len by (simp add: plook.simps(4))
  have all: "list_all2 (resolves L d) cs Ts" using res_Branch.IH by (rule list_all2_mono) blast
  have "(case plook (Ts ! unat i) q of
       Some v \<Rightarrow> \<exists>n' r t'. getWithPath ops fuel t (cs ! unat i) q True = (Inr (n', LeafNode v, r), t')
                  \<and> same_base t t' \<and> resolves L d n' (Ts ! unat i)
     | None \<Rightarrow> \<exists>t'. getWithPath ops fuel t (cs ! unat i) q True = (Inl ErrNotFound, t') \<and> same_base t t')"
    using res_Branch.IH res_Branch.prems(1,2) i len by (auto simp: list_all2_conv_all_nth)
  moreover have "resolves L d (BranchNode (cs[unat i := n'])) (BranchNode Ts)"
    if "resolves L d n' (Ts ! unat i)" for n'
    using resolves_update [OF all that, of "unat i"] by (simp add: resolves.res_Branch)
  ultimately show ?case unfolding look using i len
    by (auto split: option.splits)
next
  case (res_Ext d n T key)
  show ?case
  proof (cases "HasPrefix p key")
    case True
    then obtain q where p: "p = key @ q" by (metis HasPrefix_take append_take_drop_id)
    then show ?thesis using True res_Ext.IH [of fuel t q] res_Ext.prems by (auto split: option.splits)
  next
    case False
    then show ?thesis by (simp add: HasPrefix_take)
  qed
next
  case (res_Hash h n T d)
  obtain f where f: "fuel = Suc f" "d < f" using res_Hash.prems(1) by (cases fuel) auto
  obtain t1 where t1: "t_getFromStore ops t h = (Inr n, t1)" "same_base t t1"
    using res_Hash.hyps(1) res_Hash.prems(2) by (auto elim: t_getFromStore_loader)
  have L: "L = t_loader ops t1" using res_Hash.prems(2) t_loader_same_base [OF t1(2)] by metis
  show ?case
    using res_Hash.IH [OF f(2) L res_Hash.prems(3,4)] f t1
    by (auto split: option.splits intro: same_base_trans elim!: resolves_mono)
qed (auto)


section \<open>Insertion refines insertion\<close>

lemma kids_occ_fork:
  assumes "i < 17" "j < 17" "i \<noteq> j"
  shows "kids_occ (NewBranchNode[i := a, j := b]) h = occ a h + occ b h"
  using kids_occ_update [of j "NewBranchNode[i := a]" b h] kids_occ_update [of i NewBranchNode a h] assms
  by simp

lemma putIntoLeaf_refines:
  assumes "nibbles p"
  shows "\<exists>t'. putIntoLeaf t w p v = (Inr (pput (LeafNode w) p v), t')
    \<and> tracks t t' (occ (LeafNode w)) (occ (pput (LeafNode w) p v))"
proof (cases p)
  case Nil
  then show ?thesis by (simp add: putIntoLeaf_def tracks_def)
next
  case (Cons x q)
  obtain s t1 where s: "newSubTrie t q (LeafNode v) True = (s, t1)" by fastforce
  have eq: "s = psub q (LeafNode v)" "same_base t t1"
    using fst_newSubTrie [of t q "LeafNode v" True] same_base_newSubTrie [of t t q "LeafNode v" True] s by auto
  have "unat x < 17" "unat x \<noteq> 16" using assms Cons by auto
  let ?b = "BranchNode (NewBranchNode[unat x := s, 16 := LeafNode w])"
  have "occ ?b h = self_occ ?b h + occ s h + occ (LeafNode w) h" for h
    using \<open>unat x < 17\<close> \<open>unat x \<noteq> 16\<close> by (simp add: occ_Branch kids_occ_fork)
  then have "tracks t (addRef t1 ?b) (occ (LeafNode w)) (occ ?b)"
    using eq ref_newSubTrie [OF s] by (auto simp: tracks_def occ_psub algebra_simps)
  then show ?thesis using Cons s eq by (simp add: putIntoLeaf_def Let_def)
qed

lemma splitExtension_refines:
  assumes "resolves L d n T" "canon (ExtensionNode key T)" "nibbles p" "\<not> HasPrefix p key"
  shows "\<exists>n' t'. splitExtension t key n p v = (Inr n', t')
    \<and> tracks t t' (occ T) (occ (pput (ExtensionNode key T) p v))
    \<and> resolves L d n' (pput (ExtensionNode key T) p v)"
proof -
  have "take (length key) p \<noteq> key" using assms(4) by (simp add: HasPrefix_take)
  then obtain pref kt pt where e: "key = pref @ kt" "p = pref @ pt" "lcp key p = pref" "kt \<noteq> []" "pt = [] \<or> hd kt \<noteq> hd pt"
    by (rule extension_split)
  have l: "lcp (pref @ kt) (pref @ pt) = pref" using e(1-3) by simp
  have "nibbles pt" using assms(3) e(2) by simp
  then obtain i q where i: "splitPath pt = (i, q)" "unat i < 17" "unat i = 16 \<longrightarrow> q = []" "nibbles q"
    by (rule splitPath_nibbles)
  have k: "unat (hd kt) < 17" "unat (hd kt) \<noteq> unat i"
    using assms(2) e(1,4,5) i(1) \<open>nibbles pt\<close> by (cases kt; cases pt; auto)+
  obtain s1 t1 where s1: "newSubTrie t (tl kt) n False = (s1, t1)" by fastforce
  obtain s2 t2 where s2: "newSubTrie t1 q (LeafNode v) True = (s2, t2)" by fastforce
  have eq: "s1 = psub (tl kt) n" "s2 = psub q (LeafNode v)"
    using fst_newSubTrie [of t "tl kt" n False] fst_newSubTrie [of t1 q "LeafNode v" True] s1 s2 by auto
  have sb: "same_base t t1" "same_base t t2"
    using same_base_newSubTrie [of t t "tl kt" n False] same_base_newSubTrie [of t t1 q "LeafNode v" True] s1 s2 by auto
  define b where "b = BranchNode (NewBranchNode[unat (hd kt) := s1, unat i := s2])"
  have r1: "resolves L d s1 (psub (tl kt) T)" unfolding eq by (rule resolves_psub [OF assms(1)])
  have rb: "resolves L d b (pfork kt T pt v)"
    unfolding pfork_def i b_def eq prod.case
    by (intro resolves.res_Branch resolves_update resolves_New resolves_psub assms(1) res_Leaf)
  define r where "r = psub pref b"
  have rr: "resolves L d r (psub pref (pfork kt T pt v))" unfolding r_def by (rule resolves_psub [OF rb])
  have occ_b: "occ (pfork kt T pt v) h = self_occ b h + occ (psub (tl kt) T) h + occ (psub q (LeafNode v)) h" for h
    using k i self_occ_resolves [OF rb] by (simp add: pfork_def occ_Branch kids_occ_fork b_def)
  have s1_occ: "self_occ (ExtensionNode (tl kt) n) h = self_occ (ExtensionNode (tl kt) T) h" for h
    using self_occ_resolves [OF resolves.res_Ext [OF assms(1)]] by simp
  have e_occ: "self_occ (ExtensionNode pref b) h = self_occ (ExtensionNode pref (pfork kt T pt v)) h" for h
    using self_occ_resolves [OF resolves.res_Ext [OF rb]] by simp
  define t3 where "t3 = (if pref = [] then addRef t2 b else addRef (addRef t2 b) (ExtensionNode pref b))"
  have run: "splitExtension t key n p v = (Inr r, t3)"
    using k by (auto simp: splitExtension_def Let_def e(1,2) l i(1) s1 s2 childrenCount_def r_def psub_def t3_def b_def)
  have put: "pput (ExtensionNode key T) p v = psub pref (pfork kt T pt v)"
    using assms(4) by (simp add: e(1,2) l HasPrefix_take)
  have "tracks t t3 (occ T) (occ (psub pref (pfork kt T pt v)))"
    unfolding tracks_def
  proof (intro conjI allI)
    show "same_base t t3" using sb by (simp add: t3_def)
    show "ref t3 h + of_nat (occ T h) = ref t h + of_nat (occ (psub pref (pfork kt T pt v)) h)" for h
      using ref_newSubTrie [OF s1, of h] ref_newSubTrie [OF s2, of h] e_occ [of h] s1_occ [of h]
      by (simp add: t3_def occ_psub occ_b algebra_simps)
  qed
  then show ?thesis using run put rr by auto
qed

lemma putIntoNode_refines:
  assumes "resolves L d n T" "d < fuel" "L = t_loader ops t" "canon T" "nibbles p"
  shows "\<exists>n' t'. putIntoNode ops fuel t n p v = (Inr n', t') \<and> tracks t t' (occ T) (occ (pput T p v))
    \<and> resolves L d n' (pput T p v)"
  using assms
proof (induction arbitrary: fuel t p rule: resolves.induct)
  case (res_Empty d)
  then show ?case
    by (auto simp: newSubTrie_def psub_def Let_def tracks_def)
next
  case (res_Leaf d w)
  have "canon (pput (LeafNode w) p v)" using res_Leaf by (simp add: canon_pput del: pput.simps)
  then have "resolves L d (pput (LeafNode w) p v) (pput (LeafNode w) p v)" by (rule resolves_self)
  moreover obtain t' where "putIntoLeaf t w p v = (Inr (pput (LeafNode w) p v), t')"
      "tracks t t' (occ (LeafNode w)) (occ (pput (LeafNode w) p v))"
    using putIntoLeaf_refines [OF res_Leaf.prems(4)] by blast
  ultimately show ?case unfolding putIntoNode.simps by blast
next
  case (res_Branch d cs Ts)
  have len: "length cs = 17" "length Ts = 17" "kids_ok Ts"
    using res_Branch by (auto simp: canon_Branch list_all2_lengthD dest: list_all2_lengthD)
  obtain i q where i: "splitPath p = (i, q)" "unat i < 17" "unat i = 16 \<longrightarrow> q = []" "nibbles q"
    using splitPath_nibbles [OF res_Branch.prems(4)] .
  have all: "list_all2 (resolves L d) cs Ts" using res_Branch.IH by (rule list_all2_mono) blast
  let ?t = "removeRef t (BranchNode cs)" and ?T = "pput (Ts ! unat i) q v"
  have "\<exists>n' t'. putIntoNode ops fuel ?t (cs ! unat i) q v = (Inr n', t')
      \<and> tracks ?t t' (occ (Ts ! unat i)) (occ ?T) \<and> resolves L d n' ?T"
    using list_all2_nthD [OF res_Branch.IH, THEN conjunct2, rule_format, of "unat i" fuel ?t q]
      res_Branch.prems(1,2) i len by simp
  then obtain n' t' where n': "putIntoNode ops fuel ?t (cs ! unat i) q v = (Inr n', t')"
      "tracks ?t t' (occ (Ts ! unat i)) (occ ?T)" "resolves L d n' ?T" by auto
  let ?b = "BranchNode (cs[unat i := n'])" and ?B = "BranchNode (Ts[unat i := ?T])"
  have res: "resolves L d ?b ?B" by (intro resolves.res_Branch resolves_update all n'(3))
  have "tracks t (addRef t' ?b) (occ (BranchNode Ts)) (occ ?B)"
    unfolding tracks_def
  proof (intro conjI allI)
    show "same_base t (addRef t' ?b)" using tracks_base [OF n'(2)] by simp
    fix h
    have "of_nat (kids_occ (Ts[unat i := ?T]) h) + of_nat (occ (Ts ! unat i) h) = of_nat (kids_occ Ts h) + (of_nat (occ ?T h) :: u32)"
      using kids_occ_update [of "unat i" Ts ?T h] i len by (metis of_nat_add)
    moreover have "ref t' h + of_nat (occ (Ts ! unat i) h) = ref t h - of_nat (self_occ (BranchNode Ts) h) + of_nat (occ ?T h)"
      using n'(2) self_occ_resolves [OF resolves.res_Branch [OF all]] by (simp add: tracks_def)
    ultimately show "ref (addRef t' ?b) h + of_nat (occ (BranchNode Ts) h) = ref t h + of_nat (occ ?B h)"
      using self_occ_resolves [OF res] unfolding ref_addRef occ_Branch of_nat_add by (simp only: node.distinct simp_thms balance)
  qed
  then show ?case using n' i len res by (auto simp: Let_def)
next
  case (res_Ext d n T key)
  show ?case
  proof (cases "HasPrefix p key")
    case True
    then obtain q where p: "p = key @ q" by (metis HasPrefix_take append_take_drop_id)
    let ?t = "removeRef t (ExtensionNode key n)"
    obtain n' t' where n': "putIntoNode ops fuel ?t n q v = (Inr n', t')" "tracks ?t t' (occ T) (occ (pput T q v))"
        "resolves L d n' (pput T q v)"
      using p res_Ext.IH [of fuel ?t q] res_Ext.prems by auto
    have "tracks t (addRef t' (ExtensionNode key n')) (occ (ExtensionNode key T)) (occ (ExtensionNode key (pput T q v)))"
      using n'(2) self_occ_resolves [OF resolves.res_Ext [OF res_Ext.hyps]] self_occ_resolves [OF resolves.res_Ext [OF n'(3)]]
      by (auto simp: tracks_def algebra_simps)
    then show ?thesis using True p n' by (auto simp: Let_def HasPrefix_take simp del: occ.simps)
  next
    case False
    let ?t = "removeRef t (ExtensionNode key n)"
    obtain n' t' where n': "splitExtension ?t key n p v = (Inr n', t')"
        "tracks ?t t' (occ T) (occ (pput (ExtensionNode key T) p v))" "resolves L d n' (pput (ExtensionNode key T) p v)"
      using splitExtension_refines [OF res_Ext.hyps res_Ext.prems(3,4) False, of ?t v] by auto
    have "tracks t t' (occ (ExtensionNode key T)) (occ (pput (ExtensionNode key T) p v))"
      using n'(2) self_occ_resolves [OF resolves.res_Ext [OF res_Ext.hyps]]
      by (auto simp: tracks_def algebra_simps simp del: pput.simps)
    then show ?thesis using False n' by (auto simp: Let_def simp del: pput.simps occ.simps)
  qed
next
  case (res_Hash h n T d)
  obtain f where f: "fuel = Suc f" "d < f" using res_Hash.prems(1) by (cases fuel) auto
  obtain t1 where t1: "t_getFromStore ops t h = (Inr n, t1)" "same_base t t1"
    using res_Hash.hyps(1) res_Hash.prems(2) by (auto elim: t_getFromStore_loader)
  have L: "L = t_loader ops t1" using res_Hash.prems(2) t_loader_same_base [OF t1(2)] by metis
  show ?case
    using res_Hash.IH [OF f(2) L res_Hash.prems(3,4)] f t1 ref_getFromStore [OF t1(1)]
    by (auto intro: tracks_loaded elim!: resolves_mono)
qed

section \<open>Deletion refines deletion\<close>

lemma resolves_nonempty_idx: "list_all2 (resolves L d) cs Ts \<Longrightarrow> nonempty_idx cs = nonempty_idx Ts"
  unfolding nonempty_idx_def
  by (intro filter_cong) (simp_all add: list_all2_lengthD, metis list_all2_nthD2 resolves_isEmpty)

text \<open>The result of a deletion is a hash node only where it stands for a leaf.\<close>

definition del_result ::
  "(hash256 \<Rightarrow> node option) \<Rightarrow> nat \<Rightarrow> 's trie \<Rightarrow> (hash256 \<Rightarrow> nat) \<Rightarrow> node \<Rightarrow> (trie_err option \<times> node) \<times> 's trie \<Rightarrow> bool" where
  "del_result L d t f T res \<longleftrightarrow> (\<exists>n' t'. res = ((None, n'), t') \<and> tracks t t' f (occ T) \<and> resolves L d n' T
     \<and> (\<forall>h. n' = HashNode h \<longrightarrow> (\<exists>v. T = LeafNode v)))"

lemma del_resultI:
  "tracks t t' f (occ T) \<Longrightarrow> resolves L d n' T \<Longrightarrow> (\<And>h. n' = HashNode h \<Longrightarrow> \<exists>v. T = LeafNode v)
     \<Longrightarrow> del_result L d t f T ((None, n'), t')"
  by (auto simp: del_result_def)

lemma del_result_weaken:
  "del_result L d t1 f T res \<Longrightarrow> same_base t t1 \<Longrightarrow> ref t1 = ref t \<Longrightarrow> d \<le> d' \<Longrightarrow> del_result L d' t f T res"
  unfolding del_result_def by (elim exE conjE) (auto intro: tracks_loaded resolves_mono)

lemma pext_cases:
  "proper T \<Longrightarrow> pext key T = (case T of ExtensionNode k n \<Rightarrow> ExtensionNode (key @ k) n | _ \<Rightarrow> ExtensionNode key T)"
  by (cases T) auto

lemma shrinkBranch_refines:
  assumes "list_all2 (resolves L d) cs Ts" "kids_ok Ts" "nonempty_idx Ts \<noteq> []" "L = t_loader ops t"
  shows "del_result L d t (kids_occ Ts) (pstrip Ts) (shrinkBranch ops t cs)"
proof (cases "1 < length (nonempty_idx Ts)")
  case True
  then obtain i j ks where "nonempty_idx Ts = i # j # ks"
    by (metis One_nat_def list.exhaust list.size(3,4) less_irrefl not_less0 plus_1_eq_Suc add.commute)
  moreover have "tracks t (addRef t (BranchNode cs)) (kids_occ Ts) (occ (BranchNode Ts))"
    using self_occ_resolves [OF resolves.res_Branch [OF assms(1)]] by (simp add: tracks_def occ_Branch)
  ultimately show ?thesis using assms(1)
    by (auto simp: shrinkBranch_def Let_def resolves_nonempty_idx [OF assms(1)] pstrip_def intro!: del_resultI)
next
  case False
  then obtain i where i: "nonempty_idx Ts = [i]"
    using assms(3) by (cases "nonempty_idx Ts") (auto simp: less_Suc_eq_0_disj)
  have len: "length cs = 17" "length Ts = 17" using assms(1,2) by (auto dest: list_all2_lengthD)
  note one = nonempty_idx_one [OF i]
  have r: "resolves L d (cs ! i) (Ts ! i)" using assms(1) one(1) len by (simp add: resolves_nth)
  have kids: "kids_occ Ts h = occ (Ts ! i) h" for h
    using one(1,3) by (rule kids_occ_one)
  show ?thesis
  proof (cases "i = 16")
    case True
    then obtain v where "Ts ! 16 = LeafNode v"
      using one(2) kids_ok_last [OF assms(2)] by (auto elim: is_leaf_or_empty.elims)
    moreover have "kids_occ Ts = occ (Ts ! 16)" using kids True by (simp add: fun_eq_iff)
    ultimately show ?thesis using r True i
      by (auto simp: shrinkBranch_def Let_def resolves_nonempty_idx [OF assms(1)] pstrip_def intro!: del_resultI)
  next
    case False
    obtain c t1 where c: "loadChild ops t (cs ! i) = (Inr c, t1)"
        "same_base t t1" "ref t1 = ref t" "resolves L d c (Ts ! i)" "proper c"
    proof (cases "\<exists>h. cs ! i = HashNode h")
      case True
      then obtain h where h: "cs ! i = HashNode h" by blast
      with r obtain n d0 where n: "L h = Some n" "proper n" "resolves L d0 n (Ts ! i)" "d = Suc d0"
        by (auto elim: res_HashE)
      then obtain t1 where "t_getFromStore ops t h = (Inr n, t1)" "same_base t t1"
        using assms(4) by (auto elim: t_getFromStore_loader)
      moreover have "resolves L d n (Ts ! i)" using n by (auto elim: resolves_mono)
      ultimately show ?thesis using that [of n t1] n h ref_getFromStore [of ops t h] by (simp add: loadChild_def)
    next
      case False
      moreover have "cs ! i \<noteq> EmptyNode" using r one(2) resolves_empty by blast
      ultimately show ?thesis using that [of "cs ! i" t] r by (cases "cs ! i") (auto simp: loadChild_def)
    qed
    have "proper (Ts ! i)" using c(4,5) resolves_proper by blast
    then have strip: "pstrip Ts = (case Ts ! i of
        ExtensionNode k n \<Rightarrow> ExtensionNode (of_nat i # k) n | _ \<Rightarrow> ExtensionNode [of_nat i] (Ts ! i))"
      using i False by (simp add: pstrip_def pext_cases split: node.splits)
    have ext_case: ?thesis if "\<forall>k n. c \<noteq> ExtensionNode k n" "pstrip Ts = ExtensionNode [of_nat i] (Ts ! i)"
    proof -
      let ?e = "ExtensionNode [of_nat i] c"
      have "shrinkBranch ops t cs = ((None, ?e), addRef t1 ?e)"
        using c(1) False that(1)
        by (simp add: shrinkBranch_def Let_def resolves_nonempty_idx [OF assms(1)] i split: node.splits)
      moreover have "tracks t (addRef t1 ?e) (kids_occ Ts) (occ (pstrip Ts))"
        using c(2,3) kids self_occ_resolves [OF resolves.res_Ext [OF c(4), of "[of_nat i]"]] that(2)
        by (simp add: tracks_def)
      ultimately show ?thesis using c(4) that(2) by (auto intro!: del_resultI)
    qed
    show ?thesis
    proof (cases c)
      case (ExtensionNode key nxt)
      then obtain T where T: "Ts ! i = ExtensionNode key T" "resolves L d nxt T" using c(4) by auto
      let ?e = "ExtensionNode (of_nat i # key) nxt"
      have "tracks t (addRef (removeRef t1 c) ?e) (kids_occ Ts) (occ (pstrip Ts))"
        using T c(2,3) kids self_occ_resolves [OF c(4)] self_occ_resolves [OF resolves.res_Ext [OF T(2), of "of_nat i # key"]]
          ExtensionNode strip by (auto simp: tracks_def)
      then show ?thesis
        using c False strip T ExtensionNode
        by (auto simp: shrinkBranch_def Let_def resolves_nonempty_idx [OF assms(1)] i intro!: del_resultI)
    next
      case other: (LeafNode v)
      then have "pstrip Ts = ExtensionNode [of_nat i] (Ts ! i)" using c(4) strip by auto
      then show ?thesis using ext_case other by simp
    next
      case other: (BranchNode cs')
      then have "pstrip Ts = ExtensionNode [of_nat i] (Ts ! i)" using c(4) strip by auto
      then show ?thesis using ext_case other by simp
    qed (use c(5) in auto)
  qed
qed

lemma deleteFromNode_refines:
  assumes "resolves L d n T" "d < fuel" "L = t_loader ops t" "canon T" "nibbles p"
  shows "del_result L d t (occ T) (pdel T p) (deleteFromNode ops fuel t n p)"
  using assms
proof (induction arbitrary: fuel t p rule: resolves.induct)
  case (res_Branch d cs Ts)
  have len: "length cs = 17" "length Ts = 17" "kids_ok Ts"
    using res_Branch by (auto simp: canon_Branch list_all2_lengthD dest: list_all2_lengthD)
  obtain i q where i: "splitPath p = (i, q)" "unat i < 17" "unat i = 16 \<longrightarrow> q = []" "nibbles q"
    using splitPath_nibbles [OF res_Branch.prems(4)] .
  have all: "list_all2 (resolves L d) cs Ts" using res_Branch.IH by (rule list_all2_mono) blast
  let ?T = "pdel (Ts ! unat i) q"
  have "del_result L d t (occ (Ts ! unat i)) ?T (deleteFromNode ops fuel t (cs ! unat i) q)"
    using list_all2_nthD [OF res_Branch.IH, THEN conjunct2, rule_format, of "unat i" fuel t q]
      res_Branch.prems(1,2) i len by simp
  then obtain c t1 where c: "deleteFromNode ops fuel t (cs ! unat i) q = ((None, c), t1)"
      "tracks t t1 (occ (Ts ! unat i)) (occ ?T)" "resolves L d c ?T"
    by (auto simp: del_result_def)
  let ?t = "removeRef t1 (BranchNode cs)"
  have kids: "kids_ok (Ts[unat i := pdel (Ts ! unat i) q])"
    using i len by (intro kids_ok_pdel) (simp_all add: canon_pdel)
  have "2 \<le> length (nonempty_idx Ts)" using res_Branch.prems(3) by (simp add: canon_Branch)
  then obtain j where "j < 17" "j \<noteq> unat i" "Ts ! j \<noteq> EmptyNode"
    using len unfolding two_nonempty by metis
  then have ne: "nonempty_idx (Ts[unat i := pdel (Ts ! unat i) q]) \<noteq> []"
    using nonempty_idx_Nil [of "Ts[unat i := pdel (Ts ! unat i) q]" j] len by auto
  have "L = t_loader ops ?t" using res_Branch.prems(2) t_loader_same_base [OF tracks_base [OF c(2)]] by simp
  then have "del_result L d ?t (kids_occ (Ts[unat i := ?T])) (pstrip (Ts[unat i := ?T])) (shrinkBranch ops ?t (cs[unat i := c]))"
    by (rule shrinkBranch_refines [OF resolves_update [OF all c(3)] kids ne])
  then obtain n' t' where n': "shrinkBranch ops ?t (cs[unat i := c]) = ((None, n'), t')"
      "tracks ?t t' (kids_occ (Ts[unat i := ?T])) (occ (pstrip (Ts[unat i := ?T])))"
      "resolves L d n' (pstrip (Ts[unat i := ?T]))" "\<And>h. n' = HashNode h \<Longrightarrow> \<exists>v. pstrip (Ts[unat i := ?T]) = LeafNode v"
    unfolding del_result_def by blast
  have "tracks t t' (occ (BranchNode Ts)) (occ (pstrip (Ts[unat i := ?T])))"
    unfolding tracks_def
  proof (intro conjI allI)
    show "same_base t t'" using tracks_base [OF n'(2)] tracks_base [OF c(2)] by (auto intro: same_base_trans)
    fix h
    have k: "of_nat (kids_occ (Ts[unat i := ?T]) h) + of_nat (occ (Ts ! unat i) h) = of_nat (kids_occ Ts h) + (of_nat (occ ?T h) :: u32)"
      using kids_occ_update [of "unat i" Ts ?T h] i len by (metis of_nat_add)
    have t1: "ref t1 h + of_nat (occ (Ts ! unat i) h) = ref t h + of_nat (occ ?T h)"
      using c(2) by (simp add: tracks_def)
    have t': "ref t' h + of_nat (kids_occ (Ts[unat i := ?T]) h)
        = ref t1 h - of_nat (self_occ (BranchNode Ts) h) + of_nat (occ (pstrip (Ts[unat i := ?T])) h)"
      using n'(2) self_occ_resolves [OF resolves.res_Branch [OF all]] by (simp add: tracks_def)
    show "ref t' h + of_nat (occ (BranchNode Ts) h) = ref t h + of_nat (occ (pstrip (Ts[unat i := ?T])) h)"
      unfolding occ_Branch of_nat_add by (rule balance2 [OF k t1 t'])
  qed
  then show ?case using i len c n' by (auto intro!: del_resultI)
next
  case (res_Ext d n T key)
  show ?case
  proof (cases "HasPrefix p key")
    case True
    then obtain q where p: "p = key @ q" by (metis HasPrefix_take append_take_drop_id)
    obtain r t1 where r: "deleteFromNode ops fuel t n q = ((None, r), t1)" "tracks t t1 (occ T) (occ (pdel T q))"
        "resolves L d r (pdel T q)" "\<And>h. r = HashNode h \<Longrightarrow> \<exists>v. pdel T q = LeafNode v"
      using p res_Ext.IH [of fuel t q] res_Ext.prems by (auto simp: del_result_def)
    have old: "self_occ (ExtensionNode key n) h = self_occ (ExtensionNode key T) h" for h
      using self_occ_resolves [OF resolves.res_Ext [OF res_Ext.hyps]] by simp
    have other: "del_result L d t (occ (ExtensionNode key T)) (ExtensionNode key (pdel T q))
        ((None, ExtensionNode key r), addRef (removeRef t1 (ExtensionNode key n)) (ExtensionNode key r))"
      using r(2,3) old self_occ_resolves [OF resolves.res_Ext [OF r(3)]]
      by (intro del_resultI) (auto simp: tracks_def algebra_simps)
    show ?thesis
    proof (cases r)
      case (ExtensionNode k' n')
      then obtain T' where T': "pdel T q = ExtensionNode k' T'" "resolves L d n' T'" using r(3) by auto
      have "self_occ r h = self_occ (ExtensionNode k' T') h" for h
        using self_occ_resolves [OF r(3)] ExtensionNode T' by simp
      then show ?thesis
        using r(1,2) True p ExtensionNode T' old self_occ_resolves [OF resolves.res_Ext [OF T'(2), of "key @ k'"]]
        by (auto simp: HasPrefix_take Let_def tracks_def algebra_simps intro!: del_resultI)
    next
      case EmptyNode
      then have "pdel T q = EmptyNode" using r(3) by auto
      then show ?thesis using r(1,2) True p EmptyNode old
        by (auto simp: HasPrefix_take Let_def tracks_def algebra_simps intro!: del_resultI)
    next
      case (HashNode h)
      with r(4) obtain v where "pdel T q = LeafNode v" by blast
      then show ?thesis using r(1) other True p HashNode by (simp add: HasPrefix_take Let_def del: occ.simps)
    next
      case (LeafNode v)
      then have "pdel T q = LeafNode v" using r(3) by auto
      then show ?thesis using r(1) other True p LeafNode by (simp add: HasPrefix_take Let_def del: occ.simps)
    next
      case (BranchNode bs)
      then obtain Bs where "pdel T q = BranchNode Bs" using r(3) by auto
      then show ?thesis using r(1) other True p BranchNode by (simp add: HasPrefix_take Let_def del: occ.simps)
    qed
  next
    case False
    then show ?thesis using res_Ext.hyps by (auto simp: HasPrefix_take intro!: del_resultI simp del: occ.simps)
  qed
next
  case (res_Hash h n T d)
  obtain f where f: "fuel = Suc f" "d < f" using res_Hash.prems(1) by (cases fuel) auto
  obtain t1 where t1: "t_getFromStore ops t h = (Inr n, t1)" "same_base t t1"
    using res_Hash.hyps(1) res_Hash.prems(2) by (auto elim: t_getFromStore_loader)
  have L: "L = t_loader ops t1" using res_Hash.prems(2) t_loader_same_base [OF t1(2)] by metis
  show ?case
    using res_Hash.IH [OF f(2) L res_Hash.prems(3,4)] f t1 ref_getFromStore [OF t1(1)]
    by (auto simp: del_result_def intro: tracks_loaded elim!: resolves_mono)
qed (auto intro!: del_resultI simp: tracks_def)

end
