(* ===== verification/MptMap.thy ===== *)
theory MptMap
  imports MptRefine
begin

text \<open>
  What the trie promises: it is a map from keys to values whose root hash is a function of the map.
  The locale \<open>auth_map\<close> states the contract for any authenticated map; its consequences for runs of
  operations are proved there, and the trie of \<open>MptTrie\<close> is an instance.
\<close>

section \<open>Authenticated maps\<close>

datatype ('k, 'v) map_op = MPut 'k 'v | MDel 'k | MGet 'k

fun apply_op :: "('k, 'v) map_op \<Rightarrow> ('k \<rightharpoonup> 'v) \<Rightarrow> ('k \<rightharpoonup> 'v)" where
  "apply_op (MPut k v) m = m(k \<mapsto> v)"
| "apply_op (MDel k) m = m(k := None)"
| "apply_op (MGet k) m = m"

text \<open>One operation on a state \<open>'t\<close>; \<open>None\<close> when \<open>Put\<close> or \<open>Delete\<close> reports an error.\<close>

fun exec_op ::
  "('t \<Rightarrow> 'k \<Rightarrow> ('e + 'v) \<times> 't) \<Rightarrow> ('t \<Rightarrow> 'k \<Rightarrow> 'v \<Rightarrow> 'e option \<times> 't) \<Rightarrow> ('t \<Rightarrow> 'k \<Rightarrow> 'e option \<times> 't)
     \<Rightarrow> ('k, 'v) map_op \<Rightarrow> 't \<Rightarrow> 't option" where
  "exec_op get put del (MPut k v) t = (case put t k v of (None, t') \<Rightarrow> Some t' | (Some e, t') \<Rightarrow> None)"
| "exec_op get put del (MDel k) t = (case del t k of (None, t') \<Rightarrow> Some t' | (Some e, t') \<Rightarrow> None)"
| "exec_op get put del (MGet k) t = Some (snd (get t k))"

primrec run_ops ::
  "('t \<Rightarrow> 'k \<Rightarrow> ('e + 'v) \<times> 't) \<Rightarrow> ('t \<Rightarrow> 'k \<Rightarrow> 'v \<Rightarrow> 'e option \<times> 't) \<Rightarrow> ('t \<Rightarrow> 'k \<Rightarrow> 'e option \<times> 't)
     \<Rightarrow> ('k, 'v) map_op list \<Rightarrow> 't \<Rightarrow> 't option" where
  "run_ops get put del [] t = Some t"
| "run_ops get put del (x # xs) t =
    (case exec_op get put del x t of None \<Rightarrow> None | Some t' \<Rightarrow> run_ops get put del xs t')"

fun op_ok :: "('k \<Rightarrow> bool) \<Rightarrow> ('k \<Rightarrow> 'v \<Rightarrow> bool) \<Rightarrow> ('k, 'v) map_op \<Rightarrow> bool" where
  "op_ok kok pok (MPut k v) \<longleftrightarrow> pok k v"
| "op_ok kok pok (MDel k) \<longleftrightarrow> kok k"
| "op_ok kok pok (MGet k) \<longleftrightarrow> kok k"

locale auth_map =
  fixes get :: "'t \<Rightarrow> 'k \<Rightarrow> ('e + 'v) \<times> 't"
    and put :: "'t \<Rightarrow> 'k \<Rightarrow> 'v \<Rightarrow> 'e option \<times> 't"
    and del :: "'t \<Rightarrow> 'k \<Rightarrow> 'e option \<times> 't"
    and root :: "'t \<Rightarrow> 'r"
    and missing :: 'e
    and rep :: "'t \<Rightarrow> ('k \<rightharpoonup> 'v) \<Rightarrow> bool"
    and kok :: "'k \<Rightarrow> bool"
    and pok :: "'k \<Rightarrow> 'v \<Rightarrow> bool"
  assumes get_rep: "rep t m \<Longrightarrow> kok k \<Longrightarrow>
      \<exists>t'. get t k = (case m k of Some v \<Rightarrow> Inr v | None \<Rightarrow> Inl missing, t') \<and> rep t' m"
    and put_rep: "rep t m \<Longrightarrow> pok k v \<Longrightarrow> \<exists>t'. put t k v = (None, t') \<and> rep t' (m(k \<mapsto> v))"
    and del_rep: "rep t m \<Longrightarrow> kok k \<Longrightarrow> \<exists>t'. del t k = (None, t') \<and> rep t' (m(k := None))"
    and root_rep: "rep t m \<Longrightarrow> rep t' m \<Longrightarrow> root t = root t'"
begin

lemma exec_rep:
  assumes "rep t m" "op_ok kok pok x"
  shows "\<exists>t'. exec_op get put del x t = Some t' \<and> rep t' (apply_op x m)"
proof (cases x)
  case (MPut k v)
  then show ?thesis using put_rep [OF assms(1), of k v] assms(2) by auto
next
  case (MDel k)
  then show ?thesis using del_rep [OF assms(1), of k] assms(2) by auto
next
  case (MGet k)
  then show ?thesis using get_rep [OF assms(1), of k] assms(2) by auto
qed

lemma run_rep:
  "rep t m \<Longrightarrow> list_all (op_ok kok pok) xs \<Longrightarrow>
   \<exists>t'. run_ops get put del xs t = Some t' \<and> rep t' (fold apply_op xs m)"
proof (induction xs arbitrary: t m)
  case (Cons x xs)
  then obtain t1 where "exec_op get put del x t = Some t1" "rep t1 (apply_op x m)"
    using exec_rep [of t m x] by auto
  then show ?case using Cons.IH [of t1 "apply_op x m"] Cons.prems(2) by auto
qed simp

lemma get_after_run:
  assumes "rep t m" "list_all (op_ok kok pok) xs" "kok k"
  shows "\<exists>t'. run_ops get put del xs t = Some t'
    \<and> fst (get t' k) = (case fold apply_op xs m k of Some v \<Rightarrow> Inr v | None \<Rightarrow> Inl missing)"
proof -
  obtain t' where run: "run_ops get put del xs t = Some t'" "rep t' (fold apply_op xs m)"
    using run_rep [OF assms(1,2)] by blast
  from get_rep [OF run(2) assms(3)] have
    "fst (get t' k) = (case fold apply_op xs m k of Some v \<Rightarrow> Inr v | None \<Rightarrow> Inl missing)" by auto
  with run(1) show ?thesis by blast
qed

lemma root_of_run:
  assumes "rep t m" "list_all (op_ok kok pok) xs" "run_ops get put del xs t = Some t1"
    and "rep t2 (fold apply_op xs m)"
  shows "root t1 = root t2"
proof -
  from run_rep [OF assms(1,2)] assms(3) have "rep t1 (fold apply_op xs m)" by auto
  then show ?thesis using assms(4) by (rule root_rep)
qed

end

section \<open>The trie as a map\<close>

definition key_ok :: "bytes \<Rightarrow> bool" where
  "key_ok k \<longleftrightarrow> length k \<le> MaxKeyLength"

definition put_ok :: "bytes \<Rightarrow> bytes \<Rightarrow> bool" where
  "put_ok k v \<longleftrightarrow> k \<noteq> [] \<and> length k \<le> MaxKeyLength \<and> length v \<le> MaxValueLength"

text \<open>The hash-free trie \<open>T\<close> holds the map \<open>m\<close>.\<close>

definition tree_holds :: "node \<Rightarrow> (bytes \<rightharpoonup> bytes) \<Rightarrow> bool" where
  "tree_holds T m \<longleftrightarrow> canon T \<and> (\<forall>k. m k = plook T (toNibbles k))
     \<and> (\<forall>p. nibbles p \<longrightarrow> plook T p \<noteq> None \<longrightarrow> (\<exists>k. p = toNibbles k \<and> key_ok k))
     \<and> (\<forall>k v. m k = Some v \<longrightarrow> length v \<le> MaxValueLength)"

definition trie_rep :: "'s store_ops \<Rightarrow> nat \<Rightarrow> 's trie \<Rightarrow> (bytes \<rightharpoonup> bytes) \<Rightarrow> bool" where
  "trie_rep ops d t m \<longleftrightarrow> (\<exists>T. resolves (t_loader ops t) d (t_root t) T \<and> tree_holds T m)"

lemma tree_holds_put:
  assumes "tree_holds T m" "put_ok k v"
  shows "tree_holds (pput T (toNibbles k) v) (m(k \<mapsto> v))"
  using assms unfolding tree_holds_def put_ok_def key_ok_def
  by (auto simp: canon_pput plook_pput split: if_splits)

lemma tree_holds_del:
  assumes "tree_holds T m"
  shows "tree_holds (pdel T (toNibbles k)) (m(k := None))"
  using assms unfolding tree_holds_def
  by (auto simp: canon_pdel plook_pdel split: if_splits)

lemma tree_holds_unique:
  assumes "tree_holds T m" "tree_holds T' m"
  shows "T = T'"
proof (rule canon_unique)
  show "same_content T T'" unfolding same_content_def
  proof (intro allI impI)
    fix p assume p: "nibbles p"
    have "plook T p = plook T' p" if "p = toNibbles k" for k
      using assms that by (metis tree_holds_def)
    then show "plook T p = plook T' p"
      using assms p unfolding tree_holds_def by (metis)
  qed
qed (use assms in \<open>auto simp: tree_holds_def\<close>)

lemma trie_Get_rep:
  assumes "trie_rep ops d t m" "d < fuel" "key_ok k"
  shows "\<exists>t'. trie_Get ops fuel t k = (case m k of Some v \<Rightarrow> Inr v | None \<Rightarrow> Inl ErrNotFound, t') \<and> trie_rep ops d t' m"
proof -
  obtain T where T: "resolves (t_loader ops t) d (t_root t) T" "tree_holds T m"
    using assms(1) by (auto simp: trie_rep_def)
  then have m: "canon T" "m k = plook T (toNibbles k)" by (auto simp: tree_holds_def)
  note g = getWithPath_refines [OF T(1) assms(2) refl m(1), of "toNibbles k"]
  show ?thesis
  proof (cases "m k")
    case None
    then obtain t' where t': "getWithPath ops fuel t (t_root t) (toNibbles k) True = (Inl ErrNotFound, t')"
      "same_base t t'" using g m by auto
    have "trie_Get ops fuel t k = (Inl ErrNotFound, t')"
      using t' assms(3) by (simp add: trie_Get_def key_ok_def)
    moreover have "trie_rep ops d t' m" using assms(1) t'(2) by (simp add: trie_rep_def same_base_def)
    ultimately show ?thesis using None by simp
  next
    case (Some v)
    then obtain n' q t' where t': "getWithPath ops fuel t (t_root t) (toNibbles k) True = (Inr (n', LeafNode v, q), t')"
      "same_base t t'" "resolves (t_loader ops t) d n' T" using g m by auto
    have "trie_Get ops fuel t k = (Inr v, t'\<lparr>t_root := n'\<rparr>)"
      using t' assms(3) by (simp add: trie_Get_def key_ok_def)
    moreover have "trie_rep ops d (t'\<lparr>t_root := n'\<rparr>) m"
      using t' T(2) t_loader_same_base [OF t'(2)] by (auto simp: trie_rep_def)
    ultimately show ?thesis using Some by simp
  qed
qed

lemma trie_Put_rep:
  assumes "trie_rep ops d t m" "d < fuel" "put_ok k v"
  shows "\<exists>t'. trie_Put ops fuel t k (Some v) = (None, t') \<and> trie_rep ops d t' (m(k \<mapsto> v))"
proof -
  obtain T where T: "resolves (t_loader ops t) d (t_root t) T" "tree_holds T m"
    using assms(1) by (auto simp: trie_rep_def)
  then have "canon T" by (auto simp: tree_holds_def)
  then obtain n' t' where p: "putIntoNode ops fuel t (t_root t) (toNibbles k) v = (Inr n', t')" "tracks t t' (occ T) (occ (pput T (toNibbles k) v))"
      "resolves (t_loader ops t) d n' (pput T (toNibbles k) v)"
    using putIntoNode_refines [OF T(1) assms(2) refl, of "toNibbles k" v] by auto
  have "trie_Put ops fuel t k (Some v) = (None, t'\<lparr>t_root := n'\<rparr>)"
    using p(1) assms(3) by (simp add: trie_Put_def put_ok_def)
  moreover have "trie_rep ops d (t'\<lparr>t_root := n'\<rparr>) (m(k \<mapsto> v))"
    using tracks_base [OF p(2)] p(3) tree_holds_put [OF T(2) assms(3)] by (auto simp: trie_rep_def same_base_def)
  ultimately show ?thesis by blast
qed

lemma trie_Delete_rep:
  assumes "trie_rep ops d t m" "d < fuel" "key_ok k"
  shows "\<exists>t'. trie_Delete ops fuel t k = (None, t') \<and> trie_rep ops d t' (m(k := None))"
proof -
  obtain T where T: "resolves (t_loader ops t) d (t_root t) T" "tree_holds T m"
    using assms(1) by (auto simp: trie_rep_def)
  then have "canon T" by (auto simp: tree_holds_def)
  then obtain n' t' where p: "deleteFromNode ops fuel t (t_root t) (toNibbles k) = ((None, n'), t')" "tracks t t' (occ T) (occ (pdel T (toNibbles k)))"
      "resolves (t_loader ops t) d n' (pdel T (toNibbles k))"
    using deleteFromNode_refines [OF T(1) assms(2) refl, of "toNibbles k"] by (auto simp: del_result_def)
  have "trie_Delete ops fuel t k = (None, t'\<lparr>t_root := n'\<rparr>)"
    using p(1) assms(3) by (simp add: trie_Delete_def key_ok_def)
  moreover have "trie_rep ops d (t'\<lparr>t_root := n'\<rparr>) (m(k := None))"
    using tracks_base [OF p(2)] p(3) tree_holds_del [OF T(2)] by (auto simp: trie_rep_def same_base_def)
  ultimately show ?thesis by blast
qed

lemma StateRoot_rep:
  assumes "resolves L d (t_root t) T"
  shows "StateRoot t = (if T = EmptyNode then replicate 32 0 else node_Hash T)"
  using resolves_hash [OF assms] resolves_empty [OF assms]
  by (cases "t_root t") (auto simp: StateRoot_def)

lemma StateRoot_same:
  assumes "trie_rep ops d t m" "trie_rep ops' d' t' m"
  shows "StateRoot t = StateRoot t'"
  using assms by (auto simp: trie_rep_def StateRoot_rep dest: tree_holds_unique)

interpretation trie: auth_map "trie_Get ops (Suc d)" "\<lambda>t k v. trie_Put ops (Suc d) t k (Some v)"
  "trie_Delete ops (Suc d)" StateRoot ErrNotFound "trie_rep ops d" key_ok put_ok
  for ops :: "'s store_ops" and d
proof unfold_locales
  show "\<exists>t'. trie_Get ops (Suc d) t k = (case m k of None \<Rightarrow> Inl ErrNotFound | Some v \<Rightarrow> Inr v, t') \<and> trie_rep ops d t' m"
    if "trie_rep ops d t m" "key_ok k" for t m k
    using trie_Get_rep [OF that(1) lessI that(2)] by (simp add: case_map_option option.case_distrib split: option.splits)
qed (auto intro: trie_Put_rep trie_Delete_rep StateRoot_same)

lemma NewTrie_rep: "trie_rep ops d (NewTrie None mode store) Map.empty"
  by (auto simp: trie_rep_def NewTrie_def tree_holds_def intro!: exI [of _ EmptyNode])

section \<open>Properties\<close>

text \<open>C10. \<open>Put\<close> of a key and value within the limits succeeds on every trie whose hash nodes can be
  resolved, whatever mixture of loaded and stored nodes it is, and a later \<open>Get\<close> finds the value under
  that key and everything else unchanged.\<close>

theorem trie_Put_Get:
  assumes "trie_rep ops d t m" and "d < fuel" and "put_ok k v" and "key_ok k'"
  shows "\<exists>t1. trie_Put ops fuel t k (Some v) = (None, t1) \<and> trie_rep ops d t1 (m(k \<mapsto> v))
    \<and> fst (trie_Get ops fuel t1 k') = (if k' = k then Inr v else fst (trie_Get ops fuel t k'))"
proof -
  obtain t1 where t1: "trie_Put ops fuel t k (Some v) = (None, t1)" "trie_rep ops d t1 (m(k \<mapsto> v))"
    using trie_Put_rep [OF assms(1-3)] by blast
  with trie_Get_rep [OF t1(2) assms(2,4)] trie_Get_rep [OF assms(1,2,4)] show ?thesis by auto
qed

theorem trie_Put_Get_witness:
  "\<exists>t1. trie_Put mem_ops 1 (NewTrie None ModeAll (NewMemCachedStore NewMemoryStore)) [0x12] (Some [7]) = (None, t1)
    \<and> fst (trie_Get mem_ops 1 t1 [0x12]) = Inr [7]"
  using trie_Put_Get [OF NewTrie_rep, of 0 1 "[0x12]" "[7]" "[0x12]" mem_ops ModeAll "NewMemCachedStore NewMemoryStore"]
  by (auto simp: put_ok_def key_ok_def MaxKeyLength_def maxPathLength_def MaxValueLength_def)

text \<open>C11. \<open>Delete\<close> removes exactly the given key, returns no error when it is missing, and brings the trie
  back to canonical form.\<close>

theorem trie_Delete_Get:
  assumes "trie_rep ops d t m" and "d < fuel" and "key_ok k" and "key_ok k'"
  shows "\<exists>t1. trie_Delete ops fuel t k = (None, t1) \<and> trie_rep ops d t1 (m(k := None))
    \<and> fst (trie_Get ops fuel t1 k') = (if k' = k then Inl ErrNotFound else fst (trie_Get ops fuel t k'))"
proof -
  obtain t1 where t1: "trie_Delete ops fuel t k = (None, t1)" "trie_rep ops d t1 (m(k := None))"
    using trie_Delete_rep [OF assms(1-3)] by blast
  with trie_Get_rep [OF t1(2) assms(2,4)] trie_Get_rep [OF assms(1,2,4)] show ?thesis by auto
qed

theorem trie_Delete_Get_witness:
  "\<exists>t1. trie_Delete mem_ops 1 (NewTrie None ModeAll (NewMemCachedStore NewMemoryStore)) [0x12] = (None, t1)
    \<and> fst (trie_Get mem_ops 1 t1 [0x12]) = Inl ErrNotFound"
  using trie_Delete_Get [OF NewTrie_rep, of 0 1 "[0x12]" "[0x12]" mem_ops ModeAll "NewMemCachedStore NewMemoryStore"]
  by (auto simp: key_ok_def MaxKeyLength_def maxPathLength_def)

text \<open>C12. The state root is a function of the content: two runs of \<open>Put\<close>, \<open>Delete\<close> and \<open>Get\<close> on empty
  tries, in any mode and over any store, that end with the same keys and values end with the same
  root hash, whatever the order and the detours.\<close>

theorem trie_history_independent:
  assumes "list_all (op_ok key_ok put_ok) xs" and "list_all (op_ok key_ok put_ok) ys"
    and "fold apply_op xs Map.empty = fold apply_op ys Map.empty"
  shows "\<exists>t1 t2.
      run_ops (trie_Get ops 1) (\<lambda>t k v. trie_Put ops 1 t k (Some v)) (trie_Delete ops 1) xs (NewTrie None mode store) = Some t1
    \<and> run_ops (trie_Get ops' 1) (\<lambda>t k v. trie_Put ops' 1 t k (Some v)) (trie_Delete ops' 1) ys (NewTrie None mode' store') = Some t2
    \<and> StateRoot t1 = StateRoot t2"
proof -
  obtain t1 where t1: "run_ops (trie_Get ops 1) (\<lambda>t k v. trie_Put ops 1 t k (Some v)) (trie_Delete ops 1) xs
      (NewTrie None mode store) = Some t1" "trie_rep ops 0 t1 (fold apply_op xs Map.empty)"
    using trie.run_rep [where d = 0, OF NewTrie_rep assms(1), of ops mode store] by auto
  obtain t2 where t2: "run_ops (trie_Get ops' 1) (\<lambda>t k v. trie_Put ops' 1 t k (Some v)) (trie_Delete ops' 1) ys
      (NewTrie None mode' store') = Some t2" "trie_rep ops' 0 t2 (fold apply_op ys Map.empty)"
    using trie.run_rep [where d = 0, OF NewTrie_rep assms(2), of ops' mode' store'] by auto
  show ?thesis using t1 t2 StateRoot_same [OF t1(2)] assms(3) by auto
qed

theorem trie_history_independent_witness:
  "\<exists>t1 t2.
      run_ops (trie_Get mem_ops 1) (\<lambda>t k v. trie_Put mem_ops 1 t k (Some v)) (trie_Delete mem_ops 1)
        [MPut [0x12] [7], MPut [0x13] [8]] (NewTrie None ModeAll (NewMemCachedStore NewMemoryStore)) = Some t1
    \<and> run_ops (trie_Get mem_ops 1) (\<lambda>t k v. trie_Put mem_ops 1 t k (Some v)) (trie_Delete mem_ops 1)
        [MPut [0x13] [8], MPut [0x44] [9], MPut [0x12] [7], MDel [0x44]] (NewTrie None ModeGC (NewMemCachedStore NewMemoryStore)) = Some t2
    \<and> StateRoot t1 = StateRoot t2"
  by (rule trie_history_independent)
    (auto simp: put_ok_def key_ok_def MaxKeyLength_def maxPathLength_def MaxValueLength_def fun_eq_iff)

text \<open>The reference counts a run of operations leaves pending.\<close>

definition ref_counted :: "node \<Rightarrow> 's trie \<Rightarrow> node \<Rightarrow> bool" where
  "ref_counted T0 t T \<longleftrightarrow> (\<forall>h. ref t h + of_nat (occ T0 h) = of_nat (occ T h))"

text \<open>C13. Reference counting is exact: across \<open>Put\<close> and \<open>Delete\<close> the pending count of every hash changes by
  the change in the number of nodes of the whole trie, stored parts included, that have the hash.\<close>

theorem trie_counts_exact:
  assumes "resolves (t_loader ops t) d (t_root t) T" and "canon T" and "d < fuel" and "put_ok k v" and "ref_counted T0 t T"
  shows "ref_counted T0 (snd (trie_Put ops fuel t k (Some v))) (pput T (toNibbles k) v)
    \<and> ref_counted T0 (snd (trie_Delete ops fuel t k)) (pdel T (toNibbles k))"
proof -
  have step: "ref_counted T0 t' T'" if "tracks t t' (occ T) (occ T')" for t' T'
    unfolding ref_counted_def
  proof
    fix h
    have "ref t' h = ref t h + of_nat (occ T' h) - of_nat (occ T h)"
      using that by (simp add: tracks_def eq_diff_eq)
    moreover have "ref t h = of_nat (occ T h) - of_nat (occ T0 h)"
      using assms(5) by (simp add: ref_counted_def eq_diff_eq)
    ultimately show "ref t' h + of_nat (occ T0 h) = of_nat (occ T' h)" by simp
  qed
  obtain n' t' where p: "putIntoNode ops fuel t (t_root t) (toNibbles k) v = (Inr n', t')"
      "tracks t t' (occ T) (occ (pput T (toNibbles k) v))"
    using putIntoNode_refines [OF assms(1,3) refl assms(2), of "toNibbles k" v] by auto
  have "snd (trie_Put ops fuel t k (Some v)) = t'\<lparr>t_root := n'\<rparr>"
    using p(1) assms(4) by (simp add: trie_Put_def put_ok_def)
  then have put: "ref_counted T0 (snd (trie_Put ops fuel t k (Some v))) (pput T (toNibbles k) v)"
    using step [OF p(2)] by (simp add: ref_counted_def)
  obtain n2 t2 where q: "deleteFromNode ops fuel t (t_root t) (toNibbles k) = ((None, n2), t2)"
      "tracks t t2 (occ T) (occ (pdel T (toNibbles k)))"
    using deleteFromNode_refines [OF assms(1,3) refl assms(2), of "toNibbles k"] by (auto simp: del_result_def)
  have "snd (trie_Delete ops fuel t k) = t2\<lparr>t_root := n2\<rparr>"
    using q(1) assms(4) by (simp add: trie_Delete_def put_ok_def)
  then have "ref_counted T0 (snd (trie_Delete ops fuel t k)) (pdel T (toNibbles k))"
    using step [OF q(2)] by (simp add: ref_counted_def)
  with put show ?thesis ..
qed

theorem trie_counts_exact_witness:
  "ref_counted EmptyNode (snd (trie_Put mem_ops 1 (NewTrie None ModeLatest (NewMemCachedStore NewMemoryStore)) [0x12] (Some [7])))
     (pput EmptyNode (toNibbles [0x12]) [7])"
  by (rule conjunct1 [OF trie_counts_exact [where d = 0]])
    (auto simp: NewTrie_def put_ok_def ref_counted_def ref_def MaxKeyLength_def maxPathLength_def MaxValueLength_def)

end
