(* ===== verification/MptBatch.thy ===== *)
theory MptBatch
  imports MptMap
begin

text \<open>
  Model of \<open>pkg/core/mpt/batch.go\<close>: the storage changes of a block are put into the trie in one pass
  over the sorted batch. A batch is a list of paths with a value, or \<open>None\<close> (nil) for a deletion. The
  functions call each other in many ways, so each takes fuel for the depth of the calls and reports
  \<open>NoFuel\<close> when it runs out. The result is a node, the number of items processed and an error.
\<close>

section \<open>Batches\<close>

text \<open>\<open>MapToMPTBatch\<close> of a map given as an association list.\<close>

definition MapToMPTBatch :: "gomap \<Rightarrow> batch_kv" where
  "MapToMPTBatch m = sort_key fst (map (\<lambda>(k, v). (strToNibbles k, v)) m)"

definition stripPrefix :: "nat \<Rightarrow> batch_kv \<Rightarrow> batch_kv" where
  "stripPrefix n kv = map (\<lambda>(k, v). (drop n k, v)) kv"

text \<open>\<open>getLastIndex\<close>: the child the first item goes to and the number of items for it.\<close>

definition getLastIndex :: "batch_kv \<Rightarrow> byte \<times> nat" where
  "getLastIndex kv =
    (case fst (hd kv) of [] \<Rightarrow> (lastChild, 1)
     | c # _ \<Rightarrow> (c, 1 + length (takeWhile (\<lambda>(k, v). hd k = c) (tl kv))))"

type_synonym 's batch_result = "(node \<times> nat \<times> trie_err option) \<times> 's trie"

fun mergeExtension :: "'s store_ops \<Rightarrow> nat \<Rightarrow> 's trie \<Rightarrow> bytes \<Rightarrow> node \<Rightarrow> (node \<times> trie_err option) \<times> 's trie" where
  "mergeExtension ops fuel t p (ExtensionNode key nxt) =
    (let e = ExtensionNode (p @ key) nxt in ((e, None), addRef (removeRef t (ExtensionNode key nxt)) e))"
| "mergeExtension ops fuel t p EmptyNode = ((EmptyNode, None), t)"
| "mergeExtension ops 0 t p (HashNode h) = ((HashNode h, Some NoFuel), t)"
| "mergeExtension ops (Suc fuel) t p (HashNode h) =
    (case t_getFromStore ops t h of
       (Inl e, t') \<Rightarrow> ((HashNode h, Some e), t')
     | (Inr n, t') \<Rightarrow> mergeExtension ops fuel t' p n)"
| "mergeExtension ops fuel t p n =
    (if length p \<noteq> 0 then let e = ExtensionNode p n in ((e, None), addRef t e) else ((n, None), t))"

definition stripBranch :: "'s store_ops \<Rightarrow> nat \<Rightarrow> 's trie \<Rightarrow> node list \<Rightarrow> (node \<times> trie_err option) \<times> 's trie" where
  "stripBranch ops fuel t cs =
    (case nonempty_idx cs of
       [] \<Rightarrow> ((EmptyNode, None), t)
     | [i] \<Rightarrow> if i \<noteq> unat lastChild then mergeExtension ops fuel t [of_nat i] (cs ! i) else ((cs ! i, None), t)
     | _ \<Rightarrow> ((BranchNode cs, None), addRef t (BranchNode cs)))"

definition then_merge :: "'s store_ops \<Rightarrow> nat \<Rightarrow> bytes \<Rightarrow> 's batch_result \<Rightarrow> 's batch_result" where
  "then_merge ops fuel p res = (case res of ((sub, n, err), t) \<Rightarrow>
     if err = None
     then (case mergeExtension ops fuel t p sub of ((sub', err'), t') \<Rightarrow> ((sub', n, err'), t'))
     else res)"

text \<open>\<open>iterateBatch\<close> gets its callback as an argument, as in the code; here it returns the new child
  instead of storing it.\<close>

function iterateBatch ::
  "('s trie \<Rightarrow> node \<Rightarrow> batch_kv \<Rightarrow> 's batch_result) \<Rightarrow> 's trie \<Rightarrow> node list \<Rightarrow> batch_kv
     \<Rightarrow> (node list \<times> nat \<times> trie_err option) \<times> 's trie" where
  "iterateBatch put t cs kv =
    (if length kv = 0 then ((cs, 0, None), t)
     else case getLastIndex kv of (c, i) \<Rightarrow>
       if length cs \<le> unat c then ((cs, 0, Some (MptPanic ''index out of range'')), t)
       else (case put t (cs ! unat c) (if c \<noteq> lastChild then stripPrefix 1 (take i kv) else take i kv) of
         ((child, sub, err), t1) \<Rightarrow>
           if err \<noteq> None then ((cs[unat c := child], sub, err), t1)
           else (case iterateBatch put t1 (cs[unat c := child]) (drop i kv) of
                   ((cs', n, err'), t2) \<Rightarrow> ((cs', sub + n, err'), t2))))"
  by pat_completeness auto
termination
  by (relation "measure (\<lambda>(_, _, _, kv). length kv)")
    (auto simp: getLastIndex_def split: list.splits)

declare iterateBatch.simps [simp del]

definition addToBranch ::
  "'s store_ops \<Rightarrow> nat \<Rightarrow> ('s trie \<Rightarrow> node \<Rightarrow> batch_kv \<Rightarrow> 's batch_result)
     \<Rightarrow> 's trie \<Rightarrow> node list \<Rightarrow> batch_kv \<Rightarrow> bool \<Rightarrow> 's batch_result" where
  "addToBranch ops fuel put t cs kv inTrie =
    (case iterateBatch put (if inTrie then removeRef t (BranchNode cs) else t) cs kv of
       ((cs', n, err), t2) \<Rightarrow>
         (case stripBranch ops fuel t2 cs' of ((nd, bErr), t3) \<Rightarrow>
            ((nd, n, if err = None then bErr else err), t3)))"

text \<open>\<open>newSubTrieMany\<close>, first for a batch whose first path is not empty or has a value; then in general,
  where a deletion at the empty path is dropped.\<close>

definition branchMany ::
  "'s store_ops \<Rightarrow> nat \<Rightarrow> ('s trie \<Rightarrow> node \<Rightarrow> batch_kv \<Rightarrow> 's batch_result)
     \<Rightarrow> 's trie \<Rightarrow> bytes \<Rightarrow> batch_kv \<Rightarrow> bytes option \<Rightarrow> 's batch_result" where
  "branchMany ops fuel put t p kv value =
    (case value of
       None \<Rightarrow> then_merge ops fuel p (addToBranch ops fuel put t NewBranchNode kv False)
     | Some v \<Rightarrow> then_merge ops fuel p
         (addToBranch ops fuel put (addRef t (LeafNode v)) (NewBranchNode[unat lastChild := LeafNode v]) kv False))"

fun newSubTrieMany ::
  "'s store_ops \<Rightarrow> nat \<Rightarrow> ('s trie \<Rightarrow> node \<Rightarrow> batch_kv \<Rightarrow> 's batch_result)
     \<Rightarrow> 's trie \<Rightarrow> bytes \<Rightarrow> batch_kv \<Rightarrow> bytes option \<Rightarrow> 's batch_result" where
  "newSubTrieMany ops fuel put t p [] value = ((EmptyNode, 0, Some (MptPanic ''index out of range'')), t)"
| "newSubTrieMany ops fuel put t p (([], None) # kv) value =
    (if length kv = 0 then ((EmptyNode, 1, None), t)
     else case newSubTrieMany ops fuel put t p kv None of ((nd, n, err), t') \<Rightarrow> ((nd, n + 1, err), t'))"
| "newSubTrieMany ops fuel put t p (([], Some v) # kv) value =
    (if length kv = 0
     then (case newSubTrie t p (LeafNode v) True of (nd, t') \<Rightarrow> ((nd, 1, None), t'))
     else branchMany ops fuel put t p (([], Some v) # kv) (Some v))"
| "newSubTrieMany ops fuel put t p ((b # k, v) # kv) value =
    branchMany ops fuel put t p ((b # k, v) # kv) value"

definition putBatchIntoExtensionNoPrefix ::
  "'s store_ops \<Rightarrow> nat \<Rightarrow> ('s trie \<Rightarrow> node \<Rightarrow> batch_kv \<Rightarrow> 's batch_result)
     \<Rightarrow> 's trie \<Rightarrow> bytes \<Rightarrow> node \<Rightarrow> batch_kv \<Rightarrow> 's batch_result" where
  "putBatchIntoExtensionNoPrefix ops fuel put t key nxt kv =
    (if childrenCount \<le> unat (hd key)
     then ((ExtensionNode key nxt, 0, Some (MptPanic ''index out of range'')), t)
     else case (if 1 < length key then newSubTrie t (tl key) nxt False else (nxt, t)) of (s, t1) \<Rightarrow>
       addToBranch ops fuel put t1 (NewBranchNode[unat (hd key) := s]) kv False)"

definition putBatchIntoExtension ::
  "'s store_ops \<Rightarrow> nat \<Rightarrow> ('s trie \<Rightarrow> node \<Rightarrow> batch_kv \<Rightarrow> 's batch_result)
     \<Rightarrow> 's trie \<Rightarrow> bytes \<Rightarrow> node \<Rightarrow> batch_kv \<Rightarrow> 's batch_result" where
  "putBatchIntoExtension ops fuel put t key nxt kv =
    (let t1 = removeRef t (ExtensionNode key nxt);
         pref = lcp (lcpMany kv) key
     in if length pref = length key
        then then_merge ops fuel pref (put t1 nxt (stripPrefix (length key) kv))
        else if length pref \<noteq> 0
        then then_merge ops fuel pref (putBatchIntoExtensionNoPrefix ops fuel put t1 (drop (length pref) key) nxt
               (stripPrefix (length pref) kv))
        else putBatchIntoExtensionNoPrefix ops fuel put t1 key nxt kv)"

definition putBatchIntoEmpty ::
  "'s store_ops \<Rightarrow> nat \<Rightarrow> ('s trie \<Rightarrow> node \<Rightarrow> batch_kv \<Rightarrow> 's batch_result) \<Rightarrow> 's trie \<Rightarrow> batch_kv \<Rightarrow> 's batch_result" where
  "putBatchIntoEmpty ops fuel put t kv =
    (let common = lcpMany kv in newSubTrieMany ops fuel put t common (stripPrefix (length common) kv) None)"

text \<open>\<open>putBatchIntoNode\<close> ties the knot; the fuel bounds the depth of its calls.\<close>

primrec putBatchIntoNode :: "'s store_ops \<Rightarrow> nat \<Rightarrow> 's trie \<Rightarrow> node \<Rightarrow> batch_kv \<Rightarrow> 's batch_result" where
  "putBatchIntoNode ops 0 t n kv = ((n, 0, Some NoFuel), t)"
| "putBatchIntoNode ops (Suc fuel) t n kv =
    (case n of
       LeafNode w \<Rightarrow>
         newSubTrieMany ops fuel (putBatchIntoNode ops fuel) (removeRef t (LeafNode w)) [] kv (Some w)
     | BranchNode cs \<Rightarrow> addToBranch ops fuel (putBatchIntoNode ops fuel) t cs kv True
     | ExtensionNode key nxt \<Rightarrow> putBatchIntoExtension ops fuel (putBatchIntoNode ops fuel) t key nxt kv
     | HashNode h \<Rightarrow>
         (case t_getFromStore ops t h of
            (Inl e, t') \<Rightarrow> ((HashNode h, 0, Some e), t')
          | (Inr n', t') \<Rightarrow> putBatchIntoNode ops fuel t' n' kv)
     | EmptyNode \<Rightarrow> putBatchIntoEmpty ops fuel (putBatchIntoNode ops fuel) t kv)"

text \<open>\<open>PutBatch\<close>: the root is replaced even when there was an error.\<close>

definition PutBatch :: "'s store_ops \<Rightarrow> nat \<Rightarrow> 's trie \<Rightarrow> batch_kv \<Rightarrow> (nat \<times> trie_err option) \<times> 's trie" where
  "PutBatch ops fuel t kv =
    (if length kv = 0 then ((0, None), t)
     else case putBatchIntoNode ops fuel t (t_root t) kv of
       ((r, n, err), t') \<Rightarrow> ((n, err), t'\<lparr>t_root := r\<rparr>))"

section \<open>Valid batches\<close>

definition bvalid :: "batch_kv \<Rightarrow> bool" where
  "bvalid kv \<longleftrightarrow> kv \<noteq> [] \<and> sorted_wrt (<) (map fst kv) \<and> (\<forall>k \<in> fst ` set kv. nibbles k)"

text \<open>What a batch makes of a content.\<close>

definition after :: "batch_kv \<Rightarrow> (bytes \<Rightarrow> bytes option) \<Rightarrow> bytes \<Rightarrow> bytes option" where
  "after kv m p = (case map_of kv p of Some v \<Rightarrow> v | None \<Rightarrow> m p)"

definition below :: "bytes \<Rightarrow> (bytes \<Rightarrow> bytes option) \<Rightarrow> bytes \<Rightarrow> bytes option" where
  "below p m q = (if take (length p) q = p then m (drop (length p) q) else None)"

definition pmerge :: "bytes \<Rightarrow> node \<Rightarrow> node" where
  "pmerge p T = (if p = [] then T else pext p T)"

lemma plook_pmerge: "plook (pmerge p T) = below p (plook T)"
  by (auto simp: pmerge_def below_def fun_eq_iff)

lemma canon_pmerge: "canon T \<Longrightarrow> nibbles p \<Longrightarrow> canon (pmerge p T)"
  by (simp add: pmerge_def canon_pext)

lemma below_append [simp]: "below p m (p @ q) = m q"
  by (simp add: below_def)

lemma stripPrefix_simps [simp]:
  "length (stripPrefix n kv) = length kv" "stripPrefix n kv = [] \<longleftrightarrow> kv = []"
  "map fst (stripPrefix n kv) = map (drop n) (map fst kv)"
  by (auto simp: stripPrefix_def split_beta)

definition all_start :: "bytes \<Rightarrow> batch_kv \<Rightarrow> bool" where
  "all_start p kv \<longleftrightarrow> (\<forall>k \<in> fst ` set kv. \<exists>q. k = p @ q)"

lemma append_less_append [simp]: "p @ a < p @ b \<longleftrightarrow> a < (b :: bytes)"
  by (induction p) auto

lemma bvalid_strip:
  assumes "bvalid kv" "all_start p kv"
  shows "bvalid (stripPrefix (length p) kv)"
proof -
  have "sorted_wrt (<) (map (drop (length p)) ks)" if "sorted_wrt (<) ks" "\<forall>k \<in> set ks. \<exists>q. k = p @ q" for ks :: "bytes list"
    using that by (induction ks) (auto, metis append_eq_conv_conj append_less_append)
  from this [of "map fst kv"] assms have "sorted_wrt (<) (map fst (stripPrefix (length p) kv))"
    by (simp only: stripPrefix_simps bvalid_def all_start_def set_map)
  moreover have "nibbles k" if "k \<in> fst ` set (stripPrefix (length p) kv)" for k
    using that assms by (force simp: stripPrefix_def bvalid_def all_start_def)
  ultimately show ?thesis using assms by (auto simp: bvalid_def)
qed

lemma map_of_strip:
  assumes "all_start p kv"
  shows "map_of kv (p @ q) = map_of (stripPrefix (length p) kv) q"
  using assms by (induction kv) (auto simp: all_start_def stripPrefix_def)

lemma map_of_strip_other:
  assumes "all_start p kv" "take (length p) q \<noteq> p"
  shows "map_of kv q = None"
  using assms by (induction kv) (auto simp: all_start_def)

lemma after_strip:
  assumes "all_start p kv"
  shows "after kv (below p m) = below p (after (stripPrefix (length p) kv) m)"
proof
  fix q
  show "after kv (below p m) q = below p (after (stripPrefix (length p) kv) m) q"
  proof (cases "take (length p) q = p")
    case True
    then obtain r where "q = p @ r" by (metis append_take_drop_id)
    then show ?thesis by (auto simp: after_def map_of_strip [OF assms] split: option.split)
  next
    case False
    then show ?thesis using map_of_strip_other [OF assms False] by (simp add: after_def below_def)
  qed
qed

lemma all_start_prefix: "all_start p kv \<Longrightarrow> p = p' @ r \<Longrightarrow> all_start p' kv"
  by (force simp: all_start_def)

lemma lcp_prefix: obtains a' b' where "a = lcp a b @ a'" "b = lcp a b @ b'"
  unfolding lcp_eq_loop using lcp_loop_split [of a b] by metis

lemma all_start_lcpMany: "kv \<noteq> [] \<Longrightarrow> all_start (lcpMany kv) kv"
proof -
  have step: "all_start (fold (\<lambda>(k, _) p. lcp p k) kv2 p) (kv1 @ kv2)" if "all_start p kv1" for p kv1 kv2
    using that
  proof (induction kv2 arbitrary: p kv1)
    case (Cons kv kv2)
    obtain k v where kv: "kv = (k, v)" by fastforce
    obtain a b where ab: "p = lcp p k @ a" "k = lcp p k @ b" by (rule lcp_prefix)
    have "all_start (lcp p k) kv1" using all_start_prefix [OF Cons.prems ab(1)] .
    moreover have "all_start (lcp p k) [kv]" using ab(2) by (auto simp: kv all_start_def)
    ultimately have "all_start (lcp p k) (kv1 @ [kv])" by (auto simp: all_start_def)
    from Cons.IH [OF this] show ?case by (simp add: kv)
  qed simp
  assume "kv \<noteq> []"
  then consider x where "kv = [x]" | x y zs where "kv = x # y # zs" by (metis list.exhaust)
  then show ?thesis
  proof cases
    case 1
    then show ?thesis by (simp add: lcpMany_def all_start_def)
  next
    case (2 x y zs)
    have "all_start (lcp (fst x) (fst y)) [x, y]"
      using lcp_prefix [of "fst x" "fst y"] by (auto simp: all_start_def)
    from step [OF this, of zs] have "all_start (fold (\<lambda>(k, _) p. lcp p k) zs (lcp (fst x) (fst y))) kv"
      by (simp add: 2)
    moreover have "lcpMany kv = (if lcp (fst x) (fst y) = [] then []
        else fold (\<lambda>(k, _) p. lcp p k) zs (lcp (fst x) (fst y)))"
      by (simp add: 2 lcpMany_def Let_def)
    ultimately show ?thesis by (auto simp: all_start_def)
  qed
qed

lemma nibbles_start:
  assumes "bvalid kv" "all_start p kv"
  shows "nibbles p"
proof -
  obtain k v where "(k, v) \<in> set kv" using assms(1) by (cases kv) (auto simp: bvalid_def)
  with assms show ?thesis by (force simp: bvalid_def all_start_def)
qed

text \<open>The first group of a batch.\<close>

lemma first_group:
  assumes "bvalid kv" "getLastIndex kv = (c, i)"
  obtains g rest where "take i kv = g" "drop i kv = rest" "kv = g @ rest" "g \<noteq> []"
    "c = lastChild \<longrightarrow> (\<exists>v. g = [([], v)])" "c \<noteq> lastChild \<longrightarrow> c < 16 \<and> all_start [c] g"
    "rest = [] \<or> bvalid rest" "\<forall>k \<in> fst ` set rest. k \<noteq> [] \<and> (c \<noteq> lastChild \<longrightarrow> hd k \<noteq> c)"
proof -
  obtain k v kv' where kv: "kv = (k, v) # kv'" using assms(1) by (cases kv) (auto simp: bvalid_def)
  have greater: "\<forall>k' \<in> fst ` set kv'. k < k'" and sorted: "sorted_wrt (<) (map fst kv')"
    using assms(1) by (auto simp: kv bvalid_def)
  have ne: "k' \<noteq> []" if "k' \<in> fst ` set kv'" for k' using greater that by auto
  show ?thesis
  proof (cases k)
    case Nil
    then have ci: "c = lastChild" "i = 1" using assms(2) kv by (auto simp: getLastIndex_def)
    show ?thesis
      by (rule that [of "[(k, v)]" kv']) (use ci kv Nil assms(1) ne in \<open>auto simp: bvalid_def\<close>)
  next
    case (Cons b k0)
    let ?P = "\<lambda>(k', v). hd k' = b"
    have ci: "c = b" "i = 1 + length (takeWhile ?P kv')" using assms(2) kv Cons by (auto simp: getLastIndex_def)
    have b: "b < 16" "b \<noteq> lastChild" using assms(1) kv Cons by (auto simp: bvalid_def lastChild_def)
    let ?g = "(k, v) # takeWhile ?P kv'" and ?rest = "dropWhile ?P kv'"
    have heads: "hd k' \<noteq> b" if "(k', v') \<in> set ?rest" for k' v'
    proof (cases ?rest)
      case (Cons x xs)
      then have x: "hd (fst x) \<noteq> b" using hd_dropWhile [of ?P kv'] by (auto simp: split_beta)
      have xin: "fst x \<in> fst ` set kv'" using set_dropWhileD [of x ?P kv'] Cons by auto
      have "b # k0 < fst x" using greater xin \<open>k = b # k0\<close> by blast
      then have "b \<le> hd (fst x)" using ne [OF xin] by (cases "fst x") auto
      then have "b < hd (fst x)" using x by simp
      moreover have "sorted_wrt (<) (map fst ?rest)"
        using sorted by (metis map_append sorted_wrt_append takeWhile_dropWhile_id)
      then have "(k', v') = x \<or> fst x < k'" using that Cons by auto
      moreover have "k' \<noteq> []" using ne [of k'] set_dropWhileD [OF that] by force
      ultimately show ?thesis using ne [OF xin] by (cases k'; cases "fst x") auto
    next
      case Nil
      then show ?thesis using that unfolding Nil by simp
    qed
    have sub: "set ?rest \<subseteq> set kv'" by (auto dest: set_dropWhileD)
    have "sorted_wrt (<) (map fst ?rest)"
      using sorted by (metis map_append sorted_wrt_append takeWhile_dropWhile_id)
    then have valid: "?rest = [] \<or> bvalid ?rest" using assms(1) sub by (auto simp: bvalid_def kv)
    have "all_start [b] ?g"
      using Cons ne by (auto simp: all_start_def dest!: set_takeWhileD) (metis append_Cons append_Nil list.collapse fst_conv image_eqI)+
    moreover have "take i kv = ?g" "drop i kv = ?rest"
      by (simp_all add: ci kv takeWhile_eq_take [symmetric] dropWhile_eq_drop [symmetric])
    moreover have "\<forall>k' \<in> fst ` set ?rest. k' \<noteq> [] \<and> (c \<noteq> lastChild \<longrightarrow> hd k' \<noteq> c)"
    proof
      fix k' assume "k' \<in> fst ` set ?rest"
      then obtain v' where "(k', v') \<in> set ?rest" by force
      then show "k' \<noteq> [] \<and> (c \<noteq> lastChild \<longrightarrow> hd k' \<noteq> c)"
        using heads [of k' v'] ci ne [of k'] set_dropWhileD [of "(k', v')" ?P kv'] by force
    qed
    moreover have "kv = ?g @ ?rest" by (simp add: kv)
    ultimately show ?thesis using that [of ?g ?rest] ci b valid by blast
  qed
qed

section \<open>A batch does what its items do\<close>

text \<open>The result of a batch operation on a trie with \<open>f\<close> counted references: a canonical trie with the
  content \<open>m\<close>, \<open>c\<close> items processed, no error.\<close>

definition bpost ::
  "(hash256 \<Rightarrow> node option) \<Rightarrow> nat \<Rightarrow> 's trie \<Rightarrow> (hash256 \<Rightarrow> nat) \<Rightarrow> (bytes \<Rightarrow> bytes option) \<Rightarrow> nat
     \<Rightarrow> 's batch_result \<Rightarrow> bool" where
  "bpost L d t f m c res \<longleftrightarrow> (\<exists>n' t' T'. res = ((n', c, None), t') \<and> tracks t t' f (occ T')
     \<and> resolves L d n' T' \<and> canon T' \<and> (\<forall>p. nibbles p \<longrightarrow> plook T' p = m p))"

lemma bpostI:
  "res = ((n', c, None), t') \<Longrightarrow> tracks t t' f (occ T') \<Longrightarrow> resolves L d n' T' \<Longrightarrow> canon T'
     \<Longrightarrow> (\<And>p. nibbles p \<Longrightarrow> plook T' p = m p) \<Longrightarrow> bpost L d t f m c res"
  unfolding bpost_def by blast

lemma bpost_loaded:
  "bpost L d t1 f m c res \<Longrightarrow> same_base t t1 \<Longrightarrow> ref t1 = ref t \<Longrightarrow> d \<le> d' \<Longrightarrow> bpost L d' t f m c res"
  unfolding bpost_def by (elim exE conjE) (auto intro!: exI intro: tracks_loaded resolves_mono)

lemma tracks_trans: "tracks t t1 f g \<Longrightarrow> tracks t1 t2 g h \<Longrightarrow> tracks t t2 f h"
proof -
  assume a: "tracks t t1 f g" "tracks t1 t2 g h"
  have "ref t2 x + of_nat (f x) = ref t x + of_nat (h x)" for x
  proof -
    have "ref t1 x = ref t x + of_nat (g x) - of_nat (f x)" "ref t2 x = ref t1 x + of_nat (h x) - of_nat (g x)"
      using a by (simp_all add: tracks_def eq_diff_eq)
    then show ?thesis by simp
  qed
  with a show ?thesis by (auto simp: tracks_def intro: same_base_trans)
qed

lemma tracks_removed:
  assumes "tracks (removeRef t n) t' f g" "\<And>h. f' h = self_occ n h + f h"
  shows "tracks t t' f' g"
  using assms by (auto simp: tracks_def algebra_simps)

lemma mergeExtension_ok:
  assumes "resolves L d n T" "0 < fuel" "L = t_loader ops t"
  obtains n' t' where "mergeExtension ops fuel t p n = ((n', None), t')"
    "tracks t t' (occ T) (occ (pmerge p T))" "resolves L d n' (pmerge p T)"
proof -
  have step: "\<exists>n' t'. mergeExtension ops fuel t p n = ((n', None), t')
      \<and> tracks t t' (occ T) (occ (pmerge p T)) \<and> resolves L d n' (pmerge p T)"
    if r: "resolves L d n T" and "proper n" for n d t fuel
  proof (cases n)
    case (ExtensionNode key nxt)
    then obtain T' where T': "T = ExtensionNode key T'" "resolves L d nxt T'" using r by auto
    have "pmerge p T = ExtensionNode (p @ key) T'" by (simp add: pmerge_def T')
    then show ?thesis using ExtensionNode T' self_occ_resolves [OF r]
        self_occ_resolves [OF resolves.res_Ext [OF T'(2), of "p @ key"]]
      by (auto simp: Let_def tracks_def)
  next
    case (LeafNode v)
    then have T: "T = LeafNode v" using r by auto
    then show ?thesis using LeafNode by (auto simp: pmerge_def Let_def tracks_def)
  next
    case (BranchNode cs)
    then obtain Ts where T: "T = BranchNode Ts" using r by auto
    then show ?thesis using BranchNode r self_occ_resolves [OF resolves.res_Ext [OF r, of p]]
      by (auto simp: pmerge_def Let_def tracks_def)
  qed (use that in auto)
  show ?thesis
  proof (cases n)
    case EmptyNode
    moreover have "T = EmptyNode" using EmptyNode assms(1) by auto
    moreover have "pmerge p EmptyNode = EmptyNode" by (simp add: pmerge_def)
    ultimately show ?thesis using that [of EmptyNode t] by (auto simp del: occ.simps)
  next
    case (HashNode h)
    with assms obtain n1 d0 where n1: "L h = Some n1" "proper n1" "resolves L d0 n1 T" "d = Suc d0"
      by (auto elim: res_HashE)
    then obtain t1 where t1: "t_getFromStore ops t h = (Inr n1, t1)" "same_base t t1"
      using assms(3) by (auto elim: t_getFromStore_loader)
    obtain f where "fuel = Suc f" using assms(2) by (cases fuel) auto
    moreover obtain n' t' where n': "mergeExtension ops f t1 p n1 = ((n', None), t')"
        "tracks t1 t' (occ T) (occ (pmerge p T))" "resolves L d0 n' (pmerge p T)"
      using step [OF n1(3,2)] by blast
    moreover have "tracks t t' (occ T) (occ (pmerge p T))"
      using n'(2) t1(2) ref_getFromStore [OF t1(1)] by (rule tracks_loaded)
    moreover have "resolves L d n' (pmerge p T)" using n'(3) n1(4) by (auto elim: resolves_mono)
    ultimately show ?thesis using that [of n' t'] t1(1) HashNode by simp
  qed (use step [OF assms(1)] that in auto)
qed

lemma then_merge_ok:
  assumes "bpost L d t f m c res" "0 < fuel" "L = t_loader ops t" "nibbles p"
  shows "bpost L d t f (below p m) c (then_merge ops fuel p res)"
proof -
  obtain n1 t1 T1 where r: "res = ((n1, c, None), t1)" "tracks t t1 f (occ T1)" "resolves L d n1 T1" "canon T1"
      "\<And>q. nibbles q \<Longrightarrow> plook T1 q = m q"
    using assms(1) by (auto simp: bpost_def)
  have "L = t_loader ops t1" using assms(3) t_loader_same_base [OF tracks_base [OF r(2)]] by simp
  with r(3) assms(2) obtain n2 t2 where m: "mergeExtension ops fuel t1 p n1 = ((n2, None), t2)"
      "tracks t1 t2 (occ T1) (occ (pmerge p T1))" "resolves L d n2 (pmerge p T1)"
    by (rule mergeExtension_ok)
  show ?thesis
  proof (rule bpostI)
    show "then_merge ops fuel p res = ((n2, c, None), t2)" by (simp add: then_merge_def r(1) m(1))
    show "tracks t t2 f (occ (pmerge p T1))" using r(2) m(2) by (rule tracks_trans)
    show "plook (pmerge p T1) q = below p m q" if "nibbles q" for q
    proof (cases "take (length p) q = p")
      case True
      then obtain q' where "q = p @ q'" by (metis append_take_drop_id)
      then show ?thesis using r(5) [of q'] that by (simp add: plook_pmerge)
    qed (simp add: plook_pmerge below_def)
  qed (use m(3) r(4) assms(4) in \<open>simp_all add: canon_pmerge\<close>)
qed

lemma stripBranch_ok:
  assumes "list_all2 (resolves L d) cs Ts" "kids_ok Ts" "0 < fuel" "L = t_loader ops t"
  obtains n' t' where "stripBranch ops fuel t cs = ((n', None), t')"
    "tracks t t' (kids_occ Ts) (occ (pstrip Ts))" "resolves L d n' (pstrip Ts)"
proof -
  note idx = resolves_nonempty_idx [OF assms(1)]
  consider "nonempty_idx Ts = []" | i where "nonempty_idx Ts = [i]" | i j ks where "nonempty_idx Ts = i # j # ks"
    by (metis list.exhaust)
  then show ?thesis
  proof cases
    case 1
    have "Ts = replicate 17 EmptyNode"
      using nonempty_idx_Nil [OF 1] assms(2) by (auto intro!: nth_equalityI)
    then have "kids_occ Ts h = 0" for h by (simp add: kids_occ_def sum_list_replicate)
    then show ?thesis using that [of EmptyNode t] 1 by (auto simp: stripBranch_def idx pstrip_def tracks_def)
  next
    case (2 i)
    note one = nonempty_idx_one [OF 2]
    have kids: "kids_occ Ts = occ (Ts ! i)" using kids_occ_one [OF one(1,3)] by auto
    have r: "resolves L d (cs ! i) (Ts ! i)"
      using assms(1) one(1) by (auto simp: list_all2_conv_all_nth)
    show ?thesis
    proof (cases "i = 16")
      case True
      then show ?thesis using that [of "cs ! i" t] 2 r kids by (simp add: stripBranch_def idx pstrip_def)
    next
      case False
      from r assms(3,4) obtain n' t' where "mergeExtension ops fuel t [of_nat i] (cs ! i) = ((n', None), t')"
          "tracks t t' (occ (Ts ! i)) (occ (pmerge [of_nat i] (Ts ! i)))" "resolves L d n' (pmerge [of_nat i] (Ts ! i))"
        by (rule mergeExtension_ok)
      then show ?thesis using that [of n' t'] 2 False kids by (simp add: stripBranch_def idx pstrip_def pmerge_def)
    qed
  next
    case (3 i j ks)
    then show ?thesis
      using that [of "BranchNode cs" "addRef t (BranchNode cs)"] assms(1) self_occ_resolves [OF resolves.res_Branch [OF assms(1)]]
      by (auto simp: stripBranch_def idx pstrip_def tracks_def occ_Branch)
  qed
qed

text \<open>What the callback has to do: shorter batches anywhere, and the empty path below a branch.\<close>

definition put_good ::
  "'s store_ops \<Rightarrow> (hash256 \<Rightarrow> node option) \<Rightarrow> nat \<Rightarrow> nat \<Rightarrow> ('s trie \<Rightarrow> node \<Rightarrow> batch_kv \<Rightarrow> 's batch_result) \<Rightarrow> bool" where
  "put_good ops L d K put \<longleftrightarrow> (\<forall>t n T g. L = t_loader ops t \<longrightarrow> resolves L d n T \<longrightarrow> canon T \<longrightarrow> bvalid g
     \<longrightarrow> (\<forall>k \<in> fst ` set g. length k < K) \<or> is_leaf_or_empty T \<and> (\<exists>v. g = [([], v)])
     \<longrightarrow> bpost L d t (occ T) (after g (plook T)) (length g) (put t n g))"

lemma put_goodD:
  "put_good ops L d K put \<Longrightarrow> L = t_loader ops t \<Longrightarrow> resolves L d n T \<Longrightarrow> canon T \<Longrightarrow> bvalid g
     \<Longrightarrow> (\<forall>k \<in> fst ` set g. length k < K) \<or> is_leaf_or_empty T \<and> (\<exists>v. g = [([], v)])
     \<Longrightarrow> bpost L d t (occ T) (after g (plook T)) (length g) (put t n g)"
  unfolding put_good_def by blast

lemma only_root_path:
  assumes "canon T" "\<And>p. nibbles p \<Longrightarrow> plook T p \<noteq> None \<Longrightarrow> p = []"
  shows "is_leaf_or_empty T"
proof (cases T)
  case (BranchNode cs)
  then show ?thesis using assms branch_has_path by blast
next
  case (ExtensionNode key n)
  then have "n \<noteq> EmptyNode" "canon n" "nibbles key" "key \<noteq> []" using assms(1) by auto
  then obtain p where "nibbles p" "plook n p \<noteq> None" using canon_nonempty by blast
  with assms(2) [of "key @ p"] ExtensionNode \<open>nibbles key\<close> \<open>key \<noteq> []\<close> show ?thesis by simp
qed (use assms in auto)

lemma after_append: "after (g @ rest) m p = (case map_of g p of Some v \<Rightarrow> v | None \<Rightarrow> after rest m p)"
  by (auto simp: after_def map_add_def split: option.splits)

lemma map_of_NoneI: "k \<notin> fst ` set kv \<Longrightarrow> map_of kv k = None"
  by (simp add: map_of_eq_None_iff)

text \<open>One group: the child it goes to, and what the branch holds afterwards.\<close>

lemma group_step:
  assumes "put_good ops L d K put" "L = t_loader ops t" "list_all2 (resolves L d) cs Ts" "kids_ok Ts"
    and "c = lastChild \<longrightarrow> (\<exists>v. g = [([], v)])" "c \<noteq> lastChild \<longrightarrow> c < 16 \<and> all_start [c] g"
    and "bvalid g" "\<forall>k \<in> fst ` set g. length k \<le> K"
  obtains n1 t1 T1 where
    "put t (cs ! unat c) (if c \<noteq> lastChild then stripPrefix 1 g else g) = ((n1, length g, None), t1)"
    "tracks t t1 (kids_occ Ts) (kids_occ (Ts[unat c := T1]))"
    "list_all2 (resolves L d) (cs[unat c := n1]) (Ts[unat c := T1])" "kids_ok (Ts[unat c := T1])"
    "\<forall>p. nibbles p \<longrightarrow> plook (BranchNode (Ts[unat c := T1])) p = after g (plook (BranchNode Ts)) p"
proof -
  let ?g = "if c \<noteq> lastChild then stripPrefix 1 g else g"
  have c: "unat c < 17" "unat c = 16 \<longleftrightarrow> c = lastChild"
    using assms(6) by (auto simp: lastChild_def dest: arg_cong [of _ _ of_nat])
  have r: "resolves L d (cs ! unat c) (Ts ! unat c)"
    using assms(3,4) c(1) by (auto simp: list_all2_conv_all_nth)
  have valid: "bvalid ?g"
    using assms(6,7) bvalid_strip [of g "[c]"] by auto
  have short: "(\<forall>k \<in> fst ` set ?g. length k < K) \<or> is_leaf_or_empty (Ts ! unat c) \<and> (\<exists>v. ?g = [([], v)])"
  proof (cases "c = lastChild")
    case True
    then show ?thesis using assms(4,5) kids_ok_last by auto
  next
    case False
    then have "all_start [c] g" using assms(6) by blast
    then show ?thesis using False assms(8) by (force simp: stripPrefix_def all_start_def)
  qed
  have len: "length ?g = length g" by simp
  have "canon (Ts ! unat c)" using c(1) assms(4) by simp
  from put_goodD [OF assms(1,2) r this valid short]
  have "bpost L d t (occ (Ts ! unat c)) (after ?g (plook (Ts ! unat c))) (length ?g) (put t (cs ! unat c) ?g)" .
  then obtain n1 t1 T1 where n1: "put t (cs ! unat c) ?g = ((n1, length g, None), t1)"
      "tracks t t1 (occ (Ts ! unat c)) (occ T1)" "resolves L d n1 T1" "canon T1"
      "\<And>p. nibbles p \<Longrightarrow> plook T1 p = after ?g (plook (Ts ! unat c)) p"
    unfolding bpost_def len by blast
  have last: "is_leaf_or_empty T1" if "c = lastChild"
  proof (rule only_root_path [OF n1(4)])
    fix p assume p: "nibbles p" "plook T1 p \<noteq> None"
    have "is_leaf_or_empty (Ts ! 16)" using assms(4) by (rule kids_ok_last)
    then show "p = []" using p n1(5) [OF p(1)] that assms(5)
      by (cases "Ts ! 16") (auto simp: after_def split: if_splits)
  qed
  show ?thesis
  proof (rule that)
    show "put t (cs ! unat c) ?g = ((n1, length g, None), t1)" by (rule n1(1))
    show "list_all2 (resolves L d) (cs[unat c := n1]) (Ts[unat c := T1])"
      using assms(3) n1(3) by (rule resolves_update)
    show "kids_ok (Ts[unat c := T1])" using assms(4) n1(4) c last by (intro kids_ok_update) auto
    show "tracks t t1 (kids_occ Ts) (kids_occ (Ts[unat c := T1]))"
      unfolding tracks_def
    proof (intro conjI allI)
      show "same_base t t1" using n1(2) by (rule tracks_base)
      fix h
      have "of_nat (kids_occ (Ts[unat c := T1]) h) + of_nat (occ (Ts ! unat c) h) = of_nat (kids_occ Ts h) + (of_nat (occ T1 h) :: u32)"
        using kids_occ_update [of "unat c" Ts T1 h] c(1) assms(4) by (metis kids_ok_length of_nat_add)
      moreover have "ref t1 h + of_nat (occ (Ts ! unat c) h) = ref t h + of_nat (occ T1 h)"
        using n1(2) by (simp add: tracks_def)
      ultimately show "ref t1 h + of_nat (kids_occ Ts h) = ref t h + of_nat (kids_occ (Ts[unat c := T1]) h)"
        using balance [where s = 0 and s' = 0] by fastforce
    qed
    have "plook (BranchNode (Ts[unat c := T1])) p = after g (plook (BranchNode Ts)) p" if p: "nibbles p" for p
    proof (cases p)
      case Nil
      show ?thesis
      proof (cases "c = lastChild")
        case True
        then show ?thesis using Nil n1(5) [of "[]"] c assms(4,5) by (auto simp: after_def)
      next
        case False
        then have "map_of g [] = None" using map_of_strip_other [of "[c]" g "[]"] assms(6) by simp
        then show ?thesis using Nil False c assms(4) by (auto simp: after_def nth_list_update)
      qed
    next
      case (Cons b q)
      then have b: "b < 16" "nibbles q" using p by auto
      show ?thesis
      proof (cases "b = c")
        case True
        then have "c \<noteq> lastChild" using b by (auto simp: lastChild_def)
        then have "all_start [c] g" using assms(6) by blast
        from map_of_strip [OF this, of q] have "map_of g (b # q) = map_of (stripPrefix 1 g) q" using True by simp
        then show ?thesis using Cons True b n1(5) [of q] c assms(4) \<open>c \<noteq> lastChild\<close>
          by (simp add: after_def split: option.split)
      next
        case False
        have "map_of g (b # q) = None"
        proof (cases "c = lastChild")
          case True
          then show ?thesis using assms(5) by auto
        next
          case c_not: False
          then show ?thesis using map_of_strip_other [of "[c]" g "b # q"] assms(6) False by simp
        qed
        then show ?thesis using Cons False b c assms(4) by (auto simp: after_def nth_list_update)
      qed
    qed
    then show "\<forall>p. nibbles p \<longrightarrow> plook (BranchNode (Ts[unat c := T1])) p = after g (plook (BranchNode Ts)) p"
      by blast
  qed
qed

lemma iterateBatch_ok:
  assumes "put_good ops L d K put" "L = t_loader ops t" "list_all2 (resolves L d) cs Ts" "kids_ok Ts"
    and "kv = [] \<or> bvalid kv" "\<forall>k \<in> fst ` set kv. length k \<le> K"
  shows "\<exists>cs' t' Ts'. iterateBatch put t cs kv = ((cs', length kv, None), t')
    \<and> tracks t t' (kids_occ Ts) (kids_occ Ts') \<and> list_all2 (resolves L d) cs' Ts' \<and> kids_ok Ts'
    \<and> (\<forall>p. nibbles p \<longrightarrow> plook (BranchNode Ts') p = after kv (plook (BranchNode Ts)) p)"
  using assms(2-6)
proof (induction "length kv" arbitrary: kv t cs Ts rule: less_induct)
  case less
  show ?case
  proof (cases "kv = []")
    case True
    then have "iterateBatch put t cs kv = ((cs, length kv, None), t)" "after kv m = m" for m
      by (auto simp: iterateBatch.simps after_def fun_eq_iff)
    then show ?thesis using less.prems(2,3) tracks_refl
      by (intro exI [of _ cs] exI [of _ t] exI [of _ Ts]) simp
  next
    case False
    then have valid: "bvalid kv" using less.prems(4) by blast
    obtain c i where ci: "getLastIndex kv = (c, i)" by fastforce
    obtain g rest where g: "take i kv = g" "drop i kv = rest" "kv = g @ rest" "g \<noteq> []"
      "c = lastChild \<longrightarrow> (\<exists>v. g = [([], v)])" "c \<noteq> lastChild \<longrightarrow> c < 16 \<and> all_start [c] g"
      "rest = [] \<or> bvalid rest" "\<forall>k \<in> fst ` set rest. k \<noteq> [] \<and> (c \<noteq> lastChild \<longrightarrow> hd k \<noteq> c)"
      using first_group [OF valid ci] .
    have bg: "bvalid g" using valid g(3,4) by (auto simp: bvalid_def sorted_wrt_append)
    have short: "\<forall>k \<in> fst ` set g. length k \<le> K" "\<forall>k \<in> fst ` set rest. length k \<le> K"
      using less.prems(5) g(3) by auto
    obtain n1 t1 T1 where n1:
      "put t (cs ! unat c) (if c \<noteq> lastChild then stripPrefix 1 g else g) = ((n1, length g, None), t1)"
      "tracks t t1 (kids_occ Ts) (kids_occ (Ts[unat c := T1]))"
      "list_all2 (resolves L d) (cs[unat c := n1]) (Ts[unat c := T1])" "kids_ok (Ts[unat c := T1])"
      "\<forall>p. nibbles p \<longrightarrow> plook (BranchNode (Ts[unat c := T1])) p = after g (plook (BranchNode Ts)) p"
      by (rule group_step [OF assms(1) less.prems(1-3) g(5,6) bg short(1)])
    have L1: "L = t_loader ops t1" using less.prems(1) t_loader_same_base [OF tracks_base [OF n1(2)]] by simp
    have "length rest < length kv" using g(3,4) by simp
    from less.hyps [OF this L1 n1(3,4) g(7) short(2)]
    obtain cs' t' Ts' where r: "iterateBatch put t1 (cs[unat c := n1]) rest = ((cs', length rest, None), t')"
      "tracks t1 t' (kids_occ (Ts[unat c := T1])) (kids_occ Ts')" "list_all2 (resolves L d) cs' Ts'" "kids_ok Ts'"
      "\<forall>p. nibbles p \<longrightarrow> plook (BranchNode Ts') p = after rest (plook (BranchNode (Ts[unat c := T1]))) p"
      by blast
    have "unat c < length cs"
      using g(6) less.prems(2,3) by (cases "c = lastChild") (auto dest: list_all2_lengthD)
    then have "iterateBatch put t cs kv = ((cs', length g + length rest, None), t')"
      using False n1(1) r(1) unfolding iterateBatch.simps [of put t cs kv] ci prod.case g(1,2) by simp
    then have "iterateBatch put t cs kv = ((cs', length kv, None), t')" by (simp add: g(3))
    moreover have "plook (BranchNode Ts') p = after kv (plook (BranchNode Ts)) p" if "nibbles p" for p
    proof -
      have "map_of g p = None \<or> map_of rest p = None"
      proof -
        have "\<forall>x \<in> set g. \<forall>y \<in> set rest. fst x < fst y"
          using valid g(3) by (auto simp: bvalid_def sorted_wrt_append)
        then show ?thesis unfolding map_of_eq_None_iff by (metis (no_types) imageE less_irrefl)
      qed
      then have "after rest (after g m) p = after (g @ rest) m p" for m
        by (auto simp: after_def map_add_def split: option.splits)
      moreover have "plook (BranchNode Ts') p = after rest (after g (plook (BranchNode Ts))) p"
        using r(5) n1(5) that by (simp add: after_def split: option.split del: plook_Branch)
      ultimately show ?thesis by (simp add: g(3))
    qed
    ultimately show ?thesis using tracks_trans [OF n1(2) r(2)] r(3,4) by blast
  qed
qed

lemma addToBranch_ok:
  assumes "put_good ops L d K put" "L = t_loader ops t" "list_all2 (resolves L d) cs Ts" "kids_ok Ts" "0 < fuel"
    and "bvalid kv" "\<forall>k \<in> fst ` set kv. length k \<le> K"
  shows "bpost L d t (if inTrie then occ (BranchNode Ts) else kids_occ Ts) (after kv (plook (BranchNode Ts))) (length kv)
    (addToBranch ops fuel put t cs kv inTrie)"
proof -
  define t0 where "t0 = (if inTrie then removeRef t (BranchNode cs) else t)"
  have L0: "L = t_loader ops t0" using assms(2) by (simp add: t0_def)
  obtain cs' t1 Ts' where it: "iterateBatch put t0 cs kv = ((cs', length kv, None), t1)"
    "tracks t0 t1 (kids_occ Ts) (kids_occ Ts')" "list_all2 (resolves L d) cs' Ts'" "kids_ok Ts'"
    "\<forall>p. nibbles p \<longrightarrow> plook (BranchNode Ts') p = after kv (plook (BranchNode Ts)) p"
    using iterateBatch_ok [OF assms(1) L0 assms(3,4) _ assms(7)] assms(6) by blast
  have L1: "L = t_loader ops t1" using L0 t_loader_same_base [OF tracks_base [OF it(2)]] by simp
  obtain n' t2 where st: "stripBranch ops fuel t1 cs' = ((n', None), t2)"
      "tracks t1 t2 (kids_occ Ts') (occ (pstrip Ts'))" "resolves L d n' (pstrip Ts')"
    using stripBranch_ok [OF it(3,4) assms(5) L1] .
  have track: "tracks t0 t2 (kids_occ Ts) (occ (pstrip Ts'))" using it(2) st(2) by (rule tracks_trans)
  show ?thesis
  proof (rule bpostI)
    show "addToBranch ops fuel put t cs kv inTrie = ((n', length kv, None), t2)"
      using it(1) st(1) by (simp add: addToBranch_def t0_def)
    show "tracks t t2 (if inTrie then occ (BranchNode Ts) else kids_occ Ts) (occ (pstrip Ts'))"
      using track self_occ_resolves [OF resolves.res_Branch [OF assms(3)]]
      by (cases inTrie) (auto simp: t0_def occ_Branch elim!: tracks_removed)
  qed (use st(3) it(4,5) in \<open>simp_all add: canon_pstrip plook_pstrip\<close>)
qed

definition at_root :: "bytes option \<Rightarrow> bytes \<Rightarrow> bytes option" where
  "at_root value q = (if q = [] then value else None)"

lemma plook_new_branch:
  assumes "nibbles q"
  shows "plook (BranchNode NewBranchNode) q = at_root None q"
    and "plook (BranchNode (NewBranchNode[16 := LeafNode v])) q = at_root (Some v) q"
  using assms by (cases q; auto simp: at_root_def nth_list_update)+

lemma bpost_cong:
  "bpost L d t f m c res \<Longrightarrow> (\<And>p. nibbles p \<Longrightarrow> m p = m' p) \<Longrightarrow> bpost L d t f m' c res"
  unfolding bpost_def by force

lemma branchMany_ok:
  assumes "put_good ops L d K put" "L = t_loader ops t" "0 < fuel" "nibbles p"
    and "bvalid kv" "\<forall>k \<in> fst ` set kv. length k \<le> K"
  shows "bpost L d t (\<lambda>_. 0) (below p (after kv (at_root value))) (length kv) (branchMany ops fuel put t p kv value)"
proof (cases "value")
  case None
  have "bpost L d t (kids_occ NewBranchNode) (after kv (plook (BranchNode NewBranchNode))) (length kv)
      (addToBranch ops fuel put t NewBranchNode kv False)"
    using addToBranch_ok [OF assms(1,2) resolves_New _ assms(3,5,6), of False] by simp
  then have "bpost L d t (\<lambda>_. 0) (after kv (at_root value)) (length kv) (addToBranch ops fuel put t NewBranchNode kv False)"
    by (auto simp: None after_def plook_new_branch kids_occ_New [abs_def] elim!: bpost_cong split: option.split simp del: plook_Branch)
  then show ?thesis
    using then_merge_ok [OF _ assms(3,2,4)] by (simp add: branchMany_def None)
next
  case (Some v)
  let ?t = "addRef t (LeafNode v)" and ?cs = "NewBranchNode[16 := LeafNode v]"
  have kids: "kids_ok ?cs" by (intro kids_ok_update) auto
  have res: "list_all2 (resolves L d) ?cs ?cs" by (intro resolves_update resolves_New res_Leaf)
  have occ: "kids_occ ?cs h = self_occ (LeafNode v) h" for h
    using kids_occ_update [of 16 NewBranchNode "LeafNode v" h] by simp
  have "bpost L d ?t (kids_occ ?cs) (after kv (plook (BranchNode ?cs))) (length kv) (addToBranch ops fuel put ?t ?cs kv False)"
    using addToBranch_ok [OF assms(1) _ res kids assms(3,5,6), of ?t False] assms(2) by simp
  then have "bpost L d t (\<lambda>_. 0) (after kv (at_root value)) (length kv) (addToBranch ops fuel put ?t ?cs kv False)"
    unfolding bpost_def
    by (elim exE conjE, intro exI conjI) (auto simp: Some after_def plook_new_branch tracks_def occ algebra_simps split: option.split simp del: plook_Branch)
  then show ?thesis
    using then_merge_ok [OF _ assms(3,2,4)] by (simp add: branchMany_def Some)
qed

lemma bvalid_Cons_Nil: "bvalid (([], v) # kv) \<Longrightarrow> kv \<noteq> [] \<Longrightarrow> bvalid kv \<and> [] \<notin> fst ` set kv"
  by (auto simp: bvalid_def)

lemma newSubTrieMany_ok:
  assumes "put_good ops L d K put" "L = t_loader ops t" "0 < fuel" "nibbles p"
    and "bvalid kv" "\<forall>k \<in> fst ` set kv. length k \<le> K"
  shows "bpost L d t (\<lambda>_. 0) (below p (after kv (at_root value))) (length kv) (newSubTrieMany ops fuel put t p kv value)"
proof -
  obtain k v kv' where kv: "kv = (k, v) # kv'" using assms(5) by (cases kv) (auto simp: bvalid_def)
  show ?thesis
  proof (cases k)
    case (Cons b k0)
    then show ?thesis using branchMany_ok [OF assms] kv by simp
  next
    case Nil
    show ?thesis
    proof (cases v)
      case None
      show ?thesis
      proof (cases "kv' = []")
        case True
        then show ?thesis using kv Nil None
          by (auto simp: bpost_def tracks_def after_def below_def at_root_def intro!: exI [of _ EmptyNode])
      next
        case False
        from bvalid_Cons_Nil [of v kv'] False assms(5) kv Nil
        have kv': "bvalid kv'" "[] \<notin> fst ` set kv'" by auto
        obtain k1 v1 kv1 where c: "kv' = (k1, v1) # kv1" "k1 \<noteq> []"
          using False kv'(2) by (cases kv') auto
        have "newSubTrieMany ops fuel put t p kv' None = branchMany ops fuel put t p kv' None"
          using c by (cases k1) auto
        moreover have "bpost L d t (\<lambda>_. 0) (below p (after kv' (at_root None))) (length kv') (branchMany ops fuel put t p kv' None)"
          using branchMany_ok [OF assms(1-4) kv'(1)] assms(6) kv by simp
        moreover have "after kv' (at_root None) = after kv (at_root value)"
          using kv'(2) by (auto simp: kv Nil None after_def at_root_def fun_eq_iff map_of_NoneI split: option.split)
        ultimately show ?thesis using False
          by (auto simp: kv Nil None bpost_def)
      qed
    next
      case (Some w)
      show ?thesis
      proof (cases "kv' = []")
        case True
        have "bpost L d t (\<lambda>_. 0) (below p (after kv (at_root value))) 1
            ((psub p (LeafNode w), 1, None), snd (newSubTrie t p (LeafNode w) True))"
        proof (rule bpostI [OF refl])
          show "tracks t (snd (newSubTrie t p (LeafNode w) True)) (\<lambda>_. 0) (occ (psub p (LeafNode w)))"
            by (auto simp: tracks_def newSubTrie_def Let_def occ_psub)
          show "resolves L d (psub p (LeafNode w)) (psub p (LeafNode w))"
            using assms(4) by (intro resolves_self canon_psub) auto
          show "plook (psub p (LeafNode w)) q = below p (after kv (at_root value)) q" for q
            by (auto simp: True kv Nil Some after_def below_def at_root_def)
        qed (use assms(4) in \<open>simp add: canon_psub\<close>)
        moreover have "newSubTrieMany ops fuel put t p kv value
            = ((psub p (LeafNode w), 1, None), snd (newSubTrie t p (LeafNode w) True))"
          by (simp add: True kv Nil Some split_beta)
        ultimately show ?thesis by (simp add: True kv)
      next
        case False
        have "after kv (at_root (Some w)) = after kv (at_root value)"
          by (auto simp: kv Nil Some after_def at_root_def fun_eq_iff split: option.split)
        then show ?thesis using branchMany_ok [OF assms, of "Some w"] False by (simp add: kv Nil Some)
      qed
    qed
  qed
qed

lemma putBatchIntoExtensionNoPrefix_ok:
  assumes "put_good ops L d K put" "L = t_loader ops t" "0 < fuel" "resolves L d n T" "canon (ExtensionNode key T)"
    and "bvalid kv" "\<forall>k \<in> fst ` set kv. length k \<le> K"
  shows "bpost L d t (occ T) (after kv (plook (ExtensionNode key T))) (length kv)
    (putBatchIntoExtensionNoPrefix ops fuel put t key n kv)"
proof -
  obtain x key' where key: "key = x # key'" "x < 16" using assms(5) by (cases key) auto
  obtain s t1 where s: "(if 1 < length key then newSubTrie t (tl key) n False else (n, t)) = (s, t1)" by fastforce
  have s_eq: "s = psub key' n" "t1 = snd (newSubTrie t key' n False)"
    using s key fst_newSubTrie [of t key' n False] by (auto simp: psub_def newSubTrie_def Let_def split: if_splits)
  let ?Ts = "NewBranchNode[unat x := psub key' T]"
  have r: "resolves L d s (psub key' T)" unfolding s_eq by (rule resolves_psub [OF assms(4)])
  have res: "list_all2 (resolves L d) (NewBranchNode[unat x := s]) ?Ts"
    by (intro resolves_update resolves_New r)
  have c: "canon (psub key' T)" using assms(5) key by (auto intro: canon_psub)
  then have kids: "kids_ok ?Ts" using key by (intro kids_ok_update) auto
  have occ: "kids_occ ?Ts h = occ (psub key' T) h" for h
    using kids_occ_update [of "unat x" NewBranchNode "psub key' T" h] key by simp
  have sb: "same_base t t1" "L = t_loader ops t1"
    using same_base_newSubTrie [of t t key' n False] t_loader_same_base [of t t1 ops] assms(2) by (auto simp: s_eq)
  have "bpost L d t1 (kids_occ ?Ts) (after kv (plook (BranchNode ?Ts))) (length kv)
      (addToBranch ops fuel put t1 (NewBranchNode[unat x := s]) kv False)"
    using addToBranch_ok [OF assms(1) sb(2) res kids assms(3,6,7), of False] by simp
  then obtain n' t' T' where b: "addToBranch ops fuel put t1 (NewBranchNode[unat x := s]) kv False = ((n', length kv, None), t')"
      "tracks t1 t' (kids_occ ?Ts) (occ T')" "resolves L d n' T'" "canon T'"
      "\<And>p. nibbles p \<Longrightarrow> plook T' p = after kv (plook (BranchNode ?Ts)) p"
    unfolding bpost_def by blast
  have "ref t1 h = ref t h + of_nat (if key' = [] then 0 else self_occ (ExtensionNode key' T) h)" for h
    using ref_newSubTrie [of t key' n False s t1 h] s_eq self_occ_resolves [OF resolves.res_Ext [OF assms(4), of key']]
    by (auto simp: newSubTrie_def Let_def)
  then have "tracks t t1 (occ T) (kids_occ ?Ts)"
    using sb(1) by (auto simp: tracks_def occ occ_psub algebra_simps)
  then have track: "tracks t t' (occ T) (occ T')" using b(2) by (rule tracks_trans)
  have look: "plook (BranchNode ?Ts) p = plook (ExtensionNode key T) p" if "nibbles p" for p
    using that key by (cases p) (auto simp: nth_list_update)
  show ?thesis
  proof (rule bpostI [OF _ track b(3,4)])
    show "putBatchIntoExtensionNoPrefix ops fuel put t key n kv = ((n', length kv, None), t')"
    proof -
      have "\<not> childrenCount \<le> unat (hd key)"
        using key nibble_idx [OF key(2)] by (simp add: childrenCount_def)
      then show ?thesis
        unfolding putBatchIntoExtensionNoPrefix_def s using b(1) by (simp add: key(1))
    qed
    show "plook T' p = after kv (plook (ExtensionNode key T)) p" if "nibbles p" for p
      using b(5) [OF that] look [OF that] by (simp add: after_def split: option.split del: plook.simps plook_Branch)
  qed
qed

lemma plook_Ext_below: "plook (ExtensionNode key T) = below key (plook T)"
  by (auto simp: below_def fun_eq_iff)

lemma putBatchIntoExtension_ok:
  assumes "put_good ops L d K put" "L = t_loader ops t" "0 < fuel" "resolves L d n T" "canon (ExtensionNode key T)"
    and "bvalid kv" "\<forall>k \<in> fst ` set kv. length k \<le> K"
  shows "bpost L d t (occ (ExtensionNode key T)) (after kv (plook (ExtensionNode key T))) (length kv)
    (putBatchIntoExtension ops fuel put t key n kv)"
proof -
  define pref where "pref = lcp (lcpMany kv) key"
  let ?t = "removeRef t (ExtensionNode key n)"
  have L: "L = t_loader ops ?t" using assms(2) by simp
  have kvne: "kv \<noteq> []" using assms(6) by (simp add: bvalid_def)
  obtain a key' where pk: "lcpMany kv = pref @ a" "key = pref @ key'"
    unfolding pref_def by (rule lcp_prefix)
  have start: "all_start pref kv" using all_start_lcpMany [OF kvne] pk(1) by (rule all_start_prefix)
  have nib: "nibbles pref" using nibbles_start [OF assms(6) start] .
  note valid' = bvalid_strip [OF assms(6) start]
  have short: "\<forall>k \<in> fst ` set (stripPrefix (length pref) kv). length k + length pref \<le> K"
    using start assms(7) by (force simp: stripPrefix_def all_start_def)
  have wrap: "bpost L d t (occ (ExtensionNode key T)) m c res" if "bpost L d ?t (occ T) m c res" for m c res
    using that self_occ_resolves [OF resolves.res_Ext [OF assms(4), of key]]
    unfolding bpost_def by (elim exE conjE) (auto intro!: exI elim!: tracks_removed)
  show ?thesis
  proof (cases "key' = []")
    case True
    then have key: "key = pref" "pref \<noteq> []" using pk(2) assms(5) by auto
    have "\<forall>k \<in> fst ` set (stripPrefix (length pref) kv). length k < K"
      using short key(2) by (metis add_leE length_greater_0_conv less_add_same_cancel1 order_less_le_trans)
    then have "bpost L d ?t (occ T) (after (stripPrefix (length pref) kv) (plook T)) (length kv)
        (put ?t n (stripPrefix (length pref) kv))"
      using put_goodD [OF assms(1) L assms(4) _ valid'] assms(5) by simp
    from then_merge_ok [OF this assms(3) L nib]
    have "bpost L d ?t (occ T) (after kv (plook (ExtensionNode key T))) (length kv)
        (then_merge ops fuel pref (put ?t n (stripPrefix (length pref) kv)))"
      unfolding plook_Ext_below key(1) after_strip [OF start] .
    moreover have "putBatchIntoExtension ops fuel put t key n kv
        = then_merge ops fuel pref (put ?t n (stripPrefix (length pref) kv))"
      unfolding putBatchIntoExtension_def Let_def pref_def [symmetric] using key(1) by (simp only: refl if_True)
    ultimately show ?thesis using wrap by metis
  next
    case False
    have ck: "canon (ExtensionNode key' T)" using assms(5) pk(2) False by auto
    have "\<forall>k \<in> fst ` set (stripPrefix (length pref) kv). length k \<le> K" using short by auto
    from putBatchIntoExtensionNoPrefix_ok [OF assms(1) L assms(3,4) ck valid' this]
    have b: "bpost L d ?t (occ T) (after (stripPrefix (length pref) kv) (plook (ExtensionNode key' T))) (length kv)
        (putBatchIntoExtensionNoPrefix ops fuel put ?t key' n (stripPrefix (length pref) kv))" by simp
    have look: "plook (ExtensionNode key T) = below pref (plook (ExtensionNode key' T))"
      by (auto simp: pk(2) below_def fun_eq_iff take_append_iff) (simp_all add: add.commute)
    show ?thesis
    proof (cases "pref = []")
      case True
      then have "stripPrefix (length pref) kv = kv" "key' = key" using pk(2) by (simp_all add: stripPrefix_def)
      moreover have "putBatchIntoExtension ops fuel put t key n kv
          = putBatchIntoExtensionNoPrefix ops fuel put ?t key n kv"
        unfolding putBatchIntoExtension_def Let_def pref_def [symmetric] using True False pk(2) by simp
      ultimately show ?thesis using wrap [OF b] by (metis)
    next
      case pne: False
      from then_merge_ok [OF b assms(3) L nib]
      have "bpost L d ?t (occ T) (after kv (plook (ExtensionNode key T))) (length kv)
          (then_merge ops fuel pref (putBatchIntoExtensionNoPrefix ops fuel put ?t key' n (stripPrefix (length pref) kv)))"
        unfolding look after_strip [OF start] .
      moreover have "putBatchIntoExtension ops fuel put t key n kv = then_merge ops fuel pref
          (putBatchIntoExtensionNoPrefix ops fuel put ?t key' n (stripPrefix (length pref) kv))"
        unfolding putBatchIntoExtension_def Let_def pref_def [symmetric] using pne False by (simp add: pk(2))
      ultimately show ?thesis using wrap by metis
    qed
  qed
qed

lemma bpost_removed:
  assumes "bpost L d (removeRef t n) f m c res" "\<And>h. f' h = self_occ n h + f h"
  shows "bpost L d t f' m c res"
  using assms(1) unfolding bpost_def by (elim exE conjE) (auto intro!: exI elim!: tracks_removed simp: assms(2))

lemma below_Nil [simp]: "below [] m = m"
  by (simp add: below_def fun_eq_iff)

lemma newSubTrieMany_single:
  "bpost L d t (\<lambda>_. 0) (at_root v) (Suc 0) (newSubTrieMany ops fuel put t [] [([], v)] value)"
proof (cases v)
  case None
  then show ?thesis by (auto simp: bpost_def at_root_def tracks_def intro!: exI [of _ EmptyNode])
next
  case (Some w)
  show ?thesis
    by (rule bpostI [where n' = "LeafNode w" and T' = "LeafNode w" and t' = "addRef t (LeafNode w)"])
      (auto simp: Some newSubTrie_def at_root_def tracks_def)
qed

lemma after_root:
  assumes "is_leaf_or_empty T"
  shows "after [([], v)] (plook T) = at_root v"
  using assms by (cases T) (auto simp: after_def at_root_def fun_eq_iff)

lemma putBatch_at_root:
  assumes "resolves L d n T" "proper n \<or> n = EmptyNode" "is_leaf_or_empty T"
  shows "bpost L d t (occ T) (at_root v) (Suc 0) (putBatchIntoNode ops (Suc f) t n [([], v)])"
proof (cases n)
  case (LeafNode w)
  then have T: "T = LeafNode w" using assms(1) by auto
  show ?thesis
    using bpost_removed [OF newSubTrieMany_single, where f' = "occ T" and n = "LeafNode w"] by (simp add: LeafNode T)
next
  case EmptyNode
  then have T: "T = EmptyNode" using assms(1) by auto
  have "occ T = (\<lambda>_. 0)" by (simp add: T fun_eq_iff)
  then show ?thesis using newSubTrieMany_single
    by (simp add: EmptyNode putBatchIntoEmpty_def lcpMany_def stripPrefix_def)
qed (use assms in \<open>auto\<close>)

lemma putBatch_proper:
  assumes "put_good ops L d K (putBatchIntoNode ops f)" "L = t_loader ops t" "0 < f"
    and "resolves L d n T" "proper n \<or> n = EmptyNode" "canon T"
    and "bvalid kv" "\<forall>k \<in> fst ` set kv. length k \<le> K"
  shows "bpost L d t (occ T) (after kv (plook T)) (length kv) (putBatchIntoNode ops (Suc f) t n kv)"
proof (cases n)
  case (LeafNode w)
  then have T: "T = LeafNode w" using assms(4) by auto
  have "L = t_loader ops (removeRef t (LeafNode w))" using assms(2) by simp
  from newSubTrieMany_ok [OF assms(1) this assms(3) _ assms(7,8), of "[]" "Some w"]
  have "bpost L d (removeRef t (LeafNode w)) (\<lambda>_. 0) (after kv (at_root (Some w))) (length kv)
      (putBatchIntoNode ops (Suc f) t n kv)" by (simp add: LeafNode)
  moreover have "at_root (Some w) = plook T" by (auto simp: T at_root_def fun_eq_iff)
  ultimately show ?thesis using bpost_removed [of L d t "LeafNode w" "\<lambda>_. 0" _ _ _ "occ T"] by (simp add: T)
next
  case EmptyNode
  then have T: "T = EmptyNode" using assms(4) by auto
  have ne: "kv \<noteq> []" using assms(7) by (simp add: bvalid_def)
  note start = all_start_lcpMany [OF ne]
  have "\<forall>k \<in> fst ` set (stripPrefix (length (lcpMany kv)) kv). length k \<le> K"
    using assms(8) by (force simp: stripPrefix_def)
  from newSubTrieMany_ok [OF assms(1-3) nibbles_start [OF assms(7) start] bvalid_strip [OF assms(7) start] this, of None]
  have "bpost L d t (\<lambda>_. 0) (after kv (below (lcpMany kv) (at_root None))) (length kv) (putBatchIntoNode ops (Suc f) t n kv)"
    by (simp add: EmptyNode putBatchIntoEmpty_def Let_def after_strip [OF start])
  moreover have "below (lcpMany kv) (at_root None) = plook T" "occ T = (\<lambda>_. 0)"
    by (auto simp: T below_def at_root_def fun_eq_iff)
  ultimately show ?thesis by simp
next
  case (BranchNode cs)
  then obtain Ts where T: "T = BranchNode Ts" "list_all2 (resolves L d) cs Ts" using assms(4) by auto
  then have "kids_ok Ts" using assms(6) by (simp add: canon_Branch)
  from addToBranch_ok [OF assms(1,2) T(2) this assms(3,7,8), of True] show ?thesis
    by (simp add: BranchNode T(1))
next
  case (ExtensionNode key m)
  then obtain T' where T: "T = ExtensionNode key T'" "resolves L d m T'" using assms(4) by auto
  with assms(6) have "canon (ExtensionNode key T')" by simp
  from putBatchIntoExtension_ok [OF assms(1-3) T(2) this assms(7,8)] show ?thesis
    by (simp add: ExtensionNode T(1) del: occ.simps plook.simps)
qed (use assms(5) in auto)

text \<open>Enough fuel for keys of at most \<open>K\<close> nibbles: two calls per nibble, one of them for a hash node.\<close>

lemma putBatch_resolved:
  assumes step: "\<And>t n d. L = t_loader ops t \<Longrightarrow> resolves L d n T \<Longrightarrow> proper n \<or> n = EmptyNode \<Longrightarrow>
      bpost L d t (occ T) m c (putBatchIntoNode ops f t n kv)
      \<and> bpost L d t (occ T) m c (putBatchIntoNode ops (Suc f) t n kv)"
    and "L = t_loader ops t" "resolves L d n T"
  shows "bpost L d t (occ T) m c (putBatchIntoNode ops (Suc f) t n kv)"
proof (cases "\<exists>h. n = HashNode h")
  case True
  then obtain h where h: "n = HashNode h" by blast
  with assms(3) obtain n1 d0 where n1: "L h = Some n1" "proper n1" "resolves L d0 n1 T" "d = Suc d0"
    by (auto elim: res_HashE)
  then obtain t1 where t1: "t_getFromStore ops t h = (Inr n1, t1)" "same_base t t1"
    using assms(2) by (auto elim: t_getFromStore_loader)
  have "L = t_loader ops t1" using assms(2) t_loader_same_base [OF t1(2)] by metis
  from step [OF this n1(3)] n1(2) have "bpost L d0 t1 (occ T) m c (putBatchIntoNode ops f t1 n1 kv)" by blast
  from bpost_loaded [OF this t1(2) ref_getFromStore [OF t1(1)], of d] show ?thesis
    using n1(4) by (simp add: h t1(1))
next
  case False
  then have "proper n \<or> n = EmptyNode" by (cases n) auto
  with step [OF assms(2,3)] show ?thesis by blast
qed

lemma putBatchIntoNode_ok:
  assumes "2 * K + 4 \<le> fuel" "L = t_loader ops t" "resolves L d n T" "canon T" "bvalid kv"
    and "\<forall>k \<in> fst ` set kv. length k \<le> K"
  shows "bpost L d t (occ T) (after kv (plook T)) (length kv) (putBatchIntoNode ops fuel t n kv)"
  using assms
proof (induction K arbitrary: fuel t n T kv d rule: less_induct)
  case (less K)
  have good: "put_good ops L d K (putBatchIntoNode ops f)" if f: "2 * K + 2 \<le> f" for f d
    unfolding put_good_def
  proof (intro allI impI)
    fix t n T g
    assume a: "L = t_loader ops t" "resolves L d n T" "canon T" "bvalid g"
      "(\<forall>k\<in>fst ` set g. length k < K) \<or> is_leaf_or_empty T \<and> (\<exists>v. g = [([], v)])"
    show "bpost L d t (occ T) (after g (plook T)) (length g) (putBatchIntoNode ops f t n g)"
    proof (cases "\<forall>k\<in>fst ` set g. length k < K")
      case True
      have "0 < K" using a(4) True by (cases g) (auto simp: bvalid_def)
      with True f less.IH [of "K - 1" f t d n T g] a show ?thesis by fastforce
    next
      case False
      with a(5) obtain v where g: "is_leaf_or_empty T" "g = [([], v)]" by blast
      obtain f' where f': "f = Suc (Suc f')" using f by (cases f; cases "f - 1") auto
      have "bpost L d t (occ T) (at_root v) (Suc 0) (putBatchIntoNode ops (Suc (Suc f')) t n [([], v)])"
        by (rule putBatch_resolved [OF _ a(1,2)]) (use g(1) putBatch_at_root in blast)
      then show ?thesis by (simp add: f' g(2) after_root [OF g(1)] del: putBatchIntoNode.simps)
    qed
  qed
  obtain f where f: "fuel = Suc (Suc f)" "2 * K + 2 \<le> f"
    using less.prems(1) by (cases fuel; cases "fuel - 1") auto
  have "bpost L d t (occ T) (after kv (plook T)) (length kv) (putBatchIntoNode ops (Suc (Suc f)) t n kv)"
  proof (rule putBatch_resolved [OF _ less.prems(2,3)])
    fix t n d assume a: "L = t_loader ops t" "resolves L d n T" "proper n \<or> n = EmptyNode"
    have "0 < f" "2 * K + 2 \<le> Suc f" using f(2) by auto
    then show "bpost L d t (occ T) (after kv (plook T)) (length kv) (putBatchIntoNode ops (Suc f) t n kv)
        \<and> bpost L d t (occ T) (after kv (plook T)) (length kv) (putBatchIntoNode ops (Suc (Suc f)) t n kv)"
      using putBatch_proper [OF good a(1) _ a(2,3) less.prems(4-6)] f(2) by blast
  qed
  then show ?case by (simp add: f(1) del: putBatchIntoNode.simps)
qed

end
