(* ===== verification/MptBatchMap.thy ===== *)
theory MptBatchMap
  imports MptBatch
begin

text \<open>
  The batch update of \<open>batch.go\<close> as an operation on the map the trie holds, and its equivalence with the
  single operations of \<open>trie.go\<close>.
\<close>

section \<open>A batch of storage changes\<close>

text \<open>Changes of a block: storage keys carry a prefix byte that \<open>MapToMPTBatch\<close> drops, so the keys are
  distinct without it.\<close>

definition changes_ok :: "gomap \<Rightarrow> bool" where
  "changes_ok ch \<longleftrightarrow> distinct (map (tl \<circ> fst) ch)
     \<and> (\<forall>(k, v) \<in> set ch. 2 \<le> length k \<and> length k \<le> Suc MaxKeyLength \<and> (\<forall>w. v = Some w \<longrightarrow> length w \<le> MaxValueLength))"

definition change_ops :: "gomap \<Rightarrow> (bytes, bytes) map_op list" where
  "change_ops ch = map (\<lambda>(k, v). case v of Some w \<Rightarrow> MPut (tl k) w | None \<Rightarrow> MDel (tl k)) ch"

definition changed :: "gomap \<Rightarrow> (bytes \<rightharpoonup> bytes) \<Rightarrow> (bytes \<rightharpoonup> bytes)" where
  "changed ch m k = (case map_of (map (\<lambda>(k, v). (tl k, v)) ch) k of Some v \<Rightarrow> v | None \<Rightarrow> m k)"

lemma fold_change_ops: "distinct (map (tl \<circ> fst) ch) \<Longrightarrow> fold apply_op (change_ops ch) m = changed ch m"
proof (induction ch arbitrary: m)
  case (Cons x ch)
  obtain k v where x: "x = (k, v)" by force
  have "map_of (map (\<lambda>(k, v). (tl k, v)) ch) (tl k) = None"
    using Cons.prems by (force simp: x map_of_eq_None_iff)
  moreover have "fold apply_op (change_ops (x # ch)) m = changed ch (apply_op (case v of Some w \<Rightarrow> MPut (tl k) w | None \<Rightarrow> MDel (tl k)) m)"
    using Cons by (simp add: x change_ops_def)
  ultimately show ?case by (cases v) (auto simp: x changed_def fun_eq_iff split: option.splits)
qed (simp add: change_ops_def changed_def fun_eq_iff)

lemma change_ops_ok:
  assumes "changes_ok ch"
  shows "list_all (op_ok key_ok put_ok) (change_ops ch)"
proof -
  have "op_ok key_ok put_ok (case v of Some w \<Rightarrow> MPut (tl k) w | None \<Rightarrow> MDel (tl k))" if "(k, v) \<in> set ch" for k v
  proof -
    from assms that have kv: "2 \<le> length k" "length k \<le> Suc MaxKeyLength" "\<forall>w. v = Some w \<longrightarrow> length w \<le> MaxValueLength"
      unfolding changes_ok_def by blast+
    from kv(1) have "tl k \<noteq> []" by (cases k) auto
    with kv show ?thesis by (cases v) (simp_all add: put_ok_def key_ok_def)
  qed
  then show ?thesis by (auto simp: change_ops_def list_all_iff)
qed

lemma batch_of_changes:
  assumes "changes_ok ch" "ch \<noteq> []"
  shows "bvalid (MapToMPTBatch ch)" and "length (MapToMPTBatch ch) = length ch"
    and "\<forall>k \<in> fst ` set (MapToMPTBatch ch). length k \<le> 2 * MaxKeyLength"
    and "map_of (MapToMPTBatch ch) (toNibbles k) = map_of (map (\<lambda>(k, v). (tl k, v)) ch) k"
    and "map_of (MapToMPTBatch ch) p = Some v \<Longrightarrow> \<exists>k. p = toNibbles k \<and> key_ok k \<and> (\<forall>w. v = Some w \<longrightarrow> length w \<le> MaxValueLength)"
proof -
  define ps where "ps = map (\<lambda>(k, v). (strToNibbles k, v)) ch"
  have snib: "strToNibbles k = toNibbles (tl k)" for k by (cases k) (simp_all add: strToNibbles_def toNibbles_def)
  have b: "MapToMPTBatch ch = sort_key fst ps" by (simp add: MapToMPTBatch_def ps_def)
  have fs: "map fst ps = map toNibbles (map (tl \<circ> fst) ch)" by (auto simp: ps_def snib)
  have d: "distinct (map fst ps)" unfolding fs using assms(1)
    by (auto simp: changes_ok_def distinct_map inj_on_def)
  have sorted: "sorted (map fst (sort_key fst ps))" by simp
  have d': "distinct (map fst (sort_key fst ps))"
    using d by (simp add: distinct_map)
  have ne: "sort_key fst ps \<noteq> []"
    using assms(2) by (metis length_0_conv length_map length_sort ps_def)
  have "sorted_wrt (<) (map fst (sort_key fst ps))" using sorted d' by (simp add: strict_sorted_iff)
  then show "bvalid (MapToMPTBatch ch)"
    using assms(2) ne unfolding bvalid_def b by (auto simp: ps_def snib)
  show "length (MapToMPTBatch ch) = length ch" by (simp add: b ps_def)
  show "\<forall>k \<in> fst ` set (MapToMPTBatch ch). length k \<le> 2 * MaxKeyLength"
    using assms(1) by (force simp: b ps_def snib changes_ok_def)
  have mo: "map_of (MapToMPTBatch ch) = map_of ps"
    using d d' unfolding b by (intro map_of_inject_set [THEN iffD2]) auto
  show "map_of (MapToMPTBatch ch) (toNibbles k) = map_of (map (\<lambda>(k, v). (tl k, v)) ch) k"
    unfolding mo ps_def by (induction ch) (auto simp: snib)
  show "\<exists>k. p = toNibbles k \<and> key_ok k \<and> (\<forall>w. v = Some w \<longrightarrow> length w \<le> MaxValueLength)"
    if "map_of (MapToMPTBatch ch) p = Some v"
    using map_of_SomeD [OF that [unfolded mo]] assms(1)
    by (auto simp: ps_def snib changes_ok_def key_ok_def split_beta)
qed

lemma PutBatch_rep:
  assumes "trie_rep ops d t m" "changes_ok ch" "4 * MaxKeyLength + 4 \<le> fuel"
  shows "\<exists>t'. PutBatch ops fuel t (MapToMPTBatch ch) = ((length ch, None), t') \<and> trie_rep ops d t' (changed ch m)"
proof (cases "ch = []")
  case True
  then show ?thesis using assms(1) by (simp add: PutBatch_def MapToMPTBatch_def changed_def [abs_def])
next
  case False
  note b = batch_of_changes [OF assms(2) False]
  obtain T where T: "resolves (t_loader ops t) d (t_root t) T" "tree_holds T m"
    using assms(1) by (auto simp: trie_rep_def)
  then have "canon T" by (simp add: tree_holds_def)
  have "2 * (2 * MaxKeyLength) + 4 \<le> fuel" using assms(3) by simp
  from putBatchIntoNode_ok [OF this refl T(1) \<open>canon T\<close> b(1,3)]
  obtain n' t' T' where r: "putBatchIntoNode ops fuel t (t_root t) (MapToMPTBatch ch) = ((n', length ch, None), t')"
      "tracks t t' (occ T) (occ T')" "resolves (t_loader ops t) d n' T'" "canon T'"
      "\<And>p. nibbles p \<Longrightarrow> plook T' p = after (MapToMPTBatch ch) (plook T) p"
    unfolding bpost_def b(2) by blast
  have "tree_holds T' (changed ch m)" unfolding tree_holds_def
  proof (intro conjI allI impI)
    show mk: "changed ch m k = plook T' (toNibbles k)" for k
      using T(2) by (auto simp: r(5) after_def b(4) changed_def tree_holds_def split: option.splits)
    show "\<exists>k. p = toNibbles k \<and> key_ok k" if "nibbles p" "plook T' p \<noteq> None" for p
      using that T(2) b(5) [of p] by (auto simp: r(5) after_def tree_holds_def split: option.splits)
    show "length v \<le> MaxValueLength" if "changed ch m k = Some v" for k v
      using that T(2) b(5) [of "toNibbles k"] unfolding tree_holds_def
      by (auto simp: changed_def b(4) split: option.splits)
  qed (use r(4) in simp)
  then show ?thesis using r(1,3) tracks_base [OF r(2)] False b(2)
    by (auto simp: PutBatch_def trie_rep_def same_base_def)
qed

text \<open>C14. The one-pass batch update is equivalent to the sequence of single operations: on every trie whose
  hash nodes can be resolved, \<open>PutBatch\<close> of the changes of a block processes all of them without an
  error, and the trie it leaves has the state root, and the answer to every \<open>Get\<close>, that applying the
  changes one by one with \<open>Put\<close> and \<open>Delete\<close> leaves. The depth of the calls is at most 276.\<close>

theorem PutBatch_is_sequential:
  assumes "trie_rep ops d t m" and "changes_ok ch" and "276 \<le> fuel" and "key_ok k"
  shows "\<exists>t1 t2. PutBatch ops fuel t (MapToMPTBatch ch) = ((length ch, None), t1)
    \<and> run_ops (trie_Get ops (Suc d)) (\<lambda>t k v. trie_Put ops (Suc d) t k (Some v)) (trie_Delete ops (Suc d)) (change_ops ch) t = Some t2
    \<and> StateRoot t1 = StateRoot t2
    \<and> fst (trie_Get ops (Suc d) t1 k) = fst (trie_Get ops (Suc d) t2 k)"
proof -
  have "4 * MaxKeyLength + 4 \<le> fuel" using assms(3) by (simp add: MaxKeyLength_def maxPathLength_def)
  then obtain t1 where t1: "PutBatch ops fuel t (MapToMPTBatch ch) = ((length ch, None), t1)" "trie_rep ops d t1 (changed ch m)"
    using PutBatch_rep [OF assms(1,2)] by blast
  obtain t2 where t2: "run_ops (trie_Get ops (Suc d)) (\<lambda>t k v. trie_Put ops (Suc d) t k (Some v)) (trie_Delete ops (Suc d))
      (change_ops ch) t = Some t2" "trie_rep ops d t2 (changed ch m)"
    using trie.run_rep [OF assms(1) change_ops_ok [OF assms(2)]] fold_change_ops [of ch m] assms(2)
    by (auto simp: changes_ok_def)
  show ?thesis
    using t1 t2 StateRoot_same [OF t1(2) t2(2)] trie_Get_rep [OF t1(2) lessI assms(4)] trie_Get_rep [OF t2(2) lessI assms(4)]
    by auto
qed

theorem PutBatch_is_sequential_witness:
  "\<exists>t1 t2. PutBatch mem_ops 276 (NewTrie None ModeAll (NewMemCachedStore NewMemoryStore))
      (MapToMPTBatch [([0x70, 0x13], Some [8]), ([0x70, 0x12], Some [7]), ([0x70, 0x44], None)]) = ((3, None), t1)
    \<and> run_ops (trie_Get mem_ops 1) (\<lambda>t k v. trie_Put mem_ops 1 t k (Some v)) (trie_Delete mem_ops 1)
        (change_ops [([0x70, 0x13], Some [8]), ([0x70, 0x12], Some [7]), ([0x70, 0x44], None)])
        (NewTrie None ModeAll (NewMemCachedStore NewMemoryStore)) = Some t2
    \<and> StateRoot t1 = StateRoot t2"
  using PutBatch_is_sequential [OF NewTrie_rep [of mem_ops 0 ModeAll "NewMemCachedStore NewMemoryStore"],
      of "[([0x70, 0x13], Some [8]), ([0x70, 0x12], Some [7]), ([0x70, 0x44], None)]" 276 "[]"]
  by (auto simp: changes_ok_def key_ok_def MaxKeyLength_def maxPathLength_def MaxValueLength_def)

end
