(* ===== verification/MptProof.thy ===== *)
theory MptProof
  imports MptMap
begin

text \<open>
  Model of \<open>pkg/core/mpt/proof.go\<close>: \<open>GetProof\<close> collects the serialized nodes on the path to a key and
  \<open>VerifyProof\<close> looks the key up in a trie whose only stored nodes are those of the proof. A proof of
  \<open>GetProof\<close> is accepted, and nothing but the value the trie holds is, unless double SHA-256 collides on
  the nodes involved.
\<close>

section \<open>Proofs\<close>

text \<open>\<open>getProof\<close>: the node with the hash nodes on the path resolved, and the proof so far, which is also
  extended when there is an error.\<close>

function getProof ::
  "'s store_ops \<Rightarrow> nat \<Rightarrow> 's trie \<Rightarrow> node \<Rightarrow> bytes \<Rightarrow> bytes list \<Rightarrow> ((trie_err + node) \<times> bytes list) \<times> 's trie" where
  "getProof ops fuel t (LeafNode v) path proofs =
    (if length path = 0 then ((Inr (LeafNode v), proofs @ [node_Bytes (LeafNode v)]), t)
     else ((Inl ErrNotFound, proofs), t))"
| "getProof ops fuel t (BranchNode cs) path proofs =
    (case splitPath path of (i, path') \<Rightarrow>
      if unat i < length cs then
        (case getProof ops fuel t (cs ! unat i) path' (proofs @ [node_Bytes (BranchNode cs)]) of
           ((Inl e, ps), t') \<Rightarrow> ((Inl e, ps), t')
         | ((Inr r, ps), t') \<Rightarrow> ((Inr (BranchNode (cs[unat i := r])), ps), t'))
      else ((Inl (MptPanic ''index out of range''), proofs @ [node_Bytes (BranchNode cs)]), t))"
| "getProof ops fuel t (ExtensionNode key nxt) path proofs =
    (if HasPrefix path key then
       (case getProof ops fuel t nxt (drop (length key) path) (proofs @ [node_Bytes (ExtensionNode key nxt)]) of
          ((Inl e, ps), t') \<Rightarrow> ((Inl e, ps), t')
        | ((Inr r, ps), t') \<Rightarrow> ((Inr (ExtensionNode key r), ps), t'))
     else ((Inl ErrNotFound, proofs), t))"
| "getProof ops fuel t (HashNode h) path proofs =
    (case fuel of 0 \<Rightarrow> ((Inl NoFuel, proofs), t)
     | Suc f \<Rightarrow>
       (case t_getFromStore ops t h of
          (Inl e, t') \<Rightarrow> ((Inl e, proofs), t')
        | (Inr r, t') \<Rightarrow> getProof ops f t' r path proofs))"
| "getProof ops fuel t EmptyNode path proofs = ((Inl ErrNotFound, proofs), t)"
  by pat_completeness auto
termination
  by (relation "measures [\<lambda>(ops, fuel, t, n, path, proofs). fuel, \<lambda>(ops, fuel, t, n, path, proofs). size n]")
    (auto simp: size_nth_less)

definition GetProof :: "'s store_ops \<Rightarrow> nat \<Rightarrow> 's trie \<Rightarrow> bytes \<Rightarrow> (bytes list \<times> trie_err option) \<times> 's trie" where
  "GetProof ops fuel t key =
    (if MaxKeyLength < length key then (([], Some (BadArg ''key is too big'')), t)
     else case getProof ops fuel t (t_root t) (toNibbles key) [] of
       ((Inl e, proof), t') \<Rightarrow> ((proof, Some e), t')
     | ((Inr r, proof), t') \<Rightarrow> ((proof, None), t'\<lparr>t_root := r\<rparr>))"

text \<open>The loop of \<open>VerifyProof\<close> over the proof nodes.\<close>

definition proof_store :: "bytes list \<Rightarrow> mem_store mem_cached \<Rightarrow> mem_store mem_cached" where
  "proof_store proofs = fold (\<lambda>p store. case mc_Put store (makeStorageKey (DoubleSha256 p)) (Some p) of
     Inl _ \<Rightarrow> store | Inr store' \<Rightarrow> store') proofs"

text \<open>\<open>VerifyProof\<close>: \<open>Inr (Some v)\<close> is \<open>(v, true)\<close>, \<open>Inr None\<close> is \<open>(nil, false)\<close>, and \<open>Inl\<close> a panic.\<close>

definition VerifyProof :: "nat \<Rightarrow> hash256 \<Rightarrow> bytes \<Rightarrow> bytes list \<Rightarrow> trie_err + bytes option" where
  "VerifyProof fuel rh key proofs =
    (let tr = NewTrie (Some (HashNode rh)) ModeAll (NewMemCachedStore NewMemoryStore);
         tr1 = tr\<lparr>t_Store := proof_store proofs (t_Store tr)\<rparr>
     in case fst (getWithPath mem_ops fuel tr1 (t_root tr1) (toNibbles key) True) of
          Inl (MptPanic s) \<Rightarrow> Inl (MptPanic s)
        | Inl NoFuel \<Rightarrow> Inl NoFuel
        | Inl _ \<Rightarrow> Inr None
        | Inr (_, LeafNode v, _) \<Rightarrow> Inr (Some v)
        | Inr _ \<Rightarrow> Inl (MptPanic ''interface conversion''))"

section \<open>The nodes of a trie\<close>

fun subnodes :: "node \<Rightarrow> node set" where
  "subnodes EmptyNode = {}"
| "subnodes (HashNode h) = {}"
| "subnodes (LeafNode v) = {LeafNode v}"
| "subnodes (BranchNode cs) = insert (BranchNode cs) (\<Union>c \<in> set cs. subnodes c)"
| "subnodes (ExtensionNode key n) = insert (ExtensionNode key n) (subnodes n)"

text \<open>The nodes on the path to a key, from the root.\<close>

fun path_nodes :: "node \<Rightarrow> bytes \<Rightarrow> node list" where
  "path_nodes (LeafNode v) p = [LeafNode v]"
| "path_nodes (BranchNode cs) p =
    (case splitPath p of (i, q) \<Rightarrow> BranchNode cs # (if unat i < length cs then path_nodes (cs ! unat i) q else []))"
| "path_nodes (ExtensionNode key n) p = ExtensionNode key n # path_nodes n (drop (length key) p)"
| "path_nodes _ p = []"

lemma path_nodes_sub: "set (path_nodes T p) \<subseteq> subnodes T"
proof (induction T p rule: path_nodes.induct)
  case (2 cs p)
  show ?case
  proof (cases "splitPath p")
    case (Pair i q)
    then show ?thesis using 2 [OF Pair [symmetric]] by (auto simp del: splitPath_simps) (meson in_mono nth_mem)
  qed
qed auto

text \<open>A store that knows each node of the trie either not at all or correctly.\<close>

definition fetched :: "'s store_ops \<Rightarrow> 's trie \<Rightarrow> hash256 \<Rightarrow> trie_err + node" where
  "fetched ops t h = fst (t_getFromStore ops t h)"

definition knows :: "(hash256 \<Rightarrow> trie_err + node) \<Rightarrow> node \<Rightarrow> bool" where
  "knows G T \<longleftrightarrow> (\<forall>S \<in> subnodes T. G (node_Hash S) = Inl (StoreErr ErrKeyNotFound) \<or> G (node_Hash S) = Inr (shallow S))"

lemma fetchedE:
  obtains t' where "t_getFromStore ops t h = (fetched ops t h, t')" "fetched ops t' = fetched ops t"
proof
  show "t_getFromStore ops t h = (fetched ops t h, snd (t_getFromStore ops t h))" by (simp add: fetched_def)
  show "fetched ops (snd (t_getFromStore ops t h)) = fetched ops t"
    by (auto simp: fetched_def t_getFromStore_def fun_eq_iff split: sum.splits option.splits)
qed

lemma knows_Branch: "knows G (BranchNode cs) \<Longrightarrow> c \<in> set cs \<Longrightarrow> knows G c"
  by (auto simp: knows_def)

lemma knows_Ext: "knows G (ExtensionNode key n) \<Longrightarrow> knows G n"
  by (auto simp: knows_def)

lemma proper_node:
  assumes "T \<noteq> EmptyNode" "canon T"
  shows "as_child T = HashNode (node_Hash T)" "T \<in> subnodes T"
  using assms by (cases T; simp)+

text \<open>The lookup of \<open>VerifyProof\<close> on the trie \<open>T\<close> given by its root hash.\<close>

definition found :: "node \<Rightarrow> bytes \<Rightarrow> (trie_err + node \<times> node \<times> bytes) \<Rightarrow> bool" where
  "found T p res \<longleftrightarrow> (case res of
     Inr (_, leaf, _) \<Rightarrow> \<exists>v. leaf = LeafNode v \<and> plook T p = Some v
   | Inl e \<Rightarrow> e = ErrNotFound \<or> e = NoFuel)"

definition on_path :: "(hash256 \<Rightarrow> trie_err + node) \<Rightarrow> nat \<Rightarrow> node \<Rightarrow> bytes \<Rightarrow> bool" where
  "on_path G fuel T p \<longleftrightarrow> length (path_nodes T p) \<le> fuel \<and> (\<forall>S \<in> set (path_nodes T p). G (node_Hash S) = Inr (shallow S))"

lemma getWithPath_knows:
  assumes "knows G T" "canon T" "nibbles p" "G = fetched ops t"
  shows "found T p (fst (getWithPath ops fuel t (as_child T) p True))
    \<and> (on_path G fuel T p \<longrightarrow> plook T p \<noteq> None \<longrightarrow> (\<exists>x. fst (getWithPath ops fuel t (as_child T) p True) = Inr x))"
  using assms
proof (induction T arbitrary: p t fuel)
  case EmptyNode
  then show ?case by (simp add: found_def)
next
  case (HashNode h)
  then show ?case by simp
next
  case (LeafNode v)
  obtain t' where t': "t_getFromStore ops t (node_Hash (LeafNode v)) = (G (node_Hash (LeafNode v)), t')"
    using fetchedE LeafNode.prems(4) by metis
  have "G (node_Hash (LeafNode v)) = Inl (StoreErr ErrKeyNotFound) \<or> G (node_Hash (LeafNode v)) = Inr (LeafNode v)"
    using LeafNode.prems(1) by (simp add: knows_def)
  with t' show ?case by (cases fuel) (auto simp: found_def on_path_def simp del: node_Hash.simps)
next
  case (BranchNode cs)
  let ?n = "BranchNode cs"
  obtain t' where t': "t_getFromStore ops t (node_Hash ?n) = (G (node_Hash ?n), t')" "G = fetched ops t'"
    using fetchedE BranchNode.prems(4) by metis
  have G: "G (node_Hash ?n) = Inl (StoreErr ErrKeyNotFound) \<or> G (node_Hash ?n) = Inr (shallow ?n)"
    using BranchNode.prems(1) by (simp add: knows_def)
  obtain i q where i: "splitPath p = (i, q)" "unat i < 17" "unat i = 16 \<longrightarrow> q = []" "nibbles q"
    using splitPath_nibbles [OF BranchNode.prems(3)] .
  have len: "length cs = 17" "\<forall>c \<in> set cs. canon c" using BranchNode.prems(2) by (auto simp: canon_Branch kids_ok_def childrenCount_def)
  have c: "cs ! unat i \<in> set cs" using i len by simp
  have look: "plook ?n p = plook (cs ! unat i) q" "path_nodes ?n p = ?n # path_nodes (cs ! unat i) q"
    using i len by (simp_all add: plook.simps(4))
  show ?case
  proof (cases fuel)
    case (Suc f)
    note IH = BranchNode.IH [OF c knows_Branch [OF BranchNode.prems(1) c] _ i(4) t'(2), of f]
    have "found (cs ! unat i) q (fst (getWithPath ops f t' (as_child (cs ! unat i)) q True))
      \<and> (on_path G f (cs ! unat i) q \<longrightarrow> plook (cs ! unat i) q \<noteq> None \<longrightarrow> (\<exists>x. fst (getWithPath ops f t' (as_child (cs ! unat i)) q True) = Inr x))"
      using IH len c by blast
    then show ?thesis using G t'(1) i len Suc
      by (auto simp: found_def on_path_def look simp del: node_Hash.simps split: sum.splits prod.splits)
  qed (simp add: found_def on_path_def look del: path_nodes.simps)
next
  case (ExtensionNode key T)
  let ?n = "ExtensionNode key T"
  obtain t' where t': "t_getFromStore ops t (node_Hash ?n) = (G (node_Hash ?n), t')" "G = fetched ops t'"
    using fetchedE ExtensionNode.prems(4) by metis
  have G: "G (node_Hash ?n) = Inl (StoreErr ErrKeyNotFound) \<or> G (node_Hash ?n) = Inr (shallow ?n)"
    using ExtensionNode.prems(1) by (simp add: knows_def)
  have "nibbles (drop (length key) p)" "canon T" using ExtensionNode.prems(2,3) by (auto simp: nibbles_def dest: in_set_dropD)
  then show ?case
  proof (cases fuel)
    case (Suc f)
    have "found T (drop (length key) p) (fst (getWithPath ops f t' (as_child T) (drop (length key) p) True))
      \<and> (on_path G f T (drop (length key) p) \<longrightarrow> plook T (drop (length key) p) \<noteq> None
         \<longrightarrow> (\<exists>x. fst (getWithPath ops f t' (as_child T) (drop (length key) p) True) = Inr x))"
      by (rule ExtensionNode.IH [OF knows_Ext [OF ExtensionNode.prems(1)] _ _ t'(2)]) fact+
    then show ?thesis using G t'(1) Suc
      by (cases "take (length key) p = key")
        (auto simp: found_def on_path_def HasPrefix_take simp del: node_Hash.simps split: sum.splits prod.splits)
  qed (simp add: found_def on_path_def)
qed

section \<open>The nodes fit the decoder\<close>

lemma child_path:
  assumes "kids_ok cs" "i < 17" "nibbles p" "plook (cs ! i) p = Some v"
  shows "\<exists>p'. nibbles p' \<and> plook (BranchNode cs) p' = Some v \<and> length p \<le> length p'"
proof (cases "i = 16")
  case True
  then have "p = []" using assms(4) kids_ok_last [OF assms(1)] by (cases "cs ! 16") (auto split: if_splits)
  then show ?thesis using assms True by (intro exI [of _ "[]"]) auto
next
  case False
  then have "unat (of_nat i :: byte) = i" using assms(2) by (simp add: unat_of_nat)
  then show ?thesis using assms False
    by (intro exI [of _ "of_nat i # p"]) (auto simp: word_less_nat_alt)
qed

lemma canon_hash_ok: "canon T \<Longrightarrow> hash_ok T"
  by (cases T) auto

lemma subnodes_fit:
  assumes "canon T" "\<forall>p v. nibbles p \<longrightarrow> plook T p = Some v \<longrightarrow> length p \<le> maxPathLength \<and> length v \<le> MaxValueLength"
  shows "\<forall>S \<in> subnodes T. node_fits S"
  using assms
proof (induction T)
  case (LeafNode v)
  then show ?case using LeafNode.prems(2) [rule_format, of "[]" v] by simp
next
  case (BranchNode cs)
  then have cs: "kids_ok cs" "length cs = 17" by (auto simp: canon_Branch kids_ok_def childrenCount_def)
  have "\<forall>S \<in> subnodes c. node_fits S" if mem: "c \<in> set cs" for c
  proof -
    obtain i where i: "i < 17" "c = cs ! i" using mem cs(2) by (auto simp: in_set_conv_nth)
    have "canon c" using cs(1) mem by (simp add: kids_ok_def)
    moreover have "length p \<le> maxPathLength \<and> length v \<le> MaxValueLength" if "nibbles p" "plook c p = Some v" for p v
      using child_path [OF cs(1) i(1) that(1)] that(2) i(2) BranchNode.prems(2) by (meson order_trans)
    ultimately show ?thesis using BranchNode.IH [OF mem] by blast
  qed
  then show ?case using cs by (auto simp: childrenCount_def kids_ok_def canon_hash_ok)
next
  case (ExtensionNode key n)
  then have n: "canon n" "nibbles key" "n \<noteq> EmptyNode" by auto
  have ext: "length key + length p \<le> maxPathLength \<and> length v \<le> MaxValueLength" if "nibbles p" "plook n p = Some v" for p v
    using ExtensionNode.prems(2) [rule_format, of "key @ p" v] that n(2) by simp
  obtain p v where "nibbles p" "plook n p = Some v" using canon_nonempty [OF n(1,3)] by blast
  then have "length key \<le> maxPathLength" using ext by fastforce
  moreover have "\<forall>S \<in> subnodes n. node_fits S" using ExtensionNode.IH [OF n(1)] ext by fastforce
  ultimately show ?case using n(1) by (simp add: canon_hash_ok)
qed auto

lemma tree_holds_fit:
  assumes "tree_holds T m"
  shows "\<forall>S \<in> subnodes T. node_fits S"
proof (rule subnodes_fit)
  show "\<forall>p v. nibbles p \<longrightarrow> plook T p = Some v \<longrightarrow> length p \<le> maxPathLength \<and> length v \<le> MaxValueLength"
  proof (intro allI impI)
    fix p v assume p: "nibbles p" "plook T p = Some v"
    then obtain k where k: "p = toNibbles k" "key_ok k" using assms by (auto simp: tree_holds_def)
    then have "m k = Some v" using assms p by (simp add: tree_holds_def)
    then have "length v \<le> MaxValueLength" using assms by (simp add: tree_holds_def)
    then show "length p \<le> maxPathLength \<and> length v \<le> MaxValueLength"
      using k by (simp add: key_ok_def MaxKeyLength_def maxPathLength_def)
  qed
qed (use assms in \<open>simp add: tree_holds_def\<close>)

section \<open>The store of a proof\<close>

lemma proof_store_lookup:
  "map_of (mem (mc_mem (proof_store ps c))) (makeStorageKey h)
    = (case map_of (rev (map (\<lambda>p. (DoubleSha256 p, p)) ps)) h of
         Some p \<Rightarrow> Some (Some p) | None \<Rightarrow> map_of (mem (mc_mem c)) (makeStorageKey h))"
proof (induction ps arbitrary: c)
  case (Cons p ps)
  define c' where "c' = c\<lparr>mc_mem := (mc_mem c)\<lparr>mem := AList.update (makeStorageKey (DoubleSha256 p)) (Some p) (mem (mc_mem c))\<rparr>\<rparr>"
  have "proof_store (p # ps) c = proof_store ps c'"
    by (simp add: proof_store_def mc_Put_def mem_put_def makeStorageKey_def STStorage_def STTempStorage_def c'_def)
  moreover have "map_of (mem (mc_mem c')) (makeStorageKey h)
      = (if h = DoubleSha256 p then Some (Some p) else map_of (mem (mc_mem c)) (makeStorageKey h))"
    by (auto simp: c'_def map_of_update makeStorageKey_def)
  ultimately show ?case using Cons.IH [of c'] by (simp add: map_add_def split: option.splits)
qed (simp add: proof_store_def)

lemma proof_store_ps: "mc_ps (proof_store ps c) = mc_ps c"
  by (induction ps arbitrary: c) (auto simp: proof_store_def mc_Put_def split: sum.splits)

definition proof_trie :: "hash256 \<Rightarrow> bytes list \<Rightarrow> mem_store trie" where
  "proof_trie rh proofs = \<lparr>t_Store = proof_store proofs (NewMemCachedStore NewMemoryStore), t_root = HashNode rh,
     t_mode = ModeAll, t_refcount = []\<rparr>"

lemma ModeAll_flags [simp]: "\<not> RC ModeAll" "\<not> GC ModeAll"
  by (simp_all add: RC_def GC_def ModeAll_def)

lemma fetched_proof:
  "fetched mem_ops (proof_trie rh ps) h =
    (case map_of (rev (map (\<lambda>p. (DoubleSha256 p, p)) ps)) h of
       None \<Rightarrow> Inl (StoreErr ErrKeyNotFound)
     | Some p \<Rightarrow> (case decode_stored ModeAll p of Inl e \<Rightarrow> Inl e | Inr (n, _, _) \<Rightarrow> Inr n))"
proof -
  have "mc_Get mem_ops (proof_store ps (NewMemCachedStore NewMemoryStore)) (makeStorageKey h)
      = (case map_of (rev (map (\<lambda>p. (DoubleSha256 p, p)) ps)) h of None \<Rightarrow> Inl ErrKeyNotFound | Some p \<Rightarrow> Inr p)"
    using proof_store_lookup [of ps "NewMemCachedStore NewMemoryStore" h]
    by (auto simp: mc_Get_def layer_Get_def chooseMap_def makeStorageKey_def STStorage_def STTempStorage_def
        proof_store_ps NewMemCachedStore_def NewMemoryStore_def mem_ops_def mem_Get_def split: option.splits)
  then show ?thesis
    by (auto simp: fetched_def t_getFromStore_def getFromStore_def proof_trie_def split: option.splits sum.splits)
qed

lemma decode_stored_node: "node_fits S \<Longrightarrow> decode_stored ModeAll (node_Bytes S) = Inr (shallow S, node_Bytes S, 0)"
  using decode_node [of S "[]"]
  by (cases S) (auto simp: decode_stored_def NewBinReaderFromBuf_def)

section \<open>Collecting a proof\<close>

lemma getProof_refines:
  assumes "resolves L d n T" "d < fuel" "L = t_loader ops t" "canon T" "nibbles p"
  shows "(case plook T p of
       Some v \<Rightarrow> \<exists>n' t'. getProof ops fuel t n p ps = ((Inr n', ps @ map node_Bytes (path_nodes T p)), t')
                  \<and> same_base t t' \<and> resolves L d n' T
     | None \<Rightarrow> \<exists>qs t'. getProof ops fuel t n p ps = ((Inl ErrNotFound, qs), t'))"
  using assms
proof (induction arbitrary: fuel t p ps rule: resolves.induct)
  case (res_Branch d cs Ts)
  have len: "length cs = 17" "length Ts = 17" "kids_ok Ts"
    using res_Branch by (auto simp: canon_Branch list_all2_lengthD dest: list_all2_lengthD)
  obtain i q where i: "splitPath p = (i, q)" "unat i < 17" "unat i = 16 \<longrightarrow> q = []" "nibbles q"
    using splitPath_nibbles [OF res_Branch.prems(4)] .
  have look: "plook (BranchNode Ts) p = plook (Ts ! unat i) q"
      "path_nodes (BranchNode Ts) p = BranchNode Ts # path_nodes (Ts ! unat i) q"
    using i len by (simp_all add: plook.simps(4))
  have all: "list_all2 (resolves L d) cs Ts" using res_Branch.IH by (rule list_all2_mono) blast
  have bytes: "node_Bytes (BranchNode cs) = node_Bytes (BranchNode Ts)"
    using resolves_hash [OF resolves.res_Branch [OF all]] by simp
  have "case plook (Ts ! unat i) q of
       Some v \<Rightarrow> \<exists>n' t'. getProof ops fuel t (cs ! unat i) q ps' = ((Inr n', ps' @ map node_Bytes (path_nodes (Ts ! unat i) q)), t')
                  \<and> same_base t t' \<and> resolves L d n' (Ts ! unat i)
     | None \<Rightarrow> \<exists>qs t'. getProof ops fuel t (cs ! unat i) q ps' = ((Inl ErrNotFound, qs), t')" for ps'
    using res_Branch.IH res_Branch.prems(1,2) i len by (auto simp: list_all2_conv_all_nth)
  note IH = this [of "ps @ [node_Bytes (BranchNode Ts)]"]
  have upd: "resolves L d (BranchNode (cs[unat i := n'])) (BranchNode Ts)"
    if "resolves L d n' (Ts ! unat i)" for n'
    using resolves_update [OF all that, of "unat i"] by (simp add: resolves.res_Branch)
  show ?case unfolding look using IH upd i len bytes
    by (auto split: option.splits simp del: node_Bytes.simps)
next
  case (res_Ext d n T key)
  have bytes: "node_Bytes (ExtensionNode key n) = node_Bytes (ExtensionNode key T)"
    using resolves_hash [OF resolves.res_Ext [OF res_Ext.hyps]] by simp
  show ?case
  proof (cases "HasPrefix p key")
    case True
    then obtain q where p: "p = key @ q" by (metis HasPrefix_take append_take_drop_id)
    then show ?thesis using True bytes res_Ext.IH [of fuel t q "ps @ [node_Bytes (ExtensionNode key T)]"] res_Ext.prems
      by (auto split: option.splits simp del: node_Bytes.simps)
  next
    case False
    then show ?thesis by (simp add: HasPrefix_take)
  qed
next
  case (res_Hash h n T d)
  obtain f where f: "fuel = Suc f" "d < f" using res_Hash.prems(1) by (cases fuel) auto
  obtain t1 where t1: "t_getFromStore ops t h = (Inr n, t1)" "same_base t t1"
    using res_Hash.hyps(1) res_Hash.prems(2) by (auto elim: t_getFromStore_loader)
  have L: "L = t_loader ops t1" using res_Hash.prems(2) t_loader_same_base [OF t1(2)] by metis
  show ?case
    using res_Hash.IH [OF f(2) L res_Hash.prems(3,4), of ps] f t1
    by (auto split: option.splits intro: same_base_trans elim!: resolves_mono)
qed (auto)

section \<open>Verifying a proof\<close>

text \<open>The nodes whose hashes must not collide: those of the trie and those of the proof.\<close>

definition no_collision :: "node \<Rightarrow> bytes list \<Rightarrow> bool" where
  "no_collision T proofs \<longleftrightarrow> inj_on DoubleSha256 (node_Bytes ` subnodes T \<union> set proofs)"

lemma subnode_Hash: "S \<in> subnodes T \<Longrightarrow> node_Hash S = DoubleSha256 (node_Bytes S)"
  by (induction T) auto

lemma fetched_subnode:
  assumes "no_collision T proofs" "S \<in> subnodes T" "node_fits S"
  shows "fetched mem_ops (proof_trie rh proofs) (node_Hash S) =
    (if node_Bytes S \<in> set proofs then Inr (shallow S) else Inl (StoreErr ErrKeyNotFound))"
proof -
  let ?m = "map_of (rev (map (\<lambda>p. (DoubleSha256 p, p)) proofs)) (node_Hash S)"
  note h = subnode_Hash [OF assms(2)]
  have "p = node_Bytes S" if "?m = Some p" for p
    using map_of_SomeD [OF that] assms(1,2) by (auto simp: h no_collision_def inj_on_def)
  moreover have "?m = None \<longleftrightarrow> node_Bytes S \<notin> set proofs"
    using assms(1,2) by (force simp: h map_of_eq_None_iff no_collision_def inj_on_def)
  ultimately show ?thesis
    by (cases ?m) (auto simp: fetched_proof decode_stored_node [OF assms(3)])
qed

lemma VerifyProof_spec:
  assumes "tree_holds T m" "T \<noteq> EmptyNode" "no_collision T proofs"
  shows "VerifyProof fuel (node_Hash T) key proofs \<in> {Inr (m key), Inr None, Inl NoFuel}"
    and "m key = Some v \<Longrightarrow> map node_Bytes (path_nodes T (toNibbles key)) = proofs \<Longrightarrow> length proofs \<le> fuel
      \<Longrightarrow> VerifyProof fuel (node_Hash T) key proofs = Inr (Some v)"
proof -
  have c: "canon T" "m key = plook T (toNibbles key)" using assms(1) by (auto simp: tree_holds_def)
  let ?t = "proof_trie (node_Hash T) proofs"
  let ?g = "fst (getWithPath mem_ops fuel ?t (as_child T) (toNibbles key) True)"
  have G: "fetched mem_ops ?t (node_Hash S) = (if node_Bytes S \<in> set proofs then Inr (shallow S) else Inl (StoreErr ErrKeyNotFound))"
    if "S \<in> subnodes T" for S
    using fetched_subnode [OF assms(3) that] tree_holds_fit [OF assms(1)] that by blast
  have g: "found T (toNibbles key) ?g
    \<and> (on_path (fetched mem_ops ?t) fuel T (toNibbles key) \<longrightarrow> plook T (toNibbles key) \<noteq> None \<longrightarrow> (\<exists>x. ?g = Inr x))"
    by (rule getWithPath_knows) (use G c in \<open>auto simp: knows_def\<close>)
  have vp: "VerifyProof fuel (node_Hash T) key proofs = (case ?g of
          Inl (MptPanic s) \<Rightarrow> Inl (MptPanic s)
        | Inl NoFuel \<Rightarrow> Inl NoFuel
        | Inl _ \<Rightarrow> Inr None
        | Inr (_, LeafNode v, _) \<Rightarrow> Inr (Some v)
        | Inr _ \<Rightarrow> Inl (MptPanic ''interface conversion''))"
    by (simp add: VerifyProof_def Let_def NewTrie_def proof_trie_def proper_node(1) [OF assms(2) c(1)] cong: sum.case_cong)
  show "VerifyProof fuel (node_Hash T) key proofs \<in> {Inr (m key), Inr None, Inl NoFuel}"
    using g by (cases ?g) (auto simp: vp found_def c(2))
  show "VerifyProof fuel (node_Hash T) key proofs = Inr (Some v)"
    if key: "m key = Some v" "map node_Bytes (path_nodes T (toNibbles key)) = proofs" "length proofs \<le> fuel"
  proof -
    have "on_path (fetched mem_ops ?t) fuel T (toNibbles key)"
      using key(2,3) path_nodes_sub [of T "toNibbles key"] G by (auto simp: on_path_def)
    then obtain x where "?g = Inr x" using g key(1) c(2) by auto
    then show ?thesis using g key(1) c(2) by (cases x) (auto simp: vp found_def)
  qed
qed

lemma GetProof_rep:
  assumes "resolves (t_loader ops t) d (t_root t) T" "tree_holds T m" "d < fuel" "key_ok key" "m key = Some v"
  shows "\<exists>t'. GetProof ops fuel t key = ((map node_Bytes (path_nodes T (toNibbles key)), None), t') \<and> trie_rep ops d t' m"
proof -
  have c: "canon T" "plook T (toNibbles key) = Some v" using assms(2,5) by (auto simp: tree_holds_def)
  from getProof_refines [OF assms(1,3) refl c(1), of "toNibbles key" "[]"] c(2)
  obtain n' t' where g: "getProof ops fuel t (t_root t) (toNibbles key) [] = ((Inr n', map node_Bytes (path_nodes T (toNibbles key))), t')"
      "same_base t t'" "resolves (t_loader ops t) d n' T" by auto
  have "trie_rep ops d (t'\<lparr>t_root := n'\<rparr>) m"
    using g(2,3) assms(2) t_loader_same_base [OF g(2)] by (auto simp: trie_rep_def)
  then show ?thesis using g(1) assms(4) by (auto simp: GetProof_def key_ok_def)
qed

lemma no_collision_path: "no_collision T [] \<Longrightarrow> no_collision T (map node_Bytes (path_nodes T p))"
  using path_nodes_sub [of T p] unfolding no_collision_def by (auto elim!: inj_on_subset)

text \<open>A trie of one leaf, for the witnesses below.\<close>

lemma leaf_holds: "tree_holds (LeafNode [7]) [[] \<mapsto> [7]]"
  by (auto simp: tree_holds_def key_ok_def MaxValueLength_def toNibbles_def split: if_splits)

lemma leaf_no_collision: "no_collision (LeafNode [7]) []"
  by (simp add: no_collision_def)

section \<open>Properties\<close>

text \<open>C16. Completeness of proofs: for every key the trie holds, \<open>GetProof\<close> succeeds, keeps the content of
  the trie, and \<open>VerifyProof\<close> with the trie's state root accepts the proof and returns the value. The
  number of hash nodes \<open>VerifyProof\<close> resolves is at most the length of the proof. Hash collisions among
  the nodes of the trie are excluded.\<close>

theorem GetProof_VerifyProof:
  assumes "resolves (t_loader ops t) d (t_root t) T" and "tree_holds T m" and "d < fuel" and "key_ok key"
    and "m key = Some v" and "no_collision T []"
  shows "\<exists>proof t'. GetProof ops fuel t key = ((proof, None), t') \<and> trie_rep ops d t' m
    \<and> (\<forall>fuel'. length proof \<le> fuel' \<longrightarrow> VerifyProof fuel' (StateRoot t) key proof = Inr (Some v))"
proof -
  have ne: "T \<noteq> EmptyNode" using assms(2,5) by (auto simp: tree_holds_def)
  obtain t' where t': "GetProof ops fuel t key = ((map node_Bytes (path_nodes T (toNibbles key)), None), t')" "trie_rep ops d t' m"
    using GetProof_rep [OF assms(1-5)] by blast
  have "StateRoot t = node_Hash T" using StateRoot_rep [OF assms(1)] ne by simp
  then show ?thesis
    using t' VerifyProof_spec(2) [OF assms(2) ne no_collision_path [OF assms(6)] assms(5) refl] by auto
qed

theorem GetProof_VerifyProof_witness:
  "\<exists>proof t'. GetProof mem_ops 1 (NewTrie (Some (LeafNode [7])) ModeAll (NewMemCachedStore NewMemoryStore)) [] = ((proof, None), t')
    \<and> (\<forall>fuel'. length proof \<le> fuel' \<longrightarrow>
        VerifyProof fuel' (StateRoot (NewTrie (Some (LeafNode [7])) ModeAll (NewMemCachedStore NewMemoryStore))) [] proof = Inr (Some [7]))"
  using GetProof_VerifyProof [OF _ leaf_holds _ _ _ leaf_no_collision, of mem_ops "NewTrie (Some (LeafNode [7])) ModeAll (NewMemCachedStore NewMemoryStore)" 0 1 "[]" "[7]"]
  by (auto simp: NewTrie_def key_ok_def)

text \<open>C17. Soundness of proofs: with the state root of a trie, whatever bytes are given as a proof,
  \<open>VerifyProof\<close> returns the value the trie holds for the key or reports failure, and does not panic,
  unless double SHA-256 collides on nodes of the trie and of the proof. (\<open>NoFuel\<close> is a lookup cut off.)\<close>

theorem VerifyProof_sound:
  assumes "resolves (t_loader ops t) d (t_root t) T" and "tree_holds T m" and "T \<noteq> EmptyNode" and "no_collision T proofs"
  shows "VerifyProof fuel (StateRoot t) key proofs \<in> {Inr (m key), Inr None, Inl NoFuel}"
  using VerifyProof_spec(1) [OF assms(2-4)] StateRoot_rep [OF assms(1)] assms(3) by simp

theorem VerifyProof_sound_witness:
  "VerifyProof 5 (StateRoot (NewTrie (Some (LeafNode [7])) ModeAll (NewMemCachedStore NewMemoryStore))) [1] []
    \<in> {Inr None, Inl NoFuel}"
  using VerifyProof_sound [OF _ leaf_holds _ leaf_no_collision, of mem_ops "NewTrie (Some (LeafNode [7])) ModeAll (NewMemCachedStore NewMemoryStore)" 0 5 "[1]"]
  by (auto simp: NewTrie_def)

text \<open>Without a genuine root the verifier can panic: a proof that consists of a serialized empty node,
  with its hash as root, fails a type assertion in \<open>getFromStore\<close>. The RPC method \<open>verifyproof\<close> passes
  both from the request.\<close>

theorem VerifyProof_panics:
  "VerifyProof (Suc fuel) (DoubleSha256 [EmptyT]) key [[EmptyT]] = Inl (MptPanic ''interface conversion'')"
proof -
  let ?t = "proof_trie (DoubleSha256 [EmptyT]) [[EmptyT]]"
  have "decode_stored ModeAll [EmptyT] = Inl (MptPanic ''interface conversion'')"
    by (simp add: decode_stored_def node_DecodeBinary_def DecodeNodeWithType.simps codec_simps NewBinReaderFromBuf_def)
  then have "fetched mem_ops ?t (DoubleSha256 [EmptyT]) = Inl (MptPanic ''interface conversion'')"
    by (simp add: fetched_proof)
  then obtain t' where "t_getFromStore mem_ops ?t (DoubleSha256 [EmptyT]) = (Inl (MptPanic ''interface conversion''), t')"
    using fetchedE by metis
  then show ?thesis
    by (simp add: VerifyProof_def Let_def NewTrie_def proof_trie_def)
qed

end
