(* ===== verification/WitnessRules.thy ===== *)
theory WitnessRules
  imports BinIO
begin

text \<open>
  Model of the witness scopes and rules of \<open>pkg/core/transaction\<close> (\<open>witness_scope.go\<close>,
  \<open>witness_condition.go\<close>, \<open>witness_rule.go\<close>, \<open>signer.go\<close>), of the impersonation registry of
  \<open>pkg/nanvil/impersonate\<close> and of the witness check of \<open>pkg/core/interop/runtime/witness.go\<close> that
  reads both. Public keys are a type parameter \<open>'g\<close>; their codec is an argument of the codecs that
  use it. What the check asks the running virtual machine and the contract storage is a record.
\<close>

section \<open>Conditions\<close>

type_synonym uint160 = bytes

datatype 'g condition =
    ConditionBoolean bool
  | ConditionNot "'g condition"
  | ConditionAnd "'g condition list"
  | ConditionOr "'g condition list"
  | ConditionScriptHash uint160
  | ConditionGroup 'g
  | ConditionCalledByEntry
  | ConditionCalledByContract uint160
  | ConditionCalledByGroup 'g

definition WitnessBoolean :: byte where "WitnessBoolean = 0x00"
definition WitnessNot :: byte where "WitnessNot = 0x01"
definition WitnessAnd :: byte where "WitnessAnd = 0x02"
definition WitnessOr :: byte where "WitnessOr = 0x03"
definition WitnessScriptHash :: byte where "WitnessScriptHash = 0x18"
definition WitnessGroup :: byte where "WitnessGroup = 0x19"
definition WitnessCalledByEntry :: byte where "WitnessCalledByEntry = 0x20"
definition WitnessCalledByContract :: byte where "WitnessCalledByContract = 0x28"
definition WitnessCalledByGroup :: byte where "WitnessCalledByGroup = 0x29"

lemmas cond_type_defs = WitnessBoolean_def WitnessNot_def WitnessAnd_def WitnessOr_def WitnessScriptHash_def WitnessGroup_def WitnessCalledByEntry_def WitnessCalledByContract_def WitnessCalledByGroup_def

definition MaxConditionNesting :: nat where "MaxConditionNesting = 3"
definition maxSubitems :: nat where "maxSubitems = 16"

fun cond_Type :: "'g condition \<Rightarrow> byte" where
  "cond_Type (ConditionBoolean b) = WitnessBoolean"
| "cond_Type (ConditionNot c) = WitnessNot"
| "cond_Type (ConditionAnd cs) = WitnessAnd"
| "cond_Type (ConditionOr cs) = WitnessOr"
| "cond_Type (ConditionScriptHash h) = WitnessScriptHash"
| "cond_Type (ConditionGroup g) = WitnessGroup"
| "cond_Type ConditionCalledByEntry = WitnessCalledByEntry"
| "cond_Type (ConditionCalledByContract h) = WitnessCalledByContract"
| "cond_Type (ConditionCalledByGroup g) = WitnessCalledByGroup"

text \<open>\<open>MatchContext\<close>. A group lookup may fail with an error.\<close>

record 'g match_context =
  GetCallingScriptHash :: uint160
  GetCurrentScriptHash :: uint160
  CallingScriptHasGroup :: "'g \<Rightarrow> string + bool"
  CurrentScriptHasGroup :: "'g \<Rightarrow> string + bool"
  IsCalledByEntry :: bool

fun cond_Match :: "'g match_context \<Rightarrow> 'g condition \<Rightarrow> string + bool"
  and match_all :: "'g match_context \<Rightarrow> 'g condition list \<Rightarrow> string + bool"
  and match_any :: "'g match_context \<Rightarrow> 'g condition list \<Rightarrow> string + bool" where
  "cond_Match ctx (ConditionBoolean b) = Inr b"
| "cond_Match ctx (ConditionNot c) = (case cond_Match ctx c of Inl e \<Rightarrow> Inl e | Inr res \<Rightarrow> Inr (\<not> res))"
| "cond_Match ctx (ConditionAnd cs) = match_all ctx cs"
| "cond_Match ctx (ConditionOr cs) = match_any ctx cs"
| "cond_Match ctx (ConditionScriptHash h) = Inr (h = GetCurrentScriptHash ctx)"
| "cond_Match ctx (ConditionGroup g) = CurrentScriptHasGroup ctx g"
| "cond_Match ctx ConditionCalledByEntry = Inr (IsCalledByEntry ctx)"
| "cond_Match ctx (ConditionCalledByContract h) = Inr (h = GetCallingScriptHash ctx)"
| "cond_Match ctx (ConditionCalledByGroup g) = CallingScriptHasGroup ctx g"
| "match_all ctx [] = Inr True"
| "match_all ctx (c # cs) = (case cond_Match ctx c of Inl e \<Rightarrow> Inl e
     | Inr res \<Rightarrow> if \<not> res then Inr False else match_all ctx cs)"
| "match_any ctx [] = Inr False"
| "match_any ctx (c # cs) = (case cond_Match ctx c of Inl e \<Rightarrow> Inl e
     | Inr res \<Rightarrow> if res then Inr True else match_any ctx cs)"

section \<open>Binary form\<close>

lemma WriteArray_cong [fundef_cong]:
  assumes "xs = ys" "w = w'" "\<And>x v. x \<in> set ys \<Longrightarrow> f x v = g x v"
  shows "WriteArray f xs w = WriteArray g ys w'"
  using assms by (auto simp: WriteArray_def intro!: fold_cong)

fun cond_EncodeBinary :: "('g \<Rightarrow> bin_writer \<Rightarrow> bin_writer) \<Rightarrow> 'g condition \<Rightarrow> bin_writer \<Rightarrow> bin_writer" where
  "cond_EncodeBinary genc (ConditionBoolean b) w = WriteBool b (WriteB WitnessBoolean w)"
| "cond_EncodeBinary genc (ConditionNot c) w = cond_EncodeBinary genc c (WriteB WitnessNot w)"
| "cond_EncodeBinary genc (ConditionAnd cs) w =
    WriteArray (\<lambda>c. cond_EncodeBinary genc c) cs (WriteB WitnessAnd w)"
| "cond_EncodeBinary genc (ConditionOr cs) w =
    WriteArray (\<lambda>c. cond_EncodeBinary genc c) cs (WriteB WitnessOr w)"
| "cond_EncodeBinary genc (ConditionScriptHash h) w = WriteBytes h (WriteB WitnessScriptHash w)"
| "cond_EncodeBinary genc (ConditionGroup g) w = genc g (WriteB WitnessGroup w)"
| "cond_EncodeBinary genc ConditionCalledByEntry w = WriteB WitnessCalledByEntry w"
| "cond_EncodeBinary genc (ConditionCalledByContract h) w = WriteBytes h (WriteB WitnessCalledByContract w)"
| "cond_EncodeBinary genc (ConditionCalledByGroup g) w = genc g (WriteB WitnessCalledByGroup w)"

text \<open>Decoding. \<open>None\<close> is a nil condition; the depth left is a natural number, since it is decreased from
  a positive number only.\<close>

definition readArrayOfConditions ::
  "(bin_reader \<Rightarrow> 'g condition option \<times> bin_reader) \<Rightarrow> bin_reader \<Rightarrow> 'g condition list option \<times> bin_reader" where
  "readArrayOfConditions dec r =
    (let (l, r1) = ReadVarUint r
     in if l = 0 then (None, r1\<lparr>r_err := Some (BadValue ''empty array of conditions'')\<rparr>)
        else if maxSubitems < unat l then (None, r1\<lparr>r_err := Some (BadValue ''too many elements'')\<rparr>)
        else let (a, r2) = decode_elems dec (unat l) r1
             in if r_err r2 \<noteq> None then (None, r2) else (Some (map the a), r2))"

primrec decodeBinaryCondition ::
  "(bin_reader \<Rightarrow> 'g \<times> bin_reader) \<Rightarrow> nat \<Rightarrow> bin_reader \<Rightarrow> 'g condition option \<times> bin_reader" where
  "decodeBinaryCondition gdec 0 r = (None, r\<lparr>r_err := Some (BadValue ''too many nesting levels'')\<rparr>)"
| "decodeBinaryCondition gdec (Suc d) r =
    (let (t, r1) = ReadB r
     in if r_err r1 \<noteq> None then (None, r1)
        else let (res, r2) =
          (if t = WitnessBoolean then (let (b, r2) = ReadBool r1 in (Some (ConditionBoolean b), r2))
           else if t = WitnessNot then (let (c, r2) = decodeBinaryCondition gdec d r1 in (map_option ConditionNot c, r2))
           else if t = WitnessAnd then (let (a, r2) = readArrayOfConditions (decodeBinaryCondition gdec d) r1 in (map_option ConditionAnd a, r2))
           else if t = WitnessOr then (let (a, r2) = readArrayOfConditions (decodeBinaryCondition gdec d) r1 in (map_option ConditionOr a, r2))
           else if t = WitnessScriptHash then (let (h, r2) = ReadBytes (replicate 20 0) r1 in (Some (ConditionScriptHash h), r2))
           else if t = WitnessGroup then (let (g, r2) = gdec r1 in (Some (ConditionGroup g), r2))
           else if t = WitnessCalledByEntry then (Some ConditionCalledByEntry, r1)
           else if t = WitnessCalledByContract then (let (h, r2) = ReadBytes (replicate 20 0) r1 in (Some (ConditionCalledByContract h), r2))
           else if t = WitnessCalledByGroup then (let (g, r2) = gdec r1 in (Some (ConditionCalledByGroup g), r2))
           else (None, r1\<lparr>r_err := Some (BadValue ''invalid condition type'')\<rparr>))
        in if r_err r2 \<noteq> None then (None, r2) else (res, r2))"

definition DecodeBinaryCondition :: "(bin_reader \<Rightarrow> 'g \<times> bin_reader) \<Rightarrow> bin_reader \<Rightarrow> 'g condition option \<times> bin_reader" where
  "DecodeBinaryCondition gdec = decodeBinaryCondition gdec MaxConditionNesting"

section \<open>Rules\<close>

definition WitnessDeny :: byte where "WitnessDeny = 0"
definition WitnessAllow :: byte where "WitnessAllow = 1"

record 'g witness_rule =
  Action :: byte
  Condition :: "'g condition option"

definition rule_EncodeBinary :: "('g \<Rightarrow> bin_writer \<Rightarrow> bin_writer) \<Rightarrow> 'g witness_rule \<Rightarrow> bin_writer \<Rightarrow> bin_writer" where
  "rule_EncodeBinary genc rule w =
    (let w1 = WriteB (Action rule) w
     in case Condition rule of Some c \<Rightarrow> cond_EncodeBinary genc c w1
        | None \<Rightarrow> if w_err w1 \<noteq> None then w1 else w1\<lparr>w_err := Some (BadValue ''nil pointer dereference'')\<rparr>)"

definition rule_DecodeBinary :: "(bin_reader \<Rightarrow> 'g \<times> bin_reader) \<Rightarrow> bin_reader \<Rightarrow> 'g witness_rule \<times> bin_reader" where
  "rule_DecodeBinary gdec r =
    (let (a, r1) = ReadB r
     in if r_err r1 = None \<and> a \<noteq> WitnessDeny \<and> a \<noteq> WitnessAllow
        then (\<lparr>Action = a, Condition = None\<rparr>, r1\<lparr>r_err := Some (BadValue ''unknown witness rule action'')\<rparr>)
        else let (c, r2) = DecodeBinaryCondition gdec r1 in (\<lparr>Action = a, Condition = c\<rparr>, r2))"

section \<open>Scopes and signers\<close>

definition None_scope :: byte where "None_scope = 0"
definition CalledByEntry :: byte where "CalledByEntry = 0x01"
definition CustomContracts :: byte where "CustomContracts = 0x10"
definition CustomGroups :: byte where "CustomGroups = 0x20"
definition Rules :: byte where "Rules = 0x40"
definition Global :: byte where "Global = 0x80"

lemmas scope_defs = None_scope_def CalledByEntry_def CustomContracts_def CustomGroups_def Rules_def Global_def

definition ScopesFromByte :: "byte \<Rightarrow> string + byte" where
  "ScopesFromByte b =
    (if b AND Global \<noteq> 0 \<and> b AND (None_scope OR CalledByEntry OR CustomContracts OR CustomGroups OR Rules) \<noteq> 0
     then Inl ''Global scope can not be combined with other scopes''
     else if b AND NOT (None_scope OR CalledByEntry OR CustomContracts OR CustomGroups OR Rules OR Global) \<noteq> 0
     then Inl ''invalid scope''
     else Inr b)"

record 'g signer =
  Account :: uint160
  Scopes :: byte
  AllowedContracts :: "uint160 list"
  AllowedGroups :: "'g list"
  SRules :: "'g witness_rule list"

definition signer_EncodeBinary :: "('g \<Rightarrow> bin_writer \<Rightarrow> bin_writer) \<Rightarrow> 'g signer \<Rightarrow> bin_writer \<Rightarrow> bin_writer" where
  "signer_EncodeBinary genc c w =
    (let w1 = WriteB (Scopes c) (WriteBytes (Account c) w);
         w2 = (if Scopes c AND CustomContracts \<noteq> 0 then WriteArray WriteBytes (AllowedContracts c) w1 else w1);
         w3 = (if Scopes c AND CustomGroups \<noteq> 0 then WriteArray genc (AllowedGroups c) w2 else w2)
     in if Scopes c AND Rules \<noteq> 0 then WriteArray (rule_EncodeBinary genc) (SRules c) w3 else w3)"

text \<open>A slice that is not read stays nil, the empty list.\<close>

definition read_slice :: "(bin_reader \<Rightarrow> 'a \<times> bin_reader) \<Rightarrow> bin_reader \<Rightarrow> 'a list \<times> bin_reader" where
  "read_slice dec r = (let (xs, r1) = ReadArray dec (Some maxSubitems) r in (case xs of None \<Rightarrow> [] | Some ys \<Rightarrow> ys, r1))"

definition signer_DecodeBinary :: "(bin_reader \<Rightarrow> 'g \<times> bin_reader) \<Rightarrow> bin_reader \<Rightarrow> 'g signer \<times> bin_reader" where
  "signer_DecodeBinary gdec r =
    (let (acc, r1) = ReadBytes (replicate 20 0) r;
         (sc, r2) = ReadB r1;
         c = \<lparr>Account = acc, Scopes = sc, AllowedContracts = [], AllowedGroups = [], SRules = []\<rparr>
     in if sc AND NOT (Global OR CalledByEntry OR CustomContracts OR CustomGroups OR Rules OR None_scope) \<noteq> 0
        then (c, r2\<lparr>r_err := Some (BadValue ''unknown witness scope'')\<rparr>)
        else if sc AND Global \<noteq> 0 \<and> sc \<noteq> Global
        then (c, r2\<lparr>r_err := Some (BadValue ''global scope can not be combined with other scopes'')\<rparr>)
        else let (cs, r3) = (if sc AND CustomContracts \<noteq> 0 then read_slice (ReadBytes (replicate 20 0)) r2 else ([], r2));
                 (gs, r4) = (if sc AND CustomGroups \<noteq> 0 then read_slice gdec r3 else ([], r3));
                 (rs, r5) = (if sc AND Rules \<noteq> 0 then read_slice (rule_DecodeBinary gdec) r4 else ([], r4))
             in (c\<lparr>AllowedContracts := cs, AllowedGroups := gs, SRules := rs\<rparr>, r5))"

section \<open>Well-formed conditions\<close>

text \<open>Conditions within the limits of the decoder; \<open>gv\<close> are the public keys it accepts.\<close>

primrec cond_ok :: "('g \<Rightarrow> bool) \<Rightarrow> nat \<Rightarrow> 'g condition \<Rightarrow> bool" where
  "cond_ok gv 0 c \<longleftrightarrow> False"
| "cond_ok gv (Suc d) c \<longleftrightarrow> (case c of
     ConditionNot c' \<Rightarrow> cond_ok gv d c'
   | ConditionAnd cs \<Rightarrow> cs \<noteq> [] \<and> length cs \<le> maxSubitems \<and> (\<forall>c' \<in> set cs. cond_ok gv d c')
   | ConditionOr cs \<Rightarrow> cs \<noteq> [] \<and> length cs \<le> maxSubitems \<and> (\<forall>c' \<in> set cs. cond_ok gv d c')
   | ConditionScriptHash h \<Rightarrow> length h = 20
   | ConditionCalledByContract h \<Rightarrow> length h = 20
   | ConditionGroup g \<Rightarrow> gv g
   | ConditionCalledByGroup g \<Rightarrow> gv g
   | _ \<Rightarrow> True)"

fun cond_wire :: "('g \<Rightarrow> bytes) \<Rightarrow> 'g condition \<Rightarrow> bytes" where
  "cond_wire gw (ConditionBoolean b) = [WitnessBoolean, if b then 1 else 0]"
| "cond_wire gw (ConditionNot c) = WitnessNot # cond_wire gw c"
| "cond_wire gw (ConditionAnd cs) = WitnessAnd # PutVarUint (of_nat (length cs)) @ concat (map (\<lambda>c. cond_wire gw c) cs)"
| "cond_wire gw (ConditionOr cs) = WitnessOr # PutVarUint (of_nat (length cs)) @ concat (map (\<lambda>c. cond_wire gw c) cs)"
| "cond_wire gw (ConditionScriptHash h) = WitnessScriptHash # h"
| "cond_wire gw (ConditionGroup g) = WitnessGroup # gw g"
| "cond_wire gw ConditionCalledByEntry = [WitnessCalledByEntry]"
| "cond_wire gw (ConditionCalledByContract h) = WitnessCalledByContract # h"
| "cond_wire gw (ConditionCalledByGroup g) = WitnessCalledByGroup # gw g"

lemma fold_writes:
  assumes "\<And>x v. x \<in> set xs \<Longrightarrow> w_err v = None \<Longrightarrow> enc x v = v\<lparr>w_buf := w_buf v @ wire x\<rparr>" "w_err w = None"
  shows "fold enc xs w = w\<lparr>w_buf := w_buf w @ concat (map wire xs)\<rparr>"
  using assms by (induction xs arbitrary: w) simp_all

lemma cond_EncodeBinary_ok:
  assumes "\<And>g v. gv g \<Longrightarrow> w_err v = None \<Longrightarrow> genc g v = v\<lparr>w_buf := w_buf v @ gw g\<rparr>"
  shows "cond_ok gv d c \<Longrightarrow> w_err w = None \<Longrightarrow> cond_EncodeBinary genc c w = w\<lparr>w_buf := w_buf w @ cond_wire gw c\<rparr>"
proof (induction d arbitrary: c w)
  case (Suc d)
  have arr: "WriteArray (\<lambda>c. cond_EncodeBinary genc c) cs v
      = v\<lparr>w_buf := w_buf v @ PutVarUint (of_nat (length cs)) @ concat (map (\<lambda>c. cond_wire gw c) cs)\<rparr>"
    if "\<forall>c \<in> set cs. cond_ok gv d c" "w_err v = None" for cs v
    using that Suc.IH fold_writes [of cs "\<lambda>c. cond_EncodeBinary genc c" "cond_wire gw"]
    by (simp add: WriteArray_def codec_simps)
  show ?case using Suc assms
    by (cases c) (simp_all add: codec_simps WriteB_def WriteBool_def arr)
qed simp

lemma cond_EncodeBinary_err:
  assumes "\<And>g v. w_err v \<noteq> None \<Longrightarrow> genc g v = v"
  shows "w_err w \<noteq> None \<Longrightarrow> cond_EncodeBinary genc c w = w"
  using assms
  by (induction genc c w rule: cond_EncodeBinary.induct) (auto simp: codec_simps WriteB_def WriteBool_def)

lemma decode_elems_Some:
  assumes "\<And>x rest. x \<in> set xs \<Longrightarrow> dec \<lparr>r_buf = wire x @ rest, r_err = None\<rparr> = (Some x, \<lparr>r_buf = rest, r_err = None\<rparr>)"
  shows "decode_elems dec (length xs) \<lparr>r_buf = concat (map wire xs) @ rest, r_err = None\<rparr>
    = (map Some xs, \<lparr>r_buf = rest, r_err = None\<rparr>)"
  using assms by (induction xs) simp_all

lemma readArrayOfConditions_ok:
  assumes "cs \<noteq> []" "length cs \<le> maxSubitems"
    and "\<And>x rest. x \<in> set cs \<Longrightarrow> dec \<lparr>r_buf = wire x @ rest, r_err = None\<rparr> = (Some x, \<lparr>r_buf = rest, r_err = None\<rparr>)"
  shows "readArrayOfConditions dec \<lparr>r_buf = PutVarUint (of_nat (length cs)) @ concat (map wire cs) @ rest, r_err = None\<rparr>
    = (Some cs, \<lparr>r_buf = rest, r_err = None\<rparr>)"
proof -
  have u: "unat (of_nat (length cs) :: u64) = length cs"
    using assms(2) by (simp add: maxSubitems_def unat_of_nat)
  then have "(of_nat (length cs) :: u64) \<noteq> 0" using assms(1) by (auto simp: unat_eq_0 [symmetric])
  then show ?thesis using u assms decode_elems_Some [of cs dec wire rest, OF assms(3)]
    by (simp add: readArrayOfConditions_def codec_simps comp_def)
qed

lemma cond_type_distinct [simp]:
  "WitnessNot \<noteq> WitnessBoolean" "WitnessAnd \<noteq> WitnessBoolean" "WitnessAnd \<noteq> WitnessNot" "WitnessOr \<noteq> WitnessBoolean"
  "WitnessOr \<noteq> WitnessNot" "WitnessOr \<noteq> WitnessAnd" "WitnessScriptHash \<noteq> WitnessBoolean" "WitnessScriptHash \<noteq> WitnessNot"
  "WitnessScriptHash \<noteq> WitnessAnd" "WitnessScriptHash \<noteq> WitnessOr" "WitnessGroup \<noteq> WitnessBoolean" "WitnessGroup \<noteq> WitnessNot"
  "WitnessGroup \<noteq> WitnessAnd" "WitnessGroup \<noteq> WitnessOr" "WitnessGroup \<noteq> WitnessScriptHash"
  "WitnessCalledByEntry \<noteq> WitnessBoolean" "WitnessCalledByEntry \<noteq> WitnessNot" "WitnessCalledByEntry \<noteq> WitnessAnd"
  "WitnessCalledByEntry \<noteq> WitnessOr" "WitnessCalledByEntry \<noteq> WitnessScriptHash" "WitnessCalledByEntry \<noteq> WitnessGroup"
  "WitnessCalledByContract \<noteq> WitnessBoolean" "WitnessCalledByContract \<noteq> WitnessNot" "WitnessCalledByContract \<noteq> WitnessAnd"
  "WitnessCalledByContract \<noteq> WitnessOr" "WitnessCalledByContract \<noteq> WitnessScriptHash" "WitnessCalledByContract \<noteq> WitnessGroup"
  "WitnessCalledByContract \<noteq> WitnessCalledByEntry" "WitnessCalledByGroup \<noteq> WitnessBoolean" "WitnessCalledByGroup \<noteq> WitnessNot"
  "WitnessCalledByGroup \<noteq> WitnessAnd" "WitnessCalledByGroup \<noteq> WitnessOr" "WitnessCalledByGroup \<noteq> WitnessScriptHash"
  "WitnessCalledByGroup \<noteq> WitnessGroup" "WitnessCalledByGroup \<noteq> WitnessCalledByEntry" "WitnessCalledByGroup \<noteq> WitnessCalledByContract"
  by (simp_all add: cond_type_defs)

lemma decode_cond_wire:
  assumes "\<And>g rest. gv g \<Longrightarrow> gdec \<lparr>r_buf = gw g @ rest, r_err = None\<rparr> = (g, \<lparr>r_buf = rest, r_err = None\<rparr>)"
  shows "cond_ok gv d c \<Longrightarrow> decodeBinaryCondition gdec d \<lparr>r_buf = cond_wire gw c @ rest, r_err = None\<rparr>
    = (Some c, \<lparr>r_buf = rest, r_err = None\<rparr>)"
proof (induction d arbitrary: c rest)
  case (Suc d)
  have arr: "readArrayOfConditions (decodeBinaryCondition gdec d)
      \<lparr>r_buf = PutVarUint (of_nat (length cs)) @ concat (map (\<lambda>c. cond_wire gw c) cs) @ rest, r_err = None\<rparr>
    = (Some cs, \<lparr>r_buf = rest, r_err = None\<rparr>)"
    if "cs \<noteq> []" "length cs \<le> maxSubitems" "\<forall>c \<in> set cs. cond_ok gv d c" for cs rest
    using that Suc.IH by (intro readArrayOfConditions_ok) auto
  show ?case using Suc.prems Suc.IH assms
    by (cases c) (simp_all add: codec_simps ReadBool_def ReadBytes_append arr)
qed simp

section \<open>What decoders of untrusted bytes return\<close>

text \<open>A decoder never clears an error, and what it returns without one is \<open>good\<close>.\<close>

locale safe_decoder =
  fixes dec :: "bin_reader \<Rightarrow> 'a \<times> bin_reader" and good :: "'a \<Rightarrow> bool"
  assumes sticky: "r_err r \<noteq> None \<Longrightarrow> r_err (snd (dec r)) \<noteq> None"
    and yields: "dec r = (x, r') \<Longrightarrow> r_err r' = None \<Longrightarrow> good x"
begin

lemma clean: "dec r = (x, r') \<Longrightarrow> r_err r' = None \<Longrightarrow> r_err r = None"
  using sticky [of r] by (cases "r_err r") auto

lemma elems_sticky: "r_err r \<noteq> None \<Longrightarrow> r_err (snd (decode_elems dec l r)) \<noteq> None"
  by (induction l arbitrary: r) (simp_all add: split_beta Let_def sticky del: not_None_eq)

lemma elems_clean: "decode_elems dec l r = (xs, r') \<Longrightarrow> r_err r' = None \<Longrightarrow> r_err r = None"
  using elems_sticky [of r l] by (cases "r_err r") auto

lemma elems_yield:
  "decode_elems dec l r = (xs, r') \<Longrightarrow> r_err r' = None \<Longrightarrow> length xs = l \<and> (\<forall>x \<in> set xs. good x)"
proof (induction l arbitrary: r xs)
  case (Suc l)
  obtain x r1 where x: "dec r = (x, r1)" by fastforce
  obtain ys where ys: "decode_elems dec l r1 = (ys, r')" "xs = x # ys"
    using Suc.prems(1) x by (auto split: prod.splits)
  have "r_err r1 = None" using elems_clean ys(1) Suc.prems(2) by blast
  then have "good x" using yields x by blast
  then show ?case using Suc.IH [OF ys(1) Suc.prems(2)] ys(2) by simp
qed simp

lemma array_yield:
  assumes "ReadArray dec ms r = (x, r')" "r_err r' = None"
  shows "\<exists>xs. x = Some xs \<and> length xs \<le> max_size ms \<and> (\<forall>y \<in> set xs. good y)"
proof -
  have e: "r_err r = None" using assms by (auto simp: ReadArray_def split: if_splits)
  obtain lu r1 where l: "ReadVarUint r = (lu, r1)" by fastforce
  have le: "\<not> max_size ms < unat lu" using assms e l by (auto simp: ReadArray_def)
  obtain xs r2 where xs: "decode_elems dec (unat lu) r1 = (xs, r2)" by fastforce
  have "x = Some xs" "r2 = r'" using assms(1) e l le xs by (auto simp: ReadArray_def)
  then show ?thesis using elems_yield [OF xs] assms(2) le by auto
qed

lemma array_sticky: "r_err r \<noteq> None \<Longrightarrow> r_err (snd (ReadArray dec ms r)) \<noteq> None"
  by (simp add: ReadArray_def)

lemma slice_safe: "safe_decoder (read_slice dec) (\<lambda>xs. length xs \<le> maxSubitems \<and> (\<forall>x \<in> set xs. good x))"
proof
  show "r_err (snd (read_slice dec r)) \<noteq> None" if "r_err r \<noteq> None" for r
    using array_sticky [OF that] by (simp add: read_slice_def split_beta Let_def)
  show "length x \<le> maxSubitems \<and> (\<forall>y \<in> set x. good y)" if "read_slice dec r = (x, r')" "r_err r' = None" for r x r'
    using that array_yield [of "Some maxSubitems" r _ r']
    by (auto simp: read_slice_def max_size_def split_beta Let_def prod_eq_iff)
qed

end

lemma ReadBytes_length: "ReadBytes buf r = (b, r') \<Longrightarrow> length b = length buf"
  by (auto simp: ReadBytes_def read_full_def Let_def split: if_splits)

lemma ReadBytes_sticky: "r_err r \<noteq> None \<Longrightarrow> ReadBytes buf r = (buf, r)"
  by (simp add: ReadBytes_def)

interpretation hash_bytes: safe_decoder "ReadBytes (replicate n 0)" "\<lambda>b. length b = n" for n
  by unfold_locales (auto simp: ReadBytes_sticky dest: ReadBytes_length)

interpretation byte: safe_decoder ReadB "\<lambda>_. True"
  by unfold_locales auto

lemma readArrayOfConditions_safe:
  assumes "safe_decoder dec (\<lambda>x. \<exists>c. x = Some c \<and> P c)"
  shows "safe_decoder (readArrayOfConditions dec)
    (\<lambda>x. \<exists>cs. x = Some cs \<and> cs \<noteq> [] \<and> length cs \<le> maxSubitems \<and> (\<forall>c \<in> set cs. P c))"
proof
  show "r_err (snd (readArrayOfConditions dec r)) \<noteq> None" if "r_err r \<noteq> None" for r
    using that by (simp add: readArrayOfConditions_def)
  fix r x r' assume a: "readArrayOfConditions dec r = (x, r')" "r_err r' = None"
  obtain l r1 where l: "ReadVarUint r = (l, r1)" by fastforce
  obtain xs r2 where xs: "decode_elems dec (unat l) r1 = (xs, r2)" by fastforce
  have b: "l \<noteq> 0" "\<not> maxSubitems < unat l" "r_err r2 = None" "x = Some (map the xs)"
    using a l xs by (auto simp: readArrayOfConditions_def split: if_splits)
  have "length xs = unat l" "\<forall>x \<in> set xs. \<exists>c. x = Some c \<and> P c"
    using safe_decoder.elems_yield [OF assms xs b(3)] by auto
  then show "\<exists>cs. x = Some cs \<and> cs \<noteq> [] \<and> length cs \<le> maxSubitems \<and> (\<forall>c \<in> set cs. P c)"
    using b by (auto simp: unat_eq_0)
qed

lemma decode_cond_safe:
  assumes "safe_decoder gdec gv"
  shows "safe_decoder (decodeBinaryCondition gdec d) (\<lambda>x. \<exists>c. x = Some c \<and> cond_ok gv d c)"
proof (induction d)
  case 0
  show ?case by unfold_locales (auto)
next
  case (Suc d)
  note arr = readArrayOfConditions_safe [OF Suc]
  show ?case
  proof
    show "r_err (snd (decodeBinaryCondition gdec (Suc d) r)) \<noteq> None" if "r_err r \<noteq> None" for r
      using that by simp
    fix r x r' assume a: "decodeBinaryCondition gdec (Suc d) r = (x, r')" "r_err r' = None"
    obtain t r1 where t: "ReadB r = (t, r1)" by fastforce
    have e: "r_err r1 = None" using a t by (auto split: if_splits)
    show "\<exists>c. x = Some c \<and> cond_ok gv (Suc d) c"
      using a t e
      by (auto simp: Let_def split: if_splits prod.splits
          dest!: safe_decoder.yields [OF Suc] safe_decoder.yields [OF arr] safe_decoder.yields [OF assms] ReadBytes_length)
  qed
qed

section \<open>The codecs of rules and signers\<close>

definition rule_ok :: "('g \<Rightarrow> bool) \<Rightarrow> 'g witness_rule \<Rightarrow> bool" where
  "rule_ok gv rule \<longleftrightarrow> (Action rule = WitnessDeny \<or> Action rule = WitnessAllow)
     \<and> (\<exists>c. Condition rule = Some c \<and> cond_ok gv MaxConditionNesting c)"

definition rule_wire :: "('g \<Rightarrow> bytes) \<Rightarrow> 'g witness_rule \<Rightarrow> bytes" where
  "rule_wire gw rule = Action rule # (case Condition rule of None \<Rightarrow> [] | Some c \<Rightarrow> cond_wire gw c)"

lemma rule_codec:
  assumes "wire_codec genc gdec gw gv"
  shows "wire_codec (rule_EncodeBinary genc) (rule_DecodeBinary gdec) (rule_wire gw) (rule_ok gv)"
proof
  fix x :: "'a witness_rule" and w
  show "rule_EncodeBinary genc x w = w\<lparr>w_buf := w_buf w @ rule_wire gw x\<rparr>" if "rule_ok gv x" "w_err w = None"
    using that cond_EncodeBinary_ok [of gv genc gw, OF wire_codec.enc_ok [OF assms]]
    by (auto simp: rule_ok_def rule_EncodeBinary_def rule_wire_def codec_simps WriteB_def)
  show "rule_EncodeBinary genc x w = w" if "w_err w \<noteq> None"
    using that cond_EncodeBinary_err [of genc, OF wire_codec.enc_err [OF assms]]
    by (auto simp: rule_EncodeBinary_def codec_simps WriteB_def Let_def split: option.splits)
  show "rule_DecodeBinary gdec \<lparr>r_buf = rule_wire gw x @ rest, r_err = None\<rparr> = (x, \<lparr>r_buf = rest, r_err = None\<rparr>)"
    if "rule_ok gv x" for rest
    using that decode_cond_wire [of gv gdec gw, OF wire_codec.dec_ok [OF assms]]
    by (cases x) (auto simp: rule_ok_def rule_DecodeBinary_def rule_wire_def codec_simps DecodeBinaryCondition_def)
qed

lemma rule_safe:
  assumes "safe_decoder gdec gv"
  shows "safe_decoder (rule_DecodeBinary gdec) (rule_ok gv)"
proof
  note c = decode_cond_safe [OF assms, of MaxConditionNesting]
  show "r_err (snd (rule_DecodeBinary gdec r)) \<noteq> None" if "r_err r \<noteq> None" for r
    using that safe_decoder.sticky [OF c that] by (simp add: rule_DecodeBinary_def DecodeBinaryCondition_def split_beta Let_def)
  fix r x r' assume a: "rule_DecodeBinary gdec r = (x, r')" "r_err r' = None"
  obtain t r1 where t: "ReadB r = (t, r1)" by fastforce
  obtain cn r2 where cn: "decodeBinaryCondition gdec MaxConditionNesting r1 = (cn, r2)" by fastforce
  have "x = \<lparr>Action = t, Condition = cn\<rparr>" "r2 = r'" "r_err r1 = None \<longrightarrow> t = WitnessDeny \<or> t = WitnessAllow"
    using a t cn by (auto simp: rule_DecodeBinary_def DecodeBinaryCondition_def split: if_splits)
  moreover from this have "r_err r1 = None" using safe_decoder.clean [OF c cn] a(2) by simp
  ultimately show "rule_ok gv x" using safe_decoder.yields [OF c cn] a(2) by (auto simp: rule_ok_def)
qed

text \<open>Signers as they come out of the decoder: the scope is a valid one and the lists of scopes that
  are not set are empty.\<close>

definition scopes_ok :: "byte \<Rightarrow> bool" where
  "scopes_ok s \<longleftrightarrow> s AND NOT (Global OR CalledByEntry OR CustomContracts OR CustomGroups OR Rules OR None_scope) = 0
     \<and> (s AND Global = 0 \<or> s = Global)"

definition sublist_ok :: "byte \<Rightarrow> byte \<Rightarrow> ('a \<Rightarrow> bool) \<Rightarrow> 'a list \<Rightarrow> bool" where
  "sublist_ok s flg P xs \<longleftrightarrow> (if s AND flg \<noteq> 0 then length xs \<le> maxSubitems \<and> (\<forall>x \<in> set xs. P x) else xs = [])"

definition signer_ok :: "('g \<Rightarrow> bool) \<Rightarrow> 'g signer \<Rightarrow> bool" where
  "signer_ok gv s \<longleftrightarrow> length (Account s) = 20 \<and> scopes_ok (Scopes s)
     \<and> sublist_ok (Scopes s) CustomContracts (\<lambda>h. length h = 20) (AllowedContracts s)
     \<and> sublist_ok (Scopes s) CustomGroups gv (AllowedGroups s)
     \<and> sublist_ok (Scopes s) Rules (rule_ok gv) (SRules s)"

definition sublist_wire :: "byte \<Rightarrow> byte \<Rightarrow> ('a \<Rightarrow> bytes) \<Rightarrow> 'a list \<Rightarrow> bytes" where
  "sublist_wire s flg wire xs = (if s AND flg \<noteq> 0 then PutVarUint (of_nat (length xs)) @ concat (map wire xs) else [])"

definition signer_wire :: "('g \<Rightarrow> bytes) \<Rightarrow> 'g signer \<Rightarrow> bytes" where
  "signer_wire gw s = Account s @ [Scopes s] @ sublist_wire (Scopes s) CustomContracts id (AllowedContracts s)
     @ sublist_wire (Scopes s) CustomGroups gw (AllowedGroups s) @ sublist_wire (Scopes s) Rules (rule_wire gw) (SRules s)"

interpretation fixed_bytes: wire_codec WriteBytes "ReadBytes (replicate n 0)" id "\<lambda>b. length b = n" for n
  by unfold_locales (simp_all add: codec_simps ReadBytes_append)

lemma sublist_write:
  assumes "wire_codec enc dec wire valid" "sublist_ok s flg valid xs" "w_err w = None"
  shows "(if s AND flg \<noteq> 0 then WriteArray enc xs w else w) = w\<lparr>w_buf := w_buf w @ sublist_wire s flg wire xs\<rparr>"
  using assms wire_codec.array_enc_ok [OF assms(1)] by (simp add: sublist_ok_def sublist_wire_def)

lemma sublist_read:
  assumes "wire_codec enc dec wire valid" "sublist_ok s flg valid xs"
  shows "(if s AND flg \<noteq> 0 then read_slice dec \<lparr>r_buf = sublist_wire s flg wire xs @ rest, r_err = None\<rparr>
      else ([], \<lparr>r_buf = sublist_wire s flg wire xs @ rest, r_err = None\<rparr>)) = (xs, \<lparr>r_buf = rest, r_err = None\<rparr>)"
proof (cases "s AND flg = 0")
  case False
  have "length xs \<le> max_size (Some maxSubitems)" "length xs < 2 ^ 64" "\<forall>x \<in> set xs. valid x"
    using assms(2) False by (auto simp: sublist_ok_def max_size_def maxSubitems_def)
  from wire_codec.array_dec_ok [OF assms(1) this(3,1,2), of rest] show ?thesis
    using False by (simp add: read_slice_def sublist_wire_def)
qed (use assms(2) in \<open>simp add: sublist_ok_def sublist_wire_def\<close>)

lemma sublist_decoded:
  assumes "safe_decoder dec good" "(if s AND flg \<noteq> 0 then read_slice dec r else ([], r)) = (xs, r')" "r_err r' = None"
  shows "sublist_ok s flg good xs \<and> r_err r = None"
proof (cases "s AND flg = 0")
  case False
  note sl = safe_decoder.slice_safe [OF assms(1)]
  have "read_slice dec r = (xs, r')" using assms(2) False by simp
  then show ?thesis
    using False safe_decoder.yields [OF sl _ assms(3)] safe_decoder.clean [OF sl _ assms(3)] by (auto simp: sublist_ok_def)
qed (use assms in \<open>auto simp: sublist_ok_def\<close>)

lemma signer_codec:
  assumes "wire_codec genc gdec gw gv"
  shows "wire_codec (signer_EncodeBinary genc) (signer_DecodeBinary gdec) (signer_wire gw) (signer_ok gv)"
proof
  note hash = fixed_bytes.wire_codec_axioms [of 20] and rule = rule_codec [OF assms]
  fix s :: "'a signer" and w
  show "signer_EncodeBinary genc s w = w\<lparr>w_buf := w_buf w @ signer_wire gw s\<rparr>" if "signer_ok gv s" "w_err w = None"
    using that sublist_write [OF hash] sublist_write [OF assms] sublist_write [OF rule]
    by (simp add: signer_ok_def signer_EncodeBinary_def signer_wire_def codec_simps WriteB_def Let_def)
  show "signer_EncodeBinary genc s w = w" if "w_err w \<noteq> None"
    using that by (simp add: signer_EncodeBinary_def codec_simps WriteB_def)
  show "signer_DecodeBinary gdec \<lparr>r_buf = signer_wire gw s @ rest, r_err = None\<rparr> = (s, \<lparr>r_buf = rest, r_err = None\<rparr>)"
    if "signer_ok gv s" for rest
  proof -
    have ok: "length (Account s) = 20" "scopes_ok (Scopes s)" using that by (simp_all add: signer_ok_def)
    have lists: "sublist_ok (Scopes s) CustomContracts (\<lambda>h. length h = 20) (AllowedContracts s)"
      "sublist_ok (Scopes s) CustomGroups gv (AllowedGroups s)" "sublist_ok (Scopes s) Rules (rule_ok gv) (SRules s)"
      using that by (simp_all add: signer_ok_def)
    show ?thesis
      using ok sublist_read [OF hash lists(1)] sublist_read [OF assms lists(2)] sublist_read [OF rule lists(3)]
      by (simp add: signer_DecodeBinary_def signer_wire_def ReadBytes_append codec_simps Let_def scopes_ok_def)
  qed
qed

lemma signer_safe:
  assumes "safe_decoder gdec gv"
  shows "safe_decoder (signer_DecodeBinary gdec) (signer_ok gv)"
proof
  note sc = sublist_decoded [OF hash_bytes.safe_decoder_axioms [of 20]] sublist_decoded [OF assms] sublist_decoded [OF rule_safe [OF assms]]
  fix r s r'
  obtain acc r1 where 1: "ReadBytes (replicate 20 0) r = (acc, r1)" by fastforce
  obtain t r2 where 2: "ReadB r1 = (t, r2)" by fastforce
  obtain cs r3 where 3: "(if t AND CustomContracts \<noteq> 0 then read_slice (ReadBytes (replicate 20 0)) r2 else ([], r2)) = (cs, r3)" by fastforce
  obtain gs r4 where 4: "(if t AND CustomGroups \<noteq> 0 then read_slice gdec r3 else ([], r3)) = (gs, r4)" by fastforce
  obtain rs r5 where 5: "(if t AND Rules \<noteq> 0 then read_slice (rule_DecodeBinary gdec) r4 else ([], r4)) = (rs, r5)" by fastforce
  have len: "length acc = 20" using ReadBytes_length [OF 1] by simp
  have cleaned: "r_err r5 = None \<Longrightarrow> r_err r = None"
    using sc(3) [OF 5] sc(2) [OF 4] sc(1) [OF 3] byte.clean [OF 2] hash_bytes.clean [OF 1] by blast
  have dec: "signer_DecodeBinary gdec r = (if scopes_ok t
      then (\<lparr>Account = acc, Scopes = t, AllowedContracts = cs, AllowedGroups = gs, SRules = rs\<rparr>, r5)
      else (\<lparr>Account = acc, Scopes = t, AllowedContracts = [], AllowedGroups = [], SRules = []\<rparr>,
            r2\<lparr>r_err := r_err (snd (signer_DecodeBinary gdec r))\<rparr>))
    \<and> (\<not> scopes_ok t \<longrightarrow> r_err (snd (signer_DecodeBinary gdec r)) \<noteq> None)"
    unfolding signer_DecodeBinary_def 1 2 Let_def prod.case 3 4 5 scopes_ok_def by auto
  show "r_err (snd (signer_DecodeBinary gdec r)) \<noteq> None" if "r_err r \<noteq> None"
    using dec cleaned that by (cases "scopes_ok t") auto
  show "signer_ok gv s" if "signer_DecodeBinary gdec r = (s, r')" "r_err r' = None"
  proof -
    have ok: "scopes_ok t" "r5 = r'" "s = \<lparr>Account = acc, Scopes = t, AllowedContracts = cs, AllowedGroups = gs, SRules = rs\<rparr>"
      using dec that by (auto split: if_splits)
    then show ?thesis
      using sc(3) [OF 5] sc(2) [OF 4] sc(1) [OF 3] that(2) len by (auto simp: signer_ok_def)
  qed
qed

end
