(* ===== verification/Transaction.thy ===== *)
theory Transaction
  imports WitnessRules Hashing
begin

text \<open>
  Model of \<open>pkg/core/transaction\<close>: attributes (\<open>attribute.go\<close>, \<open>attrtype.go\<close> and one file per
  attribute), witnesses (\<open>witness.go\<close>) and transactions with their binary form, validity check and
  cached hash and size (\<open>transaction.go\<close>). The signed 64-bit fees are words read with \<open>sint\<close>. The
  structure a decoder leaves behind together with an error is what was filled so far.
\<close>

section \<open>Attributes\<close>

definition ReservedLowerBound :: byte where "ReservedLowerBound = 0xe0"
definition ReservedUpperBound :: byte where "ReservedUpperBound = 0xff"
definition HighPriority :: byte where "HighPriority = 1"
definition OracleResponseT :: byte where "OracleResponseT = 0x11"
definition NotValidBeforeT :: byte where "NotValidBeforeT = 0x20"
definition ConflictsT :: byte where "ConflictsT = 0x21"
definition NotaryAssistedT :: byte where "NotaryAssistedT = 0x22"

lemmas attr_type_defs = ReservedLowerBound_def ReservedUpperBound_def HighPriority_def OracleResponseT_def
  NotValidBeforeT_def ConflictsT_def NotaryAssistedT_def

definition allowMultiple :: "byte \<Rightarrow> bool" where
  "allowMultiple a \<longleftrightarrow> a = ConflictsT"

definition is_reserved :: "byte \<Rightarrow> bool" where
  "is_reserved t \<longleftrightarrow> ReservedLowerBound \<le> t \<and> t \<le> ReservedUpperBound"

definition IsValidAttrType :: "bool \<Rightarrow> byte \<Rightarrow> bool" where
  "IsValidAttrType reservedAttributesEnabled attrType \<longleftrightarrow>
     attrType \<in> {HighPriority, OracleResponseT, NotValidBeforeT, ConflictsT, NotaryAssistedT}
     \<or> reservedAttributesEnabled \<and> is_reserved attrType"

datatype attr_value =
    OracleResponse (or_ID: u64) (or_Code: byte) (or_Result: bytes)
  | NotValidBefore (nvb_Height: u32)
  | Conflicts (c_Hash: hash256)
  | NotaryAssisted (na_NKeys: byte)
  | Reserved (rs_Value: bytes)

record attribute =
  a_Type :: byte
  a_Value :: "attr_value option"

definition MaxOracleResultSize :: nat where "MaxOracleResultSize = 65535"

definition code_IsValid :: "byte \<Rightarrow> bool" where
  "code_IsValid c \<longleftrightarrow> c \<in> {0x00, 0x10, 0x12, 0x14, 0x16, 0x18, 0x1a, 0x1c, 0x1f, 0xff}"

fun value_EncodeBinary :: "attr_value \<Rightarrow> bin_writer \<Rightarrow> bin_writer" where
  "value_EncodeBinary (OracleResponse i c res) w = WriteVarBytes res (WriteB c (WriteU64LE i w))"
| "value_EncodeBinary (NotValidBefore h) w = WriteU32LE h w"
| "value_EncodeBinary (Conflicts h) w = WriteBytes h w"
| "value_EncodeBinary (NotaryAssisted n) w = WriteB n w"
| "value_EncodeBinary (Reserved v) w = WriteVarBytes v w"

definition w_fail :: "string \<Rightarrow> bin_writer \<Rightarrow> bin_writer" where
  "w_fail s w = w\<lparr>w_err := Some (BadValue s)\<rparr>"

definition attr_EncodeBinary :: "attribute \<Rightarrow> bin_writer \<Rightarrow> bin_writer" where
  "attr_EncodeBinary attr w =
    (let t = a_Type attr; w1 = WriteB t w
     in if t = HighPriority then w1
        else if t \<in> {OracleResponseT, NotValidBeforeT, ConflictsT, NotaryAssistedT} \<or> is_reserved t
        then (case a_Value attr of Some v \<Rightarrow> value_EncodeBinary v w1 | None \<Rightarrow> w_fail ''nil pointer dereference'' w1)
        else w_fail ''failed encoding TX attribute usage'' w1)"

definition var_slice :: "nat option \<Rightarrow> bin_reader \<Rightarrow> bytes \<times> bin_reader" where
  "var_slice ms r = (let (b, r1) = ReadVarBytes ms r in (case b of None \<Rightarrow> [] | Some x \<Rightarrow> x, r1))"

definition oracle_DecodeBinary :: "bin_reader \<Rightarrow> attr_value \<times> bin_reader" where
  "oracle_DecodeBinary r =
    (let (i, r1) = ReadU64LE r; (c, r2) = ReadB r1
     in if \<not> code_IsValid c
        then (OracleResponse i c [], r2\<lparr>r_err := Some (BadValue ''invalid oracle response code'')\<rparr>)
        else let (res, r3) = var_slice (Some MaxOracleResultSize) r2
             in (OracleResponse i c res,
                 if c \<noteq> 0 \<and> length res > 0
                 then r3\<lparr>r_err := Some (BadValue ''oracle response != success, but result is not empty'')\<rparr> else r3))"

definition attr_DecodeBinary :: "bin_reader \<Rightarrow> attribute \<times> bin_reader" where
  "attr_DecodeBinary r =
    (let (t, r1) = ReadB r
     in if t = HighPriority then (\<lparr>a_Type = t, a_Value = None\<rparr>, r1)
        else if t = OracleResponseT then (let (v, r2) = oracle_DecodeBinary r1 in (\<lparr>a_Type = t, a_Value = Some v\<rparr>, r2))
        else if t = NotValidBeforeT then (let (h, r2) = ReadU32LE r1 in (\<lparr>a_Type = t, a_Value = Some (NotValidBefore h)\<rparr>, r2))
        else if t = ConflictsT then (let (h, r2) = ReadBytes (replicate 32 0) r1 in (\<lparr>a_Type = t, a_Value = Some (Conflicts h)\<rparr>, r2))
        else if t = NotaryAssistedT then (let (n, r2) = ReadB r1 in (\<lparr>a_Type = t, a_Value = Some (NotaryAssisted n)\<rparr>, r2))
        else if is_reserved t then (let (v, r2) = var_slice None r1 in (\<lparr>a_Type = t, a_Value = Some (Reserved v)\<rparr>, r2))
        else (\<lparr>a_Type = t, a_Value = None\<rparr>, r1\<lparr>r_err := Some (BadValue ''failed decoding TX attribute usage'')\<rparr>))"

section \<open>Witnesses\<close>

definition MaxInvocationScript :: nat where "MaxInvocationScript = 1024"
definition MaxVerificationScript :: nat where "MaxVerificationScript = 1024"

record witness =
  InvocationScript :: bytes
  VerificationScript :: bytes

definition witness_EncodeBinary :: "witness \<Rightarrow> bin_writer \<Rightarrow> bin_writer" where
  "witness_EncodeBinary x w = WriteVarBytes (VerificationScript x) (WriteVarBytes (InvocationScript x) w)"

definition witness_DecodeBinary :: "bin_reader \<Rightarrow> witness \<times> bin_reader" where
  "witness_DecodeBinary r =
    (let (i, r1) = var_slice (Some MaxInvocationScript) r; (v, r2) = var_slice (Some MaxVerificationScript) r1
     in (\<lparr>InvocationScript = i, VerificationScript = v\<rparr>, r2))"

section \<open>Transactions\<close>

definition MaxScriptLength :: nat where "MaxScriptLength = 65535"
definition MaxTransactionSize :: nat where "MaxTransactionSize = 102400"
definition MaxAttributes :: nat where "MaxAttributes = 16"

record 'g transaction =
  Version :: byte
  Nonce :: u32
  SystemFee :: "64 word"
  NetworkFee :: "64 word"
  ValidUntilBlock :: u32
  Script :: bytes
  Attributes :: "attribute list"
  Signers :: "'g signer list"
  Scripts :: "witness list"
  tx_size :: nat
  tx_hash :: hash256
  tx_hashed :: bool
  Trimmed :: bool

definition empty_tx :: "'g transaction" where
  "empty_tx = \<lparr>Version = 0, Nonce = 0, SystemFee = 0, NetworkFee = 0, ValidUntilBlock = 0, Script = [], Attributes = [],
     Signers = [], Scripts = [], tx_size = 0, tx_hash = replicate 32 0, tx_hashed = False, Trimmed = False\<rparr>"

definition NewTrimmedTX :: "hash256 \<Rightarrow> 'g transaction" where
  "NewTrimmedTX h = empty_tx\<lparr>tx_hash := h, tx_hashed := True, Trimmed := True\<rparr>"

definition HasAttribute :: "'g transaction \<Rightarrow> byte \<Rightarrow> bool" where
  "HasAttribute t typ \<longleftrightarrow> (\<exists>a \<in> set (Attributes t). a_Type a = typ)"

definition GetAttributes :: "'g transaction \<Rightarrow> byte \<Rightarrow> attribute list" where
  "GetAttributes t typ = filter (\<lambda>a. a_Type a = typ) (Attributes t)"

definition HasSigner :: "'g transaction \<Rightarrow> uint160 \<Rightarrow> bool" where
  "HasSigner t h \<longleftrightarrow> (\<exists>s \<in> set (Signers t). Account s = h)"

definition Sender :: "'g transaction \<Rightarrow> string + uint160" where
  "Sender t = (case Signers t of [] \<Rightarrow> Inl ''transaction does not have signers'' | s # _ \<Rightarrow> Inr (Account s))"

text \<open>The attribute loop of \<open>isValid\<close>, with the types seen so far.\<close>

fun check_attr_types :: "byte list \<Rightarrow> attribute list \<Rightarrow> bool" where
  "check_attr_types seen [] = True"
| "check_attr_types seen (a # as) =
    (if allowMultiple (a_Type a) then check_attr_types seen as
     else if a_Type a \<in> set seen then False
     else check_attr_types (a_Type a # seen) as)"

definition isValid :: "'g transaction \<Rightarrow> io_err option" where
  "isValid t =
    (if Version t > 0 then Some (BadValue ''only version 0 is supported'')
     else if sint (SystemFee t) < 0 then Some (BadValue ''negative system fee'')
     else if sint (NetworkFee t) < 0 then Some (BadValue ''negative network fee'')
     else if sint (NetworkFee t + SystemFee t) < sint (SystemFee t) then Some (BadValue ''too big fees: int64 overflow'')
     else if length (Signers t) = 0 then Some (BadValue ''signers array should contain sender'')
     else if \<not> distinct (map Account (Signers t)) then Some (BadValue ''transaction signers should be unique'')
     else if \<not> check_attr_types [] (Attributes t) then Some (BadValue ''invalid attribute'')
     else if length (Script t) = 0 then Some (BadValue ''no script'')
     else None)"

definition encodeHashableFields :: "('g \<Rightarrow> bin_writer \<Rightarrow> bin_writer) \<Rightarrow> 'g transaction \<Rightarrow> bin_writer \<Rightarrow> bin_writer" where
  "encodeHashableFields genc t w =
    (let w1 = WriteU32LE (ValidUntilBlock t) (WriteU64LE (NetworkFee t) (WriteU64LE (SystemFee t) (WriteU32LE (Nonce t) (WriteB (Version t) w))));
         w2 = fold (signer_EncodeBinary genc) (Signers t) (WriteVarUint (of_nat (length (Signers t))) w1);
         w3 = fold attr_EncodeBinary (Attributes t) (WriteVarUint (of_nat (length (Attributes t))) w2)
     in WriteVarBytes (Script t) w3)"

definition tx_EncodeBinary :: "('g \<Rightarrow> bin_writer \<Rightarrow> bin_writer) \<Rightarrow> 'g transaction \<Rightarrow> bin_writer \<Rightarrow> bin_writer" where
  "tx_EncodeBinary genc t w =
    (let w1 = encodeHashableFields genc t w
     in fold witness_EncodeBinary (Scripts t) (WriteVarUint (of_nat (length (Scripts t))) w1))"

definition tx_Bytes :: "('g \<Rightarrow> bin_writer \<Rightarrow> bin_writer) \<Rightarrow> 'g transaction \<Rightarrow> bytes option" where
  "tx_Bytes genc t = (let w = tx_EncodeBinary genc t NewBufBinWriter in if w_err w \<noteq> None then None else Some (w_buf w))"

definition createHash :: "('g \<Rightarrow> bin_writer \<Rightarrow> bin_writer) \<Rightarrow> 'g transaction \<Rightarrow> io_err option \<times> 'g transaction" where
  "createHash genc t =
    (let w = encodeHashableFields genc t NewBufBinWriter
     in case w_err w of Some e \<Rightarrow> (Some e, t)
        | None \<Rightarrow> (None, t\<lparr>tx_hash := Sha256 (w_buf w), tx_hashed := True\<rparr>))"

definition tx_Size :: "('g \<Rightarrow> bin_writer \<Rightarrow> bin_writer) \<Rightarrow> 'g transaction \<Rightarrow> nat \<times> 'g transaction" where
  "tx_Size genc t = (let n = (if tx_size t = 0 then counted (tx_EncodeBinary genc t) else tx_size t) in (n, t\<lparr>tx_size := n\<rparr>))"

definition decodeHashableFields ::
  "(bin_reader \<Rightarrow> 'g \<times> bin_reader) \<Rightarrow> bytes option \<Rightarrow> bin_reader \<Rightarrow> 'g transaction \<times> bin_reader" where
  "decodeHashableFields gdec buf r =
    (let (v, r1) = ReadB r; (n, r2) = ReadU32LE r1; (sf, r3) = ReadU64LE r2; (nf, r4) = ReadU64LE r3; (vub, r5) = ReadU32LE r4;
         (nsigners, r6) = ReadVarUint r5;
         t = empty_tx\<lparr>Version := v, Nonce := n, SystemFee := sf, NetworkFee := nf, ValidUntilBlock := vub\<rparr>
     in if r_err r6 \<noteq> None then (t, r6)
        else if MaxAttributes < unat nsigners then (t, r6\<lparr>r_err := Some (BadValue ''too many signers'')\<rparr>)
        else if nsigners = 0 then (t, r6\<lparr>r_err := Some (BadValue ''missing signers'')\<rparr>)
        else let (ss, r7) = decode_elems (signer_DecodeBinary gdec) (unat nsigners) r6;
                 (nattrs, r8) = ReadVarUint r7; t1 = t\<lparr>Signers := ss\<rparr>
        in if MaxAttributes - unat nsigners < unat nattrs
           then (t1, r8\<lparr>r_err := Some (BadValue ''too many attributes'')\<rparr>)
           else let (as, r9) = decode_elems attr_DecodeBinary (unat nattrs) r8;
                    (scr, r10) = var_slice (Some MaxScriptLength) r9;
                    t2 = t1\<lparr>Attributes := as, Script := scr\<rparr>;
                    r11 = (if r_err r10 = None then r10\<lparr>r_err := isValid t2\<rparr> else r10)
                in (case buf of None \<Rightarrow> t2
                    | Some b \<Rightarrow> t2\<lparr>tx_hash := Sha256 (take (length (r_buf r) - length (r_buf r11)) (drop (length b - length (r_buf r)) b)),
                                tx_hashed := True\<rparr>, r11))"

definition decodeBinaryNoSize ::
  "('g \<Rightarrow> bin_writer \<Rightarrow> bin_writer) \<Rightarrow> (bin_reader \<Rightarrow> 'g \<times> bin_reader) \<Rightarrow> bytes option \<Rightarrow> bin_reader \<Rightarrow> 'g transaction \<times> bin_reader" where
  "decodeBinaryNoSize genc gdec buf r =
    (let (t, r1) = decodeHashableFields gdec buf r
     in if r_err r1 \<noteq> None then (t, r1)
        else let (nscripts, r2) = ReadVarUint r1
        in if MaxAttributes < unat nscripts then (t, r2\<lparr>r_err := Some (BadValue ''too many witnesses'')\<rparr>)
           else if unat nscripts \<noteq> length (Signers t)
           then (t, r2\<lparr>r_err := Some (BadValue ''number of signers does not match witnesses'')\<rparr>)
           else let (ws, r3) = decode_elems witness_DecodeBinary (unat nscripts) r2; t1 = t\<lparr>Scripts := ws\<rparr>
           in if r_err r3 = None \<and> buf = None
              then (let (e, t2) = createHash genc t1 in (t2, r3\<lparr>r_err := e\<rparr>))
              else (t1, r3))"

definition tx_DecodeBinary ::
  "('g \<Rightarrow> bin_writer \<Rightarrow> bin_writer) \<Rightarrow> (bin_reader \<Rightarrow> 'g \<times> bin_reader) \<Rightarrow> bin_reader \<Rightarrow> 'g transaction \<times> bin_reader" where
  "tx_DecodeBinary genc gdec r =
    (let (t, r1) = decodeBinaryNoSize genc gdec None r in (if r_err r1 = None then snd (tx_Size genc t) else t, r1))"

definition NewTransactionFromBytes ::
  "('g \<Rightarrow> bin_writer \<Rightarrow> bin_writer) \<Rightarrow> (bin_reader \<Rightarrow> 'g \<times> bin_reader) \<Rightarrow> bytes \<Rightarrow> io_err + 'g transaction" where
  "NewTransactionFromBytes genc gdec b =
    (let (t, r) = decodeBinaryNoSize genc gdec (Some b) (NewBinReaderFromBuf b)
     in case r_err r of Some e \<Rightarrow> Inl e
        | None \<Rightarrow> if reader_len r \<noteq> 0 then Inl (BadValue ''additional data after the transaction'')
                  else Inr (t\<lparr>tx_size := length b\<rparr>))"

definition DecodeHashableFields ::
  "(bin_reader \<Rightarrow> 'g \<times> bin_reader) \<Rightarrow> bytes \<Rightarrow> io_err + 'g transaction" where
  "DecodeHashableFields gdec buf =
    (let (t, r) = decodeHashableFields gdec (Some buf) (NewBinReaderFromBuf buf)
     in case r_err r of Some e \<Rightarrow> Inl e
        | None \<Rightarrow> if reader_len r \<noteq> 0 then Inl (BadValue ''additional data after the signed part'') else Inr (t\<lparr>Scripts := []\<rparr>))"

text \<open>\<open>Copy\<close> of a transaction: values have no identity here, so only the reset caches show.\<close>

definition tx_Copy :: "'g transaction \<Rightarrow> 'g transaction" where
  "tx_Copy t = t\<lparr>tx_hash := replicate 32 0, tx_hashed := False, tx_size := 0\<rparr>"

section \<open>Binary forms\<close>

definition var_wire :: "bytes \<Rightarrow> bytes" where
  "var_wire b = PutVarUint (of_nat (length b)) @ b"

lemma WriteVarBytes_ok [codec_simps]: "w_err w = None \<Longrightarrow> WriteVarBytes b w = w\<lparr>w_buf := w_buf w @ var_wire b\<rparr>"
  by (simp add: WriteVarBytes_def var_wire_def codec_simps)

lemma WriteVarBytes_err [codec_simps]: "w_err w \<noteq> None \<Longrightarrow> WriteVarBytes b w = w"
  by (simp add: WriteVarBytes_def codec_simps)

lemma var_slice_wire:
  assumes "length b \<le> max_size ms" "length b < 2 ^ 64"
  shows "var_slice ms \<lparr>r_buf = var_wire b @ rest, r_err = None\<rparr> = (b, \<lparr>r_buf = rest, r_err = None\<rparr>)"
proof -
  have "unat (of_nat (length b) :: u64) = length b" using assms(2) by (simp add: unat_of_nat)
  then show ?thesis
    using assms(1) by (simp add: var_slice_def ReadVarBytes_def var_wire_def codec_simps ReadBytes_append)
qed

lemma decode_elems_wire:
  assumes "\<And>x rest. x \<in> set xs \<Longrightarrow> dec \<lparr>r_buf = wire x @ rest, r_err = None\<rparr> = (x, \<lparr>r_buf = rest, r_err = None\<rparr>)"
  shows "decode_elems dec (length xs) \<lparr>r_buf = concat (map wire xs) @ rest, r_err = None\<rparr> = (xs, \<lparr>r_buf = rest, r_err = None\<rparr>)"
  using assms by (induction xs) simp_all

fun attr_ok :: "attribute \<Rightarrow> bool" where
  "attr_ok a \<longleftrightarrow> (case a_Value a of
     None \<Rightarrow> a_Type a = HighPriority
   | Some (OracleResponse i c res) \<Rightarrow> a_Type a = OracleResponseT \<and> code_IsValid c \<and> length res \<le> MaxOracleResultSize \<and> (c \<noteq> 0 \<longrightarrow> res = [])
   | Some (NotValidBefore h) \<Rightarrow> a_Type a = NotValidBeforeT
   | Some (Conflicts h) \<Rightarrow> a_Type a = ConflictsT \<and> length h = 32
   | Some (NotaryAssisted n) \<Rightarrow> a_Type a = NotaryAssistedT
   | Some (Reserved v) \<Rightarrow> is_reserved (a_Type a) \<and> length v \<le> MaxArraySize)"

fun value_wire :: "attr_value \<Rightarrow> bytes" where
  "value_wire (OracleResponse i c res) = nat_le 8 (unat i) @ [c] @ var_wire res"
| "value_wire (NotValidBefore h) = nat_le 4 (unat h)"
| "value_wire (Conflicts h) = h"
| "value_wire (NotaryAssisted n) = [n]"
| "value_wire (Reserved v) = var_wire v"

definition attr_wire :: "attribute \<Rightarrow> bytes" where
  "attr_wire a = a_Type a # (case a_Value a of None \<Rightarrow> [] | Some v \<Rightarrow> value_wire v)"

lemma value_EncodeBinary_ok: "w_err w = None \<Longrightarrow> value_EncodeBinary v w = w\<lparr>w_buf := w_buf w @ value_wire v\<rparr>"
  by (cases v) (simp_all add: codec_simps WriteB_def WriteU32LE_def WriteU64LE_def del: nat_le.simps)

lemma attr_types [simp]:
  "HighPriority \<noteq> OracleResponseT" "HighPriority \<noteq> NotValidBeforeT" "HighPriority \<noteq> ConflictsT" "HighPriority \<noteq> NotaryAssistedT"
  "OracleResponseT \<noteq> HighPriority" "OracleResponseT \<noteq> NotValidBeforeT" "OracleResponseT \<noteq> ConflictsT" "OracleResponseT \<noteq> NotaryAssistedT"
  "NotValidBeforeT \<noteq> HighPriority" "NotValidBeforeT \<noteq> OracleResponseT" "NotValidBeforeT \<noteq> ConflictsT" "NotValidBeforeT \<noteq> NotaryAssistedT"
  "ConflictsT \<noteq> HighPriority" "ConflictsT \<noteq> OracleResponseT" "ConflictsT \<noteq> NotValidBeforeT" "ConflictsT \<noteq> NotaryAssistedT"
  "NotaryAssistedT \<noteq> HighPriority" "NotaryAssistedT \<noteq> OracleResponseT" "NotaryAssistedT \<noteq> NotValidBeforeT" "NotaryAssistedT \<noteq> ConflictsT"
  "\<not> is_reserved HighPriority" "\<not> is_reserved OracleResponseT" "\<not> is_reserved NotValidBeforeT" "\<not> is_reserved ConflictsT" "\<not> is_reserved NotaryAssistedT"
  by (simp_all add: attr_type_defs is_reserved_def word_le_nat_alt)

lemma attr_EncodeBinary_ok:
  assumes "attr_ok a" "w_err w = None"
  shows "attr_EncodeBinary a w = w\<lparr>w_buf := w_buf w @ attr_wire a\<rparr>"
proof -
  have "a_Type a = HighPriority \<or> a_Type a \<in> {OracleResponseT, NotValidBeforeT, ConflictsT, NotaryAssistedT} \<or> is_reserved (a_Type a)"
    "a_Type a = HighPriority \<longleftrightarrow> a_Value a = None"
    using assms(1) by (auto split: option.splits attr_value.splits)
  then show ?thesis using assms(2)
    by (cases "a_Value a") (auto simp: attr_EncodeBinary_def attr_wire_def Let_def codec_simps WriteB_def value_EncodeBinary_ok)
qed

lemma attr_DecodeBinary_wire:
  assumes "attr_ok a"
  shows "attr_DecodeBinary \<lparr>r_buf = attr_wire a @ rest, r_err = None\<rparr> = (a, \<lparr>r_buf = rest, r_err = None\<rparr>)"
proof (cases "a_Value a")
  case None
  then show ?thesis using assms by (simp add: attr_DecodeBinary_def attr_wire_def codec_simps)
next
  case (Some v)
  have not_res: "is_reserved t \<Longrightarrow> t \<noteq> HighPriority \<and> t \<noteq> OracleResponseT \<and> t \<noteq> NotValidBeforeT \<and> t \<noteq> ConflictsT \<and> t \<noteq> NotaryAssistedT" for t
    by auto
  show ?thesis
  proof (cases v)
    case (OracleResponse i c res)
    with assms Some have ok: "code_IsValid c" "length res \<le> max_size (Some MaxOracleResultSize)" "length res < 2 ^ 64" "c \<noteq> 0 \<longrightarrow> res = []"
      by (auto simp: max_size_def MaxOracleResultSize_def)
    show ?thesis using assms Some OracleResponse ok(1,4) var_slice_wire [OF ok(2,3)]
      by (auto simp: attr_DecodeBinary_def attr_wire_def oracle_DecodeBinary_def codec_simps simp del: nat_le.simps)
  next
    case (Reserved b)
    with assms Some have "length b \<le> max_size None" "length b < 2 ^ 64" "is_reserved (a_Type a)" by (auto simp: max_size_def MaxArraySize_def)
    with assms Some Reserved var_slice_wire [of b None] not_res [of "a_Type a"] show ?thesis
      by (simp add: attr_DecodeBinary_def attr_wire_def codec_simps)
  qed (use assms Some in \<open>auto simp: attr_DecodeBinary_def attr_wire_def codec_simps ReadBytes_append simp del: nat_le.simps\<close>)
qed

definition witness_ok :: "witness \<Rightarrow> bool" where
  "witness_ok x \<longleftrightarrow> length (InvocationScript x) \<le> MaxInvocationScript \<and> length (VerificationScript x) \<le> MaxVerificationScript"

definition witness_wire :: "witness \<Rightarrow> bytes" where
  "witness_wire x = var_wire (InvocationScript x) @ var_wire (VerificationScript x)"

interpretation witness: wire_codec witness_EncodeBinary witness_DecodeBinary witness_wire witness_ok
proof
  fix x :: witness and w rest
  show "witness_EncodeBinary x w = w\<lparr>w_buf := w_buf w @ witness_wire x\<rparr>" if "w_err w = None"
    using that by (simp add: witness_EncodeBinary_def witness_wire_def codec_simps)
  show "witness_EncodeBinary x w = w" if "w_err w \<noteq> None"
    using that by (simp add: witness_EncodeBinary_def codec_simps)
  show "witness_DecodeBinary \<lparr>r_buf = witness_wire x @ rest, r_err = None\<rparr> = (x, \<lparr>r_buf = rest, r_err = None\<rparr>)" if "witness_ok x"
    using that var_slice_wire [of "InvocationScript x" "Some MaxInvocationScript"] var_slice_wire [of "VerificationScript x" "Some MaxVerificationScript"]
    by (simp add: witness_DecodeBinary_def witness_wire_def witness_ok_def max_size_def MaxInvocationScript_def MaxVerificationScript_def)
qed

text \<open>Transactions within the limits of the decoder.\<close>

definition fields_ok :: "('g \<Rightarrow> bool) \<Rightarrow> 'g transaction \<Rightarrow> bool" where
  "fields_ok gv t \<longleftrightarrow> isValid t = None \<and> length (Signers t) + length (Attributes t) \<le> MaxAttributes
     \<and> (\<forall>s \<in> set (Signers t). signer_ok gv s) \<and> (\<forall>a \<in> set (Attributes t). attr_ok a) \<and> length (Script t) \<le> MaxScriptLength"

definition tx_ok :: "('g \<Rightarrow> bool) \<Rightarrow> 'g transaction \<Rightarrow> bool" where
  "tx_ok gv t \<longleftrightarrow> fields_ok gv t \<and> length (Scripts t) = length (Signers t) \<and> (\<forall>w \<in> set (Scripts t). witness_ok w) \<and> \<not> Trimmed t"

text \<open>The hashed part; \<open>wa\<close> is the number of attributes as it is written.\<close>

definition hashable_form :: "('g \<Rightarrow> bytes) \<Rightarrow> bytes \<Rightarrow> 'g transaction \<Rightarrow> bytes" where
  "hashable_form gw wa t = Version t # nat_le 4 (unat (Nonce t)) @ nat_le 8 (unat (SystemFee t)) @ nat_le 8 (unat (NetworkFee t))
     @ nat_le 4 (unat (ValidUntilBlock t)) @ PutVarUint (of_nat (length (Signers t))) @ concat (map (signer_wire gw) (Signers t))
     @ wa @ concat (map attr_wire (Attributes t)) @ var_wire (Script t)"

definition hashable_wire :: "('g \<Rightarrow> bytes) \<Rightarrow> 'g transaction \<Rightarrow> bytes" where
  "hashable_wire gw t = hashable_form gw (PutVarUint (of_nat (length (Attributes t)))) t"

lemmas wire_defs = hashable_wire_def hashable_form_def

definition tx_form :: "('g \<Rightarrow> bytes) \<Rightarrow> bytes \<Rightarrow> 'g transaction \<Rightarrow> bytes" where
  "tx_form gw wa t = hashable_form gw wa t @ PutVarUint (of_nat (length (Scripts t))) @ concat (map witness_wire (Scripts t))"

definition tx_wire :: "('g \<Rightarrow> bytes) \<Rightarrow> 'g transaction \<Rightarrow> bytes" where
  "tx_wire gw t = tx_form gw (PutVarUint (of_nat (length (Attributes t)))) t"

lemmas tx_wire_defs = tx_wire_def tx_form_def hashable_wire_def [symmetric]

definition writes_count :: "bytes \<Rightarrow> nat \<Rightarrow> bool" where
  "writes_count wa n \<longleftrightarrow> (\<forall>x. ReadVarUint \<lparr>r_buf = wa @ x, r_err = None\<rparr> = (of_nat n, \<lparr>r_buf = x, r_err = None\<rparr>))"

lemma writes_count_long:
  assumes "n < 256"
  shows "writes_count [0xfd, of_nat n, 0] n"
proof -
  have "le_nat [of_nat n, 0] = n" using assms by (simp add: unat_of_nat)
  then have "ReadU16LE \<lparr>r_buf = of_nat n # 0 # x, r_err = None\<rparr> = (of_nat n, \<lparr>r_buf = x, r_err = None\<rparr>)" for x
    using ReadBytes_append [of "replicate 2 0" "[of_nat n, 0]" x] by (simp add: ReadU16LE_def del: replicate.simps le_nat.simps)
  moreover have "ucast (of_nat n :: u16) = (of_nat n :: u64)"
    using assms by (simp add: word_unat_eq_iff unsigned_ucast_eq unat_of_nat take_bit_nat_eq_self)
  ultimately show ?thesis by (simp add: writes_count_def ReadVarUint_def codec_simps)
qed

lemma writes_count_PutVarUint: "writes_count (PutVarUint (of_nat n)) n"
  by (simp add: writes_count_def codec_simps)

definition fields_of :: "'g transaction \<Rightarrow> 'g transaction" where
  "fields_of t = empty_tx\<lparr>Version := Version t, Nonce := Nonce t, SystemFee := SystemFee t, NetworkFee := NetworkFee t,
     ValidUntilBlock := ValidUntilBlock t, Signers := Signers t, Attributes := Attributes t, Script := Script t\<rparr>"

lemma isValid_fields: "isValid (fields_of t) = isValid t"
  by (simp add: isValid_def fields_of_def)

lemma isValid_caches [simp]:
  "isValid (t\<lparr>Scripts := x\<rparr>) = isValid t" "isValid (t\<lparr>tx_hash := h\<rparr>) = isValid t" "isValid (t\<lparr>tx_hashed := b\<rparr>) = isValid t"
  "isValid (t\<lparr>tx_size := n\<rparr>) = isValid t"
  by (simp_all add: isValid_def)

lemma fields_ok_caches [simp]:
  "fields_ok gv (t\<lparr>Scripts := x\<rparr>) = fields_ok gv t" "fields_ok gv (t\<lparr>tx_hash := h\<rparr>) = fields_ok gv t"
  "fields_ok gv (t\<lparr>tx_hashed := b\<rparr>) = fields_ok gv t" "fields_ok gv (t\<lparr>tx_size := n\<rparr>) = fields_ok gv t"
  by (simp_all add: fields_ok_def)

lemma small_count: "n \<le> MaxAttributes \<Longrightarrow> unat (of_nat n :: u64) = n"
  by (simp add: MaxAttributes_def unat_of_nat)

lemma encodeHashableFields_ok:
  assumes "wire_codec genc gdec gw gv" "fields_ok gv t" "w_err w = None"
  shows "encodeHashableFields genc t w = w\<lparr>w_buf := w_buf w @ hashable_wire gw t\<rparr>"
proof -
  have s: "fold (signer_EncodeBinary genc) (Signers t) v = v\<lparr>w_buf := w_buf v @ concat (map (signer_wire gw) (Signers t))\<rparr>"
    if "w_err v = None" for v
    by (rule wire_codec.fold_enc [OF signer_codec [OF assms(1)]]) (use assms(2) that in \<open>auto simp: fields_ok_def\<close>)
  have a: "fold attr_EncodeBinary (Attributes t) v = v\<lparr>w_buf := w_buf v @ concat (map attr_wire (Attributes t))\<rparr>"
    if "w_err v = None" for v
    by (rule fold_writes [OF attr_EncodeBinary_ok]) (use assms(2) that in \<open>auto simp: fields_ok_def simp del: attr_ok.simps\<close>)
  show ?thesis using assms(3)
    by (simp add: encodeHashableFields_def wire_defs Let_def codec_simps s a WriteB_def WriteU32LE_def WriteU64LE_def del: nat_le.simps)
qed

lemma tx_EncodeBinary_ok:
  assumes "wire_codec genc gdec gw gv" "tx_ok gv t" "w_err w = None"
  shows "tx_EncodeBinary genc t w = w\<lparr>w_buf := w_buf w @ tx_wire gw t\<rparr>"
  using assms encodeHashableFields_ok [OF assms(1) _ assms(3)]
  by (simp add: tx_EncodeBinary_def tx_wire_defs tx_ok_def codec_simps witness.fold_enc)

lemma decodeHashableFields_form:
  assumes "wire_codec genc gdec gw gv" "fields_ok gv t" "writes_count wa (length (Attributes t))"
  shows "decodeHashableFields gdec buf \<lparr>r_buf = hashable_form gw wa t @ rest, r_err = None\<rparr> =
    (case buf of None \<Rightarrow> fields_of t
     | Some b \<Rightarrow> (fields_of t)\<lparr>tx_hash := Sha256 (take (length (hashable_form gw wa t))
           (drop (length b - (length (hashable_form gw wa t) + length rest)) b)), tx_hashed := True\<rparr>,
     \<lparr>r_buf = rest, r_err = None\<rparr>)"
proof -
  have v: "isValid t = None" "length (Signers t) + length (Attributes t) \<le> MaxAttributes" using assms(2) by (simp_all add: fields_ok_def)
  have n: "unat (of_nat (length (Signers t)) :: u64) = length (Signers t)" "unat (of_nat (length (Attributes t)) :: u64) = length (Attributes t)"
    using v(2) by (simp_all add: small_count)
  have ne: "(of_nat (length (Signers t)) :: u64) \<noteq> 0" using v(1) n(1) by (auto simp: isValid_def split: if_splits)
  have s: "decode_elems (signer_DecodeBinary gdec) (length (Signers t)) \<lparr>r_buf = concat (map (signer_wire gw) (Signers t)) @ x, r_err = None\<rparr>
      = (Signers t, \<lparr>r_buf = x, r_err = None\<rparr>)" for x
    by (rule wire_codec.decode_elems_ok [OF signer_codec [OF assms(1)]]) (use assms(2) in \<open>simp add: fields_ok_def\<close>)
  have a: "decode_elems attr_DecodeBinary (length (Attributes t)) \<lparr>r_buf = concat (map attr_wire (Attributes t)) @ x, r_err = None\<rparr>
      = (Attributes t, \<lparr>r_buf = x, r_err = None\<rparr>)" for x
    by (rule decode_elems_wire [OF attr_DecodeBinary_wire]) (use assms(2) in \<open>simp add: fields_ok_def del: attr_ok.simps\<close>)
  have c: "var_slice (Some MaxScriptLength) \<lparr>r_buf = var_wire (Script t) @ x, r_err = None\<rparr> = (Script t, \<lparr>r_buf = x, r_err = None\<rparr>)" for x
    by (rule var_slice_wire) (use assms(2) in \<open>auto simp: fields_ok_def max_size_def MaxScriptLength_def\<close>)
  have wa: "ReadVarUint \<lparr>r_buf = wa @ x, r_err = None\<rparr> = (of_nat (length (Attributes t)), \<lparr>r_buf = x, r_err = None\<rparr>)" for x
    using assms(3) by (simp add: writes_count_def)
  have fo: "empty_tx\<lparr>Version := Version t, Nonce := Nonce t, SystemFee := SystemFee t, NetworkFee := NetworkFee t,
     ValidUntilBlock := ValidUntilBlock t, Signers := Signers t, Attributes := Attributes t, Script := Script t\<rparr> = fields_of t"
    by (simp add: fields_of_def)
  have lim: "\<not> MaxAttributes < length (Signers t)" "\<not> MaxAttributes - length (Signers t) < length (Attributes t)" using v(2) by auto
  show ?thesis
    unfolding decodeHashableFields_def hashable_form_def
    by (simp only: Let_def append_Cons append_assoc ReadB_Cons ReadU32LE_append ReadU64LE_append ReadVarUint_append wa s a c fo n ne lim
        isValid_fields v(1) prod.case bin_reader.select_convs bin_reader.update_convs simp_thms if_True if_False option.simps)
      (auto simp: add.assoc split: option.splits)
qed

lemma decodeBinaryNoSize_form:
  assumes "wire_codec genc gdec gw gv" "tx_ok gv t" "writes_count wa (length (Attributes t))"
  shows "decodeBinaryNoSize genc gdec (Some (tx_form gw wa t)) \<lparr>r_buf = tx_form gw wa t, r_err = None\<rparr> =
      ((fields_of t)\<lparr>tx_hash := Sha256 (hashable_form gw wa t), tx_hashed := True, Scripts := Scripts t\<rparr>, \<lparr>r_buf = [], r_err = None\<rparr>)"
    and "decodeBinaryNoSize genc gdec None \<lparr>r_buf = tx_form gw wa t @ rest, r_err = None\<rparr> =
      ((fields_of t)\<lparr>tx_hash := Sha256 (hashable_wire gw t), tx_hashed := True, Scripts := Scripts t\<rparr>, \<lparr>r_buf = rest, r_err = None\<rparr>)"
proof -
  have ok: "fields_ok gv t" "length (Scripts t) = length (Signers t)" "\<forall>w \<in> set (Scripts t). witness_ok w"
    using assms(2) by (auto simp: tx_ok_def)
  have le: "length (Signers t) \<le> MaxAttributes" using ok(1) by (simp add: fields_ok_def)
  then have n: "unat (of_nat (length (Signers t)) :: u64) = length (Signers t)" by (rule small_count)
  have lim: "\<not> MaxAttributes < length (Signers t)" using le by simp
  have sg: "Signers (fields_of t) = Signers t" by (simp add: fields_of_def)
  note w = witness.decode_elems_ok [OF ok(3), unfolded ok(2)]
  have f: "isValid t = None \<Longrightarrow> fields_ok gv ((fields_of t)\<lparr>Scripts := Scripts t\<rparr>)"
    using ok(1) by (simp add: fields_ok_def isValid_fields) (simp add: fields_of_def)
  have "createHash genc ((fields_of t)\<lparr>Scripts := Scripts t\<rparr>)
      = (None, (fields_of t)\<lparr>tx_hash := Sha256 (hashable_wire gw t), tx_hashed := True, Scripts := Scripts t\<rparr>)"
    using encodeHashableFields_ok [OF assms(1) f, of NewBufBinWriter] ok(1)
    by (simp add: createHash_def NewBufBinWriter_def fields_ok_def wire_defs fields_of_def)
  note h = this
  show "decodeBinaryNoSize genc gdec (Some (tx_form gw wa t)) \<lparr>r_buf = tx_form gw wa t, r_err = None\<rparr> =
      ((fields_of t)\<lparr>tx_hash := Sha256 (hashable_form gw wa t), tx_hashed := True, Scripts := Scripts t\<rparr>, \<lparr>r_buf = [], r_err = None\<rparr>)"
    using w [of "[]"] n lim sg ok(2)
    by (simp add: decodeBinaryNoSize_def tx_form_def decodeHashableFields_form [OF assms(1) ok(1) assms(3)] codec_simps)
  show "decodeBinaryNoSize genc gdec None \<lparr>r_buf = tx_form gw wa t @ rest, r_err = None\<rparr> =
      ((fields_of t)\<lparr>tx_hash := Sha256 (hashable_wire gw t), tx_hashed := True, Scripts := Scripts t\<rparr>, \<lparr>r_buf = rest, r_err = None\<rparr>)"
    using w [of rest] n lim sg ok(2) h
    by (simp add: decodeBinaryNoSize_def tx_form_def decodeHashableFields_form [OF assms(1) ok(1) assms(3)] codec_simps)
qed

lemma decodeBinaryNoSize_wire:
  assumes "wire_codec genc gdec gw gv" "tx_ok gv t"
  shows "decodeBinaryNoSize genc gdec (Some (tx_wire gw t)) \<lparr>r_buf = tx_wire gw t, r_err = None\<rparr> =
      ((fields_of t)\<lparr>tx_hash := Sha256 (hashable_wire gw t), tx_hashed := True, Scripts := Scripts t\<rparr>, \<lparr>r_buf = [], r_err = None\<rparr>)"
    and "decodeBinaryNoSize genc gdec None \<lparr>r_buf = tx_wire gw t @ rest, r_err = None\<rparr> =
      ((fields_of t)\<lparr>tx_hash := Sha256 (hashable_wire gw t), tx_hashed := True, Scripts := Scripts t\<rparr>, \<lparr>r_buf = rest, r_err = None\<rparr>)"
  using decodeBinaryNoSize_form [OF assms writes_count_PutVarUint] by (simp_all add: tx_wire_def hashable_wire_def)

section \<open>What the decoder accepts\<close>

lemma var_slice_safe: "safe_decoder (var_slice ms) (\<lambda>b. length b \<le> max_size ms)"
proof
  show "r_err (snd (var_slice ms r)) \<noteq> None" if "r_err r \<noteq> None" for r
    using that by (simp add: var_slice_def)
  show "length x \<le> max_size ms" if "var_slice ms r = (x, r')" "r_err r' = None" for r x r'
    using that
    by (auto simp: var_slice_def ReadVarBytes_def Let_def split: prod.splits if_splits dest!: ReadBytes_length)
qed

lemmas var_slice_clean = safe_decoder.clean [OF var_slice_safe]
lemmas var_slice_yields = safe_decoder.yields [OF var_slice_safe]

lemma uint_clean:
  "ReadU32LE r = (v, r') \<Longrightarrow> r_err r' = None \<Longrightarrow> r_err r = None"
  "ReadU64LE r = (u, r') \<Longrightarrow> r_err r' = None \<Longrightarrow> r_err r = None"
  "ReadVarUint r = (u, r') \<Longrightarrow> r_err r' = None \<Longrightarrow> r_err r = None"
  by (cases "r_err r"; simp)+

lemma attr_safe: "safe_decoder attr_DecodeBinary attr_ok"
proof
  fix r a r'
  obtain t r1 where t: "ReadB r = (t, r1)" by fastforce
  show "r_err (snd (attr_DecodeBinary r)) \<noteq> None" if "r_err r \<noteq> None"
  proof -
    have r1: "ReadB r = (0, r)" using that by simp
    show ?thesis by (simp add: attr_DecodeBinary_def r1 attr_type_defs is_reserved_def word_le_nat_alt)
  qed
  show "attr_ok a" if "attr_DecodeBinary r = (a, r')" "r_err r' = None"
    using that t
    by (auto simp: attr_DecodeBinary_def oracle_DecodeBinary_def Let_def max_size_def
        split: if_splits prod.splits dest!: var_slice_yields ReadBytes_length)
qed

lemma witness_safe: "safe_decoder witness_DecodeBinary witness_ok"
proof
  show "r_err (snd (witness_DecodeBinary r)) \<noteq> None" if "r_err r \<noteq> None" for r
    using that by (simp add: witness_DecodeBinary_def var_slice_def)
  show "witness_ok x" if a: "witness_DecodeBinary r = (x, r')" "r_err r' = None" for r x r'
  proof -
    obtain i r1 where i: "var_slice (Some MaxInvocationScript) r = (i, r1)" by fastforce
    obtain v where v: "var_slice (Some MaxVerificationScript) r1 = (v, r')" "x = \<lparr>InvocationScript = i, VerificationScript = v\<rparr>"
      using a(1) i by (auto simp: witness_DecodeBinary_def split: prod.splits)
    show ?thesis using var_slice_yields [OF v(1) a(2)] var_slice_yields [OF i var_slice_clean [OF v(1) a(2)]] v(2)
      by (simp add: witness_ok_def max_size_def)
  qed
qed

lemma fields_decoded:
  assumes "safe_decoder gdec gv" "decodeHashableFields gdec buf r = (t, r')" "r_err r' = None"
  shows "fields_ok gv t \<and> r_err r = None \<and> Scripts t = [] \<and> \<not> Trimmed t
    \<and> (\<forall>b. buf = Some b \<longrightarrow> tx_hashed t \<and> tx_hash t = Sha256 (take (length (r_buf r) - length (r_buf r')) (drop (length b - length (r_buf r)) b)))"
proof -
  obtain v r1 where 1: "ReadB r = (v, r1)" by fastforce
  obtain n r2 where 2: "ReadU32LE r1 = (n, r2)" by fastforce
  obtain sf r3 where 3: "ReadU64LE r2 = (sf, r3)" by fastforce
  obtain nf r4 where 4: "ReadU64LE r3 = (nf, r4)" by fastforce
  obtain vub r5 where 5: "ReadU32LE r4 = (vub, r5)" by fastforce
  obtain ns r6 where 6: "ReadVarUint r5 = (ns, r6)" by fastforce
  obtain ss r7 where 7: "decode_elems (signer_DecodeBinary gdec) (unat ns) r6 = (ss, r7)" by fastforce
  obtain na r8 where 8: "ReadVarUint r7 = (na, r8)" by fastforce
  obtain as r9 where 9: "decode_elems attr_DecodeBinary (unat na) r8 = (as, r9)" by fastforce
  obtain sc r10 where 10: "var_slice (Some MaxScriptLength) r9 = (sc, r10)" by fastforce
  define t2 where "t2 = empty_tx\<lparr>Version := v, Nonce := n, SystemFee := sf, NetworkFee := nf, ValidUntilBlock := vub,
     Signers := ss, Attributes := as, Script := sc\<rparr>"
  have run: "decodeHashableFields gdec buf r =
     (let t = empty_tx\<lparr>Version := v, Nonce := n, SystemFee := sf, NetworkFee := nf, ValidUntilBlock := vub\<rparr>
      in if r_err r6 \<noteq> None then (t, r6)
        else if MaxAttributes < unat ns then (t, r6\<lparr>r_err := Some (BadValue ''too many signers'')\<rparr>)
        else if ns = 0 then (t, r6\<lparr>r_err := Some (BadValue ''missing signers'')\<rparr>)
        else if MaxAttributes - unat ns < unat na
           then (t\<lparr>Signers := ss\<rparr>, r8\<lparr>r_err := Some (BadValue ''too many attributes'')\<rparr>)
           else let r11 = (if r_err r10 = None then r10\<lparr>r_err := isValid t2\<rparr> else r10)
                in (case buf of None \<Rightarrow> t2
                    | Some b \<Rightarrow> t2\<lparr>tx_hash := Sha256 (take (length (r_buf r) - length (r_buf r11)) (drop (length b - length (r_buf r)) b)),
                                tx_hashed := True\<rparr>, r11))"
    unfolding decodeHashableFields_def 1 2 3 4 5 6 7 8 9 10 t2_def Let_def prod.case by simp
  have lim: "r_err r6 = None" "\<not> MaxAttributes < unat ns" "ns \<noteq> 0" "\<not> MaxAttributes - unat ns < unat na"
    using assms(2,3) unfolding run Let_def by (auto split: if_splits)
  have r': "r' = (if r_err r10 = None then r10\<lparr>r_err := isValid t2\<rparr> else r10)"
    and t: "t = (case buf of None \<Rightarrow> t2
       | Some b \<Rightarrow> t2\<lparr>tx_hash := Sha256 (take (length (r_buf r) - length (r_buf r')) (drop (length b - length (r_buf r)) b)), tx_hashed := True\<rparr>)"
    using assms(2) lim unfolding run Let_def by auto
  have e10: "r_err r10 = None" "isValid t2 = None" using r' assms(3) by (auto split: if_splits)
  note e9 = var_slice_clean [OF 10 e10(1)]
  note e8 = safe_decoder.elems_clean [OF attr_safe 9 e9]
  note e7 = uint_clean(3) [OF 8 e8]
  have "r_err r = None"
    using byte.clean [OF 1 uint_clean(1) [OF 2 uint_clean(2) [OF 3 uint_clean(2) [OF 4 uint_clean(1) [OF 5 uint_clean(3) [OF 6 lim(1)]]]]]] .
  moreover have "fields_ok gv t2"
    using safe_decoder.elems_yield [OF signer_safe [OF assms(1)] 7 e7] safe_decoder.elems_yield [OF attr_safe 9 e9]
      var_slice_yields [OF 10 e10(1)] e10(2) lim
    by (simp add: fields_ok_def t2_def max_size_def del: attr_ok.simps)
  moreover have "Scripts t2 = []" "\<not> Trimmed t2" by (simp_all add: t2_def empty_tx_def)
  ultimately show ?thesis unfolding t by (cases buf) simp_all
qed

lemma tx_decoded:
  assumes "safe_decoder gdec gv" "decodeBinaryNoSize genc gdec (Some b) (NewBinReaderFromBuf b) = (t, r')" "r_err r' = None"
  shows "tx_ok gv t \<and> tx_hashed t \<and> (\<exists>n. tx_hash t = Sha256 (take n b))"
proof -
  obtain t1 r1 where 1: "decodeHashableFields gdec (Some b) (NewBinReaderFromBuf b) = (t1, r1)" by fastforce
  obtain ns r2 where 2: "ReadVarUint r1 = (ns, r2)" by fastforce
  obtain ws r3 where 3: "decode_elems witness_DecodeBinary (unat ns) r2 = (ws, r3)" by fastforce
  have run: "r_err r1 = None" "unat ns = length (Signers t1)" "t = t1\<lparr>Scripts := ws\<rparr>" "r3 = r'"
    using assms(2,3) 1 2 3 by (auto simp: decodeBinaryNoSize_def split: if_splits)
  note f = fields_decoded [OF assms(1) 1 run(1)]
  have w: "length ws = unat ns" "\<forall>x \<in> set ws. witness_ok x"
    using safe_decoder.elems_yield [OF witness_safe 3] run(4) assms(3) by auto
  show ?thesis using f w run(2) unfolding run(3)
    by (auto simp: tx_ok_def NewBinReaderFromBuf_def)
qed

section \<open>Properties\<close>

text \<open>Transactions with their caches filled as the decoders leave them.\<close>

definition tx_cached :: "('g \<Rightarrow> bytes) \<Rightarrow> 'g transaction \<Rightarrow> bool" where
  "tx_cached gw t \<longleftrightarrow> tx_hashed t \<and> tx_hash t = Sha256 (hashable_wire gw t) \<and> tx_size t = length (tx_wire gw t)"

lemma tx_fields_back:
  "tx_ok gv t \<Longrightarrow> tx_cached gw t \<Longrightarrow>
   (fields_of t)\<lparr>tx_hash := Sha256 (hashable_wire gw t), tx_hashed := True, Scripts := Scripts t, tx_size := length (tx_wire gw t)\<rparr> = t"
  by (simp add: tx_ok_def tx_cached_def fields_of_def empty_tx_def)

lemma NewTransactionFromBytes_wire:
  assumes "wire_codec genc gdec gw gv" "tx_ok gv t" "tx_cached gw t"
  shows "NewTransactionFromBytes genc gdec (tx_wire gw t) = Inr t"
  using decodeBinaryNoSize_wire(1) [OF assms(1,2)] tx_fields_back [OF assms(2,3)]
  by (simp add: NewTransactionFromBytes_def NewBinReaderFromBuf_def reader_len_def)

text \<open>A small transaction, with 64-bit numbers for public keys, for the witnesses below.\<close>

definition key_wire :: "u64 \<Rightarrow> bytes" where "key_wire g = nat_le 8 (unat g)"

definition base_tx :: "u64 transaction" where
  "base_tx = empty_tx\<lparr>Signers := [\<lparr>Account = replicate 20 1, Scopes = CalledByEntry, AllowedContracts = [], AllowedGroups = [], SRules = []\<rparr>],
     Script := [0x40], Scripts := [\<lparr>InvocationScript = [], VerificationScript = []\<rparr>]\<rparr>"

definition sample_tx :: "u64 transaction" where
  "sample_tx = base_tx\<lparr>tx_hash := Sha256 (hashable_wire key_wire base_tx), tx_hashed := True, tx_size := length (tx_wire key_wire base_tx)\<rparr>"

lemma key_codec: "wire_codec WriteU64LE ReadU64LE key_wire (\<lambda>_. True)"
  using uint64.wire_codec_axioms by (simp add: key_wire_def [abs_def])

lemma key_safe: "safe_decoder ReadU64LE (\<lambda>_. True)"
  by unfold_locales auto

lemma sample_tx_ok: "tx_ok (\<lambda>_. True) sample_tx" "tx_cached key_wire sample_tx"
  by (simp_all add: tx_ok_def fields_ok_def isValid_def sample_tx_def base_tx_def empty_tx_def signer_ok_def scopes_ok_def sublist_ok_def
      scope_defs MaxAttributes_def MaxScriptLength_def witness_ok_def tx_cached_def wire_defs tx_wire_def tx_form_def
      del: nat_le.simps)

text \<open>C19. Serialization round trip: a transaction within the limits serializes, and \<open>NewTransactionFromBytes\<close> of
  the bytes gives back the transaction with its hash and size cached; \<open>DecodeBinary\<close> gives the same
  hash, whatever follows in the stream. The codec of public keys is any codec that reads back what it
  writes.\<close>

theorem transaction_round_trip:
  assumes "wire_codec genc gdec gw gv" and "tx_ok gv t" and "tx_cached gw t"
  shows "\<exists>b. tx_Bytes genc t = Some b \<and> NewTransactionFromBytes genc gdec b = Inr t
    \<and> tx_DecodeBinary genc gdec \<lparr>r_buf = b @ rest, r_err = None\<rparr> = (t, \<lparr>r_buf = rest, r_err = None\<rparr>)"
proof -
  let ?t = "(fields_of t)\<lparr>tx_hash := Sha256 (hashable_wire gw t), tx_hashed := True, Scripts := Scripts t\<rparr>"
  have bytes: "tx_Bytes genc t = Some (tx_wire gw t)"
    using tx_EncodeBinary_ok [OF assms(1,2), of NewBufBinWriter] by (simp add: tx_Bytes_def NewBufBinWriter_def)
  have full: "?t\<lparr>tx_size := length (tx_wire gw t)\<rparr> = t" by (rule tx_fields_back [OF assms(2,3)])
  have "tx_EncodeBinary genc ?t = tx_EncodeBinary genc t"
    by (rule ext) (simp add: tx_EncodeBinary_def encodeHashableFields_def fields_of_def)
  then have "counted (tx_EncodeBinary genc ?t) = length (tx_wire gw t)"
    using tx_EncodeBinary_ok [OF assms(1,2), of NewBufBinWriter] by (simp add: counted_def NewBufBinWriter_def)
  moreover have "tx_size ?t = 0" by (simp add: fields_of_def empty_tx_def)
  ultimately have "snd (tx_Size genc ?t) = t" using full by (simp add: tx_Size_def)
  then have "tx_DecodeBinary genc gdec \<lparr>r_buf = tx_wire gw t @ rest, r_err = None\<rparr> = (t, \<lparr>r_buf = rest, r_err = None\<rparr>)"
    using decodeBinaryNoSize_wire(2) [OF assms(1,2)] by (simp add: tx_DecodeBinary_def)
  with bytes NewTransactionFromBytes_wire [OF assms] show ?thesis by blast
qed


theorem transaction_round_trip_witness:
  "\<exists>b. tx_Bytes WriteU64LE sample_tx = Some b \<and> NewTransactionFromBytes WriteU64LE ReadU64LE b = Inr sample_tx
    \<and> tx_DecodeBinary WriteU64LE ReadU64LE \<lparr>r_buf = b @ [1, 2], r_err = None\<rparr> = (sample_tx, \<lparr>r_buf = [1, 2], r_err = None\<rparr>)"
  by (rule transaction_round_trip [OF key_codec sample_tx_ok])

lemma sint_add_no_overflow:
  fixes a b :: "64 word"
  assumes "0 \<le> sint a" "0 \<le> sint b" "\<not> sint (a + b) < sint b"
  shows "sint a + sint b < 2 ^ 63"
proof (rule ccontr)
  assume "\<not> sint a + sint b < 2 ^ 63"
  moreover have "sint a < 2 ^ 63" "sint b < 2 ^ 63" using sint_lt [of a] sint_lt [of b] by simp_all
  moreover have "sint (a + b) = signed_take_bit 63 (sint a + sint b)" by (simp add: sint_word_ariths)
  ultimately have "sint (a + b) = (sint a + sint b + 2 ^ 63) mod 2 ^ 64 - 2 ^ 63"
    by (simp add: signed_take_bit_eq_take_bit_shift take_bit_eq_mod)
  moreover have "(sint a + sint b + 2 ^ 63) mod 2 ^ 64 = sint a + sint b + 2 ^ 63 - 2 ^ 64"
    using \<open>\<not> sint a + sint b < 2 ^ 63\<close> \<open>sint a < 2 ^ 63\<close> \<open>sint b < 2 ^ 63\<close>
    by (simp add: mod_pos_geq mod_pos_pos_trivial)
  ultimately show False using assms \<open>sint a < 2 ^ 63\<close> by simp
qed

text \<open>C20. Whatever bytes \<open>NewTransactionFromBytes\<close> accepts, the transaction is well formed: every field is within
  its limit, it has between 1 and 16 signers with different accounts and valid scopes, and at most 16
  signers and attributes together, as many witnesses as signers, and fees that are not negative and
  whose sum fits a signed 64-bit integer.\<close>

theorem accepted_transaction_well_formed:
  assumes "safe_decoder gdec gv" and "NewTransactionFromBytes genc gdec b = Inr t"
  shows "tx_ok gv t \<and> tx_hashed t \<and> tx_size t = length b
    \<and> Signers t \<noteq> [] \<and> distinct (map Account (Signers t)) \<and> (\<forall>s \<in> set (Signers t). scopes_ok (Scopes s))
    \<and> 0 \<le> sint (SystemFee t) \<and> 0 \<le> sint (NetworkFee t) \<and> sint (NetworkFee t) + sint (SystemFee t) < 2 ^ 63"
proof -
  obtain t1 r1 where 1: "decodeBinaryNoSize genc gdec (Some b) (NewBinReaderFromBuf b) = (t1, r1)" by fastforce
  have t: "r_err r1 = None" "t = t1\<lparr>tx_size := length b\<rparr>"
    using assms(2) 1 by (auto simp: NewTransactionFromBytes_def split: option.splits if_splits)
  note d = tx_decoded [OF assms(1) 1 t(1)]
  then have ok: "tx_ok gv t" "tx_hashed t" by (auto simp: t(2) tx_ok_def)
  then have v: "isValid t = None" "\<forall>s \<in> set (Signers t). signer_ok gv s" by (auto simp: tx_ok_def fields_ok_def)
  have fees: "\<not> sint (SystemFee t) < 0" "\<not> sint (NetworkFee t) < 0" "\<not> sint (NetworkFee t + SystemFee t) < sint (SystemFee t)"
    "Signers t \<noteq> []" "distinct (map Account (Signers t))"
    using v(1) by (auto simp: isValid_def split: if_splits)
  have "sint (NetworkFee t) + sint (SystemFee t) < 2 ^ 63" using fees by (intro sint_add_no_overflow) auto
  with ok fees v(2) show ?thesis by (auto simp: t(2) signer_ok_def)
qed

theorem accepted_transaction_well_formed_witness:
  "\<exists>b. NewTransactionFromBytes WriteU64LE ReadU64LE b = Inr sample_tx \<and> tx_size sample_tx = length b \<and> tx_ok (\<lambda>_. True) sample_tx"
  using accepted_transaction_well_formed [OF key_safe NewTransactionFromBytes_wire [OF key_codec sample_tx_ok]]
    NewTransactionFromBytes_wire [OF key_codec sample_tx_ok] by blast



end
