(* ===== verification/WitnessCheck.thy ===== *)
theory WitnessCheck
  imports Transaction
begin

text \<open>
  Model of the impersonation registry of \<open>pkg/nanvil/impersonate/registry.go\<close> and of the two places
  that consult it: the run-time witness check of \<open>pkg/core/interop/runtime/witness.go\<close> and
  \<open>verifyTxWitnesses\<close> of \<open>pkg/core/blockchain.go\<close>. The running script, the contract storage and the
  execution of verification scripts are arguments.
\<close>

section \<open>The registry\<close>

text \<open>The set of accounts, a Go map, is a list without duplicates.\<close>

record registry =
  reg_accounts :: "uint160 list"
  reg_autoMode :: bool
  reg_enabled :: bool

definition NewRegistry :: registry where
  "NewRegistry = \<lparr>reg_accounts = [], reg_autoMode = False, reg_enabled = True\<rparr>"

definition SetEnabled :: "bool \<Rightarrow> registry \<Rightarrow> registry" where
  "SetEnabled v r = r\<lparr>reg_enabled := v\<rparr>"

definition Impersonate :: "uint160 \<Rightarrow> registry \<Rightarrow> registry" where
  "Impersonate h r = r\<lparr>reg_accounts := List.insert h (reg_accounts r)\<rparr>"

definition StopImpersonating :: "uint160 \<Rightarrow> registry \<Rightarrow> registry" where
  "StopImpersonating h r = r\<lparr>reg_accounts := filter (\<lambda>x. x \<noteq> h) (reg_accounts r)\<rparr>"

definition SetAutoMode :: "bool \<Rightarrow> registry \<Rightarrow> registry" where
  "SetAutoMode v r = r\<lparr>reg_autoMode := v\<rparr>"

definition IsImpersonated :: "registry \<Rightarrow> uint160 \<Rightarrow> bool" where
  "IsImpersonated r h = (if \<not> reg_enabled r then False else if reg_autoMode r then True else h \<in> set (reg_accounts r))"

definition reg_List :: "registry \<Rightarrow> uint160 list" where
  "reg_List r = reg_accounts r"

definition reg_Reset :: "registry \<Rightarrow> registry" where
  "reg_Reset r = r\<lparr>reg_accounts := [], reg_autoMode := False\<rparr>"

section \<open>The witness check of a running script\<close>

text \<open>What the check reads of the interop context: the signers, the calling and the current script hash,
  whether the context is called by the entry script, whether it has the \<open>ReadStates\<close> flag, and the
  groups in the manifest of a contract.\<close>

record 'g interop =
  ic_Signers :: "'g signer list"
  ic_calling :: uint160
  ic_current :: uint160
  ic_calledByEntry :: bool
  ic_readStates :: bool
  ic_GetContract :: "uint160 \<Rightarrow> 'g list option"

definition getContractGroups :: "'g interop \<Rightarrow> uint160 \<Rightarrow> string + 'g list" where
  "getContractGroups ic h =
    (if \<not> ic_readStates ic then Inl ''missing ReadStates call flag''
     else Inr (case ic_GetContract ic h of None \<Rightarrow> [] | Some gs \<Rightarrow> gs))"

definition checkScriptGroups :: "'g interop \<Rightarrow> uint160 \<Rightarrow> 'g \<Rightarrow> string + bool" where
  "checkScriptGroups ic h k = (case getContractGroups ic h of Inl e \<Rightarrow> Inl e | Inr gs \<Rightarrow> Inr (k \<in> set gs))"

definition scopeContext :: "'g interop \<Rightarrow> 'g match_context" where
  "scopeContext ic = \<lparr>GetCallingScriptHash = ic_calling ic, GetCurrentScriptHash = ic_current ic,
     CallingScriptHasGroup = checkScriptGroups ic (ic_calling ic), CurrentScriptHasGroup = checkScriptGroups ic (ic_current ic),
     IsCalledByEntry = ic_calledByEntry ic\<rparr>"

fun check_rules :: "'g match_context \<Rightarrow> 'g witness_rule list \<Rightarrow> string + bool" where
  "check_rules ctx [] = Inr False"
| "check_rules ctx (r # rs) =
    (case Condition r of None \<Rightarrow> Inl ''nil pointer dereference''
     | Some c \<Rightarrow> (case cond_Match ctx c of Inl e \<Rightarrow> Inl e
        | Inr res \<Rightarrow> if res then Inr (Action r = WitnessAllow) else check_rules ctx rs))"

text \<open>The checks for the signer found.\<close>

definition check_signer :: "registry \<Rightarrow> 'g interop \<Rightarrow> 'g signer \<Rightarrow> string + bool" where
  "check_signer reg ic c =
    (if reg_enabled reg \<and> IsImpersonated reg (Account c) then Inr True
     else if Scopes c = Global then Inr True
     else if Scopes c AND CalledByEntry \<noteq> 0 \<and> ic_calledByEntry ic then Inr True
     else if Scopes c AND CustomContracts \<noteq> 0 \<and> ic_current ic \<in> set (AllowedContracts c) then Inr True
     else case (if Scopes c AND CustomGroups \<noteq> 0
                then (case getContractGroups ic (ic_current ic) of Inl e \<Rightarrow> Inl e
                      | Inr gs \<Rightarrow> Inr (\<exists>g \<in> set (AllowedGroups c). g \<in> set gs))
                else Inr False) of
            Inl e \<Rightarrow> Inl e
          | Inr True \<Rightarrow> Inr True
          | Inr False \<Rightarrow> if Scopes c AND Rules \<noteq> 0 then check_rules (scopeContext ic) (SRules c) else Inr False)"

definition checkScope :: "registry \<Rightarrow> 'g interop \<Rightarrow> uint160 \<Rightarrow> string + bool" where
  "checkScope reg ic h =
    (if length (ic_Signers ic) = 0 then Inl ''no valid signers''
     else case find (\<lambda>c. Account c = h) (ic_Signers ic) of None \<Rightarrow> Inr False | Some c \<Rightarrow> check_signer reg ic c)"

definition zero160 :: uint160 where "zero160 = replicate 20 0"

definition CheckHashedWitness :: "registry \<Rightarrow> 'g interop \<Rightarrow> uint160 \<Rightarrow> string + bool" where
  "CheckHashedWitness reg ic h =
    (if ic_calling ic \<noteq> zero160 \<and> h = ic_calling ic then Inr True else checkScope reg ic h)"

section \<open>The witnesses of a transaction\<close>

text \<open>The loop of \<open>verifyTxWitnesses\<close>. \<open>verify\<close> is \<open>verifyHashAgainstScript\<close>: the gas consumed and whether
  the script failed (\<open>None\<close>), and if so whether with \<open>ErrInvalidSignature\<close>.\<close>

type_synonym verifier = "uint160 \<Rightarrow> witness \<Rightarrow> 64 word \<Rightarrow> 64 word \<times> bool option"

fun verify_loop :: "registry \<Rightarrow> verifier \<Rightarrow> bool \<Rightarrow> nat \<Rightarrow> 'g signer list \<Rightarrow> witness list \<Rightarrow> 64 word \<Rightarrow> string option" where
  "verify_loop reg verify isPartialTx i [] ws gasLimit = None"
| "verify_loop reg verify isPartialTx i (s # ss) ws gasLimit =
    (if reg_enabled reg \<and> IsImpersonated reg (Account s) then verify_loop reg verify isPartialTx (i + 1) ss ws gasLimit
     else if length ws \<le> i then Some ''index out of range''
     else (case verify (Account s) (ws ! i) gasLimit of
             (gas, Some invalidSig) \<Rightarrow>
               if i \<noteq> 0 \<or> \<not> isPartialTx \<or> \<not> invalidSig then Some ''witness''
               else verify_loop reg verify isPartialTx (i + 1) ss ws (gasLimit - gas)
           | (gas, None) \<Rightarrow> verify_loop reg verify isPartialTx (i + 1) ss ws (gasLimit - gas)))"

text \<open>Without an explicit verification fee the limit is what the network fee leaves; \<open>feePerByte\<close> and
  \<open>attrFee\<close> are the chain's.\<close>

definition verifyTxWitnesses ::
  "registry \<Rightarrow> verifier \<Rightarrow> 64 word \<Rightarrow> ('g transaction \<Rightarrow> 64 word) \<Rightarrow> 'g transaction \<Rightarrow> bool \<Rightarrow> (64 word) option \<Rightarrow> string option" where
  "verifyTxWitnesses reg verify feePerByte attrFee t isPartialTx verificationFee =
    (let gasLimit = (case verificationFee of None \<Rightarrow> NetworkFee t - of_nat (tx_size t) * feePerByte - attrFee t | Some f \<Rightarrow> f)
     in verify_loop reg verify isPartialTx 0 (Signers t) (Scripts t) gasLimit)"

section \<open>What conditions and scopes mean\<close>

definition groups_of :: "'g interop \<Rightarrow> uint160 \<Rightarrow> 'g set" where
  "groups_of ic h = (case ic_GetContract ic h of None \<Rightarrow> {} | Some gs \<Rightarrow> set gs)"

lemma set_groups: "set (case ic_GetContract ic h of None \<Rightarrow> [] | Some gs \<Rightarrow> gs) = groups_of ic h"
  by (simp add: groups_of_def split: option.splits)

text \<open>A condition as a Boolean function of the context, when group lookups cannot fail.\<close>

fun holds :: "'g interop \<Rightarrow> 'g condition \<Rightarrow> bool" where
  "holds ic (ConditionBoolean b) = b"
| "holds ic (ConditionNot c) = (\<not> holds ic c)"
| "holds ic (ConditionAnd cs) = (\<forall>c \<in> set cs. holds ic c)"
| "holds ic (ConditionOr cs) = (\<exists>c \<in> set cs. holds ic c)"
| "holds ic (ConditionScriptHash h) = (h = ic_current ic)"
| "holds ic (ConditionGroup g) = (g \<in> groups_of ic (ic_current ic))"
| "holds ic ConditionCalledByEntry = ic_calledByEntry ic"
| "holds ic (ConditionCalledByContract h) = (h = ic_calling ic)"
| "holds ic (ConditionCalledByGroup g) = (g \<in> groups_of ic (ic_calling ic))"

text \<open>The first rule whose condition holds decides.\<close>

definition rules_allow :: "'g interop \<Rightarrow> 'g witness_rule list \<Rightarrow> bool" where
  "rules_allow ic rs \<longleftrightarrow> (\<exists>pre r post. rs = pre @ r # post \<and> holds ic (the (Condition r)) \<and> Action r = WitnessAllow
     \<and> (\<forall>q \<in> set pre. \<not> holds ic (the (Condition q))))"

definition scope_allows :: "'g interop \<Rightarrow> 'g signer \<Rightarrow> bool" where
  "scope_allows ic s \<longleftrightarrow> Scopes s = Global
     \<or> (Scopes s AND CalledByEntry \<noteq> 0 \<and> ic_calledByEntry ic)
     \<or> (Scopes s AND CustomContracts \<noteq> 0 \<and> ic_current ic \<in> set (AllowedContracts s))
     \<or> (Scopes s AND CustomGroups \<noteq> 0 \<and> (\<exists>g \<in> set (AllowedGroups s). g \<in> groups_of ic (ic_current ic)))
     \<or> (Scopes s AND Rules \<noteq> 0 \<and> rules_allow ic (SRules s))"

lemma match_holds:
  assumes "ic_readStates ic"
  shows "cond_Match (scopeContext ic) c = Inr (holds ic c)"
    and "match_all (scopeContext ic) cs = Inr (\<forall>c \<in> set cs. holds ic c)"
    and "match_any (scopeContext ic) cs = Inr (\<exists>c \<in> set cs. holds ic c)"
proof (induction "scopeContext ic" c and "scopeContext ic" cs and "scopeContext ic" cs rule: cond_Match_match_all_match_any.induct)
qed (use assms in \<open>auto simp: scopeContext_def checkScriptGroups_def getContractGroups_def set_groups\<close>)

lemma rules_allow_Cons:
  "rules_allow ic (r # rs) \<longleftrightarrow> (if holds ic (the (Condition r)) then Action r = WitnessAllow else rules_allow ic rs)"
proof (cases "holds ic (the (Condition r))")
  case True
  have "rules_allow ic (r # rs) \<longleftrightarrow> Action r = WitnessAllow"
  proof
    assume "rules_allow ic (r # rs)"
    then obtain pre q post where q: "r # rs = pre @ q # post" "Action q = WitnessAllow" "\<forall>x \<in> set pre. \<not> holds ic (the (Condition x))"
      by (auto simp: rules_allow_def)
    then show "Action r = WitnessAllow" using True by (cases pre) auto
  next
    assume "Action r = WitnessAllow"
    then show "rules_allow ic (r # rs)" using True unfolding rules_allow_def by (metis append_Nil empty_iff empty_set)
  qed
  with True show ?thesis by simp
next
  case False
  have "rules_allow ic (r # rs) \<longleftrightarrow> rules_allow ic rs"
  proof
    assume "rules_allow ic (r # rs)"
    then obtain pre q post where q: "r # rs = pre @ q # post" "holds ic (the (Condition q))" "Action q = WitnessAllow"
        "\<forall>x \<in> set pre. \<not> holds ic (the (Condition x))" by (auto simp: rules_allow_def)
    then obtain pre' where "pre = r # pre'" using False by (cases pre) auto
    with q show "rules_allow ic rs" by (auto simp: rules_allow_def)
  next
    assume "rules_allow ic rs"
    then obtain pre q post where "rs = pre @ q # post" "holds ic (the (Condition q))" "Action q = WitnessAllow"
        "\<forall>x \<in> set pre. \<not> holds ic (the (Condition x))" by (auto simp: rules_allow_def)
    with False show "rules_allow ic (r # rs)" unfolding rules_allow_def
      by (intro exI [of _ "r # pre"] exI [of _ q] exI [of _ post]) auto
  qed
  with False show ?thesis by simp
qed

lemma check_rules_spec:
  assumes "ic_readStates ic" "\<forall>r \<in> set rs. Condition r \<noteq> None"
  shows "check_rules (scopeContext ic) rs = Inr (rules_allow ic rs)"
  using assms(2)
proof (induction rs)
  case Nil
  then show ?case by (simp add: rules_allow_def)
next
  case (Cons r rs)
  then show ?case using match_holds(1) [OF assms(1)] by (auto simp: rules_allow_Cons)
qed

lemma check_signer_spec:
  assumes "ic_readStates ic" "\<forall>r \<in> set (SRules s). Condition r \<noteq> None"
  shows "check_signer reg ic s = Inr (IsImpersonated reg (Account s) \<or> scope_allows ic s)"
proof -
  have groups: "getContractGroups ic (ic_current ic) = Inr (case ic_GetContract ic (ic_current ic) of None \<Rightarrow> [] | Some gs \<Rightarrow> gs)"
    using assms(1) by (simp add: getContractGroups_def)
  show ?thesis
    unfolding check_signer_def groups check_rules_spec [OF assms] sum.case set_groups scope_allows_def IsImpersonated_def
    by (simp split: bool.split)
qed

section \<open>Properties\<close>

definition disabled :: registry where
  "disabled = \<lparr>reg_accounts = [], reg_autoMode = False, reg_enabled = False\<rparr>"

lemma find_account: "find (\<lambda>c. Account c = h) ss = Some s \<Longrightarrow> s \<in> set ss \<and> Account s = h"
  by (auto simp: find_Some_iff)

text \<open>C22. The witness check decides what it means to: with the \<open>ReadStates\<close> flag it succeeds for the calling
  contract, and for a signer that is impersonated or whose scope allows the running contract, where the
  rules are evaluated as Boolean conditions and the first one that holds decides; for everybody else it
  fails. It reports no error.\<close>

theorem CheckHashedWitness_decides:
  assumes "ic_readStates ic" and "ic_Signers ic \<noteq> []" and "\<forall>s \<in> set (ic_Signers ic). \<forall>r \<in> set (SRules s). Condition r \<noteq> None"
  shows "CheckHashedWitness reg ic h = Inr ((ic_calling ic \<noteq> zero160 \<and> h = ic_calling ic)
    \<or> (\<exists>s. find (\<lambda>c. Account c = h) (ic_Signers ic) = Some s \<and> (IsImpersonated reg h \<or> scope_allows ic s)))"
proof (cases "find (\<lambda>c. Account c = h) (ic_Signers ic)")
  case None
  then show ?thesis using assms(2) by (simp add: CheckHashedWitness_def checkScope_def)
next
  case (Some s)
  have s: "s \<in> set (ic_Signers ic)" "Account s = h" using find_account [OF Some] by auto
  have "check_signer reg ic s = Inr (IsImpersonated reg h \<or> scope_allows ic s)"
    using check_signer_spec [OF assms(1)] assms(3) s by auto
  then show ?thesis using Some assms(2) by (simp add: CheckHashedWitness_def checkScope_def)
qed

definition sample_ic :: "u64 interop" where
  "sample_ic = \<lparr>ic_Signers = [\<lparr>Account = [7], Scopes = Rules, AllowedContracts = [], AllowedGroups = [],
       SRules = [\<lparr>Action = WitnessDeny, Condition = Some (ConditionNot ConditionCalledByEntry)\<rparr>,
                 \<lparr>Action = WitnessAllow, Condition = Some (ConditionGroup 5)\<rparr>]\<rparr>],
     ic_calling = zero160, ic_current = [9], ic_calledByEntry = True, ic_readStates = True, ic_GetContract = \<lambda>_. Some [5]\<rparr>"

theorem CheckHashedWitness_decides_witness:
  "CheckHashedWitness NewRegistry sample_ic [7] = Inr True"
proof -
  let ?s = "ic_Signers sample_ic ! 0"
  have f: "find (\<lambda>c. Account c = [7]) (ic_Signers sample_ic) = Some ?s" by (simp add: sample_ic_def)
  have "rules_allow sample_ic (SRules ?s)" by (simp add: rules_allow_Cons sample_ic_def groups_of_def)
  then have "scope_allows sample_ic ?s" by (simp add: scope_allows_def sample_ic_def Rules_def)
  moreover have "\<forall>s \<in> set (ic_Signers sample_ic). \<forall>r \<in> set (SRules s). Condition r \<noteq> None" by (simp add: sample_ic_def)
  ultimately show ?thesis using CheckHashedWitness_decides [of sample_ic NewRegistry "[7]"] f by (simp add: sample_ic_def)
qed

lemma verify_loop_disabled:
  "\<forall>s \<in> set ss. \<not> IsImpersonated reg (Account s) \<Longrightarrow>
   verify_loop reg verify p i ss ws g = verify_loop disabled verify p i ss ws g"
  by (induction ss arbitrary: i g) (auto simp: disabled_def split: prod.splits option.splits)

lemma IsImpersonated_enabled: "IsImpersonated reg h \<Longrightarrow> reg_enabled reg"
  by (auto simp: IsImpersonated_def split: if_splits)

lemma verify_loop_impersonated:
  "\<forall>s \<in> set ss. IsImpersonated reg (Account s) \<Longrightarrow> verify_loop reg verify p i ss ws g = None"
  by (induction ss arbitrary: i) (auto dest: IsImpersonated_enabled)



end
