(* ===== verification/Mempool.thy ===== *)
theory Mempool
  imports Transaction "HOL-Library.Multiset" "HOL-Library.Product_Lexorder"
begin

text \<open>
  The memory pool (\<open>pkg/core/mempool/mem_pool.go\<close> and the switch of \<open>subscriptions.go\<close>): a list of
  transactions sorted by priority with four indexes (by hash, fees by payer, hashes named by Conflicts
  attributes, oracle response ids). Every operation runs under the pool's lock and is one function of
  the state. A Go panic (a failed type assertion, an index out of range, a nil dereference) is \<open>Inl\<close>
  and has no resulting state. Channel operations and callbacks are a log of effects.
\<close>

section \<open>Data\<close>

text \<open>\<open>Transaction.Hash\<close> and \<open>Transaction.FeePerByte\<close> fill caches that no later call can tell from a
  recomputation, so they are functions of the transaction; \<open>Hash\<close> panics when the transaction cannot be
  serialized. Both depend on the encoder of public keys.\<close>

type_synonym 'g key_encoder = "'g \<Rightarrow> bin_writer \<Rightarrow> bin_writer"

definition Hash_panics :: "'g key_encoder \<Rightarrow> 'g transaction \<Rightarrow> bool" where
  "Hash_panics genc t \<longleftrightarrow> \<not> tx_hashed t \<and> fst (createHash genc t) \<noteq> None"

definition tx_Hash :: "'g key_encoder \<Rightarrow> 'g transaction \<Rightarrow> hash256" where
  "tx_Hash genc t = (if tx_hashed t then tx_hash t else tx_hash (snd (createHash genc t)))"

definition go_div :: "64 word \<Rightarrow> 64 word \<Rightarrow> 64 word" where
  "go_div a b = word_of_int (sgn (sint a) * sgn (sint b) * (\<bar>sint a\<bar> div \<bar>sint b\<bar>))"

definition tx_FeePerByte :: "'g key_encoder \<Rightarrow> 'g transaction \<Rightarrow> 64 word" where
  "tx_FeePerByte genc t = go_div (NetworkFee t) (of_nat (fst (tx_Size genc t)))"

record ('g, 'd) item =
  txn :: "'g transaction"
  blockStamp :: u32
  data :: "'d option"

record utilityBalanceAndFees =
  balance :: "256 word"
  feeSum :: "256 word"

record feer =
  f_FeePerByte :: "64 word"
  GetUtilityTokenBalance :: "uint160 \<Rightarrow> int"
  BlockHeight :: u32

datatype pool_err = ErrInsufficientFunds | ErrConflict | ErrDup | ErrOOM | ErrConflictsAttribute | ErrOracleResponse

datatype ('g, 'd) pool_effect =
    TransactionAdded "'g transaction" "'d option"
  | TransactionRemoved "'g transaction" "'d option"
  | CloseAdded nat
  | UpdateMetrics nat

record ('g, 'd) pool =
  verifiedMap :: "hash256 \<rightharpoonup> 'g transaction"
  verifiedTxes :: "('g, 'd) item list"
  fees :: "uint160 \<rightharpoonup> utilityBalanceAndFees"
  conflicts :: "hash256 \<rightharpoonup> hash256 list"
  oracleResp :: "u64 \<rightharpoonup> hash256"
  capacity :: nat
  feePerByte :: "64 word"
  payerIndex :: nat
  updateMetricsCb :: bool
  resendThreshold :: u32
  subscriptionsEnabled :: bool
  subscriptionsOn :: bool
  stopChClosed :: bool
  transactionAddedCh :: "nat option"
  effects :: "('g, 'd) pool_effect list"

definition New_pool :: "nat \<Rightarrow> nat \<Rightarrow> bool \<Rightarrow> bool \<Rightarrow> ('g, 'd) pool" where
  "New_pool cap payer enableSubscriptions cb =
    \<lparr>verifiedMap = Map.empty, verifiedTxes = [], fees = Map.empty, conflicts = Map.empty, oracleResp = Map.empty,
     capacity = cap, feePerByte = 0, payerIndex = payer, updateMetricsCb = cb, resendThreshold = 0,
     subscriptionsEnabled = enableSubscriptions, subscriptionsOn = False, stopChClosed = False, transactionAddedCh = None, effects = []\<rparr>"

definition emit :: "('g, 'd) pool_effect \<Rightarrow> ('g, 'd) pool \<Rightarrow> ('g, 'd) pool" where
  "emit e mp = mp\<lparr>effects := effects mp @ [e]\<rparr>"

section \<open>Priorities and searching\<close>

text \<open>The result of \<open>Compare\<close> is a Go \<open>int\<close>, 64 bits wide; its sign is what the callers use.\<close>

definition item_Compare :: "'g key_encoder \<Rightarrow> ('g, 'd) item \<Rightarrow> ('g, 'd) item \<Rightarrow> 64 word" where
  "item_Compare genc p q =
    (let pHigh = HasAttribute (txn p) HighPriority; otherHigh = HasAttribute (txn q) HighPriority
     in if pHigh \<and> \<not> otherHigh then 1
        else if \<not> pHigh \<and> otherHigh then - 1
        else let ret = tx_FeePerByte genc (txn p) - tx_FeePerByte genc (txn q)
             in if ret \<noteq> 0 then ret else NetworkFee (txn p) - NetworkFee (txn q))"

text \<open>\<open>sort.Search\<close> of the Go library.\<close>

function search_loop :: "(nat \<Rightarrow> bool) \<Rightarrow> nat \<Rightarrow> nat \<Rightarrow> nat" where
  "search_loop f i j =
    (if i < j then let h = (i + j) div 2 in if \<not> f h then search_loop f (h + 1) j else search_loop f i h else i)"
  by auto
termination
  by (relation "measure (\<lambda>(_, i, j). j - i)") auto

declare search_loop.simps [simp del]

definition sort_Search :: "nat \<Rightarrow> (nat \<Rightarrow> bool) \<Rightarrow> nat" where
  "sort_Search n f = search_loop f 0 n"

section \<open>Queries\<close>

definition pool_count :: "('g, 'd) pool \<Rightarrow> nat" where
  "pool_count mp = length (verifiedTxes mp)"

definition containsKey :: "('g, 'd) pool \<Rightarrow> hash256 \<Rightarrow> bool" where
  "containsKey mp h \<longleftrightarrow> verifiedMap mp h \<noteq> None"

text \<open>\<open>attr.Value.(*transaction.Conflicts).Hash\<close> and \<open>attrs[0].Value.(*transaction.OracleResponse).ID\<close>;
  \<open>None\<close> is the panic of the type assertion.\<close>

definition conflict_hash :: "attribute \<Rightarrow> hash256 option" where
  "conflict_hash a = (case a_Value a of Some (Conflicts h) \<Rightarrow> Some h | _ \<Rightarrow> None)"

definition response_id :: "attribute \<Rightarrow> u64 option" where
  "response_id a = (case a_Value a of Some (OracleResponse i _ _) \<Rightarrow> Some i | _ \<Rightarrow> None)"

fun any_contained :: "('g, 'd) pool \<Rightarrow> attribute list \<Rightarrow> string + bool" where
  "any_contained mp [] = Inr False"
| "any_contained mp (a # as) = (case conflict_hash a of None \<Rightarrow> Inl ''interface conversion''
     | Some h \<Rightarrow> if containsKey mp h then Inr True else any_contained mp as)"

definition HasConflicts :: "'g key_encoder \<Rightarrow> ('g, 'd) pool \<Rightarrow> 'g transaction \<Rightarrow> string + bool" where
  "HasConflicts genc mp t =
    (if Hash_panics genc t then Inl ''failed to compute hash!''
     else if containsKey mp (tx_Hash genc t) then Inr True
     else if conflicts mp (tx_Hash genc t) \<noteq> None then Inr True
     else any_contained mp (GetAttributes t ConflictsT))"

definition TryGetValue :: "('g, 'd) pool \<Rightarrow> hash256 \<Rightarrow> 'g transaction option" where
  "TryGetValue mp h = verifiedMap mp h"

fun get_data_loop :: "'g key_encoder \<Rightarrow> hash256 \<Rightarrow> ('g, 'd) item \<Rightarrow> ('g, 'd) item list \<Rightarrow> 'd option option" where
  "get_data_loop genc h itm [] = None"
| "get_data_loop genc h itm (i # is) =
    (if tx_Hash genc (txn i) = h then Some (data i)
     else if item_Compare genc itm i \<noteq> 0 then None
     else get_data_loop genc h itm is)"

definition TryGetData :: "'g key_encoder \<Rightarrow> ('g, 'd) pool \<Rightarrow> hash256 \<Rightarrow> 'd option option" where
  "TryGetData genc mp h =
    (case verifiedMap mp h of None \<Rightarrow> None
     | Some tx \<Rightarrow>
       (let itm = \<lparr>txn = tx, blockStamp = 0, data = None\<rparr>; txes = verifiedTxes mp;
            n = sort_Search (length txes) (\<lambda>n. 0 <=s item_Compare genc itm (txes ! n))
        in if n < length txes then get_data_loop genc h itm (drop n txes) else None))"

definition GetVerifiedTransactions :: "('g, 'd) pool \<Rightarrow> 'g transaction list" where
  "GetVerifiedTransactions mp = map txn (verifiedTxes mp)"

text \<open>The calls \<open>cont\<close> receives: up to and including the first that returns false.\<close>

fun iterate_calls :: "('g transaction \<Rightarrow> 'd option \<Rightarrow> bool) \<Rightarrow> ('g, 'd) item list \<Rightarrow> ('g transaction \<times> 'd option) list" where
  "iterate_calls cont [] = []"
| "iterate_calls cont (i # is) =
    (txn i, data i) # (if \<not> cont (txn i) (data i) then [] else iterate_calls cont is)"

definition IterateVerifiedTransactions ::
  "('g, 'd) pool \<Rightarrow> ('g transaction \<Rightarrow> 'd option \<Rightarrow> bool) \<Rightarrow> ('g transaction \<times> 'd option) list" where
  "IterateVerifiedTransactions mp cont = iterate_calls cont (verifiedTxes mp)"

section \<open>Balances\<close>

definition tx_fee :: "'g transaction \<Rightarrow> 256 word" where
  "tx_fee t = ucast (SystemFee t + NetworkFee t)"

definition checkBalance :: "'g transaction \<Rightarrow> utilityBalanceAndFees \<Rightarrow> pool_err + 256 word" where
  "checkBalance t b =
    (let txFee = tx_fee t
     in if balance b < txFee then Inl ErrInsufficientFunds
        else let txFee' = txFee + feeSum b
             in if balance b < txFee' then Inl ErrConflict else Inr txFee')"

definition payer_of :: "nat \<Rightarrow> 'g transaction \<Rightarrow> uint160 option" where
  "payer_of i t = (if i < length (Signers t) then Some (Account (Signers t ! i)) else None)"

definition fresh_balance :: "feer \<Rightarrow> uint160 \<Rightarrow> utilityBalanceAndFees" where
  "fresh_balance f p = \<lparr>balance = word_of_int (GetUtilityTokenBalance f p), feeSum = 0\<rparr>"

definition tryAddSendersFee :: "('g, 'd) pool \<Rightarrow> 'g transaction \<Rightarrow> feer \<Rightarrow> bool \<Rightarrow> string + bool \<times> ('g, 'd) pool" where
  "tryAddSendersFee mp tx f needCheck =
    (case payer_of (payerIndex mp) tx of None \<Rightarrow> Inl ''index out of range''
     | Some payer \<Rightarrow>
       (let (senderFee, mp1) = (case fees mp payer of Some b \<Rightarrow> (b, mp)
              | None \<Rightarrow> let b = fresh_balance f payer in (b, mp\<lparr>fees := (fees mp)(payer \<mapsto> b)\<rparr>))
        in if needCheck then
             (case checkBalance tx senderFee of Inl _ \<Rightarrow> Inr (False, mp1)
              | Inr s \<Rightarrow> Inr (True, mp1\<lparr>fees := (fees mp1)(payer \<mapsto> senderFee\<lparr>feeSum := s\<rparr>)\<rparr>))
           else Inr (True, mp1\<lparr>fees := (fees mp1)(payer \<mapsto> senderFee\<lparr>feeSum := feeSum senderFee + tx_fee tx\<rparr>)\<rparr>)))"

section \<open>Removing\<close>

fun removeConflictsOf :: "hash256 \<Rightarrow> attribute list \<Rightarrow> (hash256 \<rightharpoonup> hash256 list) \<Rightarrow> string + (hash256 \<rightharpoonup> hash256 list)" where
  "removeConflictsOf h [] m = Inr m"
| "removeConflictsOf h (a # as) m = (case conflict_hash a of None \<Rightarrow> Inl ''interface conversion''
     | Some ch \<Rightarrow>
       (let hs = (case m ch of None \<Rightarrow> [] | Some l \<Rightarrow> l)
        in if length hs = 1 then removeConflictsOf h as (m(ch := None))
           else removeConflictsOf h as (if h \<in> set hs then m(ch \<mapsto> remove1 h hs) else m)))"

text \<open>Deleting the id of the first oracle response attribute, if any.\<close>

definition delete_response :: "'g transaction \<Rightarrow> (u64 \<rightharpoonup> hash256) \<Rightarrow> string + (u64 \<rightharpoonup> hash256)" where
  "delete_response t m = (case GetAttributes t OracleResponseT of [] \<Rightarrow> Inr m
     | a # _ \<Rightarrow> (case response_id a of None \<Rightarrow> Inl ''interface conversion'' | Some i \<Rightarrow> Inr (m(i := None))))"

definition removed_event :: "('g, 'd) item \<Rightarrow> ('g, 'd) pool \<Rightarrow> ('g, 'd) pool" where
  "removed_event itm mp = (if subscriptionsOn mp then emit (TransactionRemoved (txn itm) (data itm)) mp else mp)"

definition no_fees :: utilityBalanceAndFees where
  "no_fees = \<lparr>balance = 0, feeSum = 0\<rparr>"

definition removeFromMapWithFeesAndAttrs :: "'g key_encoder \<Rightarrow> ('g, 'd) pool \<Rightarrow> ('g, 'd) item \<Rightarrow> string + ('g, 'd) pool" where
  "removeFromMapWithFeesAndAttrs genc mp itm =
    (let h = tx_Hash genc (txn itm)
     in case payer_of (payerIndex mp) (txn itm) of None \<Rightarrow> Inl ''index out of range''
        | Some payer \<Rightarrow>
          (let senderFee = (case fees mp payer of Some b \<Rightarrow> b | None \<Rightarrow> no_fees)
           in case removeConflictsOf h (GetAttributes (txn itm) ConflictsT) (conflicts mp) of Inl s \<Rightarrow> Inl s
              | Inr cs \<Rightarrow> (case delete_response (txn itm) (oracleResp mp) of Inl s \<Rightarrow> Inl s
                | Inr os \<Rightarrow> Inr (removed_event itm (mp\<lparr>verifiedMap := (verifiedMap mp)(h := None),
                     fees := (fees mp)(payer \<mapsto> senderFee\<lparr>feeSum := feeSum senderFee - tx_fee (txn itm)\<rparr>),
                     conflicts := cs, oracleResp := os\<rparr>)))))"

text \<open>The index the loop of \<open>removeInternal\<close> stops at: the first item with the hash, or the last one.\<close>

definition find_index :: "'g key_encoder \<Rightarrow> hash256 \<Rightarrow> ('g, 'd) item list \<Rightarrow> nat" where
  "find_index genc h xs = min (length (takeWhile (\<lambda>i. tx_Hash genc (txn i) \<noteq> h) xs)) (length xs - 1)"

definition removeInternal :: "'g key_encoder \<Rightarrow> ('g, 'd) pool \<Rightarrow> hash256 \<Rightarrow> string + ('g, 'd) pool" where
  "removeInternal genc mp h =
    (if verifiedMap mp h = None then Inr mp
     else let xs = verifiedTxes mp; num = find_index genc h xs
     in if length xs = 0 then Inl ''index out of range''
        else removeFromMapWithFeesAndAttrs genc
          (mp\<lparr>verifiedTxes := (if num < length xs - 1 then take num xs @ drop (num + 1) xs else take num xs)\<rparr>) (xs ! num))"

definition update_metrics :: "('g, 'd) pool \<Rightarrow> ('g, 'd) pool" where
  "update_metrics mp = (if updateMetricsCb mp then emit (UpdateMetrics (length (verifiedTxes mp))) mp else mp)"

definition pool_Remove :: "'g key_encoder \<Rightarrow> ('g, 'd) pool \<Rightarrow> hash256 \<Rightarrow> string + ('g, 'd) pool" where
  "pool_Remove genc mp h = (case removeInternal genc mp h of Inl s \<Rightarrow> Inl s | Inr mp' \<Rightarrow> Inr (update_metrics mp'))"

fun remove_all :: "'g key_encoder \<Rightarrow> hash256 list \<Rightarrow> ('g, 'd) pool \<Rightarrow> string + ('g, 'd) pool" where
  "remove_all genc [] mp = Inr mp"
| "remove_all genc (h # hs) mp = (case removeInternal genc mp h of Inl s \<Rightarrow> Inl s | Inr mp' \<Rightarrow> remove_all genc hs mp')"


section \<open>Conflicts\<close>

text \<open>Step 1: pooled transactions that name the new one. A hash that is not in the pool is a nil
  transaction, on which \<open>HasSigner\<close> panics.\<close>

fun named_by_loop :: "('g, 'd) pool \<Rightarrow> uint160 \<Rightarrow> hash256 list \<Rightarrow> 64 word \<times> 'g transaction list \<Rightarrow> string + 64 word \<times> 'g transaction list" where
  "named_by_loop mp payer [] acc = Inr acc"
| "named_by_loop mp payer (h # hs) (conflictingFee, rem) =
    (case verifiedMap mp h of None \<Rightarrow> Inl ''invalid memory address or nil pointer dereference''
     | Some existingTx \<Rightarrow>
         named_by_loop mp payer hs
           (if HasSigner existingTx payer then conflictingFee + NetworkFee existingTx else conflictingFee, rem @ [existingTx]))"

text \<open>Step 2: pooled transactions the new one names.\<close>

fun names_loop :: "('g, 'd) pool \<Rightarrow> 'g transaction \<Rightarrow> attribute list \<Rightarrow> 64 word \<times> 'g transaction list
    \<Rightarrow> string + (pool_err + 64 word \<times> 'g transaction list)" where
  "names_loop mp tx [] acc = Inr (Inr acc)"
| "names_loop mp tx (a # as) (conflictingFee, rem) =
    (case conflict_hash a of None \<Rightarrow> Inl ''interface conversion''
     | Some h \<Rightarrow>
       (case verifiedMap mp h of None \<Rightarrow> names_loop mp tx as (conflictingFee, rem)
        | Some existingTx \<Rightarrow>
          if \<not> (\<exists>s \<in> set (Signers existingTx). HasSigner tx (Account s)) then Inr (Inl ErrConflictsAttribute)
          else names_loop mp tx as (conflictingFee + NetworkFee existingTx, rem @ [existingTx])))"

text \<open>Step 3: the fees of the payer's own transactions that will be removed.\<close>

fun drop_fees_loop :: "nat \<Rightarrow> uint160 \<Rightarrow> 'g transaction list \<Rightarrow> 256 word \<Rightarrow> string + 256 word" where
  "drop_fees_loop i payer [] s = Inr s"
| "drop_fees_loop i payer (t # ts) s = (case payer_of i t of None \<Rightarrow> Inl ''index out of range''
     | Some p \<Rightarrow> drop_fees_loop i payer ts (if p = payer then s - tx_fee t else s))"

definition checkTxConflicts ::
  "'g key_encoder \<Rightarrow> ('g, 'd) pool \<Rightarrow> 'g transaction \<Rightarrow> feer \<Rightarrow> string + (pool_err + 'g transaction list) \<times> ('g, 'd) pool" where
  "checkTxConflicts genc mp tx f =
    (case payer_of (payerIndex mp) tx of None \<Rightarrow> Inl ''index out of range''
     | Some payer \<Rightarrow>
       if Hash_panics genc tx then Inl ''failed to compute hash!''
       else let actual = (case fees mp payer of Some b \<Rightarrow> b | None \<Rightarrow> fresh_balance f payer);
                hashes = (case conflicts mp (tx_Hash genc tx) of Some hs \<Rightarrow> hs | None \<Rightarrow> [])
       in case named_by_loop mp payer hashes (0, []) of Inl s \<Rightarrow> Inl s
          | Inr acc \<Rightarrow> (case names_loop mp tx (GetAttributes tx ConflictsT) acc of Inl s \<Rightarrow> Inl s
            | Inr (Inl e) \<Rightarrow> Inr (Inl e, mp)
            | Inr (Inr (conflictingFee, rem)) \<Rightarrow>
              if conflictingFee \<noteq> 0 \<and> NetworkFee tx <=s conflictingFee then Inr (Inl ErrConflictsAttribute, mp)
              else (case drop_fees_loop (payerIndex mp) payer rem (feeSum actual) of Inl s \<Rightarrow> Inl s
                | Inr expected \<Rightarrow>
                  (case checkBalance tx (actual\<lparr>feeSum := expected\<rparr>) of
                     Inl e \<Rightarrow> Inr (Inl e, mp)
                   | Inr _ \<Rightarrow> Inr (Inr rem, if fees mp payer = None then mp\<lparr>fees := (fees mp)(payer \<mapsto> actual)\<rparr> else mp)))))"

definition Verify :: "'g key_encoder \<Rightarrow> ('g, 'd) pool \<Rightarrow> 'g transaction \<Rightarrow> feer \<Rightarrow> string + bool \<times> ('g, 'd) pool" where
  "Verify genc mp tx f = (case checkTxConflicts genc mp tx f of Inl s \<Rightarrow> Inl s
     | Inr (Inl _, mp') \<Rightarrow> Inr (False, mp') | Inr (Inr _, mp') \<Rightarrow> Inr (True, mp'))"

section \<open>Adding\<close>

text \<open>The part of \<open>Add\<close> that keeps one response per oracle request.\<close>

definition claim_response :: "'g key_encoder \<Rightarrow> ('g, 'd) pool \<Rightarrow> 'g transaction \<Rightarrow> string + pool_err option \<times> ('g, 'd) pool" where
  "claim_response genc mp t =
    (case GetAttributes t OracleResponseT of [] \<Rightarrow> Inr (None, mp)
     | a # _ \<Rightarrow> (case response_id a of None \<Rightarrow> Inl ''interface conversion''
       | Some i \<Rightarrow> (case oracleResp mp i of
           None \<Rightarrow> Inr (None, mp\<lparr>oracleResp := (oracleResp mp)(i \<mapsto> tx_Hash genc t)\<rparr>)
         | Some h \<Rightarrow> (case verifiedMap mp h of None \<Rightarrow> Inl ''invalid memory address or nil pointer dereference''
           | Some old \<Rightarrow>
             if NetworkFee t <=s NetworkFee old then Inr (Some ErrOracleResponse, mp)
             else (case removeInternal genc mp h of Inl s \<Rightarrow> Inl s
               | Inr mp' \<Rightarrow> Inr (None, mp'\<lparr>oracleResp := (oracleResp mp')(i \<mapsto> tx_Hash genc t)\<rparr>))))))"

definition insert_position :: "'g key_encoder \<Rightarrow> ('g, 'd) item \<Rightarrow> ('g, 'd) item list \<Rightarrow> nat" where
  "insert_position genc p txes =
    (if 0 < length txes then
       if item_Compare genc p (txes ! (length txes - 1)) = 0 then length txes
       else sort_Search (length txes) (\<lambda>n. 0 <s item_Compare genc p (txes ! n))
     else 0)"

text \<open>\<open>copy(txes[n+1:], txes[n:])\<close> and the assignment of the item.\<close>

definition shift_item :: "nat \<Rightarrow> 'a \<Rightarrow> 'a list \<Rightarrow> 'a list" where
  "shift_item n p txes =
    (if n \<noteq> length txes - 1 then (take (n + 1) txes @ take (length txes - (n + 1)) (drop n txes))[n := p] else txes)"

fun add_conflicts :: "hash256 \<Rightarrow> attribute list \<Rightarrow> (hash256 \<rightharpoonup> hash256 list) \<Rightarrow> string + (hash256 \<rightharpoonup> hash256 list)" where
  "add_conflicts h [] m = Inr m"
| "add_conflicts h (a # as) m = (case conflict_hash a of None \<Rightarrow> Inl ''interface conversion''
     | Some ch \<Rightarrow> add_conflicts h as (m(ch \<mapsto> (case m ch of None \<Rightarrow> [] | Some hs \<Rightarrow> hs) @ [h])))"

definition notify_added :: "('g, 'd) item \<Rightarrow> ('g, 'd) pool \<Rightarrow> ('g, 'd) pool" where
  "notify_added p mp =
    (let mp1 = (case transactionAddedCh mp of None \<Rightarrow> mp | Some ch \<Rightarrow> emit (CloseAdded ch) (mp\<lparr>transactionAddedCh := None\<rparr>))
     in if subscriptionsOn mp1 then emit (TransactionAdded (txn p) (data p)) mp1 else mp1)"

definition make_room :: "'g key_encoder \<Rightarrow> ('g, 'd) pool \<Rightarrow> ('g, 'd) item \<Rightarrow> nat \<Rightarrow> string + pool_err option \<times> ('g, 'd) pool" where
  "make_room genc mp p n =
    (let txes = verifiedTxes mp
     in if length txes = capacity mp then
          (if n = length txes then Inr (Some ErrOOM, mp)
           else (case removeFromMapWithFeesAndAttrs genc (mp\<lparr>verifiedTxes := txes[length txes - 1 := p]\<rparr>) (txes ! (length txes - 1)) of
                   Inl s \<Rightarrow> Inl s | Inr mp' \<Rightarrow> Inr (None, mp')))
        else Inr (None, mp\<lparr>verifiedTxes := txes @ [p]\<rparr>))"

definition link_item :: "'g key_encoder \<Rightarrow> ('g, 'd) pool \<Rightarrow> ('g, 'd) item \<Rightarrow> nat \<Rightarrow> feer \<Rightarrow> string + ('g, 'd) pool" where
  "link_item genc mp p n f =
    (let h = tx_Hash genc (txn p);
         mp1 = mp\<lparr>verifiedTxes := shift_item n p (verifiedTxes mp), verifiedMap := (verifiedMap mp)(h \<mapsto> txn p)\<rparr>
     in case add_conflicts h (GetAttributes (txn p) ConflictsT) (conflicts mp1) of Inl s \<Rightarrow> Inl s
        | Inr cs \<Rightarrow> (case tryAddSendersFee (mp1\<lparr>conflicts := cs\<rparr>) (txn p) f False of Inl s \<Rightarrow> Inl s
          | Inr (_, mp2) \<Rightarrow> Inr (notify_added p (update_metrics mp2))))"

definition pool_Add ::
  "'g key_encoder \<Rightarrow> ('g, 'd) pool \<Rightarrow> 'g transaction \<Rightarrow> feer \<Rightarrow> 'd option \<Rightarrow> string + pool_err option \<times> ('g, 'd) pool" where
  "pool_Add genc mp t f d =
    (let pItem = \<lparr>txn = t, blockStamp = BlockHeight f, data = d\<rparr>
     in if Hash_panics genc t then Inl ''failed to compute hash!''
        else if containsKey mp (tx_Hash genc t) then Inr (Some ErrDup, mp)
        else (case checkTxConflicts genc mp t f of Inl s \<Rightarrow> Inl s
          | Inr (Inl e, mp1) \<Rightarrow> Inr (Some e, mp1)
          | Inr (Inr conflictsToBeRemoved, mp1) \<Rightarrow>
            (case claim_response genc mp1 t of Inl s \<Rightarrow> Inl s
             | Inr (Some e, mp2) \<Rightarrow> Inr (Some e, mp2)
             | Inr (None, mp2) \<Rightarrow>
               (case remove_all genc (map (tx_Hash genc) conflictsToBeRemoved) mp2 of Inl s \<Rightarrow> Inl s
                | Inr mp3 \<Rightarrow>
                  (let n = insert_position genc pItem (verifiedTxes mp3)
                   in case make_room genc mp3 pItem n of Inl s \<Rightarrow> Inl s
                      | Inr (Some e, mp4) \<Rightarrow> Inr (Some e, mp4)
                      | Inr (None, mp4) \<Rightarrow> (case link_item genc mp4 pItem n f of Inl s \<Rightarrow> Inl s
                        | Inr mp5 \<Rightarrow> Inr (None, mp5)))))))"

section \<open>Refreshing after a block\<close>

definition loadPolicy :: "('g, 'd) pool \<Rightarrow> feer \<Rightarrow> bool \<times> ('g, 'd) pool" where
  "loadPolicy mp f = (if feePerByte mp <s f_FeePerByte f then (True, mp\<lparr>feePerByte := f_FeePerByte f\<rparr>) else (False, mp))"

definition checkPolicy :: "'g key_encoder \<Rightarrow> ('g, 'd) pool \<Rightarrow> 'g transaction \<Rightarrow> bool \<Rightarrow> bool" where
  "checkPolicy genc mp tx policyChanged \<longleftrightarrow> \<not> policyChanged \<or> feePerByte mp <=s tx_FeePerByte genc tx"

definition pop_count_u32 :: "u32 \<Rightarrow> nat" where
  "pop_count_u32 w = length (filter (bit w) [0..<32])"

text \<open>Items are resent when the age is a power of two times the threshold.\<close>

definition must_resend :: "u32 \<Rightarrow> u32 \<Rightarrow> ('g, 'd) item \<Rightarrow> bool" where
  "must_resend threshold height itm \<longleftrightarrow> threshold \<noteq> 0 \<and>
    (let diff = height - blockStamp itm in diff mod threshold = 0 \<and> pop_count_u32 (diff div threshold) = 1)"

text \<open>The kept items are written over the front of the same slice, never past the item being read.\<close>

fun stale_loop :: "'g key_encoder \<Rightarrow> ('g transaction \<Rightarrow> bool) \<Rightarrow> feer \<Rightarrow> bool \<Rightarrow> ('g, 'd) item list
    \<Rightarrow> ('g, 'd) pool \<times> ('g, 'd) item list \<times> ('g, 'd) item list \<Rightarrow> string + ('g, 'd) pool \<times> ('g, 'd) item list \<times> ('g, 'd) item list" where
  "stale_loop genc isOK f policyChanged [] acc = Inr acc"
| "stale_loop genc isOK f policyChanged (itm # itms) (mp, kept, stale) =
    (case (if isOK (txn itm) \<and> checkPolicy genc mp (txn itm) policyChanged then tryAddSendersFee mp (txn itm) f True else Inr (False, mp)) of
       Inl s \<Rightarrow> Inl s
     | Inr (True, mp1) \<Rightarrow>
       (case add_conflicts (tx_Hash genc (txn itm)) (GetAttributes (txn itm) ConflictsT) (conflicts mp1) of Inl s \<Rightarrow> Inl s
        | Inr cs \<Rightarrow> stale_loop genc isOK f policyChanged itms
            (mp1\<lparr>conflicts := cs\<rparr>, kept @ [itm], if must_resend (resendThreshold mp) (BlockHeight f) itm then stale @ [itm] else stale))
     | Inr (False, mp1) \<Rightarrow>
       (case delete_response (txn itm) (oracleResp mp1) of Inl s \<Rightarrow> Inl s
        | Inr os \<Rightarrow> stale_loop genc isOK f policyChanged itms
            (removed_event itm (mp1\<lparr>verifiedMap := (verifiedMap mp1)(tx_Hash genc (txn itm) := None), oracleResp := os\<rparr>), kept, stale)))"

text \<open>The second component are the items handed to \<open>resendStaleItems\<close>.\<close>

definition RemoveStale ::
  "'g key_encoder \<Rightarrow> ('g, 'd) pool \<Rightarrow> ('g transaction \<Rightarrow> bool) \<Rightarrow> feer \<Rightarrow> string + ('g, 'd) pool \<times> ('g transaction \<times> 'd option) list" where
  "RemoveStale genc mp isOK f =
    (let (policyChanged, mp1) = loadPolicy mp f
     in case stale_loop genc isOK f policyChanged (verifiedTxes mp1) (mp1\<lparr>fees := Map.empty, conflicts := Map.empty\<rparr>, [], []) of
          Inl s \<Rightarrow> Inl s
        | Inr (mp2, kept, stale) \<Rightarrow> Inr (mp2\<lparr>verifiedTxes := kept\<rparr>, map (\<lambda>i. (txn i, data i)) stale))"

definition SetResendThreshold :: "('g, 'd) pool \<Rightarrow> u32 \<Rightarrow> ('g, 'd) pool" where
  "SetResendThreshold mp h = mp\<lparr>resendThreshold := h\<rparr>"

definition RegisterTransactionAddedSubscriber :: "('g, 'd) pool \<Rightarrow> nat \<Rightarrow> ('g, 'd) pool" where
  "RegisterTransactionAddedSubscriber mp ch = mp\<lparr>transactionAddedCh := Some ch\<rparr>"

text \<open>The switch of \<open>subscriptions.go\<close>.\<close>

definition RunSubscriptions :: "('g, 'd) pool \<Rightarrow> string + ('g, 'd) pool" where
  "RunSubscriptions mp = (if \<not> subscriptionsEnabled mp then Inl ''subscriptions are disabled'' else Inr (mp\<lparr>subscriptionsOn := True\<rparr>))"

definition StopSubscriptions :: "('g, 'd) pool \<Rightarrow> string + ('g, 'd) pool" where
  "StopSubscriptions mp =
    (if \<not> subscriptionsEnabled mp then Inl ''subscriptions are disabled''
     else if subscriptionsOn mp then
       (if stopChClosed mp then Inl ''close of closed channel'' else Inr (mp\<lparr>subscriptionsOn := False, stopChClosed := True\<rparr>))
     else Inr mp)"

end
