(* ===== verification/MempoolOrder.thy ===== *)
theory MempoolOrder
  imports Mempool
begin

text \<open>
  The order of the memory pool: what \<open>sort.Search\<close> finds, the total preorder that \<open>Compare\<close> computes,
  and that the insertion of \<open>Add\<close> keeps the list sorted.
\<close>

section \<open>Searching and priorities\<close>

lemma search_loop_done: "\<not> i < j \<Longrightarrow> search_loop f i j = i"
  by (subst search_loop.simps) simp

lemma search_loop_step:
  "i < j \<Longrightarrow> search_loop f i j = (if \<not> f ((i + j) div 2) then search_loop f ((i + j) div 2 + 1) j else search_loop f i ((i + j) div 2))"
  by (subst search_loop.simps) (simp add: Let_def)

text \<open>On a predicate that switches once, the loop finds the switch.\<close>

lemma search_loop_spec:
  assumes "\<And>k. k < n \<Longrightarrow> f k \<longleftrightarrow> r \<le> k" and "i \<le> r" and "r \<le> j" and "j \<le> n"
  shows "search_loop f i j = r"
  using assms
proof (induction f i j rule: search_loop.induct)
  case (1 f i j)
  let ?h = "(i + j) div 2"
  show ?case
  proof (cases "i < j")
    case True
    then have h: "i \<le> ?h" "?h < j" by auto
    then have "f ?h \<longleftrightarrow> r \<le> ?h" using 1(3,6) by simp
    with h show ?thesis using 1(1) [OF True refl _ 1(3)] 1(2) [OF True refl _ 1(3)] 1(4-) True
      by (auto simp: search_loop_step)
  qed (use 1 in \<open>simp add: search_loop_done\<close>)
qed

lemma sort_Search_spec: "(\<And>k. k < n \<Longrightarrow> f k \<longleftrightarrow> r \<le> k) \<Longrightarrow> r \<le> n \<Longrightarrow> sort_Search n f = r"
  unfolding sort_Search_def by (rule search_loop_spec [of n]) simp_all

text \<open>The order \<open>Compare\<close> computes: high priority first, then the fee per byte, then the network fee. It
  agrees with the differences \<open>Compare\<close> returns when no fee is negative.\<close>

definition prio :: "'g key_encoder \<Rightarrow> ('g, 'd) item \<Rightarrow> int \<times> int \<times> int" where
  "prio genc p = (of_bool (HasAttribute (txn p) HighPriority), sint (tx_FeePerByte genc (txn p)), sint (NetworkFee (txn p)))"

definition fees_ok :: "'g key_encoder \<Rightarrow> 'g transaction \<Rightarrow> bool" where
  "fees_ok genc t \<longleftrightarrow> 0 \<le> sint (NetworkFee t) \<and> 0 \<le> sint (tx_FeePerByte genc t)"

lemma sint_diff_nonneg:
  assumes "0 \<le> sint (a :: 64 word)" "0 \<le> sint b"
  shows "sint (a - b) = sint a - sint b"
proof -
  have "sint a < 2 ^ 63" "sint b < 2 ^ 63" using sint_lt [of a] sint_lt [of b] by simp_all
  with assms show ?thesis by (simp add: sint_word_ariths signed_take_bit_int_eq_self)
qed

lemma Compare_prio:
  assumes "fees_ok genc (txn p)" "fees_ok genc (txn q)"
  shows "0 <s item_Compare genc p q \<longleftrightarrow> prio genc q < prio genc p"
    and "0 <=s item_Compare genc p q \<longleftrightarrow> prio genc q \<le> prio genc p"
    and "item_Compare genc p q = 0 \<longleftrightarrow> prio genc q = prio genc p"
proof -
  note d = assms [unfolded fees_ok_def]
  let ?a = "sint (tx_FeePerByte genc (txn p)) - sint (tx_FeePerByte genc (txn q))"
  let ?b = "sint (NetworkFee (txn p)) - sint (NetworkFee (txn q))"
  have e: "sint (item_Compare genc p q) =
    (if HasAttribute (txn p) HighPriority \<and> \<not> HasAttribute (txn q) HighPriority then 1
     else if \<not> HasAttribute (txn p) HighPriority \<and> HasAttribute (txn q) HighPriority then - 1
     else if ?a \<noteq> 0 then ?a else ?b)"
    using d by (auto simp: item_Compare_def Let_def sint_diff_nonneg dest: signed_word_eqI)
  show "0 <s item_Compare genc p q \<longleftrightarrow> prio genc q < prio genc p"
    by (auto simp: word_sless_alt e prio_def less_prod_def)
  show "0 <=s item_Compare genc p q \<longleftrightarrow> prio genc q \<le> prio genc p"
    by (auto simp: word_sle_eq e prio_def less_eq_prod_def)
  have "item_Compare genc p q = 0 \<longleftrightarrow> sint (item_Compare genc p q) = 0" by (metis signed_eq_0_iff)
  then show "item_Compare genc p q = 0 \<longleftrightarrow> prio genc q = prio genc p"
    by (auto simp: e prio_def)
qed


text \<open>Insertion keeps the list sorted from the highest priority down.\<close>

abbreviation by_prio :: "'g key_encoder \<Rightarrow> ('g, 'd) item list \<Rightarrow> bool" where
  "by_prio genc \<equiv> sorted_wrt (\<lambda>x y. prio genc y \<le> prio genc x)"

definition rank :: "'g key_encoder \<Rightarrow> ('g, 'd) item \<Rightarrow> ('g, 'd) item list \<Rightarrow> nat" where
  "rank genc p xs = length (takeWhile (\<lambda>x. prio genc p \<le> prio genc x) xs)"

lemma rank_le [simp]: "rank genc p xs \<le> length xs"
  by (simp add: rank_def length_takeWhile_le)

lemma by_prio_rank:
  assumes "by_prio genc xs" "k < length xs"
  shows "prio genc (xs ! k) < prio genc p \<longleftrightarrow> rank genc p xs \<le> k"
proof (cases "k < rank genc p xs")
  case True
  then have "takeWhile (\<lambda>x. prio genc p \<le> prio genc x) xs ! k = xs ! k" by (simp add: rank_def takeWhile_nth)
  with True have "prio genc p \<le> prio genc (xs ! k)" using set_takeWhileD nth_mem unfolding rank_def by metis
  with True show ?thesis by (simp add: not_less [symmetric])
next
  case False
  let ?r = "rank genc p xs"
  have "?r < length xs" using False assms(2) by simp
  then have "prio genc (xs ! ?r) < prio genc p" using nth_length_takeWhile [of "\<lambda>x. prio genc p \<le> prio genc x" xs] by (simp add: rank_def)
  moreover have "prio genc (xs ! k) \<le> prio genc (xs ! ?r)"
    using assms False sorted_wrt_nth_less [of _ xs ?r k] by (cases "k = ?r") auto
  ultimately show ?thesis using False by simp
qed

lemma insert_position_rank:
  assumes "by_prio genc xs" "fees_ok genc (txn p)" "\<forall>x \<in> set xs. fees_ok genc (txn x)"
  shows "insert_position genc p xs = rank genc p xs"
proof (cases "xs = []")
  case False
  have c: "0 <s item_Compare genc p (xs ! k) \<longleftrightarrow> rank genc p xs \<le> k" if "k < length xs" for k
    using Compare_prio(1) [OF assms(2), of "xs ! k"] by_prio_rank [OF assms(1) that] assms(3) that by simp
  have "item_Compare genc p (xs ! (length xs - 1)) = 0 \<Longrightarrow> \<not> rank genc p xs \<le> length xs - 1"
    using Compare_prio(3) [OF assms(2), of "xs ! (length xs - 1)"] by_prio_rank [OF assms(1), of "length xs - 1" p] assms(3) False by simp
  then have "item_Compare genc p (xs ! (length xs - 1)) = 0 \<Longrightarrow> rank genc p xs = length xs"
    using rank_le [of genc p xs] by linarith
  then show ?thesis using c False by (auto simp: insert_position_def intro: sort_Search_spec)
qed (simp add: insert_position_def rank_def)

lemma insert_sorted:
  assumes "by_prio genc xs"
  shows "by_prio genc (take (rank genc p xs) xs @ p # drop (rank genc p xs) xs)"
proof -
  let ?r = "rank genc p xs"
  have "prio genc p \<le> prio genc x" if "x \<in> set (take ?r xs)" for x
  proof -
    from that obtain k where "k < ?r" "k < length xs" "x = xs ! k" using rank_le [of genc p xs] by (auto simp: in_set_conv_nth)
    then show ?thesis using by_prio_rank [OF assms, of k p] by (simp add: not_less [symmetric])
  qed
  moreover have "prio genc x \<le> prio genc p" if "x \<in> set (drop ?r xs)" for x
  proof -
    from that obtain k where "x = xs ! (?r + k)" "?r + k < length xs" by (auto simp: in_set_conv_nth)
    then show ?thesis using by_prio_rank [OF assms, of "?r + k" p] by simp
  qed
  ultimately show ?thesis using assms
    by (auto simp: sorted_wrt_append sorted_wrt_take sorted_wrt_drop) (metis append_take_drop_id sorted_wrt_append)
qed

lemma shift_item_append: "n \<le> length xs \<Longrightarrow> shift_item n p (xs @ [p]) = take n xs @ p # drop n xs"
  by (auto simp: shift_item_def list_update_append take_Suc_conv_app_nth nth_append not_less Suc_diff_le)

lemma shift_item_replace:
  assumes "n < length xs"
  shows "shift_item n p (xs[length xs - 1 := p]) = take n xs @ p # butlast (drop n xs)"
proof -
  from assms obtain ys y where xs: "xs = ys @ [y]" by (metis append_butlast_last_id length_0_conv not_less_zero)
  then have "n \<le> length ys" "xs[length xs - 1 := p] = ys @ [p]" using assms by simp_all
  then show ?thesis by (simp add: shift_item_append xs butlast_append)
qed

end
