(* ===== verification/MempoolIndex.thy ===== *)
theory MempoolIndex
  imports MempoolOrder
begin

text \<open>
  The indexes of the memory pool: what each of them holds of the pooled items, and that removing an
  item or adding one keeps them exact.
\<close>

section \<open>What the indexes hold\<close>

definition typed_attrs :: "'g transaction \<Rightarrow> bool" where
  "typed_attrs t \<longleftrightarrow> (\<forall>a \<in> set (Attributes t).
     (a_Type a = ConflictsT \<longrightarrow> conflict_hash a \<noteq> None) \<and> (a_Type a = OracleResponseT \<longrightarrow> response_id a \<noteq> None))"

definition named_hashes :: "'g transaction \<Rightarrow> hash256 list" where
  "named_hashes t = map (\<lambda>a. the (conflict_hash a)) (GetAttributes t ConflictsT)"

definition oracle_id :: "'g transaction \<Rightarrow> u64 option" where
  "oracle_id t = (case GetAttributes t OracleResponseT of [] \<Rightarrow> None | a # _ \<Rightarrow> response_id a)"

text \<open>What the pool relies on of a transaction: the decoders and the block chain's checks give it.\<close>

definition poolable :: "'g key_encoder \<Rightarrow> nat \<Rightarrow> 'g transaction \<Rightarrow> bool" where
  "poolable genc i t \<longleftrightarrow> i < length (Signers t) \<and> typed_attrs t \<and> fees_ok genc t \<and> \<not> Hash_panics genc t"

abbreviation item_hash :: "'g key_encoder \<Rightarrow> ('g, 'd) item \<Rightarrow> hash256" where
  "item_hash genc i \<equiv> tx_Hash genc (txn i)"

definition list_at :: "(hash256 \<rightharpoonup> hash256 list) \<Rightarrow> hash256 \<Rightarrow> hash256 list" where
  "list_at m h = (case m h of None \<Rightarrow> [] | Some l \<Rightarrow> l)"

definition paid_by :: "nat \<Rightarrow> uint160 \<Rightarrow> ('g, 'd) item list \<Rightarrow> ('g, 'd) item list" where
  "paid_by i p = filter (\<lambda>x. payer_of i (txn x) = Some p)"

definition namings :: "'g key_encoder \<Rightarrow> hash256 \<Rightarrow> ('g, 'd) item \<Rightarrow> hash256 multiset" where
  "namings genc h x = replicate_mset (count_list (named_hashes (txn x)) h) (item_hash genc x)"

definition conflict_index :: "'g key_encoder \<Rightarrow> (hash256 \<rightharpoonup> hash256 list) \<Rightarrow> ('g, 'd) item list \<Rightarrow> bool" where
  "conflict_index genc m xs \<longleftrightarrow> (\<forall>h. m h \<noteq> Some [] \<and> mset (list_at m h) = (\<Sum>x\<leftarrow>xs. namings genc h x))"

definition fee_index :: "nat \<Rightarrow> (uint160 \<rightharpoonup> utilityBalanceAndFees) \<Rightarrow> ('g, 'd) item list \<Rightarrow> bool" where
  "fee_index i m xs \<longleftrightarrow> (\<forall>p. case m p of None \<Rightarrow> paid_by i p xs = []
     | Some b \<Rightarrow> feeSum b = (\<Sum>x\<leftarrow>paid_by i p xs. tx_fee (txn x)))"

text \<open>The oracle index may hold stale entries \<open>E\<close>: ids of responses that never entered the pool.\<close>

definition response_index :: "'g key_encoder \<Rightarrow> (u64 \<times> hash256) set \<Rightarrow> (u64 \<rightharpoonup> hash256) \<Rightarrow> ('g, 'd) item list \<Rightarrow> bool" where
  "response_index genc E m xs \<longleftrightarrow>
     (\<forall>i h. m i = Some h \<longleftrightarrow> (i, h) \<in> E \<or> (\<exists>x \<in> set xs. item_hash genc x = h \<and> oracle_id (txn x) = Some i))
     \<and> (\<forall>(i, h) \<in> E. \<forall>x \<in> set xs. oracle_id (txn x) \<noteq> Some i \<and> item_hash genc x \<noteq> h)"

definition hash_index :: "'g key_encoder \<Rightarrow> (hash256 \<rightharpoonup> 'g transaction) \<Rightarrow> ('g, 'd) item list \<Rightarrow> bool" where
  "hash_index genc m xs \<longleftrightarrow> distinct (map (item_hash genc) xs) \<and> m = map_of (map (\<lambda>x. (item_hash genc x, txn x)) xs)"

definition indexed :: "'g key_encoder \<Rightarrow> (u64 \<times> hash256) set \<Rightarrow> ('g, 'd) pool \<Rightarrow> ('g, 'd) item list \<Rightarrow> bool" where
  "indexed genc E mp xs \<longleftrightarrow> hash_index genc (verifiedMap mp) xs \<and> fee_index (payerIndex mp) (fees mp) xs
     \<and> conflict_index genc (conflicts mp) xs \<and> response_index genc E (oracleResp mp) xs
     \<and> (\<forall>x \<in> set xs. poolable genc (payerIndex mp) (txn x))"

subsection \<open>Conflicts\<close>

lemma typed_conflicts: "typed_attrs t \<Longrightarrow> a \<in> set (GetAttributes t ConflictsT) \<Longrightarrow> conflict_hash a \<noteq> None"
  by (auto simp: typed_attrs_def GetAttributes_def)

lemma count_list_Cons_hash: "count_list (the (conflict_hash a) # hs) h = (if the (conflict_hash a) = h then 1 else 0) + count_list hs h"
  by simp

lemma list_at_upd [simp]:
  "list_at (m(k \<mapsto> l)) h = (if h = k then l else list_at m h)"
  "list_at (m(k := None)) h = (if h = k then [] else list_at m h)"
  by (simp_all add: list_at_def)

lemma removeConflictsOf_spec:
  assumes "\<forall>a \<in> set as. conflict_hash a \<noteq> None" and "\<forall>k. m k \<noteq> Some []"
    and "\<And>k. replicate_mset (count_list (map (\<lambda>a. the (conflict_hash a)) as) k) h \<subseteq># mset (list_at m k)"
  shows "\<exists>m'. removeConflictsOf h as m = Inr m' \<and> (\<forall>k. m' k \<noteq> Some [])
    \<and> (\<forall>k. mset (list_at m' k) = mset (list_at m k) - replicate_mset (count_list (map (\<lambda>a. the (conflict_hash a)) as) k) h)"
  using assms
proof (induction as arbitrary: m)
  case (Cons a as)
  from Cons.prems(1) obtain ch where ch: "conflict_hash a = Some ch" by auto
  let ?r = "\<lambda>k. replicate_mset (count_list (map (\<lambda>a. the (conflict_hash a)) as) k) h"
  define m1 where "m1 = (if length (list_at m ch) = 1 then m(ch := None)
    else if h \<in> set (list_at m ch) then m(ch \<mapsto> remove1 h (list_at m ch)) else m)"
  have in_h: "h \<in> set (list_at m ch)"
    using mset_subset_eqD [OF Cons.prems(3) [of ch], of h] ch by simp
  have step: "removeConflictsOf h (a # as) m = removeConflictsOf h as m1"
    by (simp add: ch m1_def list_at_def [symmetric] Let_def)
  have at: "mset (list_at m1 k) = mset (list_at m k) - (if k = ch then {#h#} else {#})" for k
  proof (cases "length (list_at m ch) = 1")
    case True
    then have "list_at m ch = [h]" using in_h by (cases "list_at m ch") auto
    then show ?thesis using True by (simp add: m1_def)
  qed (use in_h in \<open>simp add: m1_def\<close>)
  have ne: "\<forall>k. m1 k \<noteq> Some []"
  proof -
    have "length (list_at m ch) \<noteq> 1 \<Longrightarrow> remove1 h (list_at m ch) \<noteq> []"
      using in_h by (cases "list_at m ch"; cases "tl (list_at m ch)") auto
    then show ?thesis using Cons.prems(2) by (auto simp: m1_def)
  qed
  have sub: "?r k \<subseteq># mset (list_at m1 k)" for k
    using Cons.prems(3) [of k] by (auto simp: at ch insert_subset_eq_iff)
  from Cons.IH [OF _ ne sub] Cons.prems(1) obtain m' where
    "removeConflictsOf h as m1 = Inr m'" "\<forall>k. m' k \<noteq> Some []" "\<forall>k. mset (list_at m' k) = mset (list_at m1 k) - ?r k"
    by auto
  then show ?case by (intro exI [of _ m']) (auto simp: step at ch simp del: removeConflictsOf.simps)
qed auto

lemma add_conflicts_spec:
  assumes "\<forall>a \<in> set as. conflict_hash a \<noteq> None" and "\<forall>k. m k \<noteq> Some []"
  shows "\<exists>m'. add_conflicts h as m = Inr m' \<and> (\<forall>k. m' k \<noteq> Some [])
    \<and> (\<forall>k. mset (list_at m' k) = mset (list_at m k) + replicate_mset (count_list (map (\<lambda>a. the (conflict_hash a)) as) k) h)"
  using assms
proof (induction as arbitrary: m)
  case (Cons a as)
  from Cons.prems(1) obtain ch where ch: "conflict_hash a = Some ch" by auto
  let ?m1 = "m(ch \<mapsto> list_at m ch @ [h])"
  have step: "add_conflicts h (a # as) m = add_conflicts h as ?m1" by (simp add: ch list_at_def)
  have prem: "\<forall>a \<in> set as. conflict_hash a \<noteq> None" "\<forall>k. ?m1 k \<noteq> Some []" using Cons.prems by auto
  from Cons.IH [OF prem] obtain m' where "add_conflicts h (a # as) m = Inr m'" "\<forall>k. m' k \<noteq> Some []"
    "\<forall>k. mset (list_at m' k) = mset (list_at ?m1 k) + replicate_mset (count_list (map (\<lambda>a. the (conflict_hash a)) as) k) h"
    unfolding step by blast
  then show ?case by (intro exI [of _ m']) (auto simp: ch)
qed auto


lemma conflict_index_remove:
  assumes "conflict_index genc m (xs @ x # ys)" "typed_attrs (txn x)"
  shows "\<exists>m'. removeConflictsOf (item_hash genc x) (GetAttributes (txn x) ConflictsT) m = Inr m' \<and> conflict_index genc m' (xs @ ys)"
proof -
  note i = assms(1) [unfolded conflict_index_def]
  have "\<exists>m'. removeConflictsOf (item_hash genc x) (GetAttributes (txn x) ConflictsT) m = Inr m' \<and> (\<forall>k. m' k \<noteq> Some [])
    \<and> (\<forall>k. mset (list_at m' k) = mset (list_at m k) - namings genc k x)"
    using removeConflictsOf_spec [of "GetAttributes (txn x) ConflictsT" m "item_hash genc x"] i typed_conflicts [OF assms(2)]
    by (auto simp: namings_def named_hashes_def)
  then show ?thesis using i by (auto simp: conflict_index_def)
qed

lemma conflict_index_add:
  assumes "conflict_index genc m (xs @ ys)" "typed_attrs (txn x)"
  shows "\<exists>m'. add_conflicts (item_hash genc x) (GetAttributes (txn x) ConflictsT) m = Inr m' \<and> conflict_index genc m' (xs @ x # ys)"
  using add_conflicts_spec [of "GetAttributes (txn x) ConflictsT" m "item_hash genc x"] assms(1) typed_conflicts [OF assms(2)]
  by (fastforce simp: conflict_index_def namings_def named_hashes_def)

subsection \<open>Fees, hashes and responses\<close>

lemma paid_by_simps [simp]:
  "paid_by i p [] = []"
  "paid_by i p (x # xs) = (if payer_of i (txn x) = Some p then x # paid_by i p xs else paid_by i p xs)"
  "paid_by i p (xs @ ys) = paid_by i p xs @ paid_by i p ys"
  by (simp_all add: paid_by_def)

definition payer_index :: "nat \<Rightarrow> uint160 \<Rightarrow> utilityBalanceAndFees option \<Rightarrow> ('g, 'd) item list \<Rightarrow> bool" where
  "payer_index i p e xs \<longleftrightarrow> (case e of None \<Rightarrow> paid_by i p xs = [] | Some b \<Rightarrow> feeSum b = (\<Sum>x\<leftarrow>paid_by i p xs. tx_fee (txn x)))"

lemma fee_index_alt: "fee_index i m xs \<longleftrightarrow> (\<forall>p. payer_index i p (m p) xs)"
  by (simp add: fee_index_def payer_index_def)

lemma fee_index_remove:
  assumes "fee_index i m (xs @ x # ys)" "payer_of i (txn x) = Some p"
  shows "\<exists>b. m p = Some b \<and> fee_index i (m(p \<mapsto> b\<lparr>feeSum := feeSum b - tx_fee (txn x)\<rparr>)) (xs @ ys)"
proof -
  have each: "payer_index i q (m q) (xs @ x # ys)" for q using assms(1) by (simp add: fee_index_alt)
  from each [of p] assms(2) obtain b where b: "m p = Some b" by (auto simp: payer_index_def split: option.splits)
  have "payer_index i q ((m(p \<mapsto> b\<lparr>feeSum := feeSum b - tx_fee (txn x)\<rparr>)) q) (xs @ ys)" for q
    using each [of q] b assms(2) by (cases "q = p") (auto simp: payer_index_def split: option.splits)
  then show ?thesis using b by (auto simp: fee_index_alt)
qed

lemma fee_index_add:
  assumes "fee_index i m (xs @ ys)" "payer_of i (txn x) = Some p" "case m p of None \<Rightarrow> feeSum b = 0 | Some c \<Rightarrow> b = c"
  shows "fee_index i (m(p \<mapsto> b\<lparr>feeSum := feeSum b + tx_fee (txn x)\<rparr>)) (xs @ x # ys)"
proof -
  have each: "payer_index i q (m q) (xs @ ys)" for q using assms(1) by (simp add: fee_index_alt)
  have "payer_index i q ((m(p \<mapsto> b\<lparr>feeSum := feeSum b + tx_fee (txn x)\<rparr>)) q) (xs @ x # ys)" for q
    using each [of q] assms(2,3) by (cases "q = p") (auto simp: payer_index_def split: option.splits)
  then show ?thesis by (simp add: fee_index_alt)
qed

lemma fee_index_open: "fee_index i m xs \<Longrightarrow> m p = None \<Longrightarrow> feeSum b = 0 \<Longrightarrow> fee_index i (m(p \<mapsto> b)) xs"
  by (auto simp: fee_index_alt payer_index_def dest: spec [of _ p])

lemma hash_index_remove:
  assumes "hash_index genc m (xs @ x # ys)"
  shows "hash_index genc (m(item_hash genc x := None)) (xs @ ys)"
proof -
  let ?g = "\<lambda>zs. map_of (map (\<lambda>x. (item_hash genc x, txn x)) zs)"
  have d: "item_hash genc x \<notin> item_hash genc ` set xs" "item_hash genc x \<notin> item_hash genc ` set ys"
    using assms by (auto simp: hash_index_def)
  then have "?g xs (item_hash genc x) = None" "?g ys (item_hash genc x) = None"
    by (auto simp: map_of_eq_None_iff image_image)
  then have "(?g (xs @ x # ys))(item_hash genc x := None) = ?g (xs @ ys)"
    by (auto simp: fun_eq_iff map_add_def split: option.splits)
  then show ?thesis using assms by (simp add: hash_index_def)
qed

lemma hash_index_add:
  assumes "hash_index genc m (xs @ ys)" "m (item_hash genc x) = None"
  shows "hash_index genc (m(item_hash genc x \<mapsto> txn x)) (xs @ x # ys)"
proof -
  have "item_hash genc x \<notin> item_hash genc ` set (xs @ ys)"
    using assms by (auto simp: hash_index_def map_of_eq_None_iff image_image map_add_None simp flip: map_append)
  then show ?thesis using assms by (auto simp: hash_index_def fun_eq_iff map_add_def split: option.splits)
qed

lemma hash_index_lookup: "hash_index genc m xs \<Longrightarrow> x \<in> set xs \<Longrightarrow> m (item_hash genc x) = Some (txn x)"
  unfolding hash_index_def by (auto intro!: map_of_is_SomeI simp: comp_def)

lemma hash_index_someD: "hash_index genc m xs \<Longrightarrow> m h = Some t \<Longrightarrow> \<exists>x \<in> set xs. txn x = t \<and> item_hash genc x = h"
  by (auto simp: hash_index_def dest!: map_of_SomeD)

lemma response_index_remove:
  assumes "response_index genc E m (xs @ x # ys)" "distinct (map (item_hash genc) (xs @ x # ys))" "typed_attrs (txn x)"
  shows "\<exists>m'. delete_response (txn x) m = Inr m' \<and> response_index genc E m' (xs @ ys)"
proof (cases "oracle_id (txn x)")
  case None
  then have "GetAttributes (txn x) OracleResponseT = []"
    using assms(3) by (cases "GetAttributes (txn x) OracleResponseT")
      (auto simp: oracle_id_def typed_attrs_def GetAttributes_def filter_eq_Cons_iff)
  then show ?thesis using assms(1) None by (auto simp: delete_response_def response_index_def)
next
  case (Some i)
  have dm: "delete_response (txn x) m = Inr (m(i := None))"
    using Some by (auto simp: delete_response_def oracle_id_def split: list.splits option.splits)
  have mi: "m i = Some (item_hash genc x)" using assms(1) Some by (auto simp: response_index_def)
  have other: "oracle_id (txn y) \<noteq> Some i" if "y \<in> set (xs @ ys)" for y
  proof
    assume "oracle_id (txn y) = Some i"
    then have "m i = Some (item_hash genc y)" using assms(1) that by (auto simp: response_index_def)
    then show False using mi assms(2) that by (auto simp: image_iff)
  qed
  have e: "(i, h) \<notin> E" for h using assms(1) Some by (auto simp: response_index_def)
  have "response_index genc E (m(i := None)) (xs @ ys)"
    using assms(1) other e Some unfolding response_index_def by auto
  with dm show ?thesis by blast
qed

end
