(* ===== verification/MempoolAdd.thy ===== *)
theory MempoolAdd
  imports MempoolIndex
begin

text \<open>
  The steps of \<open>Add\<close> and \<open>Remove\<close>: none of them panics on a pool with exact indexes, and each keeps
  the indexes exact.
\<close>

section \<open>Removing keeps the indexes exact\<close>

definition known :: "('g, 'd) pool \<Rightarrow> uint160 \<Rightarrow> 256 word option" where
  "known mp p = map_option balance (fees mp p)"

lemma known_upd [simp]:
  "known (mp\<lparr>verifiedTxes := xs\<rparr>) = known mp" "known (mp\<lparr>oracleResp := os\<rparr>) = known mp"
  by (simp_all add: known_def fun_eq_iff)

definition same_setup :: "('g, 'd) pool \<Rightarrow> ('g, 'd) pool \<Rightarrow> bool" where
  "same_setup mp mp' \<longleftrightarrow> capacity mp' = capacity mp \<and> payerIndex mp' = payerIndex mp"

lemma same_setup_trans: "same_setup a b \<Longrightarrow> same_setup b c \<Longrightarrow> same_setup a c"
  by (simp add: same_setup_def)

lemma emit_fields [simp]:
  "verifiedMap (emit e mp) = verifiedMap mp" "verifiedTxes (emit e mp) = verifiedTxes mp" "fees (emit e mp) = fees mp"
  "conflicts (emit e mp) = conflicts mp" "oracleResp (emit e mp) = oracleResp mp" "capacity (emit e mp) = capacity mp"
  "payerIndex (emit e mp) = payerIndex mp" "subscriptionsOn (emit e mp) = subscriptionsOn mp"
  by (simp_all add: emit_def)

lemma event_fields [simp]:
  "verifiedMap (removed_event i mp) = verifiedMap mp" "verifiedTxes (removed_event i mp) = verifiedTxes mp"
  "fees (removed_event i mp) = fees mp" "conflicts (removed_event i mp) = conflicts mp"
  "oracleResp (removed_event i mp) = oracleResp mp" "capacity (removed_event i mp) = capacity mp"
  "payerIndex (removed_event i mp) = payerIndex mp"
  "verifiedMap (update_metrics mp) = verifiedMap mp" "verifiedTxes (update_metrics mp) = verifiedTxes mp"
  "fees (update_metrics mp) = fees mp" "conflicts (update_metrics mp) = conflicts mp"
  "oracleResp (update_metrics mp) = oracleResp mp" "capacity (update_metrics mp) = capacity mp"
  "payerIndex (update_metrics mp) = payerIndex mp"
  "verifiedMap (notify_added i mp) = verifiedMap mp" "verifiedTxes (notify_added i mp) = verifiedTxes mp"
  "fees (notify_added i mp) = fees mp" "conflicts (notify_added i mp) = conflicts mp"
  "oracleResp (notify_added i mp) = oracleResp mp" "capacity (notify_added i mp) = capacity mp"
  "payerIndex (notify_added i mp) = payerIndex mp"
  by (auto simp: removed_event_def update_metrics_def notify_added_def Let_def split: option.splits)

lemma removeFromMap_spec:
  assumes "indexed genc E mp (xs @ x # ys)"
  obtains mp' where "removeFromMapWithFeesAndAttrs genc mp x = Inr mp'" "indexed genc E mp' (xs @ ys)"
    "verifiedTxes mp' = verifiedTxes mp" "same_setup mp mp'" "known mp' = known mp"
proof -
  note i = assms [unfolded indexed_def]
  have x: "typed_attrs (txn x)" "payer_of (payerIndex mp) (txn x) = Some (Account (Signers (txn x) ! payerIndex mp))"
    using i by (auto simp: poolable_def payer_of_def)
  let ?p = "Account (Signers (txn x) ! payerIndex mp)"
  obtain b where b: "fees mp ?p = Some b"
      "fee_index (payerIndex mp) ((fees mp)(?p \<mapsto> b\<lparr>feeSum := feeSum b - tx_fee (txn x)\<rparr>)) (xs @ ys)"
    using fee_index_remove [of _ _ xs x ys] i x(2) by blast
  obtain cs where cs: "removeConflictsOf (item_hash genc x) (GetAttributes (txn x) ConflictsT) (conflicts mp) = Inr cs"
      "conflict_index genc cs (xs @ ys)"
    using conflict_index_remove i x(1) by blast
  obtain os where os: "delete_response (txn x) (oracleResp mp) = Inr os" "response_index genc E os (xs @ ys)"
    using response_index_remove [of genc E "oracleResp mp" xs x ys, OF _ _ x(1)] i unfolding hash_index_def by blast
  let ?mp = "removed_event x (mp\<lparr>verifiedMap := (verifiedMap mp)(item_hash genc x := None),
     fees := (fees mp)(?p \<mapsto> b\<lparr>feeSum := feeSum b - tx_fee (txn x)\<rparr>), conflicts := cs, oracleResp := os\<rparr>)"
  show thesis
  proof
    show "removeFromMapWithFeesAndAttrs genc mp x = Inr ?mp"
      using x b cs os by (simp add: removeFromMapWithFeesAndAttrs_def Let_def)
    show "indexed genc E ?mp (xs @ ys)"
      using i b cs os hash_index_remove [of genc _ xs x ys] by (auto simp: indexed_def)
    show "known ?mp = known mp" using b(1) by (auto simp: known_def)
  qed (simp_all add: same_setup_def)
qed

lemma indexed_cong:
  "indexed genc E mp xs \<Longrightarrow> verifiedMap mp' = verifiedMap mp \<Longrightarrow> fees mp' = fees mp \<Longrightarrow> conflicts mp' = conflicts mp
   \<Longrightarrow> oracleResp mp' = oracleResp mp \<Longrightarrow> payerIndex mp' = payerIndex mp \<Longrightarrow> indexed genc E mp' xs"
  by (simp add: indexed_def)

abbreviation exact :: "'g key_encoder \<Rightarrow> (u64 \<times> hash256) set \<Rightarrow> ('g, 'd) pool \<Rightarrow> bool" where
  "exact genc E mp \<equiv> indexed genc E mp (verifiedTxes mp)"

lemma indexed_hashes: "indexed genc E mp xs \<Longrightarrow> distinct (map (item_hash genc) xs)"
  by (simp add: indexed_def hash_index_def)

lemma indexed_lookup:
  assumes "indexed genc E mp xs"
  shows "x \<in> set xs \<Longrightarrow> verifiedMap mp (item_hash genc x) = Some (txn x)"
    and "verifiedMap mp h = Some t \<Longrightarrow> \<exists>x \<in> set xs. txn x = t \<and> item_hash genc x = h"
    and "verifiedMap mp h = None \<longleftrightarrow> (\<forall>x \<in> set xs. item_hash genc x \<noteq> h)"
proof -
  have h: "hash_index genc (verifiedMap mp) xs" using assms by (simp add: indexed_def)
  show "x \<in> set xs \<Longrightarrow> verifiedMap mp (item_hash genc x) = Some (txn x)" by (rule hash_index_lookup [OF h])
  show "verifiedMap mp h = Some t \<Longrightarrow> \<exists>x \<in> set xs. txn x = t \<and> item_hash genc x = h" by (rule hash_index_someD [OF h])
  show "verifiedMap mp h = None \<longleftrightarrow> (\<forall>x \<in> set xs. item_hash genc x \<noteq> h)"
    using h by (auto simp: hash_index_def map_of_eq_None_iff image_image)
qed

lemma removeInternal_spec:
  assumes "exact genc E mp"
  obtains mp' where "removeInternal genc mp h = Inr mp'" "exact genc E mp'"
    "verifiedTxes mp' = filter (\<lambda>x. item_hash genc x \<noteq> h) (verifiedTxes mp)" "same_setup mp mp'" "known mp' = known mp"
proof (cases "verifiedMap mp h")
  case None
  then have "filter (\<lambda>x. item_hash genc x \<noteq> h) (verifiedTxes mp) = verifiedTxes mp"
    using indexed_lookup(3) [OF assms, of h] by (simp add: filter_id_conv)
  then show thesis using that [of mp] None assms by (simp add: removeInternal_def same_setup_def)
next
  case (Some t)
  then obtain x where x: "x \<in> set (verifiedTxes mp)" "item_hash genc x = h" using indexed_lookup(2) [OF assms] by blast
  then obtain xs ys where split: "verifiedTxes mp = xs @ x # ys" by (meson split_list)
  have dist: "\<forall>y \<in> set xs \<union> set ys. item_hash genc y \<noteq> h"
    using indexed_hashes [OF assms] x(2) unfolding split by (auto simp: image_iff)
  then have num: "find_index genc h (verifiedTxes mp) = length xs"
    using x(2) by (simp add: find_index_def split takeWhile_append2)
  let ?mp = "mp\<lparr>verifiedTxes := xs @ ys\<rparr>"
  have "indexed genc E ?mp (xs @ x # ys)" by (rule indexed_cong [OF assms [unfolded split]]) simp_all
  then obtain mp' where r: "removeFromMapWithFeesAndAttrs genc ?mp x = Inr mp'" "indexed genc E mp' (xs @ ys)"
    "verifiedTxes mp' = verifiedTxes ?mp" "same_setup ?mp mp'" "known mp' = known ?mp" by (rule removeFromMap_spec)
  have "removeInternal genc mp h = removeFromMapWithFeesAndAttrs genc ?mp x"
    using Some num [unfolded split] by (cases ys) (simp_all add: removeInternal_def Let_def split)
  moreover have "filter (\<lambda>x. item_hash genc x \<noteq> h) (verifiedTxes mp) = xs @ ys"
    using dist x(2) by (simp add: split filter_id_conv)
  ultimately show thesis using that [of mp'] r by (simp add: same_setup_def known_def)
qed

lemma remove_all_spec:
  assumes "exact genc E mp"
  shows "\<exists>mp'. remove_all genc hs mp = Inr mp' \<and> exact genc E mp'
    \<and> verifiedTxes mp' = filter (\<lambda>x. item_hash genc x \<notin> set hs) (verifiedTxes mp) \<and> same_setup mp mp' \<and> known mp' = known mp"
  using assms
proof (induction hs arbitrary: mp)
  case Nil
  then show ?case by (simp add: same_setup_def)
next
  case (Cons h hs)
  obtain mp1 where r: "removeInternal genc mp h = Inr mp1" "exact genc E mp1"
    "verifiedTxes mp1 = filter (\<lambda>x. item_hash genc x \<noteq> h) (verifiedTxes mp)" "same_setup mp mp1" "known mp1 = known mp"
    by (rule removeInternal_spec [OF Cons.prems])
  from Cons.IH [OF r(2)] obtain mp2 where r2: "remove_all genc hs mp1 = Inr mp2" "exact genc E mp2"
    "verifiedTxes mp2 = filter (\<lambda>x. item_hash genc x \<notin> set hs) (verifiedTxes mp1)" "same_setup mp1 mp2" "known mp2 = known mp1"
    by blast
  have "verifiedTxes mp2 = filter (\<lambda>x. item_hash genc x \<notin> set (h # hs)) (verifiedTxes mp)"
    unfolding r2(3) r(3) filter_filter by (rule filter_cong) auto
  moreover have "remove_all genc (h # hs) mp = Inr mp2" using r(1) r2(1) by simp
  ultimately show ?case using r2(2,4,5) r(4,5) by (intro exI [of _ mp2]) (simp add: same_setup_def)
qed


section \<open>Adding keeps the indexes exact\<close>

subsection \<open>What a new transaction displaces\<close>

definition displaced :: "'g key_encoder \<Rightarrow> ('g, 'd) pool \<Rightarrow> 'g transaction \<Rightarrow> hash256 list" where
  "displaced genc mp t = list_at (conflicts mp) (tx_Hash genc t) @ filter (containsKey mp) (named_hashes t)"

abbreviation pooled :: "('g, 'd) pool \<Rightarrow> hash256 \<Rightarrow> 'g transaction" where
  "pooled mp h \<equiv> the (verifiedMap mp h)"

lemma named_by_loop_spec:
  "\<forall>h \<in> set hs. verifiedMap mp h \<noteq> None \<Longrightarrow> \<exists>fee'. named_by_loop mp payer hs (fee, rem) = Inr (fee', rem @ map (pooled mp) hs)"
proof (induction hs arbitrary: fee rem)
  case (Cons h hs)
  then obtain t where "verifiedMap mp h = Some t" by auto
  with Cons.IH [of "if HasSigner t payer then fee + NetworkFee t else fee" "rem @ [t]"] Cons.prems show ?case by auto
qed simp

lemma names_loop_spec:
  "\<forall>a \<in> set as. conflict_hash a \<noteq> None \<Longrightarrow>
   names_loop mp t as (fee, rem) = Inr (Inl ErrConflictsAttribute)
   \<or> (\<exists>fee'. names_loop mp t as (fee, rem) = Inr (Inr (fee', rem @ map (pooled mp) (filter (containsKey mp) (map (\<lambda>a. the (conflict_hash a)) as)))))"
proof (induction as arbitrary: fee rem)
  case (Cons a as)
  from Cons.prems obtain h where h: "conflict_hash a = Some h" by auto
  show ?case
  proof (cases "verifiedMap mp h")
    case None
    then show ?thesis using h Cons by (simp add: containsKey_def)
  next
    case (Some x)
    then show ?thesis using h Cons.IH [of "fee + NetworkFee x" "rem @ [x]"] Cons.prems by (auto simp: containsKey_def)
  qed
qed simp

lemma drop_fees_loop_spec:
  "\<forall>t \<in> set ts. payer_of i t \<noteq> None \<Longrightarrow>
   drop_fees_loop i p ts s = Inr (s - (\<Sum>t\<leftarrow>filter (\<lambda>t. payer_of i t = Some p) ts. tx_fee t))"
  by (induction ts arbitrary: s) (auto simp: algebra_simps)

lemma sum_list_member: "x \<in># (\<Sum>i\<leftarrow>xs. f i) \<longleftrightarrow> (\<exists>i \<in> set xs. x \<in># f i)"
  by (induction xs) auto

lemma conflict_index_pooled:
  assumes "indexed genc E mp xs" "h \<in> set (list_at (conflicts mp) k)"
  shows "\<exists>x \<in> set xs. item_hash genc x = h \<and> k \<in> set (named_hashes (txn x))"
proof -
  have "h \<in># (\<Sum>x\<leftarrow>xs. namings genc k x)"
    using assms by (metis indexed_def conflict_index_def set_mset_mset)
  then show ?thesis by (auto simp: sum_list_member namings_def count_list_0_iff split: if_splits)
qed

lemma displaced_pooled:
  assumes "indexed genc E mp xs" "h \<in> set (displaced genc mp t)"
  shows "\<exists>x \<in> set xs. item_hash genc x = h \<and> verifiedMap mp h = Some (txn x)"
  using assms(2) conflict_index_pooled [OF assms(1)] indexed_lookup [OF assms(1)]
  by (auto simp: displaced_def containsKey_def) (metis option.exhaust)+

lemma displaced_hash: "indexed genc E mp xs \<Longrightarrow> map (tx_Hash genc) (map (pooled mp) (displaced genc mp t)) = displaced genc mp t"
  unfolding map_map by (rule map_idI) (use displaced_pooled in fastforce)

text \<open>\<open>checkTxConflicts\<close> refuses, or returns what the transaction displaces and has the payer's balance
  cached, with room for the fee once the payer's displaced transactions are gone.\<close>

definition payer_entry :: "('g, 'd) pool \<Rightarrow> feer \<Rightarrow> uint160 \<Rightarrow> utilityBalanceAndFees" where
  "payer_entry mp f p = (case fees mp p of Some b \<Rightarrow> b | None \<Rightarrow> fresh_balance f p)"

definition released :: "'g key_encoder \<Rightarrow> ('g, 'd) pool \<Rightarrow> 'g transaction \<Rightarrow> uint160 \<Rightarrow> 256 word" where
  "released genc mp t p = (\<Sum>x\<leftarrow>filter (\<lambda>x. payer_of (payerIndex mp) x = Some p) (map (pooled mp) (displaced genc mp t)). tx_fee x)"

lemma checkBalance_error: "checkBalance t b = Inl e \<Longrightarrow> e \<noteq> ErrOOM"
  by (auto simp: checkBalance_def Let_def split: if_splits)

lemma checkTxConflicts_spec:
  assumes i: "indexed genc E mp xs" and t: "poolable genc (payerIndex mp) t" and p: "payer_of (payerIndex mp) t = Some p"
  shows "(\<exists>e. e \<noteq> ErrOOM \<and> checkTxConflicts genc mp t f = Inr (Inl e, mp)) \<or>
    (checkTxConflicts genc mp t f = Inr (Inr (map (pooled mp) (displaced genc mp t)), mp\<lparr>fees := (fees mp)(p \<mapsto> payer_entry mp f p)\<rparr>)
     \<and> (\<exists>s. checkBalance t ((payer_entry mp f p)\<lparr>feeSum := feeSum (payer_entry mp f p) - released genc mp t p\<rparr>) = Inr s))"
proof -
  let ?hs = "list_at (conflicts mp) (tx_Hash genc t)"
  have "\<forall>h \<in> set ?hs. verifiedMap mp h \<noteq> None" using displaced_pooled [OF i, of _ t] by (auto simp: displaced_def)
  from named_by_loop_spec [OF this, of p 0 "[]"] obtain fee1 where
    s1: "named_by_loop mp p ?hs (0, []) = Inr (fee1, map (pooled mp) ?hs)" by auto
  have ta: "\<forall>a \<in> set (GetAttributes t ConflictsT). conflict_hash a \<noteq> None" using t typed_conflicts by (auto simp: poolable_def)
  have payers: "\<forall>x \<in> set (map (pooled mp) (displaced genc mp t)). payer_of (payerIndex mp) x \<noteq> None"
    using displaced_pooled [OF i, of _ t] i by (fastforce simp: indexed_def poolable_def payer_of_def)
  have entry: "(case fees mp p of Some b \<Rightarrow> b | None \<Rightarrow> fresh_balance f p) = payer_entry mp f p" by (simp add: payer_entry_def)
  have upd: "mp = mp\<lparr>fees := (fees mp)(p \<mapsto> payer_entry mp f p)\<rparr>" if "fees mp p = Some y" for y
    using that by (simp add: payer_entry_def fun_upd_idem)
  have nh: "\<not> Hash_panics genc t" using t by (simp add: poolable_def)
  have hs: "(case conflicts mp (tx_Hash genc t) of Some hs \<Rightarrow> hs | None \<Rightarrow> []) = ?hs" by (simp add: list_at_def split: option.split)
  from names_loop_spec [OF ta, of mp t fee1 "map (pooled mp) ?hs"] show ?thesis
  proof
    assume "names_loop mp t (GetAttributes t ConflictsT) (fee1, map (pooled mp) ?hs) = Inr (Inl ErrConflictsAttribute)"
    then show ?thesis by (simp add: checkTxConflicts_def p nh entry hs s1 Let_def)
  next
    assume "\<exists>fee'. names_loop mp t (GetAttributes t ConflictsT) (fee1, map (pooled mp) ?hs)
      = Inr (Inr (fee', map (pooled mp) ?hs @ map (pooled mp) (filter (containsKey mp) (map (\<lambda>a. the (conflict_hash a)) (GetAttributes t ConflictsT)))))"
    then obtain fee' where "names_loop mp t (GetAttributes t ConflictsT) (fee1, map (pooled mp) ?hs)
      = Inr (Inr (fee', map (pooled mp) (displaced genc mp t)))" by (auto simp: displaced_def named_hashes_def)
    then show ?thesis using drop_fees_loop_spec [OF payers, of p "feeSum (payer_entry mp f p)"]
      by (auto simp: checkTxConflicts_def p nh entry hs s1 Let_def released_def split: sum.splits intro: upd dest: checkBalance_error)
  qed
qed


subsection \<open>The oracle response and the insertion\<close>

definition pending :: "'g key_encoder \<Rightarrow> 'g transaction \<Rightarrow> (u64 \<times> hash256) set \<Rightarrow> (u64 \<times> hash256) set" where
  "pending genc t E = (case oracle_id t of None \<Rightarrow> E | Some i \<Rightarrow> insert (i, tx_Hash genc t) E)"

definition unclaimed :: "'g key_encoder \<Rightarrow> (u64 \<times> hash256) set \<Rightarrow> 'g transaction \<Rightarrow> bool" where
  "unclaimed genc E t \<longleftrightarrow> (\<forall>(i, h) \<in> E. h \<noteq> tx_Hash genc t \<and> oracle_id t \<noteq> Some i)"

definition rivals :: "('g, 'd) pool \<Rightarrow> 'g transaction \<Rightarrow> hash256 set" where
  "rivals mp t = {h. \<exists>i. oracle_id t = Some i \<and> oracleResp mp i = Some h}"

lemma oracle_id_cases:
  assumes "typed_attrs t"
  obtains "oracle_id t = None" "GetAttributes t OracleResponseT = []"
  | a as i where "oracle_id t = Some i" "GetAttributes t OracleResponseT = a # as" "response_id a = Some i"
proof (cases "GetAttributes t OracleResponseT")
  case (Cons a as)
  then have "a \<in> set (GetAttributes t OracleResponseT)" by simp
  then have "response_id a \<noteq> None" using assms by (auto simp: typed_attrs_def GetAttributes_def)
  then show thesis using that(2) Cons by (auto simp: oracle_id_def)
qed (use that(1) in \<open>simp add: oracle_id_def\<close>)

lemma response_index_lookup: "response_index genc E m xs \<Longrightarrow> x \<in> set xs \<Longrightarrow> oracle_id (txn x) = Some i \<Longrightarrow> m i = Some (item_hash genc x)"
  by (auto simp: response_index_def)

lemma response_index_claim:
  assumes "response_index genc E m xs" "\<forall>x \<in> set xs. oracle_id (txn x) \<noteq> Some i \<and> item_hash genc x \<noteq> h" "\<forall>k. (i, k) \<notin> E"
  shows "response_index genc (insert (i, h) E) (m(i \<mapsto> h)) xs"
  using assms unfolding response_index_def by auto

lemma indexed_claim:
  assumes "indexed genc E mp xs" "\<forall>x \<in> set xs. oracle_id (txn x) \<noteq> Some i \<and> item_hash genc x \<noteq> h" "\<forall>k. (i, k) \<notin> E"
  shows "indexed genc (insert (i, h) E) (mp\<lparr>oracleResp := (oracleResp mp)(i \<mapsto> h)\<rparr>) xs"
  using assms by (simp add: indexed_def response_index_claim)

lemma claim_response_spec:
  assumes i: "exact genc E mp" and t: "typed_attrs t" and new: "verifiedMap mp (tx_Hash genc t) = None" and u: "unclaimed genc E t"
  shows "claim_response genc mp t = Inr (Some ErrOracleResponse, mp) \<or>
    (\<exists>mp'. claim_response genc mp t = Inr (None, mp') \<and> exact genc (pending genc t E) mp'
       \<and> verifiedTxes mp' = filter (\<lambda>x. item_hash genc x \<notin> rivals mp t) (verifiedTxes mp)
       \<and> same_setup mp mp' \<and> known mp' = known mp)"
  using t
proof (cases rule: oracle_id_cases)
  case 1
  then show ?thesis using i by (simp add: claim_response_def pending_def same_setup_def rivals_def)
next
  case (2 a as n)
  have stale: "\<forall>k. (n, k) \<notin> E" using u 2 by (auto simp: unclaimed_def)
  have hash: "\<forall>x \<in> set (verifiedTxes mp). item_hash genc x \<noteq> tx_Hash genc t" using new indexed_lookup(3) [OF i] by blast
  have ri: "response_index genc E (oracleResp mp) (verifiedTxes mp)" using i by (simp add: indexed_def)
  show ?thesis
  proof (cases "oracleResp mp n")
    case None
    let ?mp = "mp\<lparr>oracleResp := (oracleResp mp)(n \<mapsto> tx_Hash genc t)\<rparr>"
    have "oracle_id (txn x) \<noteq> Some n" if "x \<in> set (verifiedTxes mp)" for x
      using response_index_lookup [OF ri that, of n] None by auto
    then have "exact genc (insert (n, tx_Hash genc t) E) ?mp" using indexed_claim [OF i _ stale, of "tx_Hash genc t"] hash by auto
    moreover have "claim_response genc mp t = Inr (None, ?mp)" using 2 None by (simp add: claim_response_def)
    moreover have "rivals mp t = {}" using 2 None by (auto simp: rivals_def)
    ultimately show ?thesis using 2 by (auto simp: pending_def same_setup_def)
  next
    case (Some h)
    then obtain x where x: "x \<in> set (verifiedTxes mp)" "item_hash genc x = h" "oracle_id (txn x) = Some n"
      using ri stale by (auto simp: response_index_def)
    have old: "verifiedMap mp h = Some (txn x)" using indexed_lookup(1) [OF i x(1)] x(2) by simp
    obtain mp1 where r: "removeInternal genc mp h = Inr mp1" "exact genc E mp1"
      "verifiedTxes mp1 = filter (\<lambda>x. item_hash genc x \<noteq> h) (verifiedTxes mp)" "same_setup mp mp1" "known mp1 = known mp"
      by (rule removeInternal_spec [OF i])
    let ?mp = "mp1\<lparr>oracleResp := (oracleResp mp1)(n \<mapsto> tx_Hash genc t)\<rparr>"
    have "oracle_id (txn y) \<noteq> Some n" if "y \<in> set (verifiedTxes mp1)" for y
      using response_index_lookup [OF ri, of y n] Some that r(3) by auto
    then have "exact genc (insert (n, tx_Hash genc t) E) ?mp"
      using indexed_claim [OF r(2) _ stale, of "tx_Hash genc t"] hash r(3) by auto
    moreover have "claim_response genc mp t = Inr (Some ErrOracleResponse, mp) \<or> claim_response genc mp t = Inr (None, ?mp)"
      using 2 Some old r(1) by (simp add: claim_response_def)
    moreover have "rivals mp t = {h}" using 2 Some by (auto simp: rivals_def)
    ultimately show ?thesis using 2 r(3-) by (auto simp: pending_def same_setup_def)
  qed
qed

lemma stale_claim_panics:
  assumes "typed_attrs t" "oracle_id t = Some i" "oracleResp mp i = Some h" "verifiedMap mp h = None"
  shows "claim_response genc mp t = Inl ''invalid memory address or nil pointer dereference''"
  using assms(1) by (cases rule: oracle_id_cases) (use assms in \<open>simp_all add: claim_response_def\<close>)

end
