(* ===== verification/MempoolInv.thy ===== *)
theory MempoolInv
  imports MempoolAdd
begin

text \<open>
  The invariant of the memory pool and the specification of \<open>Add\<close>: it never panics while no stale
  oracle entry is in the way, and ends in one of two ways, refused with the items untouched or added
  with the survivors kept in order.
\<close>

subsection \<open>Making room and linking\<close>

lemma make_room_spec:
  assumes i: "exact genc E mp" and cap: "length (verifiedTxes mp) \<le> capacity mp" and n: "n \<le> length (verifiedTxes mp)"
  defines "full \<equiv> length (verifiedTxes mp) = capacity mp"
  defines "kept \<equiv> (if full then butlast (verifiedTxes mp) else verifiedTxes mp)"
  shows "if full \<and> n = length (verifiedTxes mp) then make_room genc mp p n = Inr (Some ErrOOM, mp)
    else \<exists>mp'. make_room genc mp p n = Inr (None, mp') \<and> indexed genc E mp' kept \<and> n \<le> length kept
      \<and> shift_item n p (verifiedTxes mp') = take n kept @ p # drop n kept \<and> same_setup mp mp' \<and> known mp' = known mp"
proof (cases "full \<and> n < length (verifiedTxes mp)")
  case True
  let ?xs = "verifiedTxes mp"
  from True obtain ys y where xs: "?xs = ys @ [y]" by (metis append_butlast_last_id length_0_conv not_less_zero)
  let ?mp = "mp\<lparr>verifiedTxes := ys @ [p]\<rparr>"
  have "indexed genc E mp (ys @ y # [])" using i xs by simp
  then have "indexed genc E ?mp (ys @ y # [])" by (rule indexed_cong) simp_all
  then obtain mp' where r: "removeFromMapWithFeesAndAttrs genc ?mp y = Inr mp'" "indexed genc E mp' (ys @ [])"
    "verifiedTxes mp' = verifiedTxes ?mp" "same_setup ?mp mp'" "known mp' = known ?mp" by (rule removeFromMap_spec)
  have kept: "kept = ys" "n \<le> length ys" using True xs by (auto simp: kept_def)
  have "capacity mp = Suc (length ys)" "n \<noteq> Suc (length ys)" using True xs by (simp_all add: full_def)
  then have "make_room genc mp p n = Inr (None, mp')"
    using r(1) xs by (simp add: make_room_def Let_def)
  moreover have "shift_item n p (verifiedTxes mp') = take n ys @ p # drop n ys"
    using kept r(3) by (simp add: shift_item_append)
  ultimately show ?thesis using True r kept by (auto simp: same_setup_def)
next
  case False
  show ?thesis
  proof (cases full)
    case True
    then show ?thesis using False n by (simp add: make_room_def full_def)
  next
    case notfull: False
    have "indexed genc E (mp\<lparr>verifiedTxes := verifiedTxes mp @ [p]\<rparr>) (verifiedTxes mp)" using i by (rule indexed_cong) simp_all
    with notfull n show ?thesis by (auto simp: make_room_def full_def kept_def shift_item_append same_setup_def)
  qed
qed

lemma response_index_link:
  assumes "response_index genc (pending genc (txn x) E) m (xs @ ys)" "unclaimed genc E (txn x)" "typed_attrs (txn x)"
  shows "response_index genc E m (xs @ x # ys)"
proof (cases "oracle_id (txn x)")
  case None
  then show ?thesis using assms by (auto simp: response_index_def pending_def unclaimed_def)
next
  case (Some i)
  then have E: "\<And>j k. (j, k) \<in> E \<Longrightarrow> k \<noteq> item_hash genc x \<and> j \<noteq> i" using assms(2) by (auto simp: unclaimed_def)
  show ?thesis using assms(1) Some E unfolding response_index_def pending_def by auto
qed

lemma tryAddSendersFee_False:
  assumes "payer_of (payerIndex mp) t = Some p" "fees mp p = Some b"
  shows "tryAddSendersFee mp t f False = Inr (True, mp\<lparr>fees := (fees mp)(p \<mapsto> b\<lparr>feeSum := feeSum b + tx_fee t\<rparr>)\<rparr>)"
  using assms by (simp add: tryAddSendersFee_def)

lemma link_item_spec:
  assumes i: "indexed genc (pending genc (txn x) E) mp (xs @ ys)" and u: "unclaimed genc E (txn x)"
    and t: "poolable genc (payerIndex mp) (txn x)" and p: "payer_of (payerIndex mp) (txn x) = Some p"
    and b: "fees mp p = Some b" and new: "verifiedMap mp (item_hash genc x) = None"
  shows "\<exists>mp'. link_item genc mp x n f = Inr mp' \<and> indexed genc E mp' (xs @ x # ys)
    \<and> verifiedTxes mp' = shift_item n x (verifiedTxes mp) \<and> same_setup mp mp' \<and> known mp' = known mp"
proof -
  note d = i [unfolded indexed_def]
  have ta: "typed_attrs (txn x)" using t by (simp add: poolable_def)
  obtain cs where cs: "add_conflicts (item_hash genc x) (GetAttributes (txn x) ConflictsT) (conflicts mp) = Inr cs"
    "conflict_index genc cs (xs @ x # ys)" using conflict_index_add d ta by blast
  let ?mp1 = "mp\<lparr>verifiedTxes := shift_item n x (verifiedTxes mp), verifiedMap := (verifiedMap mp)(item_hash genc x \<mapsto> txn x), conflicts := cs\<rparr>"
  let ?mp2 = "?mp1\<lparr>fees := (fees mp)(p \<mapsto> b\<lparr>feeSum := feeSum b + tx_fee (txn x)\<rparr>)\<rparr>"
  have "tryAddSendersFee ?mp1 (txn x) f False = Inr (True, ?mp2)"
    using tryAddSendersFee_False [of ?mp1 "txn x" p b f] p b by simp
  then have "link_item genc mp x n f = Inr (notify_added x (update_metrics ?mp2))"
    using cs by (simp add: link_item_def Let_def)
  moreover have "indexed genc E (notify_added x (update_metrics ?mp2)) (xs @ x # ys)"
    using d cs(2) hash_index_add [of genc _ xs ys x] fee_index_add [of _ _ xs ys x p b] response_index_link [of genc x E _ xs ys]
      p b new u ta t by (auto simp: indexed_def)
  moreover have "known (notify_added x (update_metrics ?mp2)) = known mp" using b by (auto simp: known_def)
  ultimately show ?thesis by (auto simp: same_setup_def)
qed

section \<open>The invariant of the pool\<close>

definition pool_inv :: "'g key_encoder \<Rightarrow> (u64 \<times> hash256) set \<Rightarrow> ('g, 'd) pool \<Rightarrow> bool" where
  "pool_inv genc E mp \<longleftrightarrow> exact genc E mp \<and> by_prio genc (verifiedTxes mp) \<and> length (verifiedTxes mp) \<le> capacity mp"

lemma New_pool_inv: "pool_inv genc {} (New_pool cap payer subs cb)"
  by (simp add: pool_inv_def New_pool_def indexed_def hash_index_def fee_index_def conflict_index_def response_index_def list_at_def)

text \<open>The items that stay when a transaction comes in: neither displaced nor rival, and without the last
  one if there would still be no room.\<close>

definition staying :: "'g key_encoder \<Rightarrow> nat \<Rightarrow> hash256 set \<Rightarrow> ('g, 'd) item list \<Rightarrow> ('g, 'd) item list" where
  "staying genc c R xs = (let F = filter (\<lambda>x. item_hash genc x \<notin> R) xs in if length F = c then butlast F else F)"

definition survivors :: "'g key_encoder \<Rightarrow> ('g, 'd) pool \<Rightarrow> 'g transaction \<Rightarrow> ('g, 'd) item list" where
  "survivors genc mp t = staying genc (capacity mp) (rivals mp t \<union> set (displaced genc mp t)) (verifiedTxes mp)"

lemma by_prio_filter: "by_prio genc xs \<Longrightarrow> by_prio genc (filter P xs)"
  by (rule sorted_wrt_filter)

lemma by_prio_butlast: "by_prio genc xs \<Longrightarrow> by_prio genc (butlast xs)"
  by (simp add: butlast_conv_take sorted_wrt_take)


lemma insert_butlast:
  assumes "by_prio genc xs" "rank genc p xs < length xs"
  shows "by_prio genc (take (rank genc p xs) (butlast xs) @ p # drop (rank genc p xs) (butlast xs))"
proof -
  let ?n = "rank genc p xs"
  from assms(2) obtain ys y where xs: "xs = ys @ [y]" by (metis append_butlast_last_id length_0_conv not_less_zero)
  have "take ?n (butlast xs) @ p # drop ?n (butlast xs) = butlast (take ?n xs @ p # drop ?n xs)"
    using assms(2) unfolding xs by (simp add: butlast_append)
  then show ?thesis using by_prio_butlast [OF insert_sorted [OF assms(1)]] by metis
qed

lemma exact_open:
  assumes "exact genc E mp"
  shows "exact genc E (mp\<lparr>fees := (fees mp)(p \<mapsto> payer_entry mp f p)\<rparr>)"
proof (cases "fees mp p")
  case None
  then have "fee_index (payerIndex mp) ((fees mp)(p \<mapsto> payer_entry mp f p)) (verifiedTxes mp)"
    using assms by (intro fee_index_open) (simp_all add: indexed_def payer_entry_def fresh_balance_def)
  then show ?thesis using assms by (simp add: indexed_def)
next
  case (Some b)
  then have "(fees mp)(p \<mapsto> payer_entry mp f p) = fees mp" by (simp add: payer_entry_def fun_upd_idem)
  then show ?thesis using assms by (simp add: indexed_def)
qed

lemma filter_full: "length (filter P xs) = c \<Longrightarrow> length xs \<le> c \<Longrightarrow> filter P xs = xs"
  by (metis filter_id_conv le_antisym length_filter_le length_filter_less less_irrefl)

lemma pool_Add_tail:
  assumes i: "exact genc (pending genc t E) mp" and s: "by_prio genc (verifiedTxes mp)" and cap: "length (verifiedTxes mp) \<le> capacity mp"
    and u: "unclaimed genc E t" and t: "poolable genc (payerIndex mp) t" and p: "payer_of (payerIndex mp) t = Some p"
    and b: "fees mp p \<noteq> None" and new: "verifiedMap mp (tx_Hash genc t) = None" and x: "txn x = t"
  defines "xs \<equiv> verifiedTxes mp"
  defines "n \<equiv> rank genc x xs"
  defines "kept \<equiv> (if length xs = capacity mp then butlast xs else xs)"
  shows "if length xs = capacity mp \<and> n = length xs then make_room genc mp x n = Inr (Some ErrOOM, mp)
    else \<exists>mp4 mp5. make_room genc mp x n = Inr (None, mp4) \<and> link_item genc mp4 x n f = Inr mp5
      \<and> pool_inv genc E mp5 \<and> verifiedTxes mp5 = take n kept @ x # drop n kept \<and> same_setup mp mp5 \<and> known mp5 = known mp"
proof (cases "length xs = capacity mp \<and> n = length xs")
  case True
  then show ?thesis using make_room_spec [OF i cap, of n x] by (simp add: xs_def)
next
  case False
  obtain mp4 where m: "make_room genc mp x n = Inr (None, mp4)" "indexed genc (pending genc t E) mp4 kept" "n \<le> length kept"
    "shift_item n x (verifiedTxes mp4) = take n kept @ x # drop n kept" "same_setup mp mp4" "known mp4 = known mp"
    using make_room_spec [OF i cap, of n x] False by (auto simp: xs_def n_def kept_def split: if_splits)
  have pi: "payerIndex mp4 = payerIndex mp" using m(5) by (simp add: same_setup_def)
  from b have "known mp4 p \<noteq> None" unfolding m(6) by (simp add: known_def)
  then obtain b4 where b4: "fees mp4 p = Some b4" by (auto simp: known_def)
  have "set kept \<subseteq> set xs" by (auto simp: kept_def dest: in_set_butlastD)
  then have new4: "verifiedMap mp4 (tx_Hash genc t) = None"
    using indexed_lookup(3) [OF m(2)] indexed_lookup(3) [OF i] new by (auto simp: xs_def)
  have "indexed genc (pending genc (txn x) E) mp4 (take n kept @ drop n kept)" using m(2) x by simp
  then obtain mp5 where l: "link_item genc mp4 x n f = Inr mp5" "indexed genc E mp5 (take n kept @ x # drop n kept)"
    "verifiedTxes mp5 = shift_item n x (verifiedTxes mp4)" "same_setup mp4 mp5" "known mp5 = known mp4"
    using link_item_spec [of genc x E mp4 "take n kept" "drop n kept" p b4 n f] u t p b4 new4 x pi by auto
  have "n \<le> length xs" by (simp add: n_def)
  then have "length xs = capacity mp \<Longrightarrow> n < length xs" using False by auto
  then have "by_prio genc (verifiedTxes mp5)"
    using s insert_sorted [of genc xs x] insert_butlast [of genc xs x] l(3) m(4) by (auto simp: xs_def n_def kept_def)
  moreover have "length (verifiedTxes mp5) \<le> capacity mp5"
    using cap False m(4,5) l(3,4) \<open>n \<le> length xs\<close> by (auto simp: kept_def xs_def same_setup_def)
  ultimately have "pool_inv genc E mp5" using l(2,3) m(4) by (simp add: pool_inv_def)
  then show ?thesis using m l False by (auto intro: same_setup_trans)
qed


lemma pool_Add_rest:
  fixes mp :: "('g, 'd) pool" and d :: "'d option"
  assumes i: "exact genc E mp1" and s: "by_prio genc (verifiedTxes mp1)" and cap: "length (verifiedTxes mp1) \<le> capacity mp1"
    and t: "poolable genc (payerIndex mp1) t" and u: "unclaimed genc E t" and p: "payer_of (payerIndex mp1) t = Some p"
    and new: "verifiedMap mp1 (tx_Hash genc t) = None" and b: "fees mp1 p \<noteq> None"
    and nh: "\<not> Hash_panics genc t" "verifiedMap mp (tx_Hash genc t) = None"
    and c: "checkTxConflicts genc mp t f = Inr (Inr rem, mp1)"
  defines "x \<equiv> \<lparr>txn = t, blockStamp = BlockHeight f, data = d\<rparr>"
  defines "kept \<equiv> staying genc (capacity mp1) (rivals mp1 t \<union> set (map (tx_Hash genc) rem)) (verifiedTxes mp1)"
  obtains "pool_Add genc mp t f d = Inr (Some ErrOracleResponse, mp1)"
  | mp' where "pool_Add genc mp t f d = Inr (Some ErrOOM, mp')" "verifiedTxes mp' = verifiedTxes mp1"
      "pool_inv genc (pending genc t E) mp'" "same_setup mp1 mp'" "known mp' = known mp1"
  | n mp' where "pool_Add genc mp t f d = Inr (None, mp')" "verifiedTxes mp' = take n kept @ x # drop n kept"
      "pool_inv genc E mp'" "same_setup mp1 mp'" "known mp' = known mp1"
proof -
  define F where "F = filter (\<lambda>x. item_hash genc x \<notin> rivals mp1 t \<union> set (map (tx_Hash genc) rem)) (verifiedTxes mp1)"
  have kept: "kept = (if length F = capacity mp1 then butlast F else F)" by (simp add: kept_def staying_def F_def)
  have ta: "typed_attrs t" using t by (simp add: poolable_def)
  have start: "pool_Add genc mp t f d = (case claim_response genc mp1 t of Inl s \<Rightarrow> Inl s
    | Inr (Some e, mp2) \<Rightarrow> Inr (Some e, mp2)
    | Inr (None, mp2) \<Rightarrow> (case remove_all genc (map (tx_Hash genc) rem) mp2 of Inl s \<Rightarrow> Inl s
      | Inr mp3 \<Rightarrow> (let n = insert_position genc x (verifiedTxes mp3) in case make_room genc mp3 x n of Inl s \<Rightarrow> Inl s
         | Inr (Some e, mp4) \<Rightarrow> Inr (Some e, mp4)
         | Inr (None, mp4) \<Rightarrow> (case link_item genc mp4 x n f of Inl s \<Rightarrow> Inl s | Inr mp5 \<Rightarrow> Inr (None, mp5)))))"
    unfolding pool_Add_def Let_def x_def using nh c by (simp add: containsKey_def)
  show thesis
  proof (cases "claim_response genc mp1 t = Inr (Some ErrOracleResponse, mp1)")
    case True
    then show thesis using that(1) start by simp
  next
    case False
    then obtain mp2 where r2: "claim_response genc mp1 t = Inr (None, mp2)" "exact genc (pending genc t E) mp2"
      "verifiedTxes mp2 = filter (\<lambda>x. item_hash genc x \<notin> rivals mp1 t) (verifiedTxes mp1)" "same_setup mp1 mp2" "known mp2 = known mp1"
      using claim_response_spec [OF i ta new u] by blast
    from remove_all_spec [OF r2(2), of "map (tx_Hash genc) rem"] obtain mp3 where
      r3: "remove_all genc (map (tx_Hash genc) rem) mp2 = Inr mp3" "exact genc (pending genc t E) mp3"
      "verifiedTxes mp3 = filter (\<lambda>x. item_hash genc x \<notin> set (map (tx_Hash genc) rem)) (verifiedTxes mp2)"
      "same_setup mp2 mp3" "known mp3 = known mp2" by blast
    have F: "verifiedTxes mp3 = F" unfolding r3(3) r2(3) filter_filter F_def by (rule filter_cong) auto
    have su: "same_setup mp1 mp3" "known mp3 = known mp1" using r2 r3 by (simp_all add: same_setup_def)
    then have cp: "capacity mp3 = capacity mp1" "payerIndex mp3 = payerIndex mp1" by (simp_all add: same_setup_def)
    have new3: "verifiedMap mp3 (tx_Hash genc t) = None"
      using indexed_lookup(3) [OF r3(2)] indexed_lookup(3) [OF i] new by (auto simp: F F_def)
    have sF: "by_prio genc F" unfolding F_def by (rule by_prio_filter [OF s])
    have "known mp3 p \<noteq> None" using b by (simp add: su known_def)
    then have b3: "fees mp3 p \<noteq> None" by (simp add: known_def)
    have capF: "length F \<le> capacity mp1" using cap length_filter_le le_trans unfolding F_def by blast
    have pos: "insert_position genc x (verifiedTxes mp3) = rank genc x F"
      using insert_position_rank [OF sF, of x] t i unfolding F by (auto simp: x_def poolable_def indexed_def F_def)
    note tail = pool_Add_tail [OF r3(2) _ _ u _ _ b3 new3, of x f]
    show thesis
    proof (cases "length F = capacity mp1 \<and> rank genc x F = length F")
      case True
      then have "make_room genc mp3 x (rank genc x F) = Inr (Some ErrOOM, mp3)"
        using tail sF capF t p by (simp add: F cp x_def)
      then have "pool_Add genc mp t f d = Inr (Some ErrOOM, mp3)" using start r2(1) r3(1) pos by (simp add: Let_def)
      moreover have "F = verifiedTxes mp1" unfolding F_def by (rule filter_full) (use True cap in \<open>auto simp: F_def\<close>)
      moreover have "pool_inv genc (pending genc t E) mp3" using r3(2) sF capF by (simp add: pool_inv_def F cp)
      ultimately show thesis using that(2) su F by simp
    next
      case False
      then obtain mp4 mp5 where "make_room genc mp3 x (rank genc x F) = Inr (None, mp4)" "link_item genc mp4 x (rank genc x F) f = Inr mp5"
        and r5: "pool_inv genc E mp5" "verifiedTxes mp5 = take (rank genc x F) kept @ x # drop (rank genc x F) kept" "same_setup mp3 mp5" "known mp5 = known mp3"
        using tail sF capF t p by (auto simp: F cp x_def kept split: if_splits)
      then have "pool_Add genc mp t f d = Inr (None, mp5)" using start r2(1) r3(1) pos by (simp add: Let_def)
      then show thesis using that(3) r5 su same_setup_trans by metis
    qed
  qed
qed


lemma pool_Add_spec:
  fixes mp :: "('g, 'd) pool" and d :: "'d option"
  assumes inv: "pool_inv genc E mp" and t: "poolable genc (payerIndex mp) t" and u: "unclaimed genc E t"
    and p: "payer_of (payerIndex mp) t = Some p"
  obtains (refused) e mp' where "pool_Add genc mp t f d = Inr (Some e, mp')" "verifiedTxes mp' = verifiedTxes mp"
      "pool_inv genc (if e = ErrOOM then pending genc t E else E) mp'" "same_setup mp mp'"
      "known mp' = known mp \<or> known mp' = (known mp)(p \<mapsto> balance (payer_entry mp f p))"
  | (added) n mp' where "pool_Add genc mp t f d = Inr (None, mp')" "pool_inv genc E mp'" "same_setup mp mp'"
      "verifiedTxes mp' = take n (survivors genc mp t) @ \<lparr>txn = t, blockStamp = BlockHeight f, data = d\<rparr> # drop n (survivors genc mp t)"
      "verifiedMap mp (tx_Hash genc t) = None" "known mp' = (known mp)(p \<mapsto> balance (payer_entry mp f p))"
      "\<exists>s. checkBalance t ((payer_entry mp f p)\<lparr>feeSum := feeSum (payer_entry mp f p) - released genc mp t p\<rparr>) = Inr s"
proof -
  have i: "exact genc E mp" using inv by (simp add: pool_inv_def)
  let ?b = "payer_entry mp f p" let ?rem = "map (pooled mp) (displaced genc mp t)"
  let ?mp1 = "mp\<lparr>fees := (fees mp)(p \<mapsto> ?b)\<rparr>"
  have nh: "\<not> Hash_panics genc t" using t by (simp_all add: poolable_def)
  have i1: "exact genc E ?mp1" by (rule exact_open [OF i])
  then have inv1: "pool_inv genc E ?mp1" using inv by (simp add: pool_inv_def)
  have k1: "known ?mp1 = (known mp)(p \<mapsto> balance ?b)" by (auto simp: known_def)
  have surv: "staying genc (capacity ?mp1) (rivals ?mp1 t \<union> set (map (tx_Hash genc) ?rem)) (verifiedTxes ?mp1) = survivors genc mp t"
    unfolding displaced_hash [OF i] by (simp add: survivors_def rivals_def)
  show thesis
  proof (cases "verifiedMap mp (tx_Hash genc t)")
    case (Some a)
    then show thesis using inv nh by (intro refused [of ErrDup mp]) (simp_all add: pool_Add_def containsKey_def same_setup_def)
  next
    case new: None
    from checkTxConflicts_spec [OF i t p, of f] show thesis
    proof (elim disjE exE conjE)
      fix e assume "e \<noteq> ErrOOM" "checkTxConflicts genc mp t f = Inr (Inl e, mp)"
      then show thesis using inv nh new by (intro refused [of e mp]) (simp_all add: pool_Add_def containsKey_def same_setup_def)
    next
      fix s assume c: "checkTxConflicts genc mp t f = Inr (Inr ?rem, ?mp1)"
        and bal: "checkBalance t (?b\<lparr>feeSum := feeSum ?b - released genc mp t p\<rparr>) = Inr s"
      show thesis
      proof (rule pool_Add_rest [OF i1 _ _ _ u _ _ _ nh new c, of p d])
        assume "pool_Add genc mp t f d = Inr (Some ErrOracleResponse, ?mp1)"
        then show thesis using inv1 k1 by (intro refused [of ErrOracleResponse ?mp1]) (simp_all add: same_setup_def)
      next
        fix mp' assume "pool_Add genc mp t f d = Inr (Some ErrOOM, mp')" "verifiedTxes mp' = verifiedTxes ?mp1"
          "pool_inv genc (pending genc t E) mp'" "same_setup ?mp1 mp'" "known mp' = known ?mp1"
        then show thesis using k1 by (intro refused [of ErrOOM mp']) (simp_all add: same_setup_def)
      next
        fix n mp' assume "pool_Add genc mp t f d = Inr (None, mp')" "pool_inv genc E mp'" "same_setup ?mp1 mp'" "known mp' = known ?mp1"
          and v: "verifiedTxes mp' = take n (staying genc (capacity ?mp1) (rivals ?mp1 t \<union> set (map (tx_Hash genc) ?rem)) (verifiedTxes ?mp1))
            @ \<lparr>txn = t, blockStamp = BlockHeight f, data = d\<rparr>
            # drop n (staying genc (capacity ?mp1) (rivals ?mp1 t \<union> set (map (tx_Hash genc) ?rem)) (verifiedTxes ?mp1))"
        then show thesis using k1 new bal v [unfolded surv] by (intro added [of mp' n]) (simp_all add: same_setup_def)
      qed (use inv t p new in \<open>simp_all add: pool_inv_def\<close>)
    qed
  qed
qed

end
