(* ===== verification/MempoolFees.thy ===== *)
theory MempoolFees
  imports MempoolInv
begin

text \<open>
  Fees without wrap-around: a pool in which every payer can pay for all pooled transactions stays so,
  and \<open>RemoveStale\<close> keeps what a greedy walk down the priorities would keep.
\<close>

section \<open>Fees in full\<close>

text \<open>What a payer's pooled transactions cost, with no wrap-around, and a pool in which every payer can
  pay for all of them.\<close>

definition spent :: "nat \<Rightarrow> uint160 \<Rightarrow> ('g, 'd) item list \<Rightarrow> nat" where
  "spent i p xs = (\<Sum>x\<leftarrow>paid_by i p xs. unat (tx_fee (txn x)))"

definition solvent :: "('g, 'd) pool \<Rightarrow> bool" where
  "solvent mp \<longleftrightarrow> (\<forall>p b. fees mp p = Some b \<longrightarrow> spent (payerIndex mp) p (verifiedTxes mp) \<le> unat (balance b))"

lemma unat_tx_fee: "unat (tx_fee t) = unat (SystemFee t + NetworkFee t)"
proof -
  have "unat (SystemFee t + NetworkFee t) < 2 ^ 256" by (rule less_trans [OF unat_lt_u64]) simp
  then show ?thesis by (simp add: tx_fee_def unsigned_ucast_eq take_bit_nat_eq_self)
qed

lemma tx_fee_bound: "unat (tx_fee t) < 2 ^ 64"
  by (simp add: unat_tx_fee)

lemma spent_simps [simp]:
  "spent i p [] = 0"
  "spent i p (x # xs) = (if payer_of i (txn x) = Some p then unat (tx_fee (txn x)) else 0) + spent i p xs"
  "spent i p (xs @ ys) = spent i p xs + spent i p ys"
  by (simp_all add: spent_def)

lemma spent_bound: "spent i p xs \<le> length xs * 2 ^ 64"
proof (induction xs)
  case (Cons x xs)
  then show ?case using tx_fee_bound [of "txn x"] by simp
qed simp

lemma sum_words: "(\<Sum>x\<leftarrow>paid_by i p xs. tx_fee (txn x)) = of_nat (spent i p xs)"
  by (induction xs) auto

lemma spent_filter_split: "spent i p xs = spent i p (filter P xs) + spent i p (filter (\<lambda>x. \<not> P x) xs)"
  by (induction xs) auto

lemma spent_filter_le: "spent i p (filter P xs) \<le> spent i p xs"
  using spent_filter_split [of i p xs P] by simp

lemma spent_butlast_le: "spent i p (butlast xs) \<le> spent i p xs"
  by (cases xs rule: rev_cases) auto

lemma spent_staying: "spent i p (staying genc c R xs) \<le> spent i p (filter (\<lambda>x. item_hash genc x \<notin> R) xs)"
  by (simp add: staying_def Let_def spent_butlast_le)

text \<open>Without duplicates, what \<open>checkTxConflicts\<close> releases is what the displaced items cost.\<close>

lemma mset_eq_sum_list: "mset xs = mset ys \<Longrightarrow> (\<Sum>x\<leftarrow>xs. f x) = (\<Sum>x\<leftarrow>ys. f x :: 'a::comm_monoid_add)"
  by (metis mset_map sum_mset_sum_list)

lemma mset_eq_map: "mset xs = mset ys \<Longrightarrow> mset (map f xs) = mset (map f ys)"
  by simp

lemma displaced_items:
  assumes i: "exact genc E mp" and d: "distinct (displaced genc mp t)"
  shows "mset (map (pooled mp) (displaced genc mp t)) = mset (map txn (filter (\<lambda>x. item_hash genc x \<in> set (displaced genc mp t)) (verifiedTxes mp)))"
proof -
  let ?ys = "filter (\<lambda>x. item_hash genc x \<in> set (displaced genc mp t)) (verifiedTxes mp)"
  have "distinct (map (item_hash genc) ?ys)" using indexed_hashes [OF i] by (rule distinct_map_filter)
  moreover have "set (displaced genc mp t) = set (map (item_hash genc) ?ys)"
    using displaced_pooled [OF i, of _ t] by (auto simp: image_iff)
  ultimately have "mset (displaced genc mp t) = mset (map (item_hash genc) ?ys)"
    using d set_eq_iff_mset_eq_distinct by blast
  moreover have "map (pooled mp) (map (item_hash genc) ?ys) = map txn ?ys"
    using indexed_lookup(1) [OF i] by simp
  ultimately show ?thesis using mset_eq_map [of "displaced genc mp t" _ "pooled mp"] by presburger
qed

lemma released_spent:
  assumes i: "exact genc E mp" and d: "distinct (displaced genc mp t)"
  shows "released genc mp t p = of_nat (spent (payerIndex mp) p (filter (\<lambda>x. item_hash genc x \<in> set (displaced genc mp t)) (verifiedTxes mp)))"
proof -
  let ?i = "payerIndex mp" let ?ys = "filter (\<lambda>x. item_hash genc x \<in> set (displaced genc mp t)) (verifiedTxes mp)"
  have "mset (filter (\<lambda>x. payer_of ?i x = Some p) (map (pooled mp) (displaced genc mp t))) = mset (filter (\<lambda>x. payer_of ?i x = Some p) (map txn ?ys))"
    using displaced_items [OF i d] by (simp only: mset_filter)
  then have "released genc mp t p = (\<Sum>x\<leftarrow>filter (\<lambda>x. payer_of ?i x = Some p) (map txn ?ys). tx_fee x)"
    unfolding released_def by (rule mset_eq_sum_list)
  also have "\<dots> = (\<Sum>x\<leftarrow>paid_by ?i p ?ys. tx_fee (txn x))" by (simp add: paid_by_def filter_map comp_def)
  finally show ?thesis by (simp add: sum_words)
qed

lemma expected_spent:
  assumes i: "exact genc E mp" and d: "distinct (displaced genc mp t)"
  shows "feeSum (payer_entry mp f p) - released genc mp t p =
    of_nat (spent (payerIndex mp) p (filter (\<lambda>x. item_hash genc x \<notin> set (displaced genc mp t)) (verifiedTxes mp)))"
proof -
  have "payer_index (payerIndex mp) p (fees mp p) (verifiedTxes mp)" using i by (simp add: indexed_def fee_index_alt)
  then have "feeSum (payer_entry mp f p) = of_nat (spent (payerIndex mp) p (verifiedTxes mp))"
    by (auto simp: payer_entry_def payer_index_def fresh_balance_def sum_words spent_def split: option.splits)
  then show ?thesis
    using spent_filter_split [of "payerIndex mp" p "verifiedTxes mp" "\<lambda>x. item_hash genc x \<in> set (displaced genc mp t)"]
    by (simp add: released_spent [OF i d])
qed

lemma checkBalance_nat_iff:
  assumes "s \<le> n * 2 ^ 64" "n < 2 ^ 190"
  shows "checkBalance t \<lparr>balance = b, feeSum = of_nat s\<rparr> =
    (if unat (tx_fee t) + s \<le> unat b then Inr (of_nat (unat (tx_fee t) + s))
     else if b < tx_fee t then Inl ErrInsufficientFunds else Inl ErrConflict)"
proof -
  have "s < 2 ^ 254" using assms by simp
  then have "unat (tx_fee t) + s < 2 ^ 256" using tx_fee_bound [of t] by simp
  then have "unat (tx_fee t + of_nat s) = unat (tx_fee t) + s"
    using \<open>s < 2 ^ 254\<close> by (simp add: unat_word_ariths unat_of_nat)
  then show ?thesis by (auto simp: checkBalance_def Let_def word_less_nat_alt)
qed

lemma pool_Add_solvent:
  assumes inv: "pool_inv genc E mp" and t: "poolable genc (payerIndex mp) t" and u: "unclaimed genc E t"
    and sv: "solvent mp" and d: "distinct (displaced genc mp t)" and cap: "capacity mp < 2 ^ 190"
    and a: "pool_Add genc mp t f dat = Inr (None, mp')"
  shows "solvent mp'"
proof -
  let ?i = "payerIndex mp" let ?D = "set (displaced genc mp t)"
  let ?G = "filter (\<lambda>x. item_hash genc x \<notin> ?D) (verifiedTxes mp)"
  have i: "exact genc E mp" using inv by (simp add: pool_inv_def)
  obtain p where p: "payer_of ?i t = Some p" using t by (auto simp: poolable_def payer_of_def)
  from inv t u p obtain n s where r: "same_setup mp mp'"
    "verifiedTxes mp' = take n (survivors genc mp t) @ \<lparr>txn = t, blockStamp = BlockHeight f, data = dat\<rparr> # drop n (survivors genc mp t)"
    "known mp' = (known mp)(p \<mapsto> balance (payer_entry mp f p))"
    and b: "checkBalance t ((payer_entry mp f p)\<lparr>feeSum := feeSum (payer_entry mp f p) - released genc mp t p\<rparr>) = Inr s"
    by (rule pool_Add_spec [of genc E mp t p f dat]) (use a in auto)
  have le: "spent ?i q (survivors genc mp t) \<le> spent ?i q ?G" for q
  proof -
    have "spent ?i q (survivors genc mp t) \<le> spent ?i q (filter (\<lambda>x. item_hash genc x \<notin> rivals mp t \<union> ?D) (verifiedTxes mp))"
      unfolding survivors_def by (rule spent_staying)
    also have "\<dots> \<le> spent ?i q ?G"
      using spent_filter_le [of ?i q "\<lambda>x. item_hash genc x \<notin> rivals mp t" ?G] by (simp add: conj_commute)
    finally show ?thesis .
  qed
  have spent': "spent ?i q (verifiedTxes mp') = (if q = p then unat (tx_fee t) else 0) + spent ?i q (survivors genc mp t)" for q
    using spent_simps(3) [of ?i q "take n (survivors genc mp t)" "drop n (survivors genc mp t)"] p by (auto simp: r(2))
  have "spent ?i p ?G \<le> length (verifiedTxes mp) * 2 ^ 64" by (rule order_trans [OF spent_filter_le spent_bound])
  moreover have "length (verifiedTxes mp) < 2 ^ 190" using inv cap by (auto simp: pool_inv_def)
  moreover have "checkBalance t \<lparr>balance = balance (payer_entry mp f p), feeSum = of_nat (spent ?i p ?G)\<rparr> = Inr s"
    using b unfolding expected_spent [OF i d] by (cases "payer_entry mp f p") simp
  ultimately have "unat (tx_fee t) + spent ?i p ?G \<le> unat (balance (payer_entry mp f p))" using checkBalance_nat_iff [of "spent ?i p ?G" "length (verifiedTxes mp)" t "balance (payer_entry mp f p)"] by (auto split: if_splits)
  then have pay: "spent ?i p (verifiedTxes mp') \<le> unat (balance (payer_entry mp f p))" using le [of p] by (simp add: spent')
  show ?thesis unfolding solvent_def
  proof (intro allI impI)
    fix q b' assume q: "fees mp' q = Some b'"
    have k: "Some (balance b') = ((known mp)(p \<mapsto> balance (payer_entry mp f p))) q" using q fun_cong [OF r(3), of q] by (simp add: known_def)
    show "spent (payerIndex mp') q (verifiedTxes mp') \<le> unat (balance b')"
    proof (cases "q = p")
      case True
      then show ?thesis using k pay r(1) by (simp add: same_setup_def)
    next
      case False
      then obtain b where "fees mp q = Some b" "balance b' = balance b" using k by (cases "fees mp q") (auto simp: known_def)
      then have "spent ?i q (verifiedTxes mp) \<le> unat (balance b')" using sv by (auto simp: solvent_def)
      then have "spent ?i q (verifiedTxes mp') \<le> unat (balance b')"
        using False le [of q] spent_filter_le [of ?i q _ "verifiedTxes mp"] by (simp add: spent') (meson order_trans)
      then show ?thesis using r(1) by (simp add: same_setup_def)
    qed
  qed
qed


lemma refused_solvent:
  assumes inv: "pool_inv genc E mp" and sv: "solvent mp" and v: "verifiedTxes mp' = verifiedTxes mp" and su: "same_setup mp mp'"
    and k: "known mp' = known mp \<or> known mp' = (known mp)(p \<mapsto> balance (payer_entry mp f p))"
  shows "solvent mp'"
  unfolding solvent_def
proof (intro allI impI)
  fix q b' assume q: "fees mp' q = Some b'"
  then have b': "known mp' q = Some (balance b')" by (simp add: known_def)
  show "spent (payerIndex mp') q (verifiedTxes mp') \<le> unat (balance b')"
  proof (cases "fees mp q")
    case None
    have "payer_index (payerIndex mp) q (fees mp q) (verifiedTxes mp)" using inv by (simp add: pool_inv_def indexed_def fee_index_alt)
    then show ?thesis using None v su by (simp add: payer_index_def spent_def same_setup_def)
  next
    case (Some b)
    then have "known mp q = Some (balance b)" by (simp add: known_def)
    then have "known mp' q = Some (balance b)" using k Some by (auto simp: payer_entry_def)
    then show ?thesis using sv Some b' v su by (auto simp: solvent_def same_setup_def)
  qed
qed

section \<open>Refreshing\<close>

text \<open>The reference for \<open>RemoveStale\<close>: walking down the priorities, an item stays if it is still valid and
  its payer can still pay for it after the payer's items kept so far.\<close>

fun greedy :: "(('g, 'd) item \<Rightarrow> bool) \<Rightarrow> nat \<Rightarrow> (uint160 \<Rightarrow> int) \<Rightarrow> ('g, 'd) item list \<Rightarrow> ('g, 'd) item list \<Rightarrow> ('g, 'd) item list" where
  "greedy ok i bal kept [] = kept"
| "greedy ok i bal kept (x # xs) =
    (let p = the (payer_of i (txn x))
     in greedy ok i bal (if ok x \<and> int (unat (tx_fee (txn x)) + spent i p kept) \<le> bal p then kept @ [x] else kept) xs)"

definition balances_ok :: "feer \<Rightarrow> bool" where
  "balances_ok f \<longleftrightarrow> (\<forall>p. 0 \<le> GetUtilityTokenBalance f p \<and> GetUtilityTokenBalance f p < 2 ^ 256)"

text \<open>The state in the middle of the loop: \<open>kept\<close> are the items kept, \<open>xs\<close> those still to see.\<close>

definition refreshing :: "'g key_encoder \<Rightarrow> (u64 \<times> hash256) set \<Rightarrow> feer \<Rightarrow> ('g, 'd) pool \<Rightarrow> ('g, 'd) item list \<Rightarrow> ('g, 'd) item list \<Rightarrow> bool" where
  "refreshing genc E f mp kept xs \<longleftrightarrow> hash_index genc (verifiedMap mp) (kept @ xs) \<and> response_index genc E (oracleResp mp) (kept @ xs)
     \<and> fee_index (payerIndex mp) (fees mp) kept \<and> conflict_index genc (conflicts mp) kept
     \<and> (\<forall>x \<in> set (kept @ xs). poolable genc (payerIndex mp) (txn x))
     \<and> (\<forall>p b. fees mp p = Some b \<longrightarrow> balance b = word_of_int (GetUtilityTokenBalance f p)
          \<and> spent (payerIndex mp) p kept \<le> unat (word_of_int (GetUtilityTokenBalance f p) :: 256 word))"

lemma tryAddSendersFee_True:
  assumes r: "refreshing genc E f mp kept xs" and p: "payer_of (payerIndex mp) t = Some p" and bo: "balances_ok f"
    and len: "length kept < 2 ^ 190"
  defines "b \<equiv> word_of_int (GetUtilityTokenBalance f p) :: 256 word"
  defines "s \<equiv> spent (payerIndex mp) p kept"
  shows "tryAddSendersFee mp t f True =
    (if int (unat (tx_fee t) + s) \<le> GetUtilityTokenBalance f p
     then Inr (True, mp\<lparr>fees := (fees mp)(p \<mapsto> \<lparr>balance = b, feeSum = of_nat (unat (tx_fee t) + s)\<rparr>)\<rparr>)
     else Inr (False, mp\<lparr>fees := (fees mp)(p \<mapsto> \<lparr>balance = b, feeSum = of_nat s\<rparr>)\<rparr>))"
proof -
  let ?e = "\<lparr>balance = b, feeSum = of_nat s\<rparr>"
  have ub: "int (unat b) = GetUtilityTokenBalance f p"
    using bo by (simp add: b_def balances_ok_def uint_word_of_int)
  have "payer_index (payerIndex mp) p (fees mp p) kept" using r by (simp add: refreshing_def fee_index_alt)
  then have e: "(case fees mp p of None \<Rightarrow> fresh_balance f p | Some b \<Rightarrow> b) = ?e"
    using r by (auto simp: payer_index_def fresh_balance_def s_def sum_words spent_def b_def refreshing_def split: option.splits)
  have cb: "checkBalance t ?e = (if unat (tx_fee t) + s \<le> unat b then Inr (of_nat (unat (tx_fee t) + s))
     else if b < tx_fee t then Inl ErrInsufficientFunds else Inl ErrConflict)"
    unfolding s_def by (rule checkBalance_nat_iff [OF spent_bound len])
  have i: "unat (tx_fee t) + s \<le> unat b \<longleftrightarrow> int (unat (tx_fee t) + s) \<le> GetUtilityTokenBalance f p" using ub by linarith
  show ?thesis
  proof (cases "fees mp p")
    case None
    then have "fresh_balance f p = ?e" using e by simp
    then show ?thesis using None p cb i by (auto simp: tryAddSendersFee_def Let_def)
  next
    case (Some c)
    then have "c = ?e" "(fees mp)(p \<mapsto> ?e) = fees mp" using e by auto
    then show ?thesis using Some p cb i by (auto simp: tryAddSendersFee_def Let_def)
  qed
qed


lemma keep_item:
  assumes r: "refreshing genc E f mp kept (x # xs)" and p: "payer_of (payerIndex mp) (txn x) = Some p" and bo: "balances_ok f"
    and fits: "int (unat (tx_fee (txn x)) + spent (payerIndex mp) p kept) \<le> GetUtilityTokenBalance f p"
  defines "e \<equiv> \<lparr>balance = word_of_int (GetUtilityTokenBalance f p), feeSum = of_nat (unat (tx_fee (txn x)) + spent (payerIndex mp) p kept)\<rparr>"
  shows "\<exists>cs. add_conflicts (item_hash genc x) (GetAttributes (txn x) ConflictsT) (conflicts mp) = Inr cs
    \<and> refreshing genc E f (mp\<lparr>fees := (fees mp)(p \<mapsto> e), conflicts := cs\<rparr>) (kept @ [x]) xs"
proof -
  let ?i = "payerIndex mp"
  note d = r [unfolded refreshing_def]
  have ta: "typed_attrs (txn x)" using d by (simp add: poolable_def)
  obtain cs where cs: "add_conflicts (item_hash genc x) (GetAttributes (txn x) ConflictsT) (conflicts mp) = Inr cs"
    "conflict_index genc cs (kept @ [x])" using conflict_index_add [of genc "conflicts mp" kept "[]" x] d ta by auto
  have each: "payer_index ?i q (fees mp q) kept" for q using d by (simp add: fee_index_alt)
  have ub: "int (unat (balance e)) = GetUtilityTokenBalance f p" using bo by (simp add: e_def balances_ok_def uint_word_of_int)
  have "payer_index ?i q (((fees mp)(p \<mapsto> e)) q) (kept @ [x])" for q
    using each [of q] p by (cases "q = p") (auto simp: payer_index_def e_def sum_words spent_def [symmetric] split: option.splits)
  then have fi: "fee_index ?i ((fees mp)(p \<mapsto> e)) (kept @ [x])" by (simp add: fee_index_alt)
  have "unat (tx_fee (txn x)) + spent ?i p kept \<le> unat (balance e)" using fits ub by linarith
  then have "spent ?i p (kept @ [x]) \<le> unat (word_of_int (GetUtilityTokenBalance f p) :: 256 word)" using p by (simp add: e_def)
  moreover have "balance e = word_of_int (GetUtilityTokenBalance f p)" by (simp add: e_def)
  ultimately show ?thesis using cs fi d p by (auto simp: refreshing_def)
qed

lemma drop_item:
  assumes r: "refreshing genc E f mp kept (x # xs)"
  shows "\<exists>os. delete_response (txn x) (oracleResp mp) = Inr os
    \<and> refreshing genc E f (removed_event x (mp\<lparr>verifiedMap := (verifiedMap mp)(item_hash genc x := None), oracleResp := os\<rparr>)) kept xs"
proof -
  note d = r [unfolded refreshing_def]
  have "typed_attrs (txn x)" using d by (simp add: poolable_def)
  then obtain os where os: "delete_response (txn x) (oracleResp mp) = Inr os" "response_index genc E os (kept @ xs)"
    using response_index_remove [of genc E "oracleResp mp" kept x xs] d by (auto simp: hash_index_def)
  then show ?thesis using d hash_index_remove [of genc "verifiedMap mp" kept x xs] by (auto simp: refreshing_def)
qed

lemma open_entry:
  fixes p :: uint160
  assumes r: "refreshing genc E f mp kept xs" and bo: "balances_ok f"
  defines "e \<equiv> \<lparr>balance = word_of_int (GetUtilityTokenBalance f p), feeSum = of_nat (spent (payerIndex mp) p kept)\<rparr>"
  shows "refreshing genc E f (mp\<lparr>fees := (fees mp)(p \<mapsto> e)\<rparr>) kept xs"
proof -
  let ?i = "payerIndex mp"
  note d = r [unfolded refreshing_def]
  have each: "payer_index ?i q (fees mp q) kept" for q using d by (simp add: fee_index_alt)
  have "payer_index ?i q (((fees mp)(p \<mapsto> e)) q) kept" for q
    using each [of q] by (cases "q = p") (auto simp: payer_index_def e_def sum_words)
  moreover have "spent ?i p kept \<le> unat (word_of_int (GetUtilityTokenBalance f p) :: 256 word)"
    using each [of p] d by (cases "fees mp p") (simp_all add: payer_index_def spent_def)
  ultimately show ?thesis using d by (auto simp: refreshing_def fee_index_alt e_def)
qed

text \<open>What the loop ends with: the greedy choice kept, the indexes describing it, and the items to resend
  among those seen.\<close>

definition refreshed ::
  "'g key_encoder \<Rightarrow> (u64 \<times> hash256) set \<Rightarrow> feer \<Rightarrow> (('g, 'd) item \<Rightarrow> bool) \<Rightarrow> ('g, 'd) pool \<Rightarrow> ('g, 'd) item list
     \<Rightarrow> ('g, 'd) item list \<Rightarrow> ('g, 'd) item list \<Rightarrow> (string + ('g, 'd) pool \<times> ('g, 'd) item list \<times> ('g, 'd) item list) \<Rightarrow> bool" where
  "refreshed genc E f ok mp kept xs stale r \<longleftrightarrow>
     (\<exists>mp' new. r = Inr (mp', greedy ok (payerIndex mp) (GetUtilityTokenBalance f) kept xs, stale @ new)
        \<and> refreshing genc E f mp' (greedy ok (payerIndex mp) (GetUtilityTokenBalance f) kept xs) []
        \<and> same_setup mp mp' \<and> set new \<subseteq> set xs)"

lemma refreshed_step:
  assumes "refreshed genc E f ok mp1 kept1 xs stale1 r" and "same_setup mp mp1" and "payer_of (payerIndex mp) (txn x) = Some p"
    and "kept1 = (if ok x \<and> int (unat (tx_fee (txn x)) + spent (payerIndex mp) p kept) \<le> GetUtilityTokenBalance f p then kept @ [x] else kept)"
    and "stale1 = stale \<or> stale1 = stale @ [x]"
  shows "refreshed genc E f ok mp kept (x # xs) stale r"
proof -
  have pi: "payerIndex mp1 = payerIndex mp" using assms(2) by (simp add: same_setup_def)
  have g: "greedy ok (payerIndex mp) (GetUtilityTokenBalance f) kept (x # xs) = greedy ok (payerIndex mp1) (GetUtilityTokenBalance f) kept1 xs"
    using assms(3,4) by (simp add: pi del: int_plus)
  from assms(1) obtain mp' new where n: "r = Inr (mp', greedy ok (payerIndex mp1) (GetUtilityTokenBalance f) kept1 xs, stale1 @ new)"
    "refreshing genc E f mp' (greedy ok (payerIndex mp1) (GetUtilityTokenBalance f) kept1 xs) []" "same_setup mp1 mp'" "set new \<subseteq> set xs"
    unfolding refreshed_def by blast
  moreover have "\<exists>new'. stale1 @ new = stale @ new' \<and> set new' \<subseteq> set (x # xs)" using assms(5) n(4) by auto
  ultimately show ?thesis using same_setup_trans [OF assms(2) n(3)] unfolding refreshed_def g by blast
qed

lemma stale_loop_spec:
  assumes "refreshing genc E f mp kept xs" and "balances_ok f" and "length (kept @ xs) < 2 ^ 190"
  shows "refreshed genc E f (\<lambda>x. isOK (txn x) \<and> checkPolicy genc mp (txn x) pc) mp kept xs stale
    (stale_loop genc isOK f pc xs (mp, kept, stale))"
  using assms
proof (induction xs arbitrary: mp kept stale)
  case Nil
  then show ?case by (simp add: same_setup_def refreshed_def)
next
  case (Cons x xs)
  let ?i = "payerIndex mp" let ?bal = "GetUtilityTokenBalance f"
  let ?ok = "\<lambda>x. isOK (txn x) \<and> checkPolicy genc mp (txn x) pc"
  obtain p where p: "payer_of ?i (txn x) = Some p" using Cons.prems(1) by (auto simp: refreshing_def poolable_def payer_of_def)
  let ?m = "\<lambda>s. mp\<lparr>fees := (fees mp)(p \<mapsto> \<lparr>balance = word_of_int (?bal p), feeSum = of_nat s\<rparr>)\<rparr>"
  let ?fits = "int (unat (tx_fee (txn x)) + spent ?i p kept) \<le> ?bal p"
  have len: "length kept < 2 ^ 190" using Cons.prems(3) by simp
  note add = tryAddSendersFee_True [OF Cons.prems(1) p Cons.prems(2) len]
  have pol: "checkPolicy genc mp' = checkPolicy genc mp" if "feePerByte mp' = feePerByte mp" for mp'
    using that by (simp add: fun_eq_iff checkPolicy_def)
  have dropped: ?case if step: "(if ?ok x then tryAddSendersFee mp (txn x) f True else Inr (False, mp)) = Inr (False, mp1)"
    and r1: "refreshing genc E f mp1 kept (x # xs)" and same: "feePerByte mp1 = feePerByte mp" "same_setup mp mp1"
    and no: "\<not> (?ok x \<and> ?fits)" for mp1
  proof -
    from drop_item [OF r1] obtain os where os: "delete_response (txn x) (oracleResp mp1) = Inr os"
      "refreshing genc E f (removed_event x (mp1\<lparr>verifiedMap := (verifiedMap mp1)(item_hash genc x := None), oracleResp := os\<rparr>)) kept xs"
      by blast
    let ?mp = "removed_event x (mp1\<lparr>verifiedMap := (verifiedMap mp1)(item_hash genc x := None), oracleResp := os\<rparr>)"
    have "feePerByte ?mp = feePerByte mp" using same by (simp add: removed_event_def emit_def)
    note pm = pol [OF this]
    have su: "same_setup mp ?mp" using same by (simp add: same_setup_def)
    have eq: "stale_loop genc isOK f pc (x # xs) (mp, kept, stale) = stale_loop genc isOK f pc xs (?mp, kept, stale)"
      using step os(1) by simp
    have R: "refreshed genc E f ?ok ?mp kept xs stale (stale_loop genc isOK f pc xs (?mp, kept, stale))"
      using Cons.IH [OF os(2) Cons.prems(2), of stale] Cons.prems(3) unfolding pm by simp
    show ?thesis unfolding eq by (rule refreshed_step [OF R su p]) (use no in auto)
  qed
  show ?case
  proof (cases "?ok x \<and> ?fits")
    case True
    let ?mp1 = "?m (unat (tx_fee (txn x)) + spent ?i p kept)"
    from keep_item [OF Cons.prems(1) p Cons.prems(2)] True obtain cs where
      cs: "add_conflicts (item_hash genc x) (GetAttributes (txn x) ConflictsT) (conflicts mp) = Inr cs"
      "refreshing genc E f (?mp1\<lparr>conflicts := cs\<rparr>) (kept @ [x]) xs" by blast
    let ?st = "if must_resend (resendThreshold mp) (BlockHeight f) x then stale @ [x] else stale"
    have eq: "stale_loop genc isOK f pc (x # xs) (mp, kept, stale) = stale_loop genc isOK f pc xs (?mp1\<lparr>conflicts := cs\<rparr>, kept @ [x], ?st)"
      using True add cs(1) by simp
    have "checkPolicy genc (?mp1\<lparr>conflicts := cs\<rparr>) = checkPolicy genc mp" by (rule pol) simp
    then have R: "refreshed genc E f ?ok (?mp1\<lparr>conflicts := cs\<rparr>) (kept @ [x]) xs ?st (stale_loop genc isOK f pc xs (?mp1\<lparr>conflicts := cs\<rparr>, kept @ [x], ?st))"
      using Cons.IH [OF cs(2) Cons.prems(2), of ?st] Cons.prems(3) by simp
    have su: "same_setup mp (?mp1\<lparr>conflicts := cs\<rparr>)" by (simp add: same_setup_def)
    show ?thesis unfolding eq by (rule refreshed_step [OF R su p]) (use True in auto)
  next
    case False
    show ?thesis
    proof (cases "?ok x")
      case True
      have "refreshing genc E f (?m (spent ?i p kept)) kept (x # xs)" by (rule open_entry [OF Cons.prems(1,2)])
      then show ?thesis by (rule dropped [rotated]) (use add True False in \<open>auto simp: same_setup_def\<close>)
    next
      case False
      show ?thesis by (rule dropped [of mp]) (use False Cons.prems(1) in \<open>auto simp: same_setup_def\<close>)
    qed
  qed
qed

end
