(* ===== verification/MempoolProps.thy ===== *)
theory MempoolProps
  imports MempoolFees "HOL-Library.Sublist"
begin

text \<open>
  The memory pool's properties: \<open>Add\<close> keeps it consistent and solvent, \<open>TryGetData\<close> finds what is pooled,
  \<open>RemoveStale\<close> is greedy, and an oracle response refused for lack of room makes later ones panic.
\<close>

section \<open>Looking up the data of an item\<close>

lemma get_data_loop_found:
  "\<forall>y \<in> set as. item_hash genc y \<noteq> h \<and> item_Compare genc itm y = 0 \<Longrightarrow> item_hash genc x = h
   \<Longrightarrow> get_data_loop genc h itm (as @ x # bs) = Some (data x)"
  by (induction as) auto

lemma sorted_equal_run:
  assumes "by_prio genc (ys @ as @ x # bs)" "ys = takeWhile (\<lambda>y. prio genc x < prio genc y) (ys @ as @ x # bs)" "y \<in> set as"
  shows "prio genc y = prio genc x"
proof -
  have zs: "dropWhile (\<lambda>y. prio genc x < prio genc y) (ys @ as @ x # bs) = as @ x # bs"
    using assms(2) by (metis append_same_eq same_append_eq takeWhile_dropWhile_id)
  from assms(3) obtain a as' where as: "as = a # as'" by (cases as) auto
  have "\<not> prio genc x < prio genc a" using hd_dropWhile [of "\<lambda>y. prio genc x < prio genc y" "ys @ as @ x # bs"] zs as by simp
  moreover have "y = a \<or> prio genc y \<le> prio genc a" "prio genc x \<le> prio genc y"
    using assms(1,3) as by (auto simp: sorted_wrt_append)
  ultimately show ?thesis by auto
qed

lemma TryGetData_found:
  fixes mp :: "('g, 'd) pool"
  assumes inv: "pool_inv genc E mp" and x: "x \<in> set (verifiedTxes mp)"
  shows "TryGetData genc mp (item_hash genc x) = Some (data x)"
proof -
  let ?xs = "verifiedTxes mp" let ?P = "\<lambda>y. prio genc x < prio genc y"
  let ?itm = "\<lparr>txn = txn x, blockStamp = 0, data = None\<rparr> :: ('g, 'd) item"
  have i: "exact genc E mp" and s: "by_prio genc ?xs" using inv by (simp_all add: pool_inv_def)
  have ok: "fees_ok genc (txn y)" if "y \<in> set ?xs" for y using i that by (simp add: indexed_def poolable_def)
  have pr: "prio genc ?itm = prio genc x" by (simp add: prio_def)
  define ys where "ys = takeWhile ?P ?xs"
  let ?n = "length ys"
  have "x \<in> set (dropWhile ?P ?xs)"
    using x set_takeWhileD [of x ?P ?xs] by (metis UnE less_irrefl set_append takeWhile_dropWhile_id)
  then obtain as bs where sp: "dropWhile ?P ?xs = as @ x # bs" by (meson split_list)
  then have xs: "?xs = ys @ as @ x # bs" unfolding ys_def by (metis takeWhile_dropWhile_id)
  have run: "prio genc y = prio genc x" if "y \<in> set as" for y
    by (rule sorted_equal_run [of genc ys as x bs, folded xs, OF s ys_def that])
  have search: "sort_Search (length ?xs) (\<lambda>k. 0 <=s item_Compare genc ?itm (?xs ! k)) = ?n"
  proof (rule sort_Search_spec)
    fix k assume k: "k < length ?xs"
    have "0 <=s item_Compare genc ?itm (?xs ! k) \<longleftrightarrow> prio genc (?xs ! k) \<le> prio genc x"
      using Compare_prio(2) [of genc ?itm "?xs ! k"] ok x k pr by simp
    also have "\<dots> \<longleftrightarrow> ?n \<le> k"
    proof (cases "k < ?n")
      case True
      then have "?P (?xs ! k)" unfolding ys_def by (metis nth_mem set_takeWhileD takeWhile_nth)
      then show ?thesis using True by simp
    next
      case False
      have nlt: "\<not> ?P (?xs ! ?n)" using nth_length_takeWhile [of ?P ?xs] False k unfolding ys_def by simp
      have "k = ?n \<or> prio genc (?xs ! k) \<le> prio genc (?xs ! ?n)" using sorted_wrt_nth_less [OF s, of ?n k] False k by linarith
      with nlt False show ?thesis by (auto simp: not_less)
    qed
    finally show "0 <=s item_Compare genc ?itm (?xs ! k) \<longleftrightarrow> ?n \<le> k" .
  qed (simp add: ys_def length_takeWhile_le)
  have "item_hash genc y \<noteq> item_hash genc x \<and> item_Compare genc ?itm y = 0" if "y \<in> set as" for y
  proof
    show "item_hash genc y \<noteq> item_hash genc x" using indexed_hashes [OF i] that unfolding xs by (auto simp: image_iff)
    have "y \<in> set ?xs" using that by (simp add: xs)
    then show "item_Compare genc ?itm y = 0" using Compare_prio(3) [of genc ?itm y] ok x pr run [OF that] by simp
  qed
  then have "get_data_loop genc (item_hash genc x) ?itm (as @ x # bs) = Some (data x)" by (intro get_data_loop_found) auto
  moreover have "drop ?n ?xs = as @ x # bs" by (simp add: xs)
  moreover have "?n < length ?xs" by (simp add: xs)
  ultimately show ?thesis using indexed_lookup(1) [OF i x] search by (simp add: TryGetData_def Let_def)
qed


section \<open>What the checks leave alone\<close>

lemma checkTxConflicts_frame:
  "checkTxConflicts genc mp t f = Inr (r, mp') \<Longrightarrow> oracleResp mp' = oracleResp mp \<and> verifiedMap mp' = verifiedMap mp"
  by (auto simp: checkTxConflicts_def Let_def split: option.splits sum.splits prod.splits if_splits)

lemma greedy_sublist: "\<exists>ys. greedy ok i bal kept xs = kept @ ys \<and> subseq ys xs"
proof (induction xs arbitrary: kept)
  case (Cons x xs)
  show ?case using Cons [of "kept @ [x]"] Cons [of kept] by (auto simp: Let_def)
qed simp

lemma sorted_wrt_subseq: "subseq ys xs \<Longrightarrow> sorted_wrt P xs \<Longrightarrow> sorted_wrt P ys"
  by (induction rule: list_emb.induct) (auto elim: list_emb_set)

section \<open>A pool for the witnesses\<close>

definition pool_tx :: "hash256 \<Rightarrow> u64 \<Rightarrow> attribute list \<Rightarrow> u64 transaction" where
  "pool_tx h fee as = base_tx\<lparr>NetworkFee := fee, Attributes := as, tx_hash := h, tx_hashed := True, tx_size := 100\<rparr>"

definition demo_feer :: feer where
  "demo_feer = \<lparr>f_FeePerByte = 0, GetUtilityTokenBalance = \<lambda>_. 5000, BlockHeight = 7\<rparr>"

definition demo_pool :: "(u64, string) pool" where
  "demo_pool = (New_pool 1 0 False False)\<lparr>verifiedTxes := [\<lparr>txn = pool_tx [1] 3000 [], blockStamp = 7, data = Some ''a''\<rparr>],
     verifiedMap := [[1] \<mapsto> pool_tx [1] 3000 []], fees := [replicate 20 1 \<mapsto> \<lparr>balance = 5000, feeSum = 3000\<rparr>]\<rparr>"

definition oracle_tx :: "u64 transaction" where
  "oracle_tx = pool_tx [2] 1000 [\<lparr>a_Type = OracleResponseT, a_Value = Some (OracleResponse 9 0 [])\<rparr>]"

lemma pool_tx_simps [simp]:
  "tx_Hash genc (pool_tx h fee as) = h" "\<not> Hash_panics genc (pool_tx h fee as)" "Attributes (pool_tx h fee as) = as"
  "NetworkFee (pool_tx h fee as) = fee" "SystemFee (pool_tx h fee as) = 0"
  "payer_of 0 (pool_tx h fee as) = Some (replicate 20 1)" "length (Signers (pool_tx h fee as)) = 1"
  "tx_FeePerByte genc (pool_tx h fee as) = go_div fee 100"
  by (simp_all add: pool_tx_def base_tx_def empty_tx_def tx_Hash_def Hash_panics_def payer_of_def tx_FeePerByte_def tx_Size_def)

lemma demo_txs_poolable:
  "poolable genc 0 (pool_tx [1] 3000 [])" "poolable genc 0 oracle_tx"
  by (simp_all add: poolable_def typed_attrs_def fees_ok_def go_div_def oracle_tx_def attr_type_defs response_id_def conflict_hash_def)

lemma demo_pool_inv: "pool_inv genc {} demo_pool"
  using demo_txs_poolable(1) [of genc]
  by (auto simp: pool_inv_def demo_pool_def New_pool_def indexed_def hash_index_def fee_index_def conflict_index_def response_index_def
      list_at_def namings_def named_hashes_def GetAttributes_def oracle_id_def tx_fee_def split: option.splits)


lemma demo_pool_setup [simp]: "payerIndex demo_pool = 0" "capacity demo_pool = 1"
  by (simp_all add: demo_pool_def New_pool_def)

lemma demo_pending: "pending genc oracle_tx {} = {(9, [2])}"
  by (simp add: pending_def oracle_tx_def oracle_id_def GetAttributes_def response_id_def)

lemma demo_pool_OOM: "pool_Add genc demo_pool oracle_tx demo_feer d = Inr (Some ErrOOM, demo_pool\<lparr>oracleResp := [9 \<mapsto> [2]]\<rparr>)"
proof -
  have c: "checkTxConflicts genc demo_pool oracle_tx demo_feer = Inr (Inr [], demo_pool)"
    by (simp add: checkTxConflicts_def demo_pool_def New_pool_def oracle_tx_def GetAttributes_def attr_type_defs checkBalance_def tx_fee_def Let_def)
  have r: "claim_response genc demo_pool oracle_tx = Inr (None, demo_pool\<lparr>oracleResp := [9 \<mapsto> [2]]\<rparr>)"
    by (simp add: claim_response_def demo_pool_def New_pool_def oracle_tx_def GetAttributes_def response_id_def)
  let ?x = "\<lparr>txn = oracle_tx, blockStamp = 7, data = d\<rparr>"
  have "rank genc ?x (verifiedTxes demo_pool) = 1"
    by (simp add: rank_def demo_pool_def New_pool_def prio_def oracle_tx_def HasAttribute_def attr_type_defs go_div_def)
  then have n: "insert_position genc ?x (verifiedTxes demo_pool) = 1"
    using insert_position_rank [of genc "verifiedTxes demo_pool" ?x] demo_pool_inv [of genc] demo_txs_poolable(2) [of genc]
    by (simp add: pool_inv_def indexed_def poolable_def)
  have m: "make_room genc (demo_pool\<lparr>oracleResp := [9 \<mapsto> [2]]\<rparr>) ?x 1 = Inr (Some ErrOOM, demo_pool\<lparr>oracleResp := [9 \<mapsto> [2]]\<rparr>)"
    by (simp add: make_room_def demo_pool_def New_pool_def)
  have h: "\<not> Hash_panics genc oracle_tx" "\<not> containsKey demo_pool (tx_Hash genc oracle_tx)"
    by (simp_all add: oracle_tx_def containsKey_def demo_pool_def)
  have f: "BlockHeight demo_feer = 7" by (simp add: demo_feer_def)
  show ?thesis
    using c r n m h by (simp add: pool_Add_def Let_def f)
qed

section \<open>The properties of the pool\<close>

text \<open>C24. \<open>Add\<close> keeps the pool consistent: on a pool sorted by priority, within its capacity and with exact
  indexes, adding a transaction that no stale oracle entry blocks never panics. A refused transaction
  leaves the items as they were; an accepted one joins the items that neither conflict with it nor
  answer the same oracle request, less the least prioritized one if there is no room. The invariant
  holds again, except that \<open>ErrOOM\<close> leaves the id of an oracle response behind.\<close>

theorem pool_Add_keeps_invariant:
  assumes "pool_inv genc E mp" and "poolable genc (payerIndex mp) t" and "unclaimed genc E t"
  shows "\<exists>e mp'. pool_Add genc mp t f d = Inr (e, mp') \<and> pool_inv genc (if e = Some ErrOOM then pending genc t E else E) mp'
    \<and> (e \<noteq> None \<and> verifiedTxes mp' = verifiedTxes mp
       \<or> e = None \<and> mset (verifiedTxes mp') = add_mset \<lparr>txn = t, blockStamp = BlockHeight f, data = d\<rparr> (mset (survivors genc mp t)))"
proof -
  obtain p where "payer_of (payerIndex mp) t = Some p" using assms(2) by (auto simp: poolable_def payer_of_def)
  with assms show ?thesis
  proof (cases rule: pool_Add_spec [where f = f and d = d])
    case (added n mp')
    have "mset (take n (survivors genc mp t)) + mset (drop n (survivors genc mp t)) = mset (survivors genc mp t)"
      by (metis append_take_drop_id mset_append)
    then show ?thesis using added(1,2,4) by auto
  qed auto
qed

theorem pool_Add_keeps_invariant_witness:
  "pool_inv WriteU64LE {(9, [2])} (demo_pool\<lparr>oracleResp := [9 \<mapsto> [2]]\<rparr>)"
  using pool_Add_keeps_invariant [OF demo_pool_inv [of WriteU64LE], of oracle_tx demo_feer None] demo_txs_poolable(2) [of WriteU64LE]
  by (simp add: demo_pool_OOM demo_pool_setup unclaimed_def demo_pending)

text \<open>C25. Solvency: when every payer can pay for all its pooled transactions, this is still so after any
  \<open>Add\<close>, if no pooled transaction is counted as a conflict twice, which the block chain's check for
  duplicate Conflicts attributes ensures. No sum of fees wraps around in 256 bits.\<close>

theorem pool_stays_solvent:
  assumes "pool_inv genc E mp" and "poolable genc (payerIndex mp) t" and "unclaimed genc E t" and "solvent mp"
    and "distinct (displaced genc mp t)" and "capacity mp < 2 ^ 190" and "pool_Add genc mp t f d = Inr (e, mp')"
  shows "solvent mp'"
proof -
  obtain p where "payer_of (payerIndex mp) t = Some p" using assms(2) by (auto simp: poolable_def payer_of_def)
  with assms(1-3) show ?thesis
  proof (cases rule: pool_Add_spec [where f = f and d = d])
    case (refused e' mp'')
    then show ?thesis using refused_solvent [OF assms(1,4)] assms(7) by auto
  next
    case (added n mp'')
    then show ?thesis using pool_Add_solvent [OF assms(1-6)] assms(7) by auto
  qed
qed


theorem pool_stays_solvent_witness:
  "solvent (demo_pool\<lparr>oracleResp := [9 \<mapsto> [2]]\<rparr>)"
proof (rule pool_stays_solvent [OF demo_pool_inv [of WriteU64LE] _ _ _ _ _ demo_pool_OOM])
  show "solvent demo_pool"
    by (auto simp: solvent_def demo_pool_def New_pool_def unat_tx_fee)
  show "distinct (displaced WriteU64LE demo_pool oracle_tx)"
    by (simp add: displaced_def list_at_def named_hashes_def demo_pool_def New_pool_def oracle_tx_def GetAttributes_def attr_type_defs)
qed (simp_all add: demo_txs_poolable unclaimed_def)

text \<open>C26. An oracle response that does not fit a full pool is refused with \<open>ErrOOM\<close> but its request id stays
  claimed by a transaction that is not pooled: every later response to the same request, the same
  transaction sent again included, that passes the conflict check makes \<open>Add\<close> dereference nil, with
  the pool's lock held.\<close>

theorem oracle_response_after_OOM_panics:
  assumes "pool_inv genc E mp" and "poolable genc (payerIndex mp) t" and "unclaimed genc E t" and "oracle_id t = Some i"
    and "pool_Add genc mp t f d = Inr (Some ErrOOM, mp')"
    and "typed_attrs t'" and "oracle_id t' = Some i" and "\<not> Hash_panics genc t'" and "\<not> containsKey mp' (tx_Hash genc t')"
    and "checkTxConflicts genc mp' t' f' = Inr (Inr rem, mp'')"
  shows "pool_Add genc mp' t' f' d' = Inl ''invalid memory address or nil pointer dereference''"
proof -
  obtain p where p: "payer_of (payerIndex mp) t = Some p" using assms(2) by (auto simp: poolable_def payer_of_def)
  from assms(1-3) p have inv: "pool_inv genc (pending genc t E) mp'"
    by (cases rule: pool_Add_spec [where f = f and d = d]) (use assms(5) in auto)
  have r: "response_index genc (insert (i, tx_Hash genc t) E) (oracleResp mp') (verifiedTxes mp')"
    using inv assms(4) by (simp add: pool_inv_def indexed_def pending_def)
  have "verifiedMap mp' (tx_Hash genc t) = None" using r inv indexed_lookup(3) [of genc _ mp' "verifiedTxes mp'"]
    by (auto simp: pool_inv_def response_index_def)
  moreover have "oracleResp mp' i = Some (tx_Hash genc t)" using r by (auto simp: response_index_def)
  moreover have "oracleResp mp'' = oracleResp mp'" "verifiedMap mp'' = verifiedMap mp'"
    using checkTxConflicts_frame [OF assms(10)] by simp_all
  ultimately have "claim_response genc mp'' t' = Inl ''invalid memory address or nil pointer dereference''"
    by (intro stale_claim_panics [OF assms(6,7)]) simp_all
  then show ?thesis using assms(8-10) by (simp add: pool_Add_def Let_def)
qed

theorem oracle_response_after_OOM_panics_witness:
  "pool_Add WriteU64LE (demo_pool\<lparr>oracleResp := [9 \<mapsto> [2]]\<rparr>) oracle_tx demo_feer None = Inl ''invalid memory address or nil pointer dereference''"
proof (rule oracle_response_after_OOM_panics [OF demo_pool_inv [of WriteU64LE] _ _ _ demo_pool_OOM])
  show "checkTxConflicts WriteU64LE (demo_pool\<lparr>oracleResp := [9 \<mapsto> [2]]\<rparr>) oracle_tx demo_feer = Inr (Inr [], demo_pool\<lparr>oracleResp := [9 \<mapsto> [2]]\<rparr>)"
    by (simp add: checkTxConflicts_def demo_pool_def New_pool_def oracle_tx_def GetAttributes_def attr_type_defs checkBalance_def tx_fee_def Let_def)
  show "poolable WriteU64LE (payerIndex demo_pool) oracle_tx" by (simp add: demo_txs_poolable)
  show "typed_attrs oracle_tx" using demo_txs_poolable(2) [of WriteU64LE] by (simp add: poolable_def)
qed (simp_all add: unclaimed_def oracle_tx_def containsKey_def demo_pool_def New_pool_def oracle_id_def GetAttributes_def response_id_def)

text \<open>C27. \<open>TryGetData\<close>, a binary search by priority, finds the data of exactly the pooled transactions.\<close>

theorem TryGetData_exact:
  assumes "pool_inv genc E mp"
  shows "TryGetData genc mp h = map_option data (find (\<lambda>x. item_hash genc x = h) (verifiedTxes mp))"
proof (cases "find (\<lambda>x. item_hash genc x = h) (verifiedTxes mp)")
  case None
  then have "verifiedMap mp h = None"
    using indexed_lookup(3) [of genc E mp "verifiedTxes mp" h] assms by (auto simp: pool_inv_def find_None_iff)
  then show ?thesis using None by (simp add: TryGetData_def)
next
  case (Some x)
  then have "x \<in> set (verifiedTxes mp)" "item_hash genc x = h" by (auto simp: find_Some_iff)
  then show ?thesis using TryGetData_found [OF assms] Some by auto
qed

theorem TryGetData_exact_witness: "TryGetData WriteU64LE demo_pool [1] = Some (Some ''a'')"
  using TryGetData_exact [OF demo_pool_inv [of WriteU64LE], of "[1]"] by (simp add: demo_pool_def)

text \<open>C28. \<open>RemoveStale\<close>, run after every block, keeps exactly what a greedy walk down the priorities keeps:
  the items that are still valid, pay the minimal fee if it was raised, and whose payer can pay for
  them after its more prioritized items. It never panics, and restores the invariant and solvency.\<close>

theorem RemoveStale_is_greedy:
  fixes isOK :: "'g transaction \<Rightarrow> bool"
  assumes "pool_inv genc E mp" and "balances_ok f" and "capacity mp < 2 ^ 190"
  defines "raised \<equiv> sint (feePerByte mp) < sint (f_FeePerByte f)"
  defines "kept \<equiv> greedy (\<lambda>x. isOK (txn x) \<and> (raised \<longrightarrow> sint (f_FeePerByte f) \<le> sint (tx_FeePerByte genc (txn x))))
      (payerIndex mp) (GetUtilityTokenBalance f) [] (verifiedTxes mp)"
  shows "\<exists>mp' resent. RemoveStale genc mp isOK f = Inr (mp', resent) \<and> verifiedTxes mp' = kept \<and> pool_inv genc E mp' \<and> solvent mp'
    \<and> set resent \<subseteq> (\<lambda>x. (txn x, data x)) ` set (verifiedTxes mp)"
proof -
  obtain pc mp1 where lp: "loadPolicy mp f = (pc, mp1)" by fastforce
  have mp1: "verifiedTxes mp1 = verifiedTxes mp" "exact genc E mp1" "same_setup mp mp1"
    "pc = raised" "pc \<Longrightarrow> feePerByte mp1 = f_FeePerByte f"
    using lp assms(1) by (auto simp: loadPolicy_def raised_def word_sless_alt same_setup_def pool_inv_def split: if_splits intro: indexed_cong)
  have pol: "checkPolicy genc (mp1\<lparr>fees := Map.empty, conflicts := Map.empty\<rparr>) t pc \<longleftrightarrow> (raised \<longrightarrow> sint (f_FeePerByte f) \<le> sint (tx_FeePerByte genc t))" for t
    using mp1(4,5) by (auto simp: checkPolicy_def word_sle_eq)
  let ?mp0 = "mp1\<lparr>fees := Map.empty, conflicts := Map.empty\<rparr>"
  have r0: "refreshing genc E f ?mp0 [] (verifiedTxes mp)"
    using mp1 by (simp add: refreshing_def indexed_def fee_index_def conflict_index_def list_at_def)
  have len: "length ([] @ verifiedTxes mp) < 2 ^ 190" using assms(1,3) by (auto simp: pool_inv_def)
  have pi: "payerIndex ?mp0 = payerIndex mp" using mp1(3) by (simp add: same_setup_def)
  from stale_loop_spec [OF r0 assms(2) len, of isOK pc "[]"] obtain mp2 new where
    l: "stale_loop genc isOK f pc (verifiedTxes mp) (?mp0, [], []) = Inr (mp2, kept, new)"
    and r2: "refreshing genc E f mp2 kept []" "same_setup ?mp0 mp2" "set new \<subseteq> set (verifiedTxes mp)"
    unfolding refreshed_def pol pi kept_def by auto
  have "subseq kept (verifiedTxes mp)"
    using greedy_sublist [of _ _ _ "[]" "verifiedTxes mp"] unfolding kept_def by (metis append_Nil)
  then have kept_le: "length kept \<le> length (verifiedTxes mp)" "by_prio genc (verifiedTxes mp) \<Longrightarrow> by_prio genc kept"
    by (simp_all add: list_emb_length sorted_wrt_subseq)
  have "RemoveStale genc mp isOK f = Inr (mp2\<lparr>verifiedTxes := kept\<rparr>, map (\<lambda>x. (txn x, data x)) new)"
    using lp l mp1(1) by (simp add: RemoveStale_def)
  moreover have "pool_inv genc E (mp2\<lparr>verifiedTxes := kept\<rparr>)"
    using r2(1,2) mp1(3) assms(1) kept_le
    by (auto simp: pool_inv_def refreshing_def indexed_def same_setup_def)
  moreover have "solvent (mp2\<lparr>verifiedTxes := kept\<rparr>)" using r2(1) by (auto simp: solvent_def refreshing_def)
  ultimately show ?thesis using image_mono [OF r2(3), of "\<lambda>x. (txn x, data x)"] by (intro exI) auto
qed


theorem RemoveStale_is_greedy_witness:
  "\<exists>mp' resent. RemoveStale WriteU64LE demo_pool (\<lambda>_. True) (demo_feer\<lparr>GetUtilityTokenBalance := \<lambda>_. 10\<rparr>) = Inr (mp', resent)
    \<and> verifiedTxes mp' = []"
proof -
  let ?f = "demo_feer\<lparr>GetUtilityTokenBalance := \<lambda>_. 10\<rparr>"
  have "greedy (\<lambda>x. True \<and> (sint (feePerByte demo_pool) < sint (f_FeePerByte ?f) \<longrightarrow> sint (f_FeePerByte ?f) \<le> sint (tx_FeePerByte WriteU64LE (txn x))))
      (payerIndex demo_pool) (GetUtilityTokenBalance ?f) [] (verifiedTxes demo_pool) = []"
    by (simp add: demo_pool_def New_pool_def demo_feer_def tx_fee_def)
  then show ?thesis
    using RemoveStale_is_greedy [OF demo_pool_inv [of WriteU64LE], of ?f "\<lambda>_. True"] by (auto simp: balances_ok_def demo_feer_def)
qed

end
