(* ===== verification/ChainPersist.thy ===== *)
theory ChainPersist
  imports ForkStore "HOL-Library.Sublist"
begin

text \<open>
  Saved chains and snapshots of the development node: \<open>pkg/nanvil/persist/chain.go\<close>,
  \<open>pkg/nanvil/snapshot/manager.go\<close> and \<open>pkg/nanvil/txregistry/registry.go\<close>. A Go string is its bytes. A
  saved file is the JSON text of a struct; what matters of it here is that \<open>encoding/json\<close> writes a
  string as valid UTF-8, with every invalid byte replaced, so reading the text back gives \<open>coerce_utf8\<close>
  of each string.
\<close>

section \<open>Strings in JSON\<close>

definition cont_byte :: "byte \<Rightarrow> bool" where
  "cont_byte b \<longleftrightarrow> 0x80 \<le> b \<and> b \<le> 0xBF"

text \<open>The size of the first rune, as \<open>utf8.DecodeRune\<close> accepts it; 0 when the encoding is invalid.\<close>

fun rune_size :: "bytes \<Rightarrow> nat" where
  "rune_size [] = 0"
| "rune_size (b0 # r) =
    (if b0 < 0x80 then 1
     else if 0xC2 \<le> b0 \<and> b0 \<le> 0xDF then (case r of b1 # _ \<Rightarrow> if cont_byte b1 then 2 else 0 | _ \<Rightarrow> 0)
     else if 0xE0 \<le> b0 \<and> b0 \<le> 0xEF then
       (case r of b1 # b2 # _ \<Rightarrow>
          if (if b0 = 0xE0 then 0xA0 else 0x80) \<le> b1 \<and> b1 \<le> (if b0 = 0xED then 0x9F else 0xBF) \<and> cont_byte b2 then 3 else 0
        | _ \<Rightarrow> 0)
     else if 0xF0 \<le> b0 \<and> b0 \<le> 0xF4 then
       (case r of b1 # b2 # b3 # _ \<Rightarrow>
          if (if b0 = 0xF0 then 0x90 else 0x80) \<le> b1 \<and> b1 \<le> (if b0 = 0xF4 then 0x8F else 0xBF) \<and> cont_byte b2 \<and> cont_byte b3 then 4 else 0
        | _ \<Rightarrow> 0)
     else 0)"

function coerce_utf8 :: "bytes \<Rightarrow> bytes" where
  "coerce_utf8 [] = []"
| "coerce_utf8 (b # bs) =
    (let n = rune_size (b # bs)
     in if n = 0 then [0xEF, 0xBF, 0xBD] @ coerce_utf8 bs else take n (b # bs) @ coerce_utf8 (drop n (b # bs)))"
  by pat_completeness auto
termination
  by (relation "measure length") auto

definition valid_utf8 :: "bytes \<Rightarrow> bool" where
  "valid_utf8 s \<longleftrightarrow> coerce_utf8 s = s"

section \<open>Hexadecimal strings\<close>

text \<open>\<open>hex.EncodeToString\<close> and \<open>hex.DecodeString\<close> of the Go library.\<close>

definition hex_digit :: "nat \<Rightarrow> byte" where
  "hex_digit d = (if d < 10 then of_nat (48 + d) else of_nat (87 + d))"

definition from_hex_digit :: "byte \<Rightarrow> nat option" where
  "from_hex_digit c =
    (if 48 \<le> c \<and> c \<le> 57 then Some (unat c - 48)
     else if 97 \<le> c \<and> c \<le> 102 then Some (unat c - 87)
     else if 65 \<le> c \<and> c \<le> 70 then Some (unat c - 55) else None)"

fun hex_encode :: "bytes \<Rightarrow> bytes" where
  "hex_encode [] = []"
| "hex_encode (b # bs) = hex_digit (unat b div 16) # hex_digit (unat b mod 16) # hex_encode bs"

fun hex_decode :: "bytes \<Rightarrow> bytes option" where
  "hex_decode [] = Some []"
| "hex_decode [c] = None"
| "hex_decode (c # d # s) =
    (case (from_hex_digit c, from_hex_digit d, hex_decode s) of
       (Some x, Some y, Some bs) \<Rightarrow> Some (of_nat (16 * x + y) # bs) | _ \<Rightarrow> None)"

section \<open>Snapshots of the chain height\<close>

record snap_state =
  ss_ID :: bytes
  ss_Height :: u32

record snap_manager =
  snapshots :: "snap_state list"
  counter :: nat

definition NewManager :: snap_manager where
  "NewManager = \<lparr>snapshots = [], counter = 0\<rparr>"

text \<open>\<open>fmt.Sprintf("0x%x", n)\<close>.\<close>

fun hex_nat :: "nat \<Rightarrow> bytes" where
  "hex_nat n = (if n < 16 then [hex_digit n] else hex_nat (n div 16) @ [hex_digit (n mod 16)])"

declare hex_nat.simps [simp del]

definition snap_id :: "nat \<Rightarrow> bytes" where
  "snap_id n = [48, 120] @ hex_nat n"

definition Snapshot :: "snap_manager \<Rightarrow> u32 \<Rightarrow> bytes \<times> snap_manager" where
  "Snapshot m height =
    (let n = counter m + 1; i = snap_id n
     in (i, m\<lparr>counter := n, snapshots := snapshots m @ [\<lparr>ss_ID = i, ss_Height = height\<rparr>]\<rparr>))"

text \<open>The chain is an argument: \<open>reset\<close> stands for \<open>Blockchain.Reset\<close>, with the chain as it leaves it.\<close>

definition Revert :: "('c \<Rightarrow> u32 \<Rightarrow> string + 'c) \<Rightarrow> snap_manager \<Rightarrow> 'c \<Rightarrow> bytes \<Rightarrow> string + snap_manager \<times> 'c" where
  "Revert reset m c i =
    (case find (\<lambda>s. ss_ID s = i) (snapshots m) of None \<Rightarrow> Inl ''snapshot not found''
     | Some s \<Rightarrow> (case reset c (ss_Height s) of Inl e \<Rightarrow> Inl e
       | Inr c' \<Rightarrow> Inr (m\<lparr>snapshots := take (length (takeWhile (\<lambda>s. ss_ID s \<noteq> i) (snapshots m)) + 1) (snapshots m)\<rparr>, c')))"

definition snap_List :: "snap_manager \<Rightarrow> snap_state list" where
  "snap_List m = snapshots m"

definition Restore :: "snap_manager \<Rightarrow> snap_state list \<Rightarrow> snap_manager" where
  "Restore m snaps = m\<lparr>snapshots := snaps\<rparr>"

text \<open>\<open>DumpFile\<close> and \<open>LoadFile\<close> without the file system: the height and the list, and what loading them does.\<close>

definition snap_Dump :: "snap_manager \<Rightarrow> u32 \<Rightarrow> u32 \<times> snap_state list" where
  "snap_Dump m height = (height, map (\<lambda>s. s\<lparr>ss_ID := coerce_utf8 (ss_ID s)\<rparr>) (snapshots m))"

definition snap_Load :: "('c \<Rightarrow> u32 \<Rightarrow> string + 'c) \<Rightarrow> ('c \<Rightarrow> u32) \<Rightarrow> snap_manager \<Rightarrow> 'c \<Rightarrow> u32 \<times> snap_state list
    \<Rightarrow> string option \<times> snap_manager \<times> 'c" where
  "snap_Load reset height m c dat =
    (case dat of (h, snaps) \<Rightarrow>
      let m1 = m\<lparr>snapshots := snaps\<rparr>
      in if 0 < h \<and> h < height c then (case reset c h of Inl e \<Rightarrow> (Some e, m1, c) | Inr c' \<Rightarrow> (None, m1, c')) else (None, m1, c))"

section \<open>Saved chains\<close>

type_synonym hexmap = "(bytes \<times> bytes) list"

record chain_snapshot =
  Format :: bytes
  cs_Height :: u32
  cs_Snapshots :: "snap_state list"
  Overlay_Writes :: hexmap
  Overlay_Deletes :: "bytes list"
  Storage_Mem :: hexmap
  Storage_Stor :: hexmap

definition formatVersion :: bytes where
  "formatVersion = [110, 97, 110, 118, 105, 108, 45, 99, 104, 97, 105, 110, 45, 118, 49]"

definition encodeMap :: "gomap \<Rightarrow> hexmap" where
  "encodeMap m = map (\<lambda>(k, v). (hex_encode k, case v of None \<Rightarrow> [] | Some b \<Rightarrow> hex_encode b)) m"

fun decode_loop :: "hexmap \<Rightarrow> gomap \<Rightarrow> string + gomap" where
  "decode_loop [] out = Inr out"
| "decode_loop ((k, v) # m) out =
    (case hex_decode k of None \<Rightarrow> Inl ''key''
     | Some key \<Rightarrow>
       if v \<noteq> [] then (case hex_decode v of None \<Rightarrow> Inl ''value'' | Some b \<Rightarrow> decode_loop m (AList.update key (Some b) out))
       else decode_loop m (AList.update key None out))"

definition decodeMap :: "hexmap \<Rightarrow> string + gomap" where
  "decodeMap m = decode_loop m []"

text \<open>The struct \<open>Save\<close> marshals, and the struct \<open>Load\<close> finds in the file. The fork manifest is left out.\<close>

definition build_snapshot :: "u32 \<Rightarrow> snap_state list \<Rightarrow> mem_store \<Rightarrow> overlay option \<Rightarrow> chain_snapshot" where
  "build_snapshot height snaps base ov =
    (let (m, st) = mem_Export base;
         (w, d) = (case ov of None \<Rightarrow> ([], []) | Some o' \<Rightarrow> ov_Export o')
     in \<lparr>Format = formatVersion, cs_Height = height, cs_Snapshots = snaps,
         Overlay_Writes = encodeMap w, Overlay_Deletes = d,
         Storage_Mem = encodeMap m, Storage_Stor = encodeMap st\<rparr>)"

definition json_map :: "hexmap \<Rightarrow> hexmap" where
  "json_map m = map (\<lambda>(k, v). (coerce_utf8 k, coerce_utf8 v)) m"

definition json_image :: "chain_snapshot \<Rightarrow> chain_snapshot" where
  "json_image s = \<lparr>Format = coerce_utf8 (Format s), cs_Height = cs_Height s,
     cs_Snapshots = map (\<lambda>x. x\<lparr>ss_ID := coerce_utf8 (ss_ID x)\<rparr>) (cs_Snapshots s),
     Overlay_Writes = json_map (Overlay_Writes s), Overlay_Deletes = map coerce_utf8 (Overlay_Deletes s),
     Storage_Mem = json_map (Storage_Mem s), Storage_Stor = json_map (Storage_Stor s)\<rparr>"

definition chain_Save :: "u32 \<Rightarrow> snap_state list \<Rightarrow> mem_store option \<Rightarrow> overlay option \<Rightarrow> string + chain_snapshot" where
  "chain_Save height snaps base ov =
    (case base of None \<Rightarrow> Inl ''persist: nil memory store'' | Some b \<Rightarrow> Inr (json_image (build_snapshot height snaps b ov)))"

definition chain_Load :: "chain_snapshot \<Rightarrow> string + chain_snapshot" where
  "chain_Load s = (if Format s \<noteq> formatVersion then Inl ''persist: unsupported snapshot format'' else Inr s)"

definition chain_TryLoad :: "chain_snapshot option \<Rightarrow> chain_snapshot option" where
  "chain_TryLoad f = (case f of None \<Rightarrow> None | Some s \<Rightarrow> if Format s \<noteq> formatVersion then None else Some s)"

definition chain_Apply :: "chain_snapshot \<Rightarrow> mem_store \<Rightarrow> overlay option \<Rightarrow> string + mem_store \<times> overlay option" where
  "chain_Apply snap base ov =
    (case decodeMap (Storage_Mem snap) of Inl e \<Rightarrow> Inl e
     | Inr m \<Rightarrow> (case decodeMap (Storage_Stor snap) of Inl e \<Rightarrow> Inl e
       | Inr st \<Rightarrow>
         (let base' = mem_Import base m st
          in case ov of None \<Rightarrow> Inr (base', None)
             | Some o' \<Rightarrow>
               if 0 < length (Overlay_Writes snap) \<or> 0 < length (Overlay_Deletes snap) then
                 (case decodeMap (Overlay_Writes snap) of Inl e \<Rightarrow> Inl e
                  | Inr w \<Rightarrow> Inr (base', Some (ov_Import o' w (Overlay_Deletes snap))))
               else Inr (base', Some o'))))"

section \<open>Relayed transactions\<close>

datatype relay_status = StatusRelayed | StatusRejected string

type_synonym relay_registry = "bytes \<rightharpoonup> relay_status"

definition RecordRelayed :: "relay_registry \<Rightarrow> bytes \<Rightarrow> relay_registry" where
  "RecordRelayed r h = r(h \<mapsto> StatusRelayed)"

definition RecordRejected :: "relay_registry \<Rightarrow> bytes \<Rightarrow> string \<Rightarrow> relay_registry" where
  "RecordRejected r h e = r(h \<mapsto> StatusRejected e)"

definition relay_Lookup :: "relay_registry \<Rightarrow> bytes \<Rightarrow> relay_status option" where
  "relay_Lookup r h = r h"

definition relay_Reset :: "relay_registry \<Rightarrow> relay_registry" where
  "relay_Reset r = Map.empty"

definition relay_outcome :: "relay_registry \<Rightarrow> string option \<Rightarrow> bytes \<Rightarrow> relay_registry" where
  "relay_outcome r relayErr h = (case relayErr of Some e \<Rightarrow> RecordRejected r h e | None \<Rightarrow> RecordRelayed r h)"

datatype unknown_answer = RelayError string | AcceptedButGone | UnknownTransaction

definition ResolveUnknownTransaction :: "relay_registry \<Rightarrow> bytes \<Rightarrow> unknown_answer" where
  "ResolveUnknownTransaction r h =
    (case relay_Lookup r h of Some (StatusRejected e) \<Rightarrow> RelayError e
     | Some StatusRelayed \<Rightarrow> AcceptedButGone | None \<Rightarrow> UnknownTransaction)"

section \<open>Saving and loading\<close>

lemma hex_digit_cases:
  assumes "d < 16"
  obtains "d = 0" | "d = 1" | "d = 2" | "d = 3" | "d = 4" | "d = 5" | "d = 6" | "d = 7" | "d = 8" | "d = 9"
    | "d = 10" | "d = 11" | "d = 12" | "d = 13" | "d = 14" | "d = (15 :: nat)"
  using assms by (simp add: numeral_eq_Suc less_Suc_eq) blast

lemma hex_digit_ascii: "d < 16 \<Longrightarrow> hex_digit d < 0x80"
  by (erule hex_digit_cases) (simp_all add: hex_digit_def)

lemma from_hex_digit [simp]: "d < 16 \<Longrightarrow> from_hex_digit (hex_digit d) = Some d"
  by (erule hex_digit_cases) (simp_all add: hex_digit_def from_hex_digit_def)

lemma nibble_less [simp]: "unat (b :: byte) div 16 < 16"
  by (rule less_mult_imp_div_less) (use unat_byte_less [of b] in simp)

lemma byte_nibbles: "(of_nat (16 * (unat b div 16) + unat b mod 16) :: byte) = b"
  by simp

lemma hex_decode_encode [simp]: "hex_decode (hex_encode bs) = Some bs"
proof (induction bs)
  case (Cons b bs)
  then show ?case using byte_nibbles [of b] by simp
qed simp

lemma hex_encode_ascii: "\<forall>c \<in> set (hex_encode bs). c < 0x80"
proof (induction bs)
  case (Cons b bs)
  then show ?case by (simp add: hex_digit_ascii)
qed simp

lemma hex_encode_Nil [simp]: "hex_encode bs = [] \<longleftrightarrow> bs = []"
  by (cases bs) simp_all

lemma coerce_ascii: "\<forall>b \<in> set s. b < 0x80 \<Longrightarrow> coerce_utf8 s = s"
  by (induction s) auto

lemma coerce_hex [simp]: "coerce_utf8 (hex_encode bs) = hex_encode bs"
  by (rule coerce_ascii [OF hex_encode_ascii])

lemma coerce_format [simp]: "coerce_utf8 formatVersion = formatVersion"
  by (rule coerce_ascii) (simp add: formatVersion_def)

lemma json_map_encodeMap [simp]: "json_map (encodeMap m) = encodeMap m"
  by (auto simp: json_map_def encodeMap_def split: option.splits)

lemma decode_loop_encode:
  "\<exists>out'. decode_loop (encodeMap m) out = Inr out' \<and> map_of out' = map_of out ++ map_of (rev (map (\<lambda>(k, v). (k, append_nil v)) m))"
proof (induction m arbitrary: out)
  case (Cons kv m)
  obtain k v where kv: "kv = (k, v)" by (cases kv)
  have "decode_loop (encodeMap (kv # m)) out = decode_loop (encodeMap m) (AList.update k (append_nil v) out)"
    by (auto simp: kv encodeMap_def append_nil_def split: option.splits list.splits)
  moreover obtain out' where "decode_loop (encodeMap m) (AList.update k (append_nil v) out) = Inr out'"
    "map_of out' = map_of (AList.update k (append_nil v) out) ++ map_of (rev (map (\<lambda>(k, v). (k, append_nil v)) m))"
    using Cons.IH by blast
  ultimately show ?case by (simp add: kv update_conv')
qed (simp add: encodeMap_def)

lemma decodeMap_encode:
  assumes "distinct (map fst m)"
  shows "\<exists>out. decodeMap (encodeMap m) = Inr out \<and> map_of out = map_option append_nil \<circ> map_of m"
proof -
  have "map_of (map (\<lambda>(k, v). (k, append_nil v)) m) = map_option append_nil \<circ> map_of m" by (rule map_of_map)
  moreover have "map_of (rev (map (\<lambda>(k, v). (k, append_nil v)) m)) = map_of (map (\<lambda>(k, v). (k, append_nil v)) m)"
    by (rule map_of_rev_distinct) (simp add: assms comp_def case_prod_beta')
  ultimately show ?thesis using decode_loop_encode [of m "[]"] by (simp add: decodeMap_def)
qed

lemma copy_map_keys [simp]: "map fst (copy_map m) = map fst m"
  by (simp add: copy_map_def comp_def case_prod_beta')

lemma map_of_copy_map: "map_of (copy_map m) = map_option append_nil \<circ> map_of m"
  unfolding copy_map_def by (rule map_of_map)

lemma append_nil_again: "map_option append_nil \<circ> (map_option append_nil \<circ> f) = map_option append_nil \<circ> f"
  by (auto simp: fun_eq_iff option.map_comp comp_def)

lemma rune_size_lead: "\<not> b0 \<le> 0xF4 \<Longrightarrow> rune_size (b0 # r) = 0"
  by (auto simp: word_le_nat_alt word_less_nat_alt)

lemma rune_tail2: "cont_byte b \<Longrightarrow> b \<le> 0xF4"
  by (auto simp: cont_byte_def word_le_nat_alt)

lemma rune_tail1: "b \<le> (if c then 0x9F else 0xBF) \<Longrightarrow> b \<le> (0xF4 :: byte)" "b \<le> (if c then 0x8F else 0xBF) \<Longrightarrow> b \<le> (0xF4 :: byte)"
  by (auto simp: word_le_nat_alt split: if_splits)

lemma rune_bytes:
  assumes "rune_size s \<noteq> 0"
  shows "\<forall>b \<in> set (take (rune_size s) s). b \<le> 0xF4"
proof (cases s)
  case (Cons b0 r)
  then have b0: "b0 \<le> 0xF4" using assms rune_size_lead [of b0 r] by argo
  consider "b0 < 0x80" | "\<not> b0 < 0x80" "0xC2 \<le> b0 \<and> b0 \<le> 0xDF"
    | "\<not> b0 < 0x80" "\<not> (0xC2 \<le> b0 \<and> b0 \<le> 0xDF)" "0xE0 \<le> b0 \<and> b0 \<le> 0xEF"
    | "\<not> b0 < 0x80" "\<not> (0xC2 \<le> b0 \<and> b0 \<le> 0xDF)" "\<not> (0xE0 \<le> b0 \<and> b0 \<le> 0xEF)" "0xF0 \<le> b0 \<and> b0 \<le> 0xF4"
    | "\<not> b0 < 0x80" "\<not> (0xC2 \<le> b0 \<and> b0 \<le> 0xDF)" "\<not> (0xE0 \<le> b0 \<and> b0 \<le> 0xEF)" "\<not> (0xF0 \<le> b0 \<and> b0 \<le> 0xF4)"
    by blast
  then show ?thesis
  proof cases
    case 1 then show ?thesis using Cons b0 by simp
  next
    case 2 then show ?thesis using assms b0 unfolding Cons rune_size.simps
      by (simp only: if_False if_True) (auto intro: rune_tail2 split: list.splits if_split_asm)
  next
    case 3 then show ?thesis using assms b0 unfolding Cons rune_size.simps
      by (simp only: if_False if_True) (auto intro: rune_tail2 rune_tail1 simp del: if_split simp: numeral_eq_Suc split: list.splits if_split_asm)
  next
    case 5 then show ?thesis using assms unfolding Cons rune_size.simps by (simp only: if_False)
  next
    case 4 then show ?thesis using assms b0 unfolding Cons rune_size.simps
      by (simp only: if_False if_True) (auto intro: rune_tail2 rune_tail1 simp del: if_split split: list.splits if_split_asm)
  qed
qed simp

lemma coerce_bytes: "\<forall>b \<in> set (coerce_utf8 s). b \<le> 0xF4"
proof (induction s rule: coerce_utf8.induct)
  case (2 b bs)
  then show ?case using rune_bytes [of "b # bs"] by (simp only: coerce_utf8.simps Let_def) (auto simp del: rune_size.simps)
qed simp

lemma native_key_not_coerced:
  assumes "0xF5 \<le> (of_nat (unat i) :: byte)"
  shows "makeContractStorageKey i key \<notin> range coerce_utf8"
proof
  assume "makeContractStorageKey i key \<in> range coerce_utf8"
  moreover have "nat_le (Suc 3) (unat i) = of_nat (unat i) # nat_le 3 (unat i div 256)" by (simp only: nat_le.simps)
  then have "of_nat (unat i) \<in> set (makeContractStorageKey i key)"
    by (simp add: makeContractStorageKey_def del: nat_le.simps)
  ultimately have "(of_nat (unat i) :: byte) \<le> 0xF4" using coerce_bytes by auto
  then show False using assms by (auto simp: word_le_nat_alt)
qed


text \<open>What a saved store and a saved overlay are after loading.\<close>

lemma mem_Import_Get:
  "map_of m' = map_option append_nil \<circ> map_of m \<Longrightarrow> map_of st' = map_option append_nil \<circ> map_of st
   \<Longrightarrow> mem_Get (mem_Import b m' st') k
     = (if mem_Get \<lparr>mem = m, stor = st\<rparr> k = Inr [] then Inl ErrKeyNotFound else mem_Get \<lparr>mem = m, stor = st\<rparr> k)"
  by (auto simp: mem_Get_def chooseMap_def mem_Import_def map_of_copy_map append_nil_def split: list.splits option.splits)

lemma ov_Import_Get:
  "map_of w' = map_option append_nil \<circ> map_of (ov_writes ov)
   \<Longrightarrow> ov_Get (ov_Import o0 w' d) k = ov_Get (ov\<lparr>ov_deletes := d\<rparr>) k"
  by (auto simp: ov_Get_def ov_Import_def map_of_copy_map split: option.splits)

lemma decode_copy:
  assumes "distinct (map fst m)"
  shows "\<exists>out. decodeMap (encodeMap (copy_map m)) = Inr out \<and> map_of out = map_option append_nil \<circ> map_of m"
  using decodeMap_encode [of "copy_map m"] assms by (simp add: map_of_copy_map append_nil_again)

lemma encodeMap_Nil [simp]: "encodeMap m = [] \<longleftrightarrow> m = []" "encodeMap [] = []"
  by (simp_all add: encodeMap_def)

lemma copy_map_Nil [simp]: "copy_map m = [] \<longleftrightarrow> m = []"
  by (simp add: copy_map_def)

lemma decodeMap_Nil [simp]: "decodeMap [] = Inr []"
  by (simp add: decodeMap_def)

lemma persist_loaded:
  assumes "wf_mem base" "distinct (map fst (ov_writes ov))"
  shows "\<exists>s b' o'. chain_Save h snaps (Some base) (Some ov) = Inr s \<and> chain_Load s = Inr s
    \<and> cs_Height s = h \<and> chain_Apply s b0 (Some NewTrackingOverlay) = Inr (b', Some o')
    \<and> (\<forall>k. mem_Get b' k = (if mem_Get base k = Inr [] then Inl ErrKeyNotFound else mem_Get base k))
    \<and> (\<forall>k. ov_Get o' k = ov_Get (ov\<lparr>ov_deletes := map coerce_utf8 (ov_deletes ov)\<rparr>) k)"
proof -
  define s where "s = json_image (build_snapshot h snaps base (Some ov))"
  have parts: "Storage_Mem s = encodeMap (copy_map (mem base))" "Storage_Stor s = encodeMap (copy_map (stor base))"
    "Overlay_Writes s = encodeMap (copy_map (ov_writes ov))" "Overlay_Deletes s = map coerce_utf8 (ov_deletes ov)"
    "Format s = formatVersion" "cs_Height s = h"
    by (simp_all add: s_def json_image_def build_snapshot_def mem_Export_def ov_Export_def)
  obtain m where m: "decodeMap (Storage_Mem s) = Inr m" "map_of m = map_option append_nil \<circ> map_of (mem base)"
    using assms(1) decode_copy [of "mem base"] by (auto simp: parts wf_mem_def wf_maps_def)
  obtain st where st: "decodeMap (Storage_Stor s) = Inr st" "map_of st = map_option append_nil \<circ> map_of (stor base)"
    using assms(1) decode_copy [of "stor base"] by (auto simp: parts wf_mem_def wf_maps_def)
  obtain w where w: "decodeMap (Overlay_Writes s) = Inr w" "map_of w = map_option append_nil \<circ> map_of (ov_writes ov)"
    using assms(2) decode_copy [of "ov_writes ov"] by (auto simp: parts)
  define o' where "o' = (if ov_writes ov = [] \<and> ov_deletes ov = [] then NewTrackingOverlay
    else ov_Import NewTrackingOverlay w (map coerce_utf8 (ov_deletes ov)))"
  have "chain_Apply s b0 (Some NewTrackingOverlay) = Inr (mem_Import b0 m st, Some o')"
    using m(1) st(1) w(1) unfolding parts by (simp add: chain_Apply_def o'_def parts)
  moreover have "mem_Get (mem_Import b0 m st) k = (if mem_Get base k = Inr [] then Inl ErrKeyNotFound else mem_Get base k)" for k
    using mem_Import_Get [OF m(2) st(2)] by (cases base) simp
  moreover have "ov_Get o' k = ov_Get (ov\<lparr>ov_deletes := map coerce_utf8 (ov_deletes ov)\<rparr>) k" for k
    using ov_Import_Get [OF w(2)] by (simp add: o'_def) (simp add: ov_Get_def NewTrackingOverlay_def)
  ultimately show ?thesis by (auto simp: chain_Save_def chain_Load_def parts s_def [symmetric])
qed



text \<open>A recorded delete of an item of a native contract does not survive saving and loading: the low byte of
  such a contract's id starts no rune, the key is written to the JSON file as a string and its bytes are replaced,
  and the loaded overlay knows nothing of the key, so that a read falls through to the forked chain.\<close>

theorem persist_loses_native_deletes:
  assumes "wf_mem base" "distinct (map fst (ov_writes ov))" "0xF5 \<le> (of_nat (unat i) :: byte)"
    and "ov_Get ov (makeContractStorageKey i key) = (None, True)" "map_of (ov_writes ov) (makeContractStorageKey i key) = None"
  shows "\<exists>s b' o'. chain_Save h snaps (Some base) (Some ov) = Inr s \<and> chain_Load s = Inr s
    \<and> chain_Apply s b0 (Some NewTrackingOverlay) = Inr (b', Some o')
    \<and> ov_Get o' (makeContractStorageKey i key) = (None, False)"
proof -
  have "makeContractStorageKey i key \<notin> set (map coerce_utf8 (ov_deletes ov))"
    using native_key_not_coerced [OF assms(3), of key] by auto
  then have "ov_Get (ov\<lparr>ov_deletes := map coerce_utf8 (ov_deletes ov)\<rparr>) (makeContractStorageKey i key) = (None, False)"
    using assms(5) by (simp add: ov_Get_def)
  then show ?thesis using persist_loaded [OF assms(1,2), of h snaps b0] by metis
qed

theorem persist_loses_native_deletes_witness:
  "let ov = ov_Delete NewTrackingOverlay (makeContractStorageKey (- 4) [9])
   in \<exists>s b' o'. chain_Save 7 [] (Some NewMemoryStore) (Some ov) = Inr s \<and> chain_Load s = Inr s
    \<and> chain_Apply s NewMemoryStore (Some NewTrackingOverlay) = Inr (b', Some o')
    \<and> ov_Get o' (makeContractStorageKey (- 4) [9]) = (None, False)"
  unfolding Let_def
  by (rule persist_loses_native_deletes)
    (simp_all add: wf_mem_def wf_maps_def NewMemoryStore_def NewTrackingOverlay_def ov_Delete_def ov_Get_def)

section \<open>Snapshot ids\<close>

definition hex_value :: "bytes \<Rightarrow> nat" where
  "hex_value s = foldl (\<lambda>n c. 16 * n + the (from_hex_digit c)) 0 s"

lemma hex_value_hex_nat: "hex_value (hex_nat n) = n"
proof (induction n rule: hex_nat.induct)
  case (1 n)
  then show ?case by (subst hex_nat.simps) (auto simp: hex_value_def)
qed

lemma snap_id_inject [simp]: "snap_id m = snap_id n \<longleftrightarrow> m = n"
  using hex_value_hex_nat by (auto simp: snap_id_def) metis

text \<open>The managers that calls of \<open>Snapshot\<close> and \<open>Revert\<close> reach from a new one.\<close>

inductive snap_reach :: "('c \<Rightarrow> u32 \<Rightarrow> string + 'c) \<Rightarrow> snap_manager \<Rightarrow> bool" for reset where
  new_manager: "snap_reach reset NewManager"
| after_snapshot: "snap_reach reset m \<Longrightarrow> snap_reach reset (snd (Snapshot m h))"
| after_revert: "snap_reach reset m \<Longrightarrow> Revert reset m c i = Inr (m', c') \<Longrightarrow> snap_reach reset m'"

definition snap_inv :: "snap_manager \<Rightarrow> bool" where
  "snap_inv m \<longleftrightarrow> distinct (map ss_ID (snapshots m)) \<and> set (map ss_ID (snapshots m)) \<subseteq> snap_id ` {1..counter m}"

lemma Snapshot_inv: "snap_inv m \<Longrightarrow> snap_inv (snd (Snapshot m h))"
  by (auto simp: snap_inv_def Snapshot_def Let_def)

lemma Revert_eq:
  "Revert reset m c i = Inr (m', c') \<Longrightarrow> \<exists>n. m' = m\<lparr>snapshots := take n (snapshots m)\<rparr>"
  by (auto simp: Revert_def split: option.splits sum.splits)

lemma Revert_inv: "snap_inv m \<Longrightarrow> Revert reset m c i = Inr (m', c') \<Longrightarrow> snap_inv m'"
  using Revert_eq [of reset m c i m' c'] set_take_subset
  by (fastforce simp: snap_inv_def take_map [symmetric] dest: in_set_takeD)

lemma snap_reach_inv: "snap_reach reset m \<Longrightarrow> snap_inv m"
  by (induction rule: snap_reach.induct) (auto simp: Snapshot_inv intro: Revert_inv, simp add: snap_inv_def NewManager_def)

lemma find_id:
  "distinct (map ss_ID (xs @ s # ys)) \<Longrightarrow> find (\<lambda>x. ss_ID x = ss_ID s) (xs @ s # ys) = Some s"
  by (induction xs) auto

lemma takeWhile_id:
  "distinct (map ss_ID (xs @ s # ys)) \<Longrightarrow> takeWhile (\<lambda>x. ss_ID x \<noteq> ss_ID s) (xs @ s # ys) = xs"
  by (induction xs) auto



text \<open>A node that loads a saved state starts with the saved snapshots and a counter of 0: its first new snapshot
  gets the id of the oldest saved one, and reverting to that id resets the chain to the old height.\<close>

theorem restored_snapshot_ids_repeat:
  "let m = Restore NewManager (snapshots (snd (Snapshot NewManager h1)));
       (i, m') = Snapshot m h2
   in Revert (\<lambda>_ t. Inr t) m' c i = (Inr (m\<lparr>counter := 1\<rparr>, h1) :: string + _) \<and> \<lparr>ss_ID = i, ss_Height = h2\<rparr> \<in> set (snapshots m')"
  by (simp add: Restore_def Snapshot_def NewManager_def Revert_def Let_def)

end
