(* ===== verification/Block.thy ===== *)
theory Block
  imports Transaction
begin

text \<open>
  Blocks and their headers: \<open>pkg/core/block/block.go\<close> and \<open>header.go\<close>. The cached hash of a header is a field, as
  in the code, since a header that is changed after its hash was taken keeps the old one. The transactions of
  a block are those of \<open>Transaction\<close>, with the encoder of public keys as an argument.
\<close>

section \<open>Headers\<close>

record header =
  hd_Version :: u32
  PrevHash :: hash256
  MerkleRoot :: hash256
  Timestamp :: u64
  hd_Nonce :: u64
  Index :: u32
  NextConsensus :: uint160
  hd_Script :: witness
  StateRootEnabled :: bool
  PrevStateRoot :: hash256
  PrimaryIndex :: byte
  hd_hash :: hash256

definition zero256 :: hash256 where
  "zero256 = replicate 32 0"

definition new_Header :: "bool \<Rightarrow> header" where
  "new_Header sre = \<lparr>hd_Version = 0, PrevHash = zero256, MerkleRoot = zero256, Timestamp = 0, hd_Nonce = 0, Index = 0,
     NextConsensus = replicate 20 0, hd_Script = \<lparr>InvocationScript = [], VerificationScript = []\<rparr>, StateRootEnabled = sre,
     PrevStateRoot = zero256, PrimaryIndex = 0, hd_hash = zero256\<rparr>"

definition hd_encodeHashableFields :: "header \<Rightarrow> bin_writer \<Rightarrow> bin_writer" where
  "hd_encodeHashableFields b w =
    (let w1 = WriteBytes (MerkleRoot b) (WriteBytes (PrevHash b) (WriteU32LE (hd_Version b) w));
         w2 = WriteU32LE (Index b) (WriteU64LE (hd_Nonce b) (WriteU64LE (Timestamp b) w1));
         w3 = WriteBytes (NextConsensus b) (WriteB (PrimaryIndex b) w2)
     in if StateRootEnabled b then WriteBytes (PrevStateRoot b) w3 else w3)"

definition hd_createHash :: "header \<Rightarrow> header" where
  "hd_createHash b = b\<lparr>hd_hash := Sha256 (w_buf (hd_encodeHashableFields b NewBufBinWriter))\<rparr>"

text \<open>\<open>Hash\<close>: the hash, and the header with its cache filled.\<close>

definition hd_Hash :: "header \<Rightarrow> hash256 \<times> header" where
  "hd_Hash b = (let b' = (if hd_hash b = zero256 then hd_createHash b else b) in (hd_hash b', b'))"

definition hd_decodeHashableFields :: "header \<Rightarrow> bin_reader \<Rightarrow> header \<times> bin_reader" where
  "hd_decodeHashableFields b r =
    (let (v, r1) = ReadU32LE r; (ph, r2) = ReadBytes (PrevHash b) r1; (mr, r3) = ReadBytes (MerkleRoot b) r2;
         (ts, r4) = ReadU64LE r3; (n, r5) = ReadU64LE r4; (i, r6) = ReadU32LE r5; (p, r7) = ReadB r6;
         (nc, r8) = ReadBytes (NextConsensus b) r7;
         (sr, r9) = (if StateRootEnabled b then ReadBytes (PrevStateRoot b) r8 else (PrevStateRoot b, r8));
         b' = b\<lparr>hd_Version := v, PrevHash := ph, MerkleRoot := mr, Timestamp := ts, hd_Nonce := n, Index := i, PrimaryIndex := p,
                NextConsensus := nc, PrevStateRoot := sr\<rparr>
     in (if r_err r9 = None then hd_createHash b' else b', r9))"

definition hd_EncodeBinary :: "header \<Rightarrow> bin_writer \<Rightarrow> bin_writer" where
  "hd_EncodeBinary b w = witness_EncodeBinary (hd_Script b) (WriteVarUint 1 (hd_encodeHashableFields b w))"

definition hd_DecodeBinary :: "header \<Rightarrow> bin_reader \<Rightarrow> header \<times> bin_reader" where
  "hd_DecodeBinary b r =
    (let (b1, r1) = hd_decodeHashableFields b r; (n, r2) = ReadVarUint r1
     in if r_err r2 = None \<and> n \<noteq> 1 then (b1, r2\<lparr>r_err := Some (BadValue ''wrong witness count'')\<rparr>)
        else let (s, r3) = witness_DecodeBinary r2 in (b1\<lparr>hd_Script := s\<rparr>, r3))"

definition expectedHeaderSizeWithEmptyWitness :: nat where
  "expectedHeaderSizeWithEmptyWitness = counted (hd_EncodeBinary (new_Header False))"

text \<open>\<open>smartcontract.GetDefaultHonestNodeCount\<close> is \<open>n - (n - 1) / 3\<close>.\<close>

definition GetDefaultHonestNodeCount :: "nat \<Rightarrow> nat" where
  "GetDefaultHonestNodeCount n = n - (n - 1) div 3"

definition GetExpectedHeaderSize :: "bool \<Rightarrow> nat \<Rightarrow> nat" where
  "GetExpectedHeaderSize stateRootInHeader numOfValidators =
    (let size1 = (if numOfValidators = 0 then expectedHeaderSizeWithEmptyWitness + 1
        else expectedHeaderSizeWithEmptyWitness + (1 + 1 + 64) * GetDefaultHonestNodeCount numOfValidators + 2
             + numOfValidators * (1 + 1 + 33) + 2 + 5)
     in if stateRootInHeader then size1 + 32 else size1)"

section \<open>Blocks\<close>

record 'g block =
  Header :: header
  Transactions :: "'g transaction list"
  b_Trimmed :: bool

definition MaxTransactionsPerBlock :: nat where "MaxTransactionsPerBlock = 65535"

definition New_block :: "bool \<Rightarrow> 'g block" where
  "New_block sre = \<lparr>Header = new_Header sre, Transactions = [], b_Trimmed = False\<rparr>"

text \<open>The transactions are assumed to have their hashes: \<open>Hash\<close> of a transaction that cannot be serialized panics
  (\<open>Hash_panics\<close> in \<open>Mempool\<close>), so each hash here is an option.\<close>

definition block_tx_Hash :: "('g \<Rightarrow> bin_writer \<Rightarrow> bin_writer) \<Rightarrow> 'g transaction \<Rightarrow> hash256 option" where
  "block_tx_Hash genc t = (if tx_hashed t then Some (tx_hash t)
     else case createHash genc t of (None, t') \<Rightarrow> Some (tx_hash t') | (Some _, _) \<Rightarrow> None)"

definition ComputeMerkleRoot :: "('g \<Rightarrow> bin_writer \<Rightarrow> bin_writer) \<Rightarrow> 'g block \<Rightarrow> hash256 option" where
  "ComputeMerkleRoot genc b = map_option CalcMerkleRoot (those (map (block_tx_Hash genc) (Transactions b)))"

definition RebuildMerkleRoot :: "('g \<Rightarrow> bin_writer \<Rightarrow> bin_writer) \<Rightarrow> 'g block \<Rightarrow> 'g block option" where
  "RebuildMerkleRoot genc b = map_option (\<lambda>r. b\<lparr>Header := (Header b)\<lparr>MerkleRoot := r\<rparr>\<rparr>) (ComputeMerkleRoot genc b)"

definition block_EncodeBinary :: "('g \<Rightarrow> bin_writer \<Rightarrow> bin_writer) \<Rightarrow> 'g block \<Rightarrow> bin_writer \<Rightarrow> bin_writer" where
  "block_EncodeBinary genc b w =
    fold (tx_EncodeBinary genc) (Transactions b) (WriteVarUint (of_nat (length (Transactions b))) (hd_EncodeBinary (Header b) w))"

definition ErrMaxContentsPerBlock :: io_err where
  "ErrMaxContentsPerBlock = BadValue ''the number of contents exceeds the maximum number of contents per block''"

definition block_DecodeBinary ::
  "('g \<Rightarrow> bin_writer \<Rightarrow> bin_writer) \<Rightarrow> (bin_reader \<Rightarrow> 'g \<times> bin_reader) \<Rightarrow> 'g block \<Rightarrow> bin_reader \<Rightarrow> 'g block \<times> bin_reader" where
  "block_DecodeBinary genc gdec b r =
    (let (h, r1) = hd_DecodeBinary (Header b) r; (n, r2) = ReadVarUint r1; b1 = b\<lparr>Header := h\<rparr>
     in if MaxTransactionsPerBlock < unat n then (b1, r2\<lparr>r_err := Some ErrMaxContentsPerBlock\<rparr>)
        else let (txes, r3) = decode_elems (tx_DecodeBinary genc gdec) (unat n) r2 in (b1\<lparr>Transactions := txes\<rparr>, r3))"

definition EncodeTrimmed :: "('g \<Rightarrow> bin_writer \<Rightarrow> bin_writer) \<Rightarrow> 'g block \<Rightarrow> bin_writer \<Rightarrow> bin_writer option" where
  "EncodeTrimmed genc b w =
    map_option (\<lambda>hs. fold WriteBytes hs (WriteVarUint (of_nat (length (Transactions b))) (hd_EncodeBinary (Header b) w)))
      (those (map (block_tx_Hash genc) (Transactions b)))"

definition NewTrimmedFromReader :: "bool \<Rightarrow> bin_reader \<Rightarrow> io_err option \<times> 'g block option \<times> bin_reader" where
  "NewTrimmedFromReader sre r =
    (let (h, r1) = hd_DecodeBinary (new_Header sre) r; (n, r2) = ReadVarUint r1
     in if MaxTransactionsPerBlock < unat n then (Some ErrMaxContentsPerBlock, None, r2)
        else let (hs, r3) = decode_elems (ReadBytes zero256) (unat n) r2
        in (r_err r3, Some \<lparr>Header = h, Transactions = map NewTrimmedTX hs, b_Trimmed = True\<rparr>, r3))"

definition GetExpectedBlockSizeWithoutTransactions :: "header \<Rightarrow> nat \<Rightarrow> nat" where
  "GetExpectedBlockSizeWithoutTransactions b txCount =
    expectedHeaderSizeWithEmptyWitness - 1 - 1 + counted (witness_EncodeBinary (hd_Script b)) + GetVarSize (SInt (int txCount))
    + (if StateRootEnabled b then 32 else 0)"

definition GetExpectedBlockSize :: "('g \<Rightarrow> bin_writer \<Rightarrow> bin_writer) \<Rightarrow> 'g block \<Rightarrow> nat" where
  "GetExpectedBlockSize genc b =
    GetExpectedBlockSizeWithoutTransactions (Header b) (length (Transactions b)) + sum_list (map (\<lambda>t. fst (tx_Size genc t)) (Transactions b))"

section \<open>Binary forms\<close>

definition header_ok :: "header \<Rightarrow> bool" where
  "header_ok b \<longleftrightarrow> length (PrevHash b) = 32 \<and> length (MerkleRoot b) = 32 \<and> length (NextConsensus b) = 20
     \<and> length (PrevStateRoot b) = 32 \<and> witness_ok (hd_Script b)"

definition hd_hashable_wire :: "header \<Rightarrow> bytes" where
  "hd_hashable_wire b = nat_le 4 (unat (hd_Version b)) @ PrevHash b @ MerkleRoot b @ nat_le 8 (unat (Timestamp b))
     @ nat_le 8 (unat (hd_Nonce b)) @ nat_le 4 (unat (Index b)) @ [PrimaryIndex b] @ NextConsensus b
     @ (if StateRootEnabled b then PrevStateRoot b else [])"

definition hd_wire :: "header \<Rightarrow> bytes" where
  "hd_wire b = hd_hashable_wire b @ PutVarUint 1 @ witness_wire (hd_Script b)"

lemma hd_encode_ok: "w_err w = None \<Longrightarrow> hd_encodeHashableFields b w = w\<lparr>w_buf := w_buf w @ hd_hashable_wire b\<rparr>"
  by (simp add: hd_encodeHashableFields_def hd_hashable_wire_def codec_simps Let_def WriteB_def WriteU32LE_def WriteU64LE_def del: nat_le.simps)

lemma hd_encode_err: "w_err w \<noteq> None \<Longrightarrow> hd_encodeHashableFields b w = w"
  by (simp add: hd_encodeHashableFields_def codec_simps Let_def WriteB_def WriteU32LE_def WriteU64LE_def)

text \<open>The fields a serialized header carries, with the hash of the decoder.\<close>

definition header_fields :: "header \<Rightarrow> header" where
  "header_fields b = b\<lparr>hd_hash := Sha256 (hd_hashable_wire b), PrevStateRoot := (if StateRootEnabled b then PrevStateRoot b else zero256)\<rparr>"

lemma hd_decode_wire:
  assumes "header_ok b" "StateRootEnabled b0 = StateRootEnabled b" "length (PrevHash b0) = 32" "length (MerkleRoot b0) = 32"
    "length (NextConsensus b0) = 20" "PrevStateRoot b0 = zero256"
  shows "hd_decodeHashableFields b0 \<lparr>r_buf = hd_hashable_wire b @ rest, r_err = None\<rparr>
    = ((header_fields b)\<lparr>hd_Script := hd_Script b0\<rparr>, \<lparr>r_buf = rest, r_err = None\<rparr>)"
proof -
  have "hd_createHash x = x\<lparr>hd_hash := Sha256 (hd_hashable_wire x)\<rparr>" for x
    by (simp add: hd_createHash_def hd_encode_ok NewBufBinWriter_def)
  then show ?thesis using assms
    by (simp add: hd_decodeHashableFields_def hd_hashable_wire_def codec_simps ReadBytes_append header_ok_def header_fields_def zero256_def
        del: nat_le.simps)
qed

lemma hd_EncodeBinary_ok: "w_err w = None \<Longrightarrow> hd_EncodeBinary b w = w\<lparr>w_buf := w_buf w @ hd_wire b\<rparr>"
  using witness.enc_ok [of "hd_Script b"]
  by (simp add: hd_EncodeBinary_def hd_wire_def hd_encode_ok codec_simps witness_EncodeBinary_def witness_wire_def)

lemma hd_DecodeBinary_wire:
  assumes "header_ok b" "sre = StateRootEnabled b"
  shows "hd_DecodeBinary (new_Header sre) \<lparr>r_buf = hd_wire b @ rest, r_err = None\<rparr> = (header_fields b, \<lparr>r_buf = rest, r_err = None\<rparr>)"
proof -
  have "hd_decodeHashableFields (new_Header sre) \<lparr>r_buf = hd_hashable_wire b @ x, r_err = None\<rparr>
      = ((header_fields b)\<lparr>hd_Script := hd_Script (new_Header sre)\<rparr>, \<lparr>r_buf = x, r_err = None\<rparr>)" for x
    by (rule hd_decode_wire) (use assms in \<open>simp_all add: new_Header_def zero256_def\<close>)
  moreover have "witness_ok (hd_Script b)" using assms(1) by (simp add: header_ok_def)
  moreover have "(header_fields b)\<lparr>hd_Script := hd_Script b\<rparr> = header_fields b" by (simp add: header_fields_def)
  ultimately show ?thesis
    by (simp add: hd_DecodeBinary_def hd_wire_def codec_simps witness.dec_ok)
qed

text \<open>Transactions as the decoder of a block leaves them.\<close>

definition in_block_ok :: "('g \<Rightarrow> bytes) \<Rightarrow> ('g \<Rightarrow> bool) \<Rightarrow> 'g transaction \<Rightarrow> bool" where
  "in_block_ok gw gv t \<longleftrightarrow> tx_ok gv t \<and> tx_cached gw t"

lemma tx_DecodeBinary_wire:
  assumes "wire_codec genc gdec gw gv" "in_block_ok gw gv t"
  shows "tx_DecodeBinary genc gdec \<lparr>r_buf = tx_wire gw t @ rest, r_err = None\<rparr> = (t, \<lparr>r_buf = rest, r_err = None\<rparr>)"
proof -
  let ?t = "(fields_of t)\<lparr>tx_hash := Sha256 (hashable_wire gw t), tx_hashed := True, Scripts := Scripts t\<rparr>"
  have ok: "tx_ok gv t" "tx_cached gw t" using assms(2) by (simp_all add: in_block_ok_def)
  have "tx_EncodeBinary genc ?t = tx_EncodeBinary genc t"
    by (rule ext) (simp add: tx_EncodeBinary_def encodeHashableFields_def fields_of_def)
  then have "counted (tx_EncodeBinary genc ?t) = length (tx_wire gw t)"
    using tx_EncodeBinary_ok [OF assms(1) ok(1), of NewBufBinWriter] by (simp add: counted_def NewBufBinWriter_def)
  moreover have "tx_size ?t = 0" by (simp add: fields_of_def empty_tx_def)
  ultimately have "snd (tx_Size genc ?t) = t" using tx_fields_back [OF ok] by (simp add: tx_Size_def)
  then show ?thesis using decodeBinaryNoSize_wire(2) [OF assms(1) ok(1)] by (simp add: tx_DecodeBinary_def)
qed

definition block_ok :: "('g \<Rightarrow> bytes) \<Rightarrow> ('g \<Rightarrow> bool) \<Rightarrow> 'g block \<Rightarrow> bool" where
  "block_ok gw gv b \<longleftrightarrow> header_ok (Header b) \<and> length (Transactions b) \<le> MaxTransactionsPerBlock
     \<and> (\<forall>t \<in> set (Transactions b). in_block_ok gw gv t)"

definition block_wire :: "('g \<Rightarrow> bytes) \<Rightarrow> 'g block \<Rightarrow> bytes" where
  "block_wire gw b = hd_wire (Header b) @ PutVarUint (of_nat (length (Transactions b))) @ concat (map (tx_wire gw) (Transactions b))"

lemma small_block: "n \<le> MaxTransactionsPerBlock \<Longrightarrow> unat (of_nat n :: u64) = n"
  by (simp add: MaxTransactionsPerBlock_def unat_of_nat)

lemma block_EncodeBinary_ok:
  assumes "wire_codec genc gdec gw gv" "block_ok gw gv b" "w_err w = None"
  shows "block_EncodeBinary genc b w = w\<lparr>w_buf := w_buf w @ block_wire gw b\<rparr>"
proof -
  have "fold (tx_EncodeBinary genc) (Transactions b) v = v\<lparr>w_buf := w_buf v @ concat (map (tx_wire gw) (Transactions b))\<rparr>"
    if "w_err v = None" for v
    by (rule fold_writes [OF tx_EncodeBinary_ok [OF assms(1)]]) (use assms(2) that in \<open>auto simp: block_ok_def in_block_ok_def\<close>)
  then show ?thesis using assms(3) by (simp add: block_EncodeBinary_def block_wire_def hd_EncodeBinary_ok codec_simps)
qed

lemma block_DecodeBinary_wire:
  assumes "wire_codec genc gdec gw gv" "block_ok gw gv b" "sre = StateRootEnabled (Header b)"
  shows "block_DecodeBinary genc gdec (New_block sre) \<lparr>r_buf = block_wire gw b @ rest, r_err = None\<rparr>
    = (\<lparr>Header = header_fields (Header b), Transactions = Transactions b, b_Trimmed = False\<rparr>, \<lparr>r_buf = rest, r_err = None\<rparr>)"
proof -
  have n: "length (Transactions b) \<le> MaxTransactionsPerBlock" "header_ok (Header b)" using assms(2) by (simp_all add: block_ok_def)
  have "decode_elems (tx_DecodeBinary genc gdec) (length (Transactions b))
      \<lparr>r_buf = concat (map (tx_wire gw) (Transactions b)) @ rest, r_err = None\<rparr> = (Transactions b, \<lparr>r_buf = rest, r_err = None\<rparr>)"
    by (rule decode_elems_wire [OF tx_DecodeBinary_wire [OF assms(1)]]) (use assms(2) in \<open>simp add: block_ok_def\<close>)
  then show ?thesis
    using n by (simp add: block_DecodeBinary_def New_block_def block_wire_def hd_DecodeBinary_wire [OF n(2) assms(3)] codec_simps small_block)
qed

lemma expected_header_size:
  "header_ok b \<Longrightarrow> length (hd_wire b) = expectedHeaderSizeWithEmptyWitness - 1 - 1 + counted (witness_EncodeBinary (hd_Script b)) + (if StateRootEnabled b then 32 else 0)"
  by (simp add: expectedHeaderSizeWithEmptyWitness_def counted_def hd_EncodeBinary_ok NewBufBinWriter_def hd_wire_def hd_hashable_wire_def
      header_ok_def new_Header_def zero256_def witness.enc_ok witness_wire_def var_wire_def length_PutVarUint del: nat_le.simps)

lemma block_size:
  assumes "wire_codec genc gdec gw gv" "block_ok gw gv b"
  shows "GetExpectedBlockSize genc b + length (PutVarUint (of_nat (length (Transactions b))))
    = length (block_wire gw b) + getVarIntSize (int (length (Transactions b)))"
proof -
  have "fst (tx_Size genc t) = length (tx_wire gw t)" if "t \<in> set (Transactions b)" for t
  proof -
    have t: "tx_ok gv t" "tx_size t = length (tx_wire gw t)" using assms(2) that by (auto simp: block_ok_def in_block_ok_def tx_cached_def)
    then show ?thesis using tx_EncodeBinary_ok [OF assms(1) t(1), of NewBufBinWriter]
      by (simp add: tx_Size_def counted_def NewBufBinWriter_def Let_def)
  qed
  then have "sum_list (map (\<lambda>t. fst (tx_Size genc t)) (Transactions b)) = sum_list (map (length \<circ> tx_wire gw) (Transactions b))"
    by (intro arg_cong [where f = sum_list]) simp
  then show ?thesis using expected_header_size [of "Header b"] assms(2)
    by (simp add: GetExpectedBlockSize_def GetExpectedBlockSizeWithoutTransactions_def block_wire_def block_ok_def length_concat)
qed


definition sample_block :: "u64 block" where
  "sample_block = (New_block True)\<lparr>Transactions := [sample_tx]\<rparr>"


text \<open>A block stored with the hashes of its transactions only is read back with the same header and hashes.\<close>

lemma block_tx_Hash_cached: "in_block_ok gw gv t \<Longrightarrow> block_tx_Hash genc t = Some (tx_hash t)"
  by (simp add: in_block_ok_def tx_cached_def block_tx_Hash_def)

lemma those_map_Some: "(\<And>x. x \<in> set xs \<Longrightarrow> f x = Some (g x)) \<Longrightarrow> those (map f xs) = Some (map g xs)"
  by (induction xs) simp_all

definition trimmed_wire :: "'g block \<Rightarrow> bytes" where
  "trimmed_wire b = hd_wire (Header b) @ PutVarUint (of_nat (length (Transactions b))) @ concat (map tx_hash (Transactions b))"

lemma EncodeTrimmed_ok:
  assumes "block_ok gw gv b" "w_err w = None"
  shows "EncodeTrimmed genc b w = Some (w\<lparr>w_buf := w_buf w @ trimmed_wire b\<rparr>)"
proof -
  have hs: "those (map (block_tx_Hash genc) (Transactions b)) = Some (map tx_hash (Transactions b))"
    by (rule those_map_Some) (use assms in \<open>auto simp: block_ok_def block_tx_Hash_cached\<close>)
  have "fold WriteBytes (map tx_hash (Transactions b)) v = v\<lparr>w_buf := w_buf v @ concat (map id (map tx_hash (Transactions b)))\<rparr>"
    if "w_err v = None" for v
    by (rule fold_writes) (use that in \<open>simp_all add: codec_simps\<close>)
  then show ?thesis using hs assms(2)
    by (simp add: EncodeTrimmed_def hd_EncodeBinary_ok codec_simps trimmed_wire_def)
qed

lemma NewTrimmedFromReader_wire:
  assumes "block_ok gw gv b" "sre = StateRootEnabled (Header b)"
  shows "NewTrimmedFromReader sre \<lparr>r_buf = trimmed_wire b @ rest, r_err = None\<rparr>
      = (None, Some \<lparr>Header = header_fields (Header b), Transactions = map (NewTrimmedTX \<circ> tx_hash) (Transactions b), b_Trimmed = True\<rparr>,
         \<lparr>r_buf = rest, r_err = None\<rparr>)"
proof -
  let ?hs = "map tx_hash (Transactions b)"
  have n: "length (Transactions b) \<le> MaxTransactionsPerBlock" "header_ok (Header b)" using assms by (simp_all add: block_ok_def)
  have len: "\<forall>h \<in> set ?hs. length h = 32" using assms by (auto simp: block_ok_def in_block_ok_def tx_cached_def)
  have "decode_elems (ReadBytes zero256) (length ?hs) \<lparr>r_buf = concat (map id ?hs) @ rest, r_err = None\<rparr> = (?hs, \<lparr>r_buf = rest, r_err = None\<rparr>)"
    by (rule decode_elems_wire) (use len in \<open>auto simp: ReadBytes_append zero256_def\<close>)
  then show ?thesis using n
    by (simp add: trimmed_wire_def NewTrimmedFromReader_def codec_simps hd_DecodeBinary_wire [OF n(2) assms(2)] small_block)
qed

end
