(* ===== verification/Dao.thy ===== *)
theory Dao
  imports Block KVStore
begin

text \<open>
  Blocks, headers and transactions in the store: \<open>pkg/core/dao/dao.go\<close>. The store under the DAO is the map from keys
  to values that its \<open>Get\<close> answers, which is what \<open>KVStore\<close> proves of the cached stores; a missing key is \<open>None\<close>. An
  execution result is written by an encoder that is an argument. A Go panic is \<open>Inl\<close> of its message.
\<close>

section \<open>Keys\<close>

type_synonym kv = "bytes \<rightharpoonup> bytes"

definition DataExecutable :: byte where "DataExecutable = 0x01"
definition IXHeaderHashList :: byte where "IXHeaderHashList = 0x80"
definition SYSCurrentBlock :: byte where "SYSCurrentBlock = 0xc0"
definition SYSCurrentHeader :: byte where "SYSCurrentHeader = 0xc1"
definition SYSStateSyncCurrentBlockHeight :: byte where "SYSStateSyncCurrentBlockHeight = 0xc2"
definition SYSStateSyncPoint :: byte where "SYSStateSyncPoint = 0xc3"
definition SYSVersion :: byte where "SYSVersion = 0xf0"
definition ExecBlock :: byte where "ExecBlock = 1"
definition ExecTransaction :: byte where "ExecTransaction = 2"

lemmas prefix_defs = DataExecutable_def IXHeaderHashList_def SYSCurrentBlock_def SYSCurrentHeader_def
  SYSStateSyncCurrentBlockHeight_def SYSStateSyncPoint_def SYSVersion_def

definition conflictRecordValueLen :: nat where "conflictRecordValueLen = 1 + 4"

definition makeExecutableKey :: "hash256 \<Rightarrow> bytes" where
  "makeExecutableKey h = DataExecutable # h"

definition mkHeaderHashKey :: "u32 \<Rightarrow> bytes" where
  "mkHeaderHashKey h = IXHeaderHashList # rev (nat_le 4 (unat h))"

definition mkKeyPrefix :: "byte \<Rightarrow> bytes" where
  "mkKeyPrefix k = [k]"

section \<open>Version\<close>

record dao_version =
  StoragePrefix :: byte
  v_StateRootInHeader :: bool
  P2PSigExtensions :: bool
  P2PStateExchangeExtensions :: bool
  KeepOnlyLatestState :: bool
  v_Magic :: u32
  v_Value :: bytes
  SaveInvocations :: bool

definition empty_version :: dao_version where
  "empty_version = \<lparr>StoragePrefix = 0, v_StateRootInHeader = False, P2PSigExtensions = False, P2PStateExchangeExtensions = False,
     KeepOnlyLatestState = False, v_Magic = 0, v_Value = [], SaveInvocations = False\<rparr>"

unbundle bit_operations_syntax

definition version_mask :: "dao_version \<Rightarrow> byte" where
  "version_mask v = (let
      m1 = (if v_StateRootInHeader v then 0 OR 1 else 0);
      m2 = (if P2PSigExtensions v then m1 OR 2 else m1);
      m3 = (if P2PStateExchangeExtensions v then m2 OR 4 else m2);
      m4 = (if KeepOnlyLatestState v then m3 OR 8 else m3)
    in if SaveInvocations v then m4 OR 16 else m4)"

definition version_Bytes :: "dao_version \<Rightarrow> bytes" where
  "version_Bytes v = v_Value v @ [0, StoragePrefix v, version_mask v] @ nat_le 4 (unat (v_Magic v))"

definition version_FromBytes :: "dao_version \<Rightarrow> bytes \<Rightarrow> string + dao_version" where
  "version_FromBytes v dat =
    (if length dat = 0 then Inl ''missing version''
     else let i = length (takeWhile (\<lambda>c. c \<noteq> 0) dat)
     in if i = length dat then Inr (v\<lparr>v_Value := dat\<rparr>)
        else if length dat < i + 3 then Inl ''version is invalid''
        else let m = dat ! (i + 2);
                 v' = v\<lparr>v_Value := take i dat, StoragePrefix := dat ! (i + 1), v_StateRootInHeader := (m AND 1 \<noteq> 0),
                        P2PSigExtensions := (m AND 2 \<noteq> 0), P2PStateExchangeExtensions := (m AND 4 \<noteq> 0),
                        KeepOnlyLatestState := (m AND 8 \<noteq> 0), SaveInvocations := (m AND 16 \<noteq> 0)\<rparr>
        in Inr (if length dat = i + 3 + 4 then v'\<lparr>v_Magic := of_nat (le_nat (drop (i + 3) dat))\<rparr> else v'))"

definition GetVersion :: "kv \<Rightarrow> string + dao_version" where
  "GetVersion s = (case s (mkKeyPrefix SYSVersion) of None \<Rightarrow> Inl ''key not found'' | Some b \<Rightarrow> version_FromBytes empty_version b)"

definition PutVersion :: "kv \<Rightarrow> dao_version \<Rightarrow> kv" where
  "PutVersion s v = s(mkKeyPrefix SYSVersion \<mapsto> version_Bytes v)"

section \<open>Headers and blocks\<close>

definition PutCurrentHeader :: "kv \<Rightarrow> hash256 \<Rightarrow> u32 \<Rightarrow> kv" where
  "PutCurrentHeader s h index = s(mkKeyPrefix SYSCurrentHeader \<mapsto> w_buf (WriteU32LE index (WriteBytes (rev h) NewBufBinWriter)))"

text \<open>The slices of \<open>GetCurrentHeaderHeight\<close> and \<open>GetCurrentBlockHeight\<close> panic on a shorter record.\<close>

definition GetCurrentHeaderHeight :: "kv \<Rightarrow> string + (u32 \<times> hash256) option" where
  "GetCurrentHeaderHeight s = (case s (mkKeyPrefix SYSCurrentHeader) of None \<Rightarrow> Inr None
     | Some b \<Rightarrow> if length b < 36 then Inl ''slice bounds out of range''
                 else Inr (Some (of_nat (le_nat (take 4 (drop 32 b))), rev (take 32 b))))"

definition StoreAsCurrentBlock :: "kv \<Rightarrow> 'g block \<Rightarrow> kv" where
  "StoreAsCurrentBlock s b =
    s(mkKeyPrefix SYSCurrentBlock \<mapsto> w_buf (WriteU32LE (Index (Header b)) (WriteBytes (fst (hd_Hash (Header b))) NewBufBinWriter)))"

definition GetCurrentBlockHeight :: "kv \<Rightarrow> string + u32 option" where
  "GetCurrentBlockHeight s = (case s (mkKeyPrefix SYSCurrentBlock) of None \<Rightarrow> Inr None
     | Some b \<Rightarrow> if length b < 36 then Inl ''slice bounds out of range'' else Inr (Some (of_nat (le_nat (take 4 (drop 32 b))))))"

definition StoreHeaderHashes :: "kv \<Rightarrow> hash256 list \<Rightarrow> u32 \<Rightarrow> io_err + kv" where
  "StoreHeaderHashes s hashes height =
    (let buf = WriteArray WriteBytes hashes NewBufBinWriter
     in case w_err buf of Some e \<Rightarrow> Inl e | None \<Rightarrow> Inr (s(mkHeaderHashKey height \<mapsto> w_buf buf)))"

definition GetHeaderHashes :: "kv \<Rightarrow> u32 \<Rightarrow> io_err option + hash256 list" where
  "GetHeaderHashes s height =
    (case s (mkHeaderHashKey height) of None \<Rightarrow> Inl None
     | Some b \<Rightarrow> (let (hs, r) = ReadArray (ReadBytes zero256) None (NewBinReaderFromBuf b)
                  in case r_err r of Some e \<Rightarrow> Inl (Some e) | None \<Rightarrow> Inr (case hs of None \<Rightarrow> [] | Some x \<Rightarrow> x)))"

definition storeHeader :: "kv \<Rightarrow> bytes \<Rightarrow> header \<Rightarrow> io_err + kv" where
  "storeHeader s key h =
    (let buf = WriteB 0 (hd_EncodeBinary h (WriteB ExecBlock NewBufBinWriter))
     in case w_err buf of Some e \<Rightarrow> Inl e | None \<Rightarrow> Inr (s(key \<mapsto> w_buf buf)))"

definition StoreHeader :: "kv \<Rightarrow> header \<Rightarrow> io_err + kv" where
  "StoreHeader s h = storeHeader s (makeExecutableKey (fst (hd_Hash h))) h"

definition PurgeHeader :: "kv \<Rightarrow> hash256 \<Rightarrow> kv" where
  "PurgeHeader s h = s(makeExecutableKey h := None)"

definition getBlock :: "bool \<Rightarrow> kv \<Rightarrow> bytes \<Rightarrow> io_err option + 'g block" where
  "getBlock sre s key =
    (case s key of None \<Rightarrow> Inl None
     | Some b \<Rightarrow> (let (t, r) = ReadB (NewBinReaderFromBuf b)
         in if t \<noteq> ExecBlock then Inl None
            else case NewTrimmedFromReader sre r of (Some e, _, _) \<Rightarrow> Inl (Some e) | (None, Some blk, _) \<Rightarrow> Inr blk | (None, None, _) \<Rightarrow> Inl None))"

definition GetBlock :: "bool \<Rightarrow> kv \<Rightarrow> hash256 \<Rightarrow> io_err option + 'g block" where
  "GetBlock sre s h = getBlock sre s (makeExecutableKey h)"

text \<open>\<open>aers\<close> are the encoders of the execution results that are present. A block whose transactions cannot be hashed panics.\<close>

definition StoreAsBlock :: "('g \<Rightarrow> bin_writer \<Rightarrow> bin_writer) \<Rightarrow> kv \<Rightarrow> 'g block \<Rightarrow> (bin_writer \<Rightarrow> bin_writer) list \<Rightarrow> string + io_err option \<times> kv" where
  "StoreAsBlock genc s b aers =
    (case EncodeTrimmed genc b (WriteB ExecBlock NewBufBinWriter) of None \<Rightarrow> Inl ''failed to compute hash''
     | Some w \<Rightarrow> (let buf = fold (\<lambda>e. e) aers w
         in case w_err buf of Some e \<Rightarrow> Inr (Some e, s) | None \<Rightarrow> Inr (None, s(makeExecutableKey (fst (hd_Hash (Header b))) \<mapsto> w_buf buf))))"

section \<open>Transactions\<close>

text \<open>One \<open>Conflicts\<close> attribute of a stored transaction: the stub under the named hash and a record per signer,
  unless a block has that hash. The type assertion on the attribute's value panics for another type.\<close>

definition store_conflict :: "bytes \<Rightarrow> 'g signer list \<Rightarrow> kv \<Rightarrow> attribute \<Rightarrow> string + kv" where
  "store_conflict val ss s a =
    (case a_Value a of
       Some (Conflicts h) \<Rightarrow>
         (let key = makeExecutableKey h
          in case s key of
               Some exec \<Rightarrow> if 0 < length exec \<and> hd exec \<noteq> ExecTransaction then Inr s
                 else Inr (fold (\<lambda>sg m. m(key @ Account sg \<mapsto> val)) ss (s(key \<mapsto> val)))
             | None \<Rightarrow> Inr (fold (\<lambda>sg m. m(key @ Account sg \<mapsto> val)) ss (s(key \<mapsto> val))))
     | _ \<Rightarrow> Inl ''interface conversion'')"

fun store_conflicts :: "bytes \<Rightarrow> 'g signer list \<Rightarrow> attribute list \<Rightarrow> kv \<Rightarrow> string + kv" where
  "store_conflicts val ss [] s = Inr s"
| "store_conflicts val ss (a # as) s = (case store_conflict val ss s a of Inl e \<Rightarrow> Inl e | Inr s' \<Rightarrow> store_conflicts val ss as s')"

definition StoreAsTransaction ::
  "('g \<Rightarrow> bin_writer \<Rightarrow> bin_writer) \<Rightarrow> kv \<Rightarrow> 'g transaction \<Rightarrow> u32 \<Rightarrow> (bin_writer \<Rightarrow> bin_writer) option \<Rightarrow> string + io_err option \<times> kv" where
  "StoreAsTransaction genc s t index aer =
    (case block_tx_Hash genc t of None \<Rightarrow> Inl ''failed to compute hash''
     | Some h \<Rightarrow>
       (let w1 = tx_EncodeBinary genc t (WriteU32LE index (WriteB ExecTransaction NewBufBinWriter));
            buf = (case aer of None \<Rightarrow> w1 | Some e \<Rightarrow> e w1)
        in case w_err buf of Some e \<Rightarrow> Inr (Some e, s)
           | None \<Rightarrow> (case store_conflicts (take conflictRecordValueLen (w_buf buf)) (Signers t) (GetAttributes t ConflictsT)
                        (s(makeExecutableKey h \<mapsto> w_buf buf)) of Inl p \<Rightarrow> Inl p | Inr s' \<Rightarrow> Inr (None, s'))))"

definition GetTransaction ::
  "('g \<Rightarrow> bin_writer \<Rightarrow> bin_writer) \<Rightarrow> (bin_reader \<Rightarrow> 'g \<times> bin_reader) \<Rightarrow> kv \<Rightarrow> hash256 \<Rightarrow> io_err option + 'g transaction \<times> u32" where
  "GetTransaction genc gdec s h =
    (case s (makeExecutableKey h) of None \<Rightarrow> Inl None
     | Some b \<Rightarrow> if length b < 1 then Inl (Some (BadValue ''bad transaction bytes''))
         else if b ! 0 \<noteq> ExecTransaction then Inl None
         else if length b = conflictRecordValueLen then Inl None
         else let (_, r1) = ReadB (NewBinReaderFromBuf b); (height, r2) = ReadU32LE r1; (t, r3) = tx_DecodeBinary genc gdec r2
         in case r_err r3 of Some e \<Rightarrow> Inl (Some e) | None \<Rightarrow> Inr (t, height))"

datatype dao_err = ErrAlreadyExists | ErrHasConflicts

definition isTraceableBlock :: "bytes \<Rightarrow> u32 \<Rightarrow> u32 \<Rightarrow> string + bool" where
  "isTraceableBlock indexBytes height maxTraceableBlocks =
    (if length indexBytes < 4 then Inl ''index out of range''
     else let index = of_nat (le_nat (take 4 indexBytes)) in Inr (index \<le> height \<and> index + maxTraceableBlocks > height))"

fun conflict_loop :: "kv \<Rightarrow> bytes \<Rightarrow> u32 \<Rightarrow> u32 \<Rightarrow> 'g signer list \<Rightarrow> string + dao_err option" where
  "conflict_loop s key cur mtb [] = Inr None"
| "conflict_loop s key cur mtb (sg # ss) =
    (case s (key @ Account sg) of None \<Rightarrow> conflict_loop s key cur mtb ss
     | Some v \<Rightarrow> (case isTraceableBlock (drop 1 v) cur mtb of Inl p \<Rightarrow> Inl p
         | Inr True \<Rightarrow> Inr (Some ErrHasConflicts) | Inr False \<Rightarrow> conflict_loop s key cur mtb ss))"

definition HasTransaction :: "kv \<Rightarrow> hash256 \<Rightarrow> 'g signer list \<Rightarrow> u32 \<Rightarrow> u32 \<Rightarrow> string + dao_err option" where
  "HasTransaction s h signers cur mtb =
    (let key = makeExecutableKey h
     in case s key of None \<Rightarrow> Inr None
        | Some b \<Rightarrow>
          if length b < conflictRecordValueLen then Inr None
          else if b ! 0 \<noteq> ExecTransaction then Inr None
          else if length b \<noteq> conflictRecordValueLen then Inr (Some ErrAlreadyExists)
          else if length signers = 0 then Inr (Some ErrHasConflicts)
          else case isTraceableBlock (drop 1 b) cur mtb of Inl p \<Rightarrow> Inl p
               | Inr False \<Rightarrow> Inr None | Inr True \<Rightarrow> conflict_loop s key cur mtb signers)"

section \<open>Removal\<close>

text \<open>The record under a hash named by a transaction of the removed block, and those of its signers.\<close>

fun delete_signer_records :: "bytes \<Rightarrow> u32 \<Rightarrow> 'g signer list \<Rightarrow> kv \<Rightarrow> string + (string option \<times> kv)" where
  "delete_signer_records key idx [] s = Inr (None, s)"
| "delete_signer_records key idx (sg # ss) s =
    (case s (key @ Account sg) of None \<Rightarrow> Inr (Some ''failed to retrieve conflict record'', s)
     | Some v \<Rightarrow> if length v < 5 then Inl ''index out of range''
        else delete_signer_records key idx ss (if of_nat (le_nat (take 4 (drop 1 v))) = idx then s(key @ Account sg := None) else s))"

fun delete_conflicts :: "u32 \<Rightarrow> 'g signer list \<Rightarrow> attribute list \<Rightarrow> kv \<Rightarrow> string + (string option \<times> kv)" where
  "delete_conflicts idx ss [] s = Inr (None, s)"
| "delete_conflicts idx ss (a # as) s =
    (case a_Value a of
       Some (Conflicts h) \<Rightarrow>
        (let key = makeExecutableKey h
         in case s key of None \<Rightarrow> Inr (Some ''failed to retrieve conflict record stub'', s)
            | Some v \<Rightarrow> if length v < 1 then Inl ''index out of range''
                else if v ! 0 \<noteq> ExecTransaction then delete_conflicts idx ss as s
                else if length v < 5 then Inl ''index out of range''
                else (case delete_signer_records key idx ss (if of_nat (le_nat (take 4 (drop 1 v))) = idx then s(key := None) else s) of
                        Inl p \<Rightarrow> Inl p | Inr (Some e, s') \<Rightarrow> Inr (Some e, s') | Inr (None, s') \<Rightarrow> delete_conflicts idx ss as s'))
     | _ \<Rightarrow> Inl ''interface conversion'')"

fun delete_txs :: "('g \<Rightarrow> bin_writer \<Rightarrow> bin_writer) \<Rightarrow> u32 \<Rightarrow> 'g transaction list \<Rightarrow> kv \<Rightarrow> string + (string option \<times> kv)" where
  "delete_txs genc idx [] s = Inr (None, s)"
| "delete_txs genc idx (t # ts) s =
    (case block_tx_Hash genc t of None \<Rightarrow> Inl ''failed to compute hash''
     | Some h \<Rightarrow> (case delete_conflicts idx (Signers t) (GetAttributes t ConflictsT) (s(makeExecutableKey h := None)) of
         Inl p \<Rightarrow> Inl p | Inr (Some e, s') \<Rightarrow> Inr (Some e, s') | Inr (None, s') \<Rightarrow> delete_txs genc idx ts s'))"

definition DeleteBlock :: "('g \<Rightarrow> bin_writer \<Rightarrow> bin_writer) \<Rightarrow> bool \<Rightarrow> kv \<Rightarrow> hash256 \<Rightarrow> string + ((string + u64) \<times> kv)" where
  "DeleteBlock genc sre s h =
    (let key = makeExecutableKey h
     in case (getBlock sre s key :: io_err option + 'g block) of Inl e \<Rightarrow> Inr (Inl ''no such block'', s)
        | Inr b \<Rightarrow> (case delete_txs genc (Index (Header b)) (Transactions b) (s(key := None)) of
            Inl p \<Rightarrow> Inl p | Inr (Some e, s') \<Rightarrow> Inr (Inl e, s') | Inr (None, s') \<Rightarrow> Inr (Inr (Timestamp (Header b)), s')))"

section \<open>What the store holds\<close>

lemma version_mask_bits:
  "(version_mask v AND 1 \<noteq> 0) = v_StateRootInHeader v" "(version_mask v AND 2 \<noteq> 0) = P2PSigExtensions v"
  "(version_mask v AND 4 \<noteq> 0) = P2PStateExchangeExtensions v" "(version_mask v AND 8 \<noteq> 0) = KeepOnlyLatestState v"
  "(version_mask v AND 16 \<noteq> 0) = SaveInvocations v"
  by (auto simp: version_mask_def Let_def)

lemma version_round_trip:
  assumes "0 \<notin> set (v_Value v)"
  shows "GetVersion (PutVersion s v) = Inr v"
proof -
  have "takeWhile (\<lambda>c. c \<noteq> 0) (v_Value v @ 0 # x) = v_Value v" for x
    using assms by (simp add: takeWhile_append1 takeWhile_tail) (auto simp: takeWhile_append2 dest: bspec)
  then show ?thesis using version_mask_bits [of v]
    by (simp add: GetVersion_def PutVersion_def version_FromBytes_def version_Bytes_def Let_def nth_append le_nat_nat_le_id empty_version_def
        del: nat_le.simps)
qed

text \<open>The keys that the conflict records of a transaction take: hashes that are not those of a stored block.\<close>

definition is_block_key :: "kv \<Rightarrow> hash256 \<Rightarrow> bool" where
  "is_block_key s h \<longleftrightarrow> (\<exists>x xs. s (makeExecutableKey h) = Some (x # xs) \<and> x \<noteq> ExecTransaction)"

definition named_by :: "attribute list \<Rightarrow> hash256 set" where
  "named_by as = {h. \<exists>a \<in> set as. a_Value a = Some (Conflicts h)}"

definition record_keys :: "'g signer list \<Rightarrow> hash256 set \<Rightarrow> bytes set" where
  "record_keys ss hs = makeExecutableKey ` hs \<union> {makeExecutableKey h @ Account sg |h sg. h \<in> hs \<and> sg \<in> set ss}"

lemma record_keys_Un: "record_keys ss (A \<union> B) = record_keys ss A \<union> record_keys ss B"
  by (auto simp: record_keys_def)

lemma makeExecutableKey_inject [simp]: "makeExecutableKey g = makeExecutableKey h \<longleftrightarrow> g = h"
  by (simp add: makeExecutableKey_def)

lemma fold_record_keys:
  "fold (\<lambda>sg m. m(key @ Account sg \<mapsto> v)) ss s = (\<lambda>k. if \<exists>sg \<in> set ss. k = key @ Account sg then Some v else s k)"
  by (induction ss arbitrary: s) (auto simp: fun_eq_iff)

lemma store_conflict_eq:
  assumes "a_Value a = Some (Conflicts h)"
  shows "store_conflict v ss s a = Inr (\<lambda>k. if \<not> is_block_key s h \<and> k \<in> record_keys ss {h} then Some v else s k)"
proof -
  have r: "fold (\<lambda>sg m. m(makeExecutableKey h @ Account sg \<mapsto> v)) ss (s(makeExecutableKey h \<mapsto> v))
      = (\<lambda>k. if k \<in> record_keys ss {h} then Some v else s k)"
    by (auto simp: fold_record_keys record_keys_def fun_eq_iff)
  show ?thesis
  proof (cases "s (makeExecutableKey h)")
    case None
    then have "\<not> is_block_key s h" by (simp add: is_block_key_def)
    then show ?thesis using assms None r by (simp add: store_conflict_def)
  next
    case (Some e)
    then have "is_block_key s h \<longleftrightarrow> 0 < length e \<and> hd e \<noteq> ExecTransaction" by (cases e) (auto simp: is_block_key_def)
    then show ?thesis using assms Some r by (auto simp: store_conflict_def Let_def fun_eq_iff)
  qed
qed

text \<open>Hashes of 32 bytes and accounts of 20: the key of a record of a signer is no key of a block or transaction.\<close>

lemma record_keys_executable:
  "length h = 32 \<Longrightarrow> \<forall>sg \<in> set ss. length (Account sg) = 20 \<Longrightarrow> \<forall>g \<in> hs. length g = 32
   \<Longrightarrow> makeExecutableKey h \<in> record_keys ss hs \<longleftrightarrow> h \<in> hs"
proof -
  assume l: "length h = 32" "\<forall>sg \<in> set ss. length (Account sg) = 20" "\<forall>g \<in> hs. length g = 32"
  have "makeExecutableKey h \<noteq> makeExecutableKey g @ Account sg" if "g \<in> hs" "sg \<in> set ss" for g sg
  proof
    assume "makeExecutableKey h = makeExecutableKey g @ Account sg"
    then have "length (makeExecutableKey h) = length (makeExecutableKey g @ Account sg)" by simp
    then show False using l that by (simp add: makeExecutableKey_def)
  qed
  then show ?thesis by (auto simp: record_keys_def)
qed

lemma store_conflicts_eq:
  assumes "\<forall>a \<in> set as. \<exists>h. a_Value a = Some (Conflicts h) \<and> length h = 32" "\<forall>sg \<in> set ss. length (Account sg) = 20"
    and "v = ExecTransaction # v'"
  shows "store_conflicts v ss as s = Inr (\<lambda>k. if k \<in> record_keys ss {h \<in> named_by as. \<not> is_block_key s h} then Some v else s k)"
  using assms(1)
proof (induction as arbitrary: s)
  case Nil
  then show ?case by (simp add: named_by_def record_keys_def)
next
  case (Cons a as)
  then obtain h where a: "a_Value a = Some (Conflicts h)" and h: "length h = 32" by auto
  define s1 where "s1 = (\<lambda>k. if \<not> is_block_key s h \<and> k \<in> record_keys ss {h} then Some v else s k)"
  have named: "\<forall>g \<in> named_by as. length g = 32" using Cons.prems by (fastforce simp: named_by_def)
  have same: "is_block_key s1 g = is_block_key s g" if "length g = 32" for g
    using record_keys_executable [OF that assms(2), of "{h}"] h assms(3)
    by (auto simp: is_block_key_def s1_def)
  have "{g \<in> named_by (a # as). \<not> is_block_key s g} = (if is_block_key s h then {} else {h}) \<union> {g \<in> named_by as. \<not> is_block_key s g}"
    using a by (auto simp: named_by_def)
  moreover have "{g \<in> named_by as. \<not> is_block_key s1 g} = {g \<in> named_by as. \<not> is_block_key s g}" using same named by auto
  moreover have "store_conflicts v ss (a # as) s = store_conflicts v ss as s1"
    using store_conflict_eq [OF a, of v ss s] by (simp add: s1_def)
  ultimately show ?case using Cons.IH [of s1] Cons.prems
    by (auto simp: s1_def record_keys_Un fun_eq_iff) (simp_all add: record_keys_def)
qed

lemma attr_conflicts:
  "attr_ok a \<Longrightarrow> a_Type a = ConflictsT \<Longrightarrow> \<exists>h. a_Value a = Some (Conflicts h) \<and> length h = 32"
  by (auto split: option.splits attr_value.splits)

text \<open>An encoder of an execution result that only appends.\<close>

definition appends :: "(bin_writer \<Rightarrow> bin_writer) \<Rightarrow> bool" where
  "appends e \<longleftrightarrow> (\<forall>w. w_err w = None \<longrightarrow> (\<exists>x. e w = w\<lparr>w_buf := w_buf w @ x\<rparr>))"

lemma appendsD: "appends e \<Longrightarrow> w_err w = None \<Longrightarrow> \<exists>x. e w = w\<lparr>w_buf := w_buf w @ x\<rparr>"
  by (simp add: appends_def)

lemma StoreAsTransaction_eq:
  assumes "wire_codec genc gdec gw gv" "in_block_ok gw gv t" "case_option True appends aer"
  shows "\<exists>x. StoreAsTransaction genc s t index aer = Inr (None, \<lambda>k.
      let val = ExecTransaction # nat_le 4 (unat index); s0 = s(makeExecutableKey (tx_hash t) \<mapsto> ExecTransaction # nat_le 4 (unat index) @ tx_wire gw t @ x)
      in if k \<in> record_keys (Signers t) {h \<in> named_by (GetAttributes t ConflictsT). \<not> is_block_key s0 h} then Some val else s0 k)"
proof -
  have ok: "tx_ok gv t" "fields_ok gv t" using assms(2) by (auto simp: in_block_ok_def tx_ok_def)
  let ?w = "tx_EncodeBinary genc t (WriteU32LE index (WriteB ExecTransaction NewBufBinWriter))"
  have w: "?w = \<lparr>w_buf = ExecTransaction # nat_le 4 (unat index) @ tx_wire gw t, w_err = None\<rparr>"
    using tx_EncodeBinary_ok [OF assms(1) ok(1)] by (simp add: WriteU32LE_def WriteB_def NewBufBinWriter_def codec_simps del: nat_le.simps)
  obtain x where x: "(case aer of None \<Rightarrow> ?w | Some e \<Rightarrow> e ?w) = \<lparr>w_buf = (ExecTransaction # nat_le 4 (unat index)) @ tx_wire gw t @ x, w_err = None\<rparr>"
  proof (cases aer)
    case (Some e)
    have "w_err ?w = None" by (simp add: w)
    then obtain y where "e ?w = ?w\<lparr>w_buf := w_buf ?w @ y\<rparr>" using assms(3) Some by (auto simp: appends_def)
    then show ?thesis using that [of y] Some w by simp
  qed (use that [of "[]"] w in simp)
  have c: "\<forall>a \<in> set (GetAttributes t ConflictsT). \<exists>h. a_Value a = Some (Conflicts h) \<and> length h = 32"
    using ok(2) attr_conflicts by (auto simp: fields_ok_def GetAttributes_def simp del: attr_ok.simps)
  have l: "\<forall>sg \<in> set (Signers t). length (Account sg) = 20"
    using ok(2) by (auto simp: fields_ok_def signer_ok_def)
  show ?thesis
    unfolding StoreAsTransaction_def block_tx_Hash_cached [OF assms(2)]
    using x store_conflicts_eq [OF c l refl]
    by (intro exI [of _ x]) (simp add: Let_def conflictRecordValueLen_def del: nat_le.simps)
qed

lemma isTraceable_record:
  "isTraceableBlock (drop 1 (ExecTransaction # nat_le 4 (unat i))) cur mtb = Inr (i \<le> cur \<and> i + mtb > cur)"
  by (simp add: isTraceableBlock_def Let_def le_nat_nat_le_id del: nat_le.simps)

text \<open>No record of a conflicting signer is shorter than \<open>HasTransaction\<close> expects.\<close>

definition records_ok :: "kv \<Rightarrow> bool" where
  "records_ok s \<longleftrightarrow> (\<forall>h a v. s (makeExecutableKey h @ a) = Some v \<longrightarrow> a \<noteq> [] \<longrightarrow> 5 \<le> length v)"

lemma conflict_loop_found:
  assumes "\<forall>sg \<in> set ss. \<forall>v. s (key @ Account sg) = Some v \<longrightarrow> 5 \<le> length v"
    and "sg \<in> set ss" "s (key @ Account sg) = Some v" "isTraceableBlock (drop 1 v) cur mtb = Inr True"
  shows "conflict_loop s key cur mtb ss = Inr (Some ErrHasConflicts)"
  using assms
proof (induction ss)
  case (Cons x xs)
  then show ?case
    by (cases "s (key @ Account x)") (auto simp: isTraceableBlock_def Let_def split: bool.splits if_splits)
qed simp

text \<open>C32. A transaction stored with its block is found again: \<open>GetTransaction\<close> returns it with its height, a second
  transaction with its hash is refused as existing, and, as long as the block is traceable, a transaction whose hash it
  names in a \<open>Conflicts\<close> attribute is refused when they share a signer, unless the named hash is that of a stored block.\<close>

theorem StoreAsTransaction_found:
  assumes "wire_codec genc gdec gw gv" and "in_block_ok gw gv t" and "case_option True appends aer"
    and "records_ok s" and "\<forall>sg \<in> set signers. Account sg \<noteq> []"
  shows "\<exists>s'. StoreAsTransaction genc s t index aer = Inr (None, s')
    \<and> (tx_hash t \<notin> named_by (Attributes t) \<longrightarrow> GetTransaction genc gdec s' (tx_hash t) = Inr (t, index)
         \<and> HasTransaction s' (tx_hash t) signers cur mtb = Inr (Some ErrAlreadyExists))
    \<and> (\<forall>h \<in> named_by (GetAttributes t ConflictsT).
         \<not> is_block_key s h \<and> index \<le> cur \<and> cur < index + mtb \<and> Account ` set signers \<inter> Account ` set (Signers t) \<noteq> {}
         \<longrightarrow> HasTransaction s' h signers cur mtb = Inr (Some ErrHasConflicts))"
proof -
  let ?val = "ExecTransaction # nat_le 4 (unat index)"
  let ?key = "makeExecutableKey (tx_hash t)"
  obtain x where r: "StoreAsTransaction genc s t index aer = Inr (None, \<lambda>k.
      let s0 = s(?key \<mapsto> ExecTransaction # nat_le 4 (unat index) @ tx_wire gw t @ x)
      in if k \<in> record_keys (Signers t) {h \<in> named_by (GetAttributes t ConflictsT). \<not> is_block_key s0 h} then Some ?val else s0 k)"
    using StoreAsTransaction_eq [OF assms(1-3), of s index] unfolding Let_def by blast
  define s0 where "s0 = s(?key \<mapsto> ExecTransaction # nat_le 4 (unat index) @ tx_wire gw t @ x)"
  define hs where "hs = {h \<in> named_by (GetAttributes t ConflictsT). \<not> is_block_key s0 h}"
  define s' where "s' = (\<lambda>k. if k \<in> record_keys (Signers t) hs then Some ?val else s0 k)"
  have ok: "tx_ok gv t" "fields_ok gv t" "length (tx_hash t) = 32" using assms(2) by (auto simp: in_block_ok_def tx_ok_def tx_cached_def)
  have l: "\<forall>sg \<in> set (Signers t). length (Account sg) = 20" using ok(2) by (auto simp: fields_ok_def signer_ok_def)
  have l2: "\<forall>h \<in> hs. length h = 32"
    using ok(2) attr_conflicts by (fastforce simp: fields_ok_def hs_def named_by_def GetAttributes_def simp del: attr_ok.simps)
  have ne: "length (tx_wire gw t) > 0" by (simp add: tx_wire_defs wire_defs)
  have "GetTransaction genc gdec s' (tx_hash t) = Inr (t, index) \<and> HasTransaction s' (tx_hash t) signers cur mtb = Inr (Some ErrAlreadyExists)"
    if "tx_hash t \<notin> named_by (Attributes t)"
  proof -
    have "tx_hash t \<notin> hs" using that by (auto simp: hs_def named_by_def GetAttributes_def)
    then have own: "s' ?key = Some (?val @ tx_wire gw t @ x)"
      using record_keys_executable [OF ok(3) l l2] by (simp add: s'_def s0_def)
    then have "GetTransaction genc gdec s' (tx_hash t) = Inr (t, index)"
      using ne tx_DecodeBinary_wire [OF assms(1,2)]
      by (simp add: GetTransaction_def conflictRecordValueLen_def NewBinReaderFromBuf_def codec_simps del: nat_le.simps)
    moreover have "HasTransaction s' (tx_hash t) signers cur mtb = Inr (Some ErrAlreadyExists)"
      using own ne by (simp add: HasTransaction_def conflictRecordValueLen_def Let_def del: nat_le.simps)
    ultimately show ?thesis ..
  qed
  moreover have "HasTransaction s' h signers cur mtb = Inr (Some ErrHasConflicts)"
    if h: "h \<in> named_by (GetAttributes t ConflictsT)" "\<not> is_block_key s h" and tr: "index \<le> cur" "cur < index + mtb"
      and sh: "Account ` set signers \<inter> Account ` set (Signers t) \<noteq> {}" for h
  proof -
    have hs: "h \<in> hs" using h by (auto simp: hs_def is_block_key_def s0_def)
    obtain sg where sg: "sg \<in> set signers" "Account sg \<in> Account ` set (Signers t)" using sh by auto
    then have "s' (makeExecutableKey h) = Some ?val" "s' (makeExecutableKey h @ Account sg) = Some ?val"
      using hs by (auto simp: s'_def record_keys_def)
    moreover have "\<forall>sg \<in> set signers. \<forall>v. s' (makeExecutableKey h @ Account sg) = Some v \<longrightarrow> 5 \<le> length v"
      using assms(4,5) by (auto simp: s'_def s0_def records_ok_def simp del: nat_le.simps split: if_splits)
    ultimately have "conflict_loop s' (makeExecutableKey h) cur mtb signers = Inr (Some ErrHasConflicts)"
      using tr isTraceable_record [of index cur mtb] by (intro conflict_loop_found [OF _ sg(1), where v = ?val]) simp_all
    then show ?thesis using \<open>s' (makeExecutableKey h) = Some ?val\<close> tr sg(1) isTraceable_record [of index cur mtb]
      by (auto simp: HasTransaction_def conflictRecordValueLen_def Let_def simp del: nat_le.simps)
  qed
  ultimately show ?thesis using r unfolding Let_def s0_def [symmetric] hs_def [symmetric] s'_def [symmetric] by blast
qed

definition conflicting_base :: "u64 transaction" where
  "conflicting_base = base_tx\<lparr>Attributes := [\<lparr>a_Type = ConflictsT, a_Value = Some (Conflicts (replicate 32 0))\<rparr>]\<rparr>"

definition conflicting_tx :: "u64 transaction" where
  "conflicting_tx = conflicting_base\<lparr>tx_hash := Sha256 (hashable_wire key_wire conflicting_base), tx_hashed := True,
     tx_size := length (tx_wire key_wire conflicting_base)\<rparr>"

lemma conflicting_tx_ok: "in_block_ok key_wire (\<lambda>_. True) conflicting_tx"
  by (simp add: in_block_ok_def tx_ok_def fields_ok_def isValid_def conflicting_tx_def conflicting_base_def base_tx_def empty_tx_def
      signer_ok_def scopes_ok_def sublist_ok_def scope_defs MaxAttributes_def MaxScriptLength_def witness_ok_def tx_cached_def
      wire_defs tx_wire_def tx_form_def allowMultiple_def del: nat_le.simps)

theorem StoreAsTransaction_found_witness:
  "\<exists>s'. StoreAsTransaction WriteU64LE Map.empty conflicting_tx 5 None = Inr (None, s')
    \<and> HasTransaction s' (replicate 32 0) (Signers conflicting_tx) 9 100 = Inr (Some ErrHasConflicts)"
proof -
  have n: "replicate 32 0 \<in> named_by (GetAttributes conflicting_tx ConflictsT)"
    by (simp add: named_by_def GetAttributes_def conflicting_tx_def conflicting_base_def del: replicate.simps)
  have a: "\<forall>sg \<in> set (Signers conflicting_tx). Account sg \<noteq> []" "set (Signers conflicting_tx) \<noteq> {}"
    by (simp_all add: conflicting_tx_def conflicting_base_def base_tx_def)
  show ?thesis
    using StoreAsTransaction_found [OF key_codec conflicting_tx_ok, of None Map.empty "Signers conflicting_tx" 5 9 100] n a
    by (auto simp: records_ok_def is_block_key_def)
qed

section \<open>Blocks\<close>

text \<open>The transactions of a block read from the store are trimmed: they have a hash and nothing else.\<close>

lemma getBlock_trimmed:
  "getBlock sre s key = Inr b \<Longrightarrow> \<exists>hs. Transactions b = map NewTrimmedTX hs"
  by (auto simp: getBlock_def NewTrimmedFromReader_def Let_def split: option.splits prod.splits if_splits)

lemma delete_txs_trimmed:
  "delete_txs genc idx (map NewTrimmedTX hs) s = Inr (None, \<lambda>k. if k \<in> makeExecutableKey ` set hs then None else s k)"
  by (induction hs arbitrary: s)
    (auto simp: block_tx_Hash_def NewTrimmedTX_def empty_tx_def GetAttributes_def fun_eq_iff)

lemma map_tx_hash_trimmed: "map tx_hash (map NewTrimmedTX hs) = hs"
  by (induction hs) (simp_all add: NewTrimmedTX_def)

text \<open>C33. \<open>DeleteBlock\<close> removes the block and the records of its transactions, and nothing else: since a block is read
  back with trimmed transactions, which have no attributes, the records of the hashes its transactions conflict with
  stay in the store, although the code goes on to delete them.\<close>

theorem DeleteBlock_leaves_conflict_records:
  fixes b :: "'g block" and genc :: "'g \<Rightarrow> bin_writer \<Rightarrow> bin_writer"
  assumes "getBlock sre s (makeExecutableKey h) = Inr b"
  shows "DeleteBlock genc sre s h = Inr (Inr (Timestamp (Header b)),
    \<lambda>k. if k \<in> makeExecutableKey ` insert h (set (map tx_hash (Transactions b))) then None else s k)"
proof -
  obtain hs where hs: "Transactions b = map NewTrimmedTX hs" using getBlock_trimmed [OF assms] by blast
  then have set: "map tx_hash (Transactions b) = hs" by (simp only: map_tx_hash_trimmed)
  have "delete_txs genc i (Transactions b) x = Inr (None, \<lambda>k. if k \<in> makeExecutableKey ` set hs then None else x k)" for i x
    unfolding hs by (rule delete_txs_trimmed)
  then show ?thesis using assms by (auto simp: DeleteBlock_def Let_def set fun_eq_iff simp del: list.set_map)
qed

lemma StoreAsBlock_GetBlock:
  assumes "block_ok gw gv b" and "\<forall>e \<in> set aers. appends e" and "sre = StateRootEnabled (Header b)"
  shows "\<exists>s'. StoreAsBlock genc s b aers = Inr (None, s') \<and> (\<forall>k. k \<noteq> makeExecutableKey (fst (hd_Hash (Header b))) \<longrightarrow> s' k = s k)
    \<and> GetBlock sre s' (fst (hd_Hash (Header b)))
      = Inr \<lparr>Header = header_fields (Header b), Transactions = map (NewTrimmedTX \<circ> tx_hash) (Transactions b), b_Trimmed = True\<rparr>"
proof -
  have app: "\<exists>x. fold (\<lambda>e. e) aers w = w\<lparr>w_buf := w_buf w @ x\<rparr>" if "w_err w = None" for w
    using assms(2) that
  proof (induction aers arbitrary: w)
    case (Cons e aers)
    then obtain x where "e w = w\<lparr>w_buf := w_buf w @ x\<rparr>" using appendsD [of e w] by auto
    then show ?case using Cons.IH [of "w\<lparr>w_buf := w_buf w @ x\<rparr>"] Cons.prems by auto
  qed (intro exI [of _ "[]"], simp)
  let ?w = "\<lparr>w_buf = ExecBlock # trimmed_wire b, w_err = None\<rparr>"
  obtain x where x: "fold (\<lambda>e. e) aers ?w = ?w\<lparr>w_buf := w_buf ?w @ x\<rparr>" using app [of ?w] by auto
  have "EncodeTrimmed genc b (WriteB ExecBlock NewBufBinWriter) = Some ?w"
    using EncodeTrimmed_ok [OF assms(1)] by (simp add: WriteB_def NewBufBinWriter_def codec_simps)
  then have "StoreAsBlock genc s b aers = Inr (None, s(makeExecutableKey (fst (hd_Hash (Header b))) \<mapsto> ExecBlock # trimmed_wire b @ x))"
    using x by (simp add: StoreAsBlock_def)
  then show ?thesis
    by (simp add: GetBlock_def getBlock_def NewBinReaderFromBuf_def codec_simps NewTrimmedFromReader_wire [OF assms(1,3)])
qed

definition conflicting_block :: "u64 block" where
  "conflicting_block = (New_block False)\<lparr>Transactions := [conflicting_tx]\<rparr>"

lemma conflicting_block_ok: "block_ok key_wire (\<lambda>_. True) conflicting_block"
  using conflicting_tx_ok
  by (simp add: block_ok_def conflicting_block_def New_block_def header_ok_def new_Header_def zero256_def witness_ok_def MaxTransactionsPerBlock_def)

theorem DeleteBlock_leaves_conflict_records_witness:
  "let rec = makeExecutableKey (replicate 32 7) @ replicate 20 1; h = fst (hd_Hash (Header conflicting_block))
   in \<exists>s s'. StoreAsBlock WriteU64LE [rec \<mapsto> [ExecTransaction, 5, 0, 0, 0]] conflicting_block [] = Inr (None, s)
     \<and> DeleteBlock WriteU64LE False s h = Inr (Inr 0, s') \<and> s' (makeExecutableKey h) = None \<and> s' rec = Some [ExecTransaction, 5, 0, 0, 0]"
proof -
  let ?rec = "makeExecutableKey (replicate 32 7) @ replicate 20 1"
  let ?h = "fst (hd_Hash (Header conflicting_block))"
  let ?b = "\<lparr>Header = header_fields (Header conflicting_block), Transactions = map (NewTrimmedTX \<circ> tx_hash) (Transactions conflicting_block), b_Trimmed = True\<rparr> :: u64 block"
  have sr: "StateRootEnabled (Header conflicting_block) = False" by (simp add: conflicting_block_def New_block_def new_Header_def)
  obtain s where s: "StoreAsBlock WriteU64LE [?rec \<mapsto> [ExecTransaction, 5, 0, 0, 0]] conflicting_block [] = Inr (None, s)"
    "\<forall>k. k \<noteq> makeExecutableKey ?h \<longrightarrow> s k = [?rec \<mapsto> [ExecTransaction, 5, 0, 0, 0]] k" "GetBlock False s ?h = Inr ?b"
    using StoreAsBlock_GetBlock [OF conflicting_block_ok, of "[]" False WriteU64LE "[?rec \<mapsto> [ExecTransaction, 5, 0, 0, 0]]"] sr by auto
  have len: "?rec \<noteq> makeExecutableKey g" if "length g = 32" for g
  proof
    assume "?rec = makeExecutableKey g"
    then have "length ?rec = length (makeExecutableKey g)" by simp
    then show False using that by (simp add: makeExecutableKey_def)
  qed
  have "length ?h = 32" by (simp add: hd_Hash_def hd_createHash_def conflicting_block_def New_block_def new_Header_def zero256_def Let_def)
  moreover have "length (tx_hash conflicting_tx) = 32" by (simp add: conflicting_tx_def)
  ultimately have "?rec \<notin> makeExecutableKey ` insert ?h (set (map tx_hash (Transactions ?b)))"
    using len by (auto simp: conflicting_block_def NewTrimmedTX_def)
  then show ?thesis
    using s DeleteBlock_leaves_conflict_records [of False s ?h ?b WriteU64LE] len [OF \<open>length ?h = 32\<close>]
    by (auto simp: GetBlock_def Let_def header_fields_def conflicting_block_def New_block_def new_Header_def)
qed

end
