(* ===== verification/HeaderHashes.thy ===== *)
theory HeaderHashes
  imports Dao
begin

text \<open>
  The list of header hashes: \<open>pkg/core/headerhashes.go\<close>. Hashes are kept in pages of 2000: the page that is being
  filled and the one before it in memory, all full pages in the store and, through an LRU cache, in memory.
  The cache comes from another package: \<open>evict\<close> is what it drops when a page is added.
\<close>

section \<open>Operations\<close>

definition headerBatchCount :: nat where "headerBatchCount = 2000"

record header_hashes =
  hh_dao :: kv
  latest :: "hash256 list"
  previous :: "hash256 list"
  storedHeaderCount :: u32
  hh_cache :: "u32 \<rightharpoonup> hash256 list"

type_synonym eviction = "(u32 \<rightharpoonup> hash256 list) \<Rightarrow> (u32 \<rightharpoonup> hash256 list)"

record hash_index =
  hi_Hash :: hash256
  hi_Index :: u32

definition lastHeaderIndex :: "header_hashes \<Rightarrow> u32" where
  "lastHeaderIndex h = storedHeaderCount h + of_nat (length (latest h)) - 1"

definition HeaderHeight :: "header_hashes \<Rightarrow> u32" where
  "HeaderHeight h = lastHeaderIndex h"

text \<open>\<open>tryStoreBatch\<close> writes to the store it is given, which need not be the one of \<open>h\<close>.\<close>

definition tryStoreBatch :: "header_hashes \<Rightarrow> kv \<Rightarrow> io_err option \<times> header_hashes \<times> kv" where
  "tryStoreBatch h d =
    (if length (latest h) = headerBatchCount
     then case StoreHeaderHashes d (latest h) (storedHeaderCount h) of
            Inl e \<Rightarrow> (Some e, h, d)
          | Inr d' \<Rightarrow> (None, h\<lparr>previous := take (length (previous h)) (latest h) @ drop (length (latest h)) (previous h),
                              latest := [], storedHeaderCount := storedHeaderCount h + of_nat headerBatchCount\<rparr>, d')
     else (None, h, d))"

text \<open>The loop of \<open>addHeaders\<close>: the headers go to \<open>batch\<close>, a private layer over the store.\<close>

fun add_loop :: "header_hashes \<Rightarrow> kv \<Rightarrow> header option \<Rightarrow> header list \<Rightarrow> io_err option \<times> header_hashes \<times> kv \<times> header option" where
  "add_loop h batch lst [] = (None, h, batch, lst)"
| "add_loop h batch lst (x # hds) =
    (if Index x \<noteq> lastHeaderIndex h + 1 then add_loop h batch lst hds
     else case StoreHeader batch x of
            Inl e \<Rightarrow> (Some e, h, batch, lst)
          | Inr b1 \<Rightarrow>
            (case tryStoreBatch (h\<lparr>latest := latest h @ [fst (hd_Hash x)]\<rparr>) b1 of
               (Some e, h', b2) \<Rightarrow> (Some e, h', b2, Some x)
             | (None, h', b2) \<Rightarrow> add_loop h' b2 (Some x) hds))"

definition hh_addHeaders :: "header_hashes \<Rightarrow> header list \<Rightarrow> io_err option \<times> header_hashes" where
  "hh_addHeaders h headers =
    (case add_loop h (hh_dao h) None headers of
       (Some e, h', _, _) \<Rightarrow> (Some e, h')
     | (None, h', _, None) \<Rightarrow> (None, h')
     | (None, h', batch, Some l) \<Rightarrow> (None, h'\<lparr>hh_dao := PutCurrentHeader batch (fst (hd_Hash l)) (Index l)\<rparr>))"

definition CurrentHeaderHash :: "header_hashes \<Rightarrow> string + hash256" where
  "CurrentHeaderHash h =
    (if 0 < length (latest h) then Inr (last (latest h))
     else if previous h = [] then Inl ''index out of range'' else Inr (last (previous h)))"

text \<open>\<open>Inl\<close> is an index out of range, which panics.\<close>

definition getLocalHeaderHash :: "header_hashes \<Rightarrow> u32 \<Rightarrow> string + hash256 option" where
  "getLocalHeaderHash h i =
    (if lastHeaderIndex h < i then Inr None
     else if storedHeaderCount h \<le> i
     then (let j = unat (i - storedHeaderCount h) in if j < length (latest h) then Inr (Some (latest h ! j)) else Inl ''index out of range'')
     else let previousStored = storedHeaderCount h - of_nat headerBatchCount
     in if previousStored \<le> i
        then (let j = unat (i - previousStored) in if j < length (previous h) then Inr (Some (previous h ! j)) else Inl ''index out of range'')
        else Inr None)"

definition GetHeaderHash :: "eviction \<Rightarrow> header_hashes \<Rightarrow> u32 \<Rightarrow> string + hash256 \<times> header_hashes" where
  "GetHeaderHash evict h i =
    (case getLocalHeaderHash h i of Inl p \<Rightarrow> Inl p
     | Inr (Some res) \<Rightarrow> Inr (res, h)
     | Inr None \<Rightarrow>
       (let page = of_nat (unat i div headerBatchCount * headerBatchCount); j = unat (i - page)
        in case hh_cache h page of
             Some hashes \<Rightarrow> if j < length hashes then Inr (hashes ! j, h) else Inl ''index out of range''
           | None \<Rightarrow>
             (case GetHeaderHashes (hh_dao h) page of Inl _ \<Rightarrow> Inr (zero256, h)
              | Inr hashes \<Rightarrow> if j < length hashes then Inr (hashes ! j, h\<lparr>hh_cache := evict ((hh_cache h)(page \<mapsto> hashes))\<rparr>)
                              else Inl ''index out of range'')))"

primrec recent_loop :: "header_hashes \<Rightarrow> hash256 \<Rightarrow> nat \<Rightarrow> string + bool" where
  "recent_loop h hash 0 = Inr False"
| "recent_loop h hash (Suc i) =
    (case getLocalHeaderHash h (of_nat (Suc i)) of Inl p \<Rightarrow> Inl p
     | Inr (Some lh) \<Rightarrow> if hash = lh then Inr True else recent_loop h hash i
     | Inr None \<Rightarrow> recent_loop h hash i)"

definition haveRecentHash :: "header_hashes \<Rightarrow> hash256 \<Rightarrow> u32 \<Rightarrow> string + bool" where
  "haveRecentHash h hash i = recent_loop h hash (unat i)"

section \<open>Start\<close>

definition initMinTrustedHeader :: "kv \<Rightarrow> hash_index \<Rightarrow> header_hashes" where
  "initMinTrustedHeader dao trusted =
    (let (idx, th) = (if 0 < hi_Index trusted then (hi_Index trusted - 1, zero256) else (hi_Index trusted, hi_Hash trusted));
         dao1 = PutCurrentHeader dao th idx;
         h = \<lparr>hh_dao = dao1, latest = replicate (unat idx mod headerBatchCount) zero256 @ [th], previous = replicate headerBatchCount zero256,
              storedHeaderCount = of_nat (unat idx div headerBatchCount * headerBatchCount), hh_cache = Map.empty\<rparr>;
         (_, h', dao2) = tryStoreBatch h dao1
     in h'\<lparr>hh_dao := dao2\<rparr>)"

text \<open>The walk from the current header back to \<open>target\<close>; it may not end, so it takes fuel, and \<open>Inr None\<close> is running out of it.\<close>

fun walk_back :: "nat \<Rightarrow> bool \<Rightarrow> kv \<Rightarrow> hash256 \<Rightarrow> hash256 \<Rightarrow> hash256 list \<Rightarrow> string + hash256 list option" where
  "walk_back fuel sre dao h target acc =
    (if h = target then Inr (Some acc)
     else case fuel of 0 \<Rightarrow> Inr None
        | Suc fuel' \<Rightarrow> (case (GetBlock sre dao h :: io_err option + unit block) of
            Inl e \<Rightarrow> Inl ''could not get header''
          | Inr blk \<Rightarrow> walk_back fuel' sre dao (PrevHash (Header blk)) target (acc @ [fst (hd_Hash (Header blk))])))"

declare walk_back.simps [simp del]

definition hh_init :: "nat \<Rightarrow> bool \<Rightarrow> kv \<Rightarrow> hash_index \<Rightarrow> string + header_hashes option" where
  "hh_init fuel sre dao trusted =
    (case GetCurrentHeaderHeight dao of Inl p \<Rightarrow> Inl p
     | Inr None \<Rightarrow> Inl ''failed to retrieve current header info''
     | Inr (Some (curHeight, curHash)) \<Rightarrow>
       if curHeight < hi_Index trusted then Inr (Some (initMinTrustedHeader dao trusted))
       else
       (let N = headerBatchCount;
            stored = (of_nat ((unat (curHeight + 1)) div N * N) :: u32);
            missing = (of_nat ((unat (hi_Index trusted + 1)) div N * N) :: u32);
            prev = (if of_nat N \<le> stored \<and> ((missing < stored \<and> of_nat N \<le> stored - missing) \<or> unat curHeight mod N \<noteq> unat (hi_Index trusted) mod N)
                    then GetHeaderHashes dao (stored - of_nat N) else Inr (replicate N zero256))
        in case prev of Inl _ \<Rightarrow> Inl ''failed to retrieve header hash page''
           | Inr previous0 \<Rightarrow>
             (let h = \<lparr>hh_dao = dao, latest = [], previous = previous0, storedHeaderCount = stored, hh_cache = Map.empty\<rparr>
              in if of_nat N \<le> stored \<and> previous0 = [] \<and> stored \<le> curHeight then Inl ''index out of range''
                 else if stored \<le> curHeight
                 then let target0 = (if of_nat N \<le> stored then last previous0 else zero256);
                          padLeft = (target0 = zero256 \<and> 0 < hi_Index trusted);
                          target = (if padLeft then hi_Hash trusted else target0)
                      in (case walk_back fuel sre dao curHash target [] of Inl e \<Rightarrow> Inl e | Inr None \<Rightarrow> Inr None
                          | Inr (Some back) \<Rightarrow>
                            (let headers = rev back; pad = unat (curHeight - of_nat (length headers))
                             in if padLeft
                                then (if N < pad then Inl ''slice bounds out of range''
                                      else Inr (Some (h\<lparr>latest := replicate pad zero256 @ [hi_Hash trusted] @ headers\<rparr>)))
                                else Inr (Some (h\<lparr>latest := headers\<rparr>))))
                 else Inr (Some h))))"

section \<open>The list of all hashes\<close>

text \<open>\<open>H\<close> is the list of all header hashes from the genesis on.\<close>

definition page_of :: "hash256 list \<Rightarrow> nat \<Rightarrow> hash256 list" where
  "page_of H p = take headerBatchCount (drop (p * headerBatchCount) H)"

definition stored_of :: "hash256 list \<Rightarrow> nat" where
  "stored_of H = length H div headerBatchCount * headerBatchCount"

definition pages_ok :: "kv \<Rightarrow> hash256 list \<Rightarrow> bool" where
  "pages_ok d H \<longleftrightarrow> (\<forall>p. p * headerBatchCount < 2 ^ 32 \<longrightarrow>
     GetHeaderHashes d (of_nat (p * headerBatchCount))
       = (if p < length H div headerBatchCount then Inr (page_of H p) else Inl None))"

definition cache_ok :: "kv \<Rightarrow> (u32 \<rightharpoonup> hash256 list) \<Rightarrow> bool" where
  "cache_ok d c \<longleftrightarrow> (\<forall>k hs. c k = Some hs \<longrightarrow> GetHeaderHashes d k = Inr hs)"

definition hh_inv :: "hash256 list \<Rightarrow> header_hashes \<Rightarrow> bool" where
  "hh_inv H h \<longleftrightarrow> H \<noteq> [] \<and> length H < 2 ^ 32 \<and> (\<forall>x \<in> set H. length x = 32)
     \<and> storedHeaderCount h = of_nat (stored_of H) \<and> latest h = drop (stored_of H) H
     \<and> length (previous h) = headerBatchCount
     \<and> (headerBatchCount \<le> length H \<longrightarrow> previous h = page_of H (length H div headerBatchCount - 1))
     \<and> pages_ok (hh_dao h) H
     \<and> cache_ok (hh_dao h) (hh_cache h)"

lemma hbc [simp]: "headerBatchCount = 2000"
  by (simp add: headerBatchCount_def)

lemma stored_le: "stored_of H \<le> length H" "length H < stored_of H + 2000"
  unfolding stored_of_def hbc by (simp_all add: dividend_less_times_div mult.commute)

lemma lastHeaderIndex_eq:
  assumes "hh_inv H h"
  shows "lastHeaderIndex h = of_nat (length H - 1)" "unat (lastHeaderIndex h) = length H - 1"
    "lastHeaderIndex h + 1 = of_nat (length H)"
proof -
  have H: "H \<noteq> []" "length H < 2 ^ 32" using assms by (simp_all add: hh_inv_def)
  have "storedHeaderCount h + of_nat (length (latest h)) = (of_nat (stored_of H + (length H - stored_of H)) :: u32)"
    using assms by (simp add: hh_inv_def)
  then have "storedHeaderCount h + of_nat (length (latest h)) = (of_nat (length H) :: u32)" using stored_le(1) [of H] by simp
  then show e: "lastHeaderIndex h = of_nat (length H - 1)" "lastHeaderIndex h + 1 = of_nat (length H)"
    using H(1) by (simp_all add: lastHeaderIndex_def of_nat_diff Suc_leI)
  then show "unat (lastHeaderIndex h) = length H - 1" using H(2) by (simp add: unat_of_nat)
qed

lemma unat_u32: "unat (i :: u32) < 2 ^ 32"
  by (rule order_less_le_trans [OF unsigned_less]) simp

lemma unat_small: "n < 2 ^ 32 \<Longrightarrow> unat (of_nat n :: u32) = n"
  by (simp add: unat_of_nat)

lemma u32_le: "n < 2 ^ 32 \<Longrightarrow> of_nat n \<le> (i :: u32) \<longleftrightarrow> n \<le> unat i"
  by (simp add: word_le_nat_alt unat_small)

lemma u32_sub: "n < 2 ^ 32 \<Longrightarrow> n \<le> unat i \<Longrightarrow> unat (i - of_nat n :: u32) = unat i - n"
  by (simp add: unat_sub_if' unat_small word_le_nat_alt)

lemma page_nth:
  assumes "i < length H" "i div 2000 = p"
  shows "i - p * 2000 < length (page_of H p)" "page_of H p ! (i - p * 2000) = H ! i"
proof -
  have "p * 2000 \<le> i" "i < p * 2000 + 2000" using assms(2) by (auto simp: dividend_less_div_times)
  then show "i - p * 2000 < length (page_of H p)" "page_of H p ! (i - p * 2000) = H ! i"
    using assms(1) by (auto simp: page_of_def)
qed

lemma getLocalHeaderHash_eq:
  assumes "hh_inv H h"
  shows "getLocalHeaderHash h i = Inr (if unat i < length H \<and> stored_of H \<le> unat i + 2000 then Some (H ! unat i) else None)"
proof -
  have H: "H \<noteq> []" "length H < 2 ^ 32" and st: "storedHeaderCount h = of_nat (stored_of H)" and lt: "latest h = drop (stored_of H) H"
    using assms by (simp_all add: hh_inv_def)
  have sm: "stored_of H < 2 ^ 32" using H(2) stored_le(1) [of H] by linarith
  have last: "lastHeaderIndex h < i \<longleftrightarrow> length H \<le> unat i"
    using lastHeaderIndex_eq(2) [OF assms] H(1) by (cases H) (auto simp: word_less_nat_alt)
  have ge: "storedHeaderCount h \<le> i \<longleftrightarrow> stored_of H \<le> unat i" using u32_le [OF sm, of i] by (simp add: st)
  show ?thesis
  proof (cases "unat i < length H")
    case False then show ?thesis by (simp add: getLocalHeaderHash_def last)
  next
    case lt_len: True
    show ?thesis
    proof (cases "stored_of H \<le> unat i")
      case True
      then have "unat (i - storedHeaderCount h) = unat i - stored_of H" using u32_sub [OF sm] st by simp
      then show ?thesis using True lt_len ge last lt by (simp add: getLocalHeaderHash_def Let_def)
    next
      case False
      then have pos: "2000 \<le> stored_of H" unfolding stored_of_def hbc by (cases "length H div 2000") auto
      then have ps: "storedHeaderCount h - of_nat headerBatchCount = of_nat (stored_of H - 2000)" by (simp add: st of_nat_diff)
      have sm': "stored_of H - 2000 < 2 ^ 32" using sm by linarith
      have pv: "previous h = page_of H (length H div 2000 - 1)"
        using assms pos stored_le(1) [of H] by (simp add: hh_inv_def)
      show ?thesis
      proof (cases "stored_of H - 2000 \<le> unat i")
        case True
        have base: "(length H div 2000 - 1) * 2000 = stored_of H - 2000" by (simp add: stored_of_def diff_mult_distrib)
        have dv: "unat i div 2000 = length H div 2000 - 1"
          using True False pos base by (intro div_nat_eqI) (auto simp: base)
        have e: "unat i - (length H div 2000 - 1) * 2000 = unat i + 2000 - stored_of H" using base pos True by linarith
        have "stored_of H \<le> unat i + 2000" using True by linarith
        then show ?thesis
          using page_nth [OF lt_len dv, unfolded e] u32_sub [OF sm' True] True False pos lt_len ge last ps u32_le [OF sm', of i]
          by (simp add: getLocalHeaderHash_def Let_def pv)
      next
        case nomem: False
        then show ?thesis using False lt_len ge last ps u32_le [OF sm', of i] pos by (simp add: getLocalHeaderHash_def Let_def)
      qed
    qed
  qed
qed


lemma page_codec:
  assumes "length hs \<le> MaxArraySize" "\<forall>x \<in> set hs. length x = 32"
  shows "StoreHeaderHashes d hs i = Inr (d(mkHeaderHashKey i \<mapsto> PutVarUint (of_nat (length hs)) @ concat hs))"
    "d (mkHeaderHashKey i) = Some (PutVarUint (of_nat (length hs)) @ concat hs) \<Longrightarrow> GetHeaderHashes d i = Inr hs"
proof -
  note enc = wire_codec.array_enc_ok [OF fixed_bytes.wire_codec_axioms [of 32] assms(2)]
  show "StoreHeaderHashes d hs i = Inr (d(mkHeaderHashKey i \<mapsto> PutVarUint (of_nat (length hs)) @ concat hs))"
    using enc [of NewBufBinWriter] by (simp add: StoreHeaderHashes_def NewBufBinWriter_def)
  have n: "length hs \<le> max_size None" "length hs < 2 ^ 64" using assms(1) by (simp_all add: max_size_def MaxArraySize_def)
  show "GetHeaderHashes d i = Inr hs" if "d (mkHeaderHashKey i) = Some (PutVarUint (of_nat (length hs)) @ concat hs)"
    using wire_codec.array_dec_ok [OF fixed_bytes.wire_codec_axioms [of 32] assms(2) n, of "[]"] that
    by (simp add: GetHeaderHashes_def NewBinReaderFromBuf_def zero256_def)
qed

lemma mkHeaderHashKey_inject [simp]: "mkHeaderHashKey i = mkHeaderHashKey j \<longleftrightarrow> i = j"
proof
  assume "mkHeaderHashKey i = mkHeaderHashKey j"
  then have "nat_le 4 (unat i) = nat_le 4 (unat j)" by (simp add: mkHeaderHashKey_def del: nat_le.simps)
  then have "le_nat (nat_le 4 (unat i)) = le_nat (nat_le 4 (unat j))" by simp
  then show "i = j" by (simp add: le_nat_nat_le_id word_unat_eq_iff del: nat_le.simps)
qed simp

lemma GetHeaderHashes_frame:
  "k \<noteq> mkHeaderHashKey i \<Longrightarrow> GetHeaderHashes (d(k := v)) i = GetHeaderHashes d i"
  by (simp add: GetHeaderHashes_def)

lemma other_keys [simp]: "makeExecutableKey g \<noteq> mkHeaderHashKey i" "mkKeyPrefix SYSCurrentHeader \<noteq> mkHeaderHashKey i"
  by (simp_all add: makeExecutableKey_def mkHeaderHashKey_def mkKeyPrefix_def prefix_defs)

lemma pages_ok_cong:
  "(\<And>i. GetHeaderHashes d' i = GetHeaderHashes d i) \<Longrightarrow> pages_ok d' H = pages_ok d H"
  by (simp add: pages_ok_def)

lemma cache_add:
  "cache_ok d c \<Longrightarrow> GetHeaderHashes d k = Inr hs \<Longrightarrow> m \<subseteq>\<^sub>m c(k \<mapsto> hs) \<Longrightarrow> cache_ok d m"
  unfolding cache_ok_def map_le_def dom_def by (metis (mono_tags, lifting) fun_upd_apply mem_Collect_eq option.distinct(1) option.inject)

lemma GetHeaderHash_eq:
  assumes "hh_inv H h" "\<And>m. evict m \<subseteq>\<^sub>m m"
  shows "\<exists>h'. GetHeaderHash evict h i = Inr (if unat i < length H then H ! unat i else zero256, h') \<and> hh_inv H h'"
proof (cases "unat i < length H \<and> stored_of H \<le> unat i + 2000")
  case True
  then show ?thesis using getLocalHeaderHash_eq [OF assms(1), of i] assms(1) by (simp add: GetHeaderHash_def)
next
  case False
  define p where "p = unat i div 2000"
  have pi: "p * 2000 \<le> unat i" by (simp add: p_def)
  have lt: "p * 2000 < 2 ^ 32" using pi unat_u32 [of i] by linarith
  have j: "unat (i - of_nat (p * 2000)) = unat i - p * 2000" by (rule u32_sub [OF lt pi])
  have pg: "GetHeaderHashes (hh_dao h) (of_nat (p * 2000)) = (if p < length H div 2000 then Inr (page_of H p) else Inl None)"
    using assms(1) lt by (simp add: hh_inv_def pages_ok_def)
  show ?thesis
  proof (cases "unat i < length H")
    case lt_len: True
    then have "unat i < stored_of H" using False by linarith
    then have "p < length H div 2000" unfolding p_def stored_of_def hbc by (simp add: less_mult_imp_div_less)
    then have pg': "GetHeaderHashes (hh_dao h) (of_nat (p * 2000)) = Inr (page_of H p)" using pg by simp
    note nth = page_nth [OF lt_len p_def [symmetric]]
    have upd: "hh_inv H (h\<lparr>hh_cache := evict ((hh_cache h)(of_nat (p * 2000) \<mapsto> page_of H p))\<rparr>)"
      using assms(1) cache_add [OF _ pg' assms(2)] by (auto simp: hh_inv_def)
    show ?thesis
    proof (cases "hh_cache h (of_nat (p * 2000))")
      case None
      then show ?thesis using nth j pg' upd getLocalHeaderHash_eq [OF assms(1), of i] False lt_len
        by (simp add: GetHeaderHash_def Let_def p_def)
    next
      case (Some hs)
      then have "hs = page_of H p" using assms(1) pg' by (auto simp: hh_inv_def cache_ok_def)
      then show ?thesis using nth j Some assms(1) getLocalHeaderHash_eq [OF assms(1), of i] False lt_len
        by (simp add: GetHeaderHash_def Let_def p_def)
    qed
  next
    case ge: False
    then have "length H div 2000 \<le> p" unfolding p_def by (intro div_le_mono) simp
    then have none: "GetHeaderHashes (hh_dao h) (of_nat (p * 2000)) = Inl None" using pg by simp
    then have "hh_cache h (of_nat (p * 2000)) = None" using assms(1) by (cases "hh_cache h (of_nat (p * 2000))") (auto simp: hh_inv_def cache_ok_def)
    then show ?thesis using none ge assms(1) getLocalHeaderHash_eq [OF assms(1), of i] by (simp add: GetHeaderHash_def Let_def p_def)
  qed
qed

section \<open>Adding headers\<close>

definition hdr_ok :: "header \<Rightarrow> bool" where
  "hdr_ok x \<longleftrightarrow> header_ok x \<and> length (hd_hash x) = 32"

lemma hash_length: "hdr_ok x \<Longrightarrow> length (fst (hd_Hash x)) = 32"
  by (simp add: hdr_ok_def hd_Hash_def hd_createHash_def Let_def)

lemma StoreHeader_eq: "StoreHeader b x = Inr (b(makeExecutableKey (fst (hd_Hash x)) \<mapsto> ExecBlock # hd_wire x @ [0]))"
  by (simp add: StoreHeader_def storeHeader_def hd_EncodeBinary_ok WriteB_def NewBufBinWriter_def codec_simps)

lemma page_of_append: "p * 2000 + 2000 \<le> length H \<Longrightarrow> page_of (H @ [x]) p = page_of H p"
  by (simp add: page_of_def)

lemma stored_append:
  "stored_of (H @ [x]) = (if (length H + 1) mod 2000 = 0 then length H + 1 else stored_of H)"
  using div_mult_mod_eq [of "Suc (length H)" 2000] by (auto simp: stored_of_def div_Suc)

lemma full_page: "p < length H div 2000 \<Longrightarrow> p * 2000 + 2000 \<le> length H"
proof -
  assume "p < length H div 2000"
  then have "(p + 1) * 2000 \<le> length H div 2000 * 2000" by (intro mult_le_mono1) simp
  also have "\<dots> \<le> length H" by simp
  finally show ?thesis by simp
qed

lemma pages_ok_same:
  "pages_ok d H \<Longrightarrow> Suc (length H) mod 2000 \<noteq> 0 \<Longrightarrow> pages_ok d (H @ [g])"
  by (auto simp: pages_ok_def div_Suc page_of_append [OF full_page])

lemma pages_ok_next:
  assumes "pages_ok d H" "Suc (length H) mod 2000 = 0" "length H < 2 ^ 32"
    and "GetHeaderHashes d' (of_nat (stored_of H)) = Inr (page_of (H @ [g]) (length H div 2000))"
    and "\<And>i. i \<noteq> of_nat (stored_of H) \<Longrightarrow> GetHeaderHashes d' i = GetHeaderHashes d i"
  shows "pages_ok d' (H @ [g])"
proof -
  have sm: "length H div 2000 * 2000 < 2 ^ 32" using assms(3) by (meson div_times_less_eq_dividend order_le_less_trans)
  have ne: "(of_nat (p * 2000) :: u32) \<noteq> of_nat (stored_of H)" if "p * 2000 < 2 ^ 32" "p \<noteq> length H div 2000" for p
  proof
    assume "(of_nat (p * 2000) :: u32) = of_nat (stored_of H)"
    then have "unat (of_nat (p * 2000) :: u32) = unat (of_nat (length H div 2000 * 2000) :: u32)" by (simp only: stored_of_def hbc)
    then show False using that unat_small [OF that(1)] unat_small [OF sm] by linarith
  qed
  have "GetHeaderHashes d' (of_nat (p * 2000)) = (if p < Suc (length H div 2000) then Inr (page_of (H @ [g]) p) else Inl None)"
    if lt: "p * 2000 < 2 ^ 32" for p
  proof (cases "p = length H div 2000")
    case True
    then show ?thesis using assms(4) by (simp add: stored_of_def)
  next
    case False
    then have "GetHeaderHashes d' (of_nat (p * 2000)) = (if p < length H div 2000 then Inr (page_of H p) else Inl None)"
      using assms(5) [OF ne [OF lt False]] assms(1) lt by (simp add: pages_ok_def)
    then show ?thesis using False by (auto simp: page_of_append [OF full_page])
  qed
  then show ?thesis using assms(2) by (simp add: pages_ok_def div_Suc)
qed

lemma add_step:
  assumes inv: "hh_inv H (h\<lparr>hh_dao := b\<rparr>)" and x: "hdr_ok x" and small: "length H + 1 < 2 ^ 32"
  shows "\<exists>b1 h' b2. StoreHeader b x = Inr b1 \<and> tryStoreBatch (h\<lparr>latest := latest h @ [fst (hd_Hash x)]\<rparr>) b1 = (None, h', b2)
    \<and> hh_inv (H @ [fst (hd_Hash x)]) (h'\<lparr>hh_dao := b2\<rparr>)"
proof -
  define g where "g = fst (hd_Hash x)"
  define b1 where "b1 = b(makeExecutableKey g \<mapsto> ExecBlock # hd_wire x @ [0])"
  have st: "StoreHeader b x = Inr b1" by (simp add: StoreHeader_eq b1_def g_def)
  have fr: "GetHeaderHashes b1 i = GetHeaderHashes b i" for i by (simp add: b1_def GetHeaderHashes_frame)
  have g: "length g = 32" using hash_length [OF x] by (simp add: g_def)
  have facts: "H \<noteq> []" "\<forall>y \<in> set H. length y = 32" "storedHeaderCount h = of_nat (stored_of H)" "latest h = drop (stored_of H) H"
    "length (previous h) = 2000" "2000 \<le> length H \<longrightarrow> previous h = page_of H (length H div 2000 - 1)" "pages_ok b1 H" "cache_ok b1 (hh_cache h)"
    using inv pages_ok_cong [of b1 b H] fr by (simp_all add: hh_inv_def cache_ok_def)
  have lat: "latest h @ [g] = drop (stored_of H) (H @ [g])" using facts(4) stored_le(1) [of H] by simp
  show ?thesis
  proof (cases "Suc (length H) mod 2000 = 0")
    case False
    have so: "stored_of (H @ [g]) = stored_of H" using False by (simp add: stored_append)
    have "length (latest h @ [g]) \<noteq> 2000"
    proof
      assume "length (latest h @ [g]) = 2000"
      then have "Suc (length H) = (length H div 2000 + 1) * 2000" using facts(4) stored_le(1) [of H] by (simp add: stored_of_def)
      then show False using False by (metis mod_mult_self2_is_0)
    qed
    then have tsb: "tryStoreBatch (h\<lparr>latest := latest h @ [g]\<rparr>) b1 = (None, h\<lparr>latest := latest h @ [g]\<rparr>, b1)"
      by (simp add: tryStoreBatch_def)
    have "2000 \<le> Suc (length H) \<longrightarrow> 2000 \<le> length H" using False by (auto simp: le_Suc_eq)
    moreover have "(length H div 2000 - 1) * 2000 + 2000 \<le> length H" if "2000 \<le> length H"
      using that full_page [of "length H div 2000 - 1" H] by (simp add: div_greater_zero_iff)
    ultimately have "2000 \<le> Suc (length H) \<longrightarrow> previous h = page_of (H @ [g]) (length (H @ [g]) div 2000 - 1)"
      using facts(6) False by (simp add: div_Suc page_of_append)
    then have "hh_inv (H @ [g]) (h\<lparr>latest := latest h @ [g], hh_dao := b1\<rparr>)"
      using facts lat so g small pages_ok_same [OF facts(7) False] by (simp add: hh_inv_def)
    then show ?thesis using st tsb unfolding g_def [symmetric] by auto
  next
    case True
    then have full: "Suc (length H) = stored_of H + 2000" "stored_of (H @ [g]) = Suc (length H)"
      using stored_le [of H] div_mult_mod_eq [of "Suc (length H)" 2000] by (simp_all add: stored_of_def div_Suc)
    let ?pg = "drop (stored_of H) (H @ [g])"
    have len: "length ?pg = 2000" "\<forall>y \<in> set ?pg. length y = 32"
      using full facts(2) g by (auto dest: in_set_dropD)
    define b2 where "b2 = b1(mkHeaderHashKey (storedHeaderCount h) \<mapsto> PutVarUint (of_nat (length ?pg)) @ concat ?pg)"
    have le: "length ?pg \<le> MaxArraySize" by (simp only: len(1)) (simp add: MaxArraySize_def)
    note pc = page_codec [OF le len(2)]
    have s2: "StoreHeaderHashes b1 ?pg (storedHeaderCount h) = Inr b2" unfolding b2_def by (rule pc(1))
    have "b2 (mkHeaderHashKey (storedHeaderCount h)) = Some (PutVarUint (of_nat (length ?pg)) @ concat ?pg)" by (simp add: b2_def)
    then have new: "GetHeaderHashes b2 (of_nat (stored_of H)) = Inr ?pg" using pc(2) facts(3) by simp
    have old: "GetHeaderHashes b2 i = GetHeaderHashes b1 i" if "i \<noteq> of_nat (stored_of H)" for i
      using that facts(3) by (simp add: b2_def GetHeaderHashes_frame)
    have pg: "page_of (H @ [g]) (length H div 2000) = ?pg" using full(1) by (simp add: page_of_def stored_of_def)
    have nopage: "GetHeaderHashes b1 (of_nat (stored_of H)) = Inl None"
      using facts(7) small stored_le(1) [of H] by (simp add: pages_ok_def stored_of_def)
    define h' where "h' = h\<lparr>previous := ?pg, latest := [], storedHeaderCount := storedHeaderCount h + of_nat 2000\<rparr>"
    have tsb: "tryStoreBatch (h\<lparr>latest := latest h @ [g]\<rparr>) b1 = (None, h', b2)"
      using s2 facts(5) len(1) stored_le(1) [of H] full(1) by (simp add: tryStoreBatch_def lat h'_def)
    have cache: "cache_ok b2 (hh_cache h)"
      unfolding cache_ok_def
    proof (intro allI impI)
      fix k hs
      assume "hh_cache h k = Some hs"
      then have k: "GetHeaderHashes b1 k = Inr hs" using facts(8) by (simp add: cache_ok_def)
      then have "k \<noteq> of_nat (stored_of H)" using nopage by auto
      then show "GetHeaderHashes b2 k = Inr hs" using old k by simp
    qed
    have pages: "pages_ok b2 (H @ [g])"
      by (rule pages_ok_next [OF facts(7) True _ _ old]) (use small new pg in simp_all)
    have "storedHeaderCount h + of_nat 2000 = (of_nat (stored_of H + 2000) :: u32)" by (simp add: facts(3))
    then have "hh_inv (H @ [g]) (h'\<lparr>hh_dao := b2\<rparr>)"
      using facts(1,2) g small pages cache len(1) full True pg unfolding full(1) [symmetric]
      by (simp add: hh_inv_def h'_def div_Suc)
    then show ?thesis using st tsb unfolding g_def [symmetric] by auto
  qed
qed

text \<open>What adding headers does to the list: the next one in order is appended, others are skipped.\<close>

definition next_hash :: "header \<Rightarrow> hash256 list \<Rightarrow> hash256 list" where
  "next_hash x H = (if Index x = of_nat (length H) then H @ [fst (hd_Hash x)] else H)"

lemma add_loop_spec:
  assumes "hh_inv H (h\<lparr>hh_dao := b\<rparr>)" "\<forall>x \<in> set xs. hdr_ok x" "length H + length xs < 2 ^ 32"
  shows "\<exists>h' b' l'. add_loop h b l xs = (None, h', b', l') \<and> hh_inv (fold next_hash xs H) (h'\<lparr>hh_dao := b'\<rparr>)
    \<and> (l' = None \<longrightarrow> l = None \<and> b' = b \<and> h' = h)"
  using assms
proof (induction xs arbitrary: H h b l)
  case (Cons x xs)
  have idx: "lastHeaderIndex h + 1 = of_nat (length H)"
    using lastHeaderIndex_eq(3) [OF Cons.prems(1)] by (simp add: lastHeaderIndex_def)
  show ?case
  proof (cases "Index x = of_nat (length H)")
    case True
    obtain b1 h1 b2 where st: "StoreHeader b x = Inr b1"
      "tryStoreBatch (h\<lparr>latest := latest h @ [fst (hd_Hash x)]\<rparr>) b1 = (None, h1, b2)" "hh_inv (H @ [fst (hd_Hash x)]) (h1\<lparr>hh_dao := b2\<rparr>)"
      using add_step [OF Cons.prems(1), of x] Cons.prems(2,3) by auto
    then show ?thesis using Cons.IH [OF st(3), of "Some x"] Cons.prems(2,3) True idx by (auto simp: next_hash_def)
  next
    case False
    then show ?thesis using Cons.IH [OF Cons.prems(1), of l] Cons.prems(2,3) idx by (auto simp: next_hash_def)
  qed
qed simp

lemma hh_inv_dao_cong:
  "(\<And>i. GetHeaderHashes d' i = GetHeaderHashes d i) \<Longrightarrow> hh_inv H (h\<lparr>hh_dao := d'\<rparr>) = hh_inv H (h\<lparr>hh_dao := d\<rparr>)"
  using pages_ok_cong [of d' d H] by (simp add: hh_inv_def cache_ok_def)

lemma hh_addHeaders_spec:
  assumes "hh_inv H h" "\<forall>x \<in> set xs. hdr_ok x" "length H + length xs < 2 ^ 32"
  shows "\<exists>h'. hh_addHeaders h xs = (None, h') \<and> hh_inv (fold next_hash xs H) h'"
proof -
  have "hh_inv H (h\<lparr>hh_dao := hh_dao h\<rparr>)" using assms(1) by simp
  from add_loop_spec [OF this assms(2,3), of None] obtain h' b' l' where
    r: "add_loop h (hh_dao h) None xs = (None, h', b', l')" "hh_inv (fold next_hash xs H) (h'\<lparr>hh_dao := b'\<rparr>)"
    "l' = None \<longrightarrow> b' = hh_dao h \<and> h' = h" by blast
  show ?thesis
  proof (cases l')
    case None
    then show ?thesis using r by (auto simp: hh_addHeaders_def)
  next
    case (Some l)
    have "hh_inv (fold next_hash xs H) (h'\<lparr>hh_dao := PutCurrentHeader b' (fst (hd_Hash l)) (Index l)\<rparr>)"
      using r(2) by (subst hh_inv_dao_cong [of _ b']) (simp_all add: PutCurrentHeader_def GetHeaderHashes_frame)
    then show ?thesis using r(1) Some by (simp add: hh_addHeaders_def)
  qed
qed

lemma CurrentHeaderHash_eq: "hh_inv H h \<Longrightarrow> CurrentHeaderHash h = Inr (last H)"
proof -
  assume i: "hh_inv H h"
  then have H: "H \<noteq> []" "latest h = drop (stored_of H) H" by (simp_all add: hh_inv_def)
  show ?thesis
  proof (cases "stored_of H < length H")
    case True
    then show ?thesis using H by (simp add: CurrentHeaderHash_def)
  next
    case False
    then have e: "length H div 2000 * 2000 = length H" using stored_le(1) [of H] by (simp add: stored_of_def)
    then have ge: "2000 \<le> length H" using H(1) by (cases "length H div 2000") auto
    have "length H = (length H div 2000 - 1) * 2000 + 2000" using e ge by (simp add: diff_mult_distrib)
    then have "page_of H (length H div 2000 - 1) = drop (length H - 2000) H" by (simp add: page_of_def diff_mult_distrib e)
    then have "previous h = drop (length H - 2000) H" using i ge by (simp add: hh_inv_def)
    then show ?thesis using H False ge by (simp add: CurrentHeaderHash_def)
  qed
qed

text \<open>C34. The paged list of header hashes implements a plain list: headers are appended in order (others are skipped)
  without error, and in every state so reached the height is the length less one, the current hash is the last, and the
  hash of any index is that of the list, or zero beyond its end, whatever the cache of pages has dropped.\<close>

theorem header_hashes_refine_list:
  assumes "hh_inv H h" and "\<forall>x \<in> set xs. hdr_ok x" and "length H + length xs < 2 ^ 32" and "\<forall>m. evict m \<subseteq>\<^sub>m m"
  shows "\<exists>h'. hh_addHeaders h xs = (None, h') \<and> (let H' = fold next_hash xs H
    in hh_inv H' h' \<and> HeaderHeight h' = of_nat (length H' - 1) \<and> CurrentHeaderHash h' = Inr (last H')
       \<and> (\<forall>i. \<exists>h''. GetHeaderHash evict h' i = Inr (if unat i < length H' then H' ! unat i else zero256, h'') \<and> hh_inv H' h''))"
proof -
  obtain h' where h': "hh_addHeaders h xs = (None, h')" "hh_inv (fold next_hash xs H) h'"
    using hh_addHeaders_spec [OF assms(1-3)] by blast
  then show ?thesis
    using lastHeaderIndex_eq(1) [OF h'(2)] CurrentHeaderHash_eq [OF h'(2)] GetHeaderHash_eq [OF h'(2), of evict] assms(4)
    by (simp add: HeaderHeight_def Let_def)
qed

lemma init_genesis:
  assumes "length g = 32"
  shows "hh_inv [g] (initMinTrustedHeader Map.empty \<lparr>hi_Hash = g, hi_Index = 0\<rparr>)"
proof -
  have "GetHeaderHashes (PutCurrentHeader Map.empty g 0) i = Inl None" for i
    by (simp add: PutCurrentHeader_def GetHeaderHashes_frame) (simp add: GetHeaderHashes_def)
  then show ?thesis using assms
    by (simp add: hh_inv_def initMinTrustedHeader_def tryStoreBatch_def stored_of_def pages_ok_def cache_ok_def)
qed

theorem header_hashes_refine_list_witness:
  "let h = initMinTrustedHeader Map.empty \<lparr>hi_Hash = replicate 32 9, hi_Index = 0\<rparr>; x = (new_Header False)\<lparr>Index := 1, hd_hash := replicate 32 8\<rparr>
   in \<exists>h' h''. hh_addHeaders h [x] = (None, h') \<and> HeaderHeight h' = 1 \<and> GetHeaderHash id h' 1 = Inr (replicate 32 8, h'')"
proof -
  let ?h = "initMinTrustedHeader Map.empty \<lparr>hi_Hash = replicate 32 9, hi_Index = 0\<rparr>"
  let ?x = "(new_Header False)\<lparr>Index := 1, hd_hash := replicate 32 8\<rparr>"
  have ok: "\<forall>x \<in> set [?x]. hdr_ok x" by (simp add: hdr_ok_def header_ok_def new_Header_def zero256_def witness_ok_def)
  have "fst (hd_Hash ?x) = replicate 32 8" by (simp add: hd_Hash_def zero256_def)
  then have H: "fold next_hash [?x] [replicate 32 9] = [replicate 32 9, replicate 32 8]" by (simp add: next_hash_def)
  have i: "hh_inv [replicate 32 9] ?h" by (rule init_genesis) simp
  have ev: "\<forall>m. id m \<subseteq>\<^sub>m m" by simp
  have lt: "length [replicate 32 (9 :: byte)] + length [?x] < 2 ^ 32" by simp
  show ?thesis
    using header_hashes_refine_list [OF i ok lt ev] unfolding H Let_def
    by (auto dest!: spec [where x = 1])
qed

section \<open>Restart\<close>

text \<open>The store holds every header under its hash, each naming the one before, and the last as the current header.\<close>

definition blocks_stored :: "bool \<Rightarrow> hash256 list \<Rightarrow> kv \<Rightarrow> bool" where
  "blocks_stored sre H d \<longleftrightarrow> distinct H \<and> zero256 \<notin> set H
     \<and> (\<forall>n < length H. \<exists>blk :: unit block. GetBlock sre d (H ! n) = Inr blk \<and> fst (hd_Hash (Header blk)) = H ! n
          \<and> PrevHash (Header blk) = (if n = 0 then zero256 else H ! (n - 1)))"

definition chain_stored :: "bool \<Rightarrow> hash256 list \<Rightarrow> kv \<Rightarrow> bool" where
  "chain_stored sre H d \<longleftrightarrow> blocks_stored sre H d \<and> GetCurrentHeaderHeight d = Inr (Some (of_nat (length H - 1), last H))"

lemma walk_back_spec:
  assumes c: "blocks_stored sre H d"
  shows "n < length H \<Longrightarrow> m \<le> n \<Longrightarrow> n - m < fuel \<Longrightarrow>
    walk_back fuel sre d (H ! n) (if m = 0 then zero256 else H ! (m - 1)) acc = Inr (Some (acc @ rev (drop m (take (Suc n) H))))"
proof (induction fuel arbitrary: n acc)
  case (Suc fuel)
  let ?t = "if m = 0 then zero256 else H ! (m - 1)"
  have "H ! n \<in> set H" using Suc.prems(1) by simp
  then have "H ! n \<noteq> zero256" using c by (auto simp: blocks_stored_def)
  moreover have "H ! n \<noteq> H ! (m - 1)" if "m \<noteq> 0"
    using that c Suc.prems(1,2) by (auto simp: blocks_stored_def nth_eq_iff_index_eq)
  ultimately have ne: "H ! n \<noteq> ?t" by simp
  obtain blk :: "unit block" where blk: "GetBlock sre d (H ! n) = Inr blk" "fst (hd_Hash (Header blk)) = H ! n"
    "PrevHash (Header blk) = (if n = 0 then zero256 else H ! (n - 1))"
    using c Suc.prems(1) by (auto simp: blocks_stored_def)
  have step: "walk_back (Suc fuel) sre d (H ! n) ?t acc = walk_back fuel sre d (if n = 0 then zero256 else H ! (n - 1)) ?t (acc @ [H ! n])"
    by (subst walk_back.simps) (simp add: ne blk)
  show ?case
  proof (cases "n = m")
    case True
    then have "walk_back fuel sre d (if n = 0 then zero256 else H ! (n - 1)) ?t (acc @ [H ! n]) = Inr (Some (acc @ [H ! n]))"
      by (subst walk_back.simps) simp
    then show ?thesis using step True Suc.prems(1) by (simp add: take_Suc_conv_app_nth)
  next
    case False
    then have n: "n \<noteq> 0" "m \<le> n - 1" "n - 1 - m < fuel" "n - 1 < length H" using Suc.prems by auto
    then show ?thesis using step Suc.IH [OF n(4,2,3), of "acc @ [H ! n]"] Suc.prems(1,2) False
      by (simp add: take_Suc_conv_app_nth)
  qed
qed simp

lemma pages_okD:
  "pages_ok d H \<Longrightarrow> p * 2000 < 2 ^ 32 \<Longrightarrow> p < length H div 2000 \<Longrightarrow> GetHeaderHashes d (of_nat (p * 2000)) = Inr (page_of H p)"
  unfolding pages_ok_def hbc by presburger

text \<open>The page before the one that is being filled, as a restart reads it.\<close>

lemma last_full_page:
  assumes "hh_inv H h" "2000 \<le> stored_of H"
  shows "GetHeaderHashes (hh_dao h) (of_nat (stored_of H) - of_nat 2000) = Inr (page_of H (length H div 2000 - 1))"
    "length (page_of H (length H div 2000 - 1)) = 2000" "last (page_of H (length H div 2000 - 1)) = H ! (stored_of H - 1)"
proof -
  let ?p = "length H div 2000 - 1"
  have base: "?p * 2000 = stored_of H - 2000" "?p < length H div 2000" using assms(2) by (auto simp: stored_of_def diff_mult_distrib)
  have "stored_of H < 2 ^ 32" using assms(1) stored_le(1) [of H] by (simp add: hh_inv_def)
  then have lt: "?p * 2000 < 2 ^ 32" using base(1) by linarith
  have "(of_nat (stored_of H) - of_nat 2000 :: u32) = of_nat (?p * 2000)"
    unfolding base(1) using assms(2) by (rule of_nat_diff [symmetric])
  moreover have "GetHeaderHashes (hh_dao h) (of_nat (?p * 2000)) = Inr (page_of H ?p)"
    using assms(1) lt base(2) unfolding hh_inv_def by (intro pages_okD) blast+
  ultimately show "GetHeaderHashes (hh_dao h) (of_nat (stored_of H) - of_nat 2000) = Inr (page_of H ?p)" by simp
  show len: "length (page_of H ?p) = 2000" using full_page [OF base(2)] by (simp add: page_of_def)
  then have "last (page_of H ?p) = page_of H ?p ! 1999" by (cases "page_of H ?p" rule: rev_cases) (auto simp: nth_append)
  also have "\<dots> = H ! (?p * 2000 + 1999)" using full_page [OF base(2)] by (simp add: page_of_def)
  finally show "last (page_of H ?p) = H ! (stored_of H - 1)" using base(1) assms(2) by simp
qed

lemma restart_inv:
  assumes i: "hh_inv H h" and c: "chain_stored sre H (hh_dao h)"
  shows "\<exists>h'. hh_init 2000 sre (hh_dao h) \<lparr>hi_Hash = g, hi_Index = 0\<rparr> = Inr (Some h') \<and> hh_inv H h' \<and> hh_dao h' = hh_dao h"
proof -
  let ?d = "hh_dao h" and ?st = "of_nat (stored_of H) :: u32"
  have H: "H \<noteq> []" "length H < 2 ^ 32" using i by (simp_all add: hh_inv_def)
  have cb: "blocks_stored sre H ?d" using c by (simp add: chain_stored_def)
  define cur where "cur = (of_nat (length H - 1) :: u32)"
  have read: "GetCurrentHeaderHeight ?d = Inr (Some (cur, H ! (length H - 1)))"
    using c H(1) by (simp add: chain_stored_def cur_def last_conv_nth)
  have "of_nat (Suc (length H - 1)) = (of_nat (length H) :: u32)" using H(1) by simp
  then have cur1: "cur + 1 = of_nat (length H)" by (simp add: cur_def add.commute)
  have cur2: "unat cur = length H - 1" unfolding cur_def by (rule unat_small) (use H(2) in linarith)
  have sm: "stored_of H < 2 ^ 32" using H(2) stored_le(1) [of H] by linarith
  have st: "(of_nat (unat (cur + 1) div 2000 * 2000) :: u32) = ?st" using cur1 unat_small [OF H(2)] by (simp add: stored_of_def)
  have le: "(of_nat 2000 \<le> ?st) = (2000 \<le> stored_of H)" using u32_le [of 2000 ?st] unat_small [OF sm] by simp
  have "0 < length H" using H(1) by simp
  then have le2: "(?st \<le> cur) = (stored_of H < length H)" using u32_le [OF sm, of cur] unfolding cur2 by linarith
  have pos: "2000 \<le> stored_of H \<Longrightarrow> (0 :: u32) < ?st" using unat_small [OF sm] by (auto simp: word_less_nat_alt)
  define pv where "pv = (if 2000 \<le> stored_of H then page_of H (length H div 2000 - 1) else replicate 2000 zero256)"
  define h0 where "h0 = \<lparr>hh_dao = ?d, latest = [], previous = pv, storedHeaderCount = ?st, hh_cache = Map.empty\<rparr>"
  have pv: "length pv = 2000" "2000 \<le> length H \<longrightarrow> pv = page_of H (length H div 2000 - 1)"
    using last_full_page(2) [OF i] by (auto simp: pv_def stored_of_def)
  have inv0: "hh_inv H (h0\<lparr>latest := drop (stored_of H) H\<rparr>)"
    using i pv by (simp add: hh_inv_def h0_def cache_ok_def)
  have zero_st: "stored_of H = 0" if "\<not> 2000 \<le> stored_of H" using that by (auto simp: stored_of_def)
  have tgt: "(if 2000 \<le> stored_of H then last pv else zero256) = (if stored_of H = 0 then zero256 else H ! (stored_of H - 1))"
    using last_full_page(3) [OF i] zero_st by (auto simp: pv_def)
  have walk: "walk_back 2000 sre ?d (H ! (length H - 1)) (if stored_of H = 0 then zero256 else H ! (stored_of H - 1)) [] = Inr (Some (rev (drop (stored_of H) H)))"
    if "stored_of H < length H"
    using walk_back_spec [OF cb, of "length H - 1" "stored_of H" 2000 "[]"] that stored_le(2) [of H] by simp
  have prev: "(if of_nat 2000 \<le> ?st \<and> (0 < ?st \<and> of_nat 2000 \<le> ?st - 0 \<or> x) then GetHeaderHashes ?d (?st - of_nat 2000) else Inr (replicate 2000 zero256)) = Inr pv" for x
    using le pos last_full_page(1) [OF i] by (simp add: pv_def)
  have m0: "(of_nat (unat (0 + 1 :: u32) div 2000 * 2000) :: u32) = 0" by simp
  have e: "hh_init 2000 sre ?d \<lparr>hi_Hash = g, hi_Index = 0\<rparr> = Inr (Some (h0\<lparr>latest := drop (stored_of H) H\<rparr>))"
    unfolding hh_init_def read hbc Let_def sum.case option.case prod.case hash_index.select_convs st m0 prev
    using walk tgt le le2 pv(1) by (auto simp: h0_def)
  show ?thesis using inv0 e by (auto simp: h0_def)
qed

text \<open>Headers that continue the list: in order, each naming the one before, with its own and a new hash.\<close>

definition linked :: "bool \<Rightarrow> hash256 list \<Rightarrow> header \<Rightarrow> bool" where
  "linked sre H x \<longleftrightarrow> hdr_ok x \<and> StateRootEnabled x = sre \<and> Index x = of_nat (length H) \<and> PrevHash x = last H
     \<and> fst (hd_Hash x) = Sha256 (hd_hashable_wire x) \<and> fst (hd_Hash x) \<notin> set H \<and> fst (hd_Hash x) \<noteq> zero256"

fun linked_list :: "bool \<Rightarrow> hash256 list \<Rightarrow> header list \<Rightarrow> bool" where
  "linked_list sre H [] \<longleftrightarrow> True"
| "linked_list sre H (x # xs) \<longleftrightarrow> linked sre H x \<and> linked_list sre (H @ [fst (hd_Hash x)]) xs"

lemma linked_fold: "linked_list sre H xs \<Longrightarrow> fold next_hash xs H = H @ map (\<lambda>x. fst (hd_Hash x)) xs"
  by (induction xs arbitrary: H) (auto simp: linked_def next_hash_def)

lemma linked_ok: "linked_list sre H xs \<Longrightarrow> \<forall>x \<in> set xs. hdr_ok x"
  by (induction xs arbitrary: H) (auto simp: linked_def)

lemma GetBlock_frame: "k \<noteq> makeExecutableKey g \<Longrightarrow> GetBlock sre (d(k := v)) g = GetBlock sre d g"
  by (simp add: GetBlock_def getBlock_def)

lemma GetBlock_header:
  assumes "header_ok x" "StateRootEnabled x = sre"
  shows "GetBlock sre (d(makeExecutableKey g \<mapsto> ExecBlock # hd_wire x @ [0])) g = Inr \<lparr>Header = header_fields x, Transactions = [], b_Trimmed = True\<rparr>"
proof -
  have "ReadVarUint \<lparr>r_buf = [0], r_err = None\<rparr> = (0, \<lparr>r_buf = [], r_err = None\<rparr>)"
    using ReadVarUint_append [of 0 "[]"] by (simp add: PutVarUint_def)
  then show ?thesis using assms
    by (simp add: GetBlock_def getBlock_def NewBinReaderFromBuf_def codec_simps NewTrimmedFromReader_def hd_DecodeBinary_wire)
qed

lemma linked_stored:
  assumes "blocks_stored sre H b" "linked sre H x" "H \<noteq> []"
  shows "blocks_stored sre (H @ [fst (hd_Hash x)]) (b(makeExecutableKey (fst (hd_Hash x)) \<mapsto> ExecBlock # hd_wire x @ [0]))"
    (is "blocks_stored sre (H @ [?g]) ?b")
proof -
  have x: "header_ok x" "StateRootEnabled x = sre" "PrevHash x = last H" "?g = Sha256 (hd_hashable_wire x)" "?g \<notin> set H" "?g \<noteq> zero256"
    using assms(2) unfolding linked_def hdr_ok_def by blast+
  have "fst (hd_Hash (header_fields x)) = ?g" "PrevHash (header_fields x) = last H"
    using x by (simp_all add: header_fields_def hd_Hash_def Let_def)
  then have new: "GetBlock sre ?b ?g = Inr (\<lparr>Header = header_fields x, Transactions = [], b_Trimmed = True\<rparr> :: unit block)"
    "fst (hd_Hash (header_fields x)) = ?g" "PrevHash (header_fields x) = H ! (length H - 1)"
    using GetBlock_header [OF x(1,2)] assms(3) by (simp_all add: last_conv_nth)
  have "\<exists>blk :: unit block. GetBlock sre ?b ((H @ [?g]) ! n) = Inr blk \<and> fst (hd_Hash (Header blk)) = (H @ [?g]) ! n
      \<and> PrevHash (Header blk) = (if n = 0 then zero256 else (H @ [?g]) ! (n - 1))" if n: "n < length (H @ [?g])" for n
  proof (cases "n < length H")
    case True
    then obtain blk :: "unit block" where "GetBlock sre b (H ! n) = Inr blk" "fst (hd_Hash (Header blk)) = H ! n"
      "PrevHash (Header blk) = (if n = 0 then zero256 else H ! (n - 1))" using assms(1) by (auto simp: blocks_stored_def)
    moreover have "(GetBlock sre ?b (H ! n) :: io_err option + unit block) = GetBlock sre b (H ! n)"
      using True x(5) by (intro GetBlock_frame) auto
    ultimately show ?thesis using True by (intro exI [of _ blk]) (auto simp: nth_append)
  next
    case False
    then have "n = length H" using n by simp
    then show ?thesis using new assms(3) by (simp add: nth_append)
  qed
  then show ?thesis using assms(1) x(5,6) by (simp add: blocks_stored_def)
qed

lemma tryStoreBatch_blocks:
  "blocks_stored sre H b \<Longrightarrow> tryStoreBatch h b = (None, h', b') \<Longrightarrow> blocks_stored sre H b'"
  by (auto simp: tryStoreBatch_def StoreHeaderHashes_def Let_def blocks_stored_def GetBlock_frame other_keys [symmetric]
      split: if_splits sum.splits option.splits)

lemma add_loop_blocks:
  assumes "hh_inv H (h\<lparr>hh_dao := b\<rparr>)" "blocks_stored sre H b" "linked_list sre H xs" "length H + length xs < 2 ^ 32"
    "add_loop h b l xs = (None, h', b', l')"
  shows "blocks_stored sre (H @ map (\<lambda>x. fst (hd_Hash x)) xs) b' \<and> l' = (if xs = [] then l else Some (last xs))"
  using assms
proof (induction xs arbitrary: H h b l)
  case (Cons x xs)
  have x: "linked sre H x" "hdr_ok x" "Index x = of_nat (length H)" using Cons.prems(3) by (auto simp: linked_def)
  have idx: "lastHeaderIndex h + 1 = of_nat (length H)"
    using lastHeaderIndex_eq(3) [OF Cons.prems(1)] by (simp add: lastHeaderIndex_def)
  obtain b1 h1 b2 where st: "StoreHeader b x = Inr b1"
    "tryStoreBatch (h\<lparr>latest := latest h @ [fst (hd_Hash x)]\<rparr>) b1 = (None, h1, b2)" "hh_inv (H @ [fst (hd_Hash x)]) (h1\<lparr>hh_dao := b2\<rparr>)"
    using add_step [OF Cons.prems(1) x(2)] Cons.prems(4) by auto
  have "H \<noteq> []" using Cons.prems(1) by (simp add: hh_inv_def)
  then have "blocks_stored sre (H @ [fst (hd_Hash x)]) b2"
    using linked_stored [OF Cons.prems(2) x(1)] st(1) tryStoreBatch_blocks [OF _ st(2)] by (simp add: StoreHeader_eq)
  then show ?case using Cons.IH [OF st(3), of "Some x"] Cons.prems(3-5) x(3) idx st by auto
qed simp

text \<open>A restart recovers the list: after linked headers have been added, reading the store, with the
  current header and a walk back over fewer than 2000 headers to the last full page, gives the same list again.\<close>

lemma restart_recovers_header_hashes:
  assumes "hh_inv H h" and "chain_stored sre H (hh_dao h)" and "linked_list sre H xs" and "length H + length xs < 2 ^ 32"
  shows "\<exists>h1 h2. hh_addHeaders h xs = (None, h1) \<and> hh_init 2000 sre (hh_dao h1) \<lparr>hi_Hash = g, hi_Index = 0\<rparr> = Inr (Some h2)
    \<and> hh_inv (H @ map (\<lambda>x. fst (hd_Hash x)) xs) h1 \<and> hh_inv (H @ map (\<lambda>x. fst (hd_Hash x)) xs) h2"
proof -
  let ?H = "H @ map (\<lambda>x. fst (hd_Hash x)) xs"
  obtain h1 where h1: "hh_addHeaders h xs = (None, h1)" "hh_inv ?H h1"
    using hh_addHeaders_spec [OF assms(1) linked_ok [OF assms(3)] assms(4)] linked_fold [OF assms(3)] by auto
  have "hh_inv H (h\<lparr>hh_dao := hh_dao h\<rparr>)" using assms(1) by simp
  from add_loop_spec [OF this linked_ok [OF assms(3)] assms(4), of None] obtain h' b' l' where
    r: "add_loop h (hh_dao h) None xs = (None, h', b', l')" "l' = None \<longrightarrow> b' = hh_dao h \<and> h' = h" by blast
  have b: "blocks_stored sre ?H b'" "l' = (if xs = [] then None else Some (last xs))"
    using add_loop_blocks [OF _ _ assms(3,4) r(1)] assms(1,2) by (simp_all add: chain_stored_def)
  have "chain_stored sre ?H (hh_dao h1)"
  proof (cases "xs = []")
    case True
    then show ?thesis using h1(1) assms(2) by (simp add: hh_addHeaders_def)
  next
    case False
    let ?l = "last xs"
    have last: "last ?H = fst (hd_Hash ?l)" "length (fst (hd_Hash ?l)) = 32"
      using False linked_ok [OF assms(3)] hash_length by (simp_all add: last_map)
    have "linked_list sre H xs \<Longrightarrow> xs \<noteq> [] \<Longrightarrow> Index (last xs) = of_nat (length H + length xs - 1)" for H xs
      by (induction xs arbitrary: H) (auto simp: linked_def split: if_splits)
    then have idx: "Index ?l = of_nat (length ?H - 1)" using assms(3) False by simp
    have d: "hh_dao h1 = PutCurrentHeader b' (fst (hd_Hash ?l)) (Index ?l)" using h1(1) r(1) b(2) False by (auto simp: hh_addHeaders_def)
    have "(GetBlock sre (hh_dao h1) k :: io_err option + unit block) = GetBlock sre b' k" for k
      by (simp add: d PutCurrentHeader_def GetBlock_def getBlock_def mkKeyPrefix_def makeExecutableKey_def prefix_defs)
    then have "blocks_stored sre ?H (hh_dao h1)" using b(1) by (simp add: blocks_stored_def)
    moreover have "GetCurrentHeaderHeight (hh_dao h1) = Inr (Some (Index ?l, fst (hd_Hash ?l)))"
      using last(2) by (simp add: d GetCurrentHeaderHeight_def PutCurrentHeader_def WriteU32LE_def NewBufBinWriter_def codec_simps le_nat_nat_le_id
          del: nat_le.simps)
    ultimately show ?thesis using last(1) idx by (simp add: chain_stored_def)
  qed
  then show ?thesis using restart_inv [OF h1(2), of sre g] h1 by blast
qed

end
