(* ===== verification/ChainVerify.thy ===== *)
theory ChainVerify
  imports HeaderHashes WitnessCheck MempoolProps
begin

text \<open>
  How the chain decides on transactions and blocks: \<open>verifyAndPoolTx\<close>, \<open>verifyTxAttributes\<close>, \<open>IsTxStillRelevant\<close>,
  \<open>verifyHeader\<close>, \<open>addHeaders\<close>, \<open>AddBlock\<close>, \<open>storeBlock\<close> and \<open>ApplyPolicyToTxSet\<close> of \<open>pkg/core/blockchain.go\<close>. The state of the native
  contracts is an opaque ledger; what the chain asks of it, the execution of a block, the verification of a witness
  and the parsing of scripts are functions in \<open>env\<close>. A Go panic is \<open>Inl\<close>.
\<close>

section \<open>State\<close>

record ('g, 's) env =
  e_genc :: "'g key_encoder"
  cfg_MaxTransactionsPerBlock :: u16
  cfg_MaxBlockSize :: u32
  cfg_MaxBlockSystemFee :: "64 word"
  cfg_StateRootInHeader :: bool
  cfg_SkipBlockVerification :: bool
  cfg_VerifyTransactions :: bool
  cfg_ReservedAttributes :: bool
  cfg_P2PSigExtensions :: bool
  cfg_TrustedHeader :: hash_index
  cfg_registry :: registry
  e_IsScriptCorrect :: "bytes \<Rightarrow> bool"
  e_IsStandardContract :: "bytes \<Rightarrow> bool"
  e_verifyHash :: "'s \<Rightarrow> 'g transaction \<Rightarrow> verifier"
  e_VerifyWitness :: "'s \<Rightarrow> uint160 \<Rightarrow> header \<Rightarrow> witness \<Rightarrow> string option"
  e_execute :: "'s \<Rightarrow> 'g block \<Rightarrow> string + 's \<times> (bin_writer \<Rightarrow> bin_writer) list \<times> (bin_writer \<Rightarrow> bin_writer) list"
  e_whitelist :: "'s \<Rightarrow> u32 \<Rightarrow> string option"
  e_stateRoot :: "'s \<Rightarrow> u32 \<times> hash256"
  e_MaxValidUntilBlockIncrement :: "'s \<Rightarrow> u32"
  e_MaxTraceableBlocks :: "'s \<Rightarrow> u32"
  e_CheckPolicy :: "'s \<Rightarrow> 'g transaction \<Rightarrow> bool"
  e_FeePerByte :: "'s \<Rightarrow> 64 word"
  e_AttributeFee :: "'s \<Rightarrow> byte \<Rightarrow> 64 word"
  e_Balance :: "'s \<Rightarrow> uint160 \<Rightarrow> int"
  e_CommitteeAddress :: "'s \<Rightarrow> uint160"
  e_oracle :: bool
  e_OracleHash :: "'s \<Rightarrow> uint160 option"
  e_OracleScript :: bytes
  e_OracleRequest :: "'s \<Rightarrow> u64 \<Rightarrow> u64 option"
  e_MaxNVBDelta :: "'s \<Rightarrow> u32 option"
  e_NotaryActive :: "u32 \<Rightarrow> bool"
  e_NotaryHash :: uint160
  e_validators :: "'s \<Rightarrow> witness"

record ('g, 's) chain =
  ledger :: 's
  hashes :: header_hashes
  memPool :: "('g, unit) pool"
  blockHeight :: u32
  topBlock :: "'g block option"

datatype chain_err = ErrTxExpired | ErrTxNotYetValid | ErrTxInsufficientFunds | ErrTxSmallNetworkFee | ErrTxTooBig | ErrMemPoolConflict
  | ErrInvalidScript | ErrInvalidAttribute | ErrPolicy | ErrTxAlreadyExists | ErrTxHasConflicts | ErrAlreadyInPool | ErrTxOOM | ErrOther string
  | ErrInvalidBlockIndex | ErrBlockAlreadyExists | ErrHdrHashMismatch | ErrHdrIndexMismatch | ErrHdrInvalidTimestamp | ErrHdrStateRootSetting
  | ErrHdrInvalidStateRoot | ErrHashMismatch | ErrMerkleRootMismatch | ErrTrustedMismatch | ErrPool pool_err

abbreviation c_dao :: "('g, 's) chain \<Rightarrow> kv" where
  "c_dao c \<equiv> hh_dao (hashes c)"

text \<open>The chain as the mempool sees it (\<open>mempool.Feer\<close>).\<close>

definition chain_feer :: "('g, 's) env \<Rightarrow> ('g, 's) chain \<Rightarrow> feer" where
  "chain_feer E c = \<lparr>f_FeePerByte = e_FeePerByte E (ledger c), GetUtilityTokenBalance = e_Balance E (ledger c), BlockHeight = blockHeight c\<rparr>"

section \<open>Transactions\<close>

text \<open>Fees are 64-bit integers and wrap. A \<open>NotaryAssisted\<close> attribute with another value panics.\<close>

fun attr_fees :: "('g, 's) env \<Rightarrow> 's \<Rightarrow> nat \<Rightarrow> attribute list \<Rightarrow> 64 word \<Rightarrow> string + 64 word" where
  "attr_fees E s n [] feeSoFar = Inr feeSoFar"
| "attr_fees E s n (a # as) feeSoFar =
    (let base = e_AttributeFee E s (a_Type a)
     in if a_Type a = ConflictsT then attr_fees E s n as (feeSoFar + base * of_nat n)
        else if a_Type a = NotaryAssistedT
        then (if cfg_P2PSigExtensions E
              then (case a_Value a of Some (NotaryAssisted k) \<Rightarrow> attr_fees E s n as (feeSoFar + base * (ucast k + 1)) | _ \<Rightarrow> Inl ''interface conversion'')
              else attr_fees E s n as feeSoFar)
        else attr_fees E s n as (feeSoFar + base))"

definition CalculateAttributesFee :: "('g, 's) env \<Rightarrow> 's \<Rightarrow> 'g transaction \<Rightarrow> string + 64 word" where
  "CalculateAttributesFee E s t = attr_fees E s (length (Signers t)) (Attributes t) 0"

definition check_oracle_attr :: "('g, 's) env \<Rightarrow> 's \<Rightarrow> 'g transaction \<Rightarrow> attribute \<Rightarrow> string + bool" where
  "check_oracle_attr E s t a =
    (if \<not> e_oracle E then Inr False
     else case e_OracleHash E s of None \<Rightarrow> Inr False
     | Some h \<Rightarrow>
       if h = replicate 20 0 then Inr False
       else if \<exists>sg \<in> set (Signers t). Scopes sg \<noteq> None_scope then Inr False
       else if \<not> (\<exists>sg \<in> set (Signers t). Account sg = h) then Inr False
       else if Script t \<noteq> e_OracleScript E then Inr False
       else (case a_Value a of
               Some (OracleResponse i c r) \<Rightarrow>
                 (case e_OracleRequest E s i of None \<Rightarrow> Inr False | Some gas \<Rightarrow> Inr (gas \<le> NetworkFee t + SystemFee t))
             | _ \<Rightarrow> Inl ''interface conversion''))"

definition check_nvb_attr :: "('g, 's) env \<Rightarrow> 's \<Rightarrow> u32 \<Rightarrow> 'g transaction \<Rightarrow> bool \<Rightarrow> attribute \<Rightarrow> string + bool" where
  "check_nvb_attr E s curHeight t isPartialTx a =
    (case a_Value a of
       Some (NotValidBefore nvb) \<Rightarrow>
         (if isPartialTx
          then (case e_MaxNVBDelta E s of None \<Rightarrow> Inr False
                | Some delta \<Rightarrow> Inr (\<not> curHeight + delta < nvb \<and> \<not> nvb + delta < ValidUntilBlock t))
          else Inr (\<not> curHeight < nvb))
     | _ \<Rightarrow> Inl ''interface conversion'')"

definition check_conflicts_attr :: "kv \<Rightarrow> 'g transaction \<Rightarrow> attribute \<Rightarrow> string + bool" where
  "check_conflicts_attr d t a =
    (case conflict_hash a of None \<Rightarrow> Inl ''interface conversion''
     | Some h \<Rightarrow>
       if \<exists>c \<in> set (GetAttributes t ConflictsT). conflict_hash c = None then Inl ''interface conversion''
       else if 1 < length (filter (\<lambda>c. conflict_hash c = Some h) (GetAttributes t ConflictsT)) then Inr False
       else (case HasTransaction d h ([] :: unit signer list) 0 0 of Inl p \<Rightarrow> Inl p
             | Inr r \<Rightarrow> Inr (r \<noteq> Some ErrAlreadyExists)))"

definition check_notary_attr :: "('g, 's) env \<Rightarrow> u32 \<Rightarrow> 'g transaction \<Rightarrow> string + bool" where
  "check_notary_attr E height t =
    (if \<not> e_NotaryActive E height then Inr False
     else if \<not> HasSigner t (e_NotaryHash E) then Inr False
     else case Sender t of Inl p \<Rightarrow> Inl p
     | Inr sender \<Rightarrow> Inr (\<not> (sender = e_NotaryHash E \<and> length (Signers t) \<noteq> 2)))"

definition check_attr :: "('g, 's) env \<Rightarrow> 's \<Rightarrow> kv \<Rightarrow> u32 \<Rightarrow> 'g transaction \<Rightarrow> bool \<Rightarrow> attribute \<Rightarrow> string + bool" where
  "check_attr E s d height t isPartialTx a =
    (let typ = a_Type a
     in if typ = HighPriority then Inr (HasSigner t (e_CommitteeAddress E s))
        else if typ = OracleResponseT then check_oracle_attr E s t a
        else if typ = NotValidBeforeT then check_nvb_attr E s height t isPartialTx a
        else if typ = ConflictsT then check_conflicts_attr d t a
        else if typ = NotaryAssistedT then check_notary_attr E height t
        else Inr (\<not> (\<not> cfg_ReservedAttributes E \<and> ReservedLowerBound \<le> typ \<and> typ \<le> ReservedUpperBound)))"

fun check_attrs :: "('g, 's) env \<Rightarrow> 's \<Rightarrow> kv \<Rightarrow> u32 \<Rightarrow> 'g transaction \<Rightarrow> bool \<Rightarrow> attribute list \<Rightarrow> string + bool" where
  "check_attrs E s d height t isPartialTx [] = Inr True"
| "check_attrs E s d height t isPartialTx (a # as) =
    (case check_attr E s d height t isPartialTx a of Inl p \<Rightarrow> Inl p | Inr False \<Rightarrow> Inr False
     | Inr True \<Rightarrow> check_attrs E s d height t isPartialTx as)"

text \<open>\<open>Inr False\<close> stands for \<open>ErrInvalidAttribute\<close>, the only error.\<close>

definition verifyTxAttributes :: "('g, 's) env \<Rightarrow> ('g, 's) chain \<Rightarrow> 'g transaction \<Rightarrow> bool \<Rightarrow> string + bool" where
  "verifyTxAttributes E c t isPartialTx = check_attrs E (ledger c) (c_dao c) (blockHeight c) t isPartialTx (Attributes t)"

definition witnesses_ok :: "('g, 's) env \<Rightarrow> ('g, 's) chain \<Rightarrow> 'g transaction \<Rightarrow> bool \<Rightarrow> 64 word option \<Rightarrow> string + string option" where
  "witnesses_ok E c t isPartialTx fee =
    (case CalculateAttributesFee E (ledger c) t of Inl p \<Rightarrow> Inl p
     | Inr af \<Rightarrow> Inr (verifyTxWitnesses (cfg_registry E) (e_verifyHash E (ledger c) t) (e_FeePerByte E (ledger c)) (\<lambda>_. af)
                       (snd (tx_Size (e_genc E) t)) isPartialTx fee))"

definition pool_result :: "pool_err \<Rightarrow> chain_err" where
  "pool_result e = (case e of ErrConflict \<Rightarrow> ErrMemPoolConflict | ErrDup \<Rightarrow> ErrAlreadyInPool | ErrInsufficientFunds \<Rightarrow> ErrTxInsufficientFunds
     | ErrOOM \<Rightarrow> ErrTxOOM | ErrConflictsAttribute \<Rightarrow> ErrTxHasConflicts | ErrOracleResponse \<Rightarrow> ErrOther ''oracle response'')"

definition verifyAndPoolTx ::
  "('g, 's) env \<Rightarrow> ('g, 's) chain \<Rightarrow> 'g transaction \<Rightarrow> ('g, 'd) pool \<Rightarrow> feer \<Rightarrow> 'd option \<Rightarrow> string + chain_err option \<times> ('g, 'd) pool" where
  "verifyAndPoolTx E c t pool f d =
    (let height = blockHeight c; isPartialTx = (d \<noteq> None); s = ledger c
     in if \<not> e_IsScriptCorrect E (Script t) then Inr (Some ErrInvalidScript, pool)
        else if ValidUntilBlock t \<le> height then Inr (Some ErrTxExpired, pool)
        else if \<not> isPartialTx \<and> height + e_MaxValidUntilBlockIncrement E s < ValidUntilBlock t then Inr (Some ErrTxNotYetValid, pool)
        else if \<not> e_CheckPolicy E s t then Inr (Some ErrPolicy, pool)
        else let sz = fst (tx_Size (e_genc E) t)
        in if MaxTransactionSize < sz then Inr (Some ErrTxTooBig, pool)
           else case CalculateAttributesFee E s t of Inl p \<Rightarrow> Inl p
           | Inr af \<Rightarrow>
             (let netFee = NetworkFee t - (of_nat sz * e_FeePerByte E s + af)
              in if netFee <s 0 then Inr (Some ErrTxSmallNetworkFee, pool)
                 else if Hash_panics (e_genc E) t then Inl ''failed to compute hash''
                 else case HasTransaction (c_dao c) (tx_Hash (e_genc E) t) (Signers t) height (e_MaxTraceableBlocks E s) of Inl p \<Rightarrow> Inl p
                 | Inr (Some ErrAlreadyExists) \<Rightarrow> Inr (Some ErrTxAlreadyExists, pool)
                 | Inr (Some ErrHasConflicts) \<Rightarrow> Inr (Some ErrTxHasConflicts, pool)
                 | Inr None \<Rightarrow>
                   (case witnesses_ok E c t isPartialTx (Some netFee) of Inl p \<Rightarrow> Inl p
                    | Inr (Some w) \<Rightarrow> Inr (Some (ErrOther w), pool)
                    | Inr None \<Rightarrow>
                      (case verifyTxAttributes E c t isPartialTx of Inl p \<Rightarrow> Inl p
                       | Inr False \<Rightarrow> Inr (Some ErrInvalidAttribute, pool)
                       | Inr True \<Rightarrow>
                         (case pool_Add (e_genc E) pool t f d of Inl p \<Rightarrow> Inl p
                          | Inr (Some e, pool') \<Rightarrow> Inr (Some (pool_result e), pool')
                          | Inr (None, pool') \<Rightarrow> Inr (None, pool'))))))"

definition verifyAndPoolOffChainTx ::
  "('g, 's) env \<Rightarrow> ('g, 's) chain \<Rightarrow> 'g transaction \<Rightarrow> ('g, 'd) pool \<Rightarrow> feer \<Rightarrow> 'd option \<Rightarrow> string + chain_err option \<times> ('g, 'd) pool" where
  "verifyAndPoolOffChainTx E c t pool f d =
    (if cfg_MaxBlockSystemFee E <s SystemFee t then Inr (Some ErrPolicy, pool) else verifyAndPoolTx E c t pool f d)"

definition VerifyTx :: "('g, 's) env \<Rightarrow> ('g, 's) chain \<Rightarrow> 'g transaction \<Rightarrow> string + chain_err option" where
  "VerifyTx E c t =
    (case verifyAndPoolOffChainTx E c t (New_pool 1 0 False False :: ('g, unit) pool) (chain_feer E c) None of Inl p \<Rightarrow> Inl p | Inr (e, _) \<Rightarrow> Inr e)"

definition PoolTx :: "('g, 's) env \<Rightarrow> ('g, 's) chain \<Rightarrow> 'g transaction \<Rightarrow> string + chain_err option \<times> ('g, 's) chain" where
  "PoolTx E c t =
    (case verifyAndPoolOffChainTx E c t (memPool c) (chain_feer E c) None of Inl p \<Rightarrow> Inl p | Inr (e, mp) \<Rightarrow> Inr (e, c\<lparr>memPool := mp\<rparr>))"

definition IsTxStillRelevant :: "('g, 's) env \<Rightarrow> ('g, 's) chain \<Rightarrow> 'g transaction \<Rightarrow> ('g, 'd) pool option \<Rightarrow> bool \<Rightarrow> string + bool" where
  "IsTxStillRelevant E c t txpool isPartialTx =
    (if ValidUntilBlock t \<le> blockHeight c then Inr False
     else if Hash_panics (e_genc E) t then Inl ''failed to compute hash''
     else case (case txpool of
                  None \<Rightarrow> (case HasTransaction (c_dao c) (tx_Hash (e_genc E) t) (Signers t) (blockHeight c) (e_MaxTraceableBlocks E (ledger c)) of
                             Inl p \<Rightarrow> Inl p | Inr r \<Rightarrow> Inr (r \<noteq> None))
                | Some mp \<Rightarrow> HasConflicts (e_genc E) mp t) of
            Inl p \<Rightarrow> Inl p
          | Inr True \<Rightarrow> Inr False
          | Inr False \<Rightarrow>
            (case verifyTxAttributes E c t isPartialTx of Inl p \<Rightarrow> Inl p | Inr False \<Rightarrow> Inr False
             | Inr True \<Rightarrow>
               if \<exists>w \<in> set (Scripts t). \<not> e_IsStandardContract E (VerificationScript w)
               then (case witnesses_ok E c t isPartialTx None of Inl p \<Rightarrow> Inl p | Inr r \<Rightarrow> Inr (r = None))
               else Inr True))"

text \<open>\<open>RemoveStale\<close> with \<open>IsTxStillRelevant\<close> as its filter, which it calls for every item in turn.\<close>

definition drop_stale :: "('g, 's) env \<Rightarrow> ('g, 's) chain \<Rightarrow> ('g, unit) pool option \<Rightarrow> string + ('g, 's) chain" where
  "drop_stale E c txpool =
    (let rel = (\<lambda>t. IsTxStillRelevant E c t txpool False)
     in if \<exists>x \<in> set (verifiedTxes (memPool c)). \<exists>p. rel (txn x) = Inl p then Inl ''panic''
        else case RemoveStale (e_genc E) (memPool c) (\<lambda>t. rel t = Inr True) (chain_feer E c) of Inl p \<Rightarrow> Inl p
        | Inr (mp, _) \<Rightarrow> Inr (c\<lparr>memPool := mp\<rparr>))"

section \<open>The transactions of a block\<close>

fun policy_loop :: "'g key_encoder \<Rightarrow> u32 \<Rightarrow> 64 word \<Rightarrow> u32 \<Rightarrow> 64 word \<Rightarrow> 'g transaction list \<Rightarrow> 'g transaction list" where
  "policy_loop genc maxSize maxFee blockSize sysFee [] = []"
| "policy_loop genc maxSize maxFee blockSize sysFee (t # ts) =
    (let bs = blockSize + of_nat (fst (tx_Size genc t)); sf = sysFee + SystemFee t
     in if maxSize < bs \<or> maxFee <s sf then [] else t # policy_loop genc maxSize maxFee bs sf ts)"

text \<open>The default witness of a block is what the validators' script gives (it is cached by the number of validators).\<close>

definition ApplyPolicyToTxSet :: "('g, 's) env \<Rightarrow> 's \<Rightarrow> 'g transaction list \<Rightarrow> 'g transaction list" where
  "ApplyPolicyToTxSet E s txes =
    (let maxTx = unat (cfg_MaxTransactionsPerBlock E);
         txes1 = (if maxTx \<noteq> 0 \<and> maxTx < length txes then take maxTx txes else txes);
         size0 = of_nat (GetExpectedBlockSizeWithoutTransactions ((new_Header False)\<lparr>hd_Script := e_validators E s\<rparr>) (length txes1))
     in policy_loop (e_genc E) (cfg_MaxBlockSize E) (cfg_MaxBlockSystemFee E) size0 0 txes1)"

section \<open>Headers\<close>

definition GetHeader :: "('g, 's) env \<Rightarrow> ('g, 's) chain \<Rightarrow> hash256 \<Rightarrow> header option" where
  "GetHeader E c h =
    (case topBlock c of
       Some tb \<Rightarrow> if fst (hd_Hash (Header tb)) = h then Some (Header tb)
         else (case (GetBlock (cfg_StateRootInHeader E) (c_dao c) h :: io_err option + 'g block) of Inl _ \<Rightarrow> None | Inr b \<Rightarrow> Some (Header b))
     | None \<Rightarrow> (case (GetBlock (cfg_StateRootInHeader E) (c_dao c) h :: io_err option + 'g block) of Inl _ \<Rightarrow> None | Inr b \<Rightarrow> Some (Header b)))"

definition verifyHeader :: "('g, 's) env \<Rightarrow> ('g, 's) chain \<Rightarrow> header \<Rightarrow> header \<Rightarrow> chain_err option" where
  "verifyHeader E c currHeader prevHeader =
    (if cfg_StateRootInHeader E \<and> fst (e_stateRoot E (ledger c)) = Index prevHeader \<and> PrevStateRoot currHeader \<noteq> snd (e_stateRoot E (ledger c))
     then Some ErrHdrInvalidStateRoot
     else if fst (hd_Hash prevHeader) \<noteq> PrevHash currHeader then Some ErrHdrHashMismatch
     else if Index prevHeader + 1 \<noteq> Index currHeader then Some ErrHdrIndexMismatch
     else if Timestamp currHeader \<le> Timestamp prevHeader then Some ErrHdrInvalidTimestamp
     else case e_VerifyWitness E (ledger c) (NextConsensus prevHeader) currHeader (hd_Script currHeader) of Some e \<Rightarrow> Some (ErrOther e) | None \<Rightarrow> None)"

fun verify_headers :: "('g, 's) env \<Rightarrow> ('g, 's) chain \<Rightarrow> header \<Rightarrow> header list \<Rightarrow> chain_err option" where
  "verify_headers E c lastHeader [] = None"
| "verify_headers E c lastHeader (h # hs) = (case verifyHeader E c h lastHeader of Some e \<Rightarrow> Some e | None \<Rightarrow> verify_headers E c h hs)"

definition bc_addHeaders :: "('g, 's) env \<Rightarrow> ('g, 's) chain \<Rightarrow> bool \<Rightarrow> header list \<Rightarrow> chain_err option \<times> ('g, 's) chain" where
  "bc_addHeaders E c verify headers0 =
    (case dropWhile (\<lambda>h. Index h \<le> HeaderHeight (hashes c)) headers0 of
       [] \<Rightarrow> (None, c)
     | h0 # hs \<Rightarrow>
       let store = (case hh_addHeaders (hashes c) (h0 # hs) of
              (Some e, hh) \<Rightarrow> (Some (ErrOther ''store''), c\<lparr>hashes := hh\<rparr>) | (None, hh) \<Rightarrow> (None, c\<lparr>hashes := hh\<rparr>));
           isTrusted = (Index h0 = hi_Index (cfg_TrustedHeader E))
       in if isTrusted \<and> fst (hd_Hash h0) \<noteq> hi_Hash (cfg_TrustedHeader E) then (Some ErrTrustedMismatch, c)
          else if \<not> verify then store
          else if isTrusted then (case verify_headers E c h0 hs of Some e \<Rightarrow> (Some e, c) | None \<Rightarrow> store)
          else (case GetHeader E c (PrevHash h0) of None \<Rightarrow> (Some (ErrOther ''previous header was not found''), c)
                | Some l \<Rightarrow> (case verify_headers E c l (h0 # hs) of Some e \<Rightarrow> (Some e, c) | None \<Rightarrow> store)))"

definition AddHeaders :: "('g, 's) env \<Rightarrow> ('g, 's) chain \<Rightarrow> header list \<Rightarrow> chain_err option \<times> ('g, 's) chain" where
  "AddHeaders E c headers = bc_addHeaders E c (\<not> cfg_SkipBlockVerification E) headers"

section \<open>Blocks\<close>

fun store_txs :: "'g key_encoder \<Rightarrow> u32 \<Rightarrow> 'g transaction list \<Rightarrow> (bin_writer \<Rightarrow> bin_writer) list \<Rightarrow> kv \<Rightarrow> string + io_err option \<times> kv" where
  "store_txs genc i (t # ts) (a # as) d =
    (case StoreAsTransaction genc d t i (Some a) of Inl p \<Rightarrow> Inl p | Inr (Some e, d') \<Rightarrow> Inr (Some e, d') | Inr (None, d') \<Rightarrow> store_txs genc i ts as d')"
| "store_txs genc i _ _ d = Inr (None, d)"

text \<open>\<open>storeBlock\<close>: \<open>e_execute\<close> gives the new ledger with the encoders of the execution results of the transactions and of the
  block. Transfer logs, subscriptions and garbage collection are left out.\<close>

definition storeBlock :: "('g, 's) env \<Rightarrow> eviction \<Rightarrow> ('g, 's) chain \<Rightarrow> 'g block \<Rightarrow> ('g, unit) pool option \<Rightarrow> string + chain_err option \<times> ('g, 's) chain" where
  "storeBlock E evict c b txpool =
    (case e_execute E (ledger c) b of Inl e \<Rightarrow> Inr (Some (ErrOther e), c)
     | Inr (s', txaers, baers) \<Rightarrow>
       let i = Index (Header b); sr = e_stateRoot E s';
           rootErr = (cfg_StateRootInHeader E \<and> fst sr < HeaderHeight (hashes c) \<and> hi_Index (cfg_TrustedHeader E) < fst sr
             \<and> (case GetHeaderHash evict (hashes c) (fst sr + 1) of Inl _ \<Rightarrow> True
                | Inr (hh, _) \<Rightarrow> (case GetHeader E c hh of None \<Rightarrow> True | Some h \<Rightarrow> PrevStateRoot h \<noteq> snd sr)))
       in if rootErr then Inr (Some (ErrOther ''stateroot''), c)
          else case store_txs (e_genc E) i (Transactions b) txaers (StoreAsCurrentBlock (c_dao c) b) of Inl p \<Rightarrow> Inl p
          | Inr (Some e, _) \<Rightarrow> Inr (Some (ErrOther ''failed to store exec result''), c)
          | Inr (None, d1) \<Rightarrow>
            (case StoreAsBlock (e_genc E) d1 b baers of Inl p \<Rightarrow> Inl p
             | Inr (Some e, _) \<Rightarrow> Inr (Some (ErrOther ''store block''), c)
             | Inr (None, d2) \<Rightarrow>
               (case drop_stale E (c\<lparr>ledger := s', hashes := (hashes c)\<lparr>hh_dao := d2\<rparr>, topBlock := Some b, blockHeight := i\<rparr>) txpool of Inl p \<Rightarrow> Inl p
                | Inr c' \<Rightarrow> (case e_whitelist E (ledger c') i of Some e \<Rightarrow> Inr (Some (ErrOther e), c') | None \<Rightarrow> Inr (None, c')))))"

text \<open>The verification of the transactions of a block, into a fresh pool.\<close>

fun verify_txs :: "('g, 's) env \<Rightarrow> ('g, 's) chain \<Rightarrow> 'g transaction list \<Rightarrow> ('g, unit) pool \<Rightarrow> string + chain_err option \<times> ('g, unit) pool" where
  "verify_txs E c [] mp = Inr (None, mp)"
| "verify_txs E c (t # ts) mp =
    (if Hash_panics (e_genc E) t then Inl ''failed to compute hash''
     else case (if containsKey (memPool c) (tx_Hash (e_genc E) t)
                then (case pool_Add (e_genc E) mp t (chain_feer E c) None of Inl p \<Rightarrow> Inl p | Inr (e, mp') \<Rightarrow> Inr (map_option ErrPool e, mp'))
                else verifyAndPoolTx E c t mp (chain_feer E c) None) of
            Inl p \<Rightarrow> Inl p
          | Inr (Some e, mp') \<Rightarrow> if cfg_VerifyTransactions E then Inr (Some e, mp') else verify_txs E c ts mp'
          | Inr (None, mp') \<Rightarrow> verify_txs E c ts mp')"

text \<open>\<open>AddBlock\<close> up to the verification of the transactions: the header is already added when it is refused.\<close>

definition accept_header :: "('g, 's) env \<Rightarrow> eviction \<Rightarrow> ('g, 's) chain \<Rightarrow> 'g block \<Rightarrow> string + chain_err option \<times> ('g, 's) chain" where
  "accept_header E evict c b =
    (if Index (Header b) = HeaderHeight (hashes c) + 1
     then Inr (bc_addHeaders E c (\<not> cfg_SkipBlockVerification E) [Header b])
     else case GetHeaderHash evict (hashes c) (Index (Header b)) of Inl p \<Rightarrow> Inl p
     | Inr (expectedH, hh) \<Rightarrow> Inr (if expectedH \<noteq> fst (hd_Hash (Header b)) then Some ErrHashMismatch else None, c\<lparr>hashes := hh\<rparr>))"

definition AddBlock :: "('g, 's) env \<Rightarrow> eviction \<Rightarrow> ('g, 's) chain \<Rightarrow> 'g block \<Rightarrow> string + chain_err option \<times> ('g, 's) chain" where
  "AddBlock E evict c b =
    (let expectedHeight = blockHeight c + 1; i = Index (Header b)
     in if expectedHeight \<noteq> i then Inr (Some (if expectedHeight < i then ErrInvalidBlockIndex else ErrBlockAlreadyExists), c)
        else if cfg_StateRootInHeader E \<noteq> StateRootEnabled (Header b) then Inr (Some ErrHdrStateRootSetting, c)
        else case accept_header E evict c b of Inl p \<Rightarrow> Inl p
        | Inr (Some e, c1) \<Rightarrow> Inr (Some e, c1)
        | Inr (None, c1) \<Rightarrow>
          if cfg_SkipBlockVerification E then storeBlock E evict c1 b None
          else (case ComputeMerkleRoot (e_genc E) b of None \<Rightarrow> Inl ''failed to compute hash''
                | Some merkle \<Rightarrow>
                  if MerkleRoot (Header b) \<noteq> merkle then Inr (Some ErrMerkleRootMismatch, c1)
                  else (case verify_txs E c1 (Transactions b) (New_pool (length (Transactions b)) 0 False False) of Inl p \<Rightarrow> Inl p
                        | Inr (Some e, _) \<Rightarrow> Inr (Some e, c1)
                        | Inr (None, mp) \<Rightarrow> storeBlock E evict c1 b (Some mp))))"

section \<open>Pooling\<close>

lemma check_attrs_all:
  "check_attrs E s d height t pt as = Inr True \<Longrightarrow> \<forall>a \<in> set as. check_attr E s d height t pt a = Inr True"
  by (induction as) (auto split: sum.splits bool.splits)

lemma check_conflicts_single:
  "check_attr E s d height t pt a = Inr True \<Longrightarrow> a_Type a = ConflictsT \<Longrightarrow> conflict_hash a = Some h
   \<Longrightarrow> length (filter (\<lambda>c. conflict_hash c = Some h) (GetAttributes t ConflictsT)) \<le> 1"
  by (auto simp: check_attr_def Let_def check_conflicts_attr_def split: if_splits option.splits sum.splits)

lemma distinct_filter_le: "(\<And>x. x \<in> set xs \<Longrightarrow> length (filter (\<lambda>y. f y = f x) xs) \<le> 1) \<Longrightarrow> distinct (map f xs)"
proof (induction xs)
  case (Cons x xs)
  have "filter (\<lambda>y. f y = f x) xs = []" using Cons.prems [of x] by simp
  then have "f x \<notin> f ` set xs" by (auto simp: filter_empty_conv)
  moreover have "distinct (map f xs)"
  proof (rule Cons.IH)
    fix z assume "z \<in> set xs"
    then show "length (filter (\<lambda>y. f y = f z) xs) \<le> 1" using Cons.prems [of z] by (auto split: if_splits)
  qed
  ultimately show ?case by simp
qed simp

lemma attributes_name_once:
  assumes "verifyTxAttributes E c t pt = Inr True" "typed_attrs t"
  shows "distinct (named_hashes t)"
  unfolding named_hashes_def
proof (rule distinct_filter_le)
  fix a assume a: "a \<in> set (GetAttributes t ConflictsT)"
  then have m: "a \<in> set (Attributes t)" "a_Type a = ConflictsT" by (auto simp: GetAttributes_def)
  obtain h where h: "conflict_hash a = Some h" using typed_conflicts [OF assms(2) a] by auto
  have "\<forall>b \<in> set (GetAttributes t ConflictsT). conflict_hash b \<noteq> None" using typed_conflicts [OF assms(2)] by blast
  then have "filter (\<lambda>c. the (conflict_hash c) = the (conflict_hash a)) (GetAttributes t ConflictsT)
      = filter (\<lambda>c. conflict_hash c = Some h) (GetAttributes t ConflictsT)"
    by (intro filter_cong) (auto simp: h)
  moreover have "check_attr E (ledger c) (c_dao c) (blockHeight c) t pt a = Inr True"
    using check_attrs_all [OF assms(1) [unfolded verifyTxAttributes_def]] m(1) by simp
  ultimately show "length (filter (\<lambda>c. the (conflict_hash c) = the (conflict_hash a)) (GetAttributes t ConflictsT)) \<le> 1"
    using check_conflicts_single [OF _ m(2) h] by simp
qed

definition named_once :: "('g, 'd) pool \<Rightarrow> bool" where
  "named_once mp \<longleftrightarrow> (\<forall>x \<in> set (verifiedTxes mp). distinct (named_hashes (txn x)))"

lemma count_list_distinct: "distinct xs \<Longrightarrow> count_list xs h \<le> 1"
  by (induction xs) (auto simp: count_list_0_iff)

lemma sum_namings:
  "\<forall>x \<in> set xs. distinct (named_hashes (txn x)) \<Longrightarrow> (\<Sum>x\<leftarrow>xs. namings genc h x) \<subseteq># mset (map (item_hash genc) xs)"
proof (induction xs)
  case (Cons x xs)
  have "count_list (named_hashes (txn x)) h \<le> 1" using Cons.prems by (intro count_list_distinct) simp
  then have "namings genc h x \<subseteq># {#item_hash genc x#}"
    by (cases "count_list (named_hashes (txn x)) h") (auto simp: namings_def)
  then show ?case using Cons by (simp add: subset_mset.add_mono [where a = "namings genc h x" and b = "{#item_hash genc x#}", simplified])
qed simp

lemma distinct_submset:
  assumes "mset xs \<subseteq># mset ys" "distinct ys"
  shows "distinct xs"
  unfolding distinct_count_atmost_1
proof
  fix a
  have "count (mset xs) a \<le> count (mset ys) a" using assms(1) by (rule mset_subset_eq_count)
  also have "\<dots> \<le> 1" using assms(2) by (simp add: distinct_count_atmost_1)
  finally have le: "count (mset xs) a \<le> 1" .
  show "count (mset xs) a = (if a \<in> set xs then 1 else 0)"
  proof (cases "a \<in> set xs")
    case True
    then have "0 < count (mset xs) a" by simp
    then have "count (mset xs) a = 1" using le by linarith
    then show ?thesis by (simp only: True if_True)
  qed (simp add: count_eq_zero_iff)
qed

text \<open>No pooled transaction and \<open>t\<close> name each other, which would need the hash of each to be part of the other.\<close>

definition no_mutual :: "'g key_encoder \<Rightarrow> ('g, 'd) pool \<Rightarrow> 'g transaction \<Rightarrow> bool" where
  "no_mutual genc mp t \<longleftrightarrow> (\<forall>x \<in> set (verifiedTxes mp). tx_Hash genc t \<in> set (named_hashes (txn x)) \<longrightarrow> item_hash genc x \<notin> set (named_hashes t))"

lemma displaced_distinct:
  assumes "exact genc X mp" "named_once mp" "distinct (named_hashes t)" "no_mutual genc mp t"
  shows "distinct (displaced genc mp t)"
proof -
  have ci: "conflict_index genc (conflicts mp) (verifiedTxes mp)" "distinct (map (item_hash genc) (verifiedTxes mp))"
    using assms(1) by (simp_all add: indexed_def hash_index_def)
  have m: "mset (list_at (conflicts mp) (tx_Hash genc t)) = (\<Sum>x\<leftarrow>verifiedTxes mp. namings genc (tx_Hash genc t) x)"
    using ci(1) by (simp add: conflict_index_def)
  then have "distinct (list_at (conflicts mp) (tx_Hash genc t))"
    using sum_namings [of "verifiedTxes mp" genc "tx_Hash genc t"] assms(2) ci(2) by (intro distinct_submset [OF _ ci(2)]) (simp add: named_once_def)
  moreover have "set (list_at (conflicts mp) (tx_Hash genc t)) \<inter> set (named_hashes t) = {}"
  proof (rule ccontr)
    assume "set (list_at (conflicts mp) (tx_Hash genc t)) \<inter> set (named_hashes t) \<noteq> {}"
    then obtain h where h: "h \<in># (\<Sum>x\<leftarrow>verifiedTxes mp. namings genc (tx_Hash genc t) x)" "h \<in> set (named_hashes t)"
      using m by (metis disjoint_iff set_mset_mset)
    then obtain x where x: "x \<in> set (verifiedTxes mp)" "h \<in># namings genc (tx_Hash genc t) x"
      by (induction "verifiedTxes mp" arbitrary: mp) auto
    then have "h = item_hash genc x" "tx_Hash genc t \<in> set (named_hashes (txn x))"
      by (auto simp: namings_def in_replicate_mset count_list_0_iff split: if_splits)
    then show False using assms(4) x(1) h(2) by (auto simp: no_mutual_def)
  qed
  ultimately show ?thesis using assms(3) by (auto simp: displaced_def)
qed

lemma attr_ok_value:
  assumes "attr_ok a"
  shows "a_Type a = ConflictsT \<Longrightarrow> \<exists>h. a_Value a = Some (Conflicts h)"
    "a_Type a = OracleResponseT \<Longrightarrow> \<exists>i c r. a_Value a = Some (OracleResponse i c r)"
    "a_Type a = NotValidBeforeT \<Longrightarrow> \<exists>h. a_Value a = Some (NotValidBefore h)"
    "a_Type a = NotaryAssistedT \<Longrightarrow> \<exists>n. a_Value a = Some (NotaryAssisted n)"
  using assms by (auto split: option.splits attr_value.splits)

lemma tx_attrs_typed: "fields_ok gv t \<Longrightarrow> typed_attrs t"
  unfolding fields_ok_def typed_attrs_def using attr_ok_value(1,2) by (fastforce simp: conflict_hash_def response_id_def simp del: attr_ok.simps)

text \<open>What can panic while a transaction is verified does not, for a transaction the decoder accepts.\<close>

lemma HasTransaction_total:
  assumes "records_ok s" "\<forall>sg \<in> set ss. Account sg \<noteq> []"
  shows "\<exists>r. HasTransaction s h ss cur mtb = Inr r"
proof -
  have "\<exists>r. conflict_loop s (makeExecutableKey h) cur mtb ss = Inr r"
    using assms(2)
  proof (induction ss)
    case (Cons sg ss)
    have "5 \<le> length v" if "s (makeExecutableKey h @ Account sg) = Some v" for v
      using that assms(1) Cons.prems by (auto simp: records_ok_def)
    then show ?case using Cons by (cases "s (makeExecutableKey h @ Account sg)") (auto simp: isTraceableBlock_def Let_def split: bool.splits)
  qed simp
  then show ?thesis
    by (auto simp: HasTransaction_def Let_def isTraceableBlock_def conflictRecordValueLen_def split: option.splits bool.splits)
qed

lemma attr_fees_total: "\<forall>a \<in> set as. attr_ok a \<Longrightarrow> \<exists>f. attr_fees E s n as acc = Inr f"
proof (induction as arbitrary: acc)
  case (Cons a as)
  then show ?case using attr_ok_value(4) [of a] by (auto simp: Let_def simp del: attr_ok.simps)
qed simp

lemma check_attr_total:
  assumes "fields_ok gv t" "a \<in> set (Attributes t)" "records_ok d"
  shows "\<exists>r. check_attr E s d height t pt a = Inr r"
proof -
  have a: "attr_ok a" using assms(1,2) by (simp add: fields_ok_def del: attr_ok.simps)
  have ty: "typed_attrs t" using assms(1) by (rule tx_attrs_typed)
  have sg: "\<exists>x. Sender t = Inr x" using assms(1) by (cases "Signers t") (auto simp: fields_ok_def isValid_def Sender_def split: if_splits)
  have "\<exists>r. check_oracle_attr E s t a = Inr r" if "a_Type a = OracleResponseT"
    using attr_ok_value(2) [OF a that] by (auto simp: check_oracle_attr_def split: option.splits)
  moreover have "\<exists>r. check_nvb_attr E s height t pt a = Inr r" if "a_Type a = NotValidBeforeT"
    using attr_ok_value(3) [OF a that] by (auto simp: check_nvb_attr_def split: option.splits)
  moreover have "\<exists>r. check_conflicts_attr d t a = Inr r" if ct: "a_Type a = ConflictsT"
  proof -
    obtain h where h: "conflict_hash a = Some h" using attr_ok_value(1) [OF a ct] by (auto simp: conflict_hash_def)
    have nn: "\<not> (\<exists>c \<in> set (GetAttributes t ConflictsT). conflict_hash c = None)" using typed_conflicts [OF ty] by blast
    obtain r where "HasTransaction d h ([] :: unit signer list) 0 0 = Inr r"
      using HasTransaction_total [OF assms(3), of "[] :: unit signer list" h 0 0] by auto
    then show ?thesis by (simp only: check_conflicts_attr_def h nn option.case if_False sum.case) auto
  qed
  moreover have "\<exists>r. check_notary_attr E height t = Inr r" using sg by (auto simp: check_notary_attr_def)
  ultimately show ?thesis by (auto simp: check_attr_def Let_def)
qed

lemma check_attrs_total:
  "fields_ok gv t \<Longrightarrow> set as \<subseteq> set (Attributes t) \<Longrightarrow> records_ok d \<Longrightarrow> \<exists>r. check_attrs E s d height t pt as = Inr r"
proof (induction as)
  case (Cons a as)
  then obtain r where "check_attr E s d height t pt a = Inr r" using check_attr_total [of gv t a d E s height pt] by auto
  then show ?case using Cons by (cases r) auto
qed auto

text \<open>The invariant of the chain's pool: what \<open>Mempool\<close> proves of it, and that no transaction names a hash twice.\<close>

definition chain_pool_ok :: "('g, 's) env \<Rightarrow> (u64 \<times> hash256) set \<Rightarrow> ('g, 'd) pool \<Rightarrow> bool" where
  "chain_pool_ok E X mp \<longleftrightarrow> pool_inv (e_genc E) X mp \<and> solvent mp \<and> named_once mp \<and> capacity mp < 2 ^ 190"

lemma survivors_subset: "set (survivors genc mp t) \<subseteq> set (verifiedTxes mp)"
  by (auto simp: survivors_def staying_def Let_def dest: in_set_butlastD split: if_splits)

lemma pool_Add_chain_ok:
  assumes "chain_pool_ok E X mp" "poolable (e_genc E) (payerIndex mp) t" "unclaimed (e_genc E) X t"
    "distinct (named_hashes t)" "no_mutual (e_genc E) mp t"
  shows "\<exists>e mp'. pool_Add (e_genc E) mp t f d = Inr (e, mp') \<and> chain_pool_ok E (if e = Some ErrOOM then pending (e_genc E) t X else X) mp'"
proof -
  let ?g = "e_genc E"
  have inv: "pool_inv ?g X mp" "solvent mp" "named_once mp" "capacity mp < 2 ^ 190" using assms(1) by (simp_all add: chain_pool_ok_def)
  have dd: "distinct (displaced ?g mp t)"
    using displaced_distinct inv(1,3) assms(4,5) by (auto simp: pool_inv_def)
  obtain p where p: "payer_of (payerIndex mp) t = Some p" using assms(2) by (auto simp: poolable_def payer_of_def)
  from inv(1) assms(2,3) p show ?thesis
  proof (cases rule: pool_Add_spec [where f = f and d = d])
    case (refused e mp')
    then have "solvent mp'" using refused_solvent [OF inv(1,2)] by blast
    then show ?thesis using refused inv by (auto simp: chain_pool_ok_def named_once_def same_setup_def)
  next
    case (added n mp')
    then have "solvent mp'" using pool_Add_solvent [OF inv(1) assms(2,3) inv(2) dd inv(4)] by blast
    moreover have "named_once mp'"
      using added(4) assms(4) inv(3) survivors_subset [of ?g mp t] by (auto simp: named_once_def dest: in_set_takeD in_set_dropD)
    ultimately show ?thesis using added inv by (auto simp: chain_pool_ok_def same_setup_def)
  qed
qed



definition demo_env :: "(u64, unit) env" where
  "demo_env = \<lparr>e_genc = WriteU64LE, cfg_MaxTransactionsPerBlock = 512, cfg_MaxBlockSize = 262144, cfg_MaxBlockSystemFee = 1000000,
     cfg_StateRootInHeader = False, cfg_SkipBlockVerification = False, cfg_VerifyTransactions = True, cfg_ReservedAttributes = False,
     cfg_P2PSigExtensions = False, cfg_TrustedHeader = \<lparr>hi_Hash = zero256, hi_Index = 0\<rparr>, cfg_registry = NewRegistry,
     e_IsScriptCorrect = (\<lambda>_. True), e_IsStandardContract = (\<lambda>_. True), e_verifyHash = (\<lambda>_ _ _ _ _. (0, Some True)), e_VerifyWitness = (\<lambda>_ _ _ _. None),
     e_execute = (\<lambda>_ _. Inr ((), [], [])), e_whitelist = (\<lambda>_ _. None), e_stateRoot = (\<lambda>_. (0, zero256)),
     e_MaxValidUntilBlockIncrement = (\<lambda>_. 5760), e_MaxTraceableBlocks = (\<lambda>_. 100), e_CheckPolicy = (\<lambda>_ _. True),
     e_FeePerByte = (\<lambda>_. 0), e_AttributeFee = (\<lambda>_ _. 0), e_Balance = (\<lambda>_ _. 5000), e_CommitteeAddress = (\<lambda>_. []),
     e_oracle = False, e_OracleHash = (\<lambda>_. None), e_OracleScript = [], e_OracleRequest = (\<lambda>_ _. None), e_MaxNVBDelta = (\<lambda>_. None),
     e_NotaryActive = (\<lambda>_. False), e_NotaryHash = [], e_validators = (\<lambda>_. \<lparr>InvocationScript = [], VerificationScript = []\<rparr>)\<rparr>"

definition demo_chain :: "(u64, unit) chain" where
  "demo_chain = \<lparr>ledger = (), hashes = initMinTrustedHeader Map.empty \<lparr>hi_Hash = replicate 32 9, hi_Index = 0\<rparr>,
     memPool = New_pool 10 0 False False, blockHeight = 0, topBlock = None\<rparr>"


section \<open>The policy for a block\<close>

definition size_sum :: "'g key_encoder \<Rightarrow> 'g transaction list \<Rightarrow> nat" where
  "size_sum genc ts = (\<Sum>t\<leftarrow>ts. fst (tx_Size genc t))"

definition fee_total :: "'g transaction list \<Rightarrow> int" where
  "fee_total ts = (\<Sum>t\<leftarrow>ts. sint (SystemFee t))"

definition base_size :: "('g, 's) env \<Rightarrow> 's \<Rightarrow> nat \<Rightarrow> nat" where
  "base_size E s n = GetExpectedBlockSizeWithoutTransactions ((new_Header False)\<lparr>hd_Script := e_validators E s\<rparr>) n"

lemma policy_loop_spec:
  assumes "n + size_sum genc ts < 2 ^ 32" "0 \<le> f" "f + fee_total ts < 2 ^ 63" "\<forall>t \<in> set ts. 0 \<le> sint (SystemFee t)"
  shows "\<exists>k \<le> length ts. policy_loop genc ms mf (of_nat n) (of_int f) ts = take k ts
    \<and> (0 < k \<longrightarrow> n + size_sum genc (take k ts) \<le> unat ms \<and> f + fee_total (take k ts) \<le> sint mf)
    \<and> (k < length ts \<longrightarrow> unat ms < n + size_sum genc (take (Suc k) ts) \<or> sint mf < f + fee_total (take (Suc k) ts))"
  using assms
proof (induction ts arbitrary: n f)
  case (Cons t ts)
  let ?n = "n + fst (tx_Size genc t)" let ?f = "f + sint (SystemFee t)"
  have nn: "0 \<le> fee_total ts" using Cons.prems(4) unfolding fee_total_def by (intro sum_list_nonneg) auto
  have b: "?n + size_sum genc ts < 2 ^ 32" "0 \<le> ?f" "?f + fee_total ts < 2 ^ 63"
    using Cons.prems by (simp_all add: size_sum_def fee_total_def)
  have u: "unat (of_nat ?n :: u32) = ?n" using b(1) by (intro unat_small) linarith
  have g: "sint (of_int ?f :: 64 word) = ?f" using b(2,3) nn by (simp add: sint_sbintrunc' signed_take_bit_int_eq_self del: of_int_add)
  have bs: "(of_nat n + of_nat (fst (tx_Size genc t)) :: u32) = of_nat ?n" by simp
  have sf: "(of_int f + SystemFee t :: 64 word) = of_int ?f" by simp
  show ?case
  proof (cases "unat ms < ?n \<or> sint mf < ?f")
    case True
    then show ?thesis using u g
      by (intro exI [of _ 0]) (auto simp: Let_def bs sf word_less_nat_alt word_sless_alt size_sum_def fee_total_def simp del: of_nat_add of_int_add)
  next
    case False
    have l: "policy_loop genc ms mf (of_nat n) (of_int f) (t # ts) = t # policy_loop genc ms mf (of_nat ?n) (of_int ?f) ts"
      using False u g by (simp add: Let_def bs sf word_less_nat_alt word_sless_alt del: of_nat_add of_int_add)
    obtain k where "k \<le> length ts" "policy_loop genc ms mf (of_nat ?n) (of_int ?f) ts = take k ts"
      "0 < k \<longrightarrow> ?n + size_sum genc (take k ts) \<le> unat ms \<and> ?f + fee_total (take k ts) \<le> sint mf"
      "k < length ts \<longrightarrow> unat ms < ?n + size_sum genc (take (Suc k) ts) \<or> sint mf < ?f + fee_total (take (Suc k) ts)"
      using Cons.IH [OF b] Cons.prems(4) by auto
    then show ?thesis using False l by (intro exI [of _ "Suc k"]) (cases k; auto simp: size_sum_def fee_total_def)
  qed
qed simp

text \<open>C36. The transactions for a block: as long as the sizes and system fees do not overflow, \<open>ApplyPolicyToTxSet\<close> returns the longest
  prefix of the pool's transactions that keeps the number of transactions, the size of the block (with the default witness, and the
  count of all the candidates) and the sum of the system fees within the configured limits.\<close>

theorem ApplyPolicy_longest_prefix:
  assumes "n = (if cfg_MaxTransactionsPerBlock E = 0 then length ts else min (unat (cfg_MaxTransactionsPerBlock E)) (length ts))"
    and "base_size E s n + size_sum (e_genc E) ts < 2 ^ 32" and "fee_total ts < 2 ^ 63" and "\<forall>t \<in> set ts. 0 \<le> sint (SystemFee t)"
  shows "\<exists>k \<le> n. ApplyPolicyToTxSet E s ts = take k ts
    \<and> (0 < k \<longrightarrow> base_size E s n + size_sum (e_genc E) (take k ts) \<le> unat (cfg_MaxBlockSize E)
        \<and> fee_total (take k ts) \<le> sint (cfg_MaxBlockSystemFee E))
    \<and> (k < n \<longrightarrow> unat (cfg_MaxBlockSize E) < base_size E s n + size_sum (e_genc E) (take (Suc k) ts)
        \<or> sint (cfg_MaxBlockSystemFee E) < fee_total (take (Suc k) ts))"
proof -
  let ?ts = "take n ts" let ?g = "e_genc E"
  have n: "n \<le> length ts" using assms(1) by auto
  have tl: "?ts @ drop n ts = ts" by simp
  have sz: "size_sum ?g ?ts \<le> size_sum ?g ts"
    by (subst (2) tl [symmetric]) (simp only: size_sum_def map_append sum_list_append le_add1)
  have "0 \<le> fee_total (drop n ts)" using assms(4) unfolding fee_total_def by (intro sum_list_nonneg) (auto dest: in_set_dropD)
  then have fe: "fee_total ?ts \<le> fee_total ts"
    by (subst (2) tl [symmetric]) (simp only: fee_total_def map_append sum_list_append)
  have e: "ApplyPolicyToTxSet E s ts = policy_loop ?g (cfg_MaxBlockSize E) (cfg_MaxBlockSystemFee E) (of_nat (base_size E s n)) (of_int 0) ?ts"
    using assms(1) by (auto simp: ApplyPolicyToTxSet_def Let_def base_size_def word_unat_eq_iff min_def)
  have b: "base_size E s n + size_sum ?g ?ts < 2 ^ 32" "0 + fee_total ?ts < 2 ^ 63" using assms(2,3) sz fe by linarith+
  have nn: "\<forall>t \<in> set ?ts. 0 \<le> sint (SystemFee t)" using assms(4) by (auto dest: in_set_takeD)
  obtain k where k: "k \<le> length ?ts" "ApplyPolicyToTxSet E s ts = take k ?ts"
    "0 < k \<longrightarrow> base_size E s n + size_sum ?g (take k ?ts) \<le> unat (cfg_MaxBlockSize E) \<and> 0 + fee_total (take k ?ts) \<le> sint (cfg_MaxBlockSystemFee E)"
    "k < length ?ts \<longrightarrow> unat (cfg_MaxBlockSize E) < base_size E s n + size_sum ?g (take (Suc k) ?ts) \<or> sint (cfg_MaxBlockSystemFee E) < 0 + fee_total (take (Suc k) ?ts)"
    unfolding e using policy_loop_spec [OF b(1) order_refl b(2) nn] by blast
  have l: "length ?ts = n" using n by simp
  have "take k ?ts = take k ts" "k < n \<longrightarrow> take (Suc k) ?ts = take (Suc k) ts" using k(1) l by (simp_all add: min_def)
  then show ?thesis using k unfolding l by (intro exI [of _ k]) auto
qed

theorem ApplyPolicy_longest_prefix_witness:
  "\<exists>k \<le> 2. ApplyPolicyToTxSet demo_env () [pool_tx [1] 3000 [], pool_tx [2] 1000 []] = take k [pool_tx [1] 3000 [], pool_tx [2] 1000 []]"
proof -
  let ?ts = "[pool_tx [1] 3000 [], pool_tx [2] 1000 []]"
  have n: "2 = (if cfg_MaxTransactionsPerBlock demo_env = 0 then length ?ts else min (unat (cfg_MaxTransactionsPerBlock demo_env)) (length ?ts))"
    by (simp add: demo_env_def)
  have "size_sum (e_genc demo_env) ?ts = 200" by (simp add: size_sum_def tx_Size_def pool_tx_def)
  then have "base_size demo_env () 2 + size_sum (e_genc demo_env) ?ts < 2 ^ 32"
    by (simp add: base_size_def GetExpectedBlockSizeWithoutTransactions_def demo_env_def expectedHeaderSizeWithEmptyWitness_def
        counted_def hd_EncodeBinary_ok NewBufBinWriter_def hd_wire_def hd_hashable_wire_def new_Header_def zero256_def witness.enc_ok
        witness_ok_def witness_wire_def var_wire_def length_PutVarUint getVarIntSize_def del: nat_le.simps)
  moreover have "fee_total ?ts < 2 ^ 63" "\<forall>t \<in> set ?ts. 0 \<le> sint (SystemFee t)" by (simp_all add: fee_total_def)
  ultimately show ?thesis using ApplyPolicy_longest_prefix [OF n] by blast
qed

section \<open>A block whose transactions are refused\<close>

lemma bc_addHeaders_one:
  assumes "bc_addHeaders E c v [x] = (None, c1)" "hh_inv H (hashes c)" "hdr_ok x" "length H + 1 < 2 ^ 32" "Index x = of_nat (length H)"
  shows "\<exists>hh. c1 = c\<lparr>hashes := hh\<rparr> \<and> hh_inv (H @ [fst (hd_Hash x)]) hh"
proof -
  have nh: "fold next_hash [x] H = H @ [fst (hd_Hash x)]"
    using assms(4,5) by (simp add: next_hash_def)
  obtain hh where hh: "hh_addHeaders (hashes c) [x] = (None, hh)" "hh_inv (H @ [fst (hd_Hash x)]) hh"
    using hh_addHeaders_spec [OF assms(2), of "[x]"] assms(3,4) nh by auto
  have H: "H \<noteq> []" "length H < 2 ^ 32" using assms(2) by (simp_all add: hh_inv_def)
  have "\<not> length H \<le> length H - 1" using H(1) by (cases H) simp_all
  then have "\<not> Index x \<le> HeaderHeight (hashes c)"
    using lastHeaderIndex_eq(2) [OF assms(2)] H assms(5) by (simp add: HeaderHeight_def word_le_nat_alt unat_small del: of_nat_less_iff)
  then have "c1 = c\<lparr>hashes := hh\<rparr>"
    using assms(1) hh(1) by (auto simp: bc_addHeaders_def Let_def split: if_splits option.splits)
  then show ?thesis using hh(2) by blast
qed

lemma drop_stale_height: "drop_stale E c p = Inr c' \<Longrightarrow> blockHeight c' = blockHeight c"
  by (auto simp: drop_stale_def Let_def split: if_splits sum.splits)

lemma storeBlock_error:
  "storeBlock E ev c b p = Inr (Some e, c') \<Longrightarrow> blockHeight c' = Index (Header b) \<or> c' = c"
  by (auto simp: storeBlock_def Let_def dest: drop_stale_height split: if_splits sum.splits option.splits prod.splits)

lemma AddBlock_error:
  assumes "AddBlock E ev c b = Inr (Some e, c')" "accept_header E ev c b = Inr (None, c1)" "blockHeight c' \<noteq> Index (Header b)"
    "blockHeight c + 1 = Index (Header b)" "StateRootEnabled (Header b) = cfg_StateRootInHeader E"
  shows "c' = c1"
proof -
  have "c' = c1" if "storeBlock E ev c1 b p = Inr (Some e, c')" for p using storeBlock_error [OF that] assms(3) by simp
  then show ?thesis using assms by (auto simp: AddBlock_def Let_def split: if_splits sum.splits option.splits)
qed

text \<open>C37. \<open>AddBlock\<close> adds the header of a block before it looks at the Merkle root and the transactions, and does not take it back:
  after a block whose header is accepted and which is then refused, every other block for that height is refused as well,
  whatever it holds, because its hash is not the one of the header already there.\<close>

theorem refused_block_blocks_height:
  assumes "hh_inv H (hashes c)" and "\<forall>m. evict m \<subseteq>\<^sub>m m" and "length H + 1 < 2 ^ 32" and "blockHeight c + 1 = of_nat (length H)"
    and "Index (Header b) = of_nat (length H)" and "hdr_ok (Header b)" and "StateRootEnabled (Header b) = cfg_StateRootInHeader E"
    and "accept_header E evict c b = Inr (None, c1)"
    and "AddBlock E evict c b = Inr (Some e, c')" and "blockHeight c' = blockHeight c"
    and "Index (Header b') = Index (Header b)" and "StateRootEnabled (Header b') = cfg_StateRootInHeader E"
    and "fst (hd_Hash (Header b')) \<noteq> fst (hd_Hash (Header b))"
  shows "\<exists>c''. AddBlock E evict c' b' = Inr (Some ErrHashMismatch, c'') \<and> blockHeight c'' = blockHeight c"
proof -
  have nx: "Index (Header b) = HeaderHeight (hashes c) + 1" using lastHeaderIndex_eq(3) [OF assms(1)] assms(5) by (simp add: HeaderHeight_def)
  have ne: "blockHeight c' \<noteq> Index (Header b)" using assms(4,5,10) by (metis add_cancel_right_right zero_neq_one)
  have c': "c' = c1" using AddBlock_error [OF assms(9,8) ne _ assms(7)] assms(4,5) by simp
  obtain hh where hh: "c1 = c\<lparr>hashes := hh\<rparr>" "hh_inv (H @ [fst (hd_Hash (Header b))]) hh"
    using bc_addHeaders_one [of E c "\<not> cfg_SkipBlockVerification E", OF _ assms(1,6,3,5)] assms(8) nx by (auto simp: accept_header_def)
  have g: "\<exists>h'. GetHeaderHash evict hh (Index (Header b)) = Inr (fst (hd_Hash (Header b)), h')"
    using GetHeaderHash_eq [OF hh(2), of evict "Index (Header b)"] assms(2,3,5) by (auto simp: unat_small simp del: of_nat_less_iff)
  have "Index (Header b) \<noteq> HeaderHeight hh + 1"
    using lastHeaderIndex_eq(1) [OF hh(2)] assms(5) by (simp add: HeaderHeight_def)
  then show ?thesis using g c' hh(1) assms(4,5,11-13) by (auto simp: AddBlock_def accept_header_def Let_def)
qed

text \<open>A block whose only fault is its Merkle root, and an empty block at the same height.\<close>

theorem refused_block_blocks_height_witness:
  "let b = (New_block False)\<lparr>Header := (new_Header False)\<lparr>PrevHash := replicate 32 9, Index := 1, Timestamp := 5, MerkleRoot := replicate 32 1, hd_hash := replicate 32 8\<rparr>\<rparr>;
       b' = (New_block False)\<lparr>Header := (new_Header False)\<lparr>PrevHash := replicate 32 9, Index := 1, Timestamp := 6, hd_hash := replicate 32 7\<rparr>\<rparr>;
       c = demo_chain\<lparr>topBlock := Some ((New_block False)\<lparr>Header := (new_Header False)\<lparr>hd_hash := replicate 32 9\<rparr>\<rparr>)\<rparr>
   in \<exists>c' c''. AddBlock demo_env id c b = Inr (Some ErrMerkleRootMismatch, c') \<and> AddBlock demo_env id c' b' = Inr (Some ErrHashMismatch, c'')"
proof -
  let ?b = "(New_block False)\<lparr>Header := (new_Header False)\<lparr>PrevHash := replicate 32 9, Index := 1, Timestamp := 5, MerkleRoot := replicate 32 1, hd_hash := replicate 32 8\<rparr>\<rparr> :: u64 block"
  let ?b' = "(New_block False)\<lparr>Header := (new_Header False)\<lparr>PrevHash := replicate 32 9, Index := 1, Timestamp := 6, hd_hash := replicate 32 7\<rparr>\<rparr> :: u64 block"
  let ?g = "(new_Header False)\<lparr>hd_hash := replicate 32 9\<rparr>"
  let ?c = "demo_chain\<lparr>topBlock := Some ((New_block False)\<lparr>Header := ?g\<rparr>)\<rparr>"
  have i: "hh_inv [replicate 32 9] (hashes ?c)" using init_genesis [of "replicate 32 9"] by (simp add: demo_chain_def)
  have ok: "hdr_ok (Header ?b)" by (simp add: hdr_ok_def header_ok_def new_Header_def zero256_def witness_ok_def)
  have h: "fst (hd_Hash (Header ?b)) = replicate 32 8" "fst (hd_Hash (Header ?b')) = replicate 32 7" "fst (hd_Hash ?g) = replicate 32 9"
    by (simp_all add: hd_Hash_def zero256_def)
  obtain hh where hh: "hh_addHeaders (hashes ?c) [Header ?b] = (None, hh)"
    using hh_addHeaders_spec [OF i, of "[Header ?b]"] ok by auto
  have nx: "HeaderHeight (hashes ?c) = 0" using lastHeaderIndex_eq(1) [OF i] by (simp add: HeaderHeight_def)
  have t: "topBlock ?c = Some ((New_block False)\<lparr>Header := ?g\<rparr>)" by simp
  have v: "verify_headers demo_env ?c ?g [Header ?b] = None"
    using h by (simp add: verifyHeader_def demo_env_def new_Header_def)
  have gh: "GetHeader demo_env ?c (PrevHash (Header ?b)) = Some ?g" using h by (simp add: GetHeader_def)
  have "bc_addHeaders demo_env ?c True [Header ?b] = (None, ?c\<lparr>hashes := hh\<rparr>)"
    using nx hh v gh by (simp add: bc_addHeaders_def demo_env_def)
  then have acc: "accept_header demo_env id ?c ?b = Inr (None, ?c\<lparr>hashes := hh\<rparr>)"
    using nx by (simp add: accept_header_def demo_env_def)
  have sre: "\<not> StateRootEnabled (new_Header False)" by (simp add: new_Header_def)
  have add: "AddBlock demo_env id ?c ?b = Inr (Some ErrMerkleRootMismatch, ?c\<lparr>hashes := hh\<rparr>)"
    using acc sre by (simp add: AddBlock_def Let_def ComputeMerkleRoot_def CalcMerkleRoot.simps zero256_def demo_env_def demo_chain_def New_block_def)
  have "\<exists>c''. AddBlock demo_env id (?c\<lparr>hashes := hh\<rparr>) ?b' = Inr (Some ErrHashMismatch, c'') \<and> blockHeight c'' = blockHeight ?c"
    using h by (intro refused_block_blocks_height [OF i _ _ _ _ ok _ acc add]) (simp_all add: demo_chain_def demo_env_def new_Header_def)
  then show ?thesis using add unfolding Let_def by blast
qed

end
