(* ===== verification/DevNode.thy ===== *)
theory DevNode
  imports ChainVerify ChainPersist
begin

text \<open>
  The development node: \<open>BlockBuilder\<close> and \<open>Producer\<close> of \<open>pkg/nanvil/producer/producer.go\<close>, \<open>MineBlock\<close> and \<open>ResetChain\<close> of
  \<open>pkg/nanvil/node/node.go\<close>, \<open>relayTxn\<close> of \<open>pkg/network/server.go\<close> as the node uses it, and the \<open>nanvil_*\<close> handlers of
  \<open>pkg/nanvil/rpc/handlers.go\<close>. The clock is an argument of what reads it, in milliseconds. A handler takes what the readers of
  its parameters return. A Go panic is \<open>Inl\<close>.
\<close>

section \<open>State\<close>

text \<open>\<open>neotest.MultiSigner\<close>: each account signs a hash for a network; \<open>ms_m\<close> signatures make an invocation script.\<close>

record multiSigner =
  ms_accounts :: "(u32 \<Rightarrow> hash256 \<Rightarrow> bytes) list"
  ms_m :: nat
  ms_Script :: bytes
  ms_ScriptHash :: uint160

definition SignHashable :: "multiSigner \<Rightarrow> u32 \<Rightarrow> hash256 \<Rightarrow> bytes" where
  "SignHashable v magic h = concat (map (\<lambda>acc. [0x0C, 64] @ acc magic h) (take (ms_m v) (ms_accounts v)))"

record ('g, 's) node_cfg =
  nc_env :: "('g, 's) env"
  nc_evict :: eviction
  nc_Validator :: multiSigner
  nc_Magic :: u32
  nc_ForkMode :: bool
  nc_BlockTime :: int
  nc_MineEmptyBlocks :: bool
  nc_EmptyBlockInterval :: int
  nc_reset :: "('g, 's) chain \<Rightarrow> u32 \<Rightarrow> string + ('g, 's) chain"
  nc_address :: "bytes \<Rightarrow> uint160 option"

definition NanvilNet :: u32 where
  "NanvilNet = 0x4e414e56"

record ('g, 's) dev_node =
  dn_chain :: "('g, 's) chain"
  NextTimestampOffset :: u64
  FixedNextTimestamp :: u64
  AutoMine :: bool
  mineCh :: "'g transaction option list"
  dn_snaps :: snap_manager
  dn_registry :: registry
  dn_producing :: bool
  dn_running :: bool
  dn_closed :: bool

definition mineQueueSize :: nat where
  "mineQueueSize = 8192"

definition node_env :: "('g, 's) node_cfg \<Rightarrow> ('g, 's) dev_node \<Rightarrow> ('g, 's) env" where
  "node_env C n = (nc_env C)\<lparr>cfg_registry := dn_registry n\<rparr>"

section \<open>The block builder\<close>

definition IncreaseTime :: "u64 \<Rightarrow> ('g, 's) dev_node \<Rightarrow> ('g, 's) dev_node" where
  "IncreaseTime seconds n = n\<lparr>NextTimestampOffset := NextTimestampOffset n + seconds\<rparr>"

definition SetNextBlockTimestamp :: "u64 \<Rightarrow> ('g, 's) dev_node \<Rightarrow> ('g, 's) dev_node" where
  "SetNextBlockTimestamp ts n = n\<lparr>FixedNextTimestamp := ts\<rparr>"

definition purgeStaleMempool :: "('g, 's) node_cfg \<Rightarrow> ('g, 's) dev_node \<Rightarrow> string + ('g, 's) dev_node" where
  "purgeStaleMempool C n = (case drop_stale (node_env C n) (dn_chain n) None of Inl p \<Rightarrow> Inl p | Inr c \<Rightarrow> Inr (n\<lparr>dn_chain := c\<rparr>))"

definition collectMempoolTxsForBlock :: "('g, 's) node_cfg \<Rightarrow> ('g, 's) dev_node \<Rightarrow> 'g transaction list" where
  "collectMempoolTxsForBlock C n = ApplyPolicyToTxSet (node_env C n) (ledger (dn_chain n)) (GetVerifiedTransactions (memPool (dn_chain n)))"

text \<open>The timestamp of the next block, after a block stamped \<open>lst\<close>.\<close>

definition next_timestamp :: "('g, 's) node_cfg \<Rightarrow> u64 \<Rightarrow> ('g, 's) dev_node \<Rightarrow> u64 \<Rightarrow> u64" where
  "next_timestamp C now n lst =
    (if FixedNextTimestamp n \<noteq> 0 then FixedNextTimestamp n
     else if nc_ForkMode C \<or> nc_Magic C = NanvilNet then (if lst + 1 < now then now else lst + 1)
     else lst + 1 + NextTimestampOffset n)"

text \<open>The offsets are gone as soon as the previous header is found. Signing fills the hash of the header in.\<close>

definition sign_block :: "('g, 's) node_cfg \<Rightarrow> 'g block \<Rightarrow> 'g block" where
  "sign_block C b =
    (let (h, hdr) = hd_Hash (Header b); w = hd_Script hdr
     in b\<lparr>Header := hdr\<lparr>hd_Script := w\<lparr>InvocationScript := SignHashable (nc_Validator C) (nc_Magic C) h\<rparr>\<rparr>\<rparr>)"

definition buildBlock ::
  "('g, 's) node_cfg \<Rightarrow> u64 \<Rightarrow> ('g, 's) dev_node \<Rightarrow> 'g transaction list \<Rightarrow> string + (chain_err + 'g block) \<times> ('g, 's) dev_node" where
  "buildBlock C now n txs =
    (let E = node_env C n; c = dn_chain n
     in case GetHeaderHash (nc_evict C) (hashes c) (blockHeight c) of Inl p \<Rightarrow> Inl p
     | Inr (lastHash, hh) \<Rightarrow>
       (let n1 = n\<lparr>dn_chain := c\<lparr>hashes := hh\<rparr>\<rparr>
        in case GetHeader E (dn_chain n1) lastHash of None \<Rightarrow> Inr (Inl (ErrOther ''key not found''), n1)
        | Some lastHeader \<Rightarrow>
          (let n2 = n1\<lparr>FixedNextTimestamp := 0, NextTimestampOffset := 0\<rparr>;
               hdr = (new_Header (cfg_StateRootInHeader E))\<lparr>NextConsensus := ms_ScriptHash (nc_Validator C),
                 hd_Script := \<lparr>InvocationScript = [], VerificationScript = ms_Script (nc_Validator C)\<rparr>,
                 Timestamp := next_timestamp C now n (Timestamp lastHeader),
                 PrevStateRoot := (if cfg_StateRootInHeader E then snd (e_stateRoot E (ledger c)) else zero256),
                 PrevHash := lastHash, Index := blockHeight c + 1\<rparr>
           in case RebuildMerkleRoot (e_genc E) \<lparr>Header = hdr, Transactions = txs, b_Trimmed = False\<rparr> of None \<Rightarrow> Inl ''failed to compute hash''
              | Some b \<Rightarrow> Inr (Inr (sign_block C b), n2))))"

definition mineLocked ::
  "('g, 's) node_cfg \<Rightarrow> u64 \<Rightarrow> ('g, 's) dev_node \<Rightarrow> 'g transaction list \<Rightarrow> string + (chain_err + 'g block) \<times> ('g, 's) dev_node" where
  "mineLocked C now n txs =
    (case purgeStaleMempool C n of Inl p \<Rightarrow> Inl p
     | Inr n1 \<Rightarrow>
       (case buildBlock C now n1 (if txs = [] then collectMempoolTxsForBlock C n1 else txs) of Inl p \<Rightarrow> Inl p
        | Inr (Inl e, n2) \<Rightarrow> Inr (Inl e, n2)
        | Inr (Inr b, n2) \<Rightarrow>
          (case AddBlock (node_env C n2) (nc_evict C) (dn_chain n2) b of Inl p \<Rightarrow> Inl p
           | Inr (Some e, c) \<Rightarrow> Inr (Inl e, n2\<lparr>dn_chain := c\<rparr>)
           | Inr (None, c) \<Rightarrow> Inr (Inr b, n2\<lparr>dn_chain := c\<rparr>))))"

definition Mine ::
  "('g, 's) node_cfg \<Rightarrow> u64 \<Rightarrow> ('g, 's) dev_node \<Rightarrow> 'g transaction list \<Rightarrow> string + (chain_err + 'g block) \<times> ('g, 's) dev_node" where
  "Mine C now n txs = mineLocked C now n txs"

text \<open>\<open>MineEmpty\<close> and \<open>MineBlock\<close> share the loop; the clock gives the time of each block.\<close>

primrec MineEmpty :: "('g, 's) node_cfg \<Rightarrow> (nat \<Rightarrow> u64) \<Rightarrow> nat \<Rightarrow> ('g, 's) dev_node \<Rightarrow> string + (chain_err option \<times> 'g block list) \<times> ('g, 's) dev_node" where
  "MineEmpty C clock 0 n = Inr ((None, []), n)"
| "MineEmpty C clock (Suc k) n =
    (case Mine C (clock (Suc k)) n [] of Inl p \<Rightarrow> Inl p
     | Inr (Inl e, n') \<Rightarrow> Inr ((Some e, []), n')
     | Inr (Inr b, n') \<Rightarrow> (case MineEmpty C clock k n' of Inl p \<Rightarrow> Inl p | Inr ((e, bs), n'') \<Rightarrow> Inr ((e, b # bs), n'')))"

definition MineBlock :: "('g, 's) node_cfg \<Rightarrow> (nat \<Rightarrow> u64) \<Rightarrow> int \<Rightarrow> ('g, 's) dev_node \<Rightarrow> string + chain_err option \<times> ('g, 's) dev_node" where
  "MineBlock C clock k n =
    (case MineEmpty C clock (nat (if k \<le> 0 then 1 else k)) n of Inl p \<Rightarrow> Inl p | Inr ((e, _), n') \<Rightarrow> Inr (e, n'))"

section \<open>The producer\<close>

text \<open>\<open>strings.Contains(err.Error(), "expired")\<close>.\<close>

definition str_Contains :: "string \<Rightarrow> string \<Rightarrow> bool" where
  "str_Contains s sub \<longleftrightarrow> (\<exists>i \<in> {0..length s}. take (length sub) (drop i s) = sub)"

definition says_expired :: "chain_err \<Rightarrow> bool" where
  "says_expired e \<longleftrightarrow> (case e of ErrTxExpired \<Rightarrow> True | ErrOther s \<Rightarrow> str_Contains s ''expired'' | _ \<Rightarrow> False)"

text \<open>\<open>mineOne\<close>: the flag tells whether the last attempt mined a block (or there was nothing to do); it is only logged.\<close>

definition mineOne :: "('g, 's) node_cfg \<Rightarrow> u64 \<Rightarrow> 'g transaction option \<Rightarrow> ('g, 's) dev_node \<Rightarrow> string + bool \<times> ('g, 's) dev_node" where
  "mineOne C now t n =
    (if t \<noteq> None \<and> pool_count (memPool (dn_chain n)) = 0 then Inr (True, n)
     else case Mine C now n [] of Inl p \<Rightarrow> Inl p
     | Inr (Inr b, n1) \<Rightarrow> Inr (True, n1)
     | Inr (Inl e, n1) \<Rightarrow>
       if says_expired e
       then (case purgeStaleMempool C n1 of Inl p \<Rightarrow> Inl p
             | Inr n2 \<Rightarrow> (case Mine C now n2 [] of Inl p \<Rightarrow> Inl p | Inr (Inr b, n3) \<Rightarrow> Inr (True, n3) | Inr (Inl e', n3) \<Rightarrow> Inr (False, n3)))
       else Inr (False, n1))"

definition enqueueMine :: "('g, 's) node_cfg \<Rightarrow> u64 \<Rightarrow> 'g transaction option \<Rightarrow> ('g, 's) dev_node \<Rightarrow> string + bool \<times> ('g, 's) dev_node" where
  "enqueueMine C now t n =
    (if length (mineCh n) < mineQueueSize then Inr (True, n\<lparr>mineCh := mineCh n @ [t]\<rparr>) else mineOne C now t n)"

definition SetAutomine :: "bool \<Rightarrow> ('g, 's) dev_node \<Rightarrow> ('g, 's) dev_node" where
  "SetAutomine v n = n\<lparr>AutoMine := v\<rparr>"

definition OnTransactionRelayed :: "('g, 's) node_cfg \<Rightarrow> u64 \<Rightarrow> 'g transaction \<Rightarrow> ('g, 's) dev_node \<Rightarrow> string + bool \<times> ('g, 's) dev_node" where
  "OnTransactionRelayed C now t n = (if \<not> AutoMine n \<or> 0 < nc_BlockTime C then Inr (True, n) else enqueueMine C now (Some t) n)"

text \<open>The ticks of \<open>intervalLoop\<close> and \<open>emptyBlockLoop\<close>, and one turn of \<open>mineWorker\<close>.\<close>

definition interval_tick :: "('g, 's) node_cfg \<Rightarrow> u64 \<Rightarrow> ('g, 's) dev_node \<Rightarrow> string + bool \<times> ('g, 's) dev_node" where
  "interval_tick C now n =
    (if \<not> nc_MineEmptyBlocks C \<and> pool_count (memPool (dn_chain n)) = 0 then Inr (True, n) else enqueueMine C now None n)"

definition empty_tick :: "('g, 's) node_cfg \<Rightarrow> u64 \<Rightarrow> ('g, 's) dev_node \<Rightarrow> string + bool \<times> ('g, 's) dev_node" where
  "empty_tick C now n = (if pool_count (memPool (dn_chain n)) = 0 then enqueueMine C now None n else Inr (True, n))"

definition mineWorker :: "('g, 's) node_cfg \<Rightarrow> u64 \<Rightarrow> ('g, 's) dev_node \<Rightarrow> string + bool \<times> ('g, 's) dev_node" where
  "mineWorker C now n = (case mineCh n of [] \<Rightarrow> Inr (True, n) | t # ts \<Rightarrow> mineOne C now t (n\<lparr>mineCh := ts\<rparr>))"

definition DropTransaction :: "('g, 's) node_cfg \<Rightarrow> hash256 \<Rightarrow> ('g, 's) dev_node \<Rightarrow> string + bool \<times> ('g, 's) dev_node" where
  "DropTransaction C h n =
    (let c = dn_chain n
     in if \<not> containsKey (memPool c) h then Inr (False, n)
        else case pool_Remove (e_genc (nc_env C)) (memPool c) h of Inl p \<Rightarrow> Inl p
        | Inr mp \<Rightarrow> Inr (True, n\<lparr>dn_chain := c\<lparr>memPool := mp\<rparr>\<rparr>))"

text \<open>\<open>relayTxn\<close> is \<open>pool_relayed\<close> and then, when the transaction was pooled, \<open>OnTransactionRelayed\<close>; other steps may come between.\<close>

definition pool_relayed :: "('g, 's) node_cfg \<Rightarrow> 'g transaction \<Rightarrow> ('g, 's) dev_node \<Rightarrow> string + chain_err option \<times> ('g, 's) dev_node" where
  "pool_relayed C t n = (case PoolTx (node_env C n) (dn_chain n) t of Inl p \<Rightarrow> Inl p | Inr (e, c) \<Rightarrow> Inr (e, n\<lparr>dn_chain := c\<rparr>))"

definition relayTxn :: "('g, 's) node_cfg \<Rightarrow> u64 \<Rightarrow> 'g transaction \<Rightarrow> ('g, 's) dev_node \<Rightarrow> string + chain_err option \<times> ('g, 's) dev_node" where
  "relayTxn C now t n =
    (case pool_relayed C t n of Inl p \<Rightarrow> Inl p | Inr (Some e, n1) \<Rightarrow> Inr (Some e, n1)
     | Inr (None, n1) \<Rightarrow> (case OnTransactionRelayed C now t n1 of Inl p \<Rightarrow> Inl p | Inr (_, n2) \<Rightarrow> Inr (None, n2)))"

section \<open>Resetting\<close>

text \<open>\<open>Blockchain.Reset\<close> refuses on a running chain; \<open>nc_reset\<close> is what it does otherwise. Closing a closed chain panics
  (a second \<open>close\<close> of \<open>stopCh\<close>).\<close>

definition chain_Reset :: "('g, 's) node_cfg \<Rightarrow> ('g, 's) dev_node \<Rightarrow> ('g, 's) chain \<Rightarrow> u32 \<Rightarrow> string + ('g, 's) chain" where
  "chain_Reset C n c h = (if dn_running n then Inl ''can't reset state of the running blockchain'' else nc_reset C c h)"

definition chain_Close :: "('g, 's) dev_node \<Rightarrow> string + ('g, 's) dev_node" where
  "chain_Close n = (if dn_closed n then Inl ''close of closed channel'' else Inr (n\<lparr>dn_closed := True, dn_running := False\<rparr>))"

definition ResetChain :: "('g, 's) dev_node \<Rightarrow> string + string option \<times> ('g, 's) dev_node" where
  "ResetChain n =
    (case chain_Close (n\<lparr>dn_producing := False\<rparr>) of Inl p \<Rightarrow> Inl p
     | Inr n1 \<Rightarrow> Inr (Some ''reset requires node restart; use nanvil_snapshot/revert'', n1))"

definition RevertSnapshot :: "('g, 's) node_cfg \<Rightarrow> bytes \<Rightarrow> ('g, 's) dev_node \<Rightarrow> string option \<times> ('g, 's) dev_node" where
  "RevertSnapshot C i n =
    (case Revert (chain_Reset C n) (dn_snaps n) (dn_chain n) i of Inl e \<Rightarrow> (Some e, n)
     | Inr (m, c) \<Rightarrow> (None, n\<lparr>dn_snaps := m, dn_chain := c\<rparr>))"

section \<open>The remote procedure calls\<close>

record param =
  GetInt :: "int option"
  GetBoolean :: "bool option"
  GetString :: "bytes option"

datatype rpc_reply = RString bytes | RBool bool | RInt int | ErrInvalidParams | InternalServerError string

text \<open>The text of an error is only shown to the caller.\<close>

definition internal :: "chain_err \<Rightarrow> rpc_reply" where
  "internal e = InternalServerError (case e of ErrOther s \<Rightarrow> s | _ \<Rightarrow> [])"

definition handleMine :: "('g, 's) node_cfg \<Rightarrow> (nat \<Rightarrow> u64) \<Rightarrow> param list \<Rightarrow> ('g, 's) dev_node \<Rightarrow> string + rpc_reply \<times> ('g, 's) dev_node" where
  "handleMine C clock p n =
    (let k = (case p of [] \<Rightarrow> 1 | x # _ \<Rightarrow> (case GetInt x of Some c \<Rightarrow> if 0 < c then c else 1 | None \<Rightarrow> 1))
     in case MineBlock C clock k n of Inl e \<Rightarrow> Inl e
        | Inr (Some e, n') \<Rightarrow> Inr (internal e, n')
        | Inr (None, n') \<Rightarrow> Inr (RString [48, 120, 48], n'))"

definition handleSetAutomine :: "param list \<Rightarrow> ('g, 's) dev_node \<Rightarrow> rpc_reply \<times> ('g, 's) dev_node" where
  "handleSetAutomine p n =
    (case p of [] \<Rightarrow> (ErrInvalidParams, n)
     | x # _ \<Rightarrow> (case GetBoolean x of None \<Rightarrow> (ErrInvalidParams, n) | Some v \<Rightarrow> (RBool True, SetAutomine v n)))"

definition handleGetAutomine :: "('g, 's) dev_node \<Rightarrow> rpc_reply \<times> ('g, 's) dev_node" where
  "handleGetAutomine n = (RBool (AutoMine n), n)"

definition parseAddressParam :: "('g, 's) node_cfg \<Rightarrow> param list \<Rightarrow> nat \<Rightarrow> uint160 option" where
  "parseAddressParam C p idx = (if length p \<le> idx then None else case GetString (p ! idx) of None \<Rightarrow> None | Some s \<Rightarrow> nc_address C s)"

definition handleImpersonate :: "('g, 's) node_cfg \<Rightarrow> param list \<Rightarrow> ('g, 's) dev_node \<Rightarrow> rpc_reply \<times> ('g, 's) dev_node" where
  "handleImpersonate C p n =
    (case parseAddressParam C p 0 of None \<Rightarrow> (ErrInvalidParams, n) | Some h \<Rightarrow> (RBool True, n\<lparr>dn_registry := Impersonate h (dn_registry n)\<rparr>))"

definition handleStopImpersonate :: "('g, 's) node_cfg \<Rightarrow> param list \<Rightarrow> ('g, 's) dev_node \<Rightarrow> rpc_reply \<times> ('g, 's) dev_node" where
  "handleStopImpersonate C p n =
    (case parseAddressParam C p 0 of None \<Rightarrow> (ErrInvalidParams, n) | Some h \<Rightarrow> (RBool True, n\<lparr>dn_registry := StopImpersonating h (dn_registry n)\<rparr>))"

definition handleAutoImpersonate :: "param list \<Rightarrow> ('g, 's) dev_node \<Rightarrow> rpc_reply \<times> ('g, 's) dev_node" where
  "handleAutoImpersonate p n =
    (case p of [] \<Rightarrow> (ErrInvalidParams, n)
     | x # _ \<Rightarrow> (case GetBoolean x of None \<Rightarrow> (ErrInvalidParams, n) | Some v \<Rightarrow> (RBool True, n\<lparr>dn_registry := SetAutoMode v (dn_registry n)\<rparr>)))"

definition handleIncreaseTime :: "('g, 's) node_cfg \<Rightarrow> (nat \<Rightarrow> u64) \<Rightarrow> param list \<Rightarrow> ('g, 's) dev_node \<Rightarrow> string + rpc_reply \<times> ('g, 's) dev_node" where
  "handleIncreaseTime C clock p n =
    (case p of [] \<Rightarrow> Inr (ErrInvalidParams, n)
     | x # _ \<Rightarrow> (case GetInt x of None \<Rightarrow> Inr (ErrInvalidParams, n)
       | Some sec \<Rightarrow> if sec < 0 then Inr (ErrInvalidParams, n)
           else (case MineBlock C clock 1 (IncreaseTime (of_int sec) n) of Inl e \<Rightarrow> Inl e
                 | Inr (Some e, n') \<Rightarrow> Inr (internal e, n') | Inr (None, n') \<Rightarrow> Inr (RInt sec, n'))))"

definition handleSetNextTimestamp :: "param list \<Rightarrow> ('g, 's) dev_node \<Rightarrow> rpc_reply \<times> ('g, 's) dev_node" where
  "handleSetNextTimestamp p n =
    (case p of [] \<Rightarrow> (ErrInvalidParams, n)
     | x # _ \<Rightarrow> (case GetInt x of None \<Rightarrow> (ErrInvalidParams, n)
       | Some ts \<Rightarrow> if ts < 0 then (ErrInvalidParams, n) else (RBool True, SetNextBlockTimestamp (of_int ts) n)))"

definition handleSetBalance :: "param list \<Rightarrow> ('g, 's) dev_node \<Rightarrow> rpc_reply \<times> ('g, 's) dev_node" where
  "handleSetBalance p n = (InternalServerError ''use native GAS transfer via nanvil prefunded validator accounts'', n)"

definition handleSnapshot :: "('g, 's) dev_node \<Rightarrow> rpc_reply \<times> ('g, 's) dev_node" where
  "handleSnapshot n = (let (i, m) = Snapshot (dn_snaps n) (blockHeight (dn_chain n)) in (RString i, n\<lparr>dn_snaps := m\<rparr>))"

definition handleRevert :: "('g, 's) node_cfg \<Rightarrow> param list \<Rightarrow> ('g, 's) dev_node \<Rightarrow> rpc_reply \<times> ('g, 's) dev_node" where
  "handleRevert C p n =
    (case p of [] \<Rightarrow> (ErrInvalidParams, n)
     | x # _ \<Rightarrow> (case GetString x of None \<Rightarrow> (ErrInvalidParams, n)
       | Some i \<Rightarrow> (case RevertSnapshot C i n of (Some e, n') \<Rightarrow> (InternalServerError e, n') | (None, n') \<Rightarrow> (RBool True, n'))))"

definition handleReset :: "('g, 's) dev_node \<Rightarrow> string + rpc_reply \<times> ('g, 's) dev_node" where
  "handleReset n = (case ResetChain n of Inl p \<Rightarrow> Inl p | Inr (Some e, n') \<Rightarrow> Inr (InternalServerError e, n') | Inr (None, n') \<Rightarrow> Inr (RBool True, n'))"

definition stringsTrim0x :: "bytes \<Rightarrow> bytes" where
  "stringsTrim0x s = (if 2 \<le> length s \<and> (take 2 s = [48, 120] \<or> take 2 s = [48, 88]) then drop 2 s else s)"

definition Uint256DecodeStringLE :: "bytes \<Rightarrow> hash256 option" where
  "Uint256DecodeStringLE s = (if length s \<noteq> 64 then None else map_option rev (hex_decode s))"

definition handleDropTx :: "('g, 's) node_cfg \<Rightarrow> param list \<Rightarrow> ('g, 's) dev_node \<Rightarrow> string + rpc_reply \<times> ('g, 's) dev_node" where
  "handleDropTx C p n =
    (case p of [] \<Rightarrow> Inr (ErrInvalidParams, n)
     | x # _ \<Rightarrow> (case GetString x of None \<Rightarrow> Inr (ErrInvalidParams, n)
       | Some s \<Rightarrow> (case Uint256DecodeStringLE (stringsTrim0x s) of None \<Rightarrow> Inr (ErrInvalidParams, n)
         | Some h \<Rightarrow> (case DropTransaction C h n of Inl e \<Rightarrow> Inl e | Inr (b, n') \<Rightarrow> Inr (RBool b, n')))))"

end
