(* ===== verification/DevNodeProps.thy ===== *)
theory DevNodeProps
  imports DevNode
begin

text \<open>
  What the development node guarantees: how each operation changes the number of pooled transactions, that automining empties the
  pool whatever the interleaving, that a built block passes the checks of its header, and which calls do not do what
  they say.
\<close>

section \<open>How the pool grows and shrinks\<close>

lemma items_unchanged [simp]:
  "verifiedTxes (removed_event x mp) = verifiedTxes mp" "verifiedTxes (update_metrics mp) = verifiedTxes mp"
  "verifiedTxes (notify_added x mp) = verifiedTxes mp" "verifiedMap (update_metrics mp) = verifiedMap mp"
  "verifiedMap (notify_added x mp) = verifiedMap mp"
  by (simp_all add: removed_event_def update_metrics_def notify_added_def emit_def Let_def split: option.split)

lemma unlink_items: "removeFromMapWithFeesAndAttrs genc mp x = Inr mp' \<Longrightarrow> verifiedTxes mp' = verifiedTxes mp"
  by (auto simp: removeFromMapWithFeesAndAttrs_def Let_def split: option.splits sum.splits)

definition shrunk :: "('g, 'd) pool \<Rightarrow> ('g, 'd) pool \<Rightarrow> bool" where
  "shrunk mp mp' \<longleftrightarrow> length (verifiedTxes mp') \<le> length (verifiedTxes mp) \<and> set (verifiedTxes mp') \<subseteq> set (verifiedTxes mp)"

lemma shrunk_refl [simp]: "shrunk mp mp" by (simp add: shrunk_def)

lemma shrunk_trans [trans]: "shrunk a b \<Longrightarrow> shrunk b c \<Longrightarrow> shrunk a c" by (auto simp: shrunk_def)

lemma shrunk_eq: "verifiedTxes mp' = verifiedTxes mp \<Longrightarrow> shrunk mp mp'" by (simp add: shrunk_def)

lemma removeInternal_shrunk: "removeInternal genc mp h = Inr mp' \<Longrightarrow> shrunk mp mp'"
  by (auto simp: removeInternal_def Let_def shrunk_def dest!: unlink_items split: if_splits dest: in_set_takeD in_set_dropD)

lemma remove_all_shrunk: "remove_all genc hs mp = Inr mp' \<Longrightarrow> shrunk mp mp'"
  by (induction hs arbitrary: mp) (auto dest: removeInternal_shrunk shrunk_trans split: sum.splits)

lemma checkTxConflicts_shrunk: "checkTxConflicts genc mp t f = Inr (r, mp') \<Longrightarrow> shrunk mp mp'"
  by (auto simp: checkTxConflicts_def Let_def shrunk_def split: option.splits sum.splits if_splits prod.splits)

lemma claim_response_shrunk: "claim_response genc mp t = Inr (r, mp') \<Longrightarrow> shrunk mp mp'"
  by (auto simp: claim_response_def split: list.splits option.splits sum.splits if_splits dest!: removeInternal_shrunk) (auto simp: shrunk_def)

lemma tryAddSendersFee_items: "tryAddSendersFee mp t f b = Inr (r, mp') \<Longrightarrow> verifiedTxes mp' = verifiedTxes mp \<and> verifiedMap mp' = verifiedMap mp"
  by (auto simp: tryAddSendersFee_def Let_def split: option.splits sum.splits if_splits)

lemma make_room_items:
  "make_room genc mp x n = Inr (e, mp') \<Longrightarrow> length (verifiedTxes mp') \<le> length (verifiedTxes mp) + (if e = None then 1 else 0)
    \<and> set (verifiedTxes mp') \<subseteq> (if e = None then insert x (set (verifiedTxes mp)) else set (verifiedTxes mp))"
  by (auto simp: make_room_def Let_def split: if_splits sum.splits dest!: unlink_items) (auto dest: set_update_subset_insert [THEN subsetD])

lemma shift_item_items: "length (shift_item n x xs) = length xs" "set (shift_item n x xs) \<subseteq> insert x (set xs)"
  by (auto simp: shift_item_def min_def dest!: set_update_subset_insert [THEN subsetD] in_set_takeD in_set_dropD)

lemma link_item_items:
  assumes "link_item genc mp x n f = Inr mp'"
  shows "length (verifiedTxes mp') = length (verifiedTxes mp)" "set (verifiedTxes mp') \<subseteq> insert x (set (verifiedTxes mp))"
    "containsKey mp' (tx_Hash genc (txn x))"
  using assms shift_item_items [of n x "verifiedTxes mp"]
  by (auto simp: link_item_def Let_def containsKey_def split: sum.splits dest!: tryAddSendersFee_items)

lemma pool_Add_items:
  assumes "pool_Add genc mp t f d = Inr (e, mp')"
  shows "length (verifiedTxes mp') \<le> length (verifiedTxes mp) + (if e = None then 1 else 0)"
    "txn ` set (verifiedTxes mp') \<subseteq> (if e = None then insert t (txn ` set (verifiedTxes mp)) else txn ` set (verifiedTxes mp))"
    "e = None \<Longrightarrow> containsKey mp' (tx_Hash genc t)"
proof -
  let ?x = "\<lparr>txn = t, blockStamp = BlockHeight f, data = d\<rparr>"
  have nh: "\<not> Hash_panics genc t" using assms by (auto simp: pool_Add_def Let_def)
  have "shrunk mp mp' \<and> e \<noteq> None \<or> (\<exists>mp3 n e' mp4. shrunk mp mp3 \<and> make_room genc mp3 ?x n = Inr (e', mp4)
      \<and> (e' \<noteq> None \<and> e = e' \<and> mp' = mp4 \<or> e' = None \<and> e = None \<and> link_item genc mp4 ?x n f = Inr mp'))"
  proof (cases "containsKey mp (tx_Hash genc t)")
    case False
    note A = assms [unfolded pool_Add_def Let_def if_not_P [OF nh] if_not_P [OF False]]
    obtain r mp1 where c1: "checkTxConflicts genc mp t f = Inr (r, mp1)" using A by (auto split: sum.splits)
    show ?thesis
    proof (cases r)
      case (Inl e1)
      then show ?thesis using A c1 checkTxConflicts_shrunk [OF c1] by auto
    next
      case (Inr cs)
      obtain re mp2 where c2: "claim_response genc mp1 t = Inr (re, mp2)" using A c1 Inr by (auto split: sum.splits)
      have sh2: "shrunk mp mp2" using checkTxConflicts_shrunk [OF c1] claim_response_shrunk [OF c2] by (rule shrunk_trans)
      show ?thesis
      proof (cases re)
        case (Some e2)
        then show ?thesis using A c1 c2 Inr sh2 by auto
      next
        case None
        obtain mp3 where c3: "remove_all genc (map (tx_Hash genc) cs) mp2 = Inr mp3" using A c1 c2 Inr None by (auto split: sum.splits)
        have sh3: "shrunk mp mp3" using sh2 remove_all_shrunk [OF c3] by (rule shrunk_trans)
        obtain e' mp4 where c4: "make_room genc mp3 ?x (insert_position genc ?x (verifiedTxes mp3)) = Inr (e', mp4)"
          using A c1 c2 c3 Inr None by (auto split: sum.splits)
        show ?thesis using A c1 c2 c3 c4 Inr None sh3 by (cases e') (auto split: sum.splits)
      qed
    qed
  qed (use assms nh in \<open>auto simp: pool_Add_def\<close>)
  then consider (stop) "shrunk mp mp'" "e \<noteq> None"
    | (go) mp3 n e' mp4 where "shrunk mp mp3" "make_room genc mp3 ?x n = Inr (e', mp4)"
        "e' \<noteq> None \<and> e = e' \<and> mp' = mp4 \<or> e' = None \<and> e = None \<and> link_item genc mp4 ?x n f = Inr mp'" by blast
  then have "length (verifiedTxes mp') \<le> length (verifiedTxes mp) + (if e = None then 1 else 0)
      \<and> txn ` set (verifiedTxes mp') \<subseteq> (if e = None then insert t (txn ` set (verifiedTxes mp)) else txn ` set (verifiedTxes mp))
      \<and> (e = None \<longrightarrow> containsKey mp' (tx_Hash genc t))"
  proof cases
    case stop
    then show ?thesis by (auto simp: shrunk_def)
  next
    case go
    have st: "set (verifiedTxes mp') \<subseteq> (if e = None then insert ?x (set (verifiedTxes mp)) else set (verifiedTxes mp))"
      using go make_room_items [OF go(2)] link_item_items(2) [of genc mp4 ?x n f mp'] by (cases e') (auto simp: shrunk_def)
    have "txn ` set (verifiedTxes mp') \<subseteq> (if e = None then insert t (txn ` set (verifiedTxes mp)) else txn ` set (verifiedTxes mp))"
      using image_mono [OF st, of txn] by (cases e) simp_all
    moreover have "length (verifiedTxes mp') \<le> length (verifiedTxes mp) + (if e = None then 1 else 0)"
      using go make_room_items [OF go(2)] link_item_items(1) [of genc mp4 ?x n f mp'] by (cases e') (auto simp: shrunk_def)
    moreover have "e = None \<longrightarrow> containsKey mp' (tx_Hash genc t)" using go(3) link_item_items(3) [of genc mp4 ?x n f mp'] by auto
    ultimately show ?thesis by blast
  qed
  then show "length (verifiedTxes mp') \<le> length (verifiedTxes mp) + (if e = None then 1 else 0)"
    "txn ` set (verifiedTxes mp') \<subseteq> (if e = None then insert t (txn ` set (verifiedTxes mp)) else txn ` set (verifiedTxes mp))"
    "e = None \<Longrightarrow> containsKey mp' (tx_Hash genc t)" by blast+
qed

lemma stale_loop_items:
  "stale_loop genc isOK f pc xs (mp, kept, st) = Inr (mp', kept', st')
   \<Longrightarrow> length kept' \<le> length kept + length (filter (isOK \<circ> txn) xs) \<and> set kept' \<subseteq> set kept \<union> set xs"
proof (induction xs arbitrary: mp kept st)
  case (Cons x xs)
  define r where "r = (if isOK (txn x) \<and> checkPolicy genc mp (txn x) pc then tryAddSendersFee mp (txn x) f True else Inr (False, mp))"
  obtain b mp1 where r: "r = Inr (b, mp1)" using Cons.prems by (auto simp: r_def [symmetric] split: sum.splits)
  have b: "b \<Longrightarrow> isOK (txn x)" using r by (auto simp: r_def split: if_splits)
  show ?case
  proof (cases b)
    case True
    then obtain cs st1 where "stale_loop genc isOK f pc xs (mp1\<lparr>conflicts := cs\<rparr>, kept @ [x], st1) = Inr (mp', kept', st')"
      using Cons.prems r by (auto simp: r_def [symmetric] split: sum.splits)
    from Cons.IH [OF this] show ?thesis using b True by auto
  next
    case False
    then obtain mp2 where "stale_loop genc isOK f pc xs (mp2, kept, st) = Inr (mp', kept', st')"
      using Cons.prems r by (auto simp: r_def [symmetric] split: sum.splits)
    from Cons.IH [OF this] show ?thesis by auto
  qed
qed simp

lemma RemoveStale_items:
  assumes "RemoveStale genc mp isOK f = Inr (mp', r)"
  shows "length (verifiedTxes mp') \<le> length (filter (isOK \<circ> txn) (verifiedTxes mp))" "set (verifiedTxes mp') \<subseteq> set (verifiedTxes mp)"
proof -
  have "verifiedTxes (snd (loadPolicy mp f)) = verifiedTxes mp" by (simp add: loadPolicy_def)
  then show "length (verifiedTxes mp') \<le> length (filter (isOK \<circ> txn) (verifiedTxes mp))" "set (verifiedTxes mp') \<subseteq> set (verifiedTxes mp)"
    using assms by (auto simp: RemoveStale_def split: prod.splits sum.splits dest!: stale_loop_items)
qed

lemma drop_stale_items:
  assumes "drop_stale E c p = Inr c'"
  shows "shrunk (memPool c) (memPool c')" "c\<lparr>memPool := memPool c'\<rparr> = c'"
    "x \<in> set (verifiedTxes (memPool c)) \<Longrightarrow> IsTxStillRelevant E c (txn x) p False \<noteq> Inr True
      \<Longrightarrow> length (verifiedTxes (memPool c')) < length (verifiedTxes (memPool c))"
proof -
  define rel where "rel = (\<lambda>t. IsTxStillRelevant E c t p False = Inr True)"
  obtain mp r where r: "RemoveStale (e_genc E) (memPool c) rel (chain_feer E c) = Inr (mp, r)" "c' = c\<lparr>memPool := mp\<rparr>"
    using assms by (auto simp: drop_stale_def Let_def rel_def split: if_splits sum.splits)
  note i = RemoveStale_items [OF r(1)]
  show "shrunk (memPool c) (memPool c')" using i order_trans [OF _ length_filter_le] r(2) by (auto simp: shrunk_def)
  show "c\<lparr>memPool := memPool c'\<rparr> = c'" using r(2) by simp
  assume x: "x \<in> set (verifiedTxes (memPool c))" "IsTxStillRelevant E c (txn x) p False \<noteq> Inr True"
  then have "length (filter (rel \<circ> txn) (verifiedTxes (memPool c))) < length (verifiedTxes (memPool c))"
    by (intro length_filter_less [of x]) (simp_all add: rel_def)
  then show "length (verifiedTxes (memPool c')) < length (verifiedTxes (memPool c))" using i(1) r(2) by simp
qed


section \<open>Mining shrinks the pool\<close>

lemma accept_header_pool: "accept_header E ev c b = Inr (e, c1) \<Longrightarrow> memPool c1 = memPool c \<and> blockHeight c1 = blockHeight c"
  by (auto simp: accept_header_def bc_addHeaders_def Let_def split: if_splits sum.splits list.splits option.splits prod.splits)

lemma verifyAndPoolTx_adds:
  assumes "verifyAndPoolTx E c t mp f d = Inr (e, mp')"
  shows "length (verifiedTxes mp') \<le> length (verifiedTxes mp) + (if e = None then 1 else 0)"
    "txn ` set (verifiedTxes mp') \<subseteq> (if e = None then insert t (txn ` set (verifiedTxes mp)) else txn ` set (verifiedTxes mp))"
    "e = None \<Longrightarrow> containsKey mp' (tx_Hash (e_genc E) t) \<and> fst (tx_Size (e_genc E) t) \<le> MaxTransactionSize"
proof -
  consider "e \<noteq> None" "mp' = mp" | e1 where "pool_Add (e_genc E) mp t f d = Inr (e1, mp')" "e = map_option pool_result e1"
      "fst (tx_Size (e_genc E) t) \<le> MaxTransactionSize"
    using assms by (auto simp: verifyAndPoolTx_def Let_def split: if_splits sum.splits option.splits dao_err.splits bool.splits)
  then have "length (verifiedTxes mp') \<le> length (verifiedTxes mp) + (if e = None then 1 else 0)
      \<and> txn ` set (verifiedTxes mp') \<subseteq> (if e = None then insert t (txn ` set (verifiedTxes mp)) else txn ` set (verifiedTxes mp))
      \<and> (e = None \<longrightarrow> containsKey mp' (tx_Hash (e_genc E) t) \<and> fst (tx_Size (e_genc E) t) \<le> MaxTransactionSize)"
  proof cases
    case 2
    then show ?thesis using pool_Add_items [OF 2(1)] by (cases e1) auto
  qed auto
  then show "length (verifiedTxes mp') \<le> length (verifiedTxes mp) + (if e = None then 1 else 0)"
    "txn ` set (verifiedTxes mp') \<subseteq> (if e = None then insert t (txn ` set (verifiedTxes mp)) else txn ` set (verifiedTxes mp))"
    "e = None \<Longrightarrow> containsKey mp' (tx_Hash (e_genc E) t) \<and> fst (tx_Size (e_genc E) t) \<le> MaxTransactionSize" by blast+
qed

lemma verify_txs_last:
  "verify_txs E c ts mp = Inr (None, mp') \<Longrightarrow> cfg_VerifyTransactions E \<Longrightarrow> ts \<noteq> [] \<Longrightarrow> containsKey mp' (tx_Hash (e_genc E) (last ts))"
proof (induction ts arbitrary: mp)
  case (Cons t ts)
  obtain mp1 where mp1: "verify_txs E c ts mp1 = Inr (None, mp')" "containsKey mp1 (tx_Hash (e_genc E) t)"
    using Cons.prems(1,2) pool_Add_items(3) [of "e_genc E" mp t "chain_feer E c" None None] verifyAndPoolTx_adds(3) [of E c t mp "chain_feer E c" None None]
    by (auto split: if_splits sum.splits option.splits)
  show ?case using Cons.IH [OF mp1(1) Cons.prems(2)] mp1 by (cases "ts = []") auto
qed simp

lemma storeBlock_pool:
  assumes "storeBlock E ev c b p = Inr (e, c')"
  shows "shrunk (memPool c) (memPool c')"
    "e = None \<Longrightarrow> \<exists>c1. memPool c1 = memPool c \<and> drop_stale E c1 p = Inr c'"
proof -
  have key: "\<exists>c1. memPool c1 = memPool c \<and> drop_stale E c1 p = Inr c'"
    if "drop_stale E (c\<lparr>ledger := s, hashes := hh, topBlock := tb, blockHeight := i\<rparr>) p = Inr c'" for s hh tb i
    by (rule exI [of _ "c\<lparr>ledger := s, hashes := hh, topBlock := tb, blockHeight := i\<rparr>"]) (simp add: that)
  have *: "c' = c \<and> e \<noteq> None \<or> (\<exists>c1. memPool c1 = memPool c \<and> drop_stale E c1 p = Inr c')"
    using assms by (auto simp: storeBlock_def Let_def dest: key split: if_splits sum.splits option.splits prod.splits)
  then show "shrunk (memPool c) (memPool c')" using drop_stale_items(1) by (metis shrunk_refl)
  show "e = None \<Longrightarrow> \<exists>c1. memPool c1 = memPool c \<and> drop_stale E c1 p = Inr c'" using * by blast
qed

lemma AddBlock_pool:
  assumes "AddBlock E ev c b = Inr (e, c')"
  shows "shrunk (memPool c) (memPool c')"
    "e = None \<Longrightarrow> \<not> cfg_SkipBlockVerification E \<Longrightarrow> cfg_VerifyTransactions E \<Longrightarrow> Transactions b \<noteq> []
      \<Longrightarrow> \<exists>c1 mp. memPool c1 = memPool c \<and> containsKey mp (tx_Hash (e_genc E) (last (Transactions b))) \<and> drop_stale E c1 (Some mp) = Inr c'"
proof -
  have sb: "\<And>c1 p. accept_header E ev c b = Inr (None, c1) \<Longrightarrow> storeBlock E ev c1 b p = Inr (e, c') \<Longrightarrow> shrunk (memPool c) (memPool c')"
    using storeBlock_pool(1) accept_header_pool by metis
  have ah: "\<And>e1. accept_header E ev c b = Inr (e1, c') \<Longrightarrow> shrunk (memPool c) (memPool c')"
    using accept_header_pool by (metis shrunk_refl)
  show "shrunk (memPool c) (memPool c')"
    using assms sb ah by (auto simp: AddBlock_def Let_def split: if_splits sum.splits option.splits)
  assume A: "e = None" "\<not> cfg_SkipBlockVerification E" "cfg_VerifyTransactions E" "Transactions b \<noteq> []"
  obtain c1 mp where "accept_header E ev c b = Inr (None, c1)" "verify_txs E c1 (Transactions b) (New_pool (length (Transactions b)) 0 False False) = Inr (None, mp)"
    "storeBlock E ev c1 b (Some mp) = Inr (None, c')"
    using assms A by (auto simp: AddBlock_def Let_def split: if_splits sum.splits option.splits)
  then show "\<exists>c1 mp. memPool c1 = memPool c \<and> containsKey mp (tx_Hash (e_genc E) (last (Transactions b))) \<and> drop_stale E c1 (Some mp) = Inr c'"
    using storeBlock_pool(2) [of E ev c1 b "Some mp" None c'] accept_header_pool verify_txs_last A by metis
qed

lemma AddBlock_removes:
  assumes "AddBlock E ev c b = Inr (None, c')" "\<not> cfg_SkipBlockVerification E" "cfg_VerifyTransactions E"
    "Transactions b \<noteq> []" "set (Transactions b) \<subseteq> txn ` set (verifiedTxes (memPool c))"
  shows "length (verifiedTxes (memPool c')) < length (verifiedTxes (memPool c))"
proof -
  obtain c1 mp where c1: "memPool c1 = memPool c" "containsKey mp (tx_Hash (e_genc E) (last (Transactions b)))" "drop_stale E c1 (Some mp) = Inr c'"
    using AddBlock_pool(2) [OF assms(1) refl assms(2-4)] by blast
  obtain x where x: "x \<in> set (verifiedTxes (memPool c))" "txn x = last (Transactions b)"
    using assms(4,5) last_in_set by (metis (no_types, lifting) image_iff subsetD)
  have "IsTxStillRelevant E c1 (txn x) (Some mp) False \<noteq> Inr True"
    using c1(2) x(2) by (auto simp: IsTxStillRelevant_def HasConflicts_def split: sum.splits)
  then show ?thesis using drop_stale_items(3) [OF c1(3), of x] c1(1) x(1) by simp
qed


abbreviation pooled_txs :: "('g, 's) dev_node \<Rightarrow> 'g transaction set" where
  "pooled_txs n \<equiv> txn ` set (verifiedTxes (memPool (dn_chain n)))"

abbreviation waiting :: "('g, 's) dev_node \<Rightarrow> nat" where
  "waiting n \<equiv> pool_count (memPool (dn_chain n))"

text \<open>Any transaction the chain pools fits into a block of its own.\<close>

definition block_fits :: "('g, 's) node_cfg \<Rightarrow> 'g transaction \<Rightarrow> bool" where
  "block_fits C t \<longleftrightarrow> \<not> cfg_MaxBlockSystemFee (nc_env C) <s SystemFee t \<and> fst (tx_Size (e_genc (nc_env C)) t) \<le> MaxTransactionSize"

definition fits_all :: "('g, 's) node_cfg \<Rightarrow> ('g, 's) dev_node \<Rightarrow> bool" where
  "fits_all C n \<longleftrightarrow> (\<forall>t \<in> pooled_txs n. block_fits C t)"

lemma fits_all_frame [simp]:
  "fits_all C (n\<lparr>mineCh := q\<rparr>) = fits_all C n" "fits_all C (n\<lparr>NextTimestampOffset := o1\<rparr>) = fits_all C n"
  "fits_all C (n\<lparr>FixedNextTimestamp := ts\<rparr>) = fits_all C n"
  by (simp_all add: fits_all_def)

definition roomy :: "('g, 's) node_cfg \<Rightarrow> bool" where
  "roomy C \<longleftrightarrow> (\<forall>s k. base_size (nc_env C) s k + MaxTransactionSize \<le> unat (cfg_MaxBlockSize (nc_env C)))
     \<and> \<not> cfg_SkipBlockVerification (nc_env C) \<and> cfg_VerifyTransactions (nc_env C) \<and> nc_BlockTime C \<le> 0"

lemma node_env_simps [simp]:
  "e_genc (node_env C n) = e_genc (nc_env C)" "cfg_MaxBlockSize (node_env C n) = cfg_MaxBlockSize (nc_env C)"
  "cfg_MaxBlockSystemFee (node_env C n) = cfg_MaxBlockSystemFee (nc_env C)" "cfg_MaxTransactionsPerBlock (node_env C n) = cfg_MaxTransactionsPerBlock (nc_env C)"
  "cfg_SkipBlockVerification (node_env C n) = cfg_SkipBlockVerification (nc_env C)" "cfg_VerifyTransactions (node_env C n) = cfg_VerifyTransactions (nc_env C)"
  "e_validators (node_env C n) = e_validators (nc_env C)"
  by (simp_all add: node_env_def)

lemma policy_loop_prefix: "\<exists>k. policy_loop g a b x y ts = take k ts"
proof (induction ts arbitrary: x y)
  case (Cons t ts)
  then obtain k where "policy_loop g a b (x + of_nat (fst (tx_Size g t))) (y + SystemFee t) ts = take k ts" by blast
  then show ?case by (auto simp: Let_def intro: exI [of _ 0] exI [of _ "Suc k"])
qed simp

lemma collect_some:
  assumes "roomy C" "fits_all C n"
  shows "set (collectMempoolTxsForBlock C n) \<subseteq> pooled_txs n" "waiting n \<noteq> 0 \<Longrightarrow> collectMempoolTxsForBlock C n \<noteq> []"
proof -
  let ?E = "nc_env C" let ?ts = "GetVerifiedTransactions (memPool (dn_chain n))" let ?m = "unat (cfg_MaxTransactionsPerBlock ?E)"
  define ts1 where "ts1 = (if ?m \<noteq> 0 \<and> ?m < length ?ts then take ?m ?ts else ?ts)"
  have col: "collectMempoolTxsForBlock C n = policy_loop (e_genc ?E) (cfg_MaxBlockSize ?E) (cfg_MaxBlockSystemFee ?E)
      (of_nat (base_size ?E (ledger (dn_chain n)) (length ts1))) 0 ts1"
    by (simp add: collectMempoolTxsForBlock_def ApplyPolicyToTxSet_def Let_def ts1_def base_size_def)
  have sub: "set ts1 \<subseteq> pooled_txs n" by (auto simp: ts1_def GetVerifiedTransactions_def dest: in_set_takeD split: if_splits)
  obtain k where k: "collectMempoolTxsForBlock C n = take k ts1" unfolding col using policy_loop_prefix by blast
  show "set (collectMempoolTxsForBlock C n) \<subseteq> pooled_txs n" unfolding k using set_take_subset sub by (rule order_trans)
  assume w: "waiting n \<noteq> 0"
  then have "?ts \<noteq> []" by (auto simp: pool_count_def GetVerifiedTransactions_def)
  then have "ts1 \<noteq> []" by (auto simp: ts1_def)
  then obtain t ts where ts: "ts1 = t # ts" by (cases ts1) auto
  let ?b = "base_size ?E (ledger (dn_chain n)) (length ts1)" let ?s = "fst (tx_Size (e_genc ?E) t)"
  have f: "block_fits C t" using assms(2) sub ts by (auto simp: fits_all_def)
  have le: "?b + ?s \<le> unat (cfg_MaxBlockSize ?E)"
  proof -
    have "?b + MaxTransactionSize \<le> unat (cfg_MaxBlockSize ?E)" using assms(1) by (simp add: roomy_def)
    then show ?thesis using f by (simp add: block_fits_def)
  qed
  then have "?b + ?s < 2 ^ 32" using unat_u32 [of "cfg_MaxBlockSize ?E"] by linarith
  from unat_small [OF this] have "unat (of_nat ?b + of_nat ?s :: u32) = ?b + ?s" by (simp only: of_nat_add)
  then have a: "\<not> cfg_MaxBlockSize ?E < of_nat ?b + of_nat ?s" using le by (simp only: word_less_nat_alt not_less)
  have "\<not> cfg_MaxBlockSystemFee ?E <s 0 + SystemFee t" using f by (simp add: block_fits_def)
  then show "collectMempoolTxsForBlock C n \<noteq> []" unfolding col using a by (simp only: ts policy_loop.simps Let_def) simp
qed

lemma purge_shrunk:
  "purgeStaleMempool C n = Inr n' \<Longrightarrow> shrunk (memPool (dn_chain n)) (memPool (dn_chain n')) \<and> n\<lparr>dn_chain := dn_chain n'\<rparr> = n'"
  by (auto simp: purgeStaleMempool_def dest: drop_stale_items(1) split: sum.splits)

lemma buildBlock_pool:
  assumes "buildBlock C now n ts = Inr (r, n')"
  shows "memPool (dn_chain n') = memPool (dn_chain n)" "mineCh n' = mineCh n" "AutoMine n' = AutoMine n" "r = Inr b \<Longrightarrow> Transactions b = ts"
proof -
  let ?c = "dn_chain n"
  obtain lastHash hh where g: "GetHeaderHash (nc_evict C) (hashes ?c) (blockHeight ?c) = Inr (lastHash, hh)"
    using assms unfolding buildBlock_def Let_def by (cases "GetHeaderHash (nc_evict C) (hashes ?c) (blockHeight ?c)") auto
  note B = assms [unfolded buildBlock_def Let_def g sum.case prod.case]
  have "memPool (dn_chain n') = memPool ?c \<and> mineCh n' = mineCh n \<and> AutoMine n' = AutoMine n \<and> (r = Inr b \<longrightarrow> Transactions b = ts)"
  proof (cases "GetHeader (node_env C n) (dn_chain (n\<lparr>dn_chain := ?c\<lparr>hashes := hh\<rparr>\<rparr>)) lastHash")
    case None
    then show ?thesis using B by auto
  next
    case (Some l)
    then show ?thesis using B by (auto simp: RebuildMerkleRoot_def sign_block_def split: option.splits prod.splits)
  qed
  then show "memPool (dn_chain n') = memPool (dn_chain n)" "mineCh n' = mineCh n" "AutoMine n' = AutoMine n" "r = Inr b \<Longrightarrow> Transactions b = ts"
    by blast+
qed

lemma Mine_pool:
  assumes "Mine C now n ts = Inr (r, n')"
  shows "shrunk (memPool (dn_chain n)) (memPool (dn_chain n'))" "mineCh n' = mineCh n" "AutoMine n' = AutoMine n"
    "r = Inr b \<Longrightarrow> roomy C \<Longrightarrow> fits_all C n \<Longrightarrow> ts = [] \<Longrightarrow> waiting n \<noteq> 0 \<Longrightarrow> waiting n' < waiting n"
proof -
  obtain n1 where n1: "purgeStaleMempool C n = Inr n1" using assms by (auto simp: Mine_def mineLocked_def split: sum.splits)
  define txs where "txs = (if ts = [] then collectMempoolTxsForBlock C n1 else ts)"
  obtain rb n2 where n2: "buildBlock C now n1 txs = Inr (rb, n2)"
    using assms unfolding Mine_def mineLocked_def n1 sum.case txs_def [symmetric] by (cases "buildBlock C now n1 txs") auto
  note bb = buildBlock_pool [OF n2]
  have sh: "shrunk (memPool (dn_chain n)) (memPool (dn_chain n2))" and same: "mineCh n1 = mineCh n" "AutoMine n1 = AutoMine n"
    using purge_shrunk [OF n1] bb(1) by (auto dest: arg_cong [where f = mineCh] arg_cong [where f = AutoMine])
  note M = assms [unfolded Mine_def mineLocked_def n1 sum.case txs_def [symmetric] n2 prod.case]
  have "(\<exists>e. rb = Inl e \<and> r = Inl e \<and> n' = n2) \<or> (\<exists>b' e c. rb = Inr b' \<and> AddBlock (node_env C n2) (nc_evict C) (dn_chain n2) b' = Inr (e, c)
      \<and> n' = n2\<lparr>dn_chain := c\<rparr> \<and> (r = Inr b \<longrightarrow> e = None))"
  proof (cases rb)
    case (Inr b')
    obtain e c where "AddBlock (node_env C n2) (nc_evict C) (dn_chain n2) b' = Inr (e, c)" using M Inr by (auto split: sum.splits)
    then show ?thesis using M Inr by (cases e) auto
  qed (use M in auto)
  then consider (noblock) e where "rb = Inl e" "r = Inl e" "n' = n2"
    | (blk) b' e c where "rb = Inr b'" "AddBlock (node_env C n2) (nc_evict C) (dn_chain n2) b' = Inr (e, c)" "n' = n2\<lparr>dn_chain := c\<rparr>" "r = Inr b \<longrightarrow> e = None"
    by blast
  note cs = this
  show "shrunk (memPool (dn_chain n)) (memPool (dn_chain n'))"
    using cs
  proof cases
    case blk
    then show ?thesis using shrunk_trans [OF sh AddBlock_pool(1) [OF blk(2)]] by simp
  qed (use sh in simp)
  show "mineCh n' = mineCh n" "AutoMine n' = AutoMine n"
    using cs bb(2,3) same by (cases; simp)+
  assume A: "r = Inr b" "roomy C" "fits_all C n" "ts = []" "waiting n \<noteq> 0"
  have le: "waiting n1 \<le> waiting n" "pooled_txs n1 \<subseteq> pooled_txs n"
    using purge_shrunk [OF n1] by (auto simp: shrunk_def pool_count_def)
  from cs show "waiting n' < waiting n"
  proof cases
    case blk
    note col = collect_some [OF A(2), of n1]
    have fit: "fits_all C n1" using A(3) le(2) unfolding fits_all_def by blast
    show ?thesis
    proof (cases "waiting n1 = 0")
      case True
      then have "waiting n' = 0" using AddBlock_pool(1) [OF blk(2)] blk(3) bb(1) by (simp add: shrunk_def pool_count_def)
      then show ?thesis using A(5) by simp
    next
      case False
      have tx: "Transactions b' = collectMempoolTxsForBlock C n1" using bb(4) blk(1) A(4) by (simp add: txs_def)
      have "waiting n' < waiting n2"
        using AddBlock_removes [of "node_env C n2" "nc_evict C" "dn_chain n2" b' c] blk A(1,2) tx col [OF fit] False bb(1)
        by (simp add: roomy_def pool_count_def)
      then show ?thesis using le(1) bb(1) by (simp add: pool_count_def)
    qed
  qed (use A(1) in simp)
qed


section \<open>Automining\<close>

text \<open>The steps of a node that mines automatically, interleaved in any order: a client's transaction is pooled or refused, a pooled one
  is announced to the producer, the worker takes a turn, a ticker fires, a call mines, drops or moves the clock. The second component
  are the transactions pooled but not yet announced. The steps of the producer are those in which mining does not fail.\<close>

inductive node_step :: "('g, 's) node_cfg \<Rightarrow> ('g, 's) dev_node \<times> 'g transaction list \<Rightarrow> ('g, 's) dev_node \<times> 'g transaction list \<Rightarrow> bool" for C where
  step_pooled: "pool_relayed C t n = Inr (None, n') \<Longrightarrow> node_step C (n, w) (n', t # w)"
| step_refused: "pool_relayed C t n = Inr (Some e, n') \<Longrightarrow> node_step C (n, w) (n', w)"
| step_announced: "OnTransactionRelayed C now t n = Inr (True, n') \<Longrightarrow> node_step C (n, u @ t # w) (n', u @ w)"
| step_worked: "mineWorker C now n = Inr (True, n') \<Longrightarrow> node_step C (n, w) (n', w)"
| step_interval: "interval_tick C now n = Inr (True, n') \<Longrightarrow> node_step C (n, w) (n', w)"
| step_empty: "empty_tick C now n = Inr (True, n') \<Longrightarrow> node_step C (n, w) (n', w)"
| step_mined: "MineBlock C clock k n = Inr (r, n') \<Longrightarrow> node_step C (n, w) (n', w)"
| step_dropped: "DropTransaction C h n = Inr (r, n') \<Longrightarrow> node_step C (n, w) (n', w)"
| step_increased: "node_step C (n, w) (IncreaseTime s n, w)"
| step_stamped: "node_step C (n, w) (SetNextBlockTimestamp ts n, w)"

definition automine_inv :: "('g, 's) node_cfg \<Rightarrow> ('g, 's) dev_node \<times> 'g transaction list \<Rightarrow> bool" where
  "automine_inv C s \<longleftrightarrow> (case s of (n, w) \<Rightarrow>
     AutoMine n \<and> fits_all C n \<and> waiting n \<le> length (mineCh n) + length w)"

lemma mineOne_pool:
  assumes "mineOne C now t n = Inr (True, n')" "roomy C" "fits_all C n"
  shows "shrunk (memPool (dn_chain n)) (memPool (dn_chain n'))" "mineCh n' = mineCh n" "AutoMine n' = AutoMine n"
    "waiting n \<noteq> 0 \<Longrightarrow> waiting n' < waiting n"
proof -
  let ?P = "shrunk (memPool (dn_chain n)) (memPool (dn_chain n')) \<and> mineCh n' = mineCh n \<and> AutoMine n' = AutoMine n
    \<and> (waiting n \<noteq> 0 \<longrightarrow> waiting n' < waiting n)"
  have ?P
  proof (cases "t \<noteq> None \<and> waiting n = 0")
    case True
    then show ?thesis using assms(1) by (simp add: mineOne_def)
  next
    case False
    note M = assms(1) [unfolded mineOne_def if_not_P [OF False]]
    obtain r n1 where r: "Mine C now n [] = Inr (r, n1)" using M by (cases "Mine C now n []") auto
    note m1 = Mine_pool [OF r]
    show ?thesis
    proof (cases r)
      case (Inr b)
      then show ?thesis using M r m1(1-3) m1(4) [OF Inr assms(2,3)] by simp
    next
      case (Inl e)
      then have ex: "says_expired e" using M r by (auto split: if_splits)
      obtain n2 where n2: "purgeStaleMempool C n1 = Inr n2" using M r Inl ex by (cases "purgeStaleMempool C n1") auto
      obtain b where b: "Mine C now n2 [] = Inr (Inr b, n')" using M r Inl ex n2 by (auto split: sum.splits)
      note m2 = Mine_pool [OF b] purge_shrunk [OF n2]
      have sh: "shrunk (memPool (dn_chain n)) (memPool (dn_chain n2))" using m1(1) m2(5) shrunk_trans by blast
      have same: "mineCh n2 = mineCh n1" "AutoMine n2 = AutoMine n1"
        using m2(5) by (auto dest: arg_cong [where f = mineCh] arg_cong [where f = AutoMine])
      have fit: "fits_all C n2" using assms(3) sh by (auto simp: shrunk_def fits_all_def)
      have "waiting n' < waiting n" if w: "waiting n \<noteq> 0"
      proof (cases "waiting n2 = 0")
        case True
        then have "waiting n' = 0" using m2(1) by (simp add: shrunk_def pool_count_def)
        then show ?thesis using w by simp
      next
        case False
        then show ?thesis using m2(4) [OF refl assms(2) fit refl] sh by (simp add: shrunk_def pool_count_def)
      qed
      then show ?thesis using shrunk_trans [OF sh m2(1)] m1(2,3) m2(2,3) same by simp
    qed
  qed
  then show "shrunk (memPool (dn_chain n)) (memPool (dn_chain n'))" "mineCh n' = mineCh n" "AutoMine n' = AutoMine n"
    "waiting n \<noteq> 0 \<Longrightarrow> waiting n' < waiting n" by blast+
qed

lemma shrunk_fits: "shrunk (memPool (dn_chain n)) (memPool (dn_chain n')) \<Longrightarrow> fits_all C n \<Longrightarrow> fits_all C n'"
  by (auto simp: shrunk_def fits_all_def)

lemma shrunk_waiting: "shrunk (memPool (dn_chain n)) (memPool (dn_chain n')) \<Longrightarrow> waiting n' \<le> waiting n"
  by (simp add: shrunk_def pool_count_def)

text \<open>A turn of the miner uses up an entry of the queue, and a transaction if there is one.\<close>

lemma mineOne_inv:
  assumes "mineOne C now t n = Inr (True, n')" "roomy C" "AutoMine n" "fits_all C n"
    "waiting n \<le> Suc (length (mineCh n) + length w)"
  shows "automine_inv C (n', w)"
  using mineOne_pool [OF assms(1,2,4)] assms(3-5) shrunk_fits [of n n' C] shrunk_waiting [of n n']
  by (cases "waiting n = 0") (auto simp: automine_inv_def)

lemma enqueueMine_inv:
  assumes "enqueueMine C now t n = Inr (True, n')" "roomy C" "AutoMine n" "fits_all C n"
    "waiting n \<le> Suc (length (mineCh n) + length w)"
  shows "automine_inv C (n', w)"
proof (cases "length (mineCh n) < mineQueueSize")
  case True
  then show ?thesis using assms(1,3-5) by (auto simp: enqueueMine_def automine_inv_def)
next
  case False
  then show ?thesis using assms mineOne_inv [of C now t n n' w] by (simp add: enqueueMine_def)
qed

lemma MineEmpty_pool:
  "MineEmpty C clock k n = Inr (r, n') \<Longrightarrow> shrunk (memPool (dn_chain n)) (memPool (dn_chain n')) \<and> mineCh n' = mineCh n \<and> AutoMine n' = AutoMine n"
proof (induction k arbitrary: n r)
  case (Suc k)
  obtain m n1 where m: "Mine C (clock (Suc k)) n [] = Inr (m, n1)" using Suc.prems by (cases "Mine C (clock (Suc k)) n []") auto
  note mp = Mine_pool [OF m]
  show ?case
  proof (cases m)
    case (Inl e)
    then show ?thesis using Suc.prems m mp(1-3) by auto
  next
    case (Inr b)
    then obtain r' where "MineEmpty C clock k n1 = Inr (r', n')" using Suc.prems m by (auto split: sum.splits)
    from Suc.IH [OF this] show ?thesis using mp(1-3) shrunk_trans by metis
  qed
qed simp

lemma pool_relayed_items:
  assumes "pool_relayed C t n = Inr (e, n')"
  shows "waiting n' \<le> waiting n + (if e = None then 1 else 0)" "mineCh n' = mineCh n" "AutoMine n' = AutoMine n"
    "fits_all C n \<Longrightarrow> fits_all C n'"
proof -
  let ?E = "node_env C n" let ?c = "dn_chain n"
  obtain c where c: "PoolTx ?E ?c t = Inr (e, c)" "n' = n\<lparr>dn_chain := c\<rparr>" using assms by (auto simp: pool_relayed_def split: sum.splits)
  then show "mineCh n' = mineCh n" "AutoMine n' = AutoMine n" by simp_all
  consider "e \<noteq> None" "memPool c = memPool ?c"
    | "verifyAndPoolTx ?E ?c t (memPool ?c) (chain_feer ?E ?c) None = Inr (e, memPool c)" "\<not> cfg_MaxBlockSystemFee ?E <s SystemFee t"
    using c(1) by (auto simp: PoolTx_def verifyAndPoolOffChainTx_def split: if_splits sum.splits)
  then have "waiting n' \<le> waiting n + (if e = None then 1 else 0)
      \<and> (fits_all C n \<longrightarrow> fits_all C n')"
  proof cases
    case 2
    have sub: "pooled_txs n' \<subseteq> (if e = None then insert t (pooled_txs n) else pooled_txs n)" using verifyAndPoolTx_adds(2) [OF 2(1)] c(2) by simp
    have "e = None \<longrightarrow> block_fits C t" using verifyAndPoolTx_adds(3) [OF 2(1)] 2(2) by (simp add: block_fits_def)
    then have "fits_all C n \<longrightarrow> fits_all C n'" using sub unfolding fits_all_def by (cases e) auto
    then show ?thesis using verifyAndPoolTx_adds(1) [OF 2(1)] c(2) by (simp add: pool_count_def)
  qed (use c(2) in \<open>auto simp: fits_all_def\<close>)
  then show "waiting n' \<le> waiting n + (if e = None then 1 else 0)"
    "fits_all C n \<Longrightarrow> fits_all C n'" by blast+
qed

lemma shrunk_inv:
  "automine_inv C (n, w) \<Longrightarrow> shrunk (memPool (dn_chain n)) (memPool (dn_chain n')) \<Longrightarrow> mineCh n' = mineCh n \<Longrightarrow> AutoMine n' = AutoMine n
   \<Longrightarrow> automine_inv C (n', w)"
  using shrunk_fits [of n n' C] shrunk_waiting [of n n'] by (auto simp: automine_inv_def)

lemma node_step_inv:
  assumes "node_step C s s'" "roomy C" "automine_inv C s"
  shows "automine_inv C s'"
  using assms
proof (cases rule: node_step.cases)
  case (step_pooled t n n' w)
  then show ?thesis using assms(3) pool_relayed_items [OF step_pooled(3)] by (auto simp: automine_inv_def)
next
  case (step_refused t n e n' w)
  then show ?thesis using assms(3) pool_relayed_items [OF step_refused(3)] by (auto simp: automine_inv_def)
next
  case (step_announced now t n n' u w)
  have A: "AutoMine n" "fits_all C n" "waiting n \<le> Suc (length (mineCh n) + length (u @ w))"
    using assms(3) step_announced(1) by (auto simp: automine_inv_def)
  have "enqueueMine C now (Some t) n = Inr (True, n')" using step_announced(3) A(1) assms(2) by (simp add: OnTransactionRelayed_def roomy_def)
  then show ?thesis using enqueueMine_inv [OF _ assms(2) A] step_announced(2) by simp
next
  case (step_worked now n n' w)
  show ?thesis
  proof (cases "mineCh n")
    case Nil
    then show ?thesis using step_worked assms(3) by (simp add: mineWorker_def)
  next
    case (Cons t ts)
    have "mineOne C now t (n\<lparr>mineCh := ts\<rparr>) = Inr (True, n')" using step_worked(3) Cons by (simp add: mineWorker_def)
    then show ?thesis unfolding step_worked(2) by (rule mineOne_inv) (use assms(2,3) step_worked(1) Cons in \<open>auto simp: automine_inv_def fits_all_def\<close>)
  qed
next
  case (step_interval now n n' w)
  then show ?thesis using assms(3) enqueueMine_inv [of C now None n n' w, OF _ assms(2)]
    by (auto simp: interval_tick_def automine_inv_def split: if_splits)
next
  case (step_empty now n n' w)
  then show ?thesis using assms(3) enqueueMine_inv [of C now None n n' w, OF _ assms(2)]
    by (auto simp: empty_tick_def automine_inv_def split: if_splits)
next
  case (step_mined clock k n r n' w)
  then obtain r' where "MineEmpty C clock (nat (if k \<le> 0 then 1 else k)) n = Inr (r', n')" by (auto simp: MineBlock_def split: sum.splits)
  from MineEmpty_pool [OF this] show ?thesis using shrunk_inv [of C n w n'] assms(3) step_mined(1,2) by simp
next
  case (step_dropped h n r n' w)
  then have "shrunk (memPool (dn_chain n)) (memPool (dn_chain n')) \<and> mineCh n' = mineCh n \<and> AutoMine n' = AutoMine n"
    by (auto simp: DropTransaction_def Let_def pool_Remove_def shrunk_def dest!: removeInternal_shrunk split: if_splits sum.splits)
  then show ?thesis using shrunk_inv [of C n w n'] assms(3) step_dropped(1,2) by simp
qed (auto simp: automine_inv_def IncreaseTime_def SetNextBlockTimestamp_def)


primrec run_worker :: "('g, 's) node_cfg \<Rightarrow> (nat \<Rightarrow> u64) \<Rightarrow> nat \<Rightarrow> ('g, 's) dev_node \<Rightarrow> string + bool \<times> ('g, 's) dev_node" where
  "run_worker C clock 0 n = Inr (True, n)"
| "run_worker C clock (Suc k) n =
    (case mineWorker C (clock k) n of Inl p \<Rightarrow> Inl p | Inr (False, n') \<Rightarrow> Inr (False, n') | Inr (True, n') \<Rightarrow> run_worker C clock k n')"

lemma run_worker_drains:
  assumes "roomy C" "automine_inv C (n, [])" "run_worker C clock k n = Inr (True, n')" "length (mineCh n) \<le> k"
  shows "mineCh n' = [] \<and> automine_inv C (n', [])"
  using assms(2-4)
proof (induction k arbitrary: n)
  case (Suc k)
  obtain n1 where n1: "mineWorker C (clock k) n = Inr (True, n1)" "run_worker C clock k n1 = Inr (True, n')"
    using Suc.prems(2) by (auto split: sum.splits bool.splits)
  have inv: "automine_inv C (n1, [])" using node_step_inv [OF step_worked [OF n1(1)] assms(1) Suc.prems(1)] .
  have "length (mineCh n1) \<le> k"
  proof (cases "mineCh n")
    case Nil
    then show ?thesis using n1(1) by (simp add: mineWorker_def)
  next
    case (Cons t ts)
    have "mineOne C (clock k) t (n\<lparr>mineCh := ts\<rparr>) = Inr (True, n1)" using n1(1) Cons by (simp add: mineWorker_def)
    from mineOne_pool(2) [OF this assms(1)] show ?thesis using Suc.prems(1,3) Cons by (simp add: automine_inv_def)
  qed
  then show ?case using Suc.IH [OF inv n1(2)] by simp
qed simp


text \<open>C39. \<open>nanvil_increaseTime\<close> does not move the time: on the network of the node, and on every fork, a call that succeeds returns the
  seconds it was given and leaves exactly the node that \<open>nanvil_mine\<close> would have left.\<close>

theorem increaseTime_has_no_effect:
  assumes "nc_ForkMode C \<or> nc_Magic C = NanvilNet" and "GetInt x = Some sec" and "0 \<le> sec"
    and "handleMine C clock [] n = Inr (RString [48, 120, 48], n')"
  shows "handleIncreaseTime C clock (x # p) n = Inr (RInt sec, n')"
proof -
  obtain b where b: "Mine C (clock 1) n [] = Inr (Inr b, n')"
    using assms(4) by (auto simp: handleMine_def MineBlock_def internal_def split: sum.splits option.splits)
  obtain n1 where n1: "purgeStaleMempool C n = Inr n1" using b by (auto simp: Mine_def mineLocked_def split: sum.splits)
  let ?n = "IncreaseTime (of_int sec) n" let ?n1 = "IncreaseTime (of_int sec) n1"
  have p: "purgeStaleMempool C ?n = Inr ?n1"
    using n1 by (auto simp: purgeStaleMempool_def IncreaseTime_def node_env_def split: sum.splits)
  have c: "collectMempoolTxsForBlock C ?n1 = collectMempoolTxsForBlock C n1"
    by (simp add: collectMempoolTxsForBlock_def IncreaseTime_def node_env_def)
  obtain b' n2 where bb: "buildBlock C (clock 1) n1 (collectMempoolTxsForBlock C n1) = Inr (Inr b', n2)"
    using b n1 by (auto simp: Mine_def mineLocked_def split: sum.splits)
  have same: "node_env C ?n1 = node_env C n1" "dn_chain ?n1 = dn_chain n1" "next_timestamp C now ?n1 l = next_timestamp C now n1 l"
    "?n1\<lparr>dn_chain := d, FixedNextTimestamp := 0, NextTimestampOffset := 0\<rparr> = n1\<lparr>dn_chain := d, FixedNextTimestamp := 0, NextTimestampOffset := 0\<rparr>"
    "dn_chain (m\<lparr>dn_chain := d\<rparr>) = d" for now l d and m :: "('a, 'b) dev_node"
    using assms(1) by (simp_all add: IncreaseTime_def node_env_def next_timestamp_def)
  have "buildBlock C (clock 1) ?n1 (collectMempoolTxsForBlock C n1) = Inr (Inr b', n2)"
  proof -
    obtain lastHash hh where g: "GetHeaderHash (nc_evict C) (hashes (dn_chain n1)) (blockHeight (dn_chain n1)) = Inr (lastHash, hh)"
      using bb unfolding buildBlock_def Let_def by (cases "GetHeaderHash (nc_evict C) (hashes (dn_chain n1)) (blockHeight (dn_chain n1))") auto
    note B = bb [unfolded buildBlock_def Let_def g sum.case prod.case same]
    obtain l where l: "GetHeader (node_env C n1) (dn_chain n1\<lparr>hashes := hh\<rparr>) lastHash = Some l"
      using B by (cases "GetHeader (node_env C n1) (dn_chain n1\<lparr>hashes := hh\<rparr>) lastHash") auto
    show ?thesis unfolding buildBlock_def Let_def same g sum.case prod.case l option.case using B unfolding l option.case by simp
  qed
  then have "Mine C (clock 1) ?n [] = Mine C (clock 1) n []" using n1 p c bb by (simp add: Mine_def mineLocked_def)
  then show ?thesis using b assms(2,3) by (simp add: handleIncreaseTime_def MineBlock_def)
qed

text \<open>A running node can neither be reverted nor reset: \<open>nanvil_revert\<close> always answers with an error and changes nothing;
  \<open>nanvil_reset\<close> answers with an error too, but stops the producer and closes the chain first, so that the next
  call panics.\<close>

theorem revert_and_reset_fail:
  assumes "dn_running n" and "\<not> dn_closed n"
  shows "\<exists>e. handleRevert C (x # p) n = (e, n) \<and> e \<noteq> RBool True
    \<and> (\<exists>n' e. handleReset n = Inr (InternalServerError e, n') \<and> \<not> dn_producing n' \<and> \<not> dn_running n' \<and> handleReset n' = Inl ''close of closed channel'')"
  using assms
  by (auto simp: handleRevert_def RevertSnapshot_def Revert_def chain_Reset_def handleReset_def ResetChain_def chain_Close_def split: option.splits)

section \<open>A node for the witnesses\<close>

definition demo_cfg :: "(u64, unit) node_cfg" where
  "demo_cfg = \<lparr>nc_env = demo_env, nc_evict = id, nc_Validator = \<lparr>ms_accounts = [], ms_m = 0, ms_Script = [], ms_ScriptHash = replicate 20 0\<rparr>,
     nc_Magic = NanvilNet, nc_ForkMode = False, nc_BlockTime = 0, nc_MineEmptyBlocks = False, nc_EmptyBlockInterval = 0,
     nc_reset = (\<lambda>c _. Inr c), nc_address = Some\<rparr>"

definition demo_genesis :: header where
  "demo_genesis = (new_Header False)\<lparr>hd_hash := replicate 32 9\<rparr>"

definition demo_node :: "(u64, unit) dev_node" where
  "demo_node = \<lparr>dn_chain = demo_chain\<lparr>topBlock := Some ((New_block False)\<lparr>Header := demo_genesis\<rparr>)\<rparr>, NextTimestampOffset = 0, FixedNextTimestamp = 0,
     AutoMine = True, mineCh = [], dn_snaps = NewManager, dn_registry = NewRegistry, dn_producing = True, dn_running = True, dn_closed = False\<rparr>"

lemma drop_stale_empty: "verifiedTxes (memPool c) = [] \<Longrightarrow> \<exists>mp. drop_stale E c p = Inr (c\<lparr>memPool := mp\<rparr>) \<and> verifiedTxes mp = []"
proof -
  assume A: "verifiedTxes (memPool c) = []"
  obtain pc mp1 where "loadPolicy (memPool c) (chain_feer E c) = (pc, mp1)" "verifiedTxes mp1 = []"
    using A by (cases "loadPolicy (memPool c) (chain_feer E c)") (auto simp: loadPolicy_def split: if_splits)
  then have "drop_stale E c p = Inr (c\<lparr>memPool := mp1\<lparr>fees := Map.empty, conflicts := Map.empty, verifiedTxes := []\<rparr>\<rparr>)"
    using A by (simp add: drop_stale_def Let_def RemoveStale_def)
  then show ?thesis by (intro exI [of _ "mp1\<lparr>fees := Map.empty, conflicts := Map.empty, verifiedTxes := []\<rparr>"]) simp
qed

lemma genesis_simps: "fst (hd_Hash demo_genesis) = replicate 32 9" "Timestamp demo_genesis = 0" "Index demo_genesis = 0" "StateRootEnabled demo_genesis = False"
  by (simp_all add: demo_genesis_def hd_Hash_def zero256_def new_Header_def)

text \<open>The chain of the node accepts any empty block on top that is later than the genesis.\<close>

lemma demo_AddBlock:
  assumes "memPool c = mp" "verifiedTxes mp = []" "hashes c = hashes demo_chain" "blockHeight c = 0"
    "topBlock c = Some ((New_block False)\<lparr>Header := demo_genesis\<rparr>)"
    and h: "hdr_ok hdr" "PrevHash hdr = replicate 32 9" "Index hdr = 1" "0 < Timestamp hdr" "\<not> StateRootEnabled hdr" "MerkleRoot hdr = zero256"
  shows "\<exists>c'. AddBlock demo_env id c \<lparr>Header = hdr, Transactions = [], b_Trimmed = False\<rparr> = Inr (None, c') \<and> verifiedTxes (memPool c') = []"
proof -
  let ?b = "\<lparr>Header = hdr, Transactions = [], b_Trimmed = False\<rparr> :: u64 block"
  have i: "hh_inv [replicate 32 9] (hashes c)" using init_genesis [of "replicate 32 9"] assms(3) by (simp add: demo_chain_def)
  obtain hh where hh: "hh_addHeaders (hashes c) [hdr] = (None, hh)" using hh_addHeaders_spec [OF i, of "[hdr]"] h(1) by auto
  have nx: "HeaderHeight (hashes c) = 0" using lastHeaderIndex_eq(1) [OF i] by (simp add: HeaderHeight_def)
  have "GetHeader demo_env c (PrevHash hdr) = Some demo_genesis" using assms(5) h(2) genesis_simps(1) by (simp add: GetHeader_def)
  moreover have "verify_headers demo_env c demo_genesis [hdr] = None"
    using h(2-5) genesis_simps by (simp add: verifyHeader_def demo_env_def)
  ultimately have "bc_addHeaders demo_env c True [hdr] = (None, c\<lparr>hashes := hh\<rparr>)"
    using nx hh h(3) by (simp add: bc_addHeaders_def demo_env_def)
  then have acc: "accept_header demo_env id c ?b = Inr (None, c\<lparr>hashes := hh\<rparr>)"
    using nx h(3) by (simp add: accept_header_def demo_env_def)
  obtain d2 where d2: "StoreAsBlock WriteU64LE (StoreAsCurrentBlock (hh_dao hh) ?b) ?b [] = Inr (None, d2)"
    by (simp add: StoreAsBlock_def EncodeTrimmed_def hd_EncodeBinary_ok WriteB_def NewBufBinWriter_def codec_simps)
  have st: "\<exists>c'. storeBlock demo_env id (c\<lparr>hashes := hh\<rparr>) ?b p = Inr (None, c') \<and> verifiedTxes (memPool c') = []" for p
  proof -
    let ?c = "c\<lparr>ledger := (), hashes := hh\<lparr>hh_dao := d2\<rparr>, topBlock := Some ?b, blockHeight := 1\<rparr>"
    have "verifiedTxes (memPool ?c) = []" using assms(1,2) by simp
    then obtain mp' where "drop_stale demo_env ?c p = Inr (?c\<lparr>memPool := mp'\<rparr>)" "verifiedTxes mp' = []" using drop_stale_empty by blast
    then show ?thesis using d2 h(3)
      by (simp add: storeBlock_def Let_def demo_env_def)
  qed
  show ?thesis using acc st assms(4) h(3,5,6)
    by (simp add: AddBlock_def Let_def ComputeMerkleRoot_def CalcMerkleRoot.simps demo_env_def zero256_def)
qed


lemma demo_build:
  assumes n: "hashes (dn_chain n) = hashes demo_chain" "blockHeight (dn_chain n) = 0" "topBlock (dn_chain n) = Some ((New_block False)\<lparr>Header := demo_genesis\<rparr>)"
    "dn_registry n = NewRegistry" "FixedNextTimestamp n = 0" and now: "0 < now"
  shows "\<exists>hdr. buildBlock demo_cfg now n [] = Inr (Inr \<lparr>Header = hdr, Transactions = [], b_Trimmed = False\<rparr>, n\<lparr>FixedNextTimestamp := 0, NextTimestampOffset := 0\<rparr>)
    \<and> hdr_ok hdr \<and> PrevHash hdr = replicate 32 9 \<and> Index hdr = 1 \<and> 0 < Timestamp hdr \<and> \<not> StateRootEnabled hdr \<and> MerkleRoot hdr = zero256"
proof -
  let ?c = "dn_chain n"
  have cfg: "nc_evict demo_cfg = id" "nc_ForkMode demo_cfg = False" "nc_Magic demo_cfg = NanvilNet"
    "nc_Validator demo_cfg = \<lparr>ms_accounts = [], ms_m = 0, ms_Script = [], ms_ScriptHash = replicate 20 0\<rparr>" by (simp_all add: demo_cfg_def)
  have i: "hh_inv [replicate 32 9] (hashes ?c)" using init_genesis [of "replicate 32 9"] n(1) by (simp add: demo_chain_def)
  have g: "GetHeaderHash id (hashes ?c) 0 = Inr (replicate 32 9, hashes ?c)"
    using getLocalHeaderHash_eq [OF i, of 0] by (simp add: GetHeaderHash_def stored_of_def)
  have gh: "GetHeader demo_env ?c (replicate 32 9) = Some demo_genesis" using n(3) genesis_simps(1) by (simp add: GetHeader_def)
  define hdr where "hdr = (new_Header False)\<lparr>NextConsensus := replicate 20 0, hd_Script := \<lparr>InvocationScript = [], VerificationScript = []\<rparr>,
      Timestamp := next_timestamp demo_cfg now n 0, PrevStateRoot := zero256, PrevHash := replicate 32 9, Index := 1, MerkleRoot := zero256\<rparr>"
  have ts: "0 < next_timestamp demo_cfg now n 0" using cfg now n(5) by (simp add: next_timestamp_def)
  have bb: "buildBlock demo_cfg now n [] = Inr (Inr (sign_block demo_cfg \<lparr>Header = hdr, Transactions = [], b_Trimmed = False\<rparr>), n\<lparr>FixedNextTimestamp := 0, NextTimestampOffset := 0\<rparr>)"
  proof -
    have d: "node_env demo_cfg n = demo_env" "?c\<lparr>hashes := hashes ?c\<rparr> = ?c" "n\<lparr>dn_chain := ?c\<rparr> = n"
      using n(4) by (simp_all add: node_env_def demo_cfg_def demo_env_def)
    have "cfg_StateRootInHeader demo_env = False" by (simp add: demo_env_def)
    moreover have "CalcMerkleRoot [] = zero256" by (simp add: CalcMerkleRoot.simps zero256_def)
    ultimately show ?thesis unfolding buildBlock_def Let_def d cfg(1) n(2) g sum.case prod.case gh option.case
      by (simp add: RebuildMerkleRoot_def ComputeMerkleRoot_def hdr_def genesis_simps cfg)
  qed
  define hd2 where "hd2 = Header (sign_block demo_cfg \<lparr>Header = hdr, Transactions = [], b_Trimmed = False\<rparr> :: u64 block)"
  have sb: "sign_block demo_cfg \<lparr>Header = hdr, Transactions = [], b_Trimmed = False\<rparr> = (\<lparr>Header = hd2, Transactions = [], b_Trimmed = False\<rparr> :: u64 block)"
    by (simp add: hd2_def sign_block_def Let_def split: prod.split)
  have z: "hd_hash hdr = zero256" by (simp add: hdr_def new_Header_def)
  have "hdr_ok hd2" "PrevHash hd2 = replicate 32 9" "Index hd2 = 1" "0 < Timestamp hd2" "\<not> StateRootEnabled hd2" "MerkleRoot hd2 = zero256"
    using ts z cfg(4) unfolding hd2_def sign_block_def hd_Hash_def hd_createHash_def
    by (simp_all add: Let_def hdr_ok_def header_ok_def witness_ok_def SignHashable_def) (simp_all add: hdr_def new_Header_def zero256_def)
  then show ?thesis using bb sb by auto
qed

lemma demo_mines:
  assumes "0 < now" "n = demo_node\<lparr>mineCh := q\<rparr>"
  shows "\<exists>b n'. Mine demo_cfg now n [] = Inr (Inr b, n') \<and> verifiedTxes (memPool (dn_chain n')) = [] \<and> mineCh n' = q"
proof -
  have E: "node_env demo_cfg m = demo_env" if "dn_registry m = NewRegistry" for m :: "(u64, unit) dev_node"
    using that by (simp add: node_env_def demo_cfg_def demo_env_def)
  have r: "dn_registry n = NewRegistry" "verifiedTxes (memPool (dn_chain n)) = []" by (simp_all add: assms(2) demo_node_def demo_chain_def New_pool_def)
  obtain mp where mp: "drop_stale demo_env (dn_chain n) None = Inr ((dn_chain n)\<lparr>memPool := mp\<rparr>)" "verifiedTxes mp = []"
    using drop_stale_empty r(2) by blast
  define n1 where "n1 = n\<lparr>dn_chain := (dn_chain n)\<lparr>memPool := mp\<rparr>\<rparr>"
  have p: "purgeStaleMempool demo_cfg n = Inr n1" using mp(1) E [OF r(1)] by (simp add: purgeStaleMempool_def n1_def)
  have col: "collectMempoolTxsForBlock demo_cfg n1 = []"
    using mp(2) by (simp add: collectMempoolTxsForBlock_def ApplyPolicyToTxSet_def Let_def GetVerifiedTransactions_def n1_def)
  have c: "memPool (dn_chain n1) = mp" "hashes (dn_chain n1) = hashes demo_chain" "blockHeight (dn_chain n1) = 0"
    "topBlock (dn_chain n1) = Some ((New_block False)\<lparr>Header := demo_genesis\<rparr>)" "dn_registry n1 = NewRegistry" "FixedNextTimestamp n1 = 0" "mineCh n1 = q"
    by (simp_all add: n1_def assms(2) demo_node_def demo_chain_def)
  from demo_build [OF c(2-6) assms(1)] obtain hdr where
    bb: "buildBlock demo_cfg now n1 [] = Inr (Inr \<lparr>Header = hdr, Transactions = [], b_Trimmed = False\<rparr>, n1\<lparr>FixedNextTimestamp := 0, NextTimestampOffset := 0\<rparr>)"
    and h: "hdr_ok hdr" "PrevHash hdr = replicate 32 9" "Index hdr = 1" "0 < Timestamp hdr" "\<not> StateRootEnabled hdr" "MerkleRoot hdr = zero256" by blast
  from demo_AddBlock [OF c(1) mp(2) c(2-4) h] obtain c' where
    a: "AddBlock demo_env id (dn_chain n1) \<lparr>Header = hdr, Transactions = [], b_Trimmed = False\<rparr> = Inr (None, c')" "verifiedTxes (memPool c') = []" by blast
  have ev: "nc_evict demo_cfg = id" by (simp add: demo_cfg_def)
  show ?thesis using p col bb a ev c(5,7) by (simp add: Mine_def mineLocked_def E)
qed

lemma demo_roomy: "roomy demo_cfg"
proof -
  have "counted (witness_EncodeBinary \<lparr>InvocationScript = [], VerificationScript = []\<rparr>) = 2" "expectedHeaderSizeWithEmptyWitness \<le> 200"
    by (simp_all add: expectedHeaderSizeWithEmptyWitness_def counted_def hd_EncodeBinary_ok NewBufBinWriter_def hd_wire_def hd_hashable_wire_def
        new_Header_def zero256_def witness.enc_ok witness_ok_def witness_wire_def var_wire_def length_PutVarUint del: nat_le.simps)
  moreover have "GetVarSize (SInt i) \<le> 9" for i by (simp add: getVarIntSize_def)
  ultimately have "base_size demo_env () k \<le> 300" for k
  proof -
    have "base_size demo_env () k = expectedHeaderSizeWithEmptyWitness - 1 - 1 + 2 + GetVarSize (SInt (int k))"
      using \<open>counted _ = 2\<close> by (simp add: base_size_def GetExpectedBlockSizeWithoutTransactions_def demo_env_def new_Header_def)
    also have "\<dots> \<le> 200 + 2 + 9" using \<open>expectedHeaderSizeWithEmptyWitness \<le> 200\<close> \<open>GetVarSize (SInt (int k)) \<le> 9\<close> by (simp only: diff_le_self add_mono le_diff_conv trans_le_add1)
    finally show ?thesis by simp
  qed
  then have b: "base_size demo_env s k \<le> 300" for s k by simp
  have "base_size demo_env s k + MaxTransactionSize \<le> 262144" for s k using add_right_mono [OF b [of s k], of MaxTransactionSize] by (simp add: MaxTransactionSize_def)
  moreover have "unat (cfg_MaxBlockSize demo_env) = 262144" "\<not> cfg_SkipBlockVerification demo_env" "cfg_VerifyTransactions demo_env" by (simp_all add: demo_env_def)
  ultimately show ?thesis by (simp add: roomy_def demo_cfg_def)
qed




theorem increaseTime_has_no_effect_witness:
  "\<exists>n'. handleMine demo_cfg (\<lambda>_. 5) [] demo_node = Inr (RString [48, 120, 48], n')
     \<and> handleIncreaseTime demo_cfg (\<lambda>_. 5) [\<lparr>GetInt = Some 3600, GetBoolean = None, GetString = None\<rparr>] demo_node = Inr (RInt 3600, n')"
proof -
  obtain b n' where "Mine demo_cfg 5 (demo_node\<lparr>mineCh := []\<rparr>) [] = Inr (Inr b, n')" using demo_mines [of 5, OF _ refl, of "[]"] by auto
  moreover have "demo_node\<lparr>mineCh := []\<rparr> = demo_node" by (simp add: demo_node_def)
  ultimately have "handleMine demo_cfg (\<lambda>_. 5) [] demo_node = Inr (RString [48, 120, 48], n')" by (simp add: handleMine_def MineBlock_def)
  from this increaseTime_has_no_effect [OF _ _ _ this, of "\<lparr>GetInt = Some 3600, GetBoolean = None, GetString = None\<rparr>" 3600 "[]"] show ?thesis
    by (simp add: demo_cfg_def)
qed

theorem revert_and_reset_fail_witness:
  "\<exists>n' e. handleReset demo_node = Inr (InternalServerError e, n') \<and> handleReset n' = Inl ''close of closed channel''"
proof -
  have "dn_running demo_node" "\<not> dn_closed demo_node" by (simp_all add: demo_node_def)
  from revert_and_reset_fail [OF this, of demo_cfg] show ?thesis by blast
qed

end
