(* ===== verification/StackItem.thy ===== *)
theory StackItem
  imports BigIntCodec
begin

text \<open>
  Stack items of the virtual machine: \<open>pkg/vm/stackitem/item.go\<close>, \<open>type.go\<close>, \<open>reference.go\<close> and \<open>immutable.go\<close>. The types that
  the sources keep behind a pointer and mutate (\<open>Array\<close>, \<open>Struct\<close>, \<open>Map\<close>, \<open>Buffer\<close>) are addresses of an explicit store, so that
  two items can share one object; integers, booleans, byte strings and code pointers are values, since nothing writes to them.
  The value of an \<open>Interop\<close> is an arbitrary type \<open>'i\<close>, compared by an argument. A Go panic or error is \<open>Inl\<close>.
\<close>

section \<open>Types\<close>

type_synonym si_type = byte

abbreviation AnyT :: si_type where "AnyT \<equiv> 0x00"
abbreviation PointerT :: si_type where "PointerT \<equiv> 0x10"
abbreviation BooleanT :: si_type where "BooleanT \<equiv> 0x20"
abbreviation IntegerT :: si_type where "IntegerT \<equiv> 0x21"
abbreviation ByteArrayT :: si_type where "ByteArrayT \<equiv> 0x28"
abbreviation BufferT :: si_type where "BufferT \<equiv> 0x30"
abbreviation ArrayT :: si_type where "ArrayT \<equiv> 0x40"
abbreviation StructT :: si_type where "StructT \<equiv> 0x41"
abbreviation MapT :: si_type where "MapT \<equiv> 0x48"
abbreviation InteropT :: si_type where "InteropT \<equiv> 0x60"
abbreviation InvalidT :: si_type where "InvalidT \<equiv> 0xFF"

definition Type_IsValid :: "si_type \<Rightarrow> bool" where
  "Type_IsValid t \<longleftrightarrow>
    t \<in> {AnyT, PointerT, BooleanT, IntegerT, ByteArrayT, BufferT, ArrayT, StructT, MapT, InteropT}"

datatype si_error =
    ErrInvalidConversion | ErrTooBig | ErrReadOnly | ErrInvalidType | ErrInvalidValue
  | ErrTooBigComparable | ErrTooBigInteger | ErrTooBigKey | ErrTooBigSize | ErrTooBigElements
  | ErrRecursive | ErrUnserializable

text \<open>The panics of the machine: an error value, a message of the machine's own, the gas limit, and what the Go runtime raises
  (index out of range, failed type assertion, division by zero).\<close>

datatype vm_panic = ItemErr si_error | Message string | GasLimitExceeded | RuntimePanic

type_synonym addr = nat

datatype 'i item =
    NullI
  | BoolI bool
  | IntI int
  | BytesI bytes
  | PointerI int bytes bytes
  | InteropI 'i
  | ArrayP addr
  | StructP addr
  | MapP addr
  | BufferP addr

datatype 'i content =
    Items "'i item list"
  | Elems "('i item \<times> 'i item) list" "bytes \<rightharpoonup> nat"
  | Raw bytes

record 'i cell =
  content :: "'i content"
  rc_count :: int
  isReadOnly :: bool

type_synonym 'i heap = "'i cell list"

abbreviation (input) MaxBigIntegerSizeBits :: nat where "MaxBigIntegerSizeBits \<equiv> 256"
abbreviation (input) MaxSize :: nat where "MaxSize \<equiv> 131070"
abbreviation (input) MaxDeserialized :: nat where "MaxDeserialized \<equiv> 2048"
abbreviation (input) MaxByteArrayComparableSize :: nat where "MaxByteArrayComparableSize \<equiv> 65536"
abbreviation (input) MaxKeySize :: nat where "MaxKeySize \<equiv> 64"

section \<open>The store\<close>

text \<open>A pointer always leads to an object in Go; the readers are total, and give an empty value elsewhere.\<close>

definition items :: "'i heap \<Rightarrow> addr \<Rightarrow> 'i item list" where
  "items h a = (if a < length h then case content (h ! a) of Items xs \<Rightarrow> xs | _ \<Rightarrow> [] else [])"

definition elems :: "'i heap \<Rightarrow> addr \<Rightarrow> ('i item \<times> 'i item) list" where
  "elems h a = (if a < length h then case content (h ! a) of Elems es d \<Rightarrow> es | _ \<Rightarrow> [] else [])"

definition dict :: "'i heap \<Rightarrow> addr \<Rightarrow> bytes \<rightharpoonup> nat" where
  "dict h a = (if a < length h then case content (h ! a) of Elems es d \<Rightarrow> d | _ \<Rightarrow> Map.empty else Map.empty)"

definition raw :: "'i heap \<Rightarrow> addr \<Rightarrow> bytes" where
  "raw h a = (if a < length h then case content (h ! a) of Raw bs \<Rightarrow> bs | _ \<Rightarrow> [] else [])"

definition put_content :: "'i heap \<Rightarrow> addr \<Rightarrow> 'i content \<Rightarrow> 'i heap" where
  "put_content h a c = h[a := (h ! a)\<lparr>content := c\<rparr>]"

definition alloc :: "'i heap \<Rightarrow> 'i content \<Rightarrow> addr \<times> 'i heap" where
  "alloc h c = (length h, h @ [\<lparr>content = c, rc_count = 0, isReadOnly = False\<rparr>])"

text \<open>\<open>rc\<close> and \<open>ro\<close>.\<close>

definition refs_of :: "'i heap \<Rightarrow> addr \<Rightarrow> int" where
  "refs_of h a = (if a < length h then rc_count (h ! a) else 0)"

definition IncRC :: "'i heap \<Rightarrow> addr \<Rightarrow> 'i heap" where
  "IncRC h a = h[a := (h ! a)\<lparr>rc_count := rc_count (h ! a) + 1\<rparr>]"

definition DecRC :: "'i heap \<Rightarrow> addr \<Rightarrow> 'i heap" where
  "DecRC h a = h[a := (h ! a)\<lparr>rc_count := rc_count (h ! a) - 1\<rparr>]"

definition IsReferenced :: "'i heap \<Rightarrow> addr \<Rightarrow> bool" where
  "IsReferenced h a \<longleftrightarrow> refs_of h a \<noteq> 0"

definition IsReadOnly :: "'i heap \<Rightarrow> addr \<Rightarrow> bool" where
  "IsReadOnly h a \<longleftrightarrow> a < length h \<and> isReadOnly (h ! a)"

definition MarkAsReadOnly :: "'i heap \<Rightarrow> addr \<Rightarrow> 'i heap" where
  "MarkAsReadOnly h a = h[a := (h ! a)\<lparr>isReadOnly := True\<rparr>]"

section \<open>Integers\<close>

text \<open>\<open>big.Int.TrailingZeroBits\<close>, on the magnitude.\<close>

fun trailing_zeros :: "nat \<Rightarrow> nat" where
  "trailing_zeros n = (if n = 0 \<or> odd n then 0 else Suc (trailing_zeros (n div 2)))"

declare trailing_zeros.simps [simp del]

definition CheckIntegerSize :: "int \<Rightarrow> si_error option" where
  "CheckIntegerSize v =
    (let sz = bits_len (nat \<bar>v\<bar>) in
     if sz < MaxBigIntegerSizeBits then None
     else if sz > MaxBigIntegerSizeBits then Some ErrTooBigInteger
     else if sgn v = 1 \<or> trailing_zeros (nat \<bar>v\<bar>) \<noteq> MaxBigIntegerSizeBits - 1 then Some ErrTooBigInteger
     else None)"

definition NewBigInteger :: "int \<Rightarrow> vm_panic + 'i item" where
  "NewBigInteger v = (case CheckIntegerSize v of Some e \<Rightarrow> Inl (ItemErr e) | None \<Rightarrow> Inr (IntI v))"

section \<open>Conversions\<close>

definition item_Type :: "'i item \<Rightarrow> si_type" where
  "item_Type it = (case it of
      NullI \<Rightarrow> AnyT | BoolI _ \<Rightarrow> BooleanT | IntI _ \<Rightarrow> IntegerT | BytesI _ \<Rightarrow> ByteArrayT
    | PointerI _ _ _ \<Rightarrow> PointerT | InteropI _ \<Rightarrow> InteropT | ArrayP _ \<Rightarrow> ArrayT | StructP _ \<Rightarrow> StructT
    | MapP _ \<Rightarrow> MapT | BufferP _ \<Rightarrow> BufferT)"

definition TryBool :: "'i heap \<Rightarrow> 'i item \<Rightarrow> vm_panic + bool" where
  "TryBool h it = (case it of
      NullI \<Rightarrow> Inr False
    | BoolI b \<Rightarrow> Inr b
    | IntI n \<Rightarrow> Inr (sgn n \<noteq> 0)
    | BytesI bs \<Rightarrow> (if MaxBigIntegerSizeBits div 8 < length bs then Inl (ItemErr ErrTooBigInteger)
                    else Inr (\<exists>b\<in>set bs. b \<noteq> 0))
    | _ \<Rightarrow> Inr True)"

definition Bool_Bytes :: "bool \<Rightarrow> bytes" where
  "Bool_Bytes b = (if b then [1] else [0])"

definition TryBytes :: "'i heap \<Rightarrow> 'i item \<Rightarrow> vm_panic + bytes" where
  "TryBytes h it = (case it of
      BoolI b \<Rightarrow> Inr (Bool_Bytes b)
    | IntI n \<Rightarrow> Inr (ToBytes n)
    | BytesI bs \<Rightarrow> Inr bs
    | BufferP a \<Rightarrow> Inr (raw h a)
    | _ \<Rightarrow> Inl (ItemErr ErrInvalidConversion))"

definition int_of_bytes :: "bytes \<Rightarrow> vm_panic + int" where
  "int_of_bytes bs =
    (if MaxBigIntegerSizeBits div 8 < length bs then Inl (ItemErr ErrTooBigInteger)
     else case FromBytes (Some bs) of Inl _ \<Rightarrow> Inl RuntimePanic | Inr n \<Rightarrow> Inr n)"

definition TryInteger :: "'i item \<Rightarrow> vm_panic + int" where
  "TryInteger it = (case it of
      BoolI b \<Rightarrow> Inr (if b then 1 else 0)
    | IntI n \<Rightarrow> Inr n
    | BytesI bs \<Rightarrow> int_of_bytes bs
    | _ \<Rightarrow> Inl (ItemErr ErrInvalidConversion))"

definition new_buffer :: "'i heap \<Rightarrow> bytes \<Rightarrow> 'i item \<times> 'i heap" where
  "new_buffer h bs = (let (a, h') = alloc h (Raw bs) in (BufferP a, h'))"

definition NewArray :: "'i heap \<Rightarrow> 'i item list \<Rightarrow> 'i item \<times> 'i heap" where
  "NewArray h xs = (let (a, h') = alloc h (Items xs) in (ArrayP a, h'))"

definition NewStruct :: "'i heap \<Rightarrow> 'i item list \<Rightarrow> 'i item \<times> 'i heap" where
  "NewStruct h xs = (let (a, h') = alloc h (Items xs) in (StructP a, h'))"

definition NewMap :: "'i heap \<Rightarrow> 'i item \<times> 'i heap" where
  "NewMap h = (let (a, h') = alloc h (Elems [] Map.empty) in (MapP a, h'))"

definition convertPrimitive :: "'i heap \<Rightarrow> 'i item \<Rightarrow> si_type \<Rightarrow> vm_panic + 'i item \<times> 'i heap" where
  "convertPrimitive h it typ =
    (if item_Type it = typ then Inr (it, h)
     else if typ = IntegerT then
       (case TryInteger it of Inl e \<Rightarrow> Inl e | Inr n \<Rightarrow> map_sum id (\<lambda>i. (i, h)) (NewBigInteger n))
     else if typ = ByteArrayT \<or> typ = BufferT then
       (case TryBytes h it of
          Inl e \<Rightarrow> Inl e
        | Inr bs \<Rightarrow> Inr (if typ = BufferT then new_buffer h bs else (BytesI bs, h)))
     else if typ = BooleanT then map_sum id (\<lambda>b. (BoolI b, h)) (TryBool h it)
     else Inl (ItemErr ErrInvalidConversion))"

text \<open>\<open>Convert\<close>, one branch for each item type.\<close>

definition item_Convert :: "'i heap \<Rightarrow> 'i item \<Rightarrow> si_type \<Rightarrow> vm_panic + 'i item \<times> 'i heap" where
  "item_Convert h it typ = (case it of
      NullI \<Rightarrow> (if typ = AnyT \<or> \<not> Type_IsValid typ then Inl (ItemErr ErrInvalidConversion) else Inr (it, h))
    | BoolI _ \<Rightarrow> convertPrimitive h it typ
    | IntI _ \<Rightarrow> convertPrimitive h it typ
    | BytesI _ \<Rightarrow> convertPrimitive h it typ
    | PointerI _ _ _ \<Rightarrow>
       (if typ = PointerT then Inr (it, h) else if typ = BooleanT then Inr (BoolI True, h)
        else Inl (ItemErr ErrInvalidConversion))
    | InteropI _ \<Rightarrow>
       (if typ = InteropT then Inr (it, h) else if typ = BooleanT then Inr (BoolI True, h)
        else Inl (ItemErr ErrInvalidConversion))
    | ArrayP a \<Rightarrow>
       (if typ = ArrayT then Inr (it, h) else if typ = StructT then Inr (NewStruct h (items h a))
        else if typ = BooleanT then Inr (BoolI True, h) else Inl (ItemErr ErrInvalidConversion))
    | StructP a \<Rightarrow>
       (if typ = StructT then Inr (it, h) else if typ = ArrayT then Inr (NewArray h (items h a))
        else if typ = BooleanT then Inr (BoolI True, h) else Inl (ItemErr ErrInvalidConversion))
    | MapP a \<Rightarrow>
       (if typ = MapT then Inr (it, h) else if typ = BooleanT then Inr (BoolI True, h)
        else Inl (ItemErr ErrInvalidConversion))
    | BufferP a \<Rightarrow>
       (if typ = BooleanT then Inr (BoolI True, h) else if typ = BufferT then Inr (it, h)
        else if typ = ByteArrayT then Inr (BytesI (raw h a), h)
        else if typ = IntegerT then
          (case int_of_bytes (raw h a) of Inl e \<Rightarrow> Inl e | Inr n \<Rightarrow> map_sum id (\<lambda>i. (i, h)) (NewBigInteger n))
        else Inl (ItemErr ErrInvalidConversion)))"

section \<open>Equality\<close>

text \<open>\<open>equalsLimited\<close>: the result and what is left of the comparison budget.\<close>

definition equalsLimited :: "bytes \<Rightarrow> 'i item \<Rightarrow> nat \<Rightarrow> vm_panic + bool \<times> nat" where
  "equalsLimited bs s limit =
    (if limit < length bs \<or> limit = 0 then Inl (ItemErr ErrTooBigComparable)
     else case s of
       BytesI cs \<Rightarrow>
         (if limit < length cs then Inl (ItemErr ErrTooBigComparable)
          else Inr (bs = cs, limit - max (length bs) (length cs)))
     | _ \<Rightarrow> Inr (False, limit - 1))"

text \<open>\<open>Equals\<close> of the types that do not look into each other's elements: values by value, objects by address.\<close>

definition shallow_Equals :: "('i \<Rightarrow> 'i \<Rightarrow> bool) \<Rightarrow> 'i item \<Rightarrow> 'i item \<Rightarrow> bool" where
  "shallow_Equals ieq x y = (case x of
      NullI \<Rightarrow> y = NullI
    | BoolI a \<Rightarrow> y = BoolI a
    | IntI a \<Rightarrow> y = IntI a
    | PointerI p _ k \<Rightarrow> (case y of PointerI q _ l \<Rightarrow> p = q \<and> k = l | _ \<Rightarrow> False)
    | InteropI a \<Rightarrow> (case y of InteropI b \<Rightarrow> ieq a b | _ \<Rightarrow> False)
    | ArrayP a \<Rightarrow> y = ArrayP a
    | MapP a \<Rightarrow> y = MapP a
    | BufferP a \<Rightarrow> y = BufferP a
    | _ \<Rightarrow> False)"

text \<open>Type assertions.\<close>

definition as_Struct :: "'i item \<Rightarrow> addr option" where
  "as_Struct x = (case x of StructP a \<Rightarrow> Some a | _ \<Rightarrow> None)"

definition as_ByteArray :: "'i item \<Rightarrow> bytes option" where
  "as_ByteArray x = (case x of BytesI bs \<Rightarrow> Some bs | _ \<Rightarrow> None)"

text \<open>\<open>equalStruct\<close>. Its recursion is kept as a list of frames, one for each struct whose loop is not finished: what is left of
  that struct's byte budget and the pairs of elements still to compare. \<open>limit\<close> is shared by all of them. A negative answer ends every
  loop, so it is the answer of the call.\<close>

function equal_frames ::
  "('i \<Rightarrow> 'i \<Rightarrow> bool) \<Rightarrow> 'i heap \<Rightarrow> nat \<Rightarrow> (nat \<times> ('i item \<times> 'i item) list) list \<Rightarrow> vm_panic + bool" where
  "equal_frames ieq h limit [] = Inr True"
| "equal_frames ieq h limit ((bud, []) # fs) = equal_frames ieq h limit fs"
| "equal_frames ieq h limit ((bud, (x, y) # ps) # fs) =
    (if limit \<le> 1 then Inl (ItemErr ErrTooBigElements)
     else case as_ByteArray x of
       Some bs \<Rightarrow>
         (case equalsLimited bs y bud of
            Inl e \<Rightarrow> Inl e
          | Inr (eq, bud') \<Rightarrow> if eq then equal_frames ieq h (limit - 1) ((bud', ps) # fs) else Inr False)
     | None \<Rightarrow>
         (if bud = 0 then Inl (ItemErr ErrTooBigComparable)
          else case (as_Struct x, as_Struct y) of
            (Some a, Some b) \<Rightarrow>
              (if a = b then equal_frames ieq h (limit - 1) ((bud - 1, ps) # fs)
               else if length (items h a) \<noteq> length (items h b) then Inr False
               else equal_frames ieq h (limit - 1)
                      ((MaxByteArrayComparableSize, zip (items h a) (items h b)) # (bud - 1, ps) # fs))
          | _ \<Rightarrow> if shallow_Equals ieq x y then equal_frames ieq h (limit - 1) ((bud - 1, ps) # fs)
                else Inr False))"
  by pat_completeness auto

termination equal_frames
  by (relation "measures [\<lambda>(ieq, h, limit, fs). limit, \<lambda>(ieq, h, limit, fs). length fs]") auto

definition Struct_Equals :: "('i \<Rightarrow> 'i \<Rightarrow> bool) \<Rightarrow> 'i heap \<Rightarrow> addr \<Rightarrow> addr \<Rightarrow> vm_panic + bool" where
  "Struct_Equals ieq h a b =
    (if a = b then Inr True
     else if length (items h a) \<noteq> length (items h b) then Inr False
     else equal_frames ieq h (MaxDeserialized - 1) [(MaxByteArrayComparableSize, zip (items h a) (items h b))])"

definition item_Equals :: "('i \<Rightarrow> 'i \<Rightarrow> bool) \<Rightarrow> 'i heap \<Rightarrow> 'i item \<Rightarrow> 'i item \<Rightarrow> vm_panic + bool" where
  "item_Equals ieq h x y = (case x of
      BytesI bs \<Rightarrow> map_sum id fst (equalsLimited bs y MaxByteArrayComparableSize)
    | StructP a \<Rightarrow> (case y of StructP b \<Rightarrow> Struct_Equals ieq h a b | _ \<Rightarrow> Inr False)
    | _ \<Rightarrow> Inr (shallow_Equals ieq x y))"

section \<open>Cloning structs\<close>

text \<open>\<open>clone\<close>. The copy of a struct starts with the fields of the original; \<open>clone_tasks\<close> goes over the fields in the order of the
  recursion, \<open>(d, j)\<close> being field \<open>j\<close> of the copy \<open>d\<close>, and replaces a struct there by a copy of its own.\<close>

function clone_tasks :: "'i heap \<Rightarrow> nat \<Rightarrow> (addr \<times> nat) list \<Rightarrow> vm_panic + 'i heap" where
  "clone_tasks h limit [] = Inr h"
| "clone_tasks h limit ((d, j) # ts) =
    (if limit = 0 then Inl (ItemErr ErrTooBig)
     else case as_Struct (items h d ! j) of
       Some s \<Rightarrow>
         (let (d', h') = alloc h (Items (items h s));
              h'' = put_content h' d (Items ((items h d)[j := StructP d']))
          in clone_tasks h'' (limit - 1) (map (Pair d') [0..<length (items h s)] @ ts))
     | None \<Rightarrow> clone_tasks h (limit - 1) ts)"
  by pat_completeness auto

termination clone_tasks
  by (relation "measure (\<lambda>(h, limit, ts). limit)") auto

definition Struct_Clone :: "'i heap \<Rightarrow> addr \<Rightarrow> vm_panic + 'i item \<times> 'i heap" where
  "Struct_Clone h s =
    (let (d, h') = alloc h (Items (items h s)) in
     map_sum id (\<lambda>h''. (StructP d, h'')) (clone_tasks h' (MaxDeserialized - 1) (map (Pair d) [0..<length (items h s)])))"

section \<open>Arrays, structs and maps\<close>

text \<open>\<open>Remove\<close>, \<open>Append\<close> and \<open>Clear\<close> of \<open>Array\<close> and of \<open>Struct\<close>.\<close>

definition seq_Remove :: "'i heap \<Rightarrow> addr \<Rightarrow> nat \<Rightarrow> vm_panic + 'i heap" where
  "seq_Remove h a pos =
    (if IsReadOnly h a then Inl (ItemErr ErrReadOnly)
     else if length (items h a) \<le> pos then Inl RuntimePanic
     else Inr (put_content h a (Items (take pos (items h a) @ drop (pos + 1) (items h a)))))"

definition seq_Append :: "'i heap \<Rightarrow> addr \<Rightarrow> 'i item \<Rightarrow> vm_panic + 'i heap" where
  "seq_Append h a it =
    (if IsReadOnly h a then Inl (ItemErr ErrReadOnly) else Inr (put_content h a (Items (items h a @ [it]))))"

definition seq_Clear :: "'i heap \<Rightarrow> addr \<Rightarrow> vm_panic + 'i heap" where
  "seq_Clear h a = (if IsReadOnly h a then Inl (ItemErr ErrReadOnly) else Inr (put_content h a (Items [])))"

definition IsValidMapKey :: "'i item \<Rightarrow> si_error option" where
  "IsValidMapKey key = (case key of
      BoolI _ \<Rightarrow> None
    | IntI _ \<Rightarrow> None
    | BytesI bs \<Rightarrow> if MaxKeySize < length bs then Some ErrTooBigKey else None
    | _ \<Rightarrow> Some ErrInvalidType)"

definition hashCode :: "'i heap \<Rightarrow> 'i item \<Rightarrow> vm_panic + bytes" where
  "hashCode h it = map_sum id (\<lambda>bs. item_Type it # bs) (TryBytes h it)"

definition Map_Index :: "'i heap \<Rightarrow> addr \<Rightarrow> 'i item \<Rightarrow> vm_panic + nat option" where
  "Map_Index h a key = map_sum id (dict h a) (hashCode h key)"

definition Map_Has :: "'i heap \<Rightarrow> addr \<Rightarrow> 'i item \<Rightarrow> vm_panic + bool" where
  "Map_Has h a key = map_sum id (\<lambda>c. dict h a c \<noteq> None) (hashCode h key)"

text \<open>\<open>Add\<close> returns the value the key had.\<close>

definition Map_Add :: "'i heap \<Rightarrow> addr \<Rightarrow> 'i item \<Rightarrow> 'i item \<Rightarrow> vm_panic + 'i item option \<times> 'i heap" where
  "Map_Add h a key val =
    (case IsValidMapKey key of
       Some e \<Rightarrow> Inl (ItemErr e)
     | None \<Rightarrow>
         if IsReadOnly h a then Inl (ItemErr ErrReadOnly)
         else case hashCode h key of
           Inl e \<Rightarrow> Inl e
         | Inr c \<Rightarrow>
             (case dict h a c of
                Some i \<Rightarrow>
                  (if i < length (elems h a) then
                     Inr (Some (snd (elems h a ! i)),
                          put_content h a (Elems ((elems h a)[i := (fst (elems h a ! i), val)]) (dict h a)))
                   else Inl RuntimePanic)
              | None \<Rightarrow>
                  Inr (None, put_content h a
                               (Elems (elems h a @ [(key, val)]) ((dict h a)(c \<mapsto> length (elems h a)))))))"

definition Map_Drop :: "'i heap \<Rightarrow> addr \<Rightarrow> nat \<Rightarrow> vm_panic + 'i heap" where
  "Map_Drop h a i =
    (if IsReadOnly h a then Inl (ItemErr ErrReadOnly)
     else if length (elems h a) \<le> i then Inl RuntimePanic
     else case hashCode h (fst (elems h a ! i)) of
       Inl e \<Rightarrow> Inl e
     | Inr c \<Rightarrow>
         let d = (dict h a)(c := None);
             d' = (\<lambda>k. map_option (\<lambda>n. if i < n then n - 1 else n) (d k))
         in Inr (put_content h a (Elems (take i (elems h a) @ drop (i + 1) (elems h a)) d')))"

definition Map_Clear :: "'i heap \<Rightarrow> addr \<Rightarrow> vm_panic + 'i heap" where
  "Map_Clear h a =
    (if IsReadOnly h a then Inl (ItemErr ErrReadOnly) else Inr (put_content h a (Elems [] Map.empty)))"

end
