(* ===== verification/VmStack.thy ===== *)
theory VmStack
  imports StackItem "HOL-Library.Multiset"
begin

text \<open>
  The reference counter, the stacks and the slots of the virtual machine: \<open>pkg/vm/ref_counter.go\<close>, \<open>stack.go\<close> and \<open>slot.go\<close>. A
  stack is its slice, bottom first; the counter is threaded with the store of items, since it reads and writes the counts the
  objects carry.
\<close>

section \<open>The reference counter\<close>

definition compound :: "'i item \<Rightarrow> addr option" where
  "compound it = (case it of ArrayP a \<Rightarrow> Some a | StructP a \<Rightarrow> Some a | MapP a \<Rightarrow> Some a | _ \<Rightarrow> None)"

definition children :: "'i heap \<Rightarrow> addr \<Rightarrow> 'i item list" where
  "children h a =
    (if a < length h then
       case content (h ! a) of
         Items xs \<Rightarrow> xs
       | Elems es d \<Rightarrow> concat (map (\<lambda>(k, v). [k, v]) es)
       | Raw bs \<Rightarrow> []
     else [])"

text \<open>\<open>Add\<close> and \<open>Remove\<close> call themselves on the elements of an object whose count becomes one, or zero. The list holds the items
  whose calls have not started, in the order of the recursion. A count only grows in \<open>Add\<close> and only falls in \<open>Remove\<close>, which is why
  both end on a store with cycles.\<close>

definition zero_weight :: "'i heap \<Rightarrow> nat" where
  "zero_weight h = sum_list (map (\<lambda>c. nat (1 - rc_count c)) h)"

definition count_weight :: "'i heap \<Rightarrow> nat" where
  "count_weight h = sum_list (map (\<lambda>c. nat (rc_count c)) h)"

lemma IncRC_weight:
  assumes "a < length h" and "refs_of (IncRC h a) a = 1"
  shows "zero_weight (IncRC h a) < zero_weight h"
proof -
  have "nat (1 - rc_count (h ! a)) \<le> zero_weight h"
    unfolding zero_weight_def using assms(1) by (metis elem_le_sum_list length_map nth_map)
  with assms show ?thesis
    by (simp add: zero_weight_def IncRC_def refs_of_def map_update sum_list_update)
qed

lemma IncRC_weight_le:
  assumes "a < length h"
  shows "zero_weight (IncRC h a) \<le> zero_weight h"
proof -
  have "nat (1 - rc_count (h ! a)) \<le> zero_weight h"
    unfolding zero_weight_def using assms(1) by (metis elem_le_sum_list length_map nth_map)
  with assms show ?thesis
    by (simp add: zero_weight_def IncRC_def refs_of_def map_update sum_list_update)
qed

lemma DecRC_weight:
  assumes "a < length h" and "refs_of (DecRC h a) a = 0"
  shows "count_weight (DecRC h a) < count_weight h"
proof -
  have "nat (rc_count (h ! a)) \<le> count_weight h"
    unfolding count_weight_def using assms(1) by (metis elem_le_sum_list length_map nth_map)
  with assms show ?thesis
    by (simp add: count_weight_def DecRC_def refs_of_def map_update sum_list_update)
qed

lemma DecRC_weight_le:
  assumes "a < length h"
  shows "count_weight (DecRC h a) \<le> count_weight h"
proof -
  have "nat (rc_count (h ! a)) \<le> count_weight h"
    unfolding count_weight_def using assms(1) by (metis elem_le_sum_list length_map nth_map)
  with assms show ?thesis
    by (simp add: count_weight_def DecRC_def refs_of_def map_update sum_list_update)
qed

function ref_Add :: "'i item list \<Rightarrow> 'i heap \<times> int \<Rightarrow> 'i heap \<times> int" where
  "ref_Add [] (h, r) = (h, r)"
| "ref_Add (it # ws) (h, r) =
    (case compound it of
       None \<Rightarrow> ref_Add ws (h, r + 1)
     | Some a \<Rightarrow>
         if \<not> a < length h then ref_Add ws (h, r + 1)
         else if refs_of (IncRC h a) a = 1 then ref_Add (children h a @ ws) (IncRC h a, r + 1)
         else ref_Add ws (IncRC h a, r + 1))"
  by pat_completeness auto

termination ref_Add
  by (relation "measures [\<lambda>(ws, h, r). zero_weight h, \<lambda>(ws, h, r). length ws]")
     (auto simp: IncRC_weight le_neq_implies_less [OF IncRC_weight_le] dest: IncRC_weight_le)

function ref_Remove :: "'i item list \<Rightarrow> 'i heap \<times> int \<Rightarrow> 'i heap \<times> int" where
  "ref_Remove [] (h, r) = (h, r)"
| "ref_Remove (it # ws) (h, r) =
    (case compound it of
       None \<Rightarrow> ref_Remove ws (h, r - 1)
     | Some a \<Rightarrow>
         if \<not> a < length h \<or> \<not> IsReferenced h a then ref_Remove ws (h, r)
         else if refs_of (DecRC h a) a = 0 then ref_Remove (children h a @ ws) (DecRC h a, r - 1)
         else ref_Remove ws (DecRC h a, r - 1))"
  by pat_completeness auto

termination ref_Remove
  by (relation "measures [\<lambda>(ws, h, r). count_weight h, \<lambda>(ws, h, r). length ws]")
     (auto simp: DecRC_weight le_neq_implies_less [OF DecRC_weight_le] dest: DecRC_weight_le)

section \<open>Stacks\<close>

text \<open>\<open>copy\<close> of the language on one slice: \<open>go_copy xs i ys\<close> is \<open>xs\<close> after \<open>copy(xs[i:], ys)\<close>.\<close>

definition go_copy :: "'a list \<Rightarrow> nat \<Rightarrow> 'a list \<Rightarrow> 'a list" where
  "go_copy xs i ys = take i xs @ take (length xs - i) ys @ drop (i + length ys) xs"

definition Stack_Peek :: "'a list \<Rightarrow> int \<Rightarrow> vm_panic + 'a" where
  "Stack_Peek xs n =
    (let i = int (length xs) - n - 1 in
     if i < 0 \<or> int (length xs) \<le> i then Inl RuntimePanic else Inr (xs ! nat i))"

definition Stack_InsertAt :: "'a list \<Rightarrow> 'a \<Rightarrow> nat \<Rightarrow> vm_panic + 'a list" where
  "Stack_InsertAt xs e n =
    (let l = length xs; ys = xs @ [e] in
     if l < n then Inl RuntimePanic
     else Inr ((go_copy ys (l - n + 1) (drop (l - n) (take l ys)))[l - n := e]))"

definition Stack_RemoveAt :: "'a list \<Rightarrow> nat \<Rightarrow> vm_panic + 'a \<times> 'a list" where
  "Stack_RemoveAt xs n =
    (let l = length xs in
     if l \<le> n then Inl RuntimePanic
     else Inr (xs ! (l - 1 - n), take (l - 1 - n) xs @ drop (l - n) xs))"

definition Stack_Swap :: "'a list \<Rightarrow> int \<Rightarrow> int \<Rightarrow> vm_panic + 'a list" where
  "Stack_Swap xs n1 n2 =
    (let l = length xs in
     if n1 < 0 \<or> n2 < 0 then Inl (Message ''negative index'')
     else if int l \<le> n1 \<or> int l \<le> n2 then Inl (Message ''too big index'')
     else let i = l - nat n1 - 1; j = l - nat n2 - 1 in Inr (xs[i := xs ! j, j := xs ! i]))"

definition Stack_ReverseTop :: "'a list \<Rightarrow> int \<Rightarrow> vm_panic + 'a list" where
  "Stack_ReverseTop xs n =
    (let l = length xs in
     if n < 0 then Inl (Message ''negative index'')
     else if int l < n then Inl (Message ''too big index'')
     else if n \<le> 1 then Inr xs
     else Inr (take (l - nat n) xs @ rev (drop (l - nat n) xs)))"

definition Stack_Roll :: "'a list \<Rightarrow> int \<Rightarrow> vm_panic + 'a list" where
  "Stack_Roll xs n =
    (let l = length xs in
     if n < 0 then Inl (Message ''negative index'')
     else if int l \<le> n then Inl (Message ''too big index'')
     else if n = 0 then Inr xs
     else let i = l - 1 - nat n; e = xs ! i in Inr ((go_copy xs i (drop (l - nat n) xs))[l - 1 := e]))"

section \<open>Slots\<close>

text \<open>A slot is nil, or a slice whose elements are nil until they are first stored to.\<close>

type_synonym 'i slot = "'i item option list option"

definition Slot_init :: "'i slot \<Rightarrow> nat \<Rightarrow> int \<Rightarrow> vm_panic + 'i slot \<times> int" where
  "Slot_init s n r =
    (if s \<noteq> None then Inl (Message ''already initialized'') else Inr (Some (replicate n None), r + int n))"

definition Slot_Get :: "'i slot \<Rightarrow> nat \<Rightarrow> vm_panic + 'i item" where
  "Slot_Get s i = (case s of
      None \<Rightarrow> Inl RuntimePanic
    | Some xs \<Rightarrow> if length xs \<le> i then Inl RuntimePanic
                 else Inr (case xs ! i of Some it \<Rightarrow> it | None \<Rightarrow> NullI))"

text \<open>\<open>Remove(nil)\<close> takes the branch of the primitive types.\<close>

definition ref_Remove_nil :: "'i item option \<Rightarrow> 'i heap \<times> int \<Rightarrow> 'i heap \<times> int" where
  "ref_Remove_nil x s = (case x of None \<Rightarrow> (fst s, snd s - 1) | Some it \<Rightarrow> ref_Remove [it] s)"

definition Slot_clearRefs :: "'i slot \<Rightarrow> 'i heap \<times> int \<Rightarrow> 'i heap \<times> int" where
  "Slot_clearRefs s hr = (case s of None \<Rightarrow> hr | Some xs \<Rightarrow> fold ref_Remove_nil xs hr)"

definition Slot_Size :: "'i slot \<Rightarrow> nat" where
  "Slot_Size s = (case s of None \<Rightarrow> 0 | Some xs \<Rightarrow> length xs)"

end
