(* ===== verification/VmCode.thy ===== *)
theory VmCode
  imports StackItem
begin

text \<open>
  Code of the virtual machine: the instruction set (\<open>pkg/vm/opcode/opcode.go\<close>), its prices (\<open>pkg/core/fee/opcode.go\<close>) and the
  decoder (\<open>pkg/smartcontract/scparser/context.go\<close>). An opcode is the value of its byte, and has the name the sources give it, after
  \<open>op_\<close>.
\<close>

section \<open>Opcodes\<close>

abbreviation (input) op_PUSHINT8 :: nat where "op_PUSHINT8 \<equiv> 0x00"
abbreviation (input) op_PUSHINT16 :: nat where "op_PUSHINT16 \<equiv> 0x01"
abbreviation (input) op_PUSHINT32 :: nat where "op_PUSHINT32 \<equiv> 0x02"
abbreviation (input) op_PUSHINT64 :: nat where "op_PUSHINT64 \<equiv> 0x03"
abbreviation (input) op_PUSHINT128 :: nat where "op_PUSHINT128 \<equiv> 0x04"
abbreviation (input) op_PUSHINT256 :: nat where "op_PUSHINT256 \<equiv> 0x05"
abbreviation (input) op_PUSHT :: nat where "op_PUSHT \<equiv> 0x08"
abbreviation (input) op_PUSHF :: nat where "op_PUSHF \<equiv> 0x09"
abbreviation (input) op_PUSHA :: nat where "op_PUSHA \<equiv> 0x0A"
abbreviation (input) op_PUSHNULL :: nat where "op_PUSHNULL \<equiv> 0x0B"
abbreviation (input) op_PUSHDATA1 :: nat where "op_PUSHDATA1 \<equiv> 0x0C"
abbreviation (input) op_PUSHDATA2 :: nat where "op_PUSHDATA2 \<equiv> 0x0D"
abbreviation (input) op_PUSHDATA4 :: nat where "op_PUSHDATA4 \<equiv> 0x0E"
abbreviation (input) op_PUSHM1 :: nat where "op_PUSHM1 \<equiv> 0x0F"
abbreviation (input) op_PUSH0 :: nat where "op_PUSH0 \<equiv> 0x10"
abbreviation (input) op_PUSH1 :: nat where "op_PUSH1 \<equiv> 0x11"
abbreviation (input) op_PUSH2 :: nat where "op_PUSH2 \<equiv> 0x12"
abbreviation (input) op_PUSH3 :: nat where "op_PUSH3 \<equiv> 0x13"
abbreviation (input) op_PUSH4 :: nat where "op_PUSH4 \<equiv> 0x14"
abbreviation (input) op_PUSH5 :: nat where "op_PUSH5 \<equiv> 0x15"
abbreviation (input) op_PUSH6 :: nat where "op_PUSH6 \<equiv> 0x16"
abbreviation (input) op_PUSH7 :: nat where "op_PUSH7 \<equiv> 0x17"
abbreviation (input) op_PUSH8 :: nat where "op_PUSH8 \<equiv> 0x18"
abbreviation (input) op_PUSH9 :: nat where "op_PUSH9 \<equiv> 0x19"
abbreviation (input) op_PUSH10 :: nat where "op_PUSH10 \<equiv> 0x1A"
abbreviation (input) op_PUSH11 :: nat where "op_PUSH11 \<equiv> 0x1B"
abbreviation (input) op_PUSH12 :: nat where "op_PUSH12 \<equiv> 0x1C"
abbreviation (input) op_PUSH13 :: nat where "op_PUSH13 \<equiv> 0x1D"
abbreviation (input) op_PUSH14 :: nat where "op_PUSH14 \<equiv> 0x1E"
abbreviation (input) op_PUSH15 :: nat where "op_PUSH15 \<equiv> 0x1F"
abbreviation (input) op_PUSH16 :: nat where "op_PUSH16 \<equiv> 0x20"
abbreviation (input) op_NOP :: nat where "op_NOP \<equiv> 0x21"
abbreviation (input) op_JMP :: nat where "op_JMP \<equiv> 0x22"
abbreviation (input) op_JMPL :: nat where "op_JMPL \<equiv> 0x23"
abbreviation (input) op_JMPIF :: nat where "op_JMPIF \<equiv> 0x24"
abbreviation (input) op_JMPIFL :: nat where "op_JMPIFL \<equiv> 0x25"
abbreviation (input) op_JMPIFNOT :: nat where "op_JMPIFNOT \<equiv> 0x26"
abbreviation (input) op_JMPIFNOTL :: nat where "op_JMPIFNOTL \<equiv> 0x27"
abbreviation (input) op_JMPEQ :: nat where "op_JMPEQ \<equiv> 0x28"
abbreviation (input) op_JMPEQL :: nat where "op_JMPEQL \<equiv> 0x29"
abbreviation (input) op_JMPNE :: nat where "op_JMPNE \<equiv> 0x2A"
abbreviation (input) op_JMPNEL :: nat where "op_JMPNEL \<equiv> 0x2B"
abbreviation (input) op_JMPGT :: nat where "op_JMPGT \<equiv> 0x2C"
abbreviation (input) op_JMPGTL :: nat where "op_JMPGTL \<equiv> 0x2D"
abbreviation (input) op_JMPGE :: nat where "op_JMPGE \<equiv> 0x2E"
abbreviation (input) op_JMPGEL :: nat where "op_JMPGEL \<equiv> 0x2F"
abbreviation (input) op_JMPLT :: nat where "op_JMPLT \<equiv> 0x30"
abbreviation (input) op_JMPLTL :: nat where "op_JMPLTL \<equiv> 0x31"
abbreviation (input) op_JMPLE :: nat where "op_JMPLE \<equiv> 0x32"
abbreviation (input) op_JMPLEL :: nat where "op_JMPLEL \<equiv> 0x33"
abbreviation (input) op_CALL :: nat where "op_CALL \<equiv> 0x34"
abbreviation (input) op_CALLL :: nat where "op_CALLL \<equiv> 0x35"
abbreviation (input) op_CALLA :: nat where "op_CALLA \<equiv> 0x36"
abbreviation (input) op_CALLT :: nat where "op_CALLT \<equiv> 0x37"
abbreviation (input) op_ABORT :: nat where "op_ABORT \<equiv> 0x38"
abbreviation (input) op_ASSERT :: nat where "op_ASSERT \<equiv> 0x39"
abbreviation (input) op_THROW :: nat where "op_THROW \<equiv> 0x3A"
abbreviation (input) op_TRY :: nat where "op_TRY \<equiv> 0x3B"
abbreviation (input) op_TRYL :: nat where "op_TRYL \<equiv> 0x3C"
abbreviation (input) op_ENDTRY :: nat where "op_ENDTRY \<equiv> 0x3D"
abbreviation (input) op_ENDTRYL :: nat where "op_ENDTRYL \<equiv> 0x3E"
abbreviation (input) op_ENDFINALLY :: nat where "op_ENDFINALLY \<equiv> 0x3F"
abbreviation (input) op_RET :: nat where "op_RET \<equiv> 0x40"
abbreviation (input) op_SYSCALL :: nat where "op_SYSCALL \<equiv> 0x41"
abbreviation (input) op_DEPTH :: nat where "op_DEPTH \<equiv> 0x43"
abbreviation (input) op_DROP :: nat where "op_DROP \<equiv> 0x45"
abbreviation (input) op_NIP :: nat where "op_NIP \<equiv> 0x46"
abbreviation (input) op_XDROP :: nat where "op_XDROP \<equiv> 0x48"
abbreviation (input) op_CLEAR :: nat where "op_CLEAR \<equiv> 0x49"
abbreviation (input) op_DUP :: nat where "op_DUP \<equiv> 0x4A"
abbreviation (input) op_OVER :: nat where "op_OVER \<equiv> 0x4B"
abbreviation (input) op_PICK :: nat where "op_PICK \<equiv> 0x4D"
abbreviation (input) op_TUCK :: nat where "op_TUCK \<equiv> 0x4E"
abbreviation (input) op_SWAP :: nat where "op_SWAP \<equiv> 0x50"
abbreviation (input) op_ROT :: nat where "op_ROT \<equiv> 0x51"
abbreviation (input) op_ROLL :: nat where "op_ROLL \<equiv> 0x52"
abbreviation (input) op_REVERSE3 :: nat where "op_REVERSE3 \<equiv> 0x53"
abbreviation (input) op_REVERSE4 :: nat where "op_REVERSE4 \<equiv> 0x54"
abbreviation (input) op_REVERSEN :: nat where "op_REVERSEN \<equiv> 0x55"
abbreviation (input) op_INITSSLOT :: nat where "op_INITSSLOT \<equiv> 0x56"
abbreviation (input) op_INITSLOT :: nat where "op_INITSLOT \<equiv> 0x57"
abbreviation (input) op_LDSFLD0 :: nat where "op_LDSFLD0 \<equiv> 0x58"
abbreviation (input) op_LDSFLD1 :: nat where "op_LDSFLD1 \<equiv> 0x59"
abbreviation (input) op_LDSFLD2 :: nat where "op_LDSFLD2 \<equiv> 0x5A"
abbreviation (input) op_LDSFLD3 :: nat where "op_LDSFLD3 \<equiv> 0x5B"
abbreviation (input) op_LDSFLD4 :: nat where "op_LDSFLD4 \<equiv> 0x5C"
abbreviation (input) op_LDSFLD5 :: nat where "op_LDSFLD5 \<equiv> 0x5D"
abbreviation (input) op_LDSFLD6 :: nat where "op_LDSFLD6 \<equiv> 0x5E"
abbreviation (input) op_LDSFLD :: nat where "op_LDSFLD \<equiv> 0x5F"
abbreviation (input) op_STSFLD0 :: nat where "op_STSFLD0 \<equiv> 0x60"
abbreviation (input) op_STSFLD1 :: nat where "op_STSFLD1 \<equiv> 0x61"
abbreviation (input) op_STSFLD2 :: nat where "op_STSFLD2 \<equiv> 0x62"
abbreviation (input) op_STSFLD3 :: nat where "op_STSFLD3 \<equiv> 0x63"
abbreviation (input) op_STSFLD4 :: nat where "op_STSFLD4 \<equiv> 0x64"
abbreviation (input) op_STSFLD5 :: nat where "op_STSFLD5 \<equiv> 0x65"
abbreviation (input) op_STSFLD6 :: nat where "op_STSFLD6 \<equiv> 0x66"
abbreviation (input) op_STSFLD :: nat where "op_STSFLD \<equiv> 0x67"
abbreviation (input) op_LDLOC0 :: nat where "op_LDLOC0 \<equiv> 0x68"
abbreviation (input) op_LDLOC1 :: nat where "op_LDLOC1 \<equiv> 0x69"
abbreviation (input) op_LDLOC2 :: nat where "op_LDLOC2 \<equiv> 0x6A"
abbreviation (input) op_LDLOC3 :: nat where "op_LDLOC3 \<equiv> 0x6B"
abbreviation (input) op_LDLOC4 :: nat where "op_LDLOC4 \<equiv> 0x6C"
abbreviation (input) op_LDLOC5 :: nat where "op_LDLOC5 \<equiv> 0x6D"
abbreviation (input) op_LDLOC6 :: nat where "op_LDLOC6 \<equiv> 0x6E"
abbreviation (input) op_LDLOC :: nat where "op_LDLOC \<equiv> 0x6F"
abbreviation (input) op_STLOC0 :: nat where "op_STLOC0 \<equiv> 0x70"
abbreviation (input) op_STLOC1 :: nat where "op_STLOC1 \<equiv> 0x71"
abbreviation (input) op_STLOC2 :: nat where "op_STLOC2 \<equiv> 0x72"
abbreviation (input) op_STLOC3 :: nat where "op_STLOC3 \<equiv> 0x73"
abbreviation (input) op_STLOC4 :: nat where "op_STLOC4 \<equiv> 0x74"
abbreviation (input) op_STLOC5 :: nat where "op_STLOC5 \<equiv> 0x75"
abbreviation (input) op_STLOC6 :: nat where "op_STLOC6 \<equiv> 0x76"
abbreviation (input) op_STLOC :: nat where "op_STLOC \<equiv> 0x77"
abbreviation (input) op_LDARG0 :: nat where "op_LDARG0 \<equiv> 0x78"
abbreviation (input) op_LDARG1 :: nat where "op_LDARG1 \<equiv> 0x79"
abbreviation (input) op_LDARG2 :: nat where "op_LDARG2 \<equiv> 0x7A"
abbreviation (input) op_LDARG3 :: nat where "op_LDARG3 \<equiv> 0x7B"
abbreviation (input) op_LDARG4 :: nat where "op_LDARG4 \<equiv> 0x7C"
abbreviation (input) op_LDARG5 :: nat where "op_LDARG5 \<equiv> 0x7D"
abbreviation (input) op_LDARG6 :: nat where "op_LDARG6 \<equiv> 0x7E"
abbreviation (input) op_LDARG :: nat where "op_LDARG \<equiv> 0x7F"
abbreviation (input) op_STARG0 :: nat where "op_STARG0 \<equiv> 0x80"
abbreviation (input) op_STARG1 :: nat where "op_STARG1 \<equiv> 0x81"
abbreviation (input) op_STARG2 :: nat where "op_STARG2 \<equiv> 0x82"
abbreviation (input) op_STARG3 :: nat where "op_STARG3 \<equiv> 0x83"
abbreviation (input) op_STARG4 :: nat where "op_STARG4 \<equiv> 0x84"
abbreviation (input) op_STARG5 :: nat where "op_STARG5 \<equiv> 0x85"
abbreviation (input) op_STARG6 :: nat where "op_STARG6 \<equiv> 0x86"
abbreviation (input) op_STARG :: nat where "op_STARG \<equiv> 0x87"
abbreviation (input) op_NEWBUFFER :: nat where "op_NEWBUFFER \<equiv> 0x88"
abbreviation (input) op_MEMCPY :: nat where "op_MEMCPY \<equiv> 0x89"
abbreviation (input) op_CAT :: nat where "op_CAT \<equiv> 0x8B"
abbreviation (input) op_SUBSTR :: nat where "op_SUBSTR \<equiv> 0x8C"
abbreviation (input) op_LEFT :: nat where "op_LEFT \<equiv> 0x8D"
abbreviation (input) op_RIGHT :: nat where "op_RIGHT \<equiv> 0x8E"
abbreviation (input) op_INVERT :: nat where "op_INVERT \<equiv> 0x90"
abbreviation (input) op_AND :: nat where "op_AND \<equiv> 0x91"
abbreviation (input) op_OR :: nat where "op_OR \<equiv> 0x92"
abbreviation (input) op_XOR :: nat where "op_XOR \<equiv> 0x93"
abbreviation (input) op_EQUAL :: nat where "op_EQUAL \<equiv> 0x97"
abbreviation (input) op_NOTEQUAL :: nat where "op_NOTEQUAL \<equiv> 0x98"
abbreviation (input) op_SIGN :: nat where "op_SIGN \<equiv> 0x99"
abbreviation (input) op_ABS :: nat where "op_ABS \<equiv> 0x9A"
abbreviation (input) op_NEGATE :: nat where "op_NEGATE \<equiv> 0x9B"
abbreviation (input) op_INC :: nat where "op_INC \<equiv> 0x9C"
abbreviation (input) op_DEC :: nat where "op_DEC \<equiv> 0x9D"
abbreviation (input) op_ADD :: nat where "op_ADD \<equiv> 0x9E"
abbreviation (input) op_SUB :: nat where "op_SUB \<equiv> 0x9F"
abbreviation (input) op_MUL :: nat where "op_MUL \<equiv> 0xA0"
abbreviation (input) op_DIV :: nat where "op_DIV \<equiv> 0xA1"
abbreviation (input) op_MOD :: nat where "op_MOD \<equiv> 0xA2"
abbreviation (input) op_POW :: nat where "op_POW \<equiv> 0xA3"
abbreviation (input) op_SQRT :: nat where "op_SQRT \<equiv> 0xA4"
abbreviation (input) op_MODMUL :: nat where "op_MODMUL \<equiv> 0xA5"
abbreviation (input) op_MODPOW :: nat where "op_MODPOW \<equiv> 0xA6"
abbreviation (input) op_SHL :: nat where "op_SHL \<equiv> 0xA8"
abbreviation (input) op_SHR :: nat where "op_SHR \<equiv> 0xA9"
abbreviation (input) op_NOT :: nat where "op_NOT \<equiv> 0xAA"
abbreviation (input) op_BOOLAND :: nat where "op_BOOLAND \<equiv> 0xAB"
abbreviation (input) op_BOOLOR :: nat where "op_BOOLOR \<equiv> 0xAC"
abbreviation (input) op_NZ :: nat where "op_NZ \<equiv> 0xB1"
abbreviation (input) op_NUMEQUAL :: nat where "op_NUMEQUAL \<equiv> 0xB3"
abbreviation (input) op_NUMNOTEQUAL :: nat where "op_NUMNOTEQUAL \<equiv> 0xB4"
abbreviation (input) op_LT :: nat where "op_LT \<equiv> 0xB5"
abbreviation (input) op_LE :: nat where "op_LE \<equiv> 0xB6"
abbreviation (input) op_GT :: nat where "op_GT \<equiv> 0xB7"
abbreviation (input) op_GE :: nat where "op_GE \<equiv> 0xB8"
abbreviation (input) op_MIN :: nat where "op_MIN \<equiv> 0xB9"
abbreviation (input) op_MAX :: nat where "op_MAX \<equiv> 0xBA"
abbreviation (input) op_WITHIN :: nat where "op_WITHIN \<equiv> 0xBB"
abbreviation (input) op_PACKMAP :: nat where "op_PACKMAP \<equiv> 0xBE"
abbreviation (input) op_PACKSTRUCT :: nat where "op_PACKSTRUCT \<equiv> 0xBF"
abbreviation (input) op_PACK :: nat where "op_PACK \<equiv> 0xC0"
abbreviation (input) op_UNPACK :: nat where "op_UNPACK \<equiv> 0xC1"
abbreviation (input) op_NEWARRAY0 :: nat where "op_NEWARRAY0 \<equiv> 0xC2"
abbreviation (input) op_NEWARRAY :: nat where "op_NEWARRAY \<equiv> 0xC3"
abbreviation (input) op_NEWARRAYT :: nat where "op_NEWARRAYT \<equiv> 0xC4"
abbreviation (input) op_NEWSTRUCT0 :: nat where "op_NEWSTRUCT0 \<equiv> 0xC5"
abbreviation (input) op_NEWSTRUCT :: nat where "op_NEWSTRUCT \<equiv> 0xC6"
abbreviation (input) op_NEWMAP :: nat where "op_NEWMAP \<equiv> 0xC8"
abbreviation (input) op_SIZE :: nat where "op_SIZE \<equiv> 0xCA"
abbreviation (input) op_HASKEY :: nat where "op_HASKEY \<equiv> 0xCB"
abbreviation (input) op_KEYS :: nat where "op_KEYS \<equiv> 0xCC"
abbreviation (input) op_VALUES :: nat where "op_VALUES \<equiv> 0xCD"
abbreviation (input) op_PICKITEM :: nat where "op_PICKITEM \<equiv> 0xCE"
abbreviation (input) op_APPEND :: nat where "op_APPEND \<equiv> 0xCF"
abbreviation (input) op_SETITEM :: nat where "op_SETITEM \<equiv> 0xD0"
abbreviation (input) op_REVERSEITEMS :: nat where "op_REVERSEITEMS \<equiv> 0xD1"
abbreviation (input) op_REMOVE :: nat where "op_REMOVE \<equiv> 0xD2"
abbreviation (input) op_CLEARITEMS :: nat where "op_CLEARITEMS \<equiv> 0xD3"
abbreviation (input) op_POPITEM :: nat where "op_POPITEM \<equiv> 0xD4"
abbreviation (input) op_ISNULL :: nat where "op_ISNULL \<equiv> 0xD8"
abbreviation (input) op_ISTYPE :: nat where "op_ISTYPE \<equiv> 0xD9"
abbreviation (input) op_CONVERT :: nat where "op_CONVERT \<equiv> 0xDB"
abbreviation (input) op_ABORTMSG :: nat where "op_ABORTMSG \<equiv> 0xE0"
abbreviation (input) op_ASSERTMSG :: nat where "op_ASSERTMSG \<equiv> 0xE1"

text \<open>\<open>IsValid\<close>: the bytes that one of the names above stands for.\<close>

definition opcode_IsValid :: "nat \<Rightarrow> bool" where
  "opcode_IsValid op \<longleftrightarrow>
    op \<le> 0x05 \<or>
    0x08 \<le> op \<and> op \<le> 0x41 \<or>
    op = 0x43 \<or>
    0x45 \<le> op \<and> op \<le> 0x46 \<or>
    0x48 \<le> op \<and> op \<le> 0x4B \<or>
    0x4D \<le> op \<and> op \<le> 0x4E \<or>
    0x50 \<le> op \<and> op \<le> 0x89 \<or>
    0x8B \<le> op \<and> op \<le> 0x8E \<or>
    0x90 \<le> op \<and> op \<le> 0x93 \<or>
    0x97 \<le> op \<and> op \<le> 0xA6 \<or>
    0xA8 \<le> op \<and> op \<le> 0xAC \<or>
    op = 0xB1 \<or>
    0xB3 \<le> op \<and> op \<le> 0xBB \<or>
    0xBE \<le> op \<and> op \<le> 0xC6 \<or>
    op = 0xC8 \<or>
    0xCA \<le> op \<and> op \<le> 0xD4 \<or>
    0xD8 \<le> op \<and> op \<le> 0xD9 \<or>
    op = 0xDB \<or>
    0xE0 \<le> op \<and> op \<le> 0xE1"

section \<open>Prices\<close>

definition coefficients :: "nat list" where
  "coefficients = [
    1, 1, 1, 1, 4, 4, 0, 0, 1, 1, 4, 1, 8, 512, 4096, 1,
    1, 1, 1, 1, 1, 1, 1, 1, 1, 1, 1, 1, 1, 1, 1, 1,
    1, 1, 2, 2, 2, 2, 2, 2, 2, 2, 2, 2, 2, 2, 2, 2,
    2, 2, 2, 2, 512, 512, 512, 32768, 0, 1, 512, 4, 4, 4, 4, 4,
    0, 0, 0, 2, 0, 2, 2, 0, 16, 16, 2, 2, 0, 2, 2, 0,
    2, 2, 16, 2, 2, 16, 16, 64, 2, 2, 2, 2, 2, 2, 2, 2,
    2, 2, 2, 2, 2, 2, 2, 2, 2, 2, 2, 2, 2, 2, 2, 2,
    2, 2, 2, 2, 2, 2, 2, 2, 2, 2, 2, 2, 2, 2, 2, 2,
    2, 2, 2, 2, 2, 2, 2, 2, 256, 2048, 0, 2048, 2048, 2048, 2048, 0,
    4, 8, 8, 8, 0, 0, 0, 32, 32, 4, 4, 4, 4, 4, 8, 8,
    8, 8, 8, 64, 64, 32, 2048, 0, 8, 8, 4, 8, 8, 0, 0, 0,
    0, 4, 0, 8, 8, 8, 8, 8, 8, 8, 8, 8, 0, 0, 2048, 2048,
    2048, 2048, 16, 512, 512, 16, 512, 0, 8, 0, 4, 64, 16, 8192, 64, 8192,
    8192, 8192, 16, 16, 16, 0, 0, 0, 2, 2, 0, 8192, 0, 0, 0, 0,
    0, 1, 0, 0, 0, 0, 0, 0, 0, 0, 0, 0, 0, 0, 0, 0,
    0, 0, 0, 0, 0, 0, 0, 0, 0, 0, 0, 0, 0, 0, 0, 0]"

text \<open>\<open>Opcode\<close> for one opcode, in \<open>int64\<close> arithmetic, and \<open>GetPrice\<close> of \<open>pkg/core/interop/gas_price.go\<close>.\<close>

definition fee_Opcode :: "u64 \<Rightarrow> nat \<Rightarrow> u64" where
  "fee_Opcode base op = of_nat (coefficients ! op) * base"

definition GetPrice :: "u64 \<Rightarrow> nat \<Rightarrow> bytes \<Rightarrow> u64" where
  "GetPrice baseExecFee op parameter = fee_Opcode baseExecFee op"

section \<open>Decoding\<close>

text \<open>\<open>Next\<close>: from the next instruction pointer and the program, the instruction with its parameter or an error, and the next
  instruction pointer it leaves.\<close>

datatype decode_error = IncorrectOpcode | NoInstParam | ParamTooBig

definition one_byte_param :: "nat \<Rightarrow> bool" where
  "one_byte_param op \<longleftrightarrow>
    op \<in> {op_JMP, op_JMPIF, op_JMPIFNOT, op_JMPEQ, op_JMPNE, op_JMPGT, op_JMPGE, op_JMPLT, op_JMPLE, op_CALL, op_ISTYPE,
          op_CONVERT, op_NEWARRAYT, op_ENDTRY, op_INITSSLOT, op_LDSFLD, op_STSFLD, op_LDARG, op_STARG, op_LDLOC, op_STLOC}"

definition four_byte_param :: "nat \<Rightarrow> bool" where
  "four_byte_param op \<longleftrightarrow>
    op \<in> {op_JMPL, op_JMPIFL, op_JMPIFNOTL, op_JMPEQL, op_JMPNEL, op_JMPGTL, op_JMPGEL, op_JMPLTL, op_JMPLEL, op_ENDTRYL,
          op_CALLL, op_SYSCALL, op_PUSHA}"

text \<open>The size of the parameter and the pointer after the prefix that holds it; the sizes of \<open>PUSHDATA\<close> are read from the program.\<close>

definition param_size :: "nat \<Rightarrow> nat \<Rightarrow> bytes \<Rightarrow> decode_error + nat \<times> nat" where
  "param_size op nextip prog =
    (if op = op_PUSHDATA1 then
       (if length prog \<le> nextip then Inl NoInstParam else Inr (unat (prog ! nextip), nextip + 1))
     else if op = op_PUSHDATA2 then
       (if length prog \<le> nextip + 1 then Inl NoInstParam
        else Inr (le_nat (take 2 (drop nextip prog)), nextip + 2))
     else if op = op_PUSHDATA4 then
       (if length prog \<le> nextip + 3 then Inl NoInstParam
        else let n = le_nat (take 4 (drop nextip prog)) in
             if MaxSize < n then Inl ParamTooBig else Inr (n, nextip + 4))
     else if one_byte_param op then Inr (1, nextip)
     else if op \<in> {op_INITSLOT, op_TRY, op_CALLT} then Inr (2, nextip)
     else if four_byte_param op then Inr (4, nextip)
     else if op = op_TRYL then Inr (8, nextip)
     else if op \<le> op_PUSHINT256 then Inr (2 ^ op, nextip)
     else Inr (0, nextip))"

definition Next :: "nat \<Rightarrow> bytes \<Rightarrow> (nat \<times> (decode_error + bytes)) \<times> nat" where
  "Next nextip prog =
    (if length prog \<le> nextip then ((op_RET, Inr []), nextip)
     else let op = unat (prog ! nextip) in
       if \<not> opcode_IsValid op then ((op, Inl IncorrectOpcode), nextip)
       else case param_size op (nextip + 1) prog of
         Inl e \<Rightarrow> ((op, Inl e), nextip + 1)
       | Inr (n, p) \<Rightarrow>
           if length prog < p + n then ((op, Inl NoInstParam), p)
           else ((op, Inr (take n (drop p prog))), p + n))"

definition CalcJumpOffset :: "nat \<Rightarrow> bytes \<Rightarrow> bytes \<Rightarrow> vm_panic + nat" where
  "CalcJumpOffset ip prog parameter =
    (if length parameter = 1 \<or> length parameter = 4 then
       let rOffset = (if length parameter = 1 then sint (parameter ! 0)
                      else sint (of_nat (le_nat parameter) :: u32));
           offset = int ip + rOffset
       in if offset < 0 \<or> int (length prog) < offset then Inl (Message ''invalid offset'') else Inr (nat offset)
     else Inl (Message ''invalid parameter length''))"

definition GetTryParams :: "nat \<Rightarrow> bytes \<Rightarrow> bytes \<times> bytes" where
  "GetTryParams op p = (let i = (if op = op_TRYL then 4 else 1) in (take i p, drop i p))"

end
