(* ===== verification/Vm.thy ===== *)
theory Vm
  imports VmStack VmCode ChainPersist "HOL-Library.Signed_Division"
begin

text \<open>
  The virtual machine: its state, gas, contexts and exceptions (\<open>pkg/vm/vm.go\<close>, \<open>context.go\<close>, \<open>exception.go\<close>), and the groups
  of instructions that work on one stack. The objects the sources share by pointer are addresses here too: script contexts in
  \<open>v_scs\<close>, evaluation stacks in \<open>v_stacks\<close>, compound items in \<open>v_heap\<close>. An operation gives its result or the value it panics with, and the
  state it leaves; a panic keeps what was done before it, as \<open>recover\<close> does. System calls, tokens, unload callbacks, the script hash
  and the comparison of interop values are arguments, in the record \<open>vm_env\<close>.
\<close>

section \<open>State\<close>

datatype exceptionHandlingState = eTry | eCatch | eFinally

record exceptionHandlingContext =
  CatchOffset :: int
  FinallyOffset :: int
  EndOffset :: int
  eState :: exceptionHandlingState

definition newExceptionHandlingContext :: "int \<Rightarrow> int \<Rightarrow> exceptionHandlingContext" where
  "newExceptionHandlingContext cOffset fOffset =
    \<lparr>CatchOffset = cOffset, FinallyOffset = fOffset, EndOffset = -1, eState = eTry\<rparr>"

definition HasCatch :: "exceptionHandlingContext \<Rightarrow> bool" where
  "HasCatch c \<longleftrightarrow> CatchOffset c \<ge> 0"

definition HasFinally :: "exceptionHandlingContext \<Rightarrow> bool" where
  "HasFinally c \<longleftrightarrow> FinallyOffset c \<ge> 0"

text \<open>\<open>ContextUnloadCallback\<close>: the machine's own \<open>DynamicOnUnload\<close>, or one that was passed in.\<close>

datatype unloadCallback = UnloadDynamic | UnloadExternal nat

record 'i scriptContext =
  sc_prog :: bytes
  sc_breakPoints :: "nat list"
  sc_estack :: nat
  sc_static :: "'i slot"
  sc_scriptHash :: bytes
  sc_callingScriptHash :: bytes
  sc_callingContext :: "nat option"
  sc_callFlag :: byte
  sc_deployed :: bool
  sc_onUnload :: "unloadCallback option"
  sc_onUnloaded :: "nat option"
  sc_whitelisted :: bool

record 'i vm_context =
  c_ip :: nat
  c_nextip :: nat
  c_prog :: bytes
  c_sc :: nat
  c_local :: "'i slot"
  c_arguments :: "'i slot"
  c_tryStack :: "exceptionHandlingContext list"
  c_retCount :: int

record 'i vm =
  v_state :: byte
  v_istack :: "'i vm_context list"
  v_scs :: "'i scriptContext list"
  v_stacks :: "'i item list list"
  v_estack :: nat
  v_heap :: "'i heap"
  v_uncaughtException :: "'i item option"
  v_refs :: int
  v_gasConsumed :: "256 word"
  v_gasLimit :: u64

type_synonym ('i, 'a) vm_op = "'i vm \<Rightarrow> (vm_panic + 'a) \<times> 'i vm"

record 'i vm_env =
  e_getPrice :: "(nat \<Rightarrow> bytes \<Rightarrow> u64) option"
  e_Gorgon :: bool
  e_SyscallHandler :: "(u32 \<Rightarrow> ('i, unit) vm_op) option"
  e_LoadToken :: "u16 \<Rightarrow> ('i, unit) vm_op"
  e_onUnload :: "nat \<Rightarrow> 'i vm_context \<Rightarrow> bool \<Rightarrow> ('i, unit) vm_op"
  e_onUnloaded :: "nat \<Rightarrow> ('i, unit) vm_op"
  e_hash160 :: "bytes \<Rightarrow> bytes"
  e_interopEquals :: "'i \<Rightarrow> 'i \<Rightarrow> bool"

abbreviation (input) stateNone :: byte where "stateNone \<equiv> 0"
abbreviation (input) stateHalt :: byte where "stateHalt \<equiv> 1"
abbreviation (input) stateFault :: byte where "stateFault \<equiv> 2"
abbreviation (input) stateBreak :: byte where "stateBreak \<equiv> 4"

definition HasFlag :: "byte \<Rightarrow> byte \<Rightarrow> bool" where
  "HasFlag s f \<longleftrightarrow> s AND f \<noteq> 0"

abbreviation (input) MaxInvocationStackSize :: nat where "MaxInvocationStackSize \<equiv> 1024"
abbreviation (input) MaxTryNestingDepth :: nat where "MaxTryNestingDepth \<equiv> 16"
abbreviation (input) MaxStackSize :: int where "MaxStackSize \<equiv> 2048"
abbreviation (input) maxSHLArg :: int where "maxSHLArg \<equiv> 256"
abbreviation (input) zero160 :: bytes where "zero160 \<equiv> replicate 20 0"

section \<open>Operations that may panic\<close>

definition retM :: "'a \<Rightarrow> ('i, 'a) vm_op" where
  "retM x v = (Inr x, v)"

definition panicM :: "vm_panic \<Rightarrow> ('i, 'a) vm_op" where
  "panicM e v = (Inl e, v)"

definition bindM :: "('i, 'a) vm_op \<Rightarrow> ('a \<Rightarrow> ('i, 'b) vm_op) \<Rightarrow> ('i, 'b) vm_op" where
  "bindM m f v = (case m v of (Inl e, v') \<Rightarrow> (Inl e, v') | (Inr x, v') \<Rightarrow> f x v')"

definition seqM :: "('i, 'a) vm_op \<Rightarrow> ('i, 'b) vm_op \<Rightarrow> ('i, 'b) vm_op" where
  "seqM m n = bindM m (\<lambda>_. n)"

definition getM :: "('i vm \<Rightarrow> 'a) \<Rightarrow> ('i, 'a) vm_op" where
  "getM f v = (Inr (f v), v)"

definition modM :: "('i vm \<Rightarrow> 'i vm) \<Rightarrow> ('i, unit) vm_op" where
  "modM f v = (Inr (), f v)"

definition liftM :: "vm_panic + 'a \<Rightarrow> ('i, 'a) vm_op" where
  "liftM r v = (r, v)"

text \<open>\<open>if b { panic(e) }\<close>.\<close>

definition panic_if :: "bool \<Rightarrow> vm_panic \<Rightarrow> ('i, unit) vm_op" where
  "panic_if b e = (if b then panicM e else retM ())"

definition whenM :: "bool \<Rightarrow> ('i, unit) vm_op \<Rightarrow> ('i, unit) vm_op" where
  "whenM b m = (if b then m else retM ())"

text \<open>A loop over a slice.\<close>

primrec forM :: "'a list \<Rightarrow> ('a \<Rightarrow> ('i, unit) vm_op) \<Rightarrow> ('i, unit) vm_op" where
  "forM [] f = retM ()"
| "forM (x # xs) f = seqM (f x) (forM xs f)"

primrec mapM :: "'a list \<Rightarrow> ('a \<Rightarrow> ('i, 'b) vm_op) \<Rightarrow> ('i, 'b list) vm_op" where
  "mapM [] f = retM []"
| "mapM (x # xs) f = bindM (f x) (\<lambda>y. bindM (mapM xs f) (\<lambda>ys. retM (y # ys)))"

text \<open>An operation that reads and writes the store of items.\<close>

definition heapM :: "('i heap \<Rightarrow> vm_panic + 'a \<times> 'i heap) \<Rightarrow> ('i, 'a) vm_op" where
  "heapM f v = (case f (v_heap v) of Inl e \<Rightarrow> (Inl e, v) | Inr (x, h) \<Rightarrow> (Inr x, v\<lparr>v_heap := h\<rparr>))"

section \<open>Gas\<close>

abbreviation (input) ExecFeeFactorMultiplier :: nat where "ExecFeeFactorMultiplier \<equiv> 10000"

definition SetGasLimit :: "u64 \<Rightarrow> 'i vm \<Rightarrow> 'i vm" where
  "SetGasLimit datoshi v =
    v\<lparr>v_gasLimit := (if 0 < sint datoshi then datoshi * of_nat ExecFeeFactorMultiplier else datoshi)\<rparr>"

definition GasLimit :: "'i vm \<Rightarrow> int" where
  "GasLimit v = (let res = sint (v_gasLimit v) in if 0 < res then res div int ExecFeeFactorMultiplier else res)"

definition PicoGasToDatoshi :: "256 word \<Rightarrow> 256 word" where
  "PicoGasToDatoshi x = (x + of_nat ExecFeeFactorMultiplier - 1) div of_nat ExecFeeFactorMultiplier"

definition PicoGasToDatoshiInt64 :: "u64 \<Rightarrow> vm_panic + u64" where
  "PicoGasToDatoshiInt64 x =
    (if sint x > 2 ^ 63 - 1 - int ExecFeeFactorMultiplier + 1 then Inl (Message ''picoGas overflows conversion bounds'')
     else Inr (of_int (sint (x + of_nat ExecFeeFactorMultiplier - 1) sdiv int ExecFeeFactorMultiplier)))"

definition GasConsumed :: "'i vm \<Rightarrow> int" where
  "GasConsumed v =
    (let consumed = PicoGasToDatoshi (v_gasConsumed v) in
     if unat consumed \<le> 2 ^ 63 - 1 then int (unat consumed)
     else sint (v_gasLimit v) sdiv int ExecFeeFactorMultiplier)"

definition GasLeft :: "'i vm \<Rightarrow> int" where
  "GasLeft v =
    (if sint (v_gasLimit v) = -1 then -1
     else if unat (v_gasLimit v) \<le> unat (v_gasConsumed v) then 0
     else int (unat ((ucast (v_gasLimit v) - v_gasConsumed v) div of_nat ExecFeeFactorMultiplier)))"

section \<open>Contexts\<close>

text \<open>\<open>Context()\<close>, and access to a context by its position in the invocation stack.\<close>

definition vm_Context :: "'i vm \<Rightarrow> 'i vm_context option" where
  "vm_Context v = (if v_istack v = [] then None else Some (last (v_istack v)))"

definition upd_ctx :: "nat \<Rightarrow> ('i vm_context \<Rightarrow> 'i vm_context) \<Rightarrow> 'i vm \<Rightarrow> 'i vm" where
  "upd_ctx i f v = v\<lparr>v_istack := (v_istack v)[i := f (v_istack v ! i)]\<rparr>"

definition upd_sc :: "nat \<Rightarrow> ('i scriptContext \<Rightarrow> 'i scriptContext) \<Rightarrow> 'i vm \<Rightarrow> 'i vm" where
  "upd_sc s f v = v\<lparr>v_scs := (v_scs v)[s := f (v_scs v ! s)]\<rparr>"

text \<open>The readers of stacks and of contexts are total, like those of the store of items.\<close>

definition stack_at :: "'i vm \<Rightarrow> nat \<Rightarrow> 'i item list" where
  "stack_at v s = (if s < length (v_stacks v) then v_stacks v ! s else [])"

definition ctxM :: "nat \<Rightarrow> ('i, 'i vm_context) vm_op" where
  "ctxM i v = (if i < length (v_istack v) then (Inr (v_istack v ! i), v) else (Inl RuntimePanic, v))"

definition sc_of :: "'i vm \<Rightarrow> 'i vm_context \<Rightarrow> 'i scriptContext" where
  "sc_of v c = v_scs v ! c_sc c"

definition addPicoGasInternal :: "256 word \<Rightarrow> ('i, unit) vm_op" where
  "addPicoGasInternal gas v =
    (let charged = (case vm_Context v of None \<Rightarrow> True | Some c \<Rightarrow> \<not> sc_whitelisted (sc_of v c));
         v' = (if charged then v\<lparr>v_gasConsumed := v_gasConsumed v + gas\<rparr> else v)
     in if sint (v_gasLimit v') < 0 \<or> unat (v_gasConsumed v') \<le> unat (v_gasLimit v') then (Inr (), v')
        else (Inl GasLimitExceeded, v'))"

definition AddPicoGas :: "u64 \<Rightarrow> ('i, unit) vm_op" where
  "AddPicoGas gas = addPicoGasInternal (ucast gas)"

definition AddDatoshi :: "u64 \<Rightarrow> ('i, unit) vm_op" where
  "AddDatoshi gas = addPicoGasInternal (ucast gas * of_nat ExecFeeFactorMultiplier)"

text \<open>\<open>ScriptHash\<close> computes the hash once.\<close>

definition ScriptHash :: "'i vm_env \<Rightarrow> nat \<Rightarrow> ('i, bytes) vm_op" where
  "ScriptHash E i v =
    (let s = c_sc (v_istack v ! i) in
     if sc_scriptHash (v_scs v ! s) = zero160 then
       let hsh = e_hash160 E (sc_prog (v_scs v ! s)) in (Inr hsh, upd_sc s (\<lambda>sc. sc\<lparr>sc_scriptHash := hsh\<rparr>) v)
     else (Inr (sc_scriptHash (v_scs v ! s)), v))"

definition getContextScriptHash :: "'i vm_env \<Rightarrow> nat \<Rightarrow> ('i, bytes) vm_op" where
  "getContextScriptHash E n =
    bindM (getM (\<lambda>v. length (v_istack v))) (\<lambda>l.
      if l \<le> n then retM zero160 else ScriptHash E (l - 1 - n))"

definition Jump :: "nat \<Rightarrow> int \<Rightarrow> ('i, unit) vm_op" where
  "Jump i pos =
    bindM (ctxM i) (\<lambda>c.
      if pos < 0 \<or> int (length (c_prog c)) \<le> pos then panicM (Message ''instruction offset is out of range'')
      else modM (upd_ctx i (\<lambda>c. c\<lparr>c_nextip := nat pos\<rparr>)))"

definition checkInvocationStackSize :: "('i, unit) vm_op" where
  "checkInvocationStackSize =
    bindM (getM (\<lambda>v. length (v_istack v))) (\<lambda>l.
      panic_if (MaxInvocationStackSize \<le> l) (Message ''invocation stack is too big''))"

text \<open>\<open>loadScriptWithCallingHash\<close>. A stack that is not to be shared is a new object; \<open>initStack\<close> leaves the try stack empty.\<close>

definition loadScriptWithCallingHash ::
  "bytes \<Rightarrow> bool \<Rightarrow> bytes \<Rightarrow> bytes \<Rightarrow> byte \<Rightarrow> int \<Rightarrow> nat \<Rightarrow> unloadCallback option \<Rightarrow> nat option \<Rightarrow> bool
    \<Rightarrow> ('i, unit) vm_op" where
  "loadScriptWithCallingHash b deployed caller hsh f rvcount offset onUnload onUnloaded whitelisted =
    seqM checkInvocationStackSize (modM (\<lambda>v.
      let parent = vm_Context v;
          v1 = (case parent of None \<Rightarrow> v | Some p \<Rightarrow> upd_sc (c_sc p) (\<lambda>sc. sc\<lparr>sc_estack := v_estack v\<rparr>) v);
          v2 = (if rvcount \<noteq> -1 \<or> stack_at v (v_estack v) \<noteq> [] then
                  v1\<lparr>v_stacks := v_stacks v1 @ [[]], v_estack := length (v_stacks v1)\<rparr>
                else v1);
          sc = \<lparr>sc_prog = b, sc_breakPoints = [], sc_estack = v_estack v2, sc_static = None,
                sc_scriptHash = hsh, sc_callingScriptHash = caller,
                sc_callingContext = map_option c_sc parent, sc_callFlag = f, sc_deployed = deployed,
                sc_onUnload = onUnload, sc_onUnloaded = onUnloaded, sc_whitelisted = whitelisted\<rparr>;
          c = \<lparr>c_ip = 0, c_nextip = offset, c_prog = b, c_sc = length (v_scs v2), c_local = None,
               c_arguments = None, c_tryStack = [], c_retCount = rvcount\<rparr>
      in v2\<lparr>v_scs := v_scs v2 @ [sc], v_istack := v_istack v2 @ [c]\<rparr>))"

text \<open>\<open>call\<close>: a context of the same script with handlers of its own.\<close>

definition vm_call :: "nat \<Rightarrow> int \<Rightarrow> ('i, unit) vm_op" where
  "vm_call i offset =
    seqM checkInvocationStackSize
    (bindM (ctxM i) (\<lambda>c.
     bindM (getM (\<lambda>v. length (v_istack v))) (\<lambda>l.
     bindM (getM (\<lambda>v. sc_prog (sc_of v c))) (\<lambda>prog.
       seqM (modM (\<lambda>v. v\<lparr>v_istack := v_istack v @
                      [\<lparr>c_ip = 0, c_nextip = 0, c_prog = prog, c_sc = c_sc c, c_local = None,
                        c_arguments = None, c_tryStack = [], c_retCount = -1\<rparr>]\<rparr>))
            (Jump l offset)))))"

definition vm_Call :: "int \<Rightarrow> ('i, unit) vm_op" where
  "vm_Call offset = bindM (getM (\<lambda>v. length (v_istack v))) (\<lambda>l. vm_call (l - 1) offset)"

definition LoadScriptWithFlags :: "'i vm_env \<Rightarrow> bytes \<Rightarrow> byte \<Rightarrow> ('i, unit) vm_op" where
  "LoadScriptWithFlags E b f =
    bindM (getContextScriptHash E 0) (\<lambda>cur.
      loadScriptWithCallingHash b False cur zero160 f (-1) 0 None None False)"

definition LoadDynamicScript :: "'i vm_env \<Rightarrow> bytes \<Rightarrow> byte \<Rightarrow> ('i, unit) vm_op" where
  "LoadDynamicScript E b f =
    bindM (getContextScriptHash E 0) (\<lambda>cur.
      loadScriptWithCallingHash b False cur zero160 f (-1) 0 (Some UnloadDynamic) None False)"

definition LoadScriptWithHash :: "'i vm_env \<Rightarrow> bytes \<Rightarrow> bytes \<Rightarrow> byte \<Rightarrow> ('i, unit) vm_op" where
  "LoadScriptWithHash E b hsh f =
    bindM (getContextScriptHash E 0) (\<lambda>cur.
      loadScriptWithCallingHash b False cur hsh f 1 0 None None False)"

definition LoadNEFMethod ::
  "bytes \<Rightarrow> bytes \<Rightarrow> bytes \<Rightarrow> byte \<Rightarrow> bool \<Rightarrow> nat \<Rightarrow> int \<Rightarrow> unloadCallback option \<Rightarrow> nat option \<Rightarrow> bool
    \<Rightarrow> ('i, unit) vm_op" where
  "LoadNEFMethod script caller hsh f hasReturn methodOff initOff onUnload onUnloaded whitelisted =
    seqM (loadScriptWithCallingHash script True caller hsh f (if hasReturn then 1 else 0) methodOff onUnload onUnloaded
            whitelisted)
         (whenM (0 \<le> initOff) (vm_Call initOff))"

definition NewVM :: "'i vm" where
  "NewVM = \<lparr>v_state = stateNone, v_istack = [], v_scs = [], v_stacks = [[]], v_estack = 0, v_heap = [],
            v_uncaughtException = None, v_refs = 0, v_gasConsumed = 0, v_gasLimit = 0\<rparr>"

text \<open>\<open>Reset\<close>; the objects nothing points to any more are dropped with their stores. What it clears of the environment is an argument of
  the next run.\<close>

definition vm_Reset :: "'i vm \<Rightarrow> 'i vm" where
  "vm_Reset v = NewVM"

section \<open>The evaluation stack\<close>

definition cur_stack :: "'i vm \<Rightarrow> 'i item list" where
  "cur_stack v = stack_at v (v_estack v)"

definition set_stack :: "'i item list \<Rightarrow> 'i vm \<Rightarrow> 'i vm" where
  "set_stack xs v = v\<lparr>v_stacks := (v_stacks v)[v_estack v := xs]\<rparr>"

definition hrM :: "('i heap \<times> int \<Rightarrow> 'i heap \<times> int) \<Rightarrow> ('i, unit) vm_op" where
  "hrM f = modM (\<lambda>v. let (h, r) = f (v_heap v, v_refs v) in v\<lparr>v_heap := h, v_refs := r\<rparr>)"

definition refs_Add :: "'i item \<Rightarrow> ('i, unit) vm_op" where
  "refs_Add it = hrM (ref_Add [it])"

definition refs_Remove :: "'i item \<Rightarrow> ('i, unit) vm_op" where
  "refs_Remove it = hrM (ref_Remove [it])"

definition refs_plus :: "int \<Rightarrow> ('i, unit) vm_op" where
  "refs_plus n = modM (\<lambda>v. v\<lparr>v_refs := v_refs v + n\<rparr>)"

definition stack_Len :: "('i, int) vm_op" where
  "stack_Len = getM (\<lambda>v. int (length (cur_stack v)))"

definition pushNoRef :: "'i item \<Rightarrow> ('i, unit) vm_op" where
  "pushNoRef it = modM (\<lambda>v. set_stack (cur_stack v @ [it]) v)"

definition PushItem :: "'i item \<Rightarrow> ('i, unit) vm_op" where
  "PushItem it = seqM (pushNoRef it) (refs_Add it)"

definition pushItemCounted :: "'i item \<Rightarrow> int \<Rightarrow> ('i, unit) vm_op" where
  "pushItemCounted it n = seqM (pushNoRef it) (refs_plus n)"

definition popNoRef :: "('i, 'i item) vm_op" where
  "popNoRef v = (if cur_stack v = [] then (Inl RuntimePanic, v)
                 else (Inr (last (cur_stack v)), set_stack (butlast (cur_stack v)) v))"

definition PopItem :: "('i, 'i item) vm_op" where
  "PopItem = bindM popNoRef (\<lambda>it. seqM (refs_Remove it) (retM it))"

definition PeekItem :: "int \<Rightarrow> ('i, 'i item) vm_op" where
  "PeekItem n = bindM (getM cur_stack) (\<lambda>xs. liftM (Stack_Peek xs n))"

text \<open>An operation of the stack that only moves its elements.\<close>

definition stackM :: "('i item list \<Rightarrow> vm_panic + 'i item list) \<Rightarrow> ('i, unit) vm_op" where
  "stackM f = bindM (getM cur_stack) (\<lambda>xs. bindM (liftM (f xs)) (\<lambda>ys. modM (set_stack ys)))"

definition RemoveAt :: "nat \<Rightarrow> ('i, 'i item) vm_op" where
  "RemoveAt n =
    bindM (getM cur_stack) (\<lambda>xs. bindM (liftM (Stack_RemoveAt xs n)) (\<lambda>(e, ys).
      seqM (modM (set_stack ys)) (seqM (refs_Remove e) (retM e))))"

definition InsertAt :: "'i item \<Rightarrow> nat \<Rightarrow> ('i, unit) vm_op" where
  "InsertAt e n = seqM (stackM (\<lambda>xs. Stack_InsertAt xs e n)) (refs_Add e)"

definition stack_Clear :: "('i, unit) vm_op" where
  "stack_Clear =
    bindM (getM cur_stack) (\<lambda>xs. seqM (forM xs refs_Remove) (modM (set_stack [])))"

text \<open>\<open>Pop().BigInt()\<close>, \<open>Pop().Bool()\<close>, \<open>Pop().Bytes()\<close>, \<open>Pop().String()\<close> and \<open>toInt\<close>.\<close>

definition popBigInt :: "('i, int) vm_op" where
  "popBigInt = bindM PopItem (\<lambda>it. liftM (TryInteger it))"

definition bytesM :: "'i item \<Rightarrow> ('i, bytes) vm_op" where
  "bytesM it = bindM (getM v_heap) (\<lambda>h. liftM (TryBytes h it))"

definition popBytes :: "('i, bytes) vm_op" where
  "popBytes = bindM PopItem bytesM"

definition popBool :: "('i, bool) vm_op" where
  "popBool = bindM PopItem (\<lambda>it. bindM (getM v_heap) (\<lambda>h. liftM (TryBool h it)))"

definition popString :: "('i, bytes) vm_op" where
  "popString = bindM popBytes (\<lambda>bs. seqM (panic_if (\<not> valid_utf8 bs) (ItemErr ErrInvalidValue)) (retM bs))"

definition toInt :: "int \<Rightarrow> vm_panic + int" where
  "toInt i = (if i < - (2 ^ 31) \<or> 2 ^ 31 - 1 < i then Inl (Message ''not an int32'') else Inr i)"

definition popInt :: "('i, int) vm_op" where
  "popInt = bindM popBigInt (\<lambda>i. liftM (toInt i))"

definition pushInt :: "int \<Rightarrow> ('i, unit) vm_op" where
  "pushInt n = bindM (liftM (NewBigInteger n)) PushItem"

definition pushBool :: "bool \<Rightarrow> ('i, unit) vm_op" where
  "pushBool b = PushItem (BoolI b)"

definition pushBuffer :: "bytes \<Rightarrow> ('i, unit) vm_op" where
  "pushBuffer bs = bindM (heapM (\<lambda>h. Inr (new_buffer h bs))) PushItem"

section \<open>Unloading and exceptions\<close>

text \<open>\<open>DynamicOnUnload\<close>: a dynamic script returns one value, or none, which becomes \<open>Null\<close> on the caller's stack.\<close>

definition DynamicOnUnload :: "'i vm_context \<Rightarrow> bool \<Rightarrow> ('i, unit) vm_op" where
  "DynamicOnUnload ctx commit =
    (if \<not> commit then retM ()
     else bindM (getM (\<lambda>v. length (stack_at v (sc_estack (sc_of v ctx))))) (\<lambda>eLen.
       if eLen = 0 then
         bindM (getM vm_Context) (\<lambda>cur. case cur of
            None \<Rightarrow> panicM RuntimePanic
          | Some c \<Rightarrow>
              seqM (modM (\<lambda>v. let s = sc_estack (sc_of v c) in
                        v\<lparr>v_stacks := (v_stacks v)[s := stack_at v s @ [NullI]]\<rparr>))
                   (refs_Add NullI))
       else if 1 < eLen then panicM (Message ''multiple return values in a cross-contract call'')
       else retM ()))"

definition static_of :: "'i vm \<Rightarrow> nat \<Rightarrow> 'i slot" where
  "static_of v s = (if s < length (v_scs v) then sc_static (v_scs v ! s) else None)"

definition unloadContext :: "'i vm_env \<Rightarrow> 'i vm_context \<Rightarrow> ('i, unit) vm_op" where
  "unloadContext E ctx =
    seqM (hrM (Slot_clearRefs (c_local ctx)))
    (seqM (hrM (Slot_clearRefs (c_arguments ctx)))
    (bindM (getM vm_Context) (\<lambda>cur.
      if (case cur of None \<Rightarrow> True | Some c \<Rightarrow> c_sc ctx \<noteq> c_sc c) then
        bindM (getM (\<lambda>v. sc_of v ctx)) (\<lambda>sc.
        seqM (bindM (getM (\<lambda>v. static_of v (c_sc ctx))) (\<lambda>s. hrM (Slot_clearRefs s)))
        (seqM
          (bindM (getM v_uncaughtException) (\<lambda>exc.
             case sc_onUnload sc of
               None \<Rightarrow> retM ()
             | Some UnloadDynamic \<Rightarrow> DynamicOnUnload ctx (exc = None)
             | Some (UnloadExternal k) \<Rightarrow> e_onUnload E k ctx (exc = None)))
          (case sc_onUnloaded sc of
             None \<Rightarrow> retM ()
           | Some k \<Rightarrow>
               bindM (getM v_uncaughtException) (\<lambda>exc.
                 if exc \<noteq> None then panicM (Message ''uncaught exception'') else e_onUnloaded E k))))
      else retM ())))"

text \<open>The contexts above the one that handles an exception are removed and unloaded one by one.\<close>

primrec unload_top :: "'i vm_env \<Rightarrow> nat \<Rightarrow> ('i, unit) vm_op" where
  "unload_top E 0 = retM ()"
| "unload_top E (Suc n) =
    bindM (getM vm_Context) (\<lambda>cur. case cur of
       None \<Rightarrow> panicM RuntimePanic
     | Some ctx \<Rightarrow>
         seqM (modM (\<lambda>v. v\<lparr>v_istack := butlast (v_istack v)\<rparr>)) (seqM (unloadContext E ctx) (unload_top E n)))"

definition handler_done :: "exceptionHandlingContext \<Rightarrow> bool" where
  "handler_done e \<longleftrightarrow> eState e = eFinally \<or> (eState e = eCatch \<and> \<not> HasFinally e)"

text \<open>The handlers left of a try stack once the finished ones are popped; the top is last.\<close>

definition open_handlers :: "exceptionHandlingContext list \<Rightarrow> exceptionHandlingContext list" where
  "open_handlers ts = rev (dropWhile handler_done (rev ts))"

definition enter_handler :: "'i vm_env \<Rightarrow> nat \<Rightarrow> nat \<Rightarrow> ('i, unit) vm_op" where
  "enter_handler E i pop =
    seqM (unload_top E pop)
    (bindM (ctxM i) (\<lambda>ictx.
       let ts = c_tryStack ictx; ectx = last ts;
           set_top = (\<lambda>e. modM (upd_ctx i (\<lambda>c. c\<lparr>c_tryStack := butlast ts @ [e]\<rparr>)))
       in seqM (modM (\<lambda>v. v\<lparr>v_estack := sc_estack (sc_of v ictx)\<rparr>))
         (if eState ectx = eTry \<and> HasCatch ectx then
            seqM (set_top (ectx\<lparr>eState := eCatch\<rparr>))
            (bindM (getM v_uncaughtException) (\<lambda>exc.
             seqM (PushItem (case exc of Some it \<Rightarrow> it | None \<Rightarrow> NullI))
             (seqM (modM (\<lambda>v. v\<lparr>v_uncaughtException := None\<rparr>)) (Jump i (CatchOffset ectx)))))
          else
            seqM (set_top (ectx\<lparr>eState := eFinally\<rparr>)) (Jump i (FinallyOffset ectx)))))"

function handle_from :: "'i vm_env \<Rightarrow> nat \<Rightarrow> ('i, unit) vm_op" where
  "handle_from E pop v =
    (if length (v_istack v) \<le> pop then panicM (Message ''unhandled exception'') v
     else let i = length (v_istack v) - 1 - pop;
              ts = open_handlers (c_tryStack (v_istack v ! i));
              v' = upd_ctx i (\<lambda>c. c\<lparr>c_tryStack := ts\<rparr>) v
          in if ts = [] then handle_from E (Suc pop) v' else enter_handler E i pop v')"
  by pat_completeness auto

termination handle_from
  by (relation "measure (\<lambda>(E, pop, v). length (v_istack v) - pop)") (auto simp: upd_ctx_def)

declare handle_from.simps [simp del]

definition handleException :: "'i vm_env \<Rightarrow> ('i, unit) vm_op" where
  "handleException E = handle_from E 0"

definition vm_throw :: "'i vm_env \<Rightarrow> 'i item \<Rightarrow> ('i, unit) vm_op" where
  "vm_throw E it = seqM (modM (\<lambda>v. v\<lparr>v_uncaughtException := Some it\<rparr>)) (handleException E)"

text \<open>\<open>ContractHasTryBlock\<close>: the contexts of the top script, from the top, up to the first of another script.\<close>

definition ContractHasTryBlock :: "'i vm \<Rightarrow> bool" where
  "ContractHasTryBlock v =
    (case vm_Context v of
       None \<Rightarrow> False
     | Some t \<Rightarrow>
         list_ex (\<lambda>c. list_ex (\<lambda>e. eState e = eTry) (c_tryStack c))
           (takeWhile (\<lambda>c. c_sc c = c_sc t) (rev (v_istack v))))"

end
