(* ===== verification/VmExec.thy ===== *)
theory VmExec
  imports Vm
begin

text \<open>
  \<open>execute\<close> of \<open>pkg/vm/vm.go\<close>: the switch over the opcodes, one definition for each run of them in the order of the instruction set,
  then \<open>step\<close> and \<open>Run\<close>. \<open>i\<close> is the position of the executing context in the invocation stack, which is its top when the instruction
  starts.
\<close>

section \<open>Arithmetic of big.Int\<close>

text \<open>\<open>Sqrt\<close>: the integer square root.\<close>

fun int_sqrt :: "nat \<Rightarrow> nat" where
  "int_sqrt n =
    (if n = 0 then 0
     else let r = 2 * int_sqrt (n div 4) in if (r + 1) * (r + 1) \<le> n then r + 1 else r)"

declare int_sqrt.simps [simp del]

text \<open>\<open>Exp\<close> with a modulus: the sign of the modulus is ignored and the result is not negative.\<close>

fun mod_pow :: "int \<Rightarrow> nat \<Rightarrow> int \<Rightarrow> int" where
  "mod_pow b e m =
    (if e = 0 then 1 mod m
     else let r = mod_pow (b * b mod m) (e div 2) m in if odd e then b * r mod m else r)"

declare mod_pow.simps [simp del]

text \<open>\<open>ModInverse\<close>: the extended Euclidean algorithm; nil when the arguments are not coprime.\<close>

function ext_gcd :: "int \<Rightarrow> int \<Rightarrow> int \<times> int \<times> int" where
  "ext_gcd a b =
    (if b \<le> 0 then (a, 1, 0)
     else let (g, x, y) = ext_gcd b (a mod b) in (g, y, x - a div b * y))"
  by pat_completeness auto

termination ext_gcd
  by (relation "measure (\<lambda>(a, b). nat b)") auto

declare ext_gcd.simps [simp del]

definition ModInverse :: "int \<Rightarrow> int \<Rightarrow> int option" where
  "ModInverse g n = (let (d, x, y) = ext_gcd g n in if d = 1 then Some (x mod n) else None)"

section \<open>Constants\<close>

definition getJumpOffset :: "nat \<Rightarrow> bytes \<Rightarrow> ('i, int) vm_op" where
  "getJumpOffset i parameter =
    bindM (ctxM i) (\<lambda>c.
      bindM (liftM (CalcJumpOffset (c_ip c) (c_prog c) parameter)) (\<lambda>n. retM (int n)))"

definition exec_const :: "'i vm_env \<Rightarrow> nat \<Rightarrow> nat \<Rightarrow> bytes \<Rightarrow> ('i, unit) vm_op" where
  "exec_const E i op parameter =
    (if op \<le> op_PUSHINT256 then
       (case FromBytes (Some parameter) of Inl _ \<Rightarrow> panicM RuntimePanic | Inr n \<Rightarrow> pushInt n)
     else if op_PUSHM1 \<le> op \<and> op \<le> op_PUSH16 then pushInt (int op - int op_PUSH0)
     else if op \<in> {op_PUSHDATA1, op_PUSHDATA2, op_PUSHDATA4} then PushItem (BytesI parameter)
     else if op = op_PUSHT \<or> op = op_PUSHF then pushBool (op = op_PUSHT)
     else if op = op_PUSHA then
       bindM (getJumpOffset i parameter) (\<lambda>n.
       bindM (ScriptHash E i) (\<lambda>hsh.
       bindM (getM (\<lambda>v. sc_prog (sc_of v (v_istack v ! i)))) (\<lambda>prog.
         PushItem (PointerI n prog hsh))))
     else if op = op_PUSHNULL then PushItem NullI
     else panicM (Message ''unknown opcode''))"

section \<open>Flow control\<close>

definition getJumpCondition :: "nat \<Rightarrow> int \<Rightarrow> int \<Rightarrow> vm_panic + bool" where
  "getJumpCondition op a b =
    (if op = op_JMPEQ \<or> op = op_JMPEQL then Inr (a = b)
     else if op = op_JMPNE \<or> op = op_JMPNEL then Inr (a \<noteq> b)
     else if op = op_JMPGT \<or> op = op_JMPGTL then Inr (a > b)
     else if op = op_JMPGE \<or> op = op_JMPGEL then Inr (a \<ge> b)
     else if op = op_JMPLT \<or> op = op_JMPLTL then Inr (a < b)
     else if op = op_JMPLE \<or> op = op_JMPLEL then Inr (a \<le> b)
     else Inl (Message ''invalid JMP* opcode''))"

definition exec_jump :: "nat \<Rightarrow> nat \<Rightarrow> bytes \<Rightarrow> ('i, unit) vm_op" where
  "exec_jump i op parameter =
    bindM (getJumpOffset i parameter) (\<lambda>offset.
    bindM (if op = op_JMP \<or> op = op_JMPL then retM True
           else if op \<in> {op_JMPIF, op_JMPIFL, op_JMPIFNOT, op_JMPIFNOTL} then
             bindM popBool (\<lambda>b. retM (b = (op = op_JMPIF \<or> op = op_JMPIFL)))
           else bindM popBigInt (\<lambda>b. bindM popBigInt (\<lambda>a. liftM (getJumpCondition op a b))))
      (\<lambda>cond. whenM cond (Jump i offset)))"

definition exec_CALLA :: "'i vm_env \<Rightarrow> nat \<Rightarrow> ('i, unit) vm_op" where
  "exec_CALLA E i =
    bindM PopItem (\<lambda>it. case it of
       PointerI pos script hsh \<Rightarrow>
         bindM (ScriptHash E i) (\<lambda>own.
           if hsh \<noteq> own then panicM (Message ''invalid script in pointer'') else vm_call i pos)
     | _ \<Rightarrow> panicM RuntimePanic)"

text \<open>\<open>RET\<close> moves the values of a stack of its own to the caller's, bottom first; they stay counted.\<close>

definition return_values :: "'i vm_context \<Rightarrow> ('i, unit) vm_op" where
  "return_values oldCtx =
    bindM (getM (\<lambda>v. (sc_estack (sc_of v oldCtx), vm_Context v))) (\<lambda>(old, cur). case cur of
       None \<Rightarrow> retM ()
     | Some c \<Rightarrow>
         bindM (getM (\<lambda>v. (sc_estack (sc_of v c), stack_at v old))) (\<lambda>(new, vals).
           if old = new then retM ()
           else seqM (panic_if (0 \<le> c_retCount oldCtx \<and> int (length vals) \<noteq> c_retCount oldCtx)
                        (Message ''invalid return values count''))
                  (modM (\<lambda>v. v\<lparr>v_stacks := (v_stacks v)[new := stack_at v new @ vals], v_estack := new\<rparr>))))"

definition exec_RET :: "'i vm_env \<Rightarrow> ('i, unit) vm_op" where
  "exec_RET E =
    bindM (getM vm_Context) (\<lambda>cur. case cur of
       None \<Rightarrow> panicM RuntimePanic
     | Some oldCtx \<Rightarrow>
         seqM (modM (\<lambda>v. v\<lparr>v_istack := butlast (v_istack v)\<rparr>))
         (seqM (return_values oldCtx)
         (seqM (modM (\<lambda>v. if v_istack v = [] then v\<lparr>v_state := stateHalt\<rparr> else v))
               (unloadContext E oldCtx))))"

definition exec_TRY :: "nat \<Rightarrow> nat \<Rightarrow> bytes \<Rightarrow> ('i, unit) vm_op" where
  "exec_TRY i op parameter =
    (let (catchP, finallyP) = GetTryParams op parameter in
     bindM (ctxM i) (\<lambda>c.
     seqM (panic_if (MaxTryNestingDepth \<le> length (c_tryStack c)) (Message ''maximum TRY depth exceeded''))
     (bindM (getJumpOffset i catchP) (\<lambda>cOffset.
      bindM (getJumpOffset i finallyP) (\<lambda>fOffset.
      let ip = int (c_ip c) in
      if cOffset = ip \<and> fOffset = ip then panicM (Message ''invalid offset for TRY*'')
      else
        let eCtx = newExceptionHandlingContext (if cOffset = ip then -1 else cOffset)
                     (if cOffset \<noteq> ip \<and> fOffset = ip then -1 else fOffset)
        in modM (upd_ctx i (\<lambda>c. c\<lparr>c_tryStack := c_tryStack c @ [eCtx]\<rparr>)))))))"

definition exec_ENDTRY :: "nat \<Rightarrow> bytes \<Rightarrow> ('i, unit) vm_op" where
  "exec_ENDTRY i parameter =
    bindM (ctxM i) (\<lambda>c. let ts = c_tryStack c in
    bindM (liftM (Stack_Peek ts 0)) (\<lambda>eCtx.
    seqM (panic_if (eState eCtx = eFinally) (Message ''invalid exception handling state during ENDTRY*''))
    (bindM (getJumpOffset i parameter) (\<lambda>eOffset.
      if HasFinally eCtx then
        seqM (modM (upd_ctx i (\<lambda>c. c\<lparr>c_tryStack := butlast ts @ [eCtx\<lparr>eState := eFinally, EndOffset := eOffset\<rparr>]\<rparr>)))
             (Jump i (FinallyOffset eCtx))
      else
        seqM (modM (upd_ctx i (\<lambda>c. c\<lparr>c_tryStack := butlast ts\<rparr>))) (Jump i eOffset)))))"

definition exec_ENDFINALLY :: "'i vm_env \<Rightarrow> nat \<Rightarrow> ('i, unit) vm_op" where
  "exec_ENDFINALLY E i =
    bindM (getM v_uncaughtException) (\<lambda>exc.
      if exc \<noteq> None then handleException E
      else
        bindM (ctxM i) (\<lambda>c. let ts = c_tryStack c in
          if ts = [] then panicM RuntimePanic
          else seqM (modM (upd_ctx i (\<lambda>c. c\<lparr>c_tryStack := butlast ts\<rparr>))) (Jump i (EndOffset (last ts)))))"

definition exec_flow :: "'i vm_env \<Rightarrow> nat \<Rightarrow> nat \<Rightarrow> bytes \<Rightarrow> ('i, unit) vm_op" where
  "exec_flow E i op parameter =
    (if op = op_NOP then retM ()
     else if op_JMP \<le> op \<and> op \<le> op_JMPLEL then exec_jump i op parameter
     else if op = op_CALL \<or> op = op_CALLL then bindM (getJumpOffset i parameter) (vm_call i)
     else if op = op_CALLA then exec_CALLA E i
     else if op = op_CALLT then e_LoadToken E (of_nat (le_nat parameter))
     else if op = op_ABORT then panicM (Message ''ABORT'')
     else if op = op_ASSERT then bindM popBool (\<lambda>b. panic_if (\<not> b) (Message ''ASSERT failed''))
     else if op = op_THROW then bindM PopItem (vm_throw E)
     else if op = op_TRY \<or> op = op_TRYL then exec_TRY i op parameter
     else if op = op_ENDTRY \<or> op = op_ENDTRYL then exec_ENDTRY i parameter
     else if op = op_ENDFINALLY then exec_ENDFINALLY E i
     else if op = op_RET then exec_RET E
     else if op = op_SYSCALL then
       (case e_SyscallHandler E of
          None \<Rightarrow> panicM (Message ''vm's SyscallHandler is not initialized'')
        | Some f \<Rightarrow> f (of_nat (le_nat parameter)))
     else panicM (Message ''unknown opcode''))"

section \<open>Stack\<close>

definition exec_stack :: "nat \<Rightarrow> ('i, unit) vm_op" where
  "exec_stack op =
    (if op = op_DEPTH then bindM stack_Len pushInt
     else if op = op_DROP then
       bindM stack_Len (\<lambda>l. seqM (panic_if (l < 1) (Message ''stack is too small'')) (seqM PopItem (retM ())))
     else if op = op_NIP then
       bindM stack_Len (\<lambda>l. seqM (panic_if (l < 2) (Message ''no second element found'')) (seqM (RemoveAt 1) (retM ())))
     else if op = op_XDROP then
       bindM popInt (\<lambda>n.
       seqM (panic_if (n < 0) (Message ''invalid length''))
       (bindM stack_Len (\<lambda>l.
        seqM (panic_if (l < n + 1) (Message ''bad index'')) (seqM (RemoveAt (nat n)) (retM ())))))
     else if op = op_CLEAR then stack_Clear
     else if op = op_DUP then bindM (PeekItem 0) PushItem
     else if op = op_OVER then
       bindM stack_Len (\<lambda>l.
       seqM (panic_if (l < 2) (Message ''no second element found'')) (bindM (PeekItem 1) PushItem))
     else if op = op_PICK then
       bindM popInt (\<lambda>n.
       seqM (panic_if (n < 0) (Message ''negative stack item returned''))
       (bindM stack_Len (\<lambda>l.
        seqM (panic_if (l < n + 1) (Message ''no nth element found'')) (bindM (PeekItem n) PushItem))))
     else if op = op_TUCK then
       bindM stack_Len (\<lambda>l.
       seqM (panic_if (l < 2) (Message ''too short stack to TUCK'')) (bindM (PeekItem 0) (\<lambda>a. InsertAt a 2)))
     else if op = op_SWAP then stackM (\<lambda>xs. Stack_Swap xs 1 0)
     else if op = op_ROT then stackM (\<lambda>xs. Stack_Roll xs 2)
     else if op = op_ROLL then bindM popInt (\<lambda>n. stackM (\<lambda>xs. Stack_Roll xs n))
     else if op = op_REVERSE3 then stackM (\<lambda>xs. Stack_ReverseTop xs 3)
     else if op = op_REVERSE4 then stackM (\<lambda>xs. Stack_ReverseTop xs 4)
     else if op = op_REVERSEN then bindM popInt (\<lambda>n. stackM (\<lambda>xs. Stack_ReverseTop xs n))
     else panicM (Message ''unknown opcode''))"

section \<open>Slots\<close>

datatype slotKind = StaticSlot | LocalSlot | ArgSlot

definition get_slot :: "slotKind \<Rightarrow> nat \<Rightarrow> 'i vm \<Rightarrow> 'i slot" where
  "get_slot k i v =
    (if i < length (v_istack v) then
       let c = v_istack v ! i in
       case k of StaticSlot \<Rightarrow> static_of v (c_sc c) | LocalSlot \<Rightarrow> c_local c | ArgSlot \<Rightarrow> c_arguments c
     else None)"

definition set_slot :: "slotKind \<Rightarrow> nat \<Rightarrow> 'i slot \<Rightarrow> 'i vm \<Rightarrow> 'i vm" where
  "set_slot k i s v = (case k of
      StaticSlot \<Rightarrow> upd_sc (c_sc (v_istack v ! i)) (\<lambda>sc. sc\<lparr>sc_static := s\<rparr>) v
    | LocalSlot \<Rightarrow> upd_ctx i (\<lambda>c. c\<lparr>c_local := s\<rparr>) v
    | ArgSlot \<Rightarrow> upd_ctx i (\<lambda>c. c\<lparr>c_arguments := s\<rparr>) v)"

definition slot_init :: "slotKind \<Rightarrow> nat \<Rightarrow> nat \<Rightarrow> ('i, unit) vm_op" where
  "slot_init k i n =
    bindM (getM (get_slot k i)) (\<lambda>s. bindM (getM v_refs) (\<lambda>r.
      bindM (liftM (Slot_init s n r)) (\<lambda>(s', r'). modM (\<lambda>v. (set_slot k i s' v)\<lparr>v_refs := r'\<rparr>))))"

definition initFromStack :: "slotKind \<Rightarrow> nat \<Rightarrow> nat \<Rightarrow> ('i, unit) vm_op" where
  "initFromStack k i n =
    bindM (getM (get_slot k i)) (\<lambda>s.
    seqM (panic_if (s \<noteq> None) (Message ''already initialized''))
    (seqM (modM (set_slot k i (Some (replicate n None))))
      (forM [0..<n] (\<lambda>j.
        bindM popNoRef (\<lambda>it.
          modM (\<lambda>v. set_slot k i (map_option (\<lambda>xs. xs[j := Some it]) (get_slot k i v)) v))))))"

definition slot_store :: "slotKind \<Rightarrow> nat \<Rightarrow> nat \<Rightarrow> ('i, unit) vm_op" where
  "slot_store k i j =
    bindM (getM (get_slot k i)) (\<lambda>s. case s of
       None \<Rightarrow> panicM (Message ''slot is not initialized'')
     | Some xs \<Rightarrow>
         seqM (panic_if (length xs \<le> j) (Message ''slot index is out of range''))
         (bindM popNoRef (\<lambda>it.
          seqM (hrM (ref_Remove_nil (xs ! j))) (modM (set_slot k i (Some (xs[j := Some it])))))))"

definition slot_load :: "slotKind \<Rightarrow> nat \<Rightarrow> nat \<Rightarrow> ('i, unit) vm_op" where
  "slot_load k i j = bindM (getM (get_slot k i)) (\<lambda>s. bindM (liftM (Slot_Get s j)) PushItem)"

definition param_byte :: "bytes \<Rightarrow> nat \<Rightarrow> nat" where
  "param_byte parameter n = unat (parameter ! n)"

definition exec_slot :: "nat \<Rightarrow> nat \<Rightarrow> bytes \<Rightarrow> ('i, unit) vm_op" where
  "exec_slot i op parameter =
    (if op = op_INITSSLOT then
       seqM (panic_if (param_byte parameter 0 = 0) (Message ''zero argument''))
            (slot_init StaticSlot i (param_byte parameter 0))
     else if op = op_INITSLOT then
       bindM (getM (\<lambda>v. (get_slot LocalSlot i v, get_slot ArgSlot i v))) (\<lambda>(l, a).
       seqM (panic_if (l \<noteq> None \<or> a \<noteq> None) (Message ''already initialized''))
       (seqM (panic_if (param_byte parameter 0 = 0 \<and> param_byte parameter 1 = 0) (Message ''zero argument''))
       (seqM (whenM (0 < param_byte parameter 0) (slot_init LocalSlot i (param_byte parameter 0)))
             (whenM (0 < param_byte parameter 1) (initFromStack ArgSlot i (param_byte parameter 1))))))
     else if op_LDSFLD0 \<le> op \<and> op \<le> op_LDSFLD6 then slot_load StaticSlot i (op - op_LDSFLD0)
     else if op = op_LDSFLD then slot_load StaticSlot i (param_byte parameter 0)
     else if op_STSFLD0 \<le> op \<and> op \<le> op_STSFLD6 then slot_store StaticSlot i (op - op_STSFLD0)
     else if op = op_STSFLD then slot_store StaticSlot i (param_byte parameter 0)
     else if op_LDLOC0 \<le> op \<and> op \<le> op_LDLOC6 then slot_load LocalSlot i (op - op_LDLOC0)
     else if op = op_LDLOC then slot_load LocalSlot i (param_byte parameter 0)
     else if op_STLOC0 \<le> op \<and> op \<le> op_STLOC6 then slot_store LocalSlot i (op - op_STLOC0)
     else if op = op_STLOC then slot_store LocalSlot i (param_byte parameter 0)
     else if op_LDARG0 \<le> op \<and> op \<le> op_LDARG6 then slot_load ArgSlot i (op - op_LDARG0)
     else if op = op_LDARG then slot_load ArgSlot i (param_byte parameter 0)
     else if op_STARG0 \<le> op \<and> op \<le> op_STARG6 then slot_store ArgSlot i (op - op_STARG0)
     else if op = op_STARG then slot_store ArgSlot i (param_byte parameter 0)
     else panicM (Message ''unknown opcode''))"

section \<open>Splice\<close>

definition exec_MEMCPY :: "('i, unit) vm_op" where
  "exec_MEMCPY =
    bindM popInt (\<lambda>n.
    seqM (panic_if (n < 0) (Message ''invalid size''))
    (bindM popInt (\<lambda>si.
     seqM (panic_if (si < 0) (Message ''invalid source index''))
     (bindM popBytes (\<lambda>src.
      seqM (panic_if (int (length src) < si + n) (Message ''size is too big''))
      (bindM popInt (\<lambda>di.
       seqM (panic_if (di < 0) (Message ''invalid destination index''))
       (bindM PopItem (\<lambda>it. case it of
          BufferP a \<Rightarrow>
            bindM (getM (\<lambda>v. raw (v_heap v) a)) (\<lambda>dst.
            seqM (panic_if (int (length dst) < di + n) (Message ''size is too big''))
            (modM (\<lambda>v. v\<lparr>v_heap :=
               put_content (v_heap v) a (Raw (go_copy dst (nat di) (take (nat n) (drop (nat si) src))))\<rparr>)))
        | _ \<Rightarrow> panicM RuntimePanic)))))))))"

definition exec_splice :: "nat \<Rightarrow> ('i, unit) vm_op" where
  "exec_splice op =
    (if op = op_NEWBUFFER then
       bindM popInt (\<lambda>n.
       seqM (panic_if (n < 0 \<or> int MaxSize < n) (Message ''invalid size'')) (pushBuffer (replicate (nat n) 0)))
     else if op = op_MEMCPY then exec_MEMCPY
     else if op = op_CAT then
       bindM popBytes (\<lambda>b. bindM popBytes (\<lambda>a.
       seqM (panic_if (MaxSize < length a + length b) (Message ''too big item'')) (pushBuffer (a @ b))))
     else if op = op_SUBSTR then
       bindM popInt (\<lambda>l.
       seqM (panic_if (l < 0) (Message ''negative length''))
       (bindM popInt (\<lambda>ofs.
        seqM (panic_if (ofs < 0) (Message ''negative index''))
        (bindM popBytes (\<lambda>s.
         seqM (panic_if (int (length s) < l + ofs) (Message ''invalid offset''))
              (pushBuffer (take (nat l) (drop (nat ofs) s))))))))
     else if op = op_LEFT then
       bindM popInt (\<lambda>l.
       seqM (panic_if (l < 0) (Message ''negative length''))
       (bindM popBytes (\<lambda>s.
        seqM (panic_if (int (length s) < l) (Message ''size is too big'')) (pushBuffer (take (nat l) s)))))
     else if op = op_RIGHT then
       bindM popInt (\<lambda>l.
       seqM (panic_if (l < 0) (Message ''negative length''))
       (bindM popBytes (\<lambda>s.
        seqM (panic_if (int (length s) < l) RuntimePanic) (pushBuffer (drop (length s - nat l) s)))))
     else panicM (Message ''unknown opcode''))"

section \<open>Bitwise and numeric operations\<close>

definition unary :: "(int \<Rightarrow> int) \<Rightarrow> ('i, unit) vm_op" where
  "unary f = bindM popBigInt (\<lambda>x. pushInt (f x))"

text \<open>The second operand is on top.\<close>

definition binary :: "(int \<Rightarrow> int \<Rightarrow> int) \<Rightarrow> ('i, unit) vm_op" where
  "binary f = bindM popBigInt (\<lambda>b. bindM popBigInt (\<lambda>a. pushInt (f a b)))"

definition compareM :: "(int \<Rightarrow> int \<Rightarrow> bool) \<Rightarrow> ('i, unit) vm_op" where
  "compareM f = bindM popBigInt (\<lambda>b. bindM popBigInt (\<lambda>a. pushBool (f a b)))"

text \<open>\<open>LT\<close>, \<open>LE\<close>, \<open>GT\<close> and \<open>GE\<close> are false when an operand is \<open>Null\<close>.\<close>

definition compare_null :: "(int \<Rightarrow> int \<Rightarrow> bool) \<Rightarrow> ('i, unit) vm_op" where
  "compare_null f =
    bindM PopItem (\<lambda>eb. bindM PopItem (\<lambda>ea.
      if ea = NullI \<or> eb = NullI then pushBool False
      else bindM (liftM (TryInteger ea)) (\<lambda>a. bindM (liftM (TryInteger eb)) (\<lambda>b. pushBool (f a b)))))"

definition exec_bit :: "'i vm_env \<Rightarrow> nat \<Rightarrow> ('i, unit) vm_op" where
  "exec_bit E op =
    (if op = op_INVERT then unary (\<lambda>x. NOT x)
     else if op = op_AND then binary (\<lambda>a b. b AND a)
     else if op = op_OR then binary (\<lambda>a b. b OR a)
     else if op = op_XOR then binary (\<lambda>a b. b XOR a)
     else if op = op_EQUAL \<or> op = op_NOTEQUAL then
       bindM stack_Len (\<lambda>l.
       seqM (panic_if (l < 2) (Message ''need a pair of elements on the stack''))
       (bindM PopItem (\<lambda>b. bindM PopItem (\<lambda>a. bindM (getM v_heap) (\<lambda>h.
        bindM (liftM (item_Equals (e_interopEquals E) h a b)) (\<lambda>eq. pushBool (eq = (op = op_EQUAL))))))))
     else panicM (Message ''unknown opcode''))"

definition exec_POW :: "('i, unit) vm_op" where
  "exec_POW =
    bindM popBigInt (\<lambda>e. bindM popBigInt (\<lambda>a.
      if e < 0 \<or> maxSHLArg < e then panicM (Message ''invalid exponent'') else pushInt (a ^ nat e)))"

definition exec_MODPOW :: "('i, unit) vm_op" where
  "exec_MODPOW =
    bindM popBigInt (\<lambda>modulus. bindM popBigInt (\<lambda>exponent. bindM popBigInt (\<lambda>base.
      if exponent < -1 then panicM (Message ''exponent should be >= -1'')
      else if exponent = -1 then
        (if base \<le> 0 then panicM (Message ''invalid base'')
         else if modulus < 2 then panicM (Message ''invalid modulus'')
         else case ModInverse base modulus of
           None \<Rightarrow> panicM (Message ''base and modulus are not relatively prime'')
         | Some r \<Rightarrow> pushInt r)
      else if modulus = 0 then panicM (Message ''zero modulus'')
      else
        let r = mod_pow base (nat exponent) \<bar>modulus\<bar> in
        pushInt (if base < 0 \<and> odd exponent \<and> r \<noteq> 0 then r - \<bar>modulus\<bar> else r))))"

definition exec_shift :: "'i vm_env \<Rightarrow> nat \<Rightarrow> ('i, unit) vm_op" where
  "exec_shift E op =
    bindM popInt (\<lambda>b.
      if b < 0 \<or> maxSHLArg < b then panicM (Message ''operand must be between 0 and 256'')
      else if \<not> e_Gorgon E \<and> b = 0 then retM ()
      else bindM popBigInt (\<lambda>a. pushInt (if op = op_SHL then push_bit (nat b) a else drop_bit (nat b) a)))"

definition exec_arith :: "'i vm_env \<Rightarrow> nat \<Rightarrow> ('i, unit) vm_op" where
  "exec_arith E op =
    (if op = op_SIGN then unary sgn
     else if op = op_ABS then unary abs
     else if op = op_NEGATE then unary uminus
     else if op = op_INC then unary (\<lambda>x. x + 1)
     else if op = op_DEC then unary (\<lambda>x. x - 1)
     else if op = op_ADD then binary (\<lambda>a b. a + b)
     else if op = op_SUB then binary (\<lambda>a b. a - b)
     else if op = op_MUL then binary (\<lambda>a b. a * b)
     else if op = op_DIV then
       bindM popBigInt (\<lambda>b. bindM popBigInt (\<lambda>a. if b = 0 then panicM RuntimePanic else pushInt (a sdiv b)))
     else if op = op_MOD then
       bindM popBigInt (\<lambda>b. bindM popBigInt (\<lambda>a. if b = 0 then panicM RuntimePanic else pushInt (a smod b)))
     else if op = op_POW then exec_POW
     else if op = op_SQRT then
       bindM popBigInt (\<lambda>a. if a < 0 then panicM (Message ''negative value'') else pushInt (int (int_sqrt (nat a))))
     else if op = op_MODMUL then
       bindM popBigInt (\<lambda>m.
       seqM (panic_if (m = 0) (Message ''zero modulus''))
       (bindM popBigInt (\<lambda>x2. bindM popBigInt (\<lambda>x1. pushInt ((x1 * x2) smod m)))))
     else if op = op_MODPOW then exec_MODPOW
     else if op = op_SHL \<or> op = op_SHR then exec_shift E op
     else panicM (Message ''unknown opcode''))"

definition exec_logic :: "nat \<Rightarrow> ('i, unit) vm_op" where
  "exec_logic op =
    (if op = op_NOT then bindM popBool (\<lambda>x. pushBool (\<not> x))
     else if op = op_BOOLAND then bindM popBool (\<lambda>b. bindM popBool (\<lambda>a. pushBool (a \<and> b)))
     else if op = op_BOOLOR then bindM popBool (\<lambda>b. bindM popBool (\<lambda>a. pushBool (a \<or> b)))
     else if op = op_NZ then bindM popBigInt (\<lambda>x. pushBool (x \<noteq> 0))
     else if op = op_NUMEQUAL then compareM (\<lambda>a b. a = b)
     else if op = op_NUMNOTEQUAL then compareM (\<lambda>a b. a \<noteq> b)
     else if op = op_LT then compare_null (\<lambda>a b. a < b)
     else if op = op_LE then compare_null (\<lambda>a b. a \<le> b)
     else if op = op_GT then compare_null (\<lambda>a b. a > b)
     else if op = op_GE then compare_null (\<lambda>a b. a \<ge> b)
     else if op = op_MIN then binary (\<lambda>a b. if a > b then b else a)
     else if op = op_MAX then binary (\<lambda>a b. if a < b then b else a)
     else if op = op_WITHIN then
       bindM popBigInt (\<lambda>b. bindM popBigInt (\<lambda>a. bindM popBigInt (\<lambda>x. pushBool (a \<le> x \<and> x < b))))
     else panicM (Message ''unknown opcode''))"

end
