(* ===== verification/VmRun.thy ===== *)
theory VmRun
  imports VmExec
begin

text \<open>
  The instructions on arrays, structs and maps of \<open>execute\<close>, the switch itself, and the loops that drive it: \<open>step\<close>, \<open>Run\<close> and the
  stepping of the debugger, all of \<open>pkg/vm/vm.go\<close>.
\<close>

section \<open>Making and taking apart compound items\<close>

definition heap_modM :: "('i heap \<Rightarrow> 'i heap) \<Rightarrow> ('i, unit) vm_op" where
  "heap_modM f = modM (\<lambda>v. v\<lparr>v_heap := f (v_heap v)\<rparr>)"

text \<open>\<open>NewArray\<close> or \<open>NewStruct\<close> with a count of one.\<close>

definition new_counted :: "bool \<Rightarrow> 'i item list \<Rightarrow> ('i, 'i item) vm_op" where
  "new_counted struct xs =
    bindM (heapM (\<lambda>h. Inr (alloc h (Items xs)))) (\<lambda>a.
    seqM (heap_modM (\<lambda>h. IncRC h a)) (retM (if struct then StructP a else ArrayP a)))"

definition makeArrayOfType :: "nat \<Rightarrow> si_type \<Rightarrow> vm_panic + 'i item list" where
  "makeArrayOfType n typ =
    (if \<not> Type_IsValid typ then Inl (Message ''invalid stack item type'')
     else Inr (replicate n
       (if typ = BooleanT then BoolI False else if typ = IntegerT then IntI 0
        else if typ = ByteArrayT then BytesI [] else NullI)))"

definition exec_NEWARRAY :: "nat \<Rightarrow> bytes \<Rightarrow> ('i, unit) vm_op" where
  "exec_NEWARRAY op parameter =
    bindM popInt (\<lambda>n.
    seqM (panic_if (n < 0 \<or> MaxStackSize < n) (Message ''wrong number of elements''))
    (bindM (liftM (makeArrayOfType (nat n) (if op = op_NEWARRAYT then parameter ! 0 else AnyT))) (\<lambda>xs.
     bindM (new_counted (op = op_NEWSTRUCT) xs) (\<lambda>res. pushItemCounted res (n + 1)))))"

definition cloneIfStruct :: "'i item \<Rightarrow> ('i, 'i item \<times> bool) vm_op" where
  "cloneIfStruct it = (case as_Struct it of
      Some a \<Rightarrow> bindM (heapM (\<lambda>h. Struct_Clone h a)) (\<lambda>c. retM (c, True))
    | None \<Rightarrow> retM (it, False))"

text \<open>The element switches on \<open>*Array\<close> and \<open>*Struct\<close> alike.\<close>

definition as_seq :: "'i item \<Rightarrow> addr option" where
  "as_seq it = (case it of ArrayP a \<Rightarrow> Some a | StructP a \<Rightarrow> Some a | _ \<Rightarrow> None)"

definition as_Map :: "'i item \<Rightarrow> addr option" where
  "as_Map it = (case it of MapP a \<Rightarrow> Some a | _ \<Rightarrow> None)"

definition as_Buffer :: "'i item \<Rightarrow> addr option" where
  "as_Buffer it = (case it of BufferP a \<Rightarrow> Some a | _ \<Rightarrow> None)"

definition exec_APPEND :: "('i, unit) vm_op" where
  "exec_APPEND =
    bindM PopItem (\<lambda>itemElem. bindM PopItem (\<lambda>arrElem. bindM (cloneIfStruct itemElem) (\<lambda>(val, _).
      case as_seq arrElem of
        None \<Rightarrow> panicM (Message ''APPEND: not of underlying type Array'')
      | Some a \<Rightarrow>
          bindM (getM (\<lambda>v. IsReferenced (v_heap v) a)) (\<lambda>isReferenced.
          seqM (heapM (\<lambda>h. map_sum id (Pair ()) (seq_Append h a val))) (whenM isReferenced (refs_Add val))))))"

definition exec_PACKMAP :: "('i, unit) vm_op" where
  "exec_PACKMAP =
    bindM popInt (\<lambda>n. bindM stack_Len (\<lambda>l.
    seqM (panic_if (n < 0 \<or> l < n * 2) (Message ''invalid length''))
    (bindM (heapM (\<lambda>h. Inr (alloc h (Elems [] Map.empty)))) (\<lambda>a.
     seqM (forM [0..<nat n] (\<lambda>_.
             bindM popNoRef (\<lambda>key. bindM popNoRef (\<lambda>val.
             bindM (heapM (\<lambda>h. Map_Add h a key val)) (\<lambda>old. case old of
                None \<Rightarrow> retM ()
              | Some it \<Rightarrow> seqM (refs_plus (-1)) (refs_Remove it))))))
     (seqM (heap_modM (\<lambda>h. IncRC h a)) (pushItemCounted (MapP a) 1))))))"

definition exec_PACK :: "nat \<Rightarrow> ('i, unit) vm_op" where
  "exec_PACK op =
    bindM popInt (\<lambda>n. bindM stack_Len (\<lambda>l.
    seqM (panic_if (n < 0 \<or> l < n) (Message ''OPACK: invalid length''))
    (bindM (mapM [0..<nat n] (\<lambda>_. popNoRef)) (\<lambda>xs.
     bindM (new_counted (op = op_PACKSTRUCT) xs) (\<lambda>res. pushItemCounted res 1)))))"

definition exec_UNPACK :: "('i, unit) vm_op" where
  "exec_UNPACK =
    bindM popNoRef (\<lambda>e.
    seqM (refs_plus (-1))
    (case compound e of
       None \<Rightarrow> panicM (Message ''element is not an array/struct/map'')
     | Some a \<Rightarrow>
         seqM (heap_modM (\<lambda>h. DecRC h a))
         (bindM (getM (\<lambda>v. (IsReferenced (v_heap v) a, items (v_heap v) a, elems (v_heap v) a))) (\<lambda>(isReferenced, arr, m).
           seqM (case as_Map e of
                   Some _ \<Rightarrow>
                     forM (rev m) (\<lambda>(k, x).
                       if isReferenced then seqM (PushItem x) (pushItemCounted k 1)
                       else seqM (pushItemCounted x 0) (pushItemCounted k 0))
                 | None \<Rightarrow> forM (rev arr) (\<lambda>x. if isReferenced then PushItem x else pushItemCounted x 0))
                (pushInt (int (if as_Map e = None then length arr else length m)))))))"

definition exec_KEYS :: "('i, unit) vm_op" where
  "exec_KEYS =
    bindM stack_Len (\<lambda>l.
    seqM (panic_if (l = 0) (Message ''no argument''))
    (bindM PopItem (\<lambda>it. case as_Map it of
       None \<Rightarrow> panicM (Message ''not a Map'')
     | Some a \<Rightarrow>
         bindM (getM (\<lambda>v. elems (v_heap v) a)) (\<lambda>m.
         bindM (new_counted False (map fst m)) (\<lambda>res. pushItemCounted res (int (length m) + 1))))))"

definition cpValues :: "'i item list \<Rightarrow> bool \<Rightarrow> ('i, 'i item list) vm_op" where
  "cpValues src isReferenced =
    mapM src (\<lambda>it.
      bindM (cloneIfStruct it) (\<lambda>(cloned, isStruct).
      seqM (if isReferenced then refs_Add cloned
            else whenM isStruct (seqM (refs_Remove it) (refs_Add cloned)))
           (retM cloned)))"

definition exec_VALUES :: "('i, unit) vm_op" where
  "exec_VALUES =
    bindM stack_Len (\<lambda>l.
    seqM (panic_if (l = 0) (Message ''no argument''))
    (bindM popNoRef (\<lambda>it. case compound it of
       None \<Rightarrow> panicM (Message ''not a Map, Array or Struct'')
     | Some a \<Rightarrow>
         seqM (heap_modM (\<lambda>h. DecRC h a))
         (bindM (getM (\<lambda>v. (IsReferenced (v_heap v) a, items (v_heap v) a, elems (v_heap v) a))) (\<lambda>(isReferenced, arr, m).
          seqM (whenM (as_Map it \<noteq> None \<and> \<not> isReferenced) (refs_plus (- int (length m))))
          (bindM (cpValues (if as_Map it = None then arr else map snd m) isReferenced) (\<lambda>xs.
           bindM (new_counted False xs) (\<lambda>res. pushItemCounted res 0))))))))"

section \<open>Reading and writing elements\<close>

definition validateMapKey :: "'i item \<Rightarrow> ('i, unit) vm_op" where
  "validateMapKey key = (case IsValidMapKey key of Some e \<Rightarrow> panicM (ItemErr e) | None \<Rightarrow> retM ())"

text \<open>The message of an index that is out of range, in decimal.\<close>

fun nat_decimal :: "nat \<Rightarrow> string" where
  "nat_decimal n = (if n < 10 then [char_of (48 + n)] else nat_decimal (n div 10) @ [char_of (48 + n mod 10)])"

declare nat_decimal.simps [simp del]

definition int_decimal :: "int \<Rightarrow> string" where
  "int_decimal i = (if i < 0 then ''-'' @ nat_decimal (nat (- i)) else nat_decimal (nat i))"

definition str_bytes :: "string \<Rightarrow> bytes" where
  "str_bytes s = map (\<lambda>c. of_nat (of_char c)) s"

definition out_of_range :: "int \<Rightarrow> 'i item" where
  "out_of_range i = BytesI (str_bytes (''The value '' @ int_decimal i @ '' is out of range.''))"

definition keyInt :: "'i item \<Rightarrow> ('i, int) vm_op" where
  "keyInt key = bindM (liftM (TryInteger key)) (\<lambda>n. liftM (toInt n))"

definition exec_PICKITEM :: "'i vm_env \<Rightarrow> ('i, unit) vm_op" where
  "exec_PICKITEM E =
    bindM PopItem (\<lambda>key. seqM (validateMapKey key)
    (bindM PopItem (\<lambda>obj. case (as_seq obj, as_Map obj) of
       (Some a, _) \<Rightarrow>
         bindM (keyInt key) (\<lambda>idx. bindM (getM (\<lambda>v. items (v_heap v) a)) (\<lambda>arr.
           if idx < 0 \<or> int (length arr) \<le> idx then vm_throw E (out_of_range idx) else PushItem (arr ! nat idx)))
     | (None, Some a) \<Rightarrow>
         bindM (getM v_heap) (\<lambda>h. bindM (liftM (Map_Index h a key)) (\<lambda>idx. case idx of
            None \<Rightarrow> vm_throw E (BytesI (str_bytes ''Key not found in Map''))
          | Some j \<Rightarrow> if length (elems h a) \<le> j then panicM RuntimePanic else PushItem (snd (elems h a ! j))))
     | (None, None) \<Rightarrow>
         bindM (keyInt key) (\<lambda>idx. bindM (bytesM obj) (\<lambda>arr.
           if idx < 0 \<or> int (length arr) \<le> idx then vm_throw E (out_of_range idx)
           else pushInt (uint (arr ! nat idx)))))))"

definition set_seq_item :: "'i vm_env \<Rightarrow> addr \<Rightarrow> 'i item \<Rightarrow> 'i item \<Rightarrow> ('i, unit) vm_op" where
  "set_seq_item E a key cloned =
    bindM (getM (\<lambda>v. items (v_heap v) a)) (\<lambda>arr. bindM (keyInt key) (\<lambda>idx.
      if idx < 0 \<or> int (length arr) \<le> idx then seqM (refs_Remove cloned) (vm_throw E (out_of_range idx))
      else
        bindM (getM (\<lambda>v. (IsReadOnly (v_heap v) a, IsReferenced (v_heap v) a))) (\<lambda>(isReadOnly, isReferenced).
        seqM (panic_if isReadOnly (ItemErr ErrReadOnly))
        (seqM (if isReferenced then refs_Remove (arr ! nat idx) else refs_Remove cloned)
              (heap_modM (\<lambda>h. put_content h a (Items (arr[nat idx := cloned]))))))))"

definition set_map_item :: "addr \<Rightarrow> 'i item \<Rightarrow> 'i item \<Rightarrow> ('i, unit) vm_op" where
  "set_map_item a key cloned =
    bindM (getM v_heap) (\<lambda>h.
    seqM (panic_if (IsReadOnly h a) (ItemErr ErrReadOnly))
    (seqM (if IsReferenced h a then
             bindM (liftM (Map_Index h a key)) (\<lambda>idx. case idx of
                Some j \<Rightarrow> if length (elems h a) \<le> j then panicM RuntimePanic else refs_Remove (snd (elems h a ! j))
              | None \<Rightarrow> refs_Add key)
           else refs_Remove cloned)
          (seqM (heapM (\<lambda>h. Map_Add h a key cloned)) (retM ()))))"

definition set_buffer_item :: "'i vm_env \<Rightarrow> addr \<Rightarrow> 'i item \<Rightarrow> 'i item \<Rightarrow> ('i, unit) vm_op" where
  "set_buffer_item E a key cloned =
    seqM (refs_Remove cloned)
    (bindM (keyInt key) (\<lambda>idx. bindM (getM (\<lambda>v. raw (v_heap v) a)) (\<lambda>bs.
       if idx < 0 \<or> int (length bs) \<le> idx then vm_throw E (out_of_range idx)
       else case TryInteger cloned of
         Inl _ \<Rightarrow> panicM RuntimePanic
       | Inr n \<Rightarrow>
           bindM (liftM (toInt n)) (\<lambda>b.
           seqM (panic_if (b < -128 \<or> 255 < b) (Message ''invalid value''))
                (heap_modM (\<lambda>h. put_content h a (Raw (bs[nat idx := of_int b]))))))))"

definition exec_SETITEM :: "'i vm_env \<Rightarrow> ('i, unit) vm_op" where
  "exec_SETITEM E =
    bindM popNoRef (\<lambda>it. bindM (cloneIfStruct it) (\<lambda>(cloned, isStruct).
    seqM (whenM isStruct (seqM (refs_Remove it) (refs_Add cloned)))
    (bindM PopItem (\<lambda>key. seqM (validateMapKey key)
     (bindM PopItem (\<lambda>obj. case (as_seq obj, as_Map obj, as_Buffer obj) of
        (Some a, _, _) \<Rightarrow> set_seq_item E a key cloned
      | (None, Some a, _) \<Rightarrow> set_map_item a key cloned
      | (None, None, Some a) \<Rightarrow> set_buffer_item E a key cloned
      | _ \<Rightarrow> panicM (Message ''SETITEM: invalid item type'')))))))"

definition exec_REVERSEITEMS :: "('i, unit) vm_op" where
  "exec_REVERSEITEMS =
    bindM PopItem (\<lambda>it. case (as_seq it, as_Buffer it) of
       (Some a, _) \<Rightarrow>
         bindM (getM v_heap) (\<lambda>h.
         seqM (panic_if (IsReadOnly h a) (ItemErr ErrReadOnly))
              (heap_modM (\<lambda>h. put_content h a (Items (rev (items h a))))))
     | (None, Some a) \<Rightarrow> heap_modM (\<lambda>h. put_content h a (Raw (rev (raw h a))))
     | _ \<Rightarrow> panicM (Message ''invalid item type''))"

definition exec_REMOVE :: "('i, unit) vm_op" where
  "exec_REMOVE =
    bindM PopItem (\<lambda>key. seqM (validateMapKey key)
    (bindM PopItem (\<lambda>elem. case (as_seq elem, as_Map elem) of
       (Some a, _) \<Rightarrow>
         bindM (getM (\<lambda>v. items (v_heap v) a)) (\<lambda>arr. bindM (keyInt key) (\<lambda>k.
         seqM (panic_if (k < 0 \<or> int (length arr) \<le> k) (Message ''REMOVE: invalid index''))
         (bindM (getM (\<lambda>v. IsReferenced (v_heap v) a)) (\<lambda>isReferenced.
          seqM (whenM isReferenced (refs_Remove (arr ! nat k)))
               (heapM (\<lambda>h. map_sum id (Pair ()) (seq_Remove h a (nat k))))))))
     | (None, Some a) \<Rightarrow>
         bindM (getM v_heap) (\<lambda>h. bindM (liftM (Map_Index h a key)) (\<lambda>idx. case idx of
            None \<Rightarrow> retM ()
          | Some j \<Rightarrow>
              seqM (whenM (IsReferenced h a)
                      (if length (elems h a) \<le> j then panicM RuntimePanic
                       else seqM (refs_Remove (fst (elems h a ! j))) (refs_Remove (snd (elems h a ! j)))))
                   (heapM (\<lambda>h. map_sum id (Pair ()) (Map_Drop h a j)))))
     | (None, None) \<Rightarrow> panicM (Message ''REMOVE: invalid type''))))"

definition exec_CLEARITEMS :: "('i, unit) vm_op" where
  "exec_CLEARITEMS =
    bindM PopItem (\<lambda>elem. case compound elem of
       None \<Rightarrow> panicM (Message ''CLEARITEMS: invalid type'')
     | Some a \<Rightarrow>
         bindM (getM v_heap) (\<lambda>h.
         seqM (panic_if (IsReadOnly h a) (ItemErr ErrReadOnly))
         (seqM (heapM (\<lambda>h. map_sum id (Pair ()) (if as_Map elem = None then seq_Clear h a else Map_Clear h a)))
         (bindM (getM (\<lambda>v. IsReferenced (v_heap v) a)) (\<lambda>isReferenced.
            whenM isReferenced (forM (children h a) refs_Remove))))))"

definition exec_POPITEM :: "('i, unit) vm_op" where
  "exec_POPITEM =
    bindM PopItem (\<lambda>arr. case as_seq arr of
       None \<Rightarrow> panicM RuntimePanic
     | Some a \<Rightarrow>
         bindM (getM (\<lambda>v. items (v_heap v) a)) (\<lambda>xs.
           if xs = [] then panicM RuntimePanic
           else
             seqM (PushItem (last xs))
             (seqM (heapM (\<lambda>h. map_sum id (Pair ()) (seq_Remove h a (length xs - 1))))
             (bindM (getM (\<lambda>v. IsReferenced (v_heap v) a)) (\<lambda>isReferenced.
                whenM isReferenced (refs_Remove (last xs)))))))"

definition exec_SIZE :: "('i, unit) vm_op" where
  "exec_SIZE =
    bindM PopItem (\<lambda>elem. case (as_seq elem, as_Map elem) of
       (Some a, _) \<Rightarrow> bindM (getM (\<lambda>v. items (v_heap v) a)) (\<lambda>xs. pushInt (int (length xs)))
     | (None, Some a) \<Rightarrow> bindM (getM (\<lambda>v. elems (v_heap v) a)) (\<lambda>m. pushInt (int (length m)))
     | (None, None) \<Rightarrow> bindM (bytesM elem) (\<lambda>bs. pushInt (int (length bs))))"

definition exec_HASKEY :: "'i vm_env \<Rightarrow> ('i, unit) vm_op" where
  "exec_HASKEY E =
    bindM stack_Len (\<lambda>l.
    seqM (panic_if (l < 2) (Message ''not enough arguments''))
    (bindM PopItem (\<lambda>key. seqM (validateMapKey key)
    (bindM PopItem (\<lambda>c.
       let has = (\<lambda>len. bindM (keyInt key) (\<lambda>idx.
                   seqM (panic_if (idx < 0 \<or> (e_Gorgon E \<and> int MaxSize \<le> idx)) (Message ''negative or too large index''))
                   (bindM (getM (\<lambda>v. int (len (v_heap v)))) (\<lambda>l. pushBool (idx < l)))))
       in case (as_seq c, as_Map c, as_Buffer c, as_ByteArray c) of
         (Some a, _, _, _) \<Rightarrow> has (\<lambda>h. length (items h a))
       | (None, Some a, _, _) \<Rightarrow>
           bindM (getM v_heap) (\<lambda>h. bindM (liftM (Map_Has h a key)) pushBool)
       | (None, None, Some a, _) \<Rightarrow> has (\<lambda>h. length (raw h a))
       | (None, None, None, Some bs) \<Rightarrow> has (\<lambda>h. length bs)
       | _ \<Rightarrow> panicM (Message ''wrong collection type''))))))"

definition exec_compound :: "'i vm_env \<Rightarrow> nat \<Rightarrow> bytes \<Rightarrow> ('i, unit) vm_op" where
  "exec_compound E op parameter =
    (if op = op_PACKMAP then exec_PACKMAP
     else if op = op_PACKSTRUCT \<or> op = op_PACK then exec_PACK op
     else if op = op_UNPACK then exec_UNPACK
     else if op = op_NEWARRAY0 then bindM (heapM (\<lambda>h. Inr (NewArray h []))) PushItem
     else if op = op_NEWARRAY \<or> op = op_NEWARRAYT \<or> op = op_NEWSTRUCT then exec_NEWARRAY op parameter
     else if op = op_NEWSTRUCT0 then bindM (heapM (\<lambda>h. Inr (NewStruct h []))) PushItem
     else if op = op_NEWMAP then bindM (heapM (\<lambda>h. Inr (NewMap h))) PushItem
     else if op = op_SIZE then exec_SIZE
     else if op = op_HASKEY then exec_HASKEY E
     else if op = op_KEYS then exec_KEYS
     else if op = op_VALUES then exec_VALUES
     else if op = op_PICKITEM then exec_PICKITEM E
     else if op = op_APPEND then exec_APPEND
     else if op = op_SETITEM then exec_SETITEM E
     else if op = op_REVERSEITEMS then exec_REVERSEITEMS
     else if op = op_REMOVE then exec_REMOVE
     else if op = op_CLEARITEMS then exec_CLEARITEMS
     else if op = op_POPITEM then exec_POPITEM
     else panicM (Message ''unknown opcode''))"

definition exec_type :: "nat \<Rightarrow> bytes \<Rightarrow> ('i, unit) vm_op" where
  "exec_type op parameter =
    (if op = op_ISNULL then bindM PopItem (\<lambda>it. pushBool (it = NullI))
     else if op = op_ISTYPE then bindM PopItem (\<lambda>it. pushBool (item_Type it = parameter ! 0))
     else if op = op_CONVERT then
       bindM PopItem (\<lambda>it. bindM (heapM (\<lambda>h. item_Convert h it (parameter ! 0))) PushItem)
     else if op = op_ABORTMSG then bindM popString (\<lambda>msg. panicM (Message ''ABORTMSG is executed''))
     else if op = op_ASSERTMSG then
       bindM popString (\<lambda>msg. bindM popBool (\<lambda>b. panic_if (\<not> b) (Message ''ASSERTMSG is executed with false result'')))
     else panicM (Message ''unknown opcode''))"

section \<open>One instruction\<close>

definition exec_op :: "'i vm_env \<Rightarrow> nat \<Rightarrow> nat \<Rightarrow> bytes \<Rightarrow> ('i, unit) vm_op" where
  "exec_op E i op parameter =
    (if op \<le> op_PUSH16 then exec_const E i op parameter
     else if op \<le> op_SYSCALL then exec_flow E i op parameter
     else if op \<le> op_REVERSEN then exec_stack op
     else if op \<le> op_STARG then exec_slot i op parameter
     else if op \<le> op_RIGHT then exec_splice op
     else if op \<le> op_NOTEQUAL then exec_bit E op
     else if op \<le> op_SHR then exec_arith E op
     else if op \<le> op_WITHIN then exec_logic op
     else if op \<le> op_POPITEM then exec_compound E op parameter
     else exec_type op parameter)"

text \<open>The price of an instruction is taken before it runs; the \<open>RET\<close> past the end of a program is free, and so is a whitelisted
  context.\<close>

definition charge :: "'i vm_env \<Rightarrow> nat \<Rightarrow> nat \<Rightarrow> bytes \<Rightarrow> ('i, unit) vm_op" where
  "charge E i op parameter =
    bindM (getM (\<lambda>v. (c_ip (v_istack v ! i), sc_of v (v_istack v ! i)))) (\<lambda>(ip, sc). case e_getPrice E of
       Some getPrice \<Rightarrow>
         if ip < length (sc_prog sc) \<and> \<not> sc_whitelisted sc then
           seqM (modM (\<lambda>v. v\<lparr>v_gasConsumed := v_gasConsumed v + ucast (getPrice op parameter)\<rparr>))
                (bindM (getM (\<lambda>v. 0 \<le> sint (v_gasLimit v) \<and> unat (v_gasLimit v) < unat (v_gasConsumed v))) (\<lambda>over.
                   panic_if over GasLimitExceeded))
         else retM ()
     | None \<Rightarrow> retM ())"

definition execute :: "'i vm_env \<Rightarrow> nat \<Rightarrow> nat \<Rightarrow> bytes \<Rightarrow> ('i, unit) vm_op" where
  "execute E i op parameter v =
    (case seqM (charge E i op parameter) (exec_op E i op parameter) v of
       (Inl e, v') \<Rightarrow> (Inl e, v'\<lparr>v_state := stateFault\<rparr>)
     | (Inr _, v') \<Rightarrow>
         if MaxStackSize < v_refs v' then (Inl (Message ''stack is too big''), v'\<lparr>v_state := stateFault\<rparr>)
         else (Inr (), v'))"

text \<open>\<open>step\<close>. With no context Go would stop at a nil pointer.\<close>

definition vm_step :: "'i vm_env \<Rightarrow> ('i, unit) vm_op" where
  "vm_step E v =
    (if v_istack v = [] then (Inl RuntimePanic, v)
     else let i = length (v_istack v) - 1;
              c = v_istack v ! i;
              ((op, param), nextip) = Next (c_nextip c) (c_prog c);
              v' = upd_ctx i (\<lambda>c. c\<lparr>c_ip := c_nextip c, c_nextip := nextip\<rparr>) v
          in case param of
               Inl e \<Rightarrow> (Inl (Message ''decode error''), v'\<lparr>v_state := stateFault\<rparr>)
             | Inr parameter \<Rightarrow> execute E i op parameter v')"

section \<open>Runs\<close>

definition atBreakPoint :: "'i vm \<Rightarrow> bool" where
  "atBreakPoint v = (case vm_Context v of
      None \<Rightarrow> False
    | Some c \<Rightarrow> c_nextip c \<in> set (sc_breakPoints (sc_of v c)))"

text \<open>The loop of \<open>Run\<close>, with the number of rounds it may take; \<open>None\<close> when they do not suffice.\<close>

primrec run_loop :: "'i vm_env \<Rightarrow> nat \<Rightarrow> 'i vm \<Rightarrow> ((vm_panic + unit) \<times> 'i vm) option" where
  "run_loop E 0 v = None"
| "run_loop E (Suc n) v =
    (if HasFlag (v_state v) stateFault then Some (Inl (Message ''VM has failed''), v)
     else if HasFlag (v_state v) stateHalt \<or> HasFlag (v_state v) stateBreak then Some (Inr (), v)
     else if v_state v = stateNone then
       (case vm_step E v of
          (Inl e, v') \<Rightarrow> Some (Inl e, v')
        | (Inr _, v') \<Rightarrow> run_loop E n (if atBreakPoint v' then v'\<lparr>v_state := stateBreak\<rparr> else v'))
     else Some (Inl (Message ''unknown state''), v\<lparr>v_state := stateFault\<rparr>))"

definition vm_Run :: "'i vm_env \<Rightarrow> nat \<Rightarrow> 'i vm \<Rightarrow> ((vm_panic + unit) \<times> 'i vm) option" where
  "vm_Run E n v =
    (if v_istack v = [] then Some (Inl (Message ''no program loaded''), v\<lparr>v_state := stateFault\<rparr>)
     else if HasFlag (v_state v) stateFault then Some (Inl (Message ''VM has failed''), v)
     else run_loop E n (v\<lparr>v_state := stateNone\<rparr>))"

definition HasStopped :: "'i vm \<Rightarrow> bool" where
  "HasStopped v \<longleftrightarrow> HasFlag (v_state v) stateHalt \<or> HasFlag (v_state v) stateFault"

definition StepInto :: "'i vm_env \<Rightarrow> ('i, unit) vm_op" where
  "StepInto E v =
    (let v1 = (if v_istack v = [] then v\<lparr>v_state := stateHalt\<rparr> else v) in
     if HasStopped v1 then (Inr (), v1)
     else case vm_step E v1 of
       (Inl e, v2) \<Rightarrow> (Inl e, v2)
     | (Inr _, v2) \<Rightarrow> (Inr (), if atBreakPoint v2 then v2\<lparr>v_state := stateBreak\<rparr> else v2))"

end
