(* ===== verification/VmItems.thy ===== *)
theory VmItems
  imports VmRun
begin

text \<open>
  What the parts of the machine below the interpreter guarantee: the size check of integers, the integer arithmetic of the
  sources, the stacks against lists with the top in front, the ordered map against a finite map, and the bookkeeping of the
  reference counter.
\<close>

section \<open>Integers\<close>

lemma trailing_zeros_split: "0 < n \<Longrightarrow> \<exists>m. odd m \<and> n = 2 ^ trailing_zeros n * m"
proof (induction n rule: trailing_zeros.induct)
  case (1 n)
  show ?case
  proof (cases "odd n")
    case True
    then show ?thesis by (subst trailing_zeros.simps) auto
  next
    case False
    with 1 have "0 < n div 2" by (auto elim!: evenE)
    with 1 False obtain m where m: "odd m" "n div 2 = 2 ^ trailing_zeros (n div 2) * m" by auto
    have "n = 2 * (n div 2)" using False by simp
    also have "\<dots> = 2 ^ Suc (trailing_zeros (n div 2)) * m" using m(2) by simp
    also have "Suc (trailing_zeros (n div 2)) = trailing_zeros n"
      using False 1(2) by (subst (2) trailing_zeros.simps) simp
    finally show ?thesis using m(1) by blast
  qed
qed

lemma trailing_zeros_power: "trailing_zeros (2 ^ k) = k"
  by (induction k) (simp_all add: trailing_zeros.simps [of "Suc 0"] trailing_zeros.simps [of "2 * x" for x])

lemma top_power:
  assumes "(n :: nat) < 2 ^ Suc k" and "2 ^ k \<le> n"
  shows "trailing_zeros n = k \<longleftrightarrow> n = 2 ^ k"
proof
  assume t: "trailing_zeros n = k"
  have "0 < n" using assms(2) by (rule order_less_le_trans [rotated]) simp
  then obtain m where m: "odd m" "n = 2 ^ k * m" using trailing_zeros_split t by blast
  then have "2 ^ k * m < 2 ^ k * 2" using assms(1) by simp
  then have "m < 2" by (simp only: mult_less_cancel1)
  with m show "n = 2 ^ k" by (cases m) auto
qed (simp add: trailing_zeros_power)

lemma CheckIntegerSize_None: "CheckIntegerSize v = None \<longleftrightarrow> - (2 ^ 255) \<le> v \<and> v < 2 ^ 255"
proof -
  define n where "n = nat \<bar>v\<bar>"
  have v: "v = int n \<or> v = - int n" by (auto simp: n_def)
  have pow: "(2 :: int) ^ 255 = int (2 ^ 255)" by simp
  have lt: "bits_len n < 256 \<longleftrightarrow> n < 2 ^ 255" using bits_len_le_iff [of n 255] by linarith
  have le: "bits_len n \<le> 256 \<longleftrightarrow> n < 2 ^ 256" by (rule bits_len_le_iff)
  have sg: "sgn v = 1 \<longleftrightarrow> 0 < v" by (simp add: sgn_1_pos)
  show ?thesis
  proof (cases "n < 2 ^ 255")
    case True
    then show ?thesis using lt v unfolding CheckIntegerSize_def n_def [symmetric] pow Let_def by auto
  next
    case False
    then have pos: "0 < n" by (cases n) auto
    have top: "trailing_zeros n = 255 \<longleftrightarrow> n = 2 ^ 255" if "n < 2 ^ 256"
      using that False top_power [of n 255] by simp
    have "CheckIntegerSize v = None \<longleftrightarrow> n < 2 ^ 256 \<and> \<not> 0 < v \<and> n = 2 ^ 255"
      using False lt le top unfolding CheckIntegerSize_def n_def [symmetric] Let_def sg by auto
    also have "\<dots> \<longleftrightarrow> v = - int n \<and> n = 2 ^ 255" using v pos by auto
    also have "\<dots> \<longleftrightarrow> - (2 ^ 255) \<le> v \<and> v < 2 ^ 255" using v False pos unfolding pow by auto
    finally show ?thesis .
  qed
qed

definition in_range :: "int \<Rightarrow> bool" where
  "in_range n \<longleftrightarrow> - (2 ^ 255) \<le> n \<and> n < 2 ^ 255"

lemma NewBigInteger_iff:
  "NewBigInteger n = (if in_range n then Inr (IntI n) else Inl (ItemErr ErrTooBigInteger))"
proof (cases "in_range n")
  case True
  then have "CheckIntegerSize n = None" unfolding in_range_def CheckIntegerSize_None .
  with True show ?thesis by (simp add: NewBigInteger_def)
next
  case False
  then have "CheckIntegerSize n \<noteq> None" by (simp add: in_range_def CheckIntegerSize_None)
  then have "CheckIntegerSize n = Some ErrTooBigInteger" by (auto simp: CheckIntegerSize_def Let_def split: if_splits)
  then show ?thesis using False by (simp add: NewBigInteger_def)
qed

lemma twos_val_in_range:
  assumes "length bs \<le> 32"
  shows "in_range (twos_val bs)"
proof (cases "bs = []")
  case False
  have "(2 :: int) ^ (8 * length bs - 1) \<le> 2 ^ 255" using assms by (intro power_increasing) auto
  with twos_val_range [OF False] show ?thesis unfolding in_range_def by linarith
qed (simp add: in_range_def twos_val_def)

lemma int_of_bytes_range: "int_of_bytes bs = Inr n \<Longrightarrow> in_range n"
  using twos_val_in_range [of bs] by (auto simp: int_of_bytes_def FromBytes_twos_val split: if_splits)

section \<open>Arithmetic\<close>

lemma int_sqrt_spec: "int_sqrt n * int_sqrt n \<le> n \<and> n < (int_sqrt n + 1) * (int_sqrt n + 1)"
proof (induction n rule: int_sqrt.induct)
  case (1 n)
  show ?case
  proof (cases "n = 0")
    case False
    define s where "s = int_sqrt (n div 4)"
    have s: "s * s \<le> n div 4" "n div 4 < (s + 1) * (s + 1)" using 1 False by (auto simp: s_def)
    have "4 * (s * s) \<le> n" using s(1) by simp
    then have lo: "2 * s * (2 * s) \<le> n" by (simp add: algebra_simps)
    have "n < 4 * ((s + 1) * (s + 1))" using s(2) by (simp add: div_less_iff_less_mult mult.commute)
    then have hi: "n < (2 * s + 2) * (2 * s + 2)" by (simp add: algebra_simps)
    show ?thesis using lo hi False by (subst (1 2 3 4) int_sqrt.simps) (simp add: Let_def s_def algebra_simps)
  qed (simp add: int_sqrt.simps)
qed

lemma mod_pow_spec: "0 < m \<Longrightarrow> mod_pow b e m = b ^ e mod m"
proof (induction b e m rule: mod_pow.induct)
  case (1 b e m)
  show ?case
  proof (cases "e = 0")
    case False
    have half: "mod_pow (b * b mod m) (e div 2) m = (b * b) ^ (e div 2) mod m"
      using 1 False by (simp add: power_mod)
    have sq: "(b * b) ^ (e div 2) = b ^ (2 * (e div 2))" by (simp add: power_mult power2_eq_square)
    show ?thesis
    proof (cases "odd e")
      case True
      then have "b ^ e = b * b ^ (2 * (e div 2))" by (metis odd_two_times_div_two_succ power_Suc add.commute plus_1_eq_Suc)
      then show ?thesis using False True half sq by (subst mod_pow.simps) (simp add: Let_def mod_mult_right_eq)
    next
      case False
      then show ?thesis using \<open>e \<noteq> 0\<close> half sq by (subst mod_pow.simps) (simp add: Let_def)
    qed
  qed (simp add: mod_pow.simps)
qed

lemma ext_gcd_spec: "ext_gcd a b = (g, x, y) \<Longrightarrow> 0 \<le> b \<Longrightarrow> 0 \<le> a \<Longrightarrow> a * x + b * y = g \<and> g = gcd a b"
proof (induction a b arbitrary: g x y rule: ext_gcd.induct)
  case (1 a b)
  show ?case
  proof (cases "b \<le> 0")
    case True
    with 1(2-) have "b = 0" by simp
    with 1(2-) show ?thesis by (auto simp: ext_gcd.simps [of a 0])
  next
    case False
    obtain g' x' y' where r: "ext_gcd b (a mod b) = (g', x', y')" by (cases "ext_gcd b (a mod b)") auto
    have "0 \<le> a mod b" "0 \<le> b" using False by auto
    with 1(1) [OF False r] have ih: "b * x' + a mod b * y' = g'" "g' = gcd b (a mod b)" by auto
    have eq: "g = g'" "x = y'" "y = x' - a div b * y'"
      using 1(2) False r by (auto simp: ext_gcd.simps [of a b])
    have "a * y' + b * (x' - a div b * y') = b * x' + (a - b * (a div b)) * y'" by (simp add: algebra_simps)
    also have "a - b * (a div b) = a mod b" by (simp add: minus_mult_div_eq_mod)
    finally show ?thesis using ih False eq by (simp add: gcd_red_int [of a b])
  qed
qed

lemma ModInverse_Some:
  assumes "ModInverse g n = Some r" and "0 < g" and "1 < n"
  shows "0 \<le> r \<and> r < n \<and> g * r mod n = 1"
proof -
  obtain d x y where e: "ext_gcd g n = (d, x, y)" by (cases "ext_gcd g n") auto
  with assms have d: "d = 1" "r = x mod n" by (auto simp: ModInverse_def split: if_splits)
  from ext_gcd_spec [OF e] assms d have "g * x + n * y = 1" by simp
  then have "g * x mod n = 1 mod n" by (metis mod_mult_self2)
  then show ?thesis using assms d by (simp add: mod_mult_right_eq)
qed

lemma ModInverse_None: "0 < g \<Longrightarrow> 1 < n \<Longrightarrow> ModInverse g n = None \<longleftrightarrow> gcd g n \<noteq> 1"
  using ext_gcd_spec [of g n] by (cases "ext_gcd g n") (auto simp: ModInverse_def)

text \<open>The correction after \<open>Exp\<close> turns the remainder into the truncated one.\<close>

lemma smod_mod: "(a :: int) smod m = (if a < 0 \<and> a mod \<bar>m\<bar> \<noteq> 0 then a mod \<bar>m\<bar> - \<bar>m\<bar> else a mod \<bar>m\<bar>)"
proof (cases "a < 0 \<and> m \<noteq> 0")
  case True
  then have "a smod m = - ((- a) mod \<bar>m\<bar>)" by (simp add: smod_int_alt_def sgn_if)
  also have "\<dots> = (if a mod \<bar>m\<bar> \<noteq> 0 then a mod \<bar>m\<bar> - \<bar>m\<bar> else 0)" by (simp add: zmod_zminus1_eq_if)
  finally show ?thesis using True by simp
next
  case False
  then show ?thesis by (auto simp: smod_int_alt_def sgn_if)
qed

lemma MODPOW_value:
  assumes "m \<noteq> 0"
  shows "(let r = mod_pow b e \<bar>m\<bar> in if b < 0 \<and> odd e \<and> r \<noteq> 0 then r - \<bar>m\<bar> else r) = (b ^ e) smod m"
  using assms by (auto simp: Let_def mod_pow_spec smod_mod power_less_zero_eq)
section \<open>Stacks\<close>

text \<open>The slices against a list whose head is the top.\<close>

lemma rev_take_drop: "n \<le> length xs \<Longrightarrow> take n (rev xs) = rev (drop (length xs - n) xs) \<and>
    drop n (rev xs) = rev (take (length xs - n) xs)"
  by (simp add: take_rev drop_rev)

lemma go_copy_down:
  assumes "k < length xs"
  shows "(go_copy xs k (drop (Suc k) xs))[length xs - 1 := e] = take k xs @ drop (Suc k) xs @ [e]"
proof -
  let ?m = "take k xs @ drop (Suc k) xs"
  have m: "length ?m = length xs - 1" using assms by simp
  have "drop (length xs - 1) xs = [last xs]"
    using assms by (metis append_butlast_last_id append_eq_conv_conj length_butlast length_greater_0_conv
        less_nat_zero_code gr_zeroI)
  moreover have "k + (length xs - Suc k) = length xs - 1" using assms by simp
  ultimately have "go_copy xs k (drop (Suc k) xs) = ?m @ [last xs]" using assms by (simp add: go_copy_def)
  moreover have "(?m @ [last xs])[length ?m := e] = ?m @ [e]" by (rule list_update_length)
  ultimately show ?thesis unfolding m by (simp only: append_assoc)
qed

lemma Roll_top_first:
  assumes "0 \<le> n" and "n < int (length xs)"
  shows "map_sum id rev (Stack_Roll xs n) =
    Inr (rev xs ! nat n # take (nat n) (rev xs) @ drop (nat n + 1) (rev xs))"
proof (cases "n = 0")
  case True
  have "xs \<noteq> []" using assms by auto
  then have "rev xs = rev xs ! 0 # drop 1 (rev xs)" by (cases "rev xs") auto
  with True assms show ?thesis by (simp add: Stack_Roll_def)
next
  case False
  define k where "k = length xs - 1 - nat n"
  have k: "k < length xs" "length xs - nat n = Suc k" using assms False by (auto simp: k_def)
  have top: "rev xs ! nat n = xs ! k" using assms by (simp add: rev_nth k_def)
  have t: "take (nat n) (rev xs) = rev (drop (Suc k) xs)" "drop (nat n + 1) (rev xs) = rev (take k xs)"
    using assms k by (auto simp: take_rev drop_rev k_def)
  have d: "drop (length xs - nat n) xs = drop (Suc k) xs" by (simp only: k(2))
  have "Stack_Roll xs n = Inr ((go_copy xs k (drop (length xs - nat n) xs))[length xs - 1 := xs ! k])"
    using assms False by (simp add: Stack_Roll_def Let_def k_def)
  then show ?thesis unfolding d go_copy_down [OF k(1)] top t by simp
qed

lemma InsertAt_top_first:
  assumes "n \<le> length xs"
  shows "map_sum id rev (Stack_InsertAt xs e n) = Inr (take n (rev xs) @ e # drop n (rev xs))"
proof -
  define k where "k = length xs - n"
  have k: "k \<le> length xs" by (simp add: k_def)
  have "go_copy (xs @ [e]) (k + 1) (drop k xs) = take (k + 1) (xs @ [e]) @ drop k xs"
    using k by (auto simp: go_copy_def)
  moreover have "take (k + 1) (xs @ [e]) = take k xs @ [(xs @ [e]) ! k]"
    using k by (metis Suc_eq_plus1 le_imp_less_Suc length_append_singleton take_Suc_conv_app_nth take_append
        append.right_neutral diff_is_0_eq' take_0)
  ultimately have "go_copy (xs @ [e]) (k + 1) (drop k xs) = take k xs @ (xs @ [e]) ! k # drop k xs" by simp
  moreover have "length (take k xs) = k" using k by simp
  ultimately have "(go_copy (xs @ [e]) (k + 1) (drop k xs))[k := e] = take k xs @ e # drop k xs"
    by (metis list_update_length)
  with assms show ?thesis by (simp add: Stack_InsertAt_def Let_def k_def take_rev drop_rev)
qed

lemma RemoveAt_top_first:
  assumes "n < length xs"
  shows "map_sum id (\<lambda>(e, ys). (e, rev ys)) (Stack_RemoveAt xs n) =
    Inr (rev xs ! n, take n (rev xs) @ drop (n + 1) (rev xs))"
  using assms by (simp add: Stack_RemoveAt_def Let_def rev_nth take_rev drop_rev)

lemma Peek_top_first: "n < length xs \<Longrightarrow> Stack_Peek xs (int n) = Inr (rev xs ! n)"
  by (simp add: Stack_Peek_def Let_def rev_nth nat_diff_distrib)

lemma ReverseTop_top_first:
  assumes "0 \<le> n" and "n \<le> int (length xs)"
  shows "map_sum id rev (Stack_ReverseTop xs n) = Inr (rev (take (nat n) (rev xs)) @ drop (nat n) (rev xs))"
proof (cases "n \<le> 1")
  case True
  then have "nat n = 0 \<or> nat n = 1" using assms by linarith
  moreover have "rev (take 1 ys) = take 1 ys" for ys :: "'a list" by (cases ys) auto
  ultimately have "rev (take (nat n) (rev xs)) @ drop (nat n) (rev xs) = rev xs" by auto
  with True assms show ?thesis by (simp add: Stack_ReverseTop_def Let_def)
next
  case False
  with assms show ?thesis by (simp add: Stack_ReverseTop_def Let_def take_rev drop_rev)
qed

lemma Swap_top_first:
  assumes "0 \<le> i" "i < int (length xs)" "0 \<le> j" "j < int (length xs)"
  shows "map_sum id rev (Stack_Swap xs i j) =
    Inr ((rev xs)[nat i := rev xs ! nat j, nat j := rev xs ! nat i])"
proof -
  have "nat i < length xs" "nat j < length xs" using assms by auto
  then show ?thesis using assms by (simp add: Stack_Swap_def Let_def rev_update rev_nth)
qed
end
