(* ===== verification/VmRefs.thy ===== *)
theory VmRefs
  imports VmItems
begin

text \<open>
  The bookkeeping of the reference counter. \<open>held h\<close> are the references that the objects with a count hold. The counter is exact for a
  collection \<open>R\<close> of references from outside the store when every object's count is the number of references to it, from \<open>R\<close> and from
  the held ones, and the counter is the number of all of them. No assumption excludes cycles.
\<close>

definition counted_objs :: "'i heap \<Rightarrow> addr set" where
  "counted_objs h = {b. b < length h \<and> refs_of h b \<noteq> 0}"

definition held :: "'i heap \<Rightarrow> 'i item multiset" where
  "held h = (\<Sum>b\<in>counted_objs h. mset (children h b))"

definition occ :: "addr \<Rightarrow> 'i item multiset \<Rightarrow> nat" where
  "occ a M = size (filter_mset (\<lambda>it. compound it = Some a) M)"

definition closed_refs :: "'i heap \<Rightarrow> 'i item set \<Rightarrow> bool" where
  "closed_refs h S \<longleftrightarrow>
    (\<forall>it a. it \<in> S \<union> (\<Union>b<length h. set (children h b)) \<and> compound it = Some a \<longrightarrow> a < length h)"

text \<open>\<open>ws\<close> are references that are about to be counted, respectively discounted.\<close>

definition counted_but :: "'i heap \<times> int \<Rightarrow> 'i item multiset \<Rightarrow> 'i item multiset \<Rightarrow> bool" where
  "counted_but hr R ws \<longleftrightarrow> (case hr of (h, r) \<Rightarrow>
    closed_refs h (set_mset (R + ws)) \<and>
    (\<forall>a<length h. 0 \<le> refs_of h a \<and> refs_of h a + int (occ a ws) = int (occ a (R + held h))) \<and>
    r + int (size ws) = int (size (R + held h)))"

definition ref_exact :: "'i heap \<times> int \<Rightarrow> 'i item multiset \<Rightarrow> bool" where
  "ref_exact hr R \<longleftrightarrow> counted_but hr R {#}"

lemma occ_simps [simp]:
  "occ a {#} = 0"
  "occ a (M + N) = occ a M + occ a N"
  "occ a (add_mset it M) = (if compound it = Some a then 1 else 0) + occ a M"
  by (simp_all add: occ_def)

lemma refs_IncRC: "a < length h \<Longrightarrow> refs_of (IncRC h a) b = (if b = a then refs_of h a + 1 else refs_of h b)"
  by (simp add: refs_of_def IncRC_def nth_list_update)

lemma refs_DecRC: "a < length h \<Longrightarrow> refs_of (DecRC h a) b = (if b = a then refs_of h a - 1 else refs_of h b)"
  by (simp add: refs_of_def DecRC_def nth_list_update)

lemma children_rc [simp]:
  "children (IncRC h a) b = children h b" "children (DecRC h a) b = children h b"
  by (cases "b = a"; simp add: children_def IncRC_def DecRC_def)+

lemma length_rc [simp]: "length (IncRC h a) = length h" "length (DecRC h a) = length h"
  by (simp_all add: IncRC_def DecRC_def)

lemma closed_refs_rc [simp]:
  "closed_refs (IncRC h a) S = closed_refs h S" "closed_refs (DecRC h a) S = closed_refs h S"
  by (simp_all add: closed_refs_def)

lemma finite_counted_objs [simp]: "finite (counted_objs h)"
  by (simp add: counted_objs_def)

lemma held_IncRC:
  assumes "a < length h" and "0 \<le> refs_of h a"
  shows "held (IncRC h a) = (if refs_of h a = 0 then mset (children h a) + held h else held h)"
proof -
  have "counted_objs (IncRC h a) = insert a (counted_objs h)"
    using assms by (auto simp: counted_objs_def refs_IncRC)
  moreover have "a \<in> counted_objs h \<longleftrightarrow> refs_of h a \<noteq> 0" using assms by (simp add: counted_objs_def)
  ultimately show ?thesis by (auto simp: held_def insert_absorb)
qed

lemma held_DecRC:
  assumes "a < length h" and "0 < refs_of h a"
  shows "held h = (if refs_of h a = 1 then mset (children h a) + held (DecRC h a) else held (DecRC h a))"
proof (cases "refs_of h a = 1")
  case True
  have "counted_objs (DecRC h a) = counted_objs h - {a}" using assms True by (auto simp: counted_objs_def refs_DecRC)
  moreover have "a \<in> counted_objs h" using assms by (simp add: counted_objs_def)
  ultimately show ?thesis using True by (simp add: held_def sum.remove [of "counted_objs h" a])
next
  case False
  have "counted_objs (DecRC h a) = counted_objs h" using assms False by (auto simp: counted_objs_def refs_DecRC)
  then show ?thesis using False by (simp add: held_def)
qed

lemma closed_addr: "closed_refs h S \<Longrightarrow> it \<in> S \<Longrightarrow> compound it = Some a \<Longrightarrow> a < length h"
  by (auto simp: closed_refs_def)

lemma closed_mono: "closed_refs h S \<Longrightarrow> T \<subseteq> S \<Longrightarrow> closed_refs h T"
  by (auto simp: closed_refs_def)

lemma closed_children:
  "closed_refs h S \<Longrightarrow> a < length h \<Longrightarrow> T \<subseteq> set (children h a) \<union> S \<Longrightarrow> closed_refs h T"
  by (auto simp: closed_refs_def)

lemma ref_Add_counted: "counted_but hr R (mset ws) \<Longrightarrow> ref_exact (ref_Add ws hr) R"
proof (induction ws hr rule: ref_Add.induct)
  case (1 h r)
  then show ?case by (simp add: ref_exact_def)
next
  case (2 it ws h r)
  note C = 2(5) [unfolded counted_but_def prod.case]
  have closed: "closed_refs h (set_mset (R + mset (it # ws)))" using C by blast
  show ?case
  proof (cases "compound it")
    case None
    with C have "counted_but (h, r + 1) R (mset ws)"
      unfolding counted_but_def prod.case by (auto elim: closed_mono)
    with 2(1) None show ?thesis by simp
  next
    case (Some a)
    have a: "a < length h" using closed_addr [OF closed _ Some] by simp
    have pos: "0 \<le> refs_of h a" using C a by blast
    let ?ws = "if refs_of h a = 0 then children h a @ ws else ws"
    have "closed_refs (IncRC h a) (set_mset (R + mset ?ws))"
      unfolding closed_refs_rc by (rule closed_children [OF closed a]) auto
    moreover have "0 \<le> refs_of (IncRC h a) b \<and>
        refs_of (IncRC h a) b + int (occ b (mset ?ws)) = int (occ b (R + held (IncRC h a)))" if "b < length h" for b
    proof -
      have "0 \<le> refs_of h b" "refs_of h b + int (occ b (mset (it # ws))) = int (occ b (R + held h))"
        using C that by blast+
      then show ?thesis using Some a pos by (cases "b = a") (simp_all add: refs_IncRC held_IncRC)
    qed
    moreover have "r + 1 + int (size (mset ?ws)) = int (size (R + held (IncRC h a)))"
      using C a pos by (simp add: held_IncRC)
    ultimately have "counted_but (IncRC h a, r + 1) R (mset ?ws)" unfolding counted_but_def prod.case length_rc by blast
    with 2(3,4) [OF Some] a pos Some show ?thesis by (auto simp: refs_IncRC split: if_splits)
  qed
qed

lemma ref_Remove_counted: "ref_exact hr (R + mset ws) \<Longrightarrow> ref_exact (ref_Remove ws hr) R"
proof (induction ws hr rule: ref_Remove.induct)
  case (1 h r)
  then show ?case by simp
next
  case (2 it ws h r)
  note C = 2(5) [unfolded ref_exact_def counted_but_def prod.case]
  have closed: "closed_refs h (set_mset (R + mset (it # ws)))" using C by simp
  show ?case
  proof (cases "compound it")
    case None
    with C have "ref_exact (h, r - 1) (R + mset ws)"
      unfolding ref_exact_def counted_but_def prod.case by (auto elim: closed_mono)
    with 2(1) None show ?thesis by simp
  next
    case (Some a)
    have a: "a < length h" using closed_addr [OF closed _ Some] by simp
    have eq: "0 \<le> refs_of h b" "refs_of h b = int (occ b (R + mset (it # ws) + held h))" if "b < length h" for b
      using C that by auto
    have pos: "0 < refs_of h a" using eq [OF a] Some by simp
    let ?ws = "if refs_of h a = 1 then children h a @ ws else ws"
    have "closed_refs (DecRC h a) (set_mset (R + mset ?ws + {#}))"
      unfolding closed_refs_rc by (rule closed_children [OF closed a]) auto
    moreover have "0 \<le> refs_of (DecRC h a) b \<and>
        refs_of (DecRC h a) b + int (occ b {#}) = int (occ b (R + mset ?ws + held (DecRC h a)))" if "b < length h" for b
    proof -
      have H: "occ b (held h) = (if refs_of h a = 1 then occ b (mset (children h a)) else 0) + occ b (held (DecRC h a))"
        by (subst held_DecRC [OF a pos]) simp
      have "refs_of h b = int (occ b R) + (if b = a then 1 else 0) + int (occ b (mset ws)) + int (occ b (held h))"
        using eq(2) [OF that] Some by simp
      with H eq(1) [OF that] pos show ?thesis by (cases "b = a"; cases "refs_of h a = 1"; simp add: refs_DecRC [OF a])
    qed
    moreover have "r - 1 + int (size {#}) = int (size (R + mset ?ws + held (DecRC h a)))"
    proof -
      have "size (held h) = (if refs_of h a = 1 then length (children h a) else 0) + size (held (DecRC h a))"
        by (subst held_DecRC [OF a pos]) simp
      then show ?thesis using C by simp
    qed
    ultimately have "ref_exact (DecRC h a, r - 1) (R + mset ?ws)"
      unfolding ref_exact_def counted_but_def prod.case length_rc by blast
    with 2(3,4) [OF Some] a pos Some show ?thesis by (auto simp: IsReferenced_def refs_DecRC split: if_splits)
  qed
qed
end
