(* ===== verification/VmInv.thy ===== *)
theory VmInv
  imports VmRefs
begin

text \<open>
  Conditions that survive every instruction, for \<open>VmKeeps\<close>: there the locale \<open>vm_invariant\<close> asks of a condition \<open>I\<close> on the machine and a condition \<open>ok\<close> on
  items that the machine's elementary state changes keep \<open>I\<close>: one law for all changes of stacks, slots and objects, one for each way
  in which control moves, and one for what is not the machine's own code. It gives that each instruction keeps \<open>I\<close>.
\<close>

section \<open>What an operation keeps\<close>

definition slot_items :: "'i slot \<Rightarrow> 'i item set" where
  "slot_items s = (case s of None \<Rightarrow> {} | Some xs \<Rightarrow> {it. Some it \<in> set xs})"

definition heap_items :: "'i heap \<Rightarrow> 'i item set" where
  "heap_items h = (\<Union>b<length h. set (children h b))"

definition all_items :: "'i vm \<Rightarrow> 'i item set" where
  "all_items v =
    (\<Union>xs\<in>set (v_stacks v). set xs) \<union> heap_items (v_heap v) \<union>
    (\<Union>c\<in>set (v_istack v). slot_items (c_local c) \<union> slot_items (c_arguments c)) \<union>
    (\<Union>sc\<in>set (v_scs v). slot_items (sc_static sc)) \<union> set_option (v_uncaughtException v)"

text \<open>The part of the state that decides what is executed next, and what it costs.\<close>

definition ctl_ctx :: "'i vm_context \<Rightarrow> 'i vm_context" where
  "ctl_ctx c = c\<lparr>c_local := None, c_arguments := None\<rparr>"

definition ctl_sc :: "'i scriptContext \<Rightarrow> 'i scriptContext" where
  "ctl_sc sc = sc\<lparr>sc_static := None\<rparr>"

definition ctl :: "'i vm \<Rightarrow> 'i vm_context list \<times> 'i scriptContext list \<times> 256 word \<times> u64" where
  "ctl v = (map ctl_ctx (v_istack v), map ctl_sc (v_scs v), v_gasConsumed v, v_gasLimit v)"

definition keeps :: "('i vm \<Rightarrow> bool) \<Rightarrow> ('a \<Rightarrow> bool) \<Rightarrow> ('i, 'a) vm_op \<Rightarrow> bool" where
  "keeps I R m \<longleftrightarrow> (\<forall>v. I v \<longrightarrow> I (snd (m v)) \<and> (\<forall>x. fst (m v) = Inr x \<longrightarrow> R x))"

abbreviation anything :: "'a \<Rightarrow> bool" where "anything \<equiv> (\<lambda>_. True)"

named_theorems keeps_rules \<open>what the operations of the machine keep\<close>

lemma keepsI: "(\<And>v. I v \<Longrightarrow> I (snd (m v))) \<Longrightarrow> (\<And>v x. I v \<Longrightarrow> fst (m v) = Inr x \<Longrightarrow> R x) \<Longrightarrow> keeps I R m"
  by (auto simp: keeps_def)

lemma keepsD: "keeps I R m \<Longrightarrow> I v \<Longrightarrow> I (snd (m v))"
  by (auto simp: keeps_def)

lemma keeps_weaken: "keeps I R m \<Longrightarrow> (\<And>x. R x \<Longrightarrow> S x) \<Longrightarrow> keeps I S m"
  by (auto simp: keeps_def)

lemma keeps_bind [keeps_rules]:
  assumes m: "keeps I R m" and f: "\<And>x. R x \<Longrightarrow> keeps I Q (f x)"
  shows "keeps I Q (bindM m f)"
proof (rule keepsI)
  fix v assume v: "I v"
  obtain r v' where mv: "m v = (r, v')" by (cases "m v")
  have v': "I v'" using m v mv by (auto simp: keeps_def)
  show "I (snd (bindM m f v))"
  proof (cases r)
    case (Inr x)
    then have "R x" using m v mv by (auto simp: keeps_def)
    then show ?thesis using f v' mv Inr by (auto simp: bindM_def keeps_def)
  qed (use v' mv in \<open>simp add: bindM_def\<close>)
  fix y assume y: "fst (bindM m f v) = Inr y"
  then obtain x where x: "r = Inr x" using mv by (cases r) (auto simp: bindM_def)
  then have "R x" using m v mv by (auto simp: keeps_def)
  with f v' y mv x show "Q y" by (auto simp: bindM_def keeps_def)
qed

lemma keeps_seq [keeps_rules]: "keeps I R m \<Longrightarrow> keeps I Q n \<Longrightarrow> keeps I Q (seqM m n)"
  unfolding seqM_def by (rule keeps_bind)

lemma keeps_ret: "R x \<Longrightarrow> keeps I R (retM x)"
  by (simp add: keeps_def retM_def)

lemma keeps_panic [keeps_rules]: "keeps I R (panicM e)"
  by (simp add: keeps_def panicM_def)

lemma keeps_panic_if: "keeps I (\<lambda>_. \<not> b) (panic_if b e)"
  by (simp add: keeps_def panic_if_def retM_def panicM_def)

lemma keeps_when [keeps_rules]: "keeps I anything m \<Longrightarrow> keeps I anything (whenM b m)"
  by (simp add: whenM_def keeps_ret)

lemma keeps_lift: "(\<And>x. r = Inr x \<Longrightarrow> R x) \<Longrightarrow> keeps I R (liftM r)"
  by (simp add: keeps_def liftM_def)

lemma keeps_get: "(\<And>v. I v \<Longrightarrow> R (f v)) \<Longrightarrow> keeps I R (getM f)"
  by (simp add: keeps_def getM_def)

lemma keeps_mod: "(\<And>v. I v \<Longrightarrow> I (f v)) \<Longrightarrow> keeps I anything (modM f)"
  by (simp add: keeps_def modM_def)

lemma keeps_for: "(\<And>x. x \<in> set xs \<Longrightarrow> keeps I anything (f x)) \<Longrightarrow> keeps I anything (forM xs f)"
  by (induction xs) (auto intro: keeps_ret keeps_seq)

lemma keeps_map:
  assumes "\<And>x. x \<in> set xs \<Longrightarrow> keeps I R (f x)"
  shows "keeps I (\<lambda>ys. \<forall>y\<in>set ys. R y) (mapM xs f)"
  using assms
proof (induction xs)
  case (Cons x xs)
  have "keeps I (\<lambda>ys. \<forall>y\<in>set ys. R y) (mapM xs f)" using Cons by simp
  moreover have "keeps I R (f x)" using Cons by simp
  ultimately show ?case by (auto intro!: keeps_bind [where R = R] keeps_bind [where m = "mapM xs f"] keeps_ret)
qed (simp add: keeps_ret)

lemma keeps_if: "(b \<Longrightarrow> keeps I R m) \<Longrightarrow> (\<not> b \<Longrightarrow> keeps I R n) \<Longrightarrow> keeps I R (if b then m else n)"
  by simp

lemma keeps_option:
  "(x = None \<Longrightarrow> keeps I R m) \<Longrightarrow> (\<And>a. x = Some a \<Longrightarrow> keeps I R (f a)) \<Longrightarrow>
    keeps I R (case x of None \<Rightarrow> m | Some a \<Rightarrow> f a)"
  by (cases x) auto

lemma keeps_prod: "(\<And>a b. p = (a, b) \<Longrightarrow> keeps I R (f a b)) \<Longrightarrow> keeps I R (case p of (a, b) \<Rightarrow> f a b)"
  by (cases p) auto

lemma keeps_let: "keeps I R (f x) \<Longrightarrow> keeps I R (let y = x in f y)"
  by simp

lemmas keeps_intros = keeps_bind keeps_seq keeps_panic keeps_panic_if keeps_when keeps_if keeps_option keeps_prod keeps_let

section \<open>Where items come from\<close>

lemma object_Items:
  "a < length h \<Longrightarrow> content (h ! a) = Items xs \<Longrightarrow> items h a = xs \<and> elems h a = [] \<and> children h a = xs"
  by (simp add: items_def elems_def children_def)

lemma object_Elems:
  "a < length h \<Longrightarrow> content (h ! a) = Elems es d \<Longrightarrow>
    items h a = [] \<and> elems h a = es \<and> children h a = concat (map (\<lambda>(k, v). [k, v]) es)"
  by (simp add: items_def elems_def children_def)

lemma object_Raw:
  "a < length h \<Longrightarrow> content (h ! a) = Raw bs \<Longrightarrow> items h a = [] \<and> elems h a = [] \<and> children h a = []"
  by (simp add: items_def elems_def children_def)

lemma object_none: "\<not> a < length h \<Longrightarrow> items h a = [] \<and> elems h a = [] \<and> children h a = []"
  by (simp add: items_def elems_def children_def)

lemma set_pairs: "set (concat (map (\<lambda>(k, v). [k, v]) es)) = fst ` set es \<union> snd ` set es"
  by (induction es) auto

lemma children_items: "set (items h a) \<subseteq> set (children h a)"
  by (cases "a < length h"; cases "content (h ! a)") (simp_all add: object_Items object_Elems object_Raw object_none)

lemma children_elems: "fst ` set (elems h a) \<union> snd ` set (elems h a) \<subseteq> set (children h a)"
  by (cases "a < length h"; cases "content (h ! a)")
     (simp_all only: object_Items object_Elems object_Raw set_pairs, simp_all add: object_none)

lemma heap_items_children: "set (children h a) \<subseteq> heap_items h"
  by (auto simp: heap_items_def children_def)

lemma heap_items_items: "set (items h a) \<subseteq> heap_items h"
  by (rule order_trans [OF children_items heap_items_children])

lemma heap_items_elems: "fst ` set (elems h a) \<union> snd ` set (elems h a) \<subseteq> heap_items h"
  by (rule order_trans [OF children_elems heap_items_children])

definition content_items :: "'i content \<Rightarrow> 'i item set" where
  "content_items c = (case c of Items xs \<Rightarrow> set xs | Elems es d \<Rightarrow> fst ` set es \<union> snd ` set es | Raw bs \<Rightarrow> {})"

lemma set_children: "a < length h \<Longrightarrow> set (children h a) = content_items (content (h ! a))"
  by (cases "content (h ! a)") (simp_all only: object_Items object_Elems object_Raw content_items_def set_pairs content.case, simp)

lemma heap_items_map: "heap_items h = (\<Union>c\<in>set (map content h). content_items c)"
proof -
  have "heap_items h = (\<Union>b<length h. content_items (content (h ! b)))" by (simp add: heap_items_def set_children)
  also have "\<dots> = (\<Union>c\<in>set (map content h). content_items c)" by (auto simp: set_conv_nth)
  finally show ?thesis .
qed

lemma heap_items_content: "heap_items h = (\<Union>c\<in>set h. content_items (content c))"
  by (simp add: heap_items_map)

lemma heap_items_alloc: "heap_items (snd (alloc h c)) = heap_items h \<union> content_items c"
  by (auto simp: heap_items_content alloc_def)

lemma heap_items_put_content: "heap_items (put_content h a c) \<subseteq> heap_items h \<union> content_items c"
proof (cases "a < length h")
  case True
  then show ?thesis using set_update_subset_insert [of h a "(h ! a)\<lparr>content := c\<rparr>"]
    by (fastforce simp: heap_items_content put_content_def)
qed (simp add: put_content_def list_update_beyond)

lemma same_content_items: "map content h' = map content h \<Longrightarrow> heap_items h' = heap_items h"
  by (simp only: heap_items_map)

lemma content_rc [simp]:
  "map content (IncRC h a) = map content h" "map content (DecRC h a) = map content h"
  by (cases "a < length h"; simp add: IncRC_def DecRC_def map_update list_update_beyond;
      metis list_update_id nth_map length_map)+

lemma content_ref_Add [simp]: "map content (fst (ref_Add ws hr)) = map content (fst hr)"
  by (induction ws hr rule: ref_Add.induct) (auto split: option.splits)

lemma content_ref_Remove [simp]: "map content (fst (ref_Remove ws hr)) = map content (fst hr)"
  by (induction ws hr rule: ref_Remove.induct) (auto split: option.splits)

lemma content_ref_Remove_nil [simp]: "map content (fst (ref_Remove_nil x hr)) = map content (fst hr)"
  by (simp add: ref_Remove_nil_def split: option.splits)

lemma content_clearRefs [simp]: "map content (fst (Slot_clearRefs s hr)) = map content (fst hr)"
proof -
  have "map content (fst (fold ref_Remove_nil xs hr)) = map content (fst hr)" for xs
    by (induction xs arbitrary: hr) auto
  then show ?thesis by (simp add: Slot_clearRefs_def split: option.splits)
qed

end
