(* ===== verification/VmKeeps.thy ===== *)
theory VmKeeps
  imports VmInv
begin

text \<open>
  The interface between the instructions and the conditions they keep, and the proof that every instruction keeps them. The
  interpretations are in \<open>VmProps\<close> and \<open>VmGas\<close>.
\<close>

section \<open>State changes\<close>

lemma ctl_data [simp]:
  "ctl (v\<lparr>v_stacks := a\<rparr>) = ctl v" "ctl (v\<lparr>v_estack := b\<rparr>) = ctl v" "ctl (v\<lparr>v_heap := c\<rparr>) = ctl v"
  "ctl (v\<lparr>v_uncaughtException := d\<rparr>) = ctl v" "ctl (v\<lparr>v_refs := e\<rparr>) = ctl v" "ctl (v\<lparr>v_state := f\<rparr>) = ctl v"
  by (simp_all add: ctl_def)

lemma ctl_set_slot [simp]: "ctl (set_slot k i s v) = ctl v"
proof -
  have c: "map ctl_ctx (xs[i := x]) = map ctl_ctx xs" if "i < length xs \<longrightarrow> ctl_ctx x = ctl_ctx (xs ! i)" for xs :: "'a vm_context list" and x
    using that by (cases "i < length xs") (simp_all add: map_update list_update_same_conv list_update_beyond)
  have d: "map ctl_sc (xs[j := x]) = map ctl_sc xs" if "j < length xs \<longrightarrow> ctl_sc x = ctl_sc (xs ! j)" for xs :: "'a scriptContext list" and x j
    using that by (cases "j < length xs") (simp_all add: map_update list_update_same_conv list_update_beyond)
  show ?thesis
    by (cases k) (simp_all add: set_slot_def ctl_def upd_sc_def upd_ctx_def c d ctl_ctx_def ctl_sc_def)
qed

lemma all_items_same [simp]:
  "all_items (v\<lparr>v_estack := b\<rparr>) = all_items v" "all_items (v\<lparr>v_refs := e\<rparr>) = all_items v"
  "all_items (v\<lparr>v_state := f\<rparr>) = all_items v" "all_items (v\<lparr>v_gasConsumed := g\<rparr>) = all_items v"
  by (simp_all add: all_items_def)

lemma all_items_stacks: "all_items (v\<lparr>v_stacks := (v_stacks v)[s := xs]\<rparr>) \<subseteq> all_items v \<union> set xs"
  using set_update_subset_insert [of "v_stacks v" s xs] by (fastforce simp: all_items_def)

lemma all_items_heap: "all_items (v\<lparr>v_heap := h\<rparr>) \<subseteq> all_items v \<union> heap_items h"
  by (auto simp: all_items_def)

lemma all_items_uncaught: "all_items (v\<lparr>v_uncaughtException := x\<rparr>) \<subseteq> all_items v \<union> set_option x"
  by (auto simp: all_items_def)

lemma UN_update:
  assumes "g y \<subseteq> g (xs ! i) \<union> S"
  shows "(\<Union>c\<in>set (xs[i := y]). g c) \<subseteq> (\<Union>c\<in>set xs. g c) \<union> S"
proof (cases "i < length xs")
  case True
  then have "g (xs ! i) \<subseteq> (\<Union>c\<in>set xs. g c)" by (auto intro: nth_mem)
  with assms have "g y \<subseteq> (\<Union>c\<in>set xs. g c) \<union> S" by blast
  moreover have "(\<Union>c\<in>set (xs[i := y]). g c) \<subseteq> (\<Union>c\<in>insert y (set xs). g c)"
    using set_update_subset_insert by (rule UN_mono) simp
  ultimately show ?thesis by auto
qed (auto simp: list_update_beyond)

lemma all_items_ctx:
  assumes "slot_items (c_local (f (v_istack v ! i))) \<union> slot_items (c_arguments (f (v_istack v ! i))) \<subseteq>
    slot_items (c_local (v_istack v ! i)) \<union> slot_items (c_arguments (v_istack v ! i)) \<union> S"
  shows "all_items (upd_ctx i f v) \<subseteq> all_items v \<union> S"
  using UN_update [where g = "\<lambda>c. slot_items (c_local c) \<union> slot_items (c_arguments c)", OF assms]
  unfolding all_items_def upd_ctx_def by simp blast

lemma all_items_sc:
  assumes "slot_items (sc_static (f (v_scs v ! s))) \<subseteq> slot_items (sc_static (v_scs v ! s)) \<union> S"
  shows "all_items (upd_sc s f v) \<subseteq> all_items v \<union> S"
  using UN_update [where g = "\<lambda>sc. slot_items (sc_static sc)", OF assms]
  unfolding all_items_def upd_sc_def by simp blast

lemma all_items_set_slot: "all_items (set_slot k i s v) \<subseteq> all_items v \<union> slot_items s"
proof (cases k)
  case StaticSlot
  then show ?thesis unfolding set_slot_def by (simp del: Un_subset_iff) (rule all_items_sc, simp)
next
  case LocalSlot
  then show ?thesis unfolding set_slot_def by (simp del: Un_subset_iff) (rule all_items_ctx, auto)
next
  case ArgSlot
  then show ?thesis unfolding set_slot_def by (simp del: Un_subset_iff) (rule all_items_ctx, auto)
qed

lemma stack_items: "set (stack_at v s) \<subseteq> all_items v"
  by (cases "s < length (v_stacks v)") (auto simp: stack_at_def all_items_def)

lemma heap_all_items: "heap_items (v_heap v) \<subseteq> all_items v"
  by (auto simp: all_items_def)

lemma get_slot_items: "slot_items (get_slot k i v) \<subseteq> all_items v"
proof (cases "i < length (v_istack v)")
  case True
  then have c: "v_istack v ! i \<in> set (v_istack v)" by simp
  have n: "slot_items None = {}" by (simp add: slot_items_def)
  show ?thesis using True c nth_mem [of "c_sc (v_istack v ! i)" "v_scs v"]
    by (cases k) (auto simp: get_slot_def all_items_def static_of_def n Let_def split: if_splits)
qed (simp add: get_slot_def slot_items_def)

section \<open>Elements after a stack operation\<close>

lemma set_go_copy: "set (go_copy xs i ys) \<subseteq> set xs \<union> set ys"
  unfolding go_copy_def by (auto dest: in_set_takeD in_set_dropD)

lemma set_Swap: "Stack_Swap xs m n = Inr ys \<Longrightarrow> set ys \<subseteq> set xs"
  by (auto simp: Stack_Swap_def Let_def split: if_splits intro!: set_update_subsetI nth_mem)

lemma set_ReverseTop: "Stack_ReverseTop xs n = Inr ys \<Longrightarrow> set ys \<subseteq> set xs"
  by (auto simp: Stack_ReverseTop_def Let_def split: if_splits dest: in_set_takeD in_set_dropD)

lemma set_Roll:
  assumes "Stack_Roll xs n = Inr ys"
  shows "set ys \<subseteq> set xs"
proof (cases "n = 0")
  case True
  with assms show ?thesis by (simp add: Stack_Roll_def Let_def split: if_splits)
next
  case False
  let ?k = "length xs - 1 - nat n" and ?zs = "go_copy xs (length xs - 1 - nat n) (drop (length xs - nat n) xs)"
  have ys: "ys = ?zs[length xs - 1 := xs ! ?k]" and n: "0 \<le> n" "n < int (length xs)"
    using assms False by (auto simp: Stack_Roll_def Let_def split: if_splits)
  have "set ?zs \<subseteq> set xs" using set_go_copy [of xs ?k] set_drop_subset [of "length xs - nat n" xs] by blast
  moreover have "xs ! ?k \<in> set xs" using n by (intro nth_mem) linarith
  ultimately show ?thesis unfolding ys by (rule set_update_subsetI)
qed

lemma set_InsertAt: "Stack_InsertAt xs e n = Inr ys \<Longrightarrow> set ys \<subseteq> insert e (set xs)"
proof -
  assume a: "Stack_InsertAt xs e n = Inr ys"
  let ?l = "length xs"
  let ?zs = "go_copy (xs @ [e]) (?l - n + 1) (drop (?l - n) (take ?l (xs @ [e])))"
  have "ys = ?zs[?l - n := e]" using a by (simp add: Stack_InsertAt_def Let_def split: if_splits)
  moreover have "set ?zs \<subseteq> insert e (set xs)"
    using set_go_copy [of "xs @ [e]" "?l - n + 1"] set_drop_subset [of "?l - n" "take ?l (xs @ [e])"]
      set_take_subset [of ?l "xs @ [e]"] by fastforce
  ultimately show ?thesis by (simp only:) (rule set_update_subsetI, simp_all)
qed

lemma set_RemoveAt: "Stack_RemoveAt xs n = Inr (e, ys) \<Longrightarrow> e \<in> set xs \<and> set ys \<subseteq> set xs"
  by (auto simp: Stack_RemoveAt_def Let_def split: if_splits dest: in_set_takeD in_set_dropD)

section \<open>Conversions\<close>

definition converted :: "'i heap \<Rightarrow> 'i item \<Rightarrow> 'i item \<times> 'i heap \<Rightarrow> bool" where
  "converted h it r \<longleftrightarrow>
    r = (it, h) \<or> (\<exists>n. in_range n \<and> r = (IntI n, h)) \<or> (\<exists>bs. r = (BytesI bs, h)) \<or> (\<exists>b. r = (BoolI b, h)) \<or>
    (\<exists>a. r = NewStruct h (items h a)) \<or> (\<exists>a. r = NewArray h (items h a)) \<or> (\<exists>bs. r = new_buffer h bs)"

lemma map_sum_Inr: "map_sum id f x = Inr r \<Longrightarrow> \<exists>y. x = Inr y \<and> r = f y"
  by (cases x) auto

lemma converted_int: "map_sum id (\<lambda>i. (i, h)) (NewBigInteger n) = Inr r \<Longrightarrow> converted h it r"
  by (auto simp: NewBigInteger_iff converted_def split: if_splits)

lemma converted_values:
  "converted h it (it, h)" "converted h it (BytesI bs, h)" "converted h it (BoolI b, h)"
  "converted h it (NewStruct h (items h a))" "converted h it (NewArray h (items h a))" "converted h it (new_buffer h bs)"
  by (auto simp: converted_def)

lemma convertPrimitive_converted:
  assumes c: "convertPrimitive h it t = Inr r"
  shows "converted h it r"
proof (cases "item_Type it = t")
  case True
  with c show ?thesis by (auto simp: convertPrimitive_def converted_values)
next
  case False
  note C = c [unfolded convertPrimitive_def if_not_P [OF False]]
  consider "t = IntegerT" | "t = ByteArrayT" | "t = BufferT" | "t = BooleanT"
    using C by (auto split: if_splits)
  then show ?thesis
  proof cases
    case 1
    with C show ?thesis by (cases "TryInteger it") (auto intro: converted_int)
  next
    case 2
    with C show ?thesis by (cases "TryBytes h it") (auto simp: converted_values)
  next
    case 3
    with C show ?thesis by (cases "TryBytes h it") (auto simp: converted_values)
  next
    case 4
    with C show ?thesis by (cases "TryBool h it") (auto simp: converted_values)
  qed
qed

lemma item_Convert_converted:
  assumes c: "item_Convert h it t = Inr r"
  shows "converted h it r"
proof (cases it)
  case (BufferP a)
  show ?thesis using c BufferP
    by (cases "int_of_bytes (raw h a)")
       (auto simp: item_Convert_def converted_values split: if_splits intro: converted_int)
qed (use c in \<open>auto simp: item_Convert_def converted_values intro: convertPrimitive_converted split: if_splits\<close>)

lemma getJumpOffset_same: "snd (getJumpOffset i p v) = v"
  by (auto simp: getJumpOffset_def bindM_def ctxM_def liftM_def retM_def split: sum.split)

section \<open>The interface\<close>

locale vm_invariant =
  fixes I :: "'i vm \<Rightarrow> bool" and ok :: "'i item \<Rightarrow> bool" and E :: "'i vm_env"
  assumes data: "I v \<Longrightarrow> ctl v' = ctl v \<Longrightarrow> all_items v' \<subseteq> all_items v \<union> Collect ok \<Longrightarrow> I v'"
    and read: "I v \<Longrightarrow> all_items v \<subseteq> Collect ok"
    and ok_values: "ok NullI" "ok (BoolI b)" "ok (BytesI bs)" "ok (PointerI p bs bs')"
      "ok (ArrayP a)" "ok (StructP a)" "ok (MapP a)" "ok (BufferP a)"
    and ok_int: "in_range z \<Longrightarrow> ok (IntI z)"
    and hash: "I v \<Longrightarrow> I (upd_sc s (\<lambda>sc. sc\<lparr>sc_scriptHash := hsh\<rparr>) v)"
    and jump: "I v \<Longrightarrow> i < length (v_istack v) \<Longrightarrow> n < length (c_prog (v_istack v ! i)) \<Longrightarrow>
      I (upd_ctx i (\<lambda>c. c\<lparr>c_nextip := n\<rparr>) v)"
    and tries: "I v \<Longrightarrow> i < length (v_istack v) \<Longrightarrow>
      length ts \<le> MaxTryNestingDepth \<or> length ts \<le> length (c_tryStack (v_istack v ! i)) \<Longrightarrow>
      I (upd_ctx i (\<lambda>c. c\<lparr>c_tryStack := ts\<rparr>) v)"
    and call: "I v \<Longrightarrow> c \<in> set (v_istack v) \<Longrightarrow> length (v_istack v) < MaxInvocationStackSize \<Longrightarrow>
      I (v\<lparr>v_istack := v_istack v @
           [\<lparr>c_ip = 0, c_nextip = 0, c_prog = sc_prog (sc_of v c), c_sc = c_sc c, c_local = None,
             c_arguments = None, c_tryStack = [], c_retCount = -1\<rparr>]\<rparr>)"
    and pop: "I v \<Longrightarrow> I (v\<lparr>v_istack := butlast (v_istack v)\<rparr>)"
    and syscall: "e_SyscallHandler E = Some f \<Longrightarrow> keeps I anything (f sid)"
    and token: "keeps I anything (e_LoadToken E t)"
    and unload: "keeps I anything (e_onUnload E k c commit)"
    and unloaded: "keeps I anything (e_onUnloaded E k)"
begin

abbreviation oks :: "'i item list \<Rightarrow> bool" where "oks xs \<equiv> set xs \<subseteq> Collect ok"

subsection \<open>Stacks and counts\<close>

lemma dataS:
  assumes "I v" and "ctl v' = ctl v" and "all_items v' \<subseteq> all_items v \<union> S" and "S \<subseteq> Collect ok"
  shows "I v'"
  by (rule data [OF assms(1,2)]) (rule order_trans [OF assms(3) Un_mono [OF order_refl assms(4)]])

lemma keep_same: "I v \<Longrightarrow> ctl v' = ctl v \<Longrightarrow> all_items v' = all_items v \<Longrightarrow> I v'"
  by (metis data Un_upper1)

lemma oks_nth: "oks xs \<Longrightarrow> n < length xs \<Longrightarrow> ok (xs ! n)"
  using nth_mem by blast

lemma keep_stack: "I v \<Longrightarrow> oks xs \<Longrightarrow> I (v\<lparr>v_stacks := (v_stacks v)[s := xs]\<rparr>)"
  by (rule dataS [OF _ _ all_items_stacks]) simp_all

lemma keep_set_stack: "I v \<Longrightarrow> oks xs \<Longrightarrow> I (set_stack xs v)"
  unfolding set_stack_def by (rule keep_stack)

lemma keep_heap: "I v \<Longrightarrow> heap_items h \<subseteq> Collect ok \<Longrightarrow> I (v\<lparr>v_heap := h\<rparr>)"
  by (rule dataS [OF _ _ all_items_heap]) simp_all

lemma keep_refs: "I v \<Longrightarrow> I (v\<lparr>v_refs := r\<rparr>)"
  by (rule keep_same [of v]) simp_all

lemma keep_estack: "I v \<Longrightarrow> I (v\<lparr>v_estack := e\<rparr>)"
  by (rule keep_same [of v]) simp_all

lemma keep_state: "I v \<Longrightarrow> I (v\<lparr>v_state := st\<rparr>)"
  by (rule keep_same [of v]) simp_all

lemma keep_uncaught: "I v \<Longrightarrow> set_option x \<subseteq> Collect ok \<Longrightarrow> I (v\<lparr>v_uncaughtException := x\<rparr>)"
  by (rule dataS [OF _ _ all_items_uncaught]) simp_all

lemma keep_slot: "I v \<Longrightarrow> slot_items s \<subseteq> Collect ok \<Longrightarrow> I (set_slot k i s v)"
  by (rule dataS [OF _ _ all_items_set_slot]) simp_all

lemma oks_stack: "I v \<Longrightarrow> oks (stack_at v s)"
  by (rule order_trans [OF stack_items read])

lemma oks_cur: "I v \<Longrightarrow> oks (cur_stack v)"
  unfolding cur_stack_def by (rule oks_stack)

lemma ok_heap: "I v \<Longrightarrow> heap_items (v_heap v) \<subseteq> Collect ok"
  by (rule order_trans [OF heap_all_items read])

lemma ok_slot: "I v \<Longrightarrow> slot_items (get_slot k i v) \<subseteq> Collect ok"
  by (rule order_trans [OF get_slot_items read])

lemma ok_items: "heap_items h \<subseteq> Collect ok \<Longrightarrow> oks (items h a)"
  by (rule order_trans [OF heap_items_items])

lemma ok_elems: "heap_items h \<subseteq> Collect ok \<Longrightarrow> fst ` set (elems h a) \<union> snd ` set (elems h a) \<subseteq> Collect ok"
  by (rule order_trans [OF heap_items_elems])

lemma keeps_hr:
  assumes "\<And>hr. map content (fst (f hr)) = map content (fst hr)"
  shows "keeps I anything (hrM f)"
  unfolding hrM_def
proof (rule keeps_mod)
  fix v assume v: "I v"
  obtain h r where f: "f (v_heap v, v_refs v) = (h, r)" by (cases "f (v_heap v, v_refs v)")
  have "heap_items h = heap_items (v_heap v)"
    using assms [of "(v_heap v, v_refs v)"] f by (intro same_content_items) simp
  then have "I (v\<lparr>v_heap := h, v_refs := r\<rparr>)" using keep_refs keep_heap v ok_heap by simp
  with f show "I (let (h, r) = f (v_heap v, v_refs v) in v\<lparr>v_heap := h, v_refs := r\<rparr>)" by simp
qed

lemma k_refs_Add: "keeps I anything (refs_Add it)"
  unfolding refs_Add_def by (rule keeps_hr) simp

lemma k_refs_Remove: "keeps I anything (refs_Remove it)"
  unfolding refs_Remove_def by (rule keeps_hr) simp

lemma k_Remove_nil: "keeps I anything (hrM (ref_Remove_nil x))"
  by (rule keeps_hr) simp

lemma k_clearRefs: "keeps I anything (hrM (Slot_clearRefs s))"
  by (rule keeps_hr) simp

lemma k_refs_plus: "keeps I anything (refs_plus n)"
  unfolding refs_plus_def by (rule keeps_mod) (rule keep_refs)

lemma k_get_stack: "keeps I oks (getM cur_stack)"
  by (rule keeps_get) (rule oks_cur)

lemma k_get_heap: "keeps I (\<lambda>h. heap_items h \<subseteq> Collect ok) (getM v_heap)"
  by (rule keeps_get) (rule ok_heap)

lemma k_get_items: "keeps I oks (getM (\<lambda>v. items (v_heap v) a))"
  by (rule keeps_get) (rule ok_items, rule ok_heap)

lemma k_get_elems:
  "keeps I (\<lambda>m. fst ` set m \<union> snd ` set m \<subseteq> Collect ok) (getM (\<lambda>v. elems (v_heap v) a))"
  by (rule keeps_get) (rule ok_elems, rule ok_heap)

lemma k_get_slot: "keeps I (\<lambda>s. slot_items s \<subseteq> Collect ok) (getM (get_slot k i))"
  by (rule keeps_get) (rule ok_slot)

lemma k_get: "keeps I anything (getM f)"
  by (rule keeps_get) simp

lemma k_Len: "keeps I anything stack_Len"
  unfolding stack_Len_def by (rule k_get)

lemma k_pushNoRef: "ok it \<Longrightarrow> keeps I anything (pushNoRef it)"
  unfolding pushNoRef_def by (rule keeps_mod) (simp add: keep_set_stack oks_cur)

lemma k_PushItem: "ok it \<Longrightarrow> keeps I anything (PushItem it)"
  unfolding PushItem_def by (rule keeps_seq [OF k_pushNoRef k_refs_Add])

lemma k_pushItemCounted: "ok it \<Longrightarrow> keeps I anything (pushItemCounted it n)"
  unfolding pushItemCounted_def by (rule keeps_seq [OF k_pushNoRef k_refs_plus])

lemma k_popNoRef: "keeps I ok popNoRef"
proof (rule keepsI)
  fix v assume v: "I v"
  have b: "oks (butlast (cur_stack v))" using oks_cur [OF v] by (auto dest: in_set_butlastD)
  show "I (snd (popNoRef v))" using v b by (simp add: popNoRef_def keep_set_stack)
  fix x assume "fst (popNoRef v) = Inr x"
  then have "x \<in> set (cur_stack v)" by (auto simp: popNoRef_def split: if_splits)
  then show "ok x" using oks_cur [OF v] by auto
qed

lemma k_PopItem: "keeps I ok PopItem"
  unfolding PopItem_def
  by (rule keeps_bind [OF k_popNoRef], rule keeps_seq [OF k_refs_Remove], rule keeps_ret)

lemma k_PeekItem: "keeps I ok (PeekItem n)"
  unfolding PeekItem_def
  by (rule keeps_bind [OF k_get_stack], rule keeps_lift)
     (auto simp: Stack_Peek_def Let_def oks_nth split: if_splits)

lemma k_stackM:
  assumes "\<And>xs ys. f xs = Inr ys \<Longrightarrow> set ys \<subseteq> set xs \<union> Collect ok"
  shows "keeps I anything (stackM f)"
  unfolding stackM_def
  using assms
  by (intro keeps_bind [OF k_get_stack] keeps_bind [OF keeps_lift [where R = oks]] keeps_mod keep_set_stack) blast+


lemma k_RemoveAt: "keeps I ok (RemoveAt n)"
proof -
  have r: "keeps I (\<lambda>(e, ys). ok e \<and> oks ys) (liftM (Stack_RemoveAt xs n))" if "oks xs" for xs
  proof (rule keeps_lift)
    fix p assume p: "Stack_RemoveAt xs n = Inr p"
    obtain e ys where "p = (e, ys)" by (cases p)
    with p set_RemoveAt [of xs n e ys] that show "case p of (e, ys) \<Rightarrow> ok e \<and> oks ys" by auto
  qed
  show ?thesis unfolding RemoveAt_def
    by (rule keeps_bind [OF k_get_stack], rule keeps_bind [OF r], assumption)
       (auto intro!: keeps_seq [OF keeps_mod] keeps_seq [OF k_refs_Remove] keeps_ret keep_set_stack)
qed

lemma k_InsertAt:
  assumes "ok e"
  shows "keeps I anything (InsertAt e n)"
proof -
  have "keeps I anything (stackM (\<lambda>xs. Stack_InsertAt xs e n))"
  proof (rule k_stackM)
    fix xs ys assume "Stack_InsertAt xs e n = Inr ys"
    from set_InsertAt [OF this] assms show "set ys \<subseteq> set xs \<union> Collect ok" by auto
  qed
  then show ?thesis unfolding InsertAt_def by (rule keeps_seq [OF _ k_refs_Add])
qed

lemma k_stack_Clear: "keeps I anything stack_Clear"
  unfolding stack_Clear_def
  by (rule keeps_bind [OF k_get_stack], rule keeps_seq [OF keeps_for [OF k_refs_Remove]], rule keeps_mod)
     (simp add: keep_set_stack)

lemma k_popBigInt: "keeps I anything popBigInt"
  unfolding popBigInt_def by (rule keeps_bind [OF k_PopItem], rule keeps_lift) simp

lemma k_bytesM: "keeps I anything (bytesM it)"
  unfolding bytesM_def by (rule keeps_bind [OF k_get], rule keeps_lift) simp

lemma k_popBytes: "keeps I anything popBytes"
  unfolding popBytes_def by (rule keeps_bind [OF k_PopItem], rule k_bytesM)

lemma k_popBool: "keeps I anything popBool"
  unfolding popBool_def
  by (rule keeps_bind [OF k_PopItem], rule keeps_bind [OF k_get], rule keeps_lift) simp

lemma k_popString: "keeps I anything popString"
  unfolding popString_def
  by (rule keeps_bind [OF k_popBytes], rule keeps_seq [OF keeps_panic_if], rule keeps_ret) simp

lemma k_popInt: "keeps I anything popInt"
  unfolding popInt_def by (rule keeps_bind [OF k_popBigInt], rule keeps_lift) simp

lemma k_lift: "keeps I anything (liftM r)"
  by (rule keeps_lift) simp

lemma k_panic_if: "keeps I anything (panic_if b e)"
  by (rule keeps_weaken [OF keeps_panic_if]) simp

lemma k_ret: "keeps I anything (retM x)"
  by (rule keeps_ret) simp

lemma k_NewBigInteger: "keeps I ok (liftM (NewBigInteger n))"
  by (rule keeps_lift) (auto simp: NewBigInteger_iff ok_int split: if_splits)

lemma k_pushInt: "keeps I anything (pushInt n)"
  unfolding pushInt_def by (rule keeps_bind [OF k_NewBigInteger k_PushItem])

lemma k_pushBool: "keeps I anything (pushBool b)"
  unfolding pushBool_def by (rule k_PushItem) (rule ok_values)

lemma k_heapM:
  assumes "\<And>h x h'. heap_items h \<subseteq> Collect ok \<Longrightarrow> f h = Inr (x, h') \<Longrightarrow> heap_items h' \<subseteq> Collect ok \<and> R x"
  shows "keeps I R (heapM f)"
proof (rule keepsI)
  fix v assume v: "I v"
  show "I (snd (heapM f v))"
  proof (cases "f (v_heap v)")
    case (Inr p)
    then obtain x h' where "f (v_heap v) = Inr (x, h')" by (cases p) auto
    with assms [OF ok_heap [OF v] this] v show ?thesis by (simp add: heapM_def keep_heap)
  qed (use v in \<open>simp add: heapM_def\<close>)
  fix x assume "fst (heapM f v) = Inr x"
  then obtain h' where "f (v_heap v) = Inr (x, h')" by (auto simp: heapM_def split: sum.splits prod.splits)
  with assms [OF ok_heap [OF v]] show "R x" by blast
qed

lemma ok_alloc: "heap_items h \<subseteq> Collect ok \<Longrightarrow> content_items c \<subseteq> Collect ok \<Longrightarrow> heap_items (snd (alloc h c)) \<subseteq> Collect ok"
  by (simp add: heap_items_alloc)

lemma ok_put_content:
  "heap_items h \<subseteq> Collect ok \<Longrightarrow> content_items c \<subseteq> Collect ok \<Longrightarrow> heap_items (put_content h a c) \<subseteq> Collect ok"
  using heap_items_put_content by blast

lemma k_alloc: "content_items c \<subseteq> Collect ok \<Longrightarrow> keeps I anything (heapM (\<lambda>h. Inr (alloc h c)))"
  using ok_alloc by (intro k_heapM) (auto simp: alloc_def)

lemma content_items_simps [simp]:
  "content_items (Items xs) = set xs" "content_items (Elems es d) = fst ` set es \<union> snd ` set es" "content_items (Raw bs) = {}"
  by (simp_all add: content_items_def)

lemma k_pushBuffer: "keeps I anything (pushBuffer bs)"
  unfolding pushBuffer_def
proof (rule keeps_bind [OF _ k_PushItem])
  show "keeps I ok (heapM (\<lambda>h. Inr (new_buffer h bs)))"
    using ok_alloc [of _ "Raw bs"] by (intro k_heapM) (auto simp: new_buffer_def alloc_def ok_values)
qed

lemma k_heap_mod:
  "(\<And>h. heap_items h \<subseteq> Collect ok \<Longrightarrow> heap_items (f h) \<subseteq> Collect ok) \<Longrightarrow> keeps I anything (heap_modM f)"
  unfolding heap_modM_def by (rule keeps_mod) (simp add: keep_heap ok_heap)

lemma k_IncRC: "keeps I anything (heap_modM (\<lambda>h. IncRC h a))"
  by (rule k_heap_mod) (simp add: same_content_items [OF content_rc(1)])

lemma k_DecRC: "keeps I anything (heap_modM (\<lambda>h. DecRC h a))"
  by (rule k_heap_mod) (simp add: same_content_items [OF content_rc(2)])

lemmas k_rules = k_refs_Add k_refs_Remove k_refs_plus k_get_heap k_get_items k_get_elems k_get_stack
  k_PushItem k_pushItemCounted k_popNoRef k_PopItem k_PeekItem k_RemoveAt k_InsertAt k_stack_Clear k_Len k_popBigInt k_bytesM
  k_popBytes k_popBool k_popString k_popInt k_pushInt k_pushBool k_pushBuffer k_IncRC k_DecRC ok_values ok_int


subsection \<open>The groups of instructions that work on the stack\<close>

lemma k_moves:
  "keeps I anything (stackM (\<lambda>xs. Stack_Swap xs m n))" "keeps I anything (stackM (\<lambda>xs. Stack_Roll xs k))"
  "keeps I anything (stackM (\<lambda>xs. Stack_ReverseTop xs k))"
  by (rule k_stackM, drule set_Swap set_Roll set_ReverseTop, blast)+

lemma k_exec_stack: "keeps I anything (exec_stack op)"
  unfolding exec_stack_def by (assumption | rule keeps_intros k_rules k_moves k_ret)+

lemma k_MEMCPY: "keeps I anything exec_MEMCPY"
proof -
  have m: "keeps I anything (modM (\<lambda>v. v\<lparr>v_heap := put_content (v_heap v) a (Raw bs)\<rparr>))" for a bs
    by (rule keeps_mod) (simp add: keep_heap ok_heap ok_put_content)
  have c: "keeps I anything (case it of BufferP a \<Rightarrow> f a | _ \<Rightarrow> panicM RuntimePanic)"
    if "\<And>a. keeps I anything (f a)" for f :: "addr \<Rightarrow> ('i, unit) vm_op" and it :: "'i item"
    using that keeps_panic by (cases it) auto
  show ?thesis unfolding exec_MEMCPY_def by (assumption | rule keeps_intros k_rules m c k_get)+
qed

lemma k_exec_splice: "keeps I anything (exec_splice op)"
  unfolding exec_splice_def by (assumption | rule keeps_intros k_rules k_MEMCPY)+

lemma k_unary: "keeps I anything (unary f)"
  unfolding unary_def by (assumption | rule keeps_intros k_rules)+

lemma k_binary: "keeps I anything (binary g)"
  unfolding binary_def by (assumption | rule keeps_intros k_rules)+

lemma k_compare: "keeps I anything (compareM p)" "keeps I anything (compare_null p)"
  unfolding compareM_def compare_null_def by (assumption | rule keeps_intros k_rules k_lift)+

lemma k_exec_bit: "keeps I anything (exec_bit E op)"
  unfolding exec_bit_def by (assumption | rule keeps_intros k_rules k_unary k_binary k_lift)+

lemma k_MODPOW: "keeps I anything exec_MODPOW"
  unfolding exec_MODPOW_def by (assumption | rule keeps_intros k_rules)+

lemma k_exec_arith: "keeps I anything (exec_arith E op)"
  unfolding exec_arith_def exec_POW_def exec_shift_def by (assumption | rule keeps_intros k_rules k_unary k_binary k_MODPOW k_ret)+

lemma k_exec_logic: "keeps I anything (exec_logic op)"
  unfolding exec_logic_def by (assumption | rule keeps_intros k_rules k_compare k_binary)+


subsection \<open>Slots\<close>

lemma slot_items_simps [simp]: "slot_items None = {}" "slot_items (Some (replicate n None)) = {}"
  by (simp_all add: slot_items_def)

lemma slot_items_update: "slot_items (Some (xs[j := Some it])) \<subseteq> insert it (slot_items (Some xs))"
  using set_update_subset_insert [of xs j "Some it"] by (auto simp: slot_items_def)

lemma k_slot_init: "keeps I anything (slot_init k i n)"
proof -
  have "keeps I anything (case p of (s', r') \<Rightarrow> modM (\<lambda>v. (set_slot k i s' v)\<lparr>v_refs := r'\<rparr>))"
    if "Slot_init s n r = Inr p" for s r p
    using that by (auto simp: Slot_init_def keep_slot keep_refs split: if_splits intro!: keeps_mod)
  then show ?thesis unfolding slot_init_def
    by (intro keeps_bind [OF k_get] keeps_bind [OF keeps_lift [where R = "\<lambda>p. Slot_init s n r = Inr p" for s r]]) 
qed

lemma k_initFromStack: "keeps I anything (initFromStack k i n)"
proof -
  have m: "keeps I anything (modM (\<lambda>v. set_slot k i (map_option (\<lambda>xs. xs[j := Some it]) (get_slot k i v)) v))"
    if "ok it" for j it
  proof (rule keeps_mod)
    fix v assume v: "I v"
    have "slot_items (map_option (\<lambda>xs. xs[j := Some it]) (get_slot k i v)) \<subseteq> Collect ok"
      using slot_items_update [of _ j it] ok_slot [OF v, of k i] that by (cases "get_slot k i v") auto
    with v show "I (set_slot k i (map_option (\<lambda>xs. xs[j := Some it]) (get_slot k i v)) v)" by (rule keep_slot)
  qed
  have r: "keeps I anything (modM (set_slot k i (Some (replicate n None))))" by (rule keeps_mod) (simp add: keep_slot)
  show ?thesis unfolding initFromStack_def by (assumption | rule keeps_intros k_get k_rules r keeps_for m)+
qed

lemma k_slot_store: "keeps I anything (slot_store k i j)"
proof -
  have m: "keeps I anything (modM (set_slot k i (Some (xs[j := Some it]))))"
    if "slot_items s \<subseteq> Collect ok" "s = Some xs" "ok it" for s xs it
    using that slot_items_update [of xs j it] by (intro keeps_mod keep_slot) auto
  show ?thesis unfolding slot_store_def by (assumption | rule k_get_slot keeps_intros k_rules k_Remove_nil m)+
qed

lemma k_Slot_Get: "slot_items s \<subseteq> Collect ok \<Longrightarrow> keeps I ok (liftM (Slot_Get s j))"
proof (rule keeps_lift)
  fix x assume s: "slot_items s \<subseteq> Collect ok" and g: "Slot_Get s j = Inr x"
  then obtain xs where xs: "s = Some xs" "j < length xs" by (auto simp: Slot_Get_def split: option.splits if_splits)
  have "xs ! j = Some it \<Longrightarrow> it \<in> slot_items s" for it
    using xs nth_mem [of j xs] by (auto simp: slot_items_def)
  then show "ok x" using s g xs by (cases "xs ! j") (auto simp: Slot_Get_def ok_values)
qed

lemma k_slot_load: "keeps I anything (slot_load k i j)"
  unfolding slot_load_def by (assumption | rule k_get_slot keeps_intros k_Slot_Get k_rules)+

lemma k_exec_slot: "keeps I anything (exec_slot i op parameter)"
  unfolding exec_slot_def
  by (assumption | rule keeps_intros k_get k_slot_init k_initFromStack k_slot_store k_slot_load)+

subsection \<open>Objects\<close>

lemma k_ScriptHash: "keeps I anything (ScriptHash E i)"
  by (rule keepsI) (auto simp: ScriptHash_def Let_def hash)

lemma k_ctxM: "keeps I anything (ctxM i)"
  by (rule keepsI) (auto simp: ctxM_def)

lemma k_getJumpOffset: "keeps I anything (getJumpOffset i parameter)"
  unfolding getJumpOffset_def by (assumption | rule keeps_intros k_ctxM k_lift k_ret)+

lemma k_exec_const: "keeps I anything (exec_const E i op parameter)"
proof -
  have f: "keeps I anything (case FromBytes x of Inl _ \<Rightarrow> panicM RuntimePanic | Inr n \<Rightarrow> pushInt n)" for x
    using keeps_panic k_pushInt by (cases "FromBytes x") auto
  show ?thesis unfolding exec_const_def
    by (assumption | rule keeps_intros f k_getJumpOffset k_ScriptHash k_get k_rules)+
qed

lemma ok_alloc_result:
  "heap_items h \<subseteq> Collect ok \<Longrightarrow> oks xs \<Longrightarrow> NewStruct h xs = (x, h') \<or> NewArray h xs = (x, h') \<or> new_buffer h bs = (x, h') \<Longrightarrow>
    heap_items h' \<subseteq> Collect ok \<and> ok x"
  using ok_alloc [of h "Items xs"] ok_alloc [of h "Raw bs"]
  by (auto simp: NewStruct_def NewArray_def new_buffer_def alloc_def ok_values)

lemma k_exec_type: "keeps I anything (exec_type op parameter)"
proof -
  have conv: "heap_items h' \<subseteq> Collect ok \<and> ok x"
    if "ok it" and h: "heap_items h \<subseteq> Collect ok" and "item_Convert h it t = Inr (x, h')" for h it t x h'
    using item_Convert_converted [OF that(3)] that(1,2) ok_alloc_result [OF h ok_items [OF h], of _ x h']
    unfolding converted_def by (elim disjE exE) (metis ok_values ok_int prod.inject)+
  show ?thesis unfolding exec_type_def
    by (assumption | rule keeps_intros k_rules k_heapM conv k_panic_if)+
qed


subsection \<open>Control\<close>

lemma k_bind_ctx:
  assumes "\<And>v. I v \<Longrightarrow> i < length (v_istack v) \<Longrightarrow> I (snd (F (v_istack v ! i) v))"
  shows "keeps I anything (bindM (ctxM i) F)"
  using assms by (intro keepsI) (auto simp: bindM_def ctxM_def)

lemma at_seq_mod: "seqM (modM f) m v = m (f v)"
  by (simp add: seqM_def bindM_def modM_def)

lemma k_Jump: "keeps I anything (Jump i pos)"
  unfolding Jump_def by (rule k_bind_ctx) (auto simp: panicM_def modM_def jump)

lemma k_checkInvocation: "keeps I anything checkInvocationStackSize"
  unfolding checkInvocationStackSize_def by (rule keeps_bind [OF k_get k_panic_if])

lemma k_vm_call: "keeps I anything (vm_call i pos)"
proof (rule keepsI)
  fix v assume v: "I v"
  show "I (snd (vm_call i pos v))"
  proof (cases "length (v_istack v) < MaxInvocationStackSize \<and> i < length (v_istack v)")
    case True
    let ?c = "v_istack v ! i"
    let ?v = "v\<lparr>v_istack := v_istack v @
      [\<lparr>c_ip = 0, c_nextip = 0, c_prog = sc_prog (sc_of v ?c), c_sc = c_sc ?c, c_local = None,
        c_arguments = None, c_tryStack = [], c_retCount = -1\<rparr>]\<rparr>"
    have "I ?v" using True v by (intro call) simp_all
    moreover have "vm_call i pos v = Jump (length (v_istack v)) pos ?v"
      using True by (simp add: vm_call_def checkInvocationStackSize_def seqM_def bindM_def getM_def panic_if_def retM_def
          ctxM_def modM_def)
    ultimately show ?thesis using keepsD [OF k_Jump] by simp
  next
    case False
    then have "snd (vm_call i pos v) = v"
      by (auto simp: vm_call_def checkInvocationStackSize_def seqM_def bindM_def getM_def panic_if_def retM_def
          panicM_def ctxM_def)
    with v show ?thesis by simp
  qed
qed simp

lemma k_tries: "I v \<Longrightarrow> i < length (v_istack v) \<Longrightarrow>
  length ts \<le> MaxTryNestingDepth \<or> length ts \<le> length (c_tryStack (v_istack v ! i)) \<Longrightarrow>
  I (upd_ctx i (\<lambda>c. c\<lparr>c_tryStack := ts\<rparr>) v)"
  by (rule tries)

lemma length_replace_top: "length (butlast ts @ [e]) \<le> MaxTryNestingDepth \<or> length (butlast ts @ [e]) \<le> length ts"
  by (cases ts) auto

lemma k_exec_TRY: "keeps I anything (exec_TRY i op parameter)"
proof -
  obtain cp fp where t: "GetTryParams op parameter = (cp, fp)" by (cases "GetTryParams op parameter")
  have push: "upd_ctx i (\<lambda>c. c\<lparr>c_tryStack := c_tryStack c @ [e]\<rparr>) v =
      upd_ctx i (\<lambda>c. c\<lparr>c_tryStack := c_tryStack (v_istack v ! i) @ [e]\<rparr>) v" for e v
    by (simp add: upd_ctx_def)
  show ?thesis unfolding exec_TRY_def t prod.case Let_def
  proof (rule k_bind_ctx)
    fix v assume v: "I v" "i < length (v_istack v)"
    have "I (upd_ctx i (\<lambda>c. c\<lparr>c_tryStack := c_tryStack c @ [e]\<rparr>) v)"
      if "\<not> MaxTryNestingDepth \<le> length (c_tryStack (v_istack v ! i))" for e
      unfolding push using v that by (intro tries) auto
    then show "I (snd (seqM (panic_if (MaxTryNestingDepth \<le> length (c_tryStack (v_istack v ! i))) (Message ''maximum TRY depth exceeded''))
      (bindM (getJumpOffset i cp) (\<lambda>cOffset. bindM (getJumpOffset i fp) (\<lambda>fOffset.
        if cOffset = int (c_ip (v_istack v ! i)) \<and> fOffset = int (c_ip (v_istack v ! i)) then panicM (Message ''invalid offset for TRY*'')
        else modM (upd_ctx i (\<lambda>c. c\<lparr>c_tryStack := c_tryStack c @
          [newExceptionHandlingContext (if cOffset = int (c_ip (v_istack v ! i)) then - 1 else cOffset)
            (if cOffset \<noteq> int (c_ip (v_istack v ! i)) \<and> fOffset = int (c_ip (v_istack v ! i)) then - 1 else fOffset)]\<rparr>)))))
      v))"
      using v getJumpOffset_same [of i cp v] getJumpOffset_same [of i fp v]
      by (auto simp: seqM_def bindM_def panic_if_def panicM_def retM_def modM_def split: prod.splits sum.splits)
  qed
qed

lemma k_exec_ENDTRY: "keeps I anything (exec_ENDTRY i parameter)"
proof -
  have j: "I (snd (Jump i p v))" if "I v" for p v using keepsD [OF k_Jump that] .
  show ?thesis unfolding exec_ENDTRY_def Let_def
  proof (rule k_bind_ctx)
    fix v assume v: "I v" "i < length (v_istack v)"
    let ?ts = "c_tryStack (v_istack v ! i)"
    have t: "I (upd_ctx i (\<lambda>c. c\<lparr>c_tryStack := butlast ?ts @ [e]\<rparr>) v)" for e
      using v length_replace_top by (intro tries)
    have b: "I (upd_ctx i (\<lambda>c. c\<lparr>c_tryStack := butlast ?ts\<rparr>) v)" using v by (intro tries) auto
    show "I (snd (bindM (liftM (Stack_Peek ?ts 0)) (\<lambda>eCtx.
      seqM (panic_if (eState eCtx = eFinally) (Message ''invalid exception handling state during ENDTRY*''))
        (bindM (getJumpOffset i parameter) (\<lambda>eOffset.
          if HasFinally eCtx
          then seqM (modM (upd_ctx i (\<lambda>c. c\<lparr>c_tryStack := butlast ?ts @ [eCtx\<lparr>eState := eFinally, EndOffset := eOffset\<rparr>]\<rparr>)))
            (Jump i (FinallyOffset eCtx))
          else seqM (modM (upd_ctx i (\<lambda>c. c\<lparr>c_tryStack := butlast ?ts\<rparr>))) (Jump i eOffset)))) v))"
      using v getJumpOffset_same [of i parameter v] j [OF t] j [OF b]
      by (auto simp: seqM_def bindM_def liftM_def panic_if_def panicM_def retM_def modM_def split: prod.splits sum.splits)
  qed
qed


lemma k_NullI_to_caller:
  "keeps I anything (modM (\<lambda>v. let s = sc_estack (sc_of v c) in v\<lparr>v_stacks := (v_stacks v)[s := stack_at v s @ [NullI]]\<rparr>))"
  by (rule keeps_mod) (simp add: Let_def keep_stack oks_stack ok_values)

lemma k_DynamicOnUnload: "keeps I anything (DynamicOnUnload ctx commit)"
  unfolding DynamicOnUnload_def
  by (assumption | rule keeps_intros k_get k_NullI_to_caller k_refs_Add k_ret)+

lemma k_unloadContext: "keeps I anything (unloadContext E ctx)"
proof -
  have cb: "keeps I anything (case x of UnloadDynamic \<Rightarrow> DynamicOnUnload ctx commit | UnloadExternal k \<Rightarrow> e_onUnload E k ctx commit)"
    for x commit using k_DynamicOnUnload unload by (cases x) auto
  show ?thesis unfolding unloadContext_def
    by (assumption | rule k_clearRefs cb unloaded keeps_intros k_get k_ret)+
qed

lemma k_pop_context: "keeps I anything (modM (\<lambda>v. v\<lparr>v_istack := butlast (v_istack v)\<rparr>))"
  by (rule keeps_mod) (rule pop)

lemma k_unload_top: "keeps I anything (unload_top E n)"
  by (induction n) (simp_all, (assumption | rule keeps_intros k_get k_ret k_pop_context k_unloadContext)+)

lemma k_uncaught: "keeps I (\<lambda>x. set_option x \<subseteq> Collect ok) (getM v_uncaughtException)"
proof (rule keeps_get)
  fix v assume "I v"
  have "set_option (v_uncaughtException v) \<subseteq> all_items v" by (simp add: all_items_def)
  then show "set_option (v_uncaughtException v) \<subseteq> Collect ok" by (rule order_trans) (rule read [OF \<open>I v\<close>])
qed

lemma k_set_uncaught: "set_option x \<subseteq> Collect ok \<Longrightarrow> keeps I anything (modM (\<lambda>v. v\<lparr>v_uncaughtException := x\<rparr>))"
  by (rule keeps_mod) (simp add: keep_uncaught)

lemma k_catch: "keeps I anything
  (bindM (getM v_uncaughtException) (\<lambda>exc. seqM (PushItem (case exc of Some it \<Rightarrow> it | None \<Rightarrow> NullI))
    (seqM (modM (\<lambda>v. v\<lparr>v_uncaughtException := None\<rparr>)) (Jump i p))))"
proof -
  have "ok (case exc of Some it \<Rightarrow> it | None \<Rightarrow> NullI)" if "set_option exc \<subseteq> Collect ok" for exc
    using that ok_values by (cases exc) auto
  then show ?thesis
    by (intro keeps_bind [OF k_uncaught] keeps_seq [OF k_PushItem] keeps_seq [OF k_set_uncaught] k_Jump) simp_all
qed

lemma k_enter_handler: "keeps I anything (enter_handler E i n)"
proof -
  have j: "I (snd (Jump i p v))" if "I v" for p v using keepsD [OF k_Jump that] .
  show ?thesis unfolding enter_handler_def Let_def
  proof (rule keeps_seq [OF k_unload_top], rule k_bind_ctx)
    fix v assume v: "I v" "i < length (v_istack v)"
    let ?ts = "c_tryStack (v_istack v ! i)"
    have t: "I (upd_ctx i (\<lambda>c. c\<lparr>c_tryStack := butlast ?ts @ [e]\<rparr>) (v\<lparr>v_estack := s\<rparr>))" for e s
      using v length_replace_top by (intro tries keep_estack) simp_all
    show "I (snd (seqM (modM (\<lambda>va. va\<lparr>v_estack := sc_estack (sc_of va (v_istack v ! i))\<rparr>))
       (if eState (last ?ts) = eTry \<and> HasCatch (last ?ts)
        then seqM (modM (upd_ctx i (\<lambda>c. c\<lparr>c_tryStack := butlast ?ts @ [last ?ts\<lparr>eState := eCatch\<rparr>]\<rparr>)))
              (bindM (getM v_uncaughtException)
                (\<lambda>exc. seqM (PushItem (case exc of None \<Rightarrow> NullI | Some it \<Rightarrow> it))
                        (seqM (modM (v_uncaughtException_update Map.empty)) (Jump i (CatchOffset (last ?ts))))))
        else seqM (modM (upd_ctx i (\<lambda>c. c\<lparr>c_tryStack := butlast ?ts @ [last ?ts\<lparr>eState := eFinally\<rparr>]\<rparr>)))
              (Jump i (FinallyOffset (last ?ts)))) v))"
      using keepsD [OF k_catch t] j [OF t] by (simp add: at_seq_mod)
  qed
qed

lemma length_open_handlers: "length (open_handlers ts) \<le> length ts"
  unfolding open_handlers_def using length_dropWhile_le [of handler_done "rev ts"] by simp

lemma k_handle_from: "I v \<Longrightarrow> I (snd (handle_from E n v))"
proof (induction "length (v_istack v) - n" arbitrary: n v)
  case 0
  then show ?case by (simp add: handle_from.simps panicM_def)
next
  case (Suc m)
  let ?i = "length (v_istack v) - 1 - n"
  let ?ts = "open_handlers (c_tryStack (v_istack v ! ?i))"
  let ?v = "upd_ctx ?i (\<lambda>c. c\<lparr>c_tryStack := ?ts\<rparr>) v"
  have n: "\<not> length (v_istack v) \<le> n" "?i < length (v_istack v)" using Suc(2) by auto
  have v: "I ?v" using Suc(3) n length_open_handlers by (intro tries) auto
  have "m = length (v_istack ?v) - Suc n" using Suc(2) by (simp add: upd_ctx_def)
  then have "I (snd (handle_from E (Suc n) ?v))" using Suc(1) v by blast
  moreover have "I (snd (enter_handler E ?i n ?v))" using keepsD [OF k_enter_handler v] .
  ultimately show ?case using n(1) by (subst handle_from.simps, cases "?ts = []") (simp_all add: Let_def)
qed

lemma k_handleException: "keeps I anything (handleException E)"
  unfolding handleException_def by (rule keepsI) (simp_all add: k_handle_from)

lemma k_vm_throw: "ok it \<Longrightarrow> keeps I anything (vm_throw E it)"
  unfolding vm_throw_def by (rule keeps_seq [OF k_set_uncaught k_handleException]) simp

lemma k_exec_ENDFINALLY: "keeps I anything (exec_ENDFINALLY E i)"
proof -
  have j: "I (snd (Jump i p v))" if "I v" for p v using keepsD [OF k_Jump that] .
  have "keeps I anything (bindM (ctxM i) (\<lambda>c. let ts = c_tryStack c in
    if ts = [] then panicM RuntimePanic
    else seqM (modM (upd_ctx i (\<lambda>c. c\<lparr>c_tryStack := butlast ts\<rparr>))) (Jump i (EndOffset (last ts)))))"
  proof (rule k_bind_ctx)
    fix v assume v: "I v" "i < length (v_istack v)"
    let ?ts = "c_tryStack (v_istack v ! i)"
    have "I (upd_ctx i (\<lambda>c. c\<lparr>c_tryStack := butlast ?ts\<rparr>) v)" using v by (intro tries) auto
    then show "I (snd ((let ts = ?ts in if ts = [] then panicM RuntimePanic
      else seqM (modM (upd_ctx i (\<lambda>c. c\<lparr>c_tryStack := butlast ts\<rparr>))) (Jump i (EndOffset (last ts)))) v))"
      using v j by (simp add: Let_def at_seq_mod panicM_def)
  qed
  then show ?thesis unfolding exec_ENDFINALLY_def by (intro keeps_bind [OF k_get] keeps_if k_handleException)
qed

lemma k_return_values: "keeps I anything (return_values c)"
proof -
  have m: "keeps I anything (modM (\<lambda>v. v\<lparr>v_stacks := (v_stacks v)[new := stack_at v new @ vals], v_estack := new\<rparr>))"
    if "oks vals" for new vals
    using that by (intro keeps_mod) (simp add: keep_stack keep_estack oks_stack)
  have g: "keeps I (\<lambda>(new, vals). oks vals) (getM (\<lambda>v. (sc_estack (sc_of v c'), stack_at v old)))" for c' old
    by (rule keeps_get) (simp add: oks_stack)
  have o: "keeps I anything (case p of (new, vals) \<Rightarrow> F new vals)"
    if "case p of (new, vals) \<Rightarrow> oks vals" "\<And>new vals. oks vals \<Longrightarrow> keeps I anything (F new vals)"
    for p and F :: "nat \<Rightarrow> 'i item list \<Rightarrow> ('i, unit) vm_op"
    using that by (cases p) auto
  show ?thesis unfolding return_values_def
    by (assumption | rule g o keeps_bind keeps_seq keeps_panic_if keeps_if keeps_option keeps_prod k_get k_ret m)+
qed

lemma k_exec_RET: "keeps I anything (exec_RET E)"
proof -
  have h: "keeps I anything (modM (\<lambda>v. if v_istack v = [] then v\<lparr>v_state := stateHalt\<rparr> else v))"
    by (rule keeps_mod) (simp add: keep_state)
  show ?thesis unfolding exec_RET_def
    by (assumption | rule keeps_intros k_get k_pop_context k_return_values h k_unloadContext)+
qed

lemma k_exec_flow: "keeps I anything (exec_flow E i op parameter)"
proof -
  have jmp: "keeps I anything (exec_jump i op parameter)" unfolding exec_jump_def
    by (assumption | rule keeps_intros k_getJumpOffset k_rules k_lift k_ret k_Jump)+
  have calla: "keeps I anything (exec_CALLA E i)"
  proof -
    have "keeps I anything (case it of PointerI pos script hsh \<Rightarrow> f pos hsh | _ \<Rightarrow> panicM RuntimePanic)"
      if "\<And>pos hsh. keeps I anything (f pos hsh)" for f :: "int \<Rightarrow> bytes \<Rightarrow> ('i, unit) vm_op" and it :: "'i item"
      using that keeps_panic by (cases it) auto
    then show ?thesis unfolding exec_CALLA_def
      by (rule keeps_bind [OF k_PopItem]) (intro keeps_bind [OF k_ScriptHash] keeps_if keeps_panic k_vm_call)
  qed
  show ?thesis unfolding exec_flow_def
    by (assumption | rule keeps_intros k_ret jmp k_getJumpOffset k_vm_call calla token k_rules k_panic_if k_vm_throw
        k_exec_TRY k_exec_ENDTRY k_exec_ENDFINALLY k_exec_RET syscall)+
qed


subsection \<open>Compound items\<close>

lemma k_new_counted: "oks xs \<Longrightarrow> keeps I ok (new_counted struct xs)"
proof -
  assume xs: "oks xs"
  have "keeps I anything (heapM (\<lambda>h. Inr (alloc h (Items xs))))" using xs by (intro k_alloc) simp
  then show ?thesis unfolding new_counted_def
    by (rule keeps_bind) (rule keeps_seq [OF k_IncRC], rule keeps_ret, simp add: ok_values)
qed

lemma ok_clone_tasks:
  "clone_tasks h n ts = Inr h' \<Longrightarrow> heap_items h \<subseteq> Collect ok \<Longrightarrow> heap_items h' \<subseteq> Collect ok"
proof (induction h n ts rule: clone_tasks.induct)
  case (2 h limit d j ts)
  show ?case
  proof (cases "limit = 0 \<or> as_Struct (items h d ! j) = None")
    case True
    with 2 show ?thesis by (cases "limit = 0") auto
  next
    case False
    then obtain s where s: "as_Struct (items h d ! j) = Some s" "limit \<noteq> 0" by auto
    let ?h = "snd (alloc h (Items (items h s)))"
    let ?h' = "put_content ?h d (Items ((items h d)[j := StructP (length h)]))"
    have "heap_items ?h \<subseteq> Collect ok" using 2(4) ok_items by (intro ok_alloc) simp_all
    moreover have "oks ((items h d)[j := StructP (length h)])"
      using ok_items [OF 2(4)] by (intro set_update_subsetI) (simp_all add: ok_values)
    ultimately have h': "heap_items ?h' \<subseteq> Collect ok" by (intro ok_put_content) simp_all
    have "clone_tasks ?h' (limit - 1) (map (Pair (length h)) [0..<length (items h s)] @ ts) = Inr h'"
      using 2(3) s by (simp add: alloc_def)
    with 2(2) [OF s(2) s(1) refl _ refl] h' show ?thesis by (simp add: alloc_def)
  qed
qed simp

lemma k_cloneIfStruct: "ok it \<Longrightarrow> keeps I (\<lambda>(c, s). ok c) (cloneIfStruct it)"
proof -
  assume it: "ok it"
  have c: "keeps I ok (heapM (\<lambda>h. Struct_Clone h a))" for a
  proof (rule k_heapM)
    fix h x h' assume h: "heap_items h \<subseteq> Collect ok" and c: "Struct_Clone h a = Inr (x, h')"
    let ?h = "snd (alloc h (Items (items h a)))"
    have "heap_items ?h \<subseteq> Collect ok" using h ok_items by (intro ok_alloc) simp_all
    moreover have "clone_tasks ?h (MaxDeserialized - 1) (map (Pair (length h)) [0..<length (items h a)]) = Inr h'"
      and "x = StructP (length h)"
      using map_sum_Inr [OF c [unfolded Struct_Clone_def Let_def alloc_def prod.case]] by (auto simp: alloc_def)
    ultimately show "heap_items h' \<subseteq> Collect ok \<and> ok x" using ok_clone_tasks ok_values by blast
  qed
  show ?thesis unfolding cloneIfStruct_def
    by (rule keeps_option) (use it in \<open>auto intro!: keeps_bind [OF c] keeps_ret\<close>)
qed

lemma k_case_clone:
  "(case p of (c, s) \<Rightarrow> ok c) \<Longrightarrow> (\<And>c s. ok c \<Longrightarrow> keeps I Q (F c s)) \<Longrightarrow> keeps I Q (case p of (c, s) \<Rightarrow> F c s)"
  by (cases p) auto

lemma k_seq_heap:
  assumes "\<And>h h'. heap_items h \<subseteq> Collect ok \<Longrightarrow> f h = Inr h' \<Longrightarrow> heap_items h' \<subseteq> Collect ok"
  shows "keeps I anything (heapM (\<lambda>h. map_sum id (Pair ()) (f h)))"
  using assms by (intro k_heapM) (auto dest!: map_sum_Inr)

lemma ok_seq_Append: "heap_items h \<subseteq> Collect ok \<Longrightarrow> ok it \<Longrightarrow> seq_Append h a it = Inr h' \<Longrightarrow> heap_items h' \<subseteq> Collect ok"
  using ok_items [of h a] ok_put_content [of h "Items (items h a @ [it])" a] by (auto simp: seq_Append_def split: if_splits)

lemma ok_seq_Remove: "heap_items h \<subseteq> Collect ok \<Longrightarrow> seq_Remove h a n = Inr h' \<Longrightarrow> heap_items h' \<subseteq> Collect ok"
  using ok_items [of h a] ok_put_content [of h "Items (take n (items h a) @ drop (n + 1) (items h a))" a]
    set_take_subset [of n "items h a"] set_drop_subset [of "n + 1" "items h a"]
  by (simp add: seq_Remove_def split: if_splits) blast

lemma ok_clear: "heap_items h \<subseteq> Collect ok \<Longrightarrow> seq_Clear h a = Inr h' \<or> Map_Clear h a = Inr h' \<Longrightarrow> heap_items h' \<subseteq> Collect ok"
  using ok_put_content [of h "Items []" a] ok_put_content [of h "Elems [] Map.empty" a]
  by (auto simp: seq_Clear_def Map_Clear_def split: if_splits)


lemma ok_pair: "fst ` set es \<union> snd ` set es \<subseteq> Collect ok \<Longrightarrow> p \<in> set es \<Longrightarrow> ok (fst p) \<and> ok (snd p)"
  by auto

lemma ok_pairs: "(\<And>p. p \<in> set es \<Longrightarrow> ok (fst p) \<and> ok (snd p)) \<Longrightarrow> content_items (Elems es d) \<subseteq> Collect ok"
  by auto

lemma ok_Map_Add:
  assumes h: "heap_items h \<subseteq> Collect ok" and kv: "ok key" "ok val" and a: "Map_Add h a key val = Inr (old, h')"
  shows "heap_items h' \<subseteq> Collect ok \<and> set_option old \<subseteq> Collect ok"
proof -
  obtain c where c: "hashCode h key = Inr c" using a by (auto simp: Map_Add_def split: option.splits if_splits sum.splits)
  note e = ok_elems [OF h, of a]
  show ?thesis
  proof (cases "dict h a c")
    case None
    then have "old = None" "h' = put_content h a (Elems (elems h a @ [(key, val)]) ((dict h a)(c \<mapsto> length (elems h a))))"
      using a c by (auto simp: Map_Add_def split: option.splits if_splits)
    moreover have "content_items (Elems (elems h a @ [(key, val)]) ((dict h a)(c \<mapsto> length (elems h a)))) \<subseteq> Collect ok"
      using kv e by auto
    ultimately show ?thesis using ok_put_content [OF h] by simp
  next
    case (Some i)
    then have i: "i < length (elems h a)" and old: "old = Some (snd (elems h a ! i))"
      and h': "h' = put_content h a (Elems ((elems h a)[i := (fst (elems h a ! i), val)]) (dict h a))"
      using a c by (auto simp: Map_Add_def split: option.splits if_splits)
    have m: "elems h a ! i \<in> set (elems h a)" using i by simp
    have "content_items (Elems ((elems h a)[i := (fst (elems h a ! i), val)]) (dict h a)) \<subseteq> Collect ok"
    proof (rule ok_pairs)
      fix p assume "p \<in> set ((elems h a)[i := (fst (elems h a ! i), val)])"
      then have "p \<in> insert (fst (elems h a ! i), val) (set (elems h a))" by (rule subsetD [OF set_update_subset_insert])
      then show "ok (fst p) \<and> ok (snd p)" using ok_pair [OF e] ok_pair [OF e m] kv by (cases p) auto
    qed
    then show ?thesis unfolding h' old using h m e ok_put_content by auto
  qed
qed

lemma ok_Map_Drop: "heap_items h \<subseteq> Collect ok \<Longrightarrow> Map_Drop h a i = Inr h' \<Longrightarrow> heap_items h' \<subseteq> Collect ok"
proof -
  assume h: "heap_items h \<subseteq> Collect ok" and d: "Map_Drop h a i = Inr h'"
  from d obtain d' where h': "h' = put_content h a (Elems (take i (elems h a) @ drop (i + 1) (elems h a)) d')"
    by (auto simp: Map_Drop_def Let_def split: if_splits sum.splits)
  have "set (take i (elems h a) @ drop (i + 1) (elems h a)) \<subseteq> set (elems h a)"
    by (auto dest: in_set_takeD in_set_dropD)
  then have "content_items (Elems (take i (elems h a) @ drop (i + 1) (elems h a)) d') \<subseteq> Collect ok"
    using ok_pair [OF ok_elems [OF h, of a]] by (intro ok_pairs) blast
  then show ?thesis unfolding h' by (rule ok_put_content [OF h])
qed

lemma k_Map_Add: "ok key \<Longrightarrow> ok val \<Longrightarrow> keeps I (\<lambda>old. set_option old \<subseteq> Collect ok) (heapM (\<lambda>h. Map_Add h a key val))"
  using ok_Map_Add by (intro k_heapM) blast

lemma k_makeArray: "keeps I oks (liftM (makeArrayOfType n t))"
  by (rule keeps_lift) (auto simp: makeArrayOfType_def ok_values in_range_def intro!: ok_int split: if_splits)

lemma k_pops: "keeps I oks (mapM xs (\<lambda>_. popNoRef))"
  by (rule keeps_weaken [OF keeps_map [OF k_popNoRef]]) auto

lemma k_exec_NEWARRAY: "keeps I anything (exec_NEWARRAY op parameter)"
  unfolding exec_NEWARRAY_def by (assumption | rule keeps_intros k_rules k_makeArray k_new_counted)+

lemma k_exec_APPEND: "keeps I anything exec_APPEND"
proof -
  have a: "keeps I anything (heapM (\<lambda>h. map_sum id (Pair ()) (seq_Append h a it)))" if "ok it" for a it
    by (rule k_seq_heap) (rule ok_seq_Append [OF _ that])
  show ?thesis unfolding exec_APPEND_def
    by (assumption | rule k_cloneIfStruct k_case_clone keeps_bind keeps_seq keeps_when keeps_option keeps_panic k_get
        k_rules a)+
qed

lemma k_exec_PACKMAP: "keeps I anything exec_PACKMAP"
proof -
  have n: "keeps I anything (heapM (\<lambda>h. Inr (alloc h (Elems [] Map.empty))))" by (rule k_alloc) simp
  show ?thesis unfolding exec_PACKMAP_def
    by (assumption | rule keeps_intros k_rules keeps_for k_Map_Add k_ret n)+
qed

lemma k_exec_PACK: "keeps I anything (exec_PACK op)"
  unfolding exec_PACK_def by (assumption | rule keeps_intros k_rules k_pops k_new_counted)+

lemma k_get_object:
  "keeps I (\<lambda>(isReferenced, arr, m). oks arr \<and> fst ` set m \<union> snd ` set m \<subseteq> Collect ok)
    (getM (\<lambda>v. (f v, items (v_heap v) a, elems (v_heap v) a)))"
  by (rule keeps_get) (simp only: prod.case, intro conjI ok_items ok_elems ok_heap)

lemma k_case_object:
  "(case p of (r, arr, m) \<Rightarrow> oks arr \<and> fst ` set m \<union> snd ` set m \<subseteq> Collect ok) \<Longrightarrow>
    (\<And>r arr m. oks arr \<Longrightarrow> fst ` set m \<union> snd ` set m \<subseteq> Collect ok \<Longrightarrow> keeps I Q (F r arr m)) \<Longrightarrow>
    keeps I Q (case p of (r, arr, m) \<Rightarrow> F r arr m)"
  by (cases p) auto

lemma k_exec_UNPACK: "keeps I anything exec_UNPACK"
proof -
  have m: "keeps I anything (forM (rev m) (\<lambda>(k, x). if b then seqM (PushItem x) (pushItemCounted k 1)
      else seqM (pushItemCounted x 0) (pushItemCounted k 0)))"
    if "fst ` set m \<union> snd ` set m \<subseteq> Collect ok" for b and m :: "('i item \<times> 'i item) list"
  proof (rule keeps_for)
    fix p assume p: "p \<in> set (rev m)"
    obtain k x where kx: "p = (k, x)" by (cases p)
    with p that have "ok k" "ok x" by force+
    then show "keeps I anything (case p of (k, x) \<Rightarrow> if b then seqM (PushItem x) (pushItemCounted k 1)
      else seqM (pushItemCounted x 0) (pushItemCounted k 0))"
      unfolding kx prod.case by (intro keeps_if keeps_seq [OF k_PushItem] keeps_seq [OF k_pushItemCounted] k_pushItemCounted)
  qed
  have s: "keeps I anything (forM (rev xs) (\<lambda>x. if b then PushItem x else pushItemCounted x 0))"
    if "oks xs" for b and xs :: "'i item list"
    using that by (intro keeps_for keeps_if k_PushItem k_pushItemCounted) auto
  show ?thesis unfolding exec_UNPACK_def
    by (assumption | rule k_get_object k_case_object m s keeps_bind keeps_seq keeps_option keeps_panic k_rules)+
qed

lemma k_exec_KEYS: "keeps I anything exec_KEYS"
proof -
  have k: "oks (map fst m)" if "fst ` set m \<union> snd ` set m \<subseteq> Collect ok" for m :: "('i item \<times> 'i item) list"
    using that by auto
  show ?thesis unfolding exec_KEYS_def by (assumption | rule keeps_intros k_rules k_new_counted k)+
qed

lemma k_cpValues: "oks src \<Longrightarrow> keeps I oks (cpValues src b)"
proof -
  assume src: "oks src"
  have "keeps I (\<lambda>ys. \<forall>y\<in>set ys. ok y) (cpValues src b)" unfolding cpValues_def
  proof (rule keeps_map)
    fix it assume "it \<in> set src"
    with src have it: "ok it" by auto
    show "keeps I ok (bindM (cloneIfStruct it) (\<lambda>(cloned, isStruct).
      seqM (if b then refs_Add cloned else whenM isStruct (seqM (refs_Remove it) (refs_Add cloned))) (retM cloned)))"
      by (assumption | rule it k_cloneIfStruct k_case_clone keeps_bind keeps_seq keeps_if keeps_when k_refs_Add
          k_refs_Remove keeps_ret)+
  qed
  then show ?thesis by (rule keeps_weaken) auto
qed

lemma k_exec_VALUES: "keeps I anything exec_VALUES"
proof -
  have v: "oks (if b then arr else map snd m)" if "oks arr" "fst ` set m \<union> snd ` set m \<subseteq> Collect ok"
    for b arr and m :: "('i item \<times> 'i item) list"
    using that by auto
  show ?thesis unfolding exec_VALUES_def
    by (assumption | rule k_get_object k_case_object v k_cpValues k_new_counted keeps_bind keeps_seq keeps_option keeps_panic
        keeps_panic_if keeps_when k_rules)+
qed


lemma k_validateMapKey: "keeps I anything (validateMapKey key)"
  unfolding validateMapKey_def by (assumption | rule keeps_intros k_ret)+

lemma k_keyInt: "keeps I anything (keyInt key)"
  unfolding keyInt_def by (assumption | rule keeps_intros k_lift)+

lemma ok_out_of_range: "ok (out_of_range i)"
  by (simp add: out_of_range_def ok_values)

lemma ok_elem: "heap_items h \<subseteq> Collect ok \<Longrightarrow> \<not> length (elems h a) \<le> j \<Longrightarrow> ok (fst (elems h a ! j)) \<and> ok (snd (elems h a ! j))"
  by (rule ok_pair [OF ok_elems [of h a]]) simp_all

text \<open>\<open>case\<close> on what kind of object an item is.\<close>

lemma k_case2:
  assumes "\<And>a. x = Some a \<Longrightarrow> keeps I Q (f a)" and "\<And>a. y = Some a \<Longrightarrow> keeps I Q (g a)" and "keeps I Q m"
  shows "keeps I Q (case (x, y) of (Some a, _) \<Rightarrow> f a | (None, Some a) \<Rightarrow> g a | (None, None) \<Rightarrow> m)"
  using assms by (cases x; cases y) auto

lemma k_exec_PICKITEM: "keeps I anything (exec_PICKITEM E)"
proof -
  have i: "ok (xs ! nat z)" if "oks xs" "\<not> (z < 0 \<or> int (length xs) \<le> z)" for xs z using that by (intro oks_nth) auto
  show ?thesis unfolding exec_PICKITEM_def
    by (assumption | rule k_case2 k_validateMapKey k_keyInt k_vm_throw ok_out_of_range i keeps_bind keeps_seq keeps_if keeps_option
        keeps_panic k_lift k_rules ok_elem [THEN conjunct2])+
qed

lemma k_set_seq_item: "ok it \<Longrightarrow> keeps I anything (set_seq_item E a key it)"
proof -
  assume it: "ok it"
  have m: "keeps I anything (heap_modM (\<lambda>h. put_content h a (Items (xs[j := it]))))" if "oks xs" for xs j
    using that it by (intro k_heap_mod ok_put_content) (simp_all add: set_update_subsetI)
  show ?thesis unfolding set_seq_item_def
    by (assumption | rule k_get_items k_keyInt k_refs_Remove k_vm_throw ok_out_of_range m keeps_bind keeps_seq keeps_if keeps_prod
        keeps_panic_if k_get)+
qed

lemma k_set_map_item: "ok key \<Longrightarrow> ok it \<Longrightarrow> keeps I anything (set_map_item a key it)"
  unfolding set_map_item_def
  by (assumption | rule k_get_heap k_refs_Remove k_refs_Add k_Map_Add keeps_bind keeps_seq keeps_if keeps_option keeps_panic
      keeps_panic_if k_lift k_ret)+

lemma k_put_raw: "keeps I anything (heap_modM (\<lambda>h. put_content h a (Raw (f h))))"
  by (rule k_heap_mod) (simp add: ok_put_content)

lemma k_set_buffer_item: "keeps I anything (set_buffer_item E a key it)"
proof -
  have t: "keeps I anything (case r of Inl _ \<Rightarrow> panicM RuntimePanic | Inr n \<Rightarrow> f n)" if "\<And>n. keeps I anything (f n)"
    for r :: "vm_panic + int" and f :: "int \<Rightarrow> ('i, unit) vm_op"
    using that keeps_panic by (cases r) auto
  show ?thesis unfolding set_buffer_item_def
    by (assumption | rule k_refs_Remove k_keyInt k_vm_throw ok_out_of_range t k_put_raw keeps_bind keeps_seq keeps_if
        keeps_panic_if k_lift k_get)+
qed

lemma k_case3:
  assumes "\<And>a. x = Some a \<Longrightarrow> keeps I Q (f a)" and "\<And>a. y = Some a \<Longrightarrow> keeps I Q (g a)"
    and "\<And>a. z = Some a \<Longrightarrow> keeps I Q (e a)" and "keeps I Q m"
  shows "keeps I Q (case (x, y, z) of (Some a, _, _) \<Rightarrow> f a | (None, Some a, _) \<Rightarrow> g a | (None, None, Some a) \<Rightarrow> e a | _ \<Rightarrow> m)"
  using assms by (cases x; cases y; cases z) auto

lemma k_exec_SETITEM: "keeps I anything (exec_SETITEM E)"
  unfolding exec_SETITEM_def
  by (assumption | rule k_popNoRef k_cloneIfStruct k_case_clone k_case3 k_validateMapKey k_set_seq_item k_set_map_item
      k_set_buffer_item k_refs_Remove k_refs_Add k_PopItem keeps_bind keeps_seq keeps_when keeps_panic)+

lemma k_exec_REVERSEITEMS: "keeps I anything exec_REVERSEITEMS"
proof -
  have r: "keeps I anything (heap_modM (\<lambda>h. put_content h a (Items (rev (items h a)))))" for a
    by (rule k_heap_mod) (simp add: ok_put_content ok_items)
  show ?thesis unfolding exec_REVERSEITEMS_def
    by (assumption | rule k_PopItem k_case2 r k_put_raw keeps_bind keeps_seq keeps_panic keeps_panic_if k_get)+
qed

lemma k_exec_REMOVE: "keeps I anything exec_REMOVE"
proof -
  have s: "keeps I anything (heapM (\<lambda>h. map_sum id (Pair ()) (seq_Remove h a n)))" for a n
    by (rule k_seq_heap) (rule ok_seq_Remove)
  have d: "keeps I anything (heapM (\<lambda>h. map_sum id (Pair ()) (Map_Drop h a n)))" for a n
    by (rule k_seq_heap) (rule ok_Map_Drop)
  show ?thesis unfolding exec_REMOVE_def
    by (assumption | rule k_PopItem k_case2 k_validateMapKey k_keyInt k_refs_Remove s d keeps_bind keeps_seq keeps_if keeps_option
        keeps_when keeps_panic keeps_panic_if k_lift k_get k_ret)+
qed

lemma k_exec_CLEARITEMS: "keeps I anything exec_CLEARITEMS"
proof -
  have c: "keeps I anything (heapM (\<lambda>h. map_sum id (Pair ()) (if b then seq_Clear h a else Map_Clear h a)))" for a b
    by (rule k_seq_heap) (use ok_clear in \<open>auto split: if_splits\<close>)
  show ?thesis unfolding exec_CLEARITEMS_def
    by (assumption | rule k_PopItem c keeps_for k_refs_Remove keeps_bind keeps_seq keeps_option keeps_when keeps_panic
        keeps_panic_if k_get)+
qed

lemma k_exec_POPITEM: "keeps I anything exec_POPITEM"
proof -
  have s: "keeps I anything (heapM (\<lambda>h. map_sum id (Pair ()) (seq_Remove h a n)))" for a n
    by (rule k_seq_heap) (rule ok_seq_Remove)
  have l: "ok (last xs)" if "oks xs" "xs \<noteq> []" for xs using last_in_set [OF that(2)] that(1) by blast
  show ?thesis unfolding exec_POPITEM_def
    by (assumption | rule k_get_items k_PopItem s k_PushItem l k_refs_Remove keeps_bind keeps_seq keeps_if keeps_option keeps_when
        keeps_panic k_get)+
qed

lemma k_exec_SIZE: "keeps I anything exec_SIZE"
  unfolding exec_SIZE_def by (assumption | rule k_case2 keeps_bind k_rules)+

lemma k_exec_HASKEY: "keeps I anything (exec_HASKEY E)"
proof -
  have c: "keeps I anything (case (x, y, z, w) of (Some a, _, _, _) \<Rightarrow> f a | (None, Some a, _, _) \<Rightarrow> g a
      | (None, None, Some a, _) \<Rightarrow> e a | (None, None, None, Some bs) \<Rightarrow> d bs | _ \<Rightarrow> m)"
    if "\<And>a. keeps I anything (f a)" "\<And>a. keeps I anything (g a)" "\<And>a. keeps I anything (e a)" "\<And>bs. keeps I anything (d bs)"
      "keeps I anything m"
    for x y z :: "addr option" and w :: "bytes option" and f g e :: "addr \<Rightarrow> ('i, unit) vm_op" and d and m
    using that by (cases x; cases y; cases z; cases w) auto
  show ?thesis unfolding exec_HASKEY_def Let_def
    by (assumption | rule c k_validateMapKey k_keyInt keeps_bind keeps_seq keeps_panic keeps_panic_if k_lift k_get k_rules)+
qed

lemma k_exec_compound: "keeps I anything (exec_compound E op parameter)"
proof -
  have n: "keeps I ok (heapM (\<lambda>h. Inr (NewArray h [])))"
    by (rule k_heapM, rule ok_alloc_result [where xs = "[]" and bs = "[]"]) auto
  have s: "keeps I ok (heapM (\<lambda>h. Inr (NewStruct h [])))"
    by (rule k_heapM, rule ok_alloc_result [where xs = "[]" and bs = "[]"]) auto
  have m: "keeps I ok (heapM (\<lambda>h. Inr (NewMap h)))"
    using ok_alloc [of _ "Elems [] Map.empty"] by (intro k_heapM) (auto simp: NewMap_def alloc_def ok_values)
  show ?thesis unfolding exec_compound_def
    by (assumption | rule keeps_if keeps_bind keeps_panic n s m k_PushItem k_exec_PACKMAP k_exec_PACK k_exec_UNPACK k_exec_NEWARRAY
        k_exec_SIZE k_exec_HASKEY k_exec_KEYS k_exec_VALUES k_exec_PICKITEM k_exec_APPEND k_exec_SETITEM k_exec_REVERSEITEMS
        k_exec_REMOVE k_exec_CLEARITEMS k_exec_POPITEM)+
qed

theorem k_exec_op: "keeps I anything (exec_op E i op parameter)"
  unfolding exec_op_def
  by (assumption | rule keeps_if k_exec_const k_exec_flow k_exec_stack k_exec_slot k_exec_splice k_exec_bit k_exec_arith
      k_exec_logic k_exec_compound k_exec_type)+

end

section \<open>Whole runs\<close>

text \<open>A condition that fetching an instruction and paying for it keep as well.\<close>

locale vm_run_invariant = vm_invariant +
  assumes fetch: "I v \<Longrightarrow> v_istack v \<noteq> [] \<Longrightarrow>
      Next (c_nextip (last (v_istack v))) (c_prog (last (v_istack v))) = (r, n) \<Longrightarrow>
      I (upd_ctx (length (v_istack v) - 1) (\<lambda>c. c\<lparr>c_ip := c_nextip c, c_nextip := n\<rparr>) v)"
    and gas: "I v \<Longrightarrow> I (v\<lparr>v_gasConsumed := g\<rparr>)"
begin

lemma k_charge: "keeps I anything (charge E i op parameter)"
proof -
  have g: "keeps I anything (modM (\<lambda>v. v\<lparr>v_gasConsumed := v_gasConsumed v + x\<rparr>))" for x
    by (rule keeps_mod) (rule gas)
  show ?thesis unfolding charge_def
    by (assumption | rule keeps_intros k_get g k_panic_if k_ret)+
qed

lemma k_execute: "keeps I anything (execute E i op parameter)"
proof (rule keepsI)
  fix v assume v: "I v"
  have k: "keeps I anything (seqM (charge E i op parameter) (exec_op E i op parameter))"
    by (rule keeps_seq [OF k_charge k_exec_op])
  obtain r v' where e: "seqM (charge E i op parameter) (exec_op E i op parameter) v = (r, v')"
    by (cases "seqM (charge E i op parameter) (exec_op E i op parameter) v")
  have "I v'" using keepsD [OF k v] e by simp
  then show "I (snd (execute E i op parameter v))"
    by (cases r) (simp_all add: execute_def e keep_state)
qed simp

lemma k_step: "keeps I anything (vm_step E)"
proof (rule keepsI)
  fix v assume v: "I v"
  show "I (snd (vm_step E v))"
  proof (cases "v_istack v = []")
    case False
    let ?i = "length (v_istack v) - 1"
    obtain op param n where d: "Next (c_nextip (last (v_istack v))) (c_prog (last (v_istack v))) = ((op, param), n)"
      by (cases "Next (c_nextip (last (v_istack v))) (c_prog (last (v_istack v)))") auto
    let ?v = "upd_ctx ?i (\<lambda>c. c\<lparr>c_ip := c_nextip c, c_nextip := n\<rparr>) v"
    have v': "I ?v" using fetch [OF v False d] .
    have "I (snd (execute E ?i op p ?v))" for p using keepsD [OF k_execute v'] .
    moreover have "vm_step E v = (case param of Inl e \<Rightarrow> (Inl (Message ''decode error''), ?v\<lparr>v_state := stateFault\<rparr>)
        | Inr p \<Rightarrow> execute E ?i op p ?v)"
      using False d by (cases param) (simp_all add: vm_step_def Let_def last_conv_nth)
    ultimately show ?thesis using v' by (cases param) (simp_all add: keep_state)
  qed (use v in \<open>simp add: vm_step_def\<close>)
qed simp

lemma k_run_loop: "I v \<Longrightarrow> run_loop E n v = Some (r, v') \<Longrightarrow> I v'"
proof (induction n arbitrary: v)
  case (Suc n)
  obtain x w where s: "vm_step E v = (x, w)" by (cases "vm_step E v")
  have w: "I w" using keepsD [OF k_step Suc(2)] s by simp
  then have "I (if atBreakPoint w then w\<lparr>v_state := stateBreak\<rparr> else w)" by (simp add: keep_state)
  note ih = Suc(1) [OF this]
  show ?case using ih Suc(2,3) w s by (cases x) (auto simp: keep_state split: if_splits)
qed simp

lemma k_Run: "I v \<Longrightarrow> vm_Run E n v = Some (r, v') \<Longrightarrow> I v'"
  using k_run_loop [of "v\<lparr>v_state := stateNone\<rparr>" n r v'] by (auto simp: vm_Run_def keep_state split: if_splits)

end

end
