(* ===== verification/VmProps.thy ===== *)
theory VmProps
  imports VmKeeps
begin

text \<open>
  Limits the machine enforces: the size of integers, the depth of the invocation and try stacks, the number of counted items. What
  the environment of a machine does (system calls, tokens, callbacks) is arbitrary code; a property of runs assumes of it that it
  respects the same limit.
\<close>

definition env_keeps :: "('i vm \<Rightarrow> bool) \<Rightarrow> 'i vm_env \<Rightarrow> bool" where
  "env_keeps I E \<longleftrightarrow>
    (\<forall>f n. e_SyscallHandler E = Some f \<longrightarrow> keeps I anything (f n)) \<and> (\<forall>t. keeps I anything (e_LoadToken E t)) \<and>
    (\<forall>k c b. keeps I anything (e_onUnload E k c b)) \<and> (\<forall>k. keeps I anything (e_onUnloaded E k))"

lemma keeps_guard: "(b \<Longrightarrow> keeps I anything m) \<Longrightarrow> keeps (\<lambda>v. b \<longrightarrow> I v) anything m"
  by (auto simp: keeps_def)

text \<open>The laws of \<open>vm_invariant\<close> on the environment, for a condition that is asked of it only if the environment keeps it.\<close>

lemma env_laws:
  "e_SyscallHandler E = Some f \<Longrightarrow> keeps (\<lambda>v. env_keeps I E \<longrightarrow> I v) anything (f n)"
  "keeps (\<lambda>v. env_keeps I E \<longrightarrow> I v) anything (e_LoadToken E t)"
  "keeps (\<lambda>v. env_keeps I E \<longrightarrow> I v) anything (e_onUnload E k c b)"
  "keeps (\<lambda>v. env_keeps I E \<longrightarrow> I v) anything (e_onUnloaded E k)"
  by (rule keeps_guard, simp add: env_keeps_def)+

section \<open>The size of integers\<close>

definition int_ok :: "'i item \<Rightarrow> bool" where
  "int_ok it \<longleftrightarrow> (case it of IntI n \<Rightarrow> in_range n | _ \<Rightarrow> True)"

definition ints_ok :: "'i vm \<Rightarrow> bool" where
  "ints_ok v \<longleftrightarrow> all_items v \<subseteq> Collect int_ok"

lemma all_items_push: "all_items (v\<lparr>v_istack := v_istack v @ [c]\<rparr>) = all_items v \<union> slot_items (c_local c) \<union> slot_items (c_arguments c)"
  by (auto simp: all_items_def)

lemma all_items_butlast: "all_items (v\<lparr>v_istack := butlast (v_istack v)\<rparr>) \<subseteq> all_items v"
  by (auto simp: all_items_def dest: in_set_butlastD)

lemma all_items_ctx_same:
  "(\<And>c. c_local (f c) = c_local c \<and> c_arguments (f c) = c_arguments c) \<Longrightarrow> all_items (upd_ctx i f v) \<subseteq> all_items v"
  using all_items_ctx [of f v i "{}"] by simp

lemma all_items_sc_same: "(\<And>sc. sc_static (f sc) = sc_static sc) \<Longrightarrow> all_items (upd_sc i f v) \<subseteq> all_items v"
  using all_items_sc [of f v i "{}"] by simp

lemma ints_ok_mono: "all_items v' \<subseteq> all_items v \<Longrightarrow> ints_ok v \<Longrightarrow> ints_ok v'"
  by (auto simp: ints_ok_def)

lemma ints_ok_control:
  assumes "ints_ok v"
  shows "ints_ok (upd_sc s (\<lambda>sc. sc\<lparr>sc_scriptHash := hsh\<rparr>) v)" "ints_ok (upd_ctx i (\<lambda>c. c\<lparr>c_nextip := n\<rparr>) v)"
    "ints_ok (upd_ctx i (\<lambda>c. c\<lparr>c_tryStack := ts\<rparr>) v)" "ints_ok (v\<lparr>v_istack := butlast (v_istack v)\<rparr>)"
    "ints_ok (upd_ctx i (\<lambda>c. c\<lparr>c_ip := c_nextip c, c_nextip := n\<rparr>) v)"
  by (rule ints_ok_mono [OF all_items_sc_same assms] ints_ok_mono [OF all_items_ctx_same assms]
      ints_ok_mono [OF all_items_butlast assms], simp?)+

lemma ints_ok_gas [simp]: "ints_ok (v\<lparr>v_gasConsumed := g\<rparr>) = ints_ok v"
  by (simp add: ints_ok_def)

interpretation ints: vm_run_invariant "\<lambda>v. env_keeps ints_ok E \<longrightarrow> ints_ok v" "\<lambda>it. env_keeps ints_ok E \<longrightarrow> int_ok it" E for E
proof
  fix v v' :: "'a vm" and c :: "'a vm_context"
  let ?I = "\<lambda>v. env_keeps ints_ok E \<longrightarrow> ints_ok v"
  show "?I v'" if "?I v" "all_items v' \<subseteq> all_items v \<union> {it. env_keeps ints_ok E \<longrightarrow> int_ok it}"
    using that by (auto simp: ints_ok_def)
  show "all_items v \<subseteq> {it. env_keeps ints_ok E \<longrightarrow> int_ok it}" if "?I v"
    using that by (auto simp: ints_ok_def)
  show "?I (v\<lparr>v_istack := v_istack v @ [\<lparr>c_ip = 0, c_nextip = 0, c_prog = sc_prog (sc_of v c), c_sc = c_sc c, c_local = None,
      c_arguments = None, c_tryStack = [], c_retCount = -1\<rparr>]\<rparr>)" if "?I v"
    using that by (simp add: ints_ok_def all_items_push slot_items_def)
qed (use env_laws in \<open>simp_all add: int_ok_def ints_ok_control\<close>)

section \<open>Bounds\<close>

text \<open>The depth of the invocation stack and of each try stack, and instruction pointers inside the program.\<close>

definition ctx_bounded :: "'i vm_context \<Rightarrow> bool" where
  "ctx_bounded c \<longleftrightarrow> length (c_tryStack c) \<le> MaxTryNestingDepth \<and> c_nextip c \<le> length (c_prog c)"

definition bounded :: "'i vm \<Rightarrow> bool" where
  "bounded v \<longleftrightarrow> length (v_istack v) \<le> MaxInvocationStackSize \<and> (\<forall>c\<in>set (v_istack v). ctx_bounded c)"

lemma Next_bounded:
  assumes "Next nextip prog = (r, n)" and "nextip \<le> length prog"
  shows "n \<le> length prog"
proof -
  have "p \<le> length prog" if "param_size op (Suc nextip) prog = Inr (k, p)" "nextip < length prog" for op k p
    using that unfolding param_size_def by (auto split: if_splits simp: Let_def)
  with assms show ?thesis unfolding Next_def by (auto simp: Let_def split: if_splits sum.splits)
qed

lemma bounded_ctl: "bounded v \<longleftrightarrow> length (fst (ctl v)) \<le> MaxInvocationStackSize \<and> (\<forall>c\<in>set (fst (ctl v)). ctx_bounded c)"
  by (simp add: bounded_def ctl_def ctx_bounded_def ctl_ctx_def)

lemma bounded_upd:
  "bounded v \<Longrightarrow> (i < length (v_istack v) \<Longrightarrow> ctx_bounded (f (v_istack v ! i))) \<Longrightarrow> bounded (upd_ctx i f v)"
  by (cases "i < length (v_istack v)")
     (auto simp: bounded_def upd_ctx_def list_update_beyond dest!: subsetD [OF set_update_subset_insert])

lemma bounded_nth: "bounded v \<Longrightarrow> i < length (v_istack v) \<Longrightarrow> ctx_bounded (v_istack v ! i)"
  by (simp add: bounded_def)

lemma bounded_control:
  assumes "bounded v"
  shows "i < length (v_istack v) \<Longrightarrow> n < length (c_prog (v_istack v ! i)) \<Longrightarrow> bounded (upd_ctx i (\<lambda>c. c\<lparr>c_nextip := n\<rparr>) v)"
    "i < length (v_istack v) \<Longrightarrow> length ts \<le> MaxTryNestingDepth \<or> length ts \<le> length (c_tryStack (v_istack v ! i)) \<Longrightarrow>
      bounded (upd_ctx i (\<lambda>c. c\<lparr>c_tryStack := ts\<rparr>) v)"
    "bounded (v\<lparr>v_istack := butlast (v_istack v)\<rparr>)"
    "length (v_istack v) < MaxInvocationStackSize \<Longrightarrow> ctx_bounded c \<Longrightarrow> bounded (v\<lparr>v_istack := v_istack v @ [c]\<rparr>)"
    "bounded (upd_sc s (\<lambda>sc. sc\<lparr>sc_scriptHash := hsh\<rparr>) v)" "bounded (v\<lparr>v_gasConsumed := g\<rparr>)"
  using bounded_nth [OF assms, of i] assms
  by (auto intro!: bounded_upd simp: ctx_bounded_def)
     (auto simp: bounded_def upd_sc_def ctx_bounded_def dest: in_set_butlastD)

interpretation bounds: vm_run_invariant "\<lambda>v. env_keeps bounded E \<longrightarrow> bounded v" anything E for E
proof
  fix v v' :: "'a vm"
  let ?I = "\<lambda>v. env_keeps bounded E \<longrightarrow> bounded v"
  show "?I v'" if "?I v" "ctl v' = ctl v" using that bounded_ctl by metis
  show "?I (upd_ctx (length (v_istack v) - 1) (\<lambda>c. c\<lparr>c_ip := c_nextip c, c_nextip := n\<rparr>) v)"
    if "?I v" "v_istack v \<noteq> []" "Next (c_nextip (last (v_istack v))) (c_prog (last (v_istack v))) = (r, n)" for r n
  proof
    assume "env_keeps bounded E"
    with that have b: "bounded v" by blast
    have "ctx_bounded (last (v_istack v))" using b that(2) by (simp add: bounded_def)
    with Next_bounded [OF that(3)] b that(2) show
      "bounded (upd_ctx (length (v_istack v) - 1) (\<lambda>c. c\<lparr>c_ip := c_nextip c, c_nextip := n\<rparr>) v)"
      by (intro bounded_upd) (simp_all add: ctx_bounded_def last_conv_nth)
  qed
qed (use env_laws in \<open>simp_all add: bounded_control ctx_bounded_def\<close>)
end
