(* ===== verification/VmGas.thy ===== *)
theory VmGas
  imports VmProps
begin

text \<open>
  Gas bounds every run. Each instruction inside a program costs gas, with the prices of \<open>pkg/core/fee\<close>, except \<open>RET\<close>, \<open>SYSCALL\<close>,
  \<open>ABORT\<close> and \<open>ABORTMSG\<close>: \<open>RET\<close> leaves a context, the last two fault, and a system call charges for itself or leaves control where it is.
  A step therefore uses gas, or leaves a context, or moves forward in the program.
\<close>

section \<open>Prices\<close>

definition free_ops :: "nat set" where
  "free_ops = {op_ABORT, op_RET, op_SYSCALL, op_ABORTMSG}"

lemma length_coefficients: "length coefficients = 256"
  by (simp add: coefficients_def)

fun priced_from :: "nat \<Rightarrow> nat list \<Rightarrow> bool" where
  "priced_from i [] = True"
| "priced_from i (c # cs) \<longleftrightarrow>
    (if c = 0 then opcode_IsValid i \<longrightarrow> i \<in> free_ops else c \<le> 32768) \<and> priced_from (i + 1) cs"

lemma priced_from_nth:
  "priced_from i cs \<Longrightarrow> k < length cs \<Longrightarrow>
    (opcode_IsValid (i + k) \<and> i + k \<notin> free_ops \<longrightarrow> 0 < cs ! k) \<and> cs ! k \<le> 32768"
proof (induction i cs arbitrary: k rule: priced_from.induct)
  case (2 i c cs)
  then show ?case by (cases k) (auto split: if_splits)
qed simp

lemma priced_coefficients: "priced_from 0 coefficients"
  by (simp add: coefficients_def opcode_IsValid_def free_ops_def)

lemma coefficients_bounds:
  assumes "op < 256"
  shows "opcode_IsValid op \<Longrightarrow> op \<notin> free_ops \<Longrightarrow> 0 < coefficients ! op" and "coefficients ! op \<le> 2 ^ 15"
  using priced_from_nth [OF priced_coefficients, of op] assms length_coefficients by simp_all

lemma unat_GetPrice:
  assumes "op < 256" and "unat base < 2 ^ 47"
  shows "unat (GetPrice base op p) = coefficients ! op * unat base" and "coefficients ! op * unat base < 2 ^ 62"
proof -
  have "coefficients ! op * unat base \<le> 2 ^ 15 * unat base" using coefficients_bounds(2) [OF assms(1)] by simp
  also have "\<dots> < 2 ^ 15 * 2 ^ 47" using assms(2) by simp
  finally show lt: "coefficients ! op * unat base < 2 ^ 62" by simp
  have "GetPrice base op p = of_nat (coefficients ! op * unat base)"
    by (simp add: GetPrice_def fee_Opcode_def)
  then show "unat (GetPrice base op p) = coefficients ! op * unat base"
    using lt by (simp only: unat_of_nat) simp
qed

section \<open>Metered machines\<close>

text \<open>No context is whitelisted, each context runs the program of its script, and at least \<open>g\<close> is consumed of the limit \<open>l\<close>.\<close>

definition metered :: "nat \<Rightarrow> u64 \<Rightarrow> 'i vm \<Rightarrow> bool" where
  "metered g l v \<longleftrightarrow>
    v_gasLimit v = l \<and> g \<le> unat (v_gasConsumed v) \<and> unat (v_gasConsumed v) < 2 ^ 255 \<and>
    (\<forall>sc\<in>set (v_scs v). \<not> sc_whitelisted sc) \<and>
    (\<forall>c\<in>set (v_istack v). c_sc c < length (v_scs v) \<and> c_prog c = sc_prog (v_scs v ! c_sc c))"

definition gas_left :: "u64 \<Rightarrow> 'i vm \<Rightarrow> nat" where
  "gas_left l v = unat l + 1 - unat (v_gasConsumed v)"

text \<open>What is asked of the environment: an operation that succeeds keeps the machine metered and gives no gas back, and it moves control
  only to leave a context or at a price.\<close>

definition metered_op :: "u64 \<Rightarrow> ('i, unit) vm_op \<Rightarrow> bool" where
  "metered_op l m \<longleftrightarrow> (\<forall>v v'. metered 0 l v \<longrightarrow> m v = (Inr (), v') \<longrightarrow> metered (unat (v_gasConsumed v)) l v')"

definition metered_env :: "u64 \<Rightarrow> 'i vm_env \<Rightarrow> bool" where
  "metered_env l E \<longleftrightarrow>
    (\<forall>f n. e_SyscallHandler E = Some f \<longrightarrow> metered_op l (f n)) \<and> (\<forall>t. metered_op l (e_LoadToken E t)) \<and>
    (\<forall>k c b. metered_op l (e_onUnload E k c b)) \<and> (\<forall>k. metered_op l (e_onUnloaded E k)) \<and>
    (\<forall>f n v v'. e_SyscallHandler E = Some f \<longrightarrow> metered 0 l v \<longrightarrow> f n v = (Inr (), v') \<longrightarrow>
       gas_left l v' < gas_left l v \<or> length (v_istack v') < length (v_istack v) \<or> v_istack v' = v_istack v) \<and>
    (\<forall>k c b v v'. metered 0 l v \<longrightarrow> e_onUnload E k c b v = (Inr (), v') \<longrightarrow>
       gas_left l v' < gas_left l v \<or> length (v_istack v') \<le> length (v_istack v)) \<and>
    (\<forall>k v v'. metered 0 l v \<longrightarrow> e_onUnloaded E k v = (Inr (), v') \<longrightarrow>
       gas_left l v' < gas_left l v \<or> length (v_istack v') \<le> length (v_istack v))"

lemma metered_ctl:
  "metered g l v \<longleftrightarrow> (case ctl v of (cs, scs, gas, lim) \<Rightarrow>
    lim = l \<and> g \<le> unat gas \<and> unat gas < 2 ^ 255 \<and> (\<forall>sc\<in>set scs. \<not> sc_whitelisted sc) \<and>
    (\<forall>c\<in>set cs. c_sc c < length scs \<and> c_prog c = sc_prog (scs ! c_sc c)))"
  by (auto simp: metered_def ctl_def ctl_ctx_def ctl_sc_def)

lemma metered_upd_ctx:
  assumes "metered g l v" and "\<And>c. c_sc (f c) = c_sc c \<and> c_prog (f c) = c_prog c"
  shows "metered g l (upd_ctx i f v)"
proof (cases "i < length (v_istack v)")
  case True
  then have "v_istack v ! i \<in> set (v_istack v)" by simp
  with assms show ?thesis
    by (auto simp: metered_def upd_ctx_def dest!: subsetD [OF set_update_subset_insert])
qed (use assms in \<open>simp add: upd_ctx_def list_update_beyond metered_def\<close>)

lemma metered_hash: "metered g l v \<Longrightarrow> metered g l (upd_sc s (\<lambda>sc. sc\<lparr>sc_scriptHash := hsh\<rparr>) v)"
proof (cases "s < length (v_scs v)")
  case True
  assume m: "metered g l v"
  have "\<not> sc_whitelisted sc" if "sc \<in> set ((v_scs v)[s := (v_scs v ! s)\<lparr>sc_scriptHash := hsh\<rparr>])" for sc
    using that m True by (auto simp: metered_def dest!: subsetD [OF set_update_subset_insert])
  moreover have "sc_prog ((v_scs v)[s := (v_scs v ! s)\<lparr>sc_scriptHash := hsh\<rparr>] ! j) = sc_prog (v_scs v ! j)" for j
    using True by (cases "j = s") simp_all
  ultimately show ?thesis using m by (simp add: metered_def upd_sc_def)
qed (simp add: upd_sc_def list_update_beyond metered_def)

interpretation gas: vm_invariant "\<lambda>v. env_keeps (metered g l) E \<longrightarrow> metered g l v" anything E for E g l
proof
  fix v v' :: "'a vm"
  let ?I = "\<lambda>v. env_keeps (metered g l) E \<longrightarrow> metered g l v"
  show "?I v'" if "?I v" "ctl v' = ctl v" using that by (simp add: metered_ctl)
  show "?I (v\<lparr>v_istack := butlast (v_istack v)\<rparr>)" if "?I v"
    using that by (auto simp: metered_def dest: in_set_butlastD)
  show "?I (v\<lparr>v_istack := v_istack v @ [\<lparr>c_ip = 0, c_nextip = 0, c_prog = sc_prog (sc_of v c), c_sc = c_sc c, c_local = None,
      c_arguments = None, c_tryStack = [], c_retCount = -1\<rparr>]\<rparr>)" if "?I v" "c \<in> set (v_istack v)" for c
    using that by (auto simp: metered_def sc_of_def)
qed (use env_laws in \<open>simp_all add: metered_hash metered_upd_ctx\<close>)

section \<open>Failures\<close>

text \<open>A call that fails may leave the consumed gas past the limit. It ends the run; for what happens in a run that goes on, such a call
  can be taken to change nothing.\<close>

definition rollback :: "('i, 'a) vm_op \<Rightarrow> ('i, 'a) vm_op" where
  "rollback m v = (case m v of (Inl e, _) \<Rightarrow> (Inl e, v) | (Inr x, v') \<Rightarrow> (Inr x, v'))"

definition rollback_env :: "'i vm_env \<Rightarrow> 'i vm_env" where
  "rollback_env E = E\<lparr>e_SyscallHandler := map_option (\<lambda>f n. rollback (f n)) (e_SyscallHandler E),
     e_LoadToken := (\<lambda>t. rollback (e_LoadToken E t)), e_onUnload := (\<lambda>k c b. rollback (e_onUnload E k c b)),
     e_onUnloaded := (\<lambda>k. rollback (e_onUnloaded E k))\<rparr>"

definition within :: "('i, 'a) vm_op \<Rightarrow> ('i, 'a) vm_op \<Rightarrow> bool" where
  "within m n \<longleftrightarrow> (\<forall>v x v'. m v = (Inr x, v') \<longrightarrow> n v = (Inr x, v'))"

lemma within_refl: "within m m"
  by (simp add: within_def)

lemma within_rollback: "within m (rollback m)"
  by (simp add: within_def rollback_def)

lemma within_bind: "within m m' \<Longrightarrow> (\<And>x. within (f x) (f' x)) \<Longrightarrow> within (bindM m f) (bindM m' f')"
  unfolding within_def bindM_def by (fastforce split: prod.splits sum.splits)

lemma within_seq: "within m m' \<Longrightarrow> within n n' \<Longrightarrow> within (seqM m n) (seqM m' n')"
  unfolding seqM_def by (rule within_bind)

lemma within_if: "within m m' \<Longrightarrow> within n n' \<Longrightarrow> within (if b then m else n) (if b then m' else n')"
  by simp

lemma within_option:
  "within m m' \<Longrightarrow> (\<And>a. within (f a) (f' a)) \<Longrightarrow> within (case x of None \<Rightarrow> m | Some a \<Rightarrow> f a) (case x of None \<Rightarrow> m' | Some a \<Rightarrow> f' a)"
  by (cases x) auto

lemma within_pair: "(\<And>a b. within (f a b) (f' a b)) \<Longrightarrow> within (case p of (a, b) \<Rightarrow> f a b) (case p of (a, b) \<Rightarrow> f' a b)"
  by (cases p) auto

lemma rollback_env_same [simp]: "e_hash160 (rollback_env E) = e_hash160 E" "e_interopEquals (rollback_env E) = e_interopEquals E"
  "e_Gorgon (rollback_env E) = e_Gorgon E"
  by (simp_all add: rollback_env_def)

lemma rollback_same [simp]:
  "ScriptHash (rollback_env E) = ScriptHash E" "exec_const (rollback_env E) = exec_const E" "exec_bit (rollback_env E) = exec_bit E"
  "exec_arith (rollback_env E) = exec_arith E" "exec_HASKEY (rollback_env E) = exec_HASKEY E" "exec_CALLA (rollback_env E) = exec_CALLA E"
proof -
  show h: "ScriptHash (rollback_env E) = ScriptHash E" by (intro ext) (simp add: ScriptHash_def Let_def)
  show "exec_const (rollback_env E) = exec_const E" "exec_CALLA (rollback_env E) = exec_CALLA E"
    unfolding exec_const_def exec_CALLA_def h by (rule refl)+
  show "exec_bit (rollback_env E) = exec_bit E" "exec_arith (rollback_env E) = exec_arith E" "exec_HASKEY (rollback_env E) = exec_HASKEY E"
    unfolding exec_bit_def exec_arith_def exec_shift_def exec_HASKEY_def rollback_env_same by (rule refl)+
qed

lemma within_unloadContext: "within (unloadContext E c) (unloadContext (rollback_env E) c)"
proof -
  have u: "within (e_onUnload E k c b) (e_onUnload (rollback_env E) k c b)" "within (e_onUnloaded E k) (e_onUnloaded (rollback_env E) k)" for k b
    by (simp_all add: rollback_env_def within_rollback)
  have cb: "within (case x of UnloadDynamic \<Rightarrow> DynamicOnUnload c b | UnloadExternal k \<Rightarrow> e_onUnload E k c b)
      (case x of UnloadDynamic \<Rightarrow> DynamicOnUnload c b | UnloadExternal k \<Rightarrow> e_onUnload (rollback_env E) k c b)" for x b
    using u(1) by (cases x) (auto simp: within_refl)
  show ?thesis unfolding unloadContext_def
    by (rule within_seq within_refl within_bind within_if within_option cb u)+
qed

lemma within_enter: "within (enter_handler E i pop) (enter_handler (rollback_env E) i pop)"
proof -
  have t: "within (unload_top E n) (unload_top (rollback_env E) n)" for n
    by (induction n) (simp_all add: within_refl within_bind within_option within_seq within_unloadContext)
  show ?thesis unfolding enter_handler_def by (rule within_seq t within_refl)+
qed

lemma within_throw: "within (vm_throw E it) (vm_throw (rollback_env E) it)" and
  within_handleException: "within (handleException E) (handleException (rollback_env E))"
proof -
  have h: "handle_from E pop v = (Inr x, v') \<Longrightarrow> handle_from (rollback_env E) pop v = (Inr x, v')" for pop v x v'
  proof (induction E pop v rule: handle_from.induct)
    case (1 E pop v)
    let ?i = "length (v_istack v) - 1 - pop"
    let ?ts = "open_handlers (c_tryStack (v_istack v ! ?i))"
    let ?v = "upd_ctx ?i (\<lambda>c. c\<lparr>c_tryStack := ?ts\<rparr>) v"
    have u: "handle_from E' pop v = (if length (v_istack v) \<le> pop then panicM (Message ''unhandled exception'') v
        else if ?ts = [] then handle_from E' (Suc pop) ?v else enter_handler E' ?i pop ?v)" for E' :: "'a vm_env"
      by (subst handle_from.simps) (simp only: Let_def)
    show ?case
    proof (cases "length (v_istack v) \<le> pop")
      case True
      then show ?thesis using 1(2) by (simp add: u panicM_def)
    next
      case False
      show ?thesis
      proof (cases "?ts = []")
        case True
        have "handle_from (rollback_env E) (Suc pop) ?v = (Inr x, v')"
          by (rule 1(1) [OF False refl refl refl True]) (use 1(2) False True in \<open>simp add: u\<close>)
        then show ?thesis using False True by (simp add: u)
      next
        case ts: False
        have "enter_handler E ?i pop ?v = (Inr x, v')" using 1(2) False ts by (simp add: u)
        then have "enter_handler (rollback_env E) ?i pop ?v = (Inr x, v')" using within_enter unfolding within_def by blast
        then show ?thesis using False ts by (simp add: u)
      qed
    qed
  qed
  show k: "within (handleException E) (handleException (rollback_env E))"
    using h by (simp add: within_def handleException_def)
  show "within (vm_throw E it) (vm_throw (rollback_env E) it)"
    unfolding vm_throw_def by (rule within_seq within_refl k)+
qed

lemma within_SETITEM: "within (exec_SETITEM E) (exec_SETITEM (rollback_env E))"
proof -
  have s: "within (set_seq_item E a key it) (set_seq_item (rollback_env E) a key it)" for a key it
    unfolding set_seq_item_def by (rule within_bind within_if within_throw within_refl within_seq)+
  have b: "within (set_buffer_item E a key it) (set_buffer_item (rollback_env E) a key it)" for a key it
    unfolding set_buffer_item_def by (rule within_bind within_if within_throw within_refl within_seq)+
  show ?thesis unfolding exec_SETITEM_def
    by (rule within_bind within_pair within_option s b within_refl within_seq)+
qed

lemma within_PICKITEM: "within (exec_PICKITEM E) (exec_PICKITEM (rollback_env E))"
  unfolding exec_PICKITEM_def
  by (rule within_bind within_pair within_option within_if within_throw within_refl within_seq)+

lemma within_flow: "within (exec_flow E i op p) (exec_flow (rollback_env E) i op p)"
proof -
  have s: "within (case e_SyscallHandler E of None \<Rightarrow> n | Some f \<Rightarrow> f k)
      (case e_SyscallHandler (rollback_env E) of None \<Rightarrow> n | Some f \<Rightarrow> f k)" for n k
    by (cases "e_SyscallHandler E") (simp_all add: rollback_env_def within_refl within_rollback)
  have t: "within (e_LoadToken E k) (e_LoadToken (rollback_env E) k)" for k
    by (simp add: rollback_env_def within_rollback)
  show ?thesis unfolding exec_flow_def exec_RET_def exec_ENDFINALLY_def rollback_same
    by (rule within_if s t within_bind within_option within_seq within_unloadContext within_throw within_handleException within_refl)+
qed

lemma within_op: "within (exec_op E i op p) (exec_op (rollback_env E) i op p)"
  unfolding exec_op_def exec_compound_def rollback_same
  by (rule within_if within_flow within_SETITEM within_PICKITEM within_refl)+

section \<open>One step\<close>

lemma unat_gas_add:
  assumes "unat (g :: 256 word) < 2 ^ 255"
  shows "unat (g + ucast (p :: u64)) = unat g + unat p"
proof -
  have p: "unat p < 2 ^ 64" using unat_lt_u64 [of p] by simp
  then have p': "unat p < 2 ^ 256" by (rule order_less_trans) simp
  have "unat (ucast p :: 256 word) = unat p" by (simp add: unsigned_ucast_eq take_bit_nat_eq_self [OF p'])
  moreover have "unat g + unat p < 2 ^ 256"
    by (rule order_less_le_trans [OF add_strict_mono [OF assms p]]) simp
  ultimately show ?thesis by (simp add: unat_word_ariths)
qed

lemma charge_spec:
  assumes E: "e_getPrice E = Some (GetPrice base)" and l: "0 \<le> sint l" and m: "metered 0 l v"
    and i: "i < length (v_istack v)" and c: "charge E i op p v = (Inr (), v1)"
  shows "metered (unat (v_gasConsumed v)) l v1 \<and> v_istack v1 = v_istack v \<and>
    (c_ip (v_istack v ! i) < length (c_prog (v_istack v ! i)) \<longrightarrow>
       unat (v_gasConsumed v1) = unat (v_gasConsumed v) + unat (GetPrice base op p) \<and> unat (v_gasConsumed v1) \<le> unat l)"
proof -
  let ?c = "v_istack v ! i"
  have sc: "\<not> sc_whitelisted (sc_of v ?c)" "sc_prog (sc_of v ?c) = c_prog ?c"
    using m i by (auto simp: metered_def sc_of_def)
  have lim: "v_gasLimit v = l" and g: "unat (v_gasConsumed v) < 2 ^ 255" using m by (auto simp: metered_def)
  show ?thesis
  proof (cases "c_ip ?c < length (c_prog ?c)")
    case True
    let ?v = "v\<lparr>v_gasConsumed := v_gasConsumed v + ucast (GetPrice base op p)\<rparr>"
    have r: "charge E i op p v = (if unat l < unat (v_gasConsumed ?v) then (Inl GasLimitExceeded, ?v) else (Inr (), ?v))"
      using True sc E l lim
      by (simp add: charge_def bindM_def getM_def seqM_def modM_def panic_if_def panicM_def retM_def)
    with c have v1: "v1 = ?v" and le: "unat (v_gasConsumed ?v) \<le> unat l" by (auto split: if_splits)
    have "unat l < 2 ^ 64" using unat_lt_u64 [of l] by simp
    with le have "unat (v_gasConsumed ?v) < 2 ^ 255" by (rule order_le_less_trans [OF _ order_less_trans]) simp
    moreover have "unat (v_gasConsumed ?v) = unat (v_gasConsumed v) + unat (GetPrice base op p)"
      using unat_gas_add [OF g] by simp
    ultimately show ?thesis unfolding v1 using m le by (simp add: metered_def)
  next
    case False
    then have "v1 = v" using c E sc by (simp add: charge_def bindM_def getM_def retM_def)
    then show ?thesis using m False by (simp add: metered_def)
  qed
qed
text \<open>Operations that use gas or do not make the invocation stack longer.\<close>

definition tame :: "u64 \<Rightarrow> ('i, 'a) vm_op \<Rightarrow> bool" where
  "tame l m \<longleftrightarrow> (\<forall>v x v'. metered 0 l v \<longrightarrow> m v = (Inr x, v') \<longrightarrow>
    metered 0 l v' \<and> gas_left l v' \<le> gas_left l v \<and>
    (gas_left l v' < gas_left l v \<or> length (v_istack v') \<le> length (v_istack v)))"

lemma tame_bind: "tame l m \<Longrightarrow> (\<And>x. tame l (f x)) \<Longrightarrow> tame l (bindM m f)"
proof -
  assume m: "tame l m" and f: "\<And>x. tame l (f x)"
  show "tame l (bindM m f)" unfolding tame_def
  proof (intro allI impI)
    fix v y v' assume v: "metered 0 l v" and b: "bindM m f v = (Inr y, v')"
    obtain r w where mv: "m v = (r, w)" by (cases "m v")
    with b obtain x where x: "r = Inr x" and fx: "f x w = (Inr y, v')" by (cases r) (auto simp: bindM_def)
    have 1: "metered 0 l w" "gas_left l w \<le> gas_left l v" "gas_left l w < gas_left l v \<or> length (v_istack w) \<le> length (v_istack v)"
      using m v mv x unfolding tame_def by blast+
    have 2: "metered 0 l v'" "gas_left l v' \<le> gas_left l w" "gas_left l v' < gas_left l w \<or> length (v_istack v') \<le> length (v_istack w)"
      using f 1(1) fx unfolding tame_def by blast+
    show "metered 0 l v' \<and> gas_left l v' \<le> gas_left l v \<and>
        (gas_left l v' < gas_left l v \<or> length (v_istack v') \<le> length (v_istack v))"
      using 1 2 by linarith
  qed
qed

lemma tame_seq: "tame l m \<Longrightarrow> tame l n \<Longrightarrow> tame l (seqM m n)"
  unfolding seqM_def by (rule tame_bind)

lemma tame_panic: "tame l (panicM e)"
  by (simp add: tame_def panicM_def)

lemma tame_if: "tame l m \<Longrightarrow> tame l n \<Longrightarrow> tame l (if b then m else n)"
  by simp

lemma tame_option: "tame l m \<Longrightarrow> (\<And>a. tame l (f a)) \<Longrightarrow> tame l (case x of None \<Rightarrow> m | Some a \<Rightarrow> f a)"
  by (cases x) auto

lemma length_ctl: "length (v_istack v) = length (fst (ctl v))"
  by (simp add: ctl_def)

lemma gas_left_ctl: "gas_left l v = unat l + 1 - unat (fst (snd (snd (ctl v))))"
  by (simp add: gas_left_def ctl_def)

lemma tame_ctl: "(\<And>v. ctl (snd (m v)) = ctl v) \<Longrightarrow> tame l m"
proof -
  assume c: "\<And>v. ctl (snd (m v)) = ctl v"
  show "tame l m" unfolding tame_def
  proof (intro allI impI)
    fix v x v' assume v: "metered 0 l v" and "m v = (Inr x, v')"
    then have e: "ctl v' = ctl v" using c [of v] by simp
    show "metered 0 l v' \<and> gas_left l v' \<le> gas_left l v \<and>
        (gas_left l v' < gas_left l v \<or> length (v_istack v') \<le> length (v_istack v))"
      using v unfolding metered_ctl gas_left_ctl length_ctl e by simp
  qed
qed

lemma ctl_hrM [simp]: "ctl (snd (hrM f v)) = ctl v"
  by (simp add: hrM_def modM_def split: prod.split)

lemma tame_basic: "tame l (retM x)" "tame l (getM g)" "tame l (hrM f)" "tame l (panic_if b e)"
  by (rule tame_ctl, simp add: retM_def getM_def panic_if_def panicM_def)+

lemma tame_DynamicOnUnload: "tame l (DynamicOnUnload c b)"
proof -
  have m: "tame l (modM (\<lambda>v. let s = sc_estack (sc_of v c') in v\<lparr>v_stacks := (v_stacks v)[s := stack_at v s @ [NullI]]\<rparr>))" for c'
    by (rule tame_ctl) (simp add: modM_def Let_def)
  show ?thesis unfolding DynamicOnUnload_def refs_Add_def
    by (intro tame_if tame_bind tame_option tame_seq tame_panic tame_basic m)
qed

lemma metered_mono: "metered g l v \<Longrightarrow> metered (unat (v_gasConsumed v)) l v"
  by (simp add: metered_def)

lemma metered_left: "metered g l v \<Longrightarrow> gas_left l v \<le> unat l + 1 - g"
  unfolding metered_def gas_left_def by (intro diff_le_mono2) blast

lemma metered_opD:
  assumes "metered_op l m" and "metered g l v" and "m v = (Inr (), v')"
  shows "metered g l v'"
proof -
  have v: "metered 0 l v" and g: "g \<le> unat (v_gasConsumed v)" using assms(2) by (simp_all add: metered_def)
  from assms(1) v assms(3) have "metered (unat (v_gasConsumed v)) l v'" unfolding metered_op_def by blast
  with g show ?thesis by (simp add: metered_def)
qed

lemma tame_metered_op:
  assumes m: "metered_op l m"
    and len: "\<And>v v'. metered 0 l v \<Longrightarrow> m v = (Inr (), v') \<Longrightarrow> gas_left l v' < gas_left l v \<or> length (v_istack v') \<le> length (v_istack v)"
  shows "tame l m"
  unfolding tame_def
proof (intro allI impI)
  fix v x v' assume v: "metered 0 l v" and "m v = (Inr x, v')"
  then have mv: "m v = (Inr (), v')" by simp
  have "gas_left l v' \<le> gas_left l v"
    using metered_left [OF metered_opD [OF m metered_mono [OF v] mv]] by (simp add: gas_left_def)
  with metered_opD [OF m v mv] len [OF v mv] show "metered 0 l v' \<and> gas_left l v' \<le> gas_left l v \<and>
      (gas_left l v' < gas_left l v \<or> length (v_istack v') \<le> length (v_istack v))" by simp
qed

lemma tame_env:
  assumes "metered_env l E"
  shows "tame l (e_onUnload E k c b)" and "tame l (e_onUnloaded E k)"
  by (rule tame_metered_op; use assms in \<open>unfold metered_env_def, blast\<close>)+

lemma keeps_rollback:
  fixes m :: "('i, unit) vm_op"
  assumes "metered_op l m"
  shows "keeps (metered g l) anything (rollback m)"
proof (rule keepsI)
  fix v :: "'i vm" assume v: "metered g l v"
  show "metered g l (snd (rollback m v))"
    using metered_opD [OF assms v] v unfolding rollback_def by (cases "m v"; cases "fst (m v)") auto
qed simp

lemma env_keeps_rollback: "metered_env l E \<Longrightarrow> env_keeps (metered g l) (rollback_env E)"
  unfolding metered_env_def env_keeps_def rollback_env_def by (auto simp: keeps_rollback)

lemma tame_unloadContext: "metered_env l E \<Longrightarrow> tame l (unloadContext E c)"
proof -
  assume E: "metered_env l E"
  have cb: "tame l (case x of UnloadDynamic \<Rightarrow> DynamicOnUnload c b | UnloadExternal k \<Rightarrow> e_onUnload E k c b)" for x b
    using tame_DynamicOnUnload tame_env [OF E] by (cases x) auto
  show ?thesis unfolding unloadContext_def
    by (intro tame_if tame_bind tame_option tame_seq tame_panic tame_basic cb tame_env [OF E])
qed

lemma tame_return_values: "tame l (return_values c)"
proof -
  have m: "tame l (modM (\<lambda>v. v\<lparr>v_stacks := (v_stacks v)[new := stack_at v new @ vals], v_estack := new\<rparr>))" for new vals
    by (rule tame_ctl) (simp add: modM_def)
  have p: "tame l (case p of (a, b) \<Rightarrow> f a b)" if "\<And>a b. tame l (f a b)" for p :: "'c \<times> 'd" and f :: "'c \<Rightarrow> 'd \<Rightarrow> ('i, unit) vm_op"
    using that by (cases p) auto
  show ?thesis unfolding return_values_def
    by (assumption | rule tame_bind tame_basic p tame_option tame_if tame_seq m)+
qed

lemma RET_shrinks:
  assumes E: "metered_env l E" and m: "metered 0 l v" and r: "exec_RET E v = (Inr (), v')"
  shows "gas_left l v' \<le> gas_left l v \<and> (gas_left l v' < gas_left l v \<or> length (v_istack v') < length (v_istack v))"
proof -
  from r have ne: "v_istack v \<noteq> []" by (auto simp: exec_RET_def bindM_def getM_def vm_Context_def panicM_def)
  let ?c = "last (v_istack v)" and ?v = "v\<lparr>v_istack := butlast (v_istack v)\<rparr>"
  have h: "tame l (modM (\<lambda>v :: 'a vm. if v_istack v = [] then v\<lparr>v_state := stateHalt\<rparr> else v))"
    by (rule tame_ctl) (simp add: modM_def)
  have t: "tame l (seqM (return_values ?c) (seqM (modM (\<lambda>v. if v_istack v = [] then v\<lparr>v_state := stateHalt\<rparr> else v))
      (unloadContext E ?c)))"
    by (intro tame_seq tame_return_values h tame_unloadContext E)
  have "(seqM (return_values ?c) (seqM (modM (\<lambda>v. if v_istack v = [] then v\<lparr>v_state := stateHalt\<rparr> else v))
      (unloadContext E ?c))) ?v = (Inr (), v')"
    using r ne by (simp add: exec_RET_def bindM_def getM_def vm_Context_def seqM_def modM_def)
  moreover have "metered 0 l ?v" using m by (auto simp: metered_def dest: in_set_butlastD)
  ultimately have "gas_left l v' \<le> gas_left l ?v \<and> (gas_left l v' < gas_left l ?v \<or> length (v_istack v') \<le> length (v_istack ?v))"
    using t unfolding tame_def by blast
  moreover have "length (v_istack ?v) < length (v_istack v)" using ne by (cases "v_istack v") simp_all
  moreover have "gas_left l ?v = gas_left l v" by (simp add: gas_left_def)
  ultimately show ?thesis by linarith
qed

lemma Next_progress:
  assumes "Next nextip prog = ((op, Inr p), n)" and "nextip < length prog"
  shows "nextip < n" and "n \<le> length prog" and "opcode_IsValid op" and "op < 256"
proof -
  have "Suc nextip \<le> q" if "param_size op (Suc nextip) prog = Inr (k, q)" for op k q
    using that unfolding param_size_def by (auto split: if_splits simp: Let_def)
  with assms show "nextip < n" unfolding Next_def by (fastforce simp: Let_def split: if_splits sum.splits)
  show "n \<le> length prog" using assms unfolding Next_def by (auto simp: Let_def split: if_splits sum.splits)
  have op: "op = unat (prog ! nextip)" and "opcode_IsValid op"
    using assms unfolding Next_def by (auto simp: Let_def split: if_splits sum.splits)
  then show "opcode_IsValid op" "op < 256" using unsigned_less [of "prog ! nextip", where 'a = nat] by simp_all
qed

lemma bind_panic: "bindM m (\<lambda>x. panicM e) v \<noteq> (Inr y, v')"
  by (cases "m v"; cases "fst (m v)") (auto simp: bindM_def panicM_def)

lemma ABORT_faults: "op = op_ABORT \<or> op = op_ABORTMSG \<Longrightarrow> exec_op E i op p v \<noteq> (Inr (), v')"
  by (elim disjE) (simp_all add: exec_op_def exec_flow_def exec_type_def bind_panic, simp add: panicM_def)

lemma exec_RET_op: "exec_op E i op_RET p = exec_RET E"
  by (simp add: exec_op_def exec_flow_def)

lemma exec_SYSCALL_op:
  "exec_op E i op_SYSCALL p = (case e_SyscallHandler E of
      None \<Rightarrow> panicM (Message ''vm's SyscallHandler is not initialized'') | Some f \<Rightarrow> f (of_nat (le_nat p)))"
  by (simp add: exec_op_def exec_flow_def)

text \<open>Rounds left: gas, then contexts, then the rest of the program.\<close>

definition rest :: "'i vm \<Rightarrow> nat" where
  "rest v = (case vm_Context v of None \<Rightarrow> 0 | Some c \<Rightarrow> length (c_prog c) - c_nextip c)"

definition rounds :: "u64 \<Rightarrow> 'i vm \<Rightarrow> nat \<times> nat \<times> nat" where
  "rounds l v = (gas_left l v, length (v_istack v), rest v)"

abbreviation fewer :: "((nat \<times> nat \<times> nat) \<times> (nat \<times> nat \<times> nat)) set" where
  "fewer \<equiv> less_than <*lex*> less_than <*lex*> less_than"

lemma gas_op:
  assumes E: "metered_env l E" and m: "metered g l v" and r: "exec_op E i op p v = (Inr (), v')"
  shows "metered g l v'"
proof -
  have "exec_op (rollback_env E) i op p v = (Inr (), v')" using within_op r unfolding within_def by blast
  with keepsD [OF gas.k_exec_op, of g l "rollback_env E" v i op p] env_keeps_rollback [OF E] m show ?thesis by simp
qed

lemma op_decreases:
  assumes E: "metered_env l E" and price: "e_getPrice E = Some (GetPrice base)" and base: "0 < unat base" "unat base < 2 ^ 47"
    and l: "0 \<le> sint l" and m: "metered 0 l v" and ne: "v_istack v \<noteq> []"
    and op: "Next (c_nextip (last (v_istack v))) (c_prog (last (v_istack v))) = ((op, Inr p), n)"
    and w: "w = upd_ctx (length (v_istack v) - 1) (\<lambda>c. c\<lparr>c_ip := c_nextip c, c_nextip := n\<rparr>) v"
    and c: "charge E (length (v_istack v) - 1) op p w = (Inr (), v1)"
    and r: "exec_op E (length (v_istack v) - 1) op p v1 = (Inr (), v')"
  shows "metered 0 l v' \<and> (rounds l v', rounds l v) \<in> fewer"
proof -
  let ?i = "length (v_istack v) - 1" and ?c = "last (v_istack v)"
  have i: "?i < length (v_istack w)" "length (v_istack w) = length (v_istack v)" using ne by (simp_all add: w upd_ctx_def)
  have wi: "v_istack w ! ?i = ?c\<lparr>c_ip := c_nextip ?c, c_nextip := n\<rparr>"
    using ne by (simp add: w upd_ctx_def last_conv_nth)
  have mw: "metered 0 l w" unfolding w by (rule metered_upd_ctx [OF m]) simp
  have gw: "v_gasConsumed w = v_gasConsumed v" by (simp add: w upd_ctx_def)
  from charge_spec [OF price l mw i(1) c] have m1: "metered (unat (v_gasConsumed v)) l v1" and s1: "v_istack v1 = v_istack w"
    and ch: "c_nextip ?c < length (c_prog ?c) \<Longrightarrow>
      unat (v_gasConsumed v1) = unat (v_gasConsumed v) + unat (GetPrice base op p) \<and> unat (v_gasConsumed v1) \<le> unat l"
    by (simp_all add: wi [simplified] gw)
  have m10: "metered 0 l v1" using m1 by (simp add: metered_def)
  have mv': "metered 0 l v'" by (rule gas_op [OF E m10 r])
  have g1: "gas_left l v1 \<le> gas_left l v" using metered_left [OF m1] by (simp add: gas_left_def)
  have g': "gas_left l v' \<le> gas_left l v1"
    using metered_left [OF gas_op [OF E metered_mono [OF m10] r]] by (simp add: gas_left_def)
  have "gas_left l v' < gas_left l v \<or> gas_left l v' = gas_left l v \<and>
     (length (v_istack v') < length (v_istack v) \<or> length (v_istack v') = length (v_istack v) \<and> rest v' < rest v)"
  proof (cases "op = op_RET")
    case True
    then have "exec_RET E v1 = (Inr (), v')" using r by (simp only: exec_RET_op)
    from RET_shrinks [OF E m10 this] g1 g' show ?thesis using s1 i(2) by (metis order_le_less order_le_less_trans order_less_le_trans)
  next
    case False
    have lt: "c_nextip ?c < length (c_prog ?c)" using op False unfolding Next_def by (auto split: if_splits)
    note N = Next_progress [OF op lt]
    show ?thesis
    proof (cases "op \<in> free_ops")
      case f: True
      then have sys: "op = op_SYSCALL" using False ABORT_faults [of op E ?i p v1 v'] r by (auto simp: free_ops_def)
      then obtain f k where f: "e_SyscallHandler E = Some f" and fr: "f k v1 = (Inr (), v')"
        using r unfolding sys exec_SYSCALL_op by (auto simp: panicM_def split: option.splits)
      have "gas_left l v' < gas_left l v1 \<or> length (v_istack v') < length (v_istack v1) \<or> v_istack v' = v_istack v1"
        using E m10 f fr unfolding metered_env_def by blast
      moreover have "rest v' < rest v" if "v_istack v' = v_istack v1"
      proof -
        have "v_istack v' ! ?i = ?c\<lparr>c_ip := c_nextip ?c, c_nextip := n\<rparr>" "v_istack v' \<noteq> []" "length (v_istack v') = length (v_istack v)"
          using that s1 wi i ne by auto
        then have "vm_Context v' = Some (?c\<lparr>c_ip := c_nextip ?c, c_nextip := n\<rparr>)" by (simp add: vm_Context_def last_conv_nth)
        moreover have "vm_Context v = Some ?c" using ne by (simp add: vm_Context_def)
        ultimately show ?thesis using N(1,2) lt by (simp add: rest_def)
      qed
      ultimately show ?thesis using g1 g' s1 i(2) by (metis order_le_less order_le_less_trans order_less_le_trans)
    next
      case f: False
      have "0 < coefficients ! op" by (rule coefficients_bounds(1) [OF N(4) N(3) f])
      then have "0 < unat (GetPrice base op p)" using unat_GetPrice(1) [OF N(4) base(2)] base(1) by simp
      with ch [OF lt] have "gas_left l v1 < gas_left l v" unfolding gas_left_def by linarith
      with g' show ?thesis by linarith
    qed
  qed
  then show ?thesis using mv' by (auto simp: rounds_def)
qed

lemma step_decreases:
  assumes "metered_env l E" and "e_getPrice E = Some (GetPrice base)" and "0 < unat base" "unat base < 2 ^ 47"
    and "0 \<le> sint l" and "metered 0 l v" and s: "vm_step E v = (Inr (), v')"
  shows "metered 0 l v' \<and> (rounds l v', rounds l v) \<in> fewer"
proof -
  from s have ne: "v_istack v \<noteq> []" by (auto simp: vm_step_def)
  let ?i = "length (v_istack v) - 1"
  obtain op q n where N: "Next (c_nextip (last (v_istack v))) (c_prog (last (v_istack v))) = ((op, q), n)" by (metis surj_pair)
  let ?w = "upd_ctx ?i (\<lambda>c. c\<lparr>c_ip := c_nextip c, c_nextip := n\<rparr>) v"
  from s N ne obtain p where q: "q = Inr p" and e: "execute E ?i op p ?w = (Inr (), v')"
    by (cases q) (auto simp: vm_step_def Let_def last_conv_nth)
  obtain x v1 where c: "charge E ?i op p ?w = (x, v1)" by (cases "charge E ?i op p ?w")
  have "x = Inr () \<and> exec_op E ?i op p v1 = (Inr (), v')"
    using e c by (cases x) (auto simp: execute_def seqM_def bindM_def split: prod.splits sum.splits if_splits)
  with op_decreases [OF assms(1-6) ne N [unfolded q] refl] c show ?thesis by blast
qed

section \<open>Runs end\<close>

lemma wf_fewer: "wf fewer"
  by (intro wf_lex_prod wf_less_than)

lemma run_loop_more: "run_loop E n v = Some r \<Longrightarrow> n \<le> m \<Longrightarrow> run_loop E m v = Some r"
proof (induction n arbitrary: v m)
  case (Suc n)
  then obtain k where k: "m = Suc k" "n \<le> k" by (cases m) auto
  show ?case
    using Suc(1) [OF _ k(2)] Suc(2) unfolding k(1) by (auto split: if_splits prod.splits sum.splits)
qed simp

lemma run_loop_ends:
  assumes E: "metered_env l E" and "e_getPrice E = Some (GetPrice base)" and "0 < unat base" "unat base < 2 ^ 47" and "0 \<le> sint l"
  shows "metered 0 l v \<Longrightarrow> \<exists>n r. run_loop E n v = Some r"
proof (induction "rounds l v" arbitrary: v rule: wf_induct_rule [OF wf_fewer])
  case (1 v)
  obtain x w where s: "vm_step E v = (x, w)" by (cases "vm_step E v")
  show ?case
  proof (cases "v_state v = stateNone \<and> x = Inr ()")
    case True
    let ?w = "if atBreakPoint w then w\<lparr>v_state := stateBreak\<rparr> else w"
    have "metered 0 l w" "(rounds l w, rounds l v) \<in> fewer" using step_decreases [OF assms 1(2)] s True by auto
    moreover have "metered 0 l ?w = metered 0 l w" "rounds l ?w = rounds l w"
      by (simp_all add: metered_def rounds_def rest_def gas_left_def vm_Context_def)
    ultimately obtain n r where "run_loop E n ?w = Some r" using 1(1) [of ?w] by metis
    then have "run_loop E (Suc n) v = Some r" using s True by (simp add: HasFlag_def)
    then show ?thesis by blast
  next
    case False
    then have "\<exists>r. run_loop E (Suc 0) v = Some r" using s by (cases x) auto
    then show ?thesis by blast
  qed
qed

text \<open>C1. A metered machine always stops: with prices from \<open>GetPrice\<close>, a positive base price, a limit that is not negative and system
  calls that charge for what they do, some number of rounds of \<open>Run\<close>'s loop is enough for every program, loops included; more rounds
  change nothing.\<close>

theorem Run_terminates:
  assumes "metered_env l E" and "e_getPrice E = Some (GetPrice base)" and "0 < unat base" and "unat base < 2 ^ 47"
    and "0 \<le> sint l" and "metered 0 l v"
  shows "\<exists>n r v'. \<forall>m\<ge>n. vm_Run E m v = Some (r, v')"
proof -
  have m: "metered 0 l (v\<lparr>v_state := stateNone\<rparr>)" using assms(6) by (simp add: metered_def)
  obtain n r where n: "run_loop E n (v\<lparr>v_state := stateNone\<rparr>) = Some r" using run_loop_ends [OF assms(1-5) m] by blast
  show ?thesis
  proof (cases "v_istack v = [] \<or> HasFlag (v_state v) stateFault")
    case True
    then have "\<exists>r v'. \<forall>m\<ge>0. vm_Run E m v = Some (r, v')" by (cases "v_istack v = []") (simp_all add: vm_Run_def)
    then show ?thesis by blast
  next
    case False
    then have "\<forall>m\<ge>n. vm_Run E m v = Some (fst r, snd r)" using run_loop_more [OF n] by (simp add: vm_Run_def)
    then show ?thesis by blast
  qed
qed

text \<open>An environment whose system calls charge a fixed price, and a machine in it that loads one script.\<close>

definition charging_env :: "u64 \<Rightarrow> unit vm_env" where
  "charging_env price = \<lparr>e_getPrice = Some (GetPrice 1), e_Gorgon = True, e_SyscallHandler = Some (\<lambda>_. AddPicoGas price),
     e_LoadToken = (\<lambda>_. panicM RuntimePanic), e_onUnload = (\<lambda>_ _ _. retM ()), e_onUnloaded = (\<lambda>_. retM ()),
     e_hash160 = (\<lambda>b. replicate 20 0), e_interopEquals = (=)\<rparr>"

definition loaded :: "u64 \<Rightarrow> bytes \<Rightarrow> unit vm" where
  "loaded datoshi b = snd (LoadScriptWithFlags (charging_env 1) b 15 (SetGasLimit datoshi NewVM))"

lemma AddPicoGas_metered:
  assumes m: "metered 0 l v" and l: "0 \<le> sint l" and r: "AddPicoGas price v = (Inr (), v')"
  shows "metered (unat (v_gasConsumed v)) l v' \<and> v_istack v' = v_istack v"
proof -
  have c: "case vm_Context v of None \<Rightarrow> True | Some c \<Rightarrow> \<not> sc_whitelisted (sc_of v c)"
    using m by (auto simp: metered_def vm_Context_def sc_of_def)
  let ?g = "v_gasConsumed v + ucast price"
  from r c l m have v': "v' = v\<lparr>v_gasConsumed := ?g\<rparr>" and le: "unat ?g \<le> unat l"
    by (auto simp: AddPicoGas_def addPicoGasInternal_def metered_def Let_def split: if_splits)
  have "unat l < 2 ^ 64" using unat_lt_u64 [of l] by simp
  with le have "unat ?g < 2 ^ 255" by (rule order_le_less_trans [OF _ order_less_trans]) simp
  moreover have "unat (v_gasConsumed v) \<le> unat ?g" using m by (simp add: unat_gas_add metered_def)
  ultimately show ?thesis using m by (simp add: v' metered_def)
qed

lemma charging_env_metered: "0 \<le> sint l \<Longrightarrow> metered_env l (charging_env price)"
  unfolding metered_env_def metered_op_def
  by (auto simp: charging_env_def panicM_def retM_def metered_mono dest: AddPicoGas_metered)

lemma loaded_metered: "metered 0 (v_gasLimit (SetGasLimit d (NewVM :: unit vm))) (loaded d b)"
  by (simp add: loaded_def LoadScriptWithFlags_def getContextScriptHash_def bindM_def getM_def retM_def NewVM_def SetGasLimit_def
      loadScriptWithCallingHash_def seqM_def checkInvocationStackSize_def panic_if_def modM_def vm_Context_def stack_at_def metered_def)

lemma loaded_1000: "metered 0 10000000 (loaded 1000 b)"
  using loaded_metered [of 1000 b] by (simp add: SetGasLimit_def NewVM_def)

theorem Run_terminates_witness:
  "\<exists>n r v'. \<forall>m\<ge>n. vm_Run (charging_env 100) m (loaded 1000 [0x22, 0]) = Some (r, v')"
  by (rule Run_terminates [where l = 10000000 and base = 1])
     (simp_all add: charging_env_metered loaded_1000, simp add: charging_env_def)

end
