(* ===== verification/Spec2Isabelle.thy ===== *)
theory Spec2Isabelle
  imports BigIntCodec BinIO CacheFlush ForkStore MptBatchMap MptProof WitnessCheck MempoolProps ChainPersist DevNodeProps VmGas
begin

text \<open>
  Nanvil is a development node for the Neo N3 block chain, a fork of neo-go: it runs a private chain or a
  lazy fork of a public one, whose state it fetches from an RPC node and verifies against the branch's
  state root, and lets a developer send transactions in the name of any account. This library models
  the parts of it that decide what the state is and who may change it, and proves them correct. Sources
  are named relative to \<open>src/pkg\<close>.

  \<^bold>\<open>Encodings.\<close> \<open>BigIntCodec\<close> is \<open>encoding/bigint\<close> at the level of its 64-bit limbs, with the in-place
  decrement of a negative argument: the codec is two's complement, shortest, and leaves its argument
  intact. \<open>BinIO\<close> is \<open>io\<close>: the reader and the writer are records with a buffer and a sticky error; its
  locale \<open>wire_codec\<close> states what an encoder and a decoder promise each other, and the codecs of the
  later theories are interpretations of it.

  \<^bold>\<open>Stores.\<close> \<open>KVStore\<close> is \<open>core/storage\<close>: the store interface is the record \<open>store_ops\<close>, a change set is a
  pair of association lists in which \<open>None\<close> is the tombstone, a seek is the list of the items the
  callback receives. \<open>CacheFlush\<close> is the flush of \<open>MemCachedStore\<close> as a step relation: the flush swaps the
  maps, writes and finishes in three steps, between which other goroutines read and write.
  \<open>ForkStore\<close> is \<open>nanvil/fork\<close>: the overlay that records writes, the remote state reader with its cache,
  and the store that joins them. The RPC node is an argument (\<open>net\<close>): nothing is assumed of its answers.

  \<^bold>\<open>State root.\<close> \<open>Hashing\<close> is SHA-256 written out, the Merkle tree and the in-place Merkle root of
  \<open>crypto/hash\<close>. \<open>MptNode\<close>, \<open>MptTree\<close> and \<open>MptTrie\<close> are the Merkle Patricia trie of \<open>core/mpt\<close>: nodes and their
  binary form, the specification of a trie as a map from paths, and the operations with the reference
  counts they leave for the next flush. \<open>MptRefine\<close> and \<open>MptMap\<close> prove that the operations implement the
  map, keep the canonical form and count exactly; \<open>MptBatch\<close> and \<open>MptBatchMap\<close> that the one-pass batch
  update is the sequence of the single ones; \<open>MptProof\<close> that proofs are complete and sound up to hash
  collisions, which are a hypothesis on the finitely many nodes in question (\<open>no_collision\<close>). Tries are
  resolved through a store, so the recursion takes fuel, which only hash nodes consume: a trie of
  hash depth \<open>d\<close> needs more than \<open>d\<close>, a proof as many as it has nodes, and a batch 276, the longest path
  plus the levels a batch can add; the theorems state that this fuel gives the result.

  \<^bold>\<open>Transactions.\<close> \<open>WitnessRules\<close> and \<open>Transaction\<close> are \<open>core/transaction\<close>: conditions, rules, signers,
  attributes, witnesses and transactions with their codecs, the limits of the decoders and \<open>isValid\<close>.
  Public keys are a type parameter, and their codec an argument about which only the laws of
  \<open>wire_codec\<close> and \<open>safe_decoder\<close> are used. \<open>WitnessCheck\<close> is the run-time check of a witness
  (\<open>core/interop/runtime/witness.go\<close>), the registry of impersonated accounts (\<open>nanvil/impersonate\<close>) and the
  loop over the witnesses of a transaction (\<open>core/blockchain.go\<close>); the execution of a verification script
  is an argument. \<open>Mempool\<close> is \<open>core/mempool\<close>: \<open>MempoolOrder\<close>, \<open>MempoolIndex\<close>, \<open>MempoolAdd\<close>, \<open>MempoolInv\<close> and
  \<open>MempoolFees\<close> prove what its order, its indexes, its operations and its fee sums keep, and
  \<open>MempoolProps\<close> states it. Fees are 64-bit and their sums 256-bit words.

  \<^bold>\<open>Chain.\<close> \<open>Block\<close> is \<open>core/block\<close>: headers, blocks and trimmed blocks with their codecs and size estimates. \<open>Dao\<close> is
  the part of \<open>core/dao\<close> that stores headers, blocks, transactions and conflict records, over a map from keys to
  values; \<open>HeaderHashes\<close> is \<open>core/headerhashes.go\<close>, proved to implement the list of all header hashes whatever its page cache
  evicts. \<open>ChainVerify\<close> is what \<open>core/blockchain.go\<close> does with transactions, headers and blocks, up to their execution. The
  state of the native contracts is an opaque ledger and what the chain asks of it, the execution of a block included, are
  functions of the record \<open>env\<close>, about which nothing is assumed. The walk back to the last stored page takes fuel
  (\<open>walk_back\<close>): 2000 steps, the size of a page, which \<open>restart_recovers_header_hashes\<close> shows to be enough.

  \<^bold>\<open>Development node.\<close> \<open>ChainPersist\<close> is \<open>nanvil/persist\<close>, \<open>nanvil/snapshot\<close> and \<open>nanvil/txregistry\<close>: saved chains with what JSON does
  to their strings, snapshots, and the answers about unknown transactions. \<open>DevNode\<close> is the block builder and the producer of
  \<open>nanvil/producer\<close>, the operations of \<open>nanvil/node\<close> and the calls of \<open>nanvil/rpc\<close>; the clock is an argument. \<open>DevNodeProps\<close> has the
  steps of a node that mines automatically as a relation (\<open>node_step\<close>), in which the goroutines of clients, worker and tickers
  interleave, and proves that the pool is emptied.

  \<^bold>\<open>Conventions.\<close> A Go error is a value of an error type; a panic is a value of its own (\<open>Inl\<close> of a message
  or a constructor such as \<open>MptPanic\<close>), never an unspecified result. Machine integers are words. Maps
  whose order matters are association lists, others HOL maps. Locks are not modelled, since every
  operation holds its lock from start to end, except where the code releases it, which is what
  \<open>CacheFlush\<close> is about. Channels and callbacks are logs of effects. Caches of hashes inside nodes and
  transactions are modelled where a caller can observe them.

  \<^bold>\<open>Not modelled.\<close> The interpreter's interop services and the native contracts, the reset and the state
  jumps of the chain, garbage collection, token transfer logs, consensus, the network, the RPC server and clients, the compiler,
  wallets and key handling, configuration, the command line and the explorer: they are I/O, third-party cryptography or tools
  beside the node, or, as the native contracts, an argument of what is modelled. JSON forms other than that of
  saved chains, logging and metrics are left out of the modelled parts.
\<close>

section \<open>The fork reads the state of the remote chain\<close>

text \<open>The remote node with the verifier of \<open>MptProof\<close>.\<close>

definition checked_net :: "nat \<Rightarrow> net \<Rightarrow> net" where
  "checked_net fuel n = n\<lparr>n_VerifyProof := \<lambda>rh key proof.
     (case VerifyProof fuel rh key proof of Inr v \<Rightarrow> v | Inl _ \<Rightarrow> None)\<rparr>"

lemma rs_GetProof_checked:
  assumes "map_of (rs_mem r) (c, k) = None" "Option.bind (rs_cache r) (\<lambda>d. map_of d (c, k)) = None"
  shows "fst (rs_GetProof (checked_net fuel n) r c k) =
    (case n_GetProof n (rs_RootHash r) c k of None \<Rightarrow> None
     | Some (pkey, proof) \<Rightarrow> (case VerifyProof fuel (rs_RootHash r) pkey proof of Inr v \<Rightarrow> v | Inl _ \<Rightarrow> None))"
  using assms
  by (auto simp: rs_GetProof_def checked_net_def split: option.splits sum.splits prod.splits)

text \<open>C18. What a fork reads lazily from an untrusted RPC node is a value of the state trie with the
  branch's root hash, under the key the answer names, whatever the node answers, unless double
  SHA-256 collides on the nodes of that trie and of the answer.\<close>

theorem fork_reads_state_values:
  assumes "tree_holds T m" and "T \<noteq> EmptyNode" and "rs_RootHash r = node_Hash T"
    and "map_of (rs_mem r) (c, k) = None" and "Option.bind (rs_cache r) (\<lambda>d. map_of d (c, k)) = None"
    and "n_GetProof n (rs_RootHash r) c k = Some (pkey, proof)" and "no_collision T proof"
    and "fst (rs_GetProof (checked_net fuel n) r c k) = Some v"
  shows "m pkey = Some v"
  using VerifyProof_spec(1) [OF assms(1,2,7), of fuel pkey] assms(3,6,8)
  by (auto simp: rs_GetProof_checked [OF assms(4,5)])

theorem fork_reads_state_values_witness:
  "fst (rs_GetProof (checked_net 1 (no_net\<lparr>n_GetProof := \<lambda>_ _ _. Some ([], [node_Bytes (LeafNode [7])])\<rparr>))
     \<lparr>rs_RootHash = node_Hash (LeafNode [7]), rs_mem = [], rs_cache = None, rs_contractByID = []\<rparr> [1] [2]) = Some [7]
   \<and> [[] \<mapsto> [7]] ([] :: bytes) = Some ([7] :: bytes)"
proof -
  let ?n = "no_net\<lparr>n_GetProof := \<lambda>_ _ _. Some ([], [node_Bytes (LeafNode [7])])\<rparr>"
  let ?r = "\<lparr>rs_RootHash = node_Hash (LeafNode [7]), rs_mem = [], rs_cache = None, rs_contractByID = []\<rparr>"
  have nc: "no_collision (LeafNode [7]) [node_Bytes (LeafNode [7])]" by (simp add: no_collision_def)
  have v: "VerifyProof 1 (node_Hash (LeafNode [7])) [] [node_Bytes (LeafNode [7])] = Inr (Some [7])"
    by (rule VerifyProof_spec(2) [OF leaf_holds _ nc]) (simp_all add: toNibbles_def)
  have g: "fst (rs_GetProof (checked_net 1 ?n) ?r [1] [2]) = Some [7]"
    using v by (simp add: rs_GetProof_checked)
  then have "[[] \<mapsto> [7]] ([] :: bytes) = Some ([7] :: bytes)"
    using fork_reads_state_values [OF leaf_holds _ _ _ _ _ nc g] by simp
  with g show ?thesis by simp
qed

text \<open>The key the answer names is not compared with the key asked for: a node that answers every
  request with one genuine item of the state makes the fork read that item's value under every
  contract and every key.\<close>

theorem fork_accepts_proof_of_other_key:
  assumes "tree_holds T m" and "T \<noteq> EmptyNode" and "no_collision T []" and "m pkey = Some v"
  shows "\<exists>proof. \<forall>fuel r c k. length proof \<le> fuel \<longrightarrow> rs_RootHash r = node_Hash T
      \<longrightarrow> map_of (rs_mem r) (c, k) = None \<longrightarrow> Option.bind (rs_cache r) (\<lambda>d. map_of d (c, k)) = None
      \<longrightarrow> fst (rs_GetProof (checked_net fuel (no_net\<lparr>n_GetProof := \<lambda>_ _ _. Some (pkey, proof)\<rparr>)) r c k) = Some v"
  using VerifyProof_spec(2) [OF assms(1,2) no_collision_path [OF assms(3)] assms(4) refl]
  by (intro exI [of _ "map node_Bytes (path_nodes T (toNibbles pkey))"]) (auto simp: rs_GetProof_checked)

theorem fork_accepts_proof_of_other_key_witness:
  "\<exists>proof. \<forall>fuel. length proof \<le> fuel \<longrightarrow>
    fst (rs_GetProof (checked_net fuel (no_net\<lparr>n_GetProof := \<lambda>_ _ _. Some ([], proof)\<rparr>))
     \<lparr>rs_RootHash = node_Hash (LeafNode [7]), rs_mem = [], rs_cache = None, rs_contractByID = []\<rparr> [1] [2]) = Some [7]"
  using fork_accepts_proof_of_other_key [OF leaf_holds _ leaf_no_collision, of "[]" "[7]"]
  by (auto 0 3)

end
